(* ===== verification/RT_Prelude.thy ===== *)
theory RT_Prelude
  imports Main "HOL-Library.Word"
begin

text \<open>
  Shared ground of the RTAI development: the constants of
  \<^verbatim>\<open>include/rtai_sched.h\<close> that several components use (task states, error codes,
  priorities), C's 32-bit signed wrap-around, and the ordered insertion that every
  intrusive queue of the kernel (ready list, timed list, blocked queues) performs,
  with its laws stated once as the locale \<open>ordered_queue\<close>.
\<close>

unbundle bit_operations_syntax

named_theorems rt_consts \<open>numeric values of the header constants\<close>
named_theorems rt_frame \<open>what an operation leaves unchanged\<close>

section \<open>C integers\<close>

type_synonym u32 = "32 word"

text \<open>Conversion of an exact result to a C \<^verbatim>\<open>int\<close> (two's complement, 32 bits).\<close>

definition s32 :: "int \<Rightarrow> int" where
  "s32 x = (x + 2 ^ 31) mod 2 ^ 32 - 2 ^ 31"

abbreviation (input) int_max :: int where
  "int_max \<equiv> 2147483647"

lemma s32_id: "- (2 ^ 31) \<le> x \<Longrightarrow> x < 2 ^ 31 \<Longrightarrow> s32 x = x"
  unfolding s32_def by (subst mod_pos_pos_trivial) auto

lemma s32_range: "- (2 ^ 31) \<le> s32 x \<and> s32 x < 2 ^ 31"
  unfolding s32_def using pos_mod_bound [of "2 ^ 32" "x + 2 ^ 31"]
  by (simp add: pos_mod_sign)

lemma s32_add: "s32 (x + 2 ^ 32) = s32 x"
proof -
  have "x + 2 ^ 32 + 2 ^ 31 = (x + 2 ^ 31) + 2 ^ 32" by simp
  then show ?thesis unfolding s32_def by (simp only: mod_add_self2)
qed

lemma s32_small [simp]: "-2147483648 \<le> x \<Longrightarrow> x \<le> 2147483647 \<Longrightarrow> s32 x = x"
  by (rule s32_id) simp_all

section \<open>Constants of rtai\_sched.h\<close>

abbreviation (input) RT_SCHED_READY :: u32 where "RT_SCHED_READY \<equiv> 1"
abbreviation (input) RT_SCHED_SUSPENDED :: u32 where "RT_SCHED_SUSPENDED \<equiv> 2"
abbreviation (input) RT_SCHED_DELAYED :: u32 where "RT_SCHED_DELAYED \<equiv> 4"
abbreviation (input) RT_SCHED_SEMAPHORE :: u32 where "RT_SCHED_SEMAPHORE \<equiv> 8"
abbreviation (input) RT_SCHED_SEND :: u32 where "RT_SCHED_SEND \<equiv> 16"
abbreviation (input) RT_SCHED_RECEIVE :: u32 where "RT_SCHED_RECEIVE \<equiv> 32"
abbreviation (input) RT_SCHED_RPC :: u32 where "RT_SCHED_RPC \<equiv> 64"
abbreviation (input) RT_SCHED_RETURN :: u32 where "RT_SCHED_RETURN \<equiv> 128"
abbreviation (input) RT_SCHED_MBXSUSP :: u32 where "RT_SCHED_MBXSUSP \<equiv> 256"
abbreviation (input) RT_SCHED_SFTRDY :: u32 where "RT_SCHED_SFTRDY \<equiv> 512"
abbreviation (input) RT_SCHED_POLL :: u32 where "RT_SCHED_POLL \<equiv> 1024"

abbreviation (input) RT_SCHED_LINUX_PRIORITY :: int where "RT_SCHED_LINUX_PRIORITY \<equiv> 0x7fffffff"
abbreviation (input) RT_RESEM_SUSPDEL :: int where "RT_RESEM_SUSPDEL \<equiv> -0x7fffffff"
abbreviation (input) BASE_SOFT_PRIORITY :: int where "BASE_SOFT_PRIORITY \<equiv> 1000000000"
abbreviation (input) RTAI_TIME_LIMIT :: int where "RTAI_TIME_LIMIT \<equiv> 0x7000000000000000"

abbreviation (input) RT_TASK_MAGIC :: int where "RT_TASK_MAGIC \<equiv> 0x9ad25f6f"
abbreviation (input) RT_SEM_MAGIC :: int where "RT_SEM_MAGIC \<equiv> 0x3f83ebb"
abbreviation (input) RT_MBX_MAGIC :: int where "RT_MBX_MAGIC \<equiv> 0x3f81aab"

text \<open>
  Return values of the blocking services with \<^verbatim>\<open>CONFIG_RTAI_USE_NEWERR\<close>, the build's
  default.
\<close>

abbreviation (input) RTE_BASE :: int where "RTE_BASE \<equiv> 0x3FFFFF00"
abbreviation (input) RTE_TMROVRN :: int where "RTE_TMROVRN \<equiv> 0x3FFFFF01"
abbreviation (input) RTE_UNBLKD :: int where "RTE_UNBLKD \<equiv> 0x3FFFFF02"
abbreviation (input) RTE_TIMOUT :: int where "RTE_TIMOUT \<equiv> 0x3FFFFF03"
abbreviation (input) RTE_OBJREM :: int where "RTE_OBJREM \<equiv> 0x3FFFFF04"
abbreviation (input) RTE_OBJINV :: int where "RTE_OBJINV \<equiv> 0x3FFFFF05"
abbreviation (input) RTE_PERM :: int where "RTE_PERM \<equiv> 0x3FFFFF06"
abbreviation (input) RTE_DEADLOK :: int where "RTE_DEADLOK \<equiv> 0x3FFFFF07"
abbreviation (input) RTE_RWLINV :: int where "RTE_RWLINV \<equiv> 0x3FFFFF0B"
abbreviation (input) RTE_LOWERR :: int where "RTE_LOWERR \<equiv> RTE_TMROVRN"

abbreviation (input) RT_UNBLKD :: nat where "RT_UNBLKD \<equiv> 2"
abbreviation (input) RT_TIMOUT :: nat where "RT_TIMOUT \<equiv> 3"
abbreviation (input) RT_OBJREM :: nat where "RT_OBJREM \<equiv> 4"

abbreviation (input) EINVAL :: int where "EINVAL \<equiv> 22"
abbreviation (input) ENOMEM :: int where "ENOMEM \<equiv> 12"
abbreviation (input) EFAULT :: int where "EFAULT \<equiv> 14"
abbreviation (input) ETIME :: int where "ETIME \<equiv> 62"

definition rt_is_reterr :: "int \<Rightarrow> bool" where
  "rt_is_reterr i \<longleftrightarrow> i \<ge> RTE_LOWERR"

section \<open>Ordered insertion\<close>

text \<open>
  Every queue of the kernel is searched from its head for the first element at which the
  loop stops, and the new element is linked in just before it.
\<close>

fun queue_ins :: "('a \<Rightarrow> bool) \<Rightarrow> 'a \<Rightarrow> 'a list \<Rightarrow> 'a list" where
  "queue_ins stop n [] = [n]"
| "queue_ins stop n (x # xs) = (if stop x then n # x # xs else x # queue_ins stop n xs)"

lemma queue_ins_split:
  "queue_ins stop n xs = takeWhile (\<lambda>x. \<not> stop x) xs @ n # dropWhile (\<lambda>x. \<not> stop x) xs"
  by (induction xs) auto

lemma set_queue_ins [simp]: "set (queue_ins stop n xs) = insert n (set xs)"
  by (induction xs) auto

lemma length_queue_ins [simp]: "length (queue_ins stop n xs) = Suc (length xs)"
  by (induction xs) auto

lemma distinct_queue_ins [simp]: "distinct (queue_ins stop n xs) \<longleftrightarrow> n \<notin> set xs \<and> distinct xs"
  by (induction xs) auto

lemma queue_ins_not_Nil [simp]: "queue_ins stop n xs \<noteq> []"
  by (induction xs) auto

lemma remove1_queue_ins [simp]: "n \<notin> set xs \<Longrightarrow> remove1 n (queue_ins stop n xs) = xs"
  by (induction xs) auto

lemma queue_ins_cong:
  "(\<And>x. x \<in> set xs \<Longrightarrow> stop x = stop' x) \<Longrightarrow> queue_ins stop n xs = queue_ins stop' n xs"
  by (induction xs) auto

text \<open>
  The contract of such a queue: a key that the stop test respects. Then insertion keeps
  the queue sorted, so its head has the least key.
\<close>

locale ordered_queue =
  fixes key :: "'a \<Rightarrow> int" and stop :: "'a \<Rightarrow> 'a \<Rightarrow> bool"
  assumes stop_if_less: "key n < key x \<Longrightarrow> stop n x"
    and stop_only_le: "stop n x \<Longrightarrow> key n \<le> key x"
begin

abbreviation ordered :: "'a list \<Rightarrow> bool" where
  "ordered xs \<equiv> sorted (map key xs)"

lemma ordered_ins:
  assumes "ordered xs"
  shows "ordered (queue_ins (stop n) n xs)"
  using assms
proof (induction xs)
  case Nil
  then show ?case by simp
next
  case (Cons x xs)
  then have le: "\<forall>y \<in> set xs. key x \<le> key y" and IH: "ordered (queue_ins (stop n) n xs)" by auto
  show ?case
  proof (cases "stop n x")
    case True
    then have "key n \<le> key x" by (rule stop_only_le)
    then show ?thesis using True Cons.prems le by auto
  next
    case False
    then have "key x \<le> key n" using stop_if_less [of n x] by linarith
    then show ?thesis using False IH le by auto
  qed
qed

lemma head_least: "ordered (x # xs) \<Longrightarrow> y \<in> set (x # xs) \<Longrightarrow> key x \<le> key y"
  by auto

end

text \<open>With a strict test the queue is first-in first-out among equal keys.\<close>

locale fifo_queue = ordered_queue key "\<lambda>n x. key n < key x" for key :: "'a \<Rightarrow> int"
begin

lemma fifo_among_equals:
  assumes "ordered xs"
  shows "filter (\<lambda>x. key x = k) (queue_ins (\<lambda>x. key n < key x) n xs) =
    filter (\<lambda>x. key x = k) xs @ (if key n = k then [n] else [])"
  using assms
proof (induction xs)
  case Nil
  then show ?case by simp
next
  case (Cons x xs)
  show ?case
  proof (cases "key n < key x")
    case True
    then have "\<forall>y \<in> set (x # xs). key y \<noteq> key n" using Cons.prems by fastforce
    then show ?thesis using True by (auto simp: filter_empty_conv)
  qed (use Cons in auto)
qed

end

lemma fifo_queue_intro: "fifo_queue (key :: 'a \<Rightarrow> int)"
  by unfold_locales simp_all

section \<open>Lists\<close>

lemma sorted_map_remove1: "sorted (map f xs) \<Longrightarrow> sorted (map f (remove1 x xs))"
  by (induction xs) (auto dest: notin_set_remove1 set_remove1_subset [THEN subsetD])

lemma sorted_filter_takeWhile:
  "sorted (map f xs) \<Longrightarrow> filter (\<lambda>x. f x \<le> (k :: int)) xs = takeWhile (\<lambda>x. f x \<le> k) xs"
proof (induction xs)
  case (Cons x xs)
  show ?case
  proof (cases "f x \<le> k")
    case False
    then have "\<forall>y \<in> set xs. \<not> f y \<le> k" using Cons.prems by fastforce
    then show ?thesis using False by (simp add: filter_empty_conv)
  qed (use Cons in simp)
qed simp

lemma set_drop_distinct: "distinct xs \<Longrightarrow> set (drop n xs) = set xs - set (take n xs)"
proof -
  assume "distinct xs"
  then have "distinct (take n xs @ drop n xs)" by simp
  then have "set (take n xs) \<inter> set (drop n xs) = {}" by (simp only: distinct_append)
  moreover have "set xs = set (take n xs) \<union> set (drop n xs)"
    by (metis append_take_drop_id set_append)
  ultimately show ?thesis by auto
qed

lemma insert_set_remove1: "x \<in> set xs \<Longrightarrow> insert x (set (remove1 x xs)) = set xs"
  by (induction xs) auto

lemma count_list_distinct: "distinct xs \<Longrightarrow> count_list xs x = (if x \<in> set xs then 1 else 0)"
  by (induction xs) auto

section \<open>Rounding to powers of two\<close>

lemma unat_nat64: "n < 2 ^ 64 \<Longrightarrow> unat (word_of_nat n :: 64 word) = n"
  by (simp add: unsigned_of_nat take_bit_nat_eq_self)

lemma and_not_low:
  fixes n :: nat
  shows "(word_of_nat n :: 64 word) AND NOT (push_bit j 1 - 1) = word_of_nat (2 ^ j * (n div 2 ^ j))"
proof -
  have "push_bit j 1 - 1 = (mask j :: 64 word)" by (simp add: mask_eq_exp_minus_1)
  moreover have "(word_of_nat n :: 64 word) AND NOT (mask j) = word_of_nat (push_bit j (drop_bit j n))"
    by (rule bit_eqI) (auto simp: bit_simps)
  ultimately show ?thesis by (simp add: push_bit_eq_mult drop_bit_eq_div mult.commute)
qed

lemma round_up_quot:
  fixes n q :: nat
  assumes "0 < q"
  shows "n \<le> q * ((n + (q - 1)) div q)" "q * ((n + (q - 1)) div q) \<le> n + (q - 1)"
proof -
  show "q * ((n + (q - 1)) div q) \<le> n + (q - 1)" by simp
  have "n + (q - 1) < q * ((n + (q - 1)) div q) + q" using dividend_less_times_div [OF assms, of "n + (q - 1)"] by simp
  then show "n \<le> q * ((n + (q - 1)) div q)" using assms by linarith
qed

end
