(* ===== verification/Nam2num.thy ===== *)
theory Nam2num
  imports RT_Prelude
begin

text \<open>
  Names and numbers: \<^verbatim>\<open>include/rtai_nam2num.h\<close>. Every named RTAI object is
  registered under the number that \<^verbatim>\<open>nam2num\<close> computes from a name of at most six
  characters; \<^verbatim>\<open>num2nam\<close> converts back. The characters are read with the C
  locale's \<^verbatim>\<open>ctype\<close> classes, \<^verbatim>\<open>unsigned long\<close> has 64 bits and the local
  \<^verbatim>\<open>int\<close> variables wrap at 32.
\<close>

section \<open>The conversions\<close>

definition islower_c :: "char \<Rightarrow> bool" where
  "islower_c c \<longleftrightarrow> 97 \<le> (of_char c :: nat) \<and> (of_char c :: nat) \<le> 122"

definition isupper_c :: "char \<Rightarrow> bool" where
  "isupper_c c \<longleftrightarrow> 65 \<le> (of_char c :: nat) \<and> (of_char c :: nat) \<le> 90"

definition isdigit_c :: "char \<Rightarrow> bool" where
  "isdigit_c c \<longleftrightarrow> 48 \<le> (of_char c :: nat) \<and> (of_char c :: nat) \<le> 57"

definition nam2num_char :: "char \<Rightarrow> nat" where
  "nam2num_char c =
     (if islower_c c then of_char c + 10 - 97
      else if isupper_c c then of_char c + 10 - 65
      else if isdigit_c c then of_char c - 48
      else if c = CHR ''_'' then 36
      else if c = CHR ''@'' then 37
      else if c = CHR ''.'' then 38
      else 39)"

text \<open>The loop of \<^verbatim>\<open>nam2num\<close>: index and accumulated value; the end of the list is the
  terminating NUL of the C string.\<close>

fun nam2num_loop :: "nat \<Rightarrow> nat \<Rightarrow> string \<Rightarrow> nat \<times> nat" where
  "nam2num_loop i retval [] = (i, retval)"
| "nam2num_loop i retval (c # cs) =
     (if i \<ge> 6 \<or> c = CHR 0x00 then (i, retval)
      else nam2num_loop (Suc i) (retval * 40 + nam2num_char c) cs)"

definition nam2num :: "string \<Rightarrow> nat" where
  "nam2num name =
     (case nam2num_loop 0 0 name of (i, retval) \<Rightarrow> if i > 0 then retval + 2 else 0xFFFFFFFF)"

definition MAX_NAM2NUM :: int where
  "MAX_NAM2NUM = 4096000003"

definition u64 :: "int \<Rightarrow> int" where
  "u64 x = x mod 2 ^ 64"

definition num2nam_char :: "int \<Rightarrow> char" where
  "num2nam_char c =
     (if c < 36 then (if c > 9 then char_of (nat (c + 65 - 10)) else char_of (nat (c + 48)))
      else if c = 36 then CHR ''_'' else if c = 37 then CHR ''@''
      else if c = 38 then CHR ''.'' else CHR ''$'')"

text \<open>
  The division loop of \<^verbatim>\<open>num2nam\<close>; its second argument is the C index \<^verbatim>\<open>i\<close> plus
  one, so that 0 is the loop's exit on \<^verbatim>\<open>i >= 0\<close>.
\<close>

fun num2nam_loop :: "int \<Rightarrow> nat \<Rightarrow> string \<Rightarrow> nat \<times> string" where
  "num2nam_loop num 0 name = (0, name)"
| "num2nam_loop num (Suc i) name =
     (if num = 0 then (Suc i, name)
      else let q = s32 (num div 40); c = s32 (u64 (num - s32 (q * 40)))
           in num2nam_loop (u64 q) i (name[i := num2nam_char c]))"

text \<open>The closing loop: \<open>name[k] = name[++i]\<close> while \<open>i < 5\<close>, then the NUL.\<close>

function num2nam_shift :: "nat \<Rightarrow> nat \<Rightarrow> string \<Rightarrow> string" where
  "num2nam_shift k i name =
     (if i < 6 then num2nam_shift (Suc k) (Suc i) (name[k := name ! i])
      else name[k := CHR 0x00])"
  by pat_completeness auto
termination
  by (relation "measure (\<lambda>(k, i, name). 6 - i)") auto

declare num2nam_shift.simps [simp del]

definition num2nam :: "int \<Rightarrow> string \<Rightarrow> string" where
  "num2nam num name =
     (if num \<ge> MAX_NAM2NUM then ''|null|'' @ [CHR 0x00] @ drop 7 name
      else case num2nam_loop (u64 (num - 2)) 6 name of (i, name') \<Rightarrow> num2nam_shift 0 i name')"

text \<open>The string a C reader sees in a buffer.\<close>

definition c_string :: "string \<Rightarrow> string" where
  "c_string buf = takeWhile (\<lambda>c. c \<noteq> CHR 0x00) buf"

text \<open>The names that survive a round trip: one to six characters of the conversion's own
  alphabet, the first not \<^verbatim>\<open>0\<close>.\<close>

definition nam_char :: "char \<Rightarrow> bool" where
  "nam_char c \<longleftrightarrow> isupper_c c \<or> isdigit_c c \<or> c \<in> {CHR ''_'', CHR ''@'', CHR ''.'', CHR ''$''}"

definition canonical_name :: "string \<Rightarrow> bool" where
  "canonical_name s \<longleftrightarrow> s \<noteq> [] \<and> length s \<le> 6 \<and> list_all nam_char s \<and> hd s \<noteq> CHR ''0''"

text \<open>Reference: base-40 digits, most significant first.\<close>

fun b40 :: "nat \<Rightarrow> nat list" where
  "b40 n = (if n = 0 then [] else b40 (n div 40) @ [n mod 40])"

declare b40.simps [simp del]

definition horner40 :: "nat \<Rightarrow> nat list \<Rightarrow> nat" where
  "horner40 r ds = foldl (\<lambda>a d. a * 40 + d) r ds"

section \<open>Digits\<close>

lemma horner40_simps [simp]:
  "horner40 r [] = r" "horner40 r (d # ds) = horner40 (r * 40 + d) ds"
  "horner40 r (ds @ [d]) = horner40 r ds * 40 + d"
  by (simp_all add: horner40_def)

lemma b40_digits: "\<forall>d \<in> set (b40 n). d < 40"
proof (induction n rule: b40.induct)
  case (1 n)
  then show ?case by (subst b40.simps) auto
qed

lemma horner40_b40: "horner40 0 (b40 n) = n"
proof (induction n rule: b40.induct)
  case (1 n)
  then show ?case by (cases "n = 0") (simp_all add: b40.simps [of n] b40.simps [of 0])
qed

lemma length_b40: "n < 40 ^ j \<Longrightarrow> length (b40 n) \<le> j"
proof (induction j arbitrary: n)
  case 0
  then show ?case by (simp add: b40.simps)
next
  case (Suc j)
  then have "n div 40 < 40 ^ j" by (simp add: less_mult_imp_div_less mult.commute)
  then show ?case using Suc.IH [of "n div 40"] by (subst b40.simps) simp
qed

lemma b40_horner40:
  assumes "\<forall>d \<in> set ds. d < 40" and "ds \<noteq> [] \<Longrightarrow> hd ds \<noteq> 0"
  shows "b40 (horner40 0 ds) = ds"
  using assms
proof (induction ds rule: rev_induct)
  case Nil
  then show ?case by (simp add: b40.simps)
next
  case (snoc d ds)
  have nz: "horner40 0 (ds @ [d]) \<noteq> 0"
  proof (cases "ds = []")
    case False
    then have "b40 (horner40 0 ds) = ds" using snoc by auto
    then have "horner40 0 ds \<noteq> 0" using False b40.simps [of 0] by metis
    then show ?thesis by simp
  qed (use snoc in simp)
  moreover have "b40 (horner40 0 ds) = ds"
    using snoc by (cases "ds = []") (auto simp: b40.simps [of 0])
  ultimately show ?case using snoc.prems by (subst b40.simps) simp
qed

lemma nam2num_char_less: "nam2num_char c < 40"
  by (auto simp: nam2num_char_def islower_c_def isupper_c_def isdigit_c_def)

lemma of_char_char_of: "n < 256 \<Longrightarrow> of_char (char_of n) = (n::nat)"
  by simp

lemma char_codes:
  "c = CHR ''_'' \<longleftrightarrow> of_char c = (95 :: nat)" "c = CHR ''@'' \<longleftrightarrow> of_char c = (64 :: nat)"
  "c = CHR ''.'' \<longleftrightarrow> of_char c = (46 :: nat)" "c = CHR ''$'' \<longleftrightarrow> of_char c = (36 :: nat)"
  "c = CHR ''0'' \<longleftrightarrow> of_char c = (48 :: nat)" "c = CHR 0x00 \<longleftrightarrow> of_char c = (0 :: nat)"
  using of_char_eq_iff [of c "CHR ''_''", where ?'a = nat]
    of_char_eq_iff [of c "CHR ''@''", where ?'a = nat]
    of_char_eq_iff [of c "CHR ''.''", where ?'a = nat]
    of_char_eq_iff [of c "CHR ''$''", where ?'a = nat]
    of_char_eq_iff [of c "CHR ''0''", where ?'a = nat]
    of_char_eq_iff [of c "CHR 0x00", where ?'a = nat]
  by simp_all

lemma of_char_num2nam_char:
  "d < 40 \<Longrightarrow> of_char (num2nam_char (int d)) =
     (if d < 10 then d + 48 else if d < 36 then d + 55 else if d = 36 then 95
      else if d = 37 then 64 else if d = 38 then 46 else (36 :: nat))"
  by (auto simp: num2nam_char_def nat_add_distrib nat_diff_distrib)

lemma nam2num_char_code:
  assumes "of_char c = (n :: nat)"
  shows "nam2num_char c =
     (if 97 \<le> n \<and> n \<le> 122 then n - 87 else if 65 \<le> n \<and> n \<le> 90 then n - 55
      else if 48 \<le> n \<and> n \<le> 57 then n - 48 else if n = 95 then 36 else if n = 64 then 37
      else if n = 46 then 38 else 39)"
  using assms by (simp add: nam2num_char_def islower_c_def isupper_c_def isdigit_c_def char_codes)

lemma nam_char_iff:
  assumes "of_char c = (n :: nat)"
  shows "nam_char c \<longleftrightarrow> 65 \<le> n \<and> n \<le> 90 \<or> 48 \<le> n \<and> n \<le> 57 \<or> n = 95 \<or> n = 64 \<or> n = 46 \<or> n = 36"
  using assms by (simp add: nam_char_def isupper_c_def isdigit_c_def char_codes)

lemma num2nam_char_nam2num:
  assumes "d < 40"
  shows "nam2num_char (num2nam_char (int d)) = d" "num2nam_char (int d) \<noteq> CHR 0x00"
proof -
  define n :: nat where "n = of_char (num2nam_char (int d))"
  have n: "n = (if d < 10 then d + 48 else if d < 36 then d + 55 else if d = 36 then 95
      else if d = 37 then 64 else if d = 38 then 46 else 36)"
    using of_char_num2nam_char [OF assms] by (simp add: n_def)
  show "nam2num_char (num2nam_char (int d)) = d"
    using n assms unfolding nam2num_char_code [OF n_def [symmetric]] by (auto split: if_splits)
  show "num2nam_char (int d) \<noteq> CHR 0x00"
    unfolding char_codes n_def [symmetric] using n by (auto split: if_splits)
qed

lemma nam_char_code:
  assumes "nam_char c"
  shows "num2nam_char (int (nam2num_char c)) = c" "nam2num_char c = 0 \<Longrightarrow> c = CHR ''0''"
proof -
  define n :: nat where "n = of_char c"
  define d where "d = nam2num_char c"
  note d = nam2num_char_code [OF n_def [symmetric], folded d_def]
    and n = nam_char_iff [OF n_def [symmetric], THEN iffD1, OF assms]
  have d40: "d < 40" unfolding d_def by (rule nam2num_char_less)
  have "of_char (num2nam_char (int d)) = n"
    unfolding of_char_num2nam_char [OF d40] using n by (elim disjE conjE) (simp_all add: d, linarith+)
  then show "num2nam_char (int (nam2num_char c)) = c" by (simp add: n_def d_def)
  show "nam2num_char c = 0 \<Longrightarrow> c = CHR ''0''"
    unfolding char_codes n_def [symmetric] d_def [symmetric]
    using n by (elim disjE conjE) (simp_all add: d)
qed

section \<open>The loops\<close>

lemma nam2num_loop_horner:
  assumes "list_all (\<lambda>c. c \<noteq> CHR 0x00) s" and "i + length s \<le> 6"
  shows "nam2num_loop i r s = (i + length s, horner40 r (map nam2num_char s))"
  using assms by (induction s arbitrary: i r) auto

lemma nam2num_loop_bound:
  "i \<le> 6 \<Longrightarrow> r < 40 ^ i \<Longrightarrow> nam2num_loop i r s = (j, v) \<Longrightarrow> v < 40 ^ 6 \<and> j \<le> 6 \<and> i \<le> j"
proof (induction s arbitrary: i r)
  case Nil
  have "(40::nat) ^ i \<le> 40 ^ 6" using Nil by (intro power_increasing) simp_all
  then show ?case using Nil by simp
next
  case (Cons c s)
  have le: "(40::nat) ^ i \<le> 40 ^ 6" using Cons.prems by (intro power_increasing) simp_all
  show ?case
  proof (cases "i \<ge> 6 \<or> c = CHR 0x00")
    case True
    then show ?thesis using Cons.prems le by simp
  next
    case False
    have "r * 40 + nam2num_char c < 40 ^ Suc i"
      using Cons.prems(2) nam2num_char_less [of c] by simp
    then show ?thesis using Cons.IH [of "Suc i" "r * 40 + nam2num_char c"] Cons.prems False by simp
  qed
qed

lemma num2nam_step:
  assumes "0 \<le> n" "n < 40 ^ 6"
  shows "s32 (n div 40) = n div 40" "u64 (n div 40) = n div 40"
    "s32 (u64 (n - s32 (n div 40 * 40))) = n mod 40"
proof -
  have q: "0 \<le> n div 40" "n div 40 < 40 ^ 5" using assms by simp_all
  show "s32 (n div 40) = n div 40" using q by simp
  show "u64 (n div 40) = n div 40" using q by (simp add: u64_def)
  have "n div 40 * 40 = n - n mod 40" by (simp add: minus_mod_eq_div_mult)
  show "s32 (u64 (n - s32 (n div 40 * 40))) = n mod 40"
  proof (cases "n div 40 * 40 \<le> int_max")
    case True
    then show ?thesis using q assms by (simp add: u64_def minus_div_mult_eq_mod)
  next
    case False
    then have "s32 (n div 40 * 40) = n div 40 * 40 - 2 ^ 32"
      using q assms unfolding s32_def by (simp add: mod_pos_geq)
    then have "n - s32 (n div 40 * 40) = n mod 40 + 2 ^ 32"
      by (simp add: minus_div_mult_eq_mod [symmetric])
    moreover have "u64 (n mod 40 + 2 ^ 32) = n mod 40 + 2 ^ 32"
      unfolding u64_def by (rule mod_pos_pos_trivial) (simp_all add: add.commute add_strict_mono)
    moreover have "s32 (n mod 40 + 2 ^ 32) = s32 (n mod 40)" by (rule s32_add)
    moreover have "s32 (n mod 40) = n mod 40"
    proof (rule s32_small)
      have "0 \<le> n mod 40" "n mod 40 < 40" by simp_all
      then show "-2147483648 \<le> n mod 40" "n mod 40 \<le> 2147483647" by linarith+
    qed
    ultimately show ?thesis by simp
  qed
qed

lemma num2nam_loop_b40:
  assumes "n < 40 ^ j" "j \<le> 6" "j \<le> length name"
  shows "num2nam_loop (int n) j name =
     (j - length (b40 n),
      take (j - length (b40 n)) name @ map (\<lambda>d. num2nam_char (int d)) (b40 n) @ drop j name)"
  using assms
proof (induction j arbitrary: n name)
  case 0
  then show ?case by (simp add: b40.simps)
next
  case (Suc j)
  have big: "int n < 40 ^ 6"
  proof -
    have "(40::nat) ^ Suc j \<le> 40 ^ 6" using Suc.prems by (intro power_increasing) simp_all
    then have "n < 40 ^ 6" using Suc.prems(1) by linarith
    then show ?thesis by simp
  qed
  show ?case
  proof (cases "n = 0")
    case True
    then show ?thesis by (simp add: b40.simps)
  next
    case False
    have n40: "n div 40 < 40 ^ j" using Suc.prems(1) by (simp add: less_mult_imp_div_less mult.commute)
    note step = num2nam_step [of "int n", OF _ big, simplified]
    have len: "length (b40 (n div 40)) \<le> j" by (rule length_b40 [OF n40])
    have "num2nam_loop (int n) (Suc j) name =
        num2nam_loop (int (n div 40)) j (name[j := num2nam_char (int (n mod 40))])"
      using False step by (simp add: Let_def zdiv_int zmod_int)
    then show ?thesis
      using Suc.IH [OF n40, of "name[j := num2nam_char (int (n mod 40))]"] Suc.prems len False
      by (simp add: b40.simps [of n] take_update_cancel drop_update_swap Cons_nth_drop_Suc [symmetric])
  qed
qed

lemma num2nam_shift_result:
  assumes "i \<le> 6" "k \<le> i" "6 < length name"
  shows "take (k + (6 - i) + 1) (num2nam_shift k i name) =
    take k name @ take (6 - i) (drop i name) @ [CHR 0x00]"
  using assms
proof (induction k i name rule: num2nam_shift.induct)
  case (1 k i name)
  show ?case
  proof (cases "i < 6")
    case True
    let ?n = "name[k := name ! i]"
    have "take (Suc k + (6 - Suc i) + 1) (num2nam_shift (Suc k) (Suc i) ?n) =
        take (Suc k) ?n @ take (6 - Suc i) (drop (Suc i) ?n) @ [CHR 0x00]"
      using "1.IH" [OF True] "1.prems" True by simp
    moreover have "take (Suc k) ?n = take k name @ [name ! i]"
      using "1.prems" by (simp add: take_Suc_conv_app_nth)
    moreover have "drop (Suc i) ?n = drop (Suc i) name" using "1.prems" by simp
    moreover have "take (6 - i) (drop i name) = name ! i # take (6 - Suc i) (drop (Suc i) name)"
      using True "1.prems" by (simp add: Cons_nth_drop_Suc [symmetric] take_Cons')
    moreover have "k + (6 - i) + 1 = Suc k + (6 - Suc i) + 1" using True by simp
    ultimately show ?thesis using True by (simp add: num2nam_shift.simps [of k i])
  next
    case False
    then have "i = 6" using "1.prems" by simp
    then show ?thesis using "1.prems"
      by (simp add: num2nam_shift.simps [of k 6 name] take_Suc_conv_app_nth)
  qed
qed

section \<open>The conversions are inverse on their common range\<close>

lemma c_string_take:
  assumes "take (length s + 1) buf = s @ [CHR 0x00]" "list_all (\<lambda>c. c \<noteq> CHR 0x00) s"
  shows "c_string buf = s"
proof -
  have "buf = s @ CHR 0x00 # drop (length s + 1) buf"
    using append_take_drop_id [of "length s + 1" buf] assms(1)
    by (metis append.assoc append_Cons append_Nil)
  moreover have "takeWhile (\<lambda>c. c \<noteq> CHR 0x00) (s @ CHR 0x00 # xs) = s" for xs
    using assms(2) by (simp add: takeWhile_append list_all_iff)
  ultimately show ?thesis unfolding c_string_def by metis
qed

lemma c_string_num2nam:
  assumes "2 \<le> n" "n < 40 ^ 6 + 2" "6 < length buf"
  shows "c_string (num2nam (int n) buf) = map (\<lambda>d. num2nam_char (int d)) (b40 (n - 2))"
proof (rule c_string_take)
  let ?ds = "b40 (n - 2)" and ?s = "map (\<lambda>d. num2nam_char (int d)) (b40 (n - 2))"
  have lt: "n - 2 < 40 ^ 6" using assms by simp
  have len: "length ?ds \<le> 6" by (rule length_b40 [OF lt])
  have "u64 (int n - 2) = int (n - 2)" using assms unfolding u64_def by simp
  then have eq: "num2nam (int n) buf = num2nam_shift 0 (6 - length ?ds)
      (take (6 - length ?ds) buf @ ?s @ drop 6 buf)"
    using num2nam_loop_b40 [OF lt, of buf] assms by (simp add: num2nam_def MAX_NAM2NUM_def)
  show "take (length ?s + 1) (num2nam (int n) buf) = ?s @ [CHR 0x00]"
    using num2nam_shift_result [of "6 - length ?ds" 0 "take (6 - length ?ds) buf @ ?s @ drop 6 buf"]
      len assms unfolding eq by simp
  show "list_all (\<lambda>c. c \<noteq> CHR 0x00) ?s"
    using b40_digits [of "n - 2"] by (auto simp: list_all_iff num2nam_char_nam2num)
qed

text \<open>
  C38. Every number that \<^verbatim>\<open>num2nam\<close> can print is read back by \<^verbatim>\<open>nam2num\<close>: for a
  number from 3 to 4096000001 (the value of \<^verbatim>\<open>nam2num("$$$$$$")\<close>) and any buffer of at
  least seven characters, \<^verbatim>\<open>nam2num\<close> of the string that \<^verbatim>\<open>num2nam\<close> leaves in the
  buffer is that number, although the intermediate \<^verbatim>\<open>q*40\<close> overflows an
  \<^verbatim>\<open>int\<close> for the large ones.
\<close>

theorem nam2num_num2nam:
  assumes "3 \<le> n" and "n \<le> 4096000001" and "7 \<le> length buf"
  shows "nam2num (c_string (num2nam (int n) buf)) = n"
proof -
  let ?ds = "b40 (n - 2)"
  have "?ds \<noteq> []" using assms by (subst b40.simps) simp
  have len: "length ?ds \<le> 6" by (rule length_b40) (use assms in simp)
  have inv: "map (nam2num_char \<circ> (\<lambda>d. num2nam_char (int d))) ?ds = ?ds"
    using b40_digits [of "n - 2"] by (intro map_idI) (simp add: num2nam_char_nam2num)
  have "list_all (\<lambda>c. c \<noteq> CHR 0x00) (map (\<lambda>d. num2nam_char (int d)) ?ds)"
    using b40_digits [of "n - 2"] by (auto simp: list_all_iff num2nam_char_nam2num)
  from nam2num_loop_horner [OF this, of 0 0] len inv \<open>?ds \<noteq> []\<close> show ?thesis
    using assms c_string_num2nam [of n buf] by (simp add: nam2num_def horner40_b40)
qed

theorem nam2num_num2nam_witness:
  "nam2num (c_string (num2nam (int 4096000001) ''abcdefgh'')) = 4096000001"
  by (rule nam2num_num2nam) simp_all

text \<open>
  Canonical names survive the round trip: a name of one to six upper-case letters,
  digits and \<^verbatim>\<open>_ @ . $\<close> whose first character is not \<^verbatim>\<open>0\<close> is what
  \<^verbatim>\<open>num2nam\<close> prints for its number. Two such names never share a number, so the
  registry cannot confuse them.
\<close>

theorem num2nam_nam2num:
  assumes "canonical_name s" and "7 \<le> length buf"
  shows "c_string (num2nam (int (nam2num s)) buf) = s"
proof -
  let ?ds = "map nam2num_char s"
  have ok: "s \<noteq> []" "length s \<le> 6" "list_all nam_char s" "hd s \<noteq> CHR ''0''"
    using assms by (simp_all add: canonical_name_def)
  have nz: "list_all (\<lambda>c. c \<noteq> CHR 0x00) s"
    using ok(3) by (auto simp: list_all_iff char_codes nam_char_def isupper_c_def isdigit_c_def)
  have num: "nam2num s = horner40 0 ?ds + 2"
    using nam2num_loop_horner [OF nz, of 0 0] ok by (simp add: nam2num_def)
  have bound: "horner40 0 ?ds < 40 ^ 6"
    using nam2num_loop_horner [OF nz, of 0 0] nam2num_loop_bound [of 0 0 s] ok by simp
  have "nam2num_char (hd s) \<noteq> 0" using ok nam_char_code(2) [of "hd s"] by (cases s) auto
  then have hd: "hd ?ds \<noteq> 0" using ok(1) by (simp add: hd_map)
  have "b40 (horner40 0 ?ds) = ?ds"
    using hd by (intro b40_horner40) (auto simp: nam2num_char_less)
  moreover have "map ((\<lambda>d. num2nam_char (int d)) \<circ> nam2num_char) s = s"
    using ok(3) by (intro map_idI) (simp add: list_all_iff nam_char_code)
  ultimately show ?thesis
    using c_string_num2nam [of "nam2num s" buf] bound assms(2) num by simp
qed

theorem num2nam_nam2num_witness:
  "c_string (num2nam (int (nam2num ''RT_SEM'')) ''........'') = ''RT_SEM''"
  by (rule num2nam_nam2num)
    (simp_all add: canonical_name_def nam_char_def isupper_c_def isdigit_c_def)

text \<open>
  Bounds: the number of any non-empty name lies between 2 and 4096000001, below
  \<^verbatim>\<open>MAX_NAM2NUM\<close> and below \<open>2 ^ 32\<close>, so it fits an \<^verbatim>\<open>unsigned long\<close> of any
  RTAI platform; the value \<^verbatim>\<open>0xFFFFFFFF\<close> is returned for the empty name only.
\<close>

theorem nam2num_bounds:
  "nam2num s = 0xFFFFFFFF \<and> c_string s = [] \<or>
   c_string s \<noteq> [] \<and> 2 \<le> nam2num s \<and> nam2num s \<le> 4096000001 \<and> int (nam2num s) < MAX_NAM2NUM"
proof (cases "c_string s = []")
  case True
  then have "nam2num_loop 0 0 s = (0, 0)" by (cases s) (auto simp: c_string_def split: if_splits)
  then show ?thesis using True by (simp add: nam2num_def)
next
  case False
  then obtain c cs where s: "s = c # cs" "c \<noteq> CHR 0x00"
    by (cases s) (auto simp: c_string_def split: if_splits)
  obtain j v where loop: "nam2num_loop 0 0 s = (j, v)" by fastforce
  have "v < 40 ^ 6" using nam2num_loop_bound [OF _ _ loop] by simp
  moreover have "1 \<le> j"
    using nam2num_loop_bound [of 1 "nam2num_char c" cs] nam2num_char_less [of c] loop s by simp
  ultimately show ?thesis using False loop by (simp add: nam2num_def MAX_NAM2NUM_def)
qed

end
