(* ===== verification/Task_Rings.thy ===== *)
theory Task_Rings
  imports RT_Prelude
begin

text \<open>
  The intrusive doubly linked rings of the kernel at pointer level, as
  \<^verbatim>\<open>include/rtai_schedcore.h\<close> manipulates them: ready list (\<^verbatim>\<open>rnext/rprev\<close>),
  timed list (\<^verbatim>\<open>tnext/tprev\<close>) and the \<^verbatim>\<open>QUEUE\<close> rings of blocked tasks
  (\<^verbatim>\<open>next/prev\<close>). A heap of links is a pair of functions; \<open>ring h q xs\<close> says that
  following \<^verbatim>\<open>next\<close> from the sentinel \<open>q\<close> visits \<open>xs\<close> and comes back, and
  \<^verbatim>\<open>prev\<close> is its inverse. The theorems show that each operation refines an operation
  on lists, which is what the other theories use; the search loops are
  \<^theory_text>\<open>partial_function\<close>s, so that they return is part of what is proved.
\<close>

section \<open>Links\<close>

record 'a links =
  nxt :: "'a \<Rightarrow> 'a"
  prv :: "'a \<Rightarrow> 'a"

text \<open>\<^verbatim>\<open>q->prev = (n->prev = q->prev)->next = n;  n->next = q\<close>\<close>

definition link_before :: "'a \<Rightarrow> 'a \<Rightarrow> 'a links \<Rightarrow> 'a links" where
  "link_before q n h =
     (let p = prv h q;
          h1 = h\<lparr>prv := (prv h)(n := p)\<rparr>;
          h2 = h1\<lparr>nxt := (nxt h1)(p := n)\<rparr>;
          h3 = h2\<lparr>prv := (prv h2)(q := n)\<rparr>
      in h3\<lparr>nxt := (nxt h3)(n := q)\<rparr>)"

text \<open>\<^verbatim>\<open>(n->prev)->next = n->next;  (n->next)->prev = n->prev\<close>\<close>

definition unlink :: "'a \<Rightarrow> 'a links \<Rightarrow> 'a links" where
  "unlink n h =
     (let h1 = h\<lparr>nxt := (nxt h)(prv h n := nxt h n)\<rparr>
      in h1\<lparr>prv := (prv h1)(nxt h1 n := prv h1 n)\<rparr>)"

text \<open>\<^verbatim>\<open>q->prev = q->next = q\<close>, the empty ring.\<close>

definition init_ring :: "'a \<Rightarrow> 'a links \<Rightarrow> 'a links" where
  "init_ring q h = h\<lparr>nxt := (nxt h)(q := q), prv := (prv h)(q := q)\<rparr>"

fun linked :: "'a links \<Rightarrow> 'a list \<Rightarrow> bool" where
  "linked h (x # y # zs) \<longleftrightarrow> nxt h x = y \<and> prv h y = x \<and> linked h (y # zs)"
| "linked h _ \<longleftrightarrow> True"

definition ring :: "'a links \<Rightarrow> 'a \<Rightarrow> 'a list \<Rightarrow> bool" where
  "ring h q xs \<longleftrightarrow> distinct (q # xs) \<and> linked h (q # xs @ [q])"

section \<open>The queue operations\<close>

text \<open>A search loop \<^verbatim>\<open>while (!stop(t)) t = t->next\<close>.\<close>

partial_function (option) scan :: "('a \<Rightarrow> bool) \<Rightarrow> ('a \<Rightarrow> 'a) \<Rightarrow> 'a \<Rightarrow> 'a option" where
  "scan stop nx t = (if stop t then Some t else scan stop nx (nx t))"

text \<open>\<^verbatim>\<open>enqueue_blocked\<close>: with \<open>qtype = 0\<close> the loop moves to the next node before it
  tests.\<close>

definition enqueue_blocked_ptr :: "('a \<Rightarrow> int) \<Rightarrow> 'a \<Rightarrow> 'a \<Rightarrow> int \<Rightarrow> 'a links \<Rightarrow> 'a links option" where
  "enqueue_blocked_ptr prio n queue qtype h =
     (if qtype = 0
      then (case scan (\<lambda>q. \<not> (q \<noteq> queue \<and> prio q \<le> prio n)) (nxt h) (nxt h queue) of
              None \<Rightarrow> None | Some q \<Rightarrow> Some (link_before q n h))
      else Some (link_before queue n h))"

definition dequeue_blocked_ptr :: "'a \<Rightarrow> 'a links \<Rightarrow> 'a links" where
  "dequeue_blocked_ptr n h = unlink n h"

text \<open>\<^verbatim>\<open>enq_ready_task\<close>, hard branch: the loop tests, moves, and breaks on a negative
  priority.\<close>

partial_function (option) ready_scan ::
  "('a \<Rightarrow> int) \<Rightarrow> ('a \<Rightarrow> 'a) \<Rightarrow> 'a \<Rightarrow> 'a \<Rightarrow> 'a option" where
  "ready_scan prio nx n t =
     (if prio n \<ge> prio t
      then (if prio (nx t) < 0 then Some (nx t) else ready_scan prio nx n (nx t))
      else Some t)"

definition enq_ready_task_ptr :: "('a \<Rightarrow> int) \<Rightarrow> 'a \<Rightarrow> 'a \<Rightarrow> 'a links \<Rightarrow> 'a links option" where
  "enq_ready_task_ptr prio linux n h =
     (case ready_scan prio (nxt h) n (nxt h linux) of
        None \<Rightarrow> None | Some t \<Rightarrow> Some (link_before t n h))"

definition enq_ready_edf_task_ptr ::
  "('a \<Rightarrow> int) \<Rightarrow> ('a \<Rightarrow> int) \<Rightarrow> 'a \<Rightarrow> 'a \<Rightarrow> 'a links \<Rightarrow> 'a links option" where
  "enq_ready_edf_task_ptr policy period linux n h =
     (case scan (\<lambda>t. \<not> (policy t < 0 \<and> period n \<ge> period t)) (nxt h) (nxt h linux) of
        None \<Rightarrow> None | Some t \<Rightarrow> Some (link_before t n h))"

definition enq_timed_task_ptr :: "('a \<Rightarrow> int) \<Rightarrow> 'a \<Rightarrow> 'a \<Rightarrow> 'a links \<Rightarrow> 'a links option" where
  "enq_timed_task_ptr resume_time linux n h =
     (case scan (\<lambda>t. \<not> resume_time n > resume_time t) (nxt h) (nxt h linux) of
        None \<Rightarrow> None | Some t \<Rightarrow> Some (link_before t n h))"

section \<open>Rings as lists\<close>

lemma linked_append:
  "linked h (xs @ y # zs) \<longleftrightarrow> linked h (xs @ [y]) \<and> linked h (y # zs)"
  by (induction h xs rule: linked.induct) auto

lemma linked_frame:
  assumes "linked h xs" and "\<forall>x \<in> set (butlast xs). nxt h' x = nxt h x"
    and "\<forall>x \<in> set (tl xs). prv h' x = prv h x"
  shows "linked h' xs"
  using assms by (induction h xs rule: linked.induct) auto

lemma linked_link_before:
  assumes "linked h (xs @ p # q # ys)" and "n \<notin> set (xs @ p # q # ys)"
    and "distinct (xs @ [p])" and "p \<notin> set (butlast (q # ys))" and "q \<notin> set (tl (xs @ [p]))" "q \<notin> set ys"
  shows "linked (link_before q n h) (xs @ p # n # q # ys)"
proof -
  have pq: "prv h q = p" "linked h (xs @ [p])" "linked h (q # ys)"
    using assms(1) linked_append [of h xs p "q # ys"] by simp_all
  let ?h = "link_before q n h"
  have ntl: "n \<notin> set (tl (xs @ [p]))" using assms(2) by (cases xs) auto
  have "linked ?h (xs @ [p])"
    by (rule linked_frame [OF pq(2)]) (use assms pq ntl in \<open>auto simp: link_before_def Let_def\<close>)
  moreover have "linked ?h (q # ys)"
    by (rule linked_frame [OF pq(3)]) (use assms pq in \<open>auto simp: link_before_def Let_def dest: in_set_butlastD\<close>)
  moreover have "nxt ?h p = n" "prv ?h n = p" "nxt ?h n = q" "prv ?h q = n"
    using pq assms(2) by (auto simp: link_before_def Let_def)
  ultimately show ?thesis using linked_append [of ?h xs p "n # q # ys"] by simp
qed

lemma linked_unlink:
  assumes "linked h (xs @ p # n # q # ys)" and "distinct (xs @ [p])" "n \<notin> set (xs @ p # q # ys)"
    and "p \<notin> set (butlast (q # ys))" and "q \<notin> set (tl (xs @ [p]))" "q \<notin> set ys"
  shows "linked (unlink n h) (xs @ p # q # ys)"
proof -
  have pq: "prv h n = p" "nxt h n = q" "linked h (xs @ [p])" "linked h (q # ys)"
    using assms(1) linked_append [of h xs p "n # q # ys"] by simp_all
  let ?h = "unlink n h"
  have "linked ?h (xs @ [p])"
    by (rule linked_frame [OF pq(3)]) (use assms pq in \<open>auto simp: unlink_def Let_def\<close>)
  moreover have "linked ?h (q # ys)"
    by (rule linked_frame [OF pq(4)])
      (use assms pq in \<open>auto simp: unlink_def Let_def dest: in_set_butlastD\<close>)
  moreover have "nxt ?h p = q" "prv ?h q = p"
    using pq assms(3) by (auto simp: unlink_def Let_def)
  ultimately show ?thesis using linked_append [of ?h xs p "q # ys"] by simp
qed

text \<open>Cutting a ring open at a position: the node before it and the node after it.\<close>

lemma ring_cut:
  assumes "distinct (q # xs @ ys)"
  obtains as p b bs where "q # xs = as @ [p]" "ys @ [q] = b # bs" "b = hd (ys @ [q])"
    "distinct (as @ [p])" "p \<notin> set (butlast (b # bs))" "b \<notin> set (tl (as @ [p]))" "b \<notin> set bs"
    "set (as @ [p]) \<union> set (b # bs) = set (q # xs @ ys)"
proof -
  obtain as p where a: "q # xs = as @ [p]" by (metis list.discI rev_exhaust)
  obtain b bs where b: "ys @ [q] = b # bs" by (metis Nil_is_append_conv list.exhaust list.discI)
  have "distinct (as @ [p])" using assms a [symmetric] by simp
  moreover have "p \<notin> set (butlast (b # bs))"
  proof -
    have "p \<in> set (q # xs)" unfolding a by simp
    then show ?thesis using assms b [symmetric] by auto
  qed
  moreover have "b \<notin> set (tl (as @ [p]))"
    using assms a [symmetric] b by (cases ys) auto
  moreover have "b \<notin> set bs" using assms b by (cases ys) auto
  moreover have "set (as @ [p]) \<union> set (b # bs) = set (q # xs @ ys)"
    unfolding a [symmetric] b [symmetric] by auto
  ultimately show ?thesis using that [OF a b] b by simp
qed

lemma ring_link_before:
  assumes "ring h q (xs @ ys)" and "n \<notin> set (q # xs @ ys)"
  shows "ring (link_before (hd (ys @ [q])) n h) q (xs @ n # ys)"
proof -
  have d: "distinct (q # xs @ ys)" and l: "linked h (q # xs @ ys @ [q])"
    using assms by (simp_all add: ring_def)
  from ring_cut [OF d] obtain as p b bs where c: "q # xs = as @ [p]" "ys @ [q] = b # bs"
    "b = hd (ys @ [q])" "distinct (as @ [p])" "p \<notin> set (butlast (b # bs))"
    "b \<notin> set (tl (as @ [p]))" "b \<notin> set bs"
    "set (as @ [p]) \<union> set (b # bs) = set (q # xs @ ys)" .
  have "linked (link_before b n h) (as @ p # n # b # bs)"
  proof (rule linked_link_before)
    show "linked h (as @ p # b # bs)" using l c(1,2) by (metis append_Cons append_assoc append_Nil)
    show "n \<notin> set (as @ p # b # bs)" using assms(2) c(8) by auto
  qed (fact c)+
  moreover have "as @ p # n # b # bs = q # xs @ n # ys @ [q]"
    using c(1,2) by (metis append_Cons append_assoc append_Nil)
  ultimately show ?thesis using d assms(2) c(3) by (auto simp: ring_def)
qed

lemma ring_unlink:
  assumes "ring h q (xs @ n # ys)"
  shows "ring (unlink n h) q (xs @ ys)"
proof -
  have d: "distinct (q # xs @ ys)" "n \<notin> set (q # xs @ ys)" and l: "linked h (q # xs @ n # ys @ [q])"
    using assms by (auto simp: ring_def)
  from ring_cut [OF d(1)] obtain as p b bs where c: "q # xs = as @ [p]" "ys @ [q] = b # bs"
    "b = hd (ys @ [q])" "distinct (as @ [p])" "p \<notin> set (butlast (b # bs))"
    "b \<notin> set (tl (as @ [p]))" "b \<notin> set bs"
    "set (as @ [p]) \<union> set (b # bs) = set (q # xs @ ys)" .
  have "linked (unlink n h) (as @ p # b # bs)"
  proof (rule linked_unlink)
    show "linked h (as @ p # n # b # bs)" using l c(1,2) by (metis append_Cons append_assoc append_Nil)
    show "n \<notin> set (as @ p # b # bs)" using d(2) c(8) by auto
  qed (fact c)+
  moreover have "as @ p # b # bs = q # xs @ ys @ [q]"
    using c(1,2) by (metis append_Cons append_assoc append_Nil)
  ultimately show ?thesis using d by (auto simp: ring_def)
qed

section \<open>The search loops return\<close>

lemma scan_linked:
  assumes "linked h (q # xs @ y # zs)" and "\<forall>x \<in> set xs. \<not> stop x" and "stop y"
  shows "scan stop (nxt h) (nxt h q) = Some y"
  using assms
proof (induction xs arbitrary: q)
  case Nil
  then show ?case by (simp add: scan.simps)
next
  case (Cons x xs)
  then have "scan stop (nxt h) (nxt h x) = Some y" by simp
  then show ?case using Cons.prems by (simp add: scan.simps [of stop "nxt h" x])
qed

lemma ready_scan_linked:
  assumes "linked h (q # xs @ y # zs)" and "\<forall>x \<in> set xs. prio x \<le> prio n" and "prio n < prio y"
    and "\<forall>x \<in> set (xs @ [y]). 0 \<le> prio x"
  shows "ready_scan prio (nxt h) n (nxt h q) = Some y"
  using assms
proof (induction xs arbitrary: q)
  case Nil
  then show ?case by (simp add: ready_scan.simps)
next
  case (Cons x xs)
  then have "ready_scan prio (nxt h) n (nxt h x) = Some y" by simp
  moreover have "0 \<le> prio (nxt h x)" using Cons.prems by (cases xs) auto
  ultimately show ?case using Cons.prems by (simp add: ready_scan.simps [of prio "nxt h" n x])
qed

lemma hd_dropWhile_snoc:
  "stop q \<Longrightarrow> stop (hd (dropWhile (\<lambda>x. \<not> stop x) xs @ [q]))"
  "hd (dropWhile P xs @ [q]) \<in> set (q # xs)"
  by (induction xs) auto

lemma linked_ring_split:
  assumes "ring h q xs"
  shows "linked h (q # takeWhile P xs @ dropWhile P xs @ [q])"
  using assms by (simp add: ring_def flip: append_assoc)

lemma ring_scan:
  assumes "ring h q xs" and "stop q"
  shows "scan stop (nxt h) (nxt h q) = Some (hd (dropWhile (\<lambda>x. \<not> stop x) xs @ [q]))"
proof -
  let ?P = "\<lambda>x. \<not> stop x"
  let ?d = "dropWhile ?P xs @ [q]"
  have "linked h (q # takeWhile ?P xs @ hd ?d # tl ?d)"
    using linked_ring_split [OF assms(1), of ?P] by (metis Nil_is_append_conv list.collapse list.discI)
  then show ?thesis
    by (rule scan_linked) (use hd_dropWhile_snoc(1) [of stop q xs] assms(2) in \<open>auto dest: set_takeWhileD\<close>)
qed

definition same_outside :: "'a set \<Rightarrow> 'a links \<Rightarrow> 'a links \<Rightarrow> bool" where
  "same_outside A h h' \<longleftrightarrow> (\<forall>x. x \<notin> A \<longrightarrow> nxt h' x = nxt h x \<and> prv h' x = prv h x)"

lemma ring_prv_mem: "ring h q xs \<Longrightarrow> x \<in> set (q # xs) \<Longrightarrow> prv h x \<in> set (q # xs)"
proof -
  have "linked h ys \<Longrightarrow> x \<in> set (tl ys) \<Longrightarrow> prv h x \<in> set (butlast ys)" for ys
    by (induction h ys rule: linked.induct) auto
  from this [of "q # xs @ [q]"] show "ring h q xs \<Longrightarrow> x \<in> set (q # xs) \<Longrightarrow> prv h x \<in> set (q # xs)"
    by (auto simp: ring_def butlast_append)
qed

lemma link_before_outside:
  "same_outside {n, b, prv h b} h (link_before b n h)"
  by (auto simp: same_outside_def link_before_def Let_def)

lemma same_outside_mono: "same_outside A h h' \<Longrightarrow> A \<subseteq> B \<Longrightarrow> same_outside B h h'"
  by (auto simp: same_outside_def)

lemma ring_ins_at:
  assumes "ring h q xs" "n \<notin> set (q # xs)"
  shows "ring (link_before (hd (dropWhile (\<lambda>x. \<not> stop x) xs @ [q])) n h) q (queue_ins stop n xs)"
    "same_outside (set (n # q # xs)) h (link_before (hd (dropWhile (\<lambda>x. \<not> stop x) xs @ [q])) n h)"
proof -
  let ?P = "\<lambda>x. \<not> stop x" and ?b = "hd (dropWhile (\<lambda>x. \<not> stop x) xs @ [q])"
  show "ring (link_before ?b n h) q (queue_ins stop n xs)"
    using ring_link_before [of h q "takeWhile ?P xs" "dropWhile ?P xs" n] assms
    by (simp add: queue_ins_split)
  have "?b \<in> set (q # xs)" by (rule hd_dropWhile_snoc)
  then show "same_outside (set (n # q # xs)) h (link_before ?b n h)"
    using ring_prv_mem [OF assms(1)] by (auto intro: same_outside_mono [OF link_before_outside])
qed

section \<open>Refinement\<close>

text \<open>
  C39. \<^verbatim>\<open>enqueue_blocked\<close> on a well-formed ring returns, and leaves a well-formed ring:
  with \<^verbatim>\<open>qtype\<close> 0 the task stands before the first waiter of a strictly larger
  priority value, otherwise at the tail; no node outside the ring and the task is
  touched.
\<close>

theorem enqueue_blocked_ptr_refines:
  assumes "ring h queue xs" and "n \<notin> set (queue # xs)"
  shows "\<exists>h'. enqueue_blocked_ptr prio n queue qtype h = Some h' \<and>
     ring h' queue (if qtype = 0 then queue_ins (\<lambda>x. prio n < prio x) n xs else xs @ [n]) \<and>
     same_outside (set (n # queue # xs)) h h'"
proof (cases "qtype = 0")
  case True
  let ?stop = "\<lambda>q. \<not> (q \<noteq> queue \<and> prio q \<le> prio n)"
  have s: "scan ?stop (nxt h) (nxt h queue) = Some (hd (dropWhile (\<lambda>x. \<not> ?stop x) xs @ [queue]))"
    using ring_scan [OF assms(1), of ?stop] by simp
  have "queue \<notin> set xs" using assms(1) by (simp add: ring_def)
  then have "queue_ins ?stop n xs = queue_ins (\<lambda>x. prio n < prio x) n xs"
    by (intro queue_ins_cong) auto
  then show ?thesis
    using ring_ins_at [OF assms, of ?stop] True s by (simp add: enqueue_blocked_ptr_def)
next
  case False
  have e: "takeWhile (\<lambda>_. True) xs = xs" "dropWhile (\<lambda>_. True) xs = []"
    by (induction xs) simp_all
  show ?thesis
    using ring_ins_at [OF assms, of "\<lambda>_. False"] False
    by (simp add: enqueue_blocked_ptr_def queue_ins_split e)
qed

text \<open>The heap of a three-node ring, for the witnesses: sentinel 0, then 1 and 2.\<close>

definition ring3 :: "nat links" where
  "ring3 = \<lparr>nxt = (\<lambda>x. if x = 0 then 1 else if x = 1 then 2 else if x = 2 then 0 else x),
            prv = (\<lambda>x. if x = 0 then 2 else if x = 1 then 0 else if x = 2 then 1 else x)\<rparr>"

lemma ring3: "ring ring3 0 [1, 2]"
  by (simp add: ring_def ring3_def)

theorem enqueue_blocked_ptr_refines_witness:
  "\<exists>h'. enqueue_blocked_ptr (\<lambda>x. if x = 2 then 7 else 5) 3 0 0 ring3 = Some h' \<and>
     ring h' 0 [1, 3, 2] \<and> same_outside (set [3, 0, 1, 2]) ring3 h'"
  using enqueue_blocked_ptr_refines [OF ring3, of 3 "\<lambda>x. if x = 2 then 7 else 5" 0] by simp

text \<open>
  \<^verbatim>\<open>enq_ready_task\<close> (hard tasks): on the ready ring of a CPU, whose sentinel is the
  Linux task of priority \<^verbatim>\<open>RT_SCHED_LINUX_PRIORITY\<close>, the search returns and the task is
  linked in before the first task of a strictly larger priority value, provided no
  priority in the ring is negative and the task's own is below that of Linux.
\<close>

theorem enq_ready_task_ptr_refines:
  assumes "ring h linux xs" and "n \<notin> set (linux # xs)"
    and "prio linux = RT_SCHED_LINUX_PRIORITY" and "prio n < RT_SCHED_LINUX_PRIORITY"
    and "\<forall>x \<in> set xs. 0 \<le> prio x"
  shows "\<exists>h'. enq_ready_task_ptr prio linux n h = Some h' \<and>
     ring h' linux (queue_ins (\<lambda>x. prio n < prio x) n xs) \<and>
     same_outside (set (n # linux # xs)) h h'"
proof -
  let ?stop = "\<lambda>x. prio n < prio x" and ?P = "\<lambda>x. \<not> prio n < prio x"
  let ?d = "dropWhile ?P xs @ [linux]"
  have "linked h (linux # takeWhile ?P xs @ hd ?d # tl ?d)"
    using linked_ring_split [OF assms(1), of ?P] by (metis Nil_is_append_conv list.collapse list.discI)
  moreover have "?stop (hd ?d)" "hd ?d \<in> set (linux # xs)"
    using hd_dropWhile_snoc(1) [of ?stop linux xs] hd_dropWhile_snoc(2) [of ?P xs linux] assms(3,4)
    by simp_all
  ultimately have "ready_scan prio (nxt h) n (nxt h linux) = Some (hd ?d)"
    using assms(3,5) by (intro ready_scan_linked [of h linux "takeWhile ?P xs" "hd ?d" "tl ?d"])
      (auto dest: set_takeWhileD)
  then show ?thesis
    using ring_ins_at [OF assms(1,2), of ?stop] by (simp add: enq_ready_task_ptr_def)
qed

theorem enq_ready_task_ptr_refines_witness:
  "\<exists>h'. enq_ready_task_ptr (\<lambda>x. if x = 0 then RT_SCHED_LINUX_PRIORITY else 4) 0 3 ring3 = Some h' \<and>
     ring h' 0 [1, 2, 3] \<and> same_outside (set [3, 0, 1, 2]) ring3 h'"
  using enq_ready_task_ptr_refines [OF ring3, of 3 "\<lambda>x. if x = 0 then RT_SCHED_LINUX_PRIORITY else 4"]
  by simp

text \<open>
  \<^verbatim>\<open>enq_timed_task\<close> (the linear list): with a resume time below that of the Linux
  sentinel the search returns and the task is linked in before the first task that
  resumes at the same time or later.
\<close>

theorem enq_timed_task_ptr_refines:
  assumes "ring h linux xs" and "n \<notin> set (linux # xs)" and "resume_time n \<le> resume_time linux"
  shows "\<exists>h'. enq_timed_task_ptr resume_time linux n h = Some h' \<and>
     ring h' linux (queue_ins (\<lambda>x. resume_time n \<le> resume_time x) n xs) \<and>
     same_outside (set (n # linux # xs)) h h'"
proof -
  let ?stop = "\<lambda>t. \<not> resume_time n > resume_time t"
  have "queue_ins ?stop n xs = queue_ins (\<lambda>x. resume_time n \<le> resume_time x) n xs"
    by (intro queue_ins_cong) auto
  then show ?thesis
    using ring_scan [OF assms(1), of ?stop] ring_ins_at [OF assms(1,2), of ?stop] assms(3)
    by (simp add: enq_timed_task_ptr_def)
qed

theorem enq_timed_task_ptr_refines_witness:
  "\<exists>h'. enq_timed_task_ptr (\<lambda>x. if x = 0 then RTAI_TIME_LIMIT else int x * 10) 0 3 ring3 = Some h' \<and>
     ring h' 0 [1, 2, 3] \<and> same_outside (set [3, 0, 1, 2]) ring3 h'"
  using enq_timed_task_ptr_refines [OF ring3, of 3 "\<lambda>x. if x = 0 then RTAI_TIME_LIMIT else int x * 10"]
  by simp

lemma enq_ready_edf_task_ptr_refines:
  assumes "ring h linux xs" and "n \<notin> set (linux # xs)" and "policy linux = 0"
  shows "\<exists>h'. enq_ready_edf_task_ptr policy period linux n h = Some h' \<and>
     ring h' linux (queue_ins (\<lambda>t. \<not> (policy t < 0 \<and> period n \<ge> period t)) n xs) \<and>
     same_outside (set (n # linux # xs)) h h'"
  using ring_scan [OF assms(1), of "\<lambda>t. \<not> (policy t < 0 \<and> period n \<ge> period t)"] assms(3)
    ring_ins_at [OF assms(1,2), of "\<lambda>t. \<not> (policy t < 0 \<and> period n \<ge> period t)"]
  by (simp add: enq_ready_edf_task_ptr_def)

text \<open>
  Unlinking (\<^verbatim>\<open>dequeue_blocked\<close>, \<^verbatim>\<open>rem_ready_task\<close>, \<^verbatim>\<open>rem_timed_task\<close>)
  takes exactly the given task out of its ring; unlinking what an enqueue put in restores
  the ring as it was.
\<close>

theorem dequeue_blocked_ptr_refines:
  assumes "ring h queue xs" and "n \<in> set xs"
  shows "ring (dequeue_blocked_ptr n h) queue (remove1 n xs)"
proof -
  from assms(2) obtain ys zs where x: "xs = ys @ n # zs" "n \<notin> set ys"
    by (meson split_list_first)
  then show ?thesis
    using ring_unlink [of h queue ys n zs] assms(1) by (simp add: dequeue_blocked_ptr_def remove1_append)
qed

theorem dequeue_blocked_ptr_refines_witness: "ring (dequeue_blocked_ptr 1 ring3) 0 [2]"
  using dequeue_blocked_ptr_refines [OF ring3, of 1] by simp

lemma linked_same_outside:
  "same_outside A h h' \<Longrightarrow> linked h xs \<Longrightarrow> set xs \<inter> A = {} \<Longrightarrow> linked h' xs"
  by (induction h xs rule: linked.induct) (simp_all add: same_outside_def)

lemma relink_restores:
  assumes "nxt h p = b" "prv h b = p" "prv h t = p" "nxt h t = b"
    and "t \<noteq> c" "p \<noteq> t" "b \<noteq> t" "p \<noteq> c" "b \<noteq> c"
  shows "same_outside {c} h (unlink t (link_before b c h))"
  using assms by (auto simp: same_outside_def unlink_def link_before_def Let_def)

text \<open>
  Unlinking a task a second time, after it was already taken out, is not harmless: the
  task's stale links still name its old neighbours, so a task \<open>c\<close> that was linked in at
  its old place in between disappears from the ring. \<^verbatim>\<open>rt_task_suspend\<close> of another,
  delayed task calls \<^verbatim>\<open>rem_timed_task\<close> without clearing \<^verbatim>\<open>RT_SCHED_DELAYED\<close>, and
  \<^verbatim>\<open>rt_task_resume\<close> then unlinks the task again.
\<close>

theorem double_unlink_loses_task:
  assumes "ring h q (xs @ t # ys)" and "c \<notin> set (q # xs @ t # ys)"
  shows "ring (link_before (hd (ys @ [q])) c (unlink t h)) q (xs @ c # ys) \<and>
    ring (unlink t (link_before (hd (ys @ [q])) c (unlink t h))) q (xs @ ys)"
proof -
  define h1 where "h1 = unlink t h"
  define h2 where "h2 = link_before (hd (ys @ [q])) c h1"
  have r1: "ring h1 q (xs @ ys)" unfolding h1_def by (rule ring_unlink [OF assms(1)])
  have tc: "t \<noteq> c" "c \<notin> set (q # xs @ ys)" "t \<notin> set (q # xs @ ys)"
    using assms(1,2) by (auto simp: ring_def)
  let ?b = "hd (ys @ [q])" and ?p = "last (q # xs)"
  have l: "linked h (q # xs @ t # ys @ [q])" using assms(1) by (simp add: ring_def)
  have "q # xs = butlast (q # xs) @ [?p]" by simp
  then have "linked h (butlast (q # xs) @ ?p # t # ys @ [q])"
    using l by (metis append_Cons append_assoc append_Nil)
  then have "linked h (?p # t # ys @ [q])"
    using linked_append [of h "butlast (q # xs)" ?p "t # ys @ [q]"] by blast
  then have t: "prv h t = ?p" "nxt h t = ?b" by (cases ys; simp)+
  have pb: "?p \<noteq> t" "?b \<noteq> t" "?p \<noteq> c" "?b \<noteq> c"
    using tc last_in_set [of "q # xs"] hd_in_set [of "ys @ [q]"] by auto
  have h1: "nxt h1 ?p = ?b" "prv h1 ?b = ?p" "prv h1 t = ?p" "nxt h1 t = ?b"
    using t pb by (auto simp: h1_def unlink_def Let_def)
  have "same_outside {c} h1 (unlink t h2)"
    unfolding h2_def by (rule relink_restores [OF h1 tc(1) pb])
  then have "linked (unlink t h2) (q # xs @ ys @ [q])"
    by (rule linked_same_outside) (use r1 tc(2) in \<open>auto simp: ring_def\<close>)
  moreover have "ring h2 q (xs @ c # ys)"
    unfolding h2_def by (rule ring_link_before [OF r1 tc(2)])
  ultimately show ?thesis using r1 by (simp add: ring_def h1_def h2_def)
qed

theorem double_unlink_loses_task_witness:
  "ring (unlink 1 (link_before 2 3 (unlink 1 ring3))) 0 [2]"
  using double_unlink_loses_task [of ring3 0 "[]" 1 "[2]" 3] ring3 by simp

end
