(* ===== verification/Schedcore.thy ===== *)
theory Schedcore
  imports RT_Prelude
begin

text \<open>
  The scheduler core of \<^verbatim>\<open>include/rtai_schedcore.h\<close> and
  \<^verbatim>\<open>include/rtai_prinher.h\<close>: task and semaphore control blocks, the ready list and
  the timed list of each CPU, the rings of blocked tasks, and priority inheritance. The
  rings are lists in \<^verbatim>\<open>next\<close> order without their sentinel (theory \<open>Task_Rings\<close> shows
  that the pointer operations refine these list operations). The build modelled is the
  default one: SMP, linear timed list, no polling, no full priority inheritance
  (\<^verbatim>\<open>CONFIG_RTAI_FULL_PRINHER\<close> unset), new return values.
\<close>

section \<open>Control blocks\<close>

text \<open>A pointer to an \<^verbatim>\<open>RT_TASK\<close>: the Linux task of a CPU, or any other task.\<close>

datatype tid = Linux nat | Task nat

text \<open>A pointer to the head of a \<^verbatim>\<open>QUEUE\<close>: of a semaphore, of a task's messages, of a
  task's pending returns.\<close>

datatype qref = SemQ nat | MsgQ tid | RetQ tid

text \<open>
  \<^verbatim>\<open>blocked_on\<close>: null, one of the small error codes \<^verbatim>\<open>RTP_...\<close>, or an address (a
  queue head, a mailbox or a task). Only addresses exceed \<^verbatim>\<open>RTP_HIGERR\<close>.
\<close>

datatype blk = BNull | BErr nat | BQueue qref | BMbx nat | BTask tid

fun blk_is_adr :: "blk \<Rightarrow> bool" where
  "blk_is_adr BNull = False"
| "blk_is_adr (BErr _) = False"
| "blk_is_adr _ = True"

text \<open>\<^verbatim>\<open>owndby\<close> of a semaphore: null, a task, or (barriers) a number cast to a pointer.\<close>

datatype owner = ONull | OTask tid | ONum int

record rt_task =
  task_magic :: int
  state :: u32
  running :: int
  runnable_on_cpus :: nat
  priority :: int
  base_priority :: int
  policy :: int
  period :: int
  resume_time :: int
  periodic_resume_time :: int
  yield_time :: int
  rr_quantum :: int
  rr_remaining :: int
  suspdepth :: int
  owndres :: int
  blocked_on :: blk
  msg :: int
  msg_queue_task :: "tid option"
  ret_queue_task :: blk
  pid :: int
  proxy_receiver :: "tid option"
  proxy_msg :: int
  proxy_nmsgs :: int
  is_hard :: int
  resync_frame :: bool
  schedlat :: int
  lnx_soft_sleep :: bool

record sem =
  sem_magic :: int
  sem_type :: int
  restype :: int
  sem_count :: int
  owndby :: owner
  qtype :: int

text \<open>
  A mailbox: its two semaphores by their names, the task waiting for bytes or room, and the
  circular buffer with its counters.
\<close>

type_synonym byte = "8 word"

record mbx =
  mbx_magic :: int
  sndsem :: nat
  rcvsem :: nat
  waiting_task :: "tid option"
  bufadr :: "byte list"
  mbx_size :: nat
  fbyte :: nat
  lbyte :: nat
  avbs :: nat
  frbs :: nat

text \<open>\<^verbatim>\<open>struct mcb_t\<close>: the buffers of an extended message, their contents in place of their
  addresses. A null \<^verbatim>\<open>rbuf\<close> is \<open>None\<close>.\<close>

record mcb =
  sbuf :: "byte list"
  sbytes :: int
  rbuf :: "byte list option"
  rbytes :: int

text \<open>\<^verbatim>\<open>struct klist_t\<close>: the 64-slot list of Linux tasks to be woken.\<close>

record klist =
  k_in :: nat
  k_out :: nat
  k_task :: "nat \<Rightarrow> tid"

text \<open>The calibrated constants \<^verbatim>\<open>rtai_tunables\<close>, \<^verbatim>\<open>oneshot_span\<close>,
  \<^verbatim>\<open>satdelay\<close>, the latencies, and the CPUs of the machine.\<close>

record tunables =
  clock_freq :: int
  sched_latency :: int
  setup_time_TIMER_CPUNIT :: int
  oneshot_span :: int
  satdelay :: int
  num_online_cpus :: nat
  RTAI_NR_CPUS :: nat
  KernelLatency :: int
  UserLatency :: int
  TIMER_FREQ :: int

record kst =
  tasks :: "tid \<Rightarrow> rt_task"
  sems :: "nat \<Rightarrow> sem"
  qring :: "qref \<Rightarrow> tid list"
  rready :: "nat \<Rightarrow> tid list"
  rtimed :: "nat \<Rightarrow> tid list"
  rt_smp_current :: "nat \<Rightarrow> tid"
  rt_smp_time_h :: "nat \<Rightarrow> int"
  sched_locked :: "nat \<Rightarrow> nat"
  sched_rqsted :: "nat \<Rightarrow> int"
  sched_ipi :: "nat set"
  wake_up_srq :: "nat \<Rightarrow> klist"
  tick_time :: "nat \<Rightarrow> int"
  intr_time :: "nat \<Rightarrow> int"
  linux_time :: "nat \<Rightarrow> int"
  linux_tick :: "nat \<Rightarrow> int"
  timer_shot_fired :: "nat \<Rightarrow> int"
  timer_delay :: "nat \<Rightarrow> int"
  tsc :: int
  tuned :: tunables
  rt_half_tick :: "nat \<Rightarrow> int"
  all_tasks :: "tid list"
  tasks_per_cpu :: "nat \<Rightarrow> int"
  rt_pid :: int
  mbxs :: "nat \<Rightarrow> mbx"
  mcbs :: "int \<Rightarrow> mcb"

definition upd_task :: "tid \<Rightarrow> (rt_task \<Rightarrow> rt_task) \<Rightarrow> kst \<Rightarrow> kst" where
  "upd_task t f s = s\<lparr>tasks := (tasks s)(t := f (tasks s t))\<rparr>"

definition upd_sem :: "nat \<Rightarrow> (sem \<Rightarrow> sem) \<Rightarrow> kst \<Rightarrow> kst" where
  "upd_sem x f s = s\<lparr>sems := (sems s)(x := f (sems s x))\<rparr>"

definition upd_mbx :: "nat \<Rightarrow> (mbx \<Rightarrow> mbx) \<Rightarrow> kst \<Rightarrow> kst" where
  "upd_mbx m f s = s\<lparr>mbxs := (mbxs s)(m := f (mbxs s m))\<rparr>"

abbreviation cpu_of :: "kst \<Rightarrow> tid \<Rightarrow> nat" where
  "cpu_of s t \<equiv> runnable_on_cpus (tasks s t)"

abbreviation prio :: "kst \<Rightarrow> tid \<Rightarrow> int" where
  "prio s t \<equiv> priority (tasks s t)"

definition upd_ready :: "nat \<Rightarrow> (tid list \<Rightarrow> tid list) \<Rightarrow> kst \<Rightarrow> kst" where
  "upd_ready c f s = s\<lparr>rready := (rready s)(c := f (rready s c))\<rparr>"

definition upd_timed :: "nat \<Rightarrow> (tid list \<Rightarrow> tid list) \<Rightarrow> kst \<Rightarrow> kst" where
  "upd_timed c f s = s\<lparr>rtimed := (rtimed s)(c := f (rtimed s c))\<rparr>"

definition upd_ring :: "qref \<Rightarrow> (tid list \<Rightarrow> tid list) \<Rightarrow> kst \<Rightarrow> kst" where
  "upd_ring q f s = s\<lparr>qring := (qring s)(q := f (qring s q))\<rparr>"

section \<open>Ready list\<close>

text \<open>
  \<^verbatim>\<open>pend_wake_up_srq\<close>, through \<^verbatim>\<open>NON_RTAI_TASK_RESUME\<close>: note the Linux task of a
  soft task in the 64-slot list of this CPU.
\<close>

definition pend_wake_up_srq :: "nat \<Rightarrow> tid \<Rightarrow> kst \<Rightarrow> kst" where
  "pend_wake_up_srq cpuid t s =
     (let k = wake_up_srq s cpuid in
      s\<lparr>wake_up_srq := (wake_up_srq s)(cpuid :=
          k\<lparr>k_task := (k_task k)(k_in k mod 64 := t), k_in := Suc (k_in k)\<rparr>)\<rparr>)"

text \<open>The insertion loop of \<^verbatim>\<open>enq_ready_task\<close>; the end of the list is the Linux task,
  whose priority every real-time task's is below.\<close>

fun ready_ins :: "(tid \<Rightarrow> int) \<Rightarrow> tid \<Rightarrow> tid list \<Rightarrow> tid list" where
  "ready_ins p n [] = [n]"
| "ready_ins p n [x] = (if p n \<ge> p x then [x, n] else [n, x])"
| "ready_ins p n (x # y # ys) =
     (if p n \<ge> p x
      then (if p y < 0 then x # n # y # ys else x # ready_ins p n (y # ys))
      else n # x # y # ys)"

definition enq_ready_edf_task :: "tid \<Rightarrow> kst \<Rightarrow> kst" where
  "enq_ready_edf_task t s =
     upd_ready (cpu_of s t)
       (queue_ins (\<lambda>x. \<not> (policy (tasks s x) < 0 \<and> period (tasks s t) \<ge> period (tasks s x))) t) s"

definition enq_ready_task :: "nat \<Rightarrow> tid \<Rightarrow> kst \<Rightarrow> kst" where
  "enq_ready_task cpuid t s =
     (if is_hard (tasks s t) \<noteq> 0 then upd_ready (cpu_of s t) (ready_ins (prio s) t) s
      else pend_wake_up_srq cpuid t (upd_task t (\<lambda>k. k\<lparr>state := state k OR RT_SCHED_SFTRDY\<rparr>) s))"

definition unlink_ready :: "tid \<Rightarrow> kst \<Rightarrow> kst" where
  "unlink_ready t s = upd_ready (cpu_of s t) (remove1 t) s"

definition renq_ready_task :: "nat \<Rightarrow> tid \<Rightarrow> int \<Rightarrow> kst \<Rightarrow> kst \<times> bool" where
  "renq_ready_task cpuid t pr s =
     (if prio s t \<noteq> pr then
        (let s1 = upd_task t (\<lambda>k. k\<lparr>priority := pr\<rparr>) s in
         if state (tasks s1 t) = RT_SCHED_READY
         then (enq_ready_task cpuid t (unlink_ready t s1), True)
         else (s1, True))
      else (s, False))"

definition non_rtai_task_suspend :: "tid \<Rightarrow> kst \<Rightarrow> kst" where
  "non_rtai_task_suspend t s = upd_task t (\<lambda>k. k\<lparr>lnx_soft_sleep := True\<rparr>) s"

definition rem_ready_current :: "tid \<Rightarrow> kst \<Rightarrow> kst" where
  "rem_ready_current t s =
     unlink_ready t (if is_hard (tasks s t) \<noteq> 0 then s else non_rtai_task_suspend t s)"

definition rem_ready_task :: "tid \<Rightarrow> kst \<Rightarrow> kst" where
  "rem_ready_task t s =
     (if state (tasks s t) = RT_SCHED_READY then rem_ready_current t s else s)"

section \<open>Timed list\<close>

definition enq_timed_task :: "tid \<Rightarrow> kst \<Rightarrow> kst" where
  "enq_timed_task t s =
     upd_timed (cpu_of s t)
       (queue_ins (\<lambda>x. \<not> resume_time (tasks s t) > resume_time (tasks s x)) t) s"

definition rem_timed_task :: "tid \<Rightarrow> kst \<Rightarrow> kst" where
  "rem_timed_task t s =
     (if state (tasks s t) AND RT_SCHED_DELAYED \<noteq> 0
      then upd_timed (cpu_of s t) (remove1 t) s else s)"

abbreviation (input) WAKE_MASK :: u32 where
  "WAKE_MASK \<equiv> RT_SCHED_DELAYED OR RT_SCHED_SUSPENDED OR RT_SCHED_SEMAPHORE OR RT_SCHED_RECEIVE OR
     RT_SCHED_SEND OR RT_SCHED_RPC OR RT_SCHED_RETURN OR RT_SCHED_MBXSUSP OR RT_SCHED_POLL"

text \<open>The body of the wake-up loop for one task.\<close>

definition wake_up_timed_task :: "nat \<Rightarrow> tid \<Rightarrow> kst \<Rightarrow> kst" where
  "wake_up_timed_task cpuid t s =
     (let s1 = (if state (tasks s t) AND RT_SCHED_SUSPENDED \<noteq> 0 \<and> suspdepth (tasks s t) > 0
                then upd_task t (\<lambda>k. k\<lparr>suspdepth := 0\<rparr>) s else s);
          s2 = upd_task t (\<lambda>k. k\<lparr>state := state k AND NOT WAKE_MASK\<rparr>) s1
      in if state (tasks s2 t) = RT_SCHED_READY
         then (if policy (tasks s2 t) < 0 then enq_ready_edf_task t s2 else enq_ready_task cpuid t s2)
         else s2)"

text \<open>The \<^verbatim>\<open>do ... while\<close> loop, run on the timed list from its first task; it returns
  the rest of the list. The list's end is the Linux task, whose resume time
  \<^verbatim>\<open>RTAI_TIME_LIMIT\<close> the clock never reaches.\<close>

fun wake_up_loop :: "nat \<Rightarrow> tid list \<Rightarrow> kst \<Rightarrow> tid list \<times> kst" where
  "wake_up_loop cpuid [] s = ([], s)"
| "wake_up_loop cpuid [t] s = ([], wake_up_timed_task cpuid t s)"
| "wake_up_loop cpuid (t # u # ts) s =
     (let s1 = wake_up_timed_task cpuid t s in
      if resume_time (tasks s1 u) \<le> rt_smp_time_h s1 cpuid then wake_up_loop cpuid (u # ts) s1
      else (u # ts, s1))"

definition wake_up_timed_tasks :: "nat \<Rightarrow> kst \<Rightarrow> kst" where
  "wake_up_timed_tasks cpuid s =
     (case rtimed s cpuid of
        [] \<Rightarrow> s
      | t # ts \<Rightarrow>
          (if resume_time (tasks s t) - schedlat (tasks s t) \<le> rt_smp_time_h s cpuid
           then (case wake_up_loop cpuid (t # ts) s of
                   (rest, s1) \<Rightarrow> upd_timed cpuid (\<lambda>_. rest) s1)
           else s))"

section \<open>Blocked queues\<close>

definition enqueue_blocked :: "tid \<Rightarrow> qref \<Rightarrow> int \<Rightarrow> kst \<Rightarrow> kst" where
  "enqueue_blocked t q qt s =
     (let s1 = upd_task t (\<lambda>k. k\<lparr>blocked_on := BQueue q\<rparr>) s in
      if qt = 0 then upd_ring q (queue_ins (\<lambda>x. \<not> prio s1 x \<le> prio s1 t) t) s1
      else upd_ring q (\<lambda>xs. xs @ [t]) s1)"

text \<open>Unlinking a task's queue node takes the task out of whichever ring it is in.\<close>

definition unlink_blocked :: "tid \<Rightarrow> kst \<Rightarrow> kst" where
  "unlink_blocked t s = s\<lparr>qring := (\<lambda>q. remove1 t (qring s q))\<rparr>"

definition dequeue_blocked :: "tid \<Rightarrow> kst \<Rightarrow> kst" where
  "dequeue_blocked t s = upd_task t (\<lambda>k. k\<lparr>blocked_on := BNull\<rparr>) (unlink_blocked t s)"

section \<open>Priority inheritance\<close>

fun prev_in :: "'a \<Rightarrow> 'a \<Rightarrow> 'a list \<Rightarrow> 'a" where
  "prev_in q t [] = q"
| "prev_in q t (x # xs) = (if x = t then q else prev_in x t xs)"

fun next_in :: "'a \<Rightarrow> 'a \<Rightarrow> 'a list \<Rightarrow> 'a" where
  "next_in q t [] = q"
| "next_in q t (x # xs) =
     (if x = t then (case xs of [] \<Rightarrow> q | y # _ \<Rightarrow> y) else next_in q t xs)"

text \<open>\<^verbatim>\<open>task->queue.prev == blocked_on\<close>\<close>

definition first_in :: "'a \<Rightarrow> 'a list \<Rightarrow> bool" where
  "first_in t xs \<longleftrightarrow> (case xs of [] \<Rightarrow> False | x # _ \<Rightarrow> x = t)"

text \<open>The head of a CPU's ready list: \<^verbatim>\<open>rt_smp_linux_task[cpu].rnext\<close>.\<close>

definition rhead :: "kst \<Rightarrow> nat \<Rightarrow> tid" where
  "rhead s c = (case rready s c of [] \<Rightarrow> Linux c | t # _ \<Rightarrow> t)"

text \<open>\<^verbatim>\<open>queue->task\<close> of a queue head. (The small code that a receiving task keeps in the head of
  its return queue would be followed as an address by \<^verbatim>\<open>pass_prio\<close>; here it leads
  nowhere.)\<close>

fun queue_task :: "kst \<Rightarrow> qref \<Rightarrow> tid option" where
  "queue_task s (SemQ _) = None"
| "queue_task s (MsgQ t) = msg_queue_task (tasks s t)"
| "queue_task s (RetQ t) = (case ret_queue_task (tasks s t) of BTask u \<Rightarrow> Some u | _ \<Rightarrow> None)"

definition owner_task :: "owner \<Rightarrow> tid option" where
  "owner_task w = (case w of OTask t \<Rightarrow> Some t | _ \<Rightarrow> None)"

text \<open>
  The test under which a priority is passed on through the queue a task is blocked on: the
  queue, and the task the priority goes to next.
\<close>

definition pass_through :: "tid \<Rightarrow> kst \<Rightarrow> (qref \<times> tid option) option" where
  "pass_through t s =
     (case blocked_on (tasks s t) of
        BQueue (SemQ x) \<Rightarrow>
          (if state (tasks s t) AND RT_SCHED_SEMAPHORE \<noteq> 0 \<and> sem_type (sems s x) > 0
           then Some (SemQ x, owner_task (owndby (sems s x))) else None)
      | BQueue q \<Rightarrow>
          (if state (tasks s t) AND (RT_SCHED_SEND OR RT_SCHED_RPC OR RT_SCHED_RETURN) \<noteq> 0
           then Some (q, queue_task s q) else None)
      | _ \<Rightarrow> None)"

text \<open>The branch of \<^verbatim>\<open>pass_prio\<close> for a ready task.\<close>

definition pass_prio_ready :: "nat \<Rightarrow> tid \<Rightarrow> nat set \<Rightarrow> kst \<Rightarrow> kst \<times> nat set" where
  "pass_prio_ready cpuid t schedmap s =
     (let c = cpu_of s t in
      if prio s (prev_in (Linux c) t (rready s c)) > prio s t \<or>
         prio s (next_in (Linux c) t (rready s c)) < prio s t
      then (let s1 = enq_ready_task cpuid t (unlink_ready t s) in
            (s1, if rhead s c \<noteq> rhead s1 c then insert (c mod 32) schedmap else schedmap))
      else (s, schedmap))"

text \<open>Moving a blocked task to its new place in its ring.\<close>

definition requeue_blocked :: "tid \<Rightarrow> qref \<Rightarrow> kst \<Rightarrow> kst" where
  "requeue_blocked t q s =
     upd_ring q (\<lambda>xs. queue_ins (\<lambda>x. \<not> prio s x \<le> prio s t) t (remove1 t xs)) s"

text \<open>
  The loop of \<^verbatim>\<open>pass_prio\<close>. Each turn lowers the priority value of one more task to that
  of \<open>from\<close>, and a task already at that value ends the loop, so the number of tasks plus
  one is fuel enough.
\<close>

fun pass_prio_loop :: "nat \<Rightarrow> nat \<Rightarrow> tid option \<Rightarrow> tid \<Rightarrow> nat set \<Rightarrow> kst \<Rightarrow> kst \<times> nat set" where
  "pass_prio_loop 0 cpuid to from schedmap s = (s, schedmap)"
| "pass_prio_loop (Suc n) cpuid to from schedmap s =
     (case to of None \<Rightarrow> (s, schedmap)
      | Some t \<Rightarrow>
          if \<not> prio s t > prio s from then (s, schedmap)
          else
            (let s1 = upd_task t (\<lambda>k. k\<lparr>priority := prio s from\<rparr>) s in
             if state (tasks s1 t) = RT_SCHED_READY then pass_prio_ready cpuid t schedmap s1
             else
               (case pass_through t s1 of
                  None \<Rightarrow> pass_prio_loop n cpuid (Some t) from schedmap s1
                | Some (q, nxt) \<Rightarrow>
                    if \<not> first_in t (qring s1 q) then
                      (let s2 = requeue_blocked t q s1 in
                       if \<not> first_in t (qring s2 q) then (s2, schedmap)
                       else pass_prio_loop n cpuid nxt from schedmap s2)
                    else pass_prio_loop n cpuid nxt from schedmap s1)))"

definition pass_prio :: "nat \<Rightarrow> tid option \<Rightarrow> tid \<Rightarrow> kst \<Rightarrow> kst \<times> nat set" where
  "pass_prio cpuid to from s = pass_prio_loop (Suc (length (all_tasks s))) cpuid to from {} s"

definition task_owns_sems :: "tid \<Rightarrow> kst \<Rightarrow> bool" where
  "task_owns_sems t s \<longleftrightarrow> owndres (tasks s t) \<noteq> 0"

definition enqueue_resqel :: "tid \<Rightarrow> kst \<Rightarrow> kst" where
  "enqueue_resqel t s = upd_task t (\<lambda>k. k\<lparr>owndres := s32 (owndres k + 1)\<rparr>) s"

text \<open>The priority a task falls back to: its base priority, or that of the first task waiting
  to send it a message.\<close>

definition resq_prio :: "tid \<Rightarrow> kst \<Rightarrow> int" where
  "resq_prio t s =
     (case qring s (MsgQ t) of
        [] \<Rightarrow> base_priority (tasks s t)
      | q # _ \<Rightarrow> (if prio s q < base_priority (tasks s t) then prio s q
                 else base_priority (tasks s t)))"

definition set_prio_from_resq :: "nat \<Rightarrow> tid \<Rightarrow> kst \<Rightarrow> kst \<times> bool" where
  "set_prio_from_resq cpuid t s = renq_ready_task cpuid t (resq_prio t s) s"

definition dequeue_resqel_reset_task_priority :: "nat \<Rightarrow> tid \<Rightarrow> kst \<Rightarrow> kst \<times> bool" where
  "dequeue_resqel_reset_task_priority cpuid t s =
     (let s1 = upd_task t (\<lambda>k. k\<lparr>owndres := s32 (owndres k - 1)\<rparr>) s in
      if owndres (tasks s1 t) \<le> 0
      then set_prio_from_resq cpuid t (upd_task t (\<lambda>k. k\<lparr>owndres := 0\<rparr>) s1)
      else (s1, False))"

definition set_task_prio_from_resq :: "nat \<Rightarrow> tid \<Rightarrow> kst \<Rightarrow> kst \<times> bool" where
  "set_task_prio_from_resq cpuid t s =
     (if owndres (tasks s t) = 0 then set_prio_from_resq cpuid t s else (s, False))"

section \<open>Frame of the updates\<close>

lemma upd_task_sel [simp]:
  "tasks (upd_task t f s) = (tasks s)(t := f (tasks s t))"
  "sems (upd_task t f s) = sems s"
  "qring (upd_task t f s) = qring s"
  "rready (upd_task t f s) = rready s"
  "rtimed (upd_task t f s) = rtimed s"
  "rt_smp_current (upd_task t f s) = rt_smp_current s"
  "rt_smp_time_h (upd_task t f s) = rt_smp_time_h s"
  "sched_locked (upd_task t f s) = sched_locked s"
  "sched_rqsted (upd_task t f s) = sched_rqsted s"
  "sched_ipi (upd_task t f s) = sched_ipi s"
  "wake_up_srq (upd_task t f s) = wake_up_srq s"
  "tick_time (upd_task t f s) = tick_time s"
  "intr_time (upd_task t f s) = intr_time s"
  "linux_time (upd_task t f s) = linux_time s"
  "linux_tick (upd_task t f s) = linux_tick s"
  "timer_shot_fired (upd_task t f s) = timer_shot_fired s"
  "timer_delay (upd_task t f s) = timer_delay s"
  "tsc (upd_task t f s) = tsc s"
  "tuned (upd_task t f s) = tuned s"
  "rt_half_tick (upd_task t f s) = rt_half_tick s"
  "all_tasks (upd_task t f s) = all_tasks s"
  "tasks_per_cpu (upd_task t f s) = tasks_per_cpu s"
  "rt_pid (upd_task t f s) = rt_pid s"
  "mbxs (upd_task t f s) = mbxs s"
  by (simp_all add: upd_task_def)

lemma upd_sem_sel [simp]:
  "tasks (upd_sem x g s) = tasks s"
  "sems (upd_sem x g s) = (sems s)(x := g (sems s x))"
  "qring (upd_sem x g s) = qring s"
  "rready (upd_sem x g s) = rready s"
  "rtimed (upd_sem x g s) = rtimed s"
  "rt_smp_current (upd_sem x g s) = rt_smp_current s"
  "rt_smp_time_h (upd_sem x g s) = rt_smp_time_h s"
  "sched_locked (upd_sem x g s) = sched_locked s"
  "sched_rqsted (upd_sem x g s) = sched_rqsted s"
  "sched_ipi (upd_sem x g s) = sched_ipi s"
  "wake_up_srq (upd_sem x g s) = wake_up_srq s"
  "tick_time (upd_sem x g s) = tick_time s"
  "intr_time (upd_sem x g s) = intr_time s"
  "linux_time (upd_sem x g s) = linux_time s"
  "linux_tick (upd_sem x g s) = linux_tick s"
  "timer_shot_fired (upd_sem x g s) = timer_shot_fired s"
  "timer_delay (upd_sem x g s) = timer_delay s"
  "tsc (upd_sem x g s) = tsc s"
  "tuned (upd_sem x g s) = tuned s"
  "rt_half_tick (upd_sem x g s) = rt_half_tick s"
  "all_tasks (upd_sem x g s) = all_tasks s"
  "tasks_per_cpu (upd_sem x g s) = tasks_per_cpu s"
  "rt_pid (upd_sem x g s) = rt_pid s"
  "mbxs (upd_sem x g s) = mbxs s"
  by (simp_all add: upd_sem_def)

lemma upd_ready_sel [simp]:
  "tasks (upd_ready c f s) = tasks s"
  "sems (upd_ready c f s) = sems s"
  "qring (upd_ready c f s) = qring s"
  "rready (upd_ready c f s) = (rready s)(c := f (rready s c))"
  "rtimed (upd_ready c f s) = rtimed s"
  "rt_smp_current (upd_ready c f s) = rt_smp_current s"
  "rt_smp_time_h (upd_ready c f s) = rt_smp_time_h s"
  "sched_locked (upd_ready c f s) = sched_locked s"
  "sched_rqsted (upd_ready c f s) = sched_rqsted s"
  "sched_ipi (upd_ready c f s) = sched_ipi s"
  "wake_up_srq (upd_ready c f s) = wake_up_srq s"
  "tick_time (upd_ready c f s) = tick_time s"
  "intr_time (upd_ready c f s) = intr_time s"
  "linux_time (upd_ready c f s) = linux_time s"
  "linux_tick (upd_ready c f s) = linux_tick s"
  "timer_shot_fired (upd_ready c f s) = timer_shot_fired s"
  "timer_delay (upd_ready c f s) = timer_delay s"
  "tsc (upd_ready c f s) = tsc s"
  "tuned (upd_ready c f s) = tuned s"
  "rt_half_tick (upd_ready c f s) = rt_half_tick s"
  "all_tasks (upd_ready c f s) = all_tasks s"
  "tasks_per_cpu (upd_ready c f s) = tasks_per_cpu s"
  "rt_pid (upd_ready c f s) = rt_pid s"
  "mbxs (upd_ready c f s) = mbxs s"
  by (simp_all add: upd_ready_def)

lemma upd_timed_sel [simp]:
  "tasks (upd_timed c f s) = tasks s"
  "sems (upd_timed c f s) = sems s"
  "qring (upd_timed c f s) = qring s"
  "rready (upd_timed c f s) = rready s"
  "rtimed (upd_timed c f s) = (rtimed s)(c := f (rtimed s c))"
  "rt_smp_current (upd_timed c f s) = rt_smp_current s"
  "rt_smp_time_h (upd_timed c f s) = rt_smp_time_h s"
  "sched_locked (upd_timed c f s) = sched_locked s"
  "sched_rqsted (upd_timed c f s) = sched_rqsted s"
  "sched_ipi (upd_timed c f s) = sched_ipi s"
  "wake_up_srq (upd_timed c f s) = wake_up_srq s"
  "tick_time (upd_timed c f s) = tick_time s"
  "intr_time (upd_timed c f s) = intr_time s"
  "linux_time (upd_timed c f s) = linux_time s"
  "linux_tick (upd_timed c f s) = linux_tick s"
  "timer_shot_fired (upd_timed c f s) = timer_shot_fired s"
  "timer_delay (upd_timed c f s) = timer_delay s"
  "tsc (upd_timed c f s) = tsc s"
  "tuned (upd_timed c f s) = tuned s"
  "rt_half_tick (upd_timed c f s) = rt_half_tick s"
  "all_tasks (upd_timed c f s) = all_tasks s"
  "tasks_per_cpu (upd_timed c f s) = tasks_per_cpu s"
  "rt_pid (upd_timed c f s) = rt_pid s"
  "mbxs (upd_timed c f s) = mbxs s"
  by (simp_all add: upd_timed_def)

lemma upd_ring_sel [simp]:
  "tasks (upd_ring q f s) = tasks s"
  "sems (upd_ring q f s) = sems s"
  "qring (upd_ring q f s) = (qring s)(q := f (qring s q))"
  "rready (upd_ring q f s) = rready s"
  "rtimed (upd_ring q f s) = rtimed s"
  "rt_smp_current (upd_ring q f s) = rt_smp_current s"
  "rt_smp_time_h (upd_ring q f s) = rt_smp_time_h s"
  "sched_locked (upd_ring q f s) = sched_locked s"
  "sched_rqsted (upd_ring q f s) = sched_rqsted s"
  "sched_ipi (upd_ring q f s) = sched_ipi s"
  "wake_up_srq (upd_ring q f s) = wake_up_srq s"
  "tick_time (upd_ring q f s) = tick_time s"
  "intr_time (upd_ring q f s) = intr_time s"
  "linux_time (upd_ring q f s) = linux_time s"
  "linux_tick (upd_ring q f s) = linux_tick s"
  "timer_shot_fired (upd_ring q f s) = timer_shot_fired s"
  "timer_delay (upd_ring q f s) = timer_delay s"
  "tsc (upd_ring q f s) = tsc s"
  "tuned (upd_ring q f s) = tuned s"
  "rt_half_tick (upd_ring q f s) = rt_half_tick s"
  "all_tasks (upd_ring q f s) = all_tasks s"
  "tasks_per_cpu (upd_ring q f s) = tasks_per_cpu s"
  "rt_pid (upd_ring q f s) = rt_pid s"
  "mbxs (upd_ring q f s) = mbxs s"
  by (simp_all add: upd_ring_def)


lemma upd_mbx_sel [simp]:
  "tasks (upd_mbx m g s) = tasks s"
  "sems (upd_mbx m g s) = sems s"
  "qring (upd_mbx m g s) = qring s"
  "rready (upd_mbx m g s) = rready s"
  "rtimed (upd_mbx m g s) = rtimed s"
  "rt_smp_current (upd_mbx m g s) = rt_smp_current s"
  "rt_smp_time_h (upd_mbx m g s) = rt_smp_time_h s"
  "sched_locked (upd_mbx m g s) = sched_locked s"
  "sched_rqsted (upd_mbx m g s) = sched_rqsted s"
  "sched_ipi (upd_mbx m g s) = sched_ipi s"
  "wake_up_srq (upd_mbx m g s) = wake_up_srq s"
  "tick_time (upd_mbx m g s) = tick_time s"
  "intr_time (upd_mbx m g s) = intr_time s"
  "linux_time (upd_mbx m g s) = linux_time s"
  "linux_tick (upd_mbx m g s) = linux_tick s"
  "timer_shot_fired (upd_mbx m g s) = timer_shot_fired s"
  "timer_delay (upd_mbx m g s) = timer_delay s"
  "tsc (upd_mbx m g s) = tsc s"
  "tuned (upd_mbx m g s) = tuned s"
  "rt_half_tick (upd_mbx m g s) = rt_half_tick s"
  "all_tasks (upd_mbx m g s) = all_tasks s"
  "tasks_per_cpu (upd_mbx m g s) = tasks_per_cpu s"
  "rt_pid (upd_mbx m g s) = rt_pid s"
  "mbxs (upd_mbx m g s) = (mbxs s)(m := g (mbxs s m))"
  by (simp_all add: upd_mbx_def)

lemma pend_wake_up_srq_sel [simp]:
  "tasks (pend_wake_up_srq c t s) = tasks s"
  "sems (pend_wake_up_srq c t s) = sems s"
  "qring (pend_wake_up_srq c t s) = qring s"
  "rready (pend_wake_up_srq c t s) = rready s"
  "rtimed (pend_wake_up_srq c t s) = rtimed s"
  "rt_smp_current (pend_wake_up_srq c t s) = rt_smp_current s"
  "rt_smp_time_h (pend_wake_up_srq c t s) = rt_smp_time_h s"
  "sched_locked (pend_wake_up_srq c t s) = sched_locked s"
  "sched_rqsted (pend_wake_up_srq c t s) = sched_rqsted s"
  "sched_ipi (pend_wake_up_srq c t s) = sched_ipi s"
  "tick_time (pend_wake_up_srq c t s) = tick_time s"
  "intr_time (pend_wake_up_srq c t s) = intr_time s"
  "linux_time (pend_wake_up_srq c t s) = linux_time s"
  "linux_tick (pend_wake_up_srq c t s) = linux_tick s"
  "timer_shot_fired (pend_wake_up_srq c t s) = timer_shot_fired s"
  "timer_delay (pend_wake_up_srq c t s) = timer_delay s"
  "tsc (pend_wake_up_srq c t s) = tsc s"
  "tuned (pend_wake_up_srq c t s) = tuned s"
  "rt_half_tick (pend_wake_up_srq c t s) = rt_half_tick s"
  "all_tasks (pend_wake_up_srq c t s) = all_tasks s"
  "tasks_per_cpu (pend_wake_up_srq c t s) = tasks_per_cpu s"
  "rt_pid (pend_wake_up_srq c t s) = rt_pid s"
  "mbxs (pend_wake_up_srq c t s) = mbxs s"
  by (simp_all add: pend_wake_up_srq_def Let_def)

lemma enq_ready_task_sel [simp]:
  "tasks (enq_ready_task c t s) = (if is_hard (tasks s t) \<noteq> 0 then tasks s
     else (tasks s)(t := (tasks s t)\<lparr>state := state (tasks s t) OR RT_SCHED_SFTRDY\<rparr>))"
  "sems (enq_ready_task c t s) = sems s"
  "qring (enq_ready_task c t s) = qring s"
  "rtimed (enq_ready_task c t s) = rtimed s"
  "rt_smp_current (enq_ready_task c t s) = rt_smp_current s"
  "rt_smp_time_h (enq_ready_task c t s) = rt_smp_time_h s"
  "sched_locked (enq_ready_task c t s) = sched_locked s"
  "sched_rqsted (enq_ready_task c t s) = sched_rqsted s"
  "sched_ipi (enq_ready_task c t s) = sched_ipi s"
  "tick_time (enq_ready_task c t s) = tick_time s"
  "intr_time (enq_ready_task c t s) = intr_time s"
  "linux_time (enq_ready_task c t s) = linux_time s"
  "linux_tick (enq_ready_task c t s) = linux_tick s"
  "timer_shot_fired (enq_ready_task c t s) = timer_shot_fired s"
  "timer_delay (enq_ready_task c t s) = timer_delay s"
  "tsc (enq_ready_task c t s) = tsc s"
  "tuned (enq_ready_task c t s) = tuned s"
  "rt_half_tick (enq_ready_task c t s) = rt_half_tick s"
  "all_tasks (enq_ready_task c t s) = all_tasks s"
  "tasks_per_cpu (enq_ready_task c t s) = tasks_per_cpu s"
  "rt_pid (enq_ready_task c t s) = rt_pid s"
  "mbxs (enq_ready_task c t s) = mbxs s"
  by (simp_all add: enq_ready_task_def)

lemma enq_ready_edf_task_sel [simp]:
  "tasks (enq_ready_edf_task t s) = tasks s"
  "sems (enq_ready_edf_task t s) = sems s"
  "qring (enq_ready_edf_task t s) = qring s"
  "rtimed (enq_ready_edf_task t s) = rtimed s"
  "rt_smp_current (enq_ready_edf_task t s) = rt_smp_current s"
  "rt_smp_time_h (enq_ready_edf_task t s) = rt_smp_time_h s"
  "sched_locked (enq_ready_edf_task t s) = sched_locked s"
  "sched_rqsted (enq_ready_edf_task t s) = sched_rqsted s"
  "sched_ipi (enq_ready_edf_task t s) = sched_ipi s"
  "wake_up_srq (enq_ready_edf_task t s) = wake_up_srq s"
  "tick_time (enq_ready_edf_task t s) = tick_time s"
  "intr_time (enq_ready_edf_task t s) = intr_time s"
  "linux_time (enq_ready_edf_task t s) = linux_time s"
  "linux_tick (enq_ready_edf_task t s) = linux_tick s"
  "timer_shot_fired (enq_ready_edf_task t s) = timer_shot_fired s"
  "timer_delay (enq_ready_edf_task t s) = timer_delay s"
  "tsc (enq_ready_edf_task t s) = tsc s"
  "tuned (enq_ready_edf_task t s) = tuned s"
  "rt_half_tick (enq_ready_edf_task t s) = rt_half_tick s"
  "all_tasks (enq_ready_edf_task t s) = all_tasks s"
  "tasks_per_cpu (enq_ready_edf_task t s) = tasks_per_cpu s"
  "rt_pid (enq_ready_edf_task t s) = rt_pid s"
  "mbxs (enq_ready_edf_task t s) = mbxs s"
  by (simp_all add: enq_ready_edf_task_def)

lemma unlink_ready_sel [simp]:
  "tasks (unlink_ready t s) = tasks s"
  "sems (unlink_ready t s) = sems s"
  "qring (unlink_ready t s) = qring s"
  "rready (unlink_ready t s) = (rready s)(cpu_of s t := remove1 t (rready s (cpu_of s t)))"
  "rtimed (unlink_ready t s) = rtimed s"
  "rt_smp_current (unlink_ready t s) = rt_smp_current s"
  "rt_smp_time_h (unlink_ready t s) = rt_smp_time_h s"
  "sched_locked (unlink_ready t s) = sched_locked s"
  "sched_rqsted (unlink_ready t s) = sched_rqsted s"
  "sched_ipi (unlink_ready t s) = sched_ipi s"
  "wake_up_srq (unlink_ready t s) = wake_up_srq s"
  "tick_time (unlink_ready t s) = tick_time s"
  "intr_time (unlink_ready t s) = intr_time s"
  "linux_time (unlink_ready t s) = linux_time s"
  "linux_tick (unlink_ready t s) = linux_tick s"
  "timer_shot_fired (unlink_ready t s) = timer_shot_fired s"
  "timer_delay (unlink_ready t s) = timer_delay s"
  "tsc (unlink_ready t s) = tsc s"
  "tuned (unlink_ready t s) = tuned s"
  "rt_half_tick (unlink_ready t s) = rt_half_tick s"
  "all_tasks (unlink_ready t s) = all_tasks s"
  "tasks_per_cpu (unlink_ready t s) = tasks_per_cpu s"
  "rt_pid (unlink_ready t s) = rt_pid s"
  "mbxs (unlink_ready t s) = mbxs s"
  by (simp_all add: unlink_ready_def)

lemma enq_timed_task_sel [simp]:
  "tasks (enq_timed_task t s) = tasks s"
  "sems (enq_timed_task t s) = sems s"
  "qring (enq_timed_task t s) = qring s"
  "rready (enq_timed_task t s) = rready s"
  "rt_smp_current (enq_timed_task t s) = rt_smp_current s"
  "rt_smp_time_h (enq_timed_task t s) = rt_smp_time_h s"
  "sched_locked (enq_timed_task t s) = sched_locked s"
  "sched_rqsted (enq_timed_task t s) = sched_rqsted s"
  "sched_ipi (enq_timed_task t s) = sched_ipi s"
  "wake_up_srq (enq_timed_task t s) = wake_up_srq s"
  "tick_time (enq_timed_task t s) = tick_time s"
  "intr_time (enq_timed_task t s) = intr_time s"
  "linux_time (enq_timed_task t s) = linux_time s"
  "linux_tick (enq_timed_task t s) = linux_tick s"
  "timer_shot_fired (enq_timed_task t s) = timer_shot_fired s"
  "timer_delay (enq_timed_task t s) = timer_delay s"
  "tsc (enq_timed_task t s) = tsc s"
  "tuned (enq_timed_task t s) = tuned s"
  "rt_half_tick (enq_timed_task t s) = rt_half_tick s"
  "all_tasks (enq_timed_task t s) = all_tasks s"
  "tasks_per_cpu (enq_timed_task t s) = tasks_per_cpu s"
  "rt_pid (enq_timed_task t s) = rt_pid s"
  "mbxs (enq_timed_task t s) = mbxs s"
  by (simp_all add: enq_timed_task_def)

lemma rem_timed_task_sel [simp]:
  "tasks (rem_timed_task t s) = tasks s"
  "sems (rem_timed_task t s) = sems s"
  "qring (rem_timed_task t s) = qring s"
  "rready (rem_timed_task t s) = rready s"
  "rt_smp_current (rem_timed_task t s) = rt_smp_current s"
  "rt_smp_time_h (rem_timed_task t s) = rt_smp_time_h s"
  "sched_locked (rem_timed_task t s) = sched_locked s"
  "sched_rqsted (rem_timed_task t s) = sched_rqsted s"
  "sched_ipi (rem_timed_task t s) = sched_ipi s"
  "wake_up_srq (rem_timed_task t s) = wake_up_srq s"
  "tick_time (rem_timed_task t s) = tick_time s"
  "intr_time (rem_timed_task t s) = intr_time s"
  "linux_time (rem_timed_task t s) = linux_time s"
  "linux_tick (rem_timed_task t s) = linux_tick s"
  "timer_shot_fired (rem_timed_task t s) = timer_shot_fired s"
  "timer_delay (rem_timed_task t s) = timer_delay s"
  "tsc (rem_timed_task t s) = tsc s"
  "tuned (rem_timed_task t s) = tuned s"
  "rt_half_tick (rem_timed_task t s) = rt_half_tick s"
  "all_tasks (rem_timed_task t s) = all_tasks s"
  "tasks_per_cpu (rem_timed_task t s) = tasks_per_cpu s"
  "rt_pid (rem_timed_task t s) = rt_pid s"
  "mbxs (rem_timed_task t s) = mbxs s"
  by (simp_all add: rem_timed_task_def)

lemma non_rtai_task_suspend_sel [simp]:
  "tasks (non_rtai_task_suspend t s) = (tasks s)(t := (tasks s t)\<lparr>lnx_soft_sleep := True\<rparr>)"
  "sems (non_rtai_task_suspend t s) = sems s"
  "qring (non_rtai_task_suspend t s) = qring s"
  "rready (non_rtai_task_suspend t s) = rready s"
  "rtimed (non_rtai_task_suspend t s) = rtimed s"
  "rt_smp_current (non_rtai_task_suspend t s) = rt_smp_current s"
  "rt_smp_time_h (non_rtai_task_suspend t s) = rt_smp_time_h s"
  "sched_locked (non_rtai_task_suspend t s) = sched_locked s"
  "sched_rqsted (non_rtai_task_suspend t s) = sched_rqsted s"
  "sched_ipi (non_rtai_task_suspend t s) = sched_ipi s"
  "wake_up_srq (non_rtai_task_suspend t s) = wake_up_srq s"
  "tick_time (non_rtai_task_suspend t s) = tick_time s"
  "intr_time (non_rtai_task_suspend t s) = intr_time s"
  "linux_time (non_rtai_task_suspend t s) = linux_time s"
  "linux_tick (non_rtai_task_suspend t s) = linux_tick s"
  "timer_shot_fired (non_rtai_task_suspend t s) = timer_shot_fired s"
  "timer_delay (non_rtai_task_suspend t s) = timer_delay s"
  "tsc (non_rtai_task_suspend t s) = tsc s"
  "tuned (non_rtai_task_suspend t s) = tuned s"
  "rt_half_tick (non_rtai_task_suspend t s) = rt_half_tick s"
  "all_tasks (non_rtai_task_suspend t s) = all_tasks s"
  "tasks_per_cpu (non_rtai_task_suspend t s) = tasks_per_cpu s"
  "rt_pid (non_rtai_task_suspend t s) = rt_pid s"
  "mbxs (non_rtai_task_suspend t s) = mbxs s"
  by (simp_all add: non_rtai_task_suspend_def)

lemma rem_ready_current_sel [simp]:
  "tasks (rem_ready_current t s) = (if is_hard (tasks s t) \<noteq> 0 then tasks s
     else (tasks s)(t := (tasks s t)\<lparr>lnx_soft_sleep := True\<rparr>))"
  "sems (rem_ready_current t s) = sems s"
  "qring (rem_ready_current t s) = qring s"
  "rready (rem_ready_current t s) = (rready s)(cpu_of s t := remove1 t (rready s (cpu_of s t)))"
  "rtimed (rem_ready_current t s) = rtimed s"
  "rt_smp_current (rem_ready_current t s) = rt_smp_current s"
  "rt_smp_time_h (rem_ready_current t s) = rt_smp_time_h s"
  "sched_locked (rem_ready_current t s) = sched_locked s"
  "sched_rqsted (rem_ready_current t s) = sched_rqsted s"
  "sched_ipi (rem_ready_current t s) = sched_ipi s"
  "wake_up_srq (rem_ready_current t s) = wake_up_srq s"
  "tick_time (rem_ready_current t s) = tick_time s"
  "intr_time (rem_ready_current t s) = intr_time s"
  "linux_time (rem_ready_current t s) = linux_time s"
  "linux_tick (rem_ready_current t s) = linux_tick s"
  "timer_shot_fired (rem_ready_current t s) = timer_shot_fired s"
  "timer_delay (rem_ready_current t s) = timer_delay s"
  "tsc (rem_ready_current t s) = tsc s"
  "tuned (rem_ready_current t s) = tuned s"
  "rt_half_tick (rem_ready_current t s) = rt_half_tick s"
  "all_tasks (rem_ready_current t s) = all_tasks s"
  "tasks_per_cpu (rem_ready_current t s) = tasks_per_cpu s"
  "rt_pid (rem_ready_current t s) = rt_pid s"
  "mbxs (rem_ready_current t s) = mbxs s"
  by (simp_all add: rem_ready_current_def)

lemma rem_ready_task_sel [simp]:
  "sems (rem_ready_task t s) = sems s"
  "qring (rem_ready_task t s) = qring s"
  "rtimed (rem_ready_task t s) = rtimed s"
  "rt_smp_current (rem_ready_task t s) = rt_smp_current s"
  "rt_smp_time_h (rem_ready_task t s) = rt_smp_time_h s"
  "sched_locked (rem_ready_task t s) = sched_locked s"
  "sched_rqsted (rem_ready_task t s) = sched_rqsted s"
  "sched_ipi (rem_ready_task t s) = sched_ipi s"
  "wake_up_srq (rem_ready_task t s) = wake_up_srq s"
  "tick_time (rem_ready_task t s) = tick_time s"
  "intr_time (rem_ready_task t s) = intr_time s"
  "linux_time (rem_ready_task t s) = linux_time s"
  "linux_tick (rem_ready_task t s) = linux_tick s"
  "timer_shot_fired (rem_ready_task t s) = timer_shot_fired s"
  "timer_delay (rem_ready_task t s) = timer_delay s"
  "tsc (rem_ready_task t s) = tsc s"
  "tuned (rem_ready_task t s) = tuned s"
  "rt_half_tick (rem_ready_task t s) = rt_half_tick s"
  "all_tasks (rem_ready_task t s) = all_tasks s"
  "tasks_per_cpu (rem_ready_task t s) = tasks_per_cpu s"
  "rt_pid (rem_ready_task t s) = rt_pid s"
  "mbxs (rem_ready_task t s) = mbxs s"
  by (simp_all add: rem_ready_task_def)

lemma unlink_blocked_sel [simp]:
  "tasks (unlink_blocked t s) = tasks s"
  "sems (unlink_blocked t s) = sems s"
  "qring (unlink_blocked t s) = (\<lambda>q. remove1 t (qring s q))"
  "rready (unlink_blocked t s) = rready s"
  "rtimed (unlink_blocked t s) = rtimed s"
  "rt_smp_current (unlink_blocked t s) = rt_smp_current s"
  "rt_smp_time_h (unlink_blocked t s) = rt_smp_time_h s"
  "sched_locked (unlink_blocked t s) = sched_locked s"
  "sched_rqsted (unlink_blocked t s) = sched_rqsted s"
  "sched_ipi (unlink_blocked t s) = sched_ipi s"
  "wake_up_srq (unlink_blocked t s) = wake_up_srq s"
  "tick_time (unlink_blocked t s) = tick_time s"
  "intr_time (unlink_blocked t s) = intr_time s"
  "linux_time (unlink_blocked t s) = linux_time s"
  "linux_tick (unlink_blocked t s) = linux_tick s"
  "timer_shot_fired (unlink_blocked t s) = timer_shot_fired s"
  "timer_delay (unlink_blocked t s) = timer_delay s"
  "tsc (unlink_blocked t s) = tsc s"
  "tuned (unlink_blocked t s) = tuned s"
  "rt_half_tick (unlink_blocked t s) = rt_half_tick s"
  "all_tasks (unlink_blocked t s) = all_tasks s"
  "tasks_per_cpu (unlink_blocked t s) = tasks_per_cpu s"
  "rt_pid (unlink_blocked t s) = rt_pid s"
  "mbxs (unlink_blocked t s) = mbxs s"
  by (simp_all add: unlink_blocked_def)

lemma dequeue_blocked_sel [simp]:
  "tasks (dequeue_blocked t s) = (tasks s)(t := (tasks s t)\<lparr>blocked_on := BNull\<rparr>)"
  "sems (dequeue_blocked t s) = sems s"
  "qring (dequeue_blocked t s) = (\<lambda>q. remove1 t (qring s q))"
  "rready (dequeue_blocked t s) = rready s"
  "rtimed (dequeue_blocked t s) = rtimed s"
  "rt_smp_current (dequeue_blocked t s) = rt_smp_current s"
  "rt_smp_time_h (dequeue_blocked t s) = rt_smp_time_h s"
  "sched_locked (dequeue_blocked t s) = sched_locked s"
  "sched_rqsted (dequeue_blocked t s) = sched_rqsted s"
  "sched_ipi (dequeue_blocked t s) = sched_ipi s"
  "wake_up_srq (dequeue_blocked t s) = wake_up_srq s"
  "tick_time (dequeue_blocked t s) = tick_time s"
  "intr_time (dequeue_blocked t s) = intr_time s"
  "linux_time (dequeue_blocked t s) = linux_time s"
  "linux_tick (dequeue_blocked t s) = linux_tick s"
  "timer_shot_fired (dequeue_blocked t s) = timer_shot_fired s"
  "timer_delay (dequeue_blocked t s) = timer_delay s"
  "tsc (dequeue_blocked t s) = tsc s"
  "tuned (dequeue_blocked t s) = tuned s"
  "rt_half_tick (dequeue_blocked t s) = rt_half_tick s"
  "all_tasks (dequeue_blocked t s) = all_tasks s"
  "tasks_per_cpu (dequeue_blocked t s) = tasks_per_cpu s"
  "rt_pid (dequeue_blocked t s) = rt_pid s"
  "mbxs (dequeue_blocked t s) = mbxs s"
  by (simp_all add: dequeue_blocked_def)

lemma enqueue_blocked_sel [simp]:
  "tasks (enqueue_blocked t q qt s) = (tasks s)(t := (tasks s t)\<lparr>blocked_on := BQueue q\<rparr>)"
  "sems (enqueue_blocked t q qt s) = sems s"
  "rready (enqueue_blocked t q qt s) = rready s"
  "rtimed (enqueue_blocked t q qt s) = rtimed s"
  "rt_smp_current (enqueue_blocked t q qt s) = rt_smp_current s"
  "rt_smp_time_h (enqueue_blocked t q qt s) = rt_smp_time_h s"
  "sched_locked (enqueue_blocked t q qt s) = sched_locked s"
  "sched_rqsted (enqueue_blocked t q qt s) = sched_rqsted s"
  "sched_ipi (enqueue_blocked t q qt s) = sched_ipi s"
  "wake_up_srq (enqueue_blocked t q qt s) = wake_up_srq s"
  "tick_time (enqueue_blocked t q qt s) = tick_time s"
  "intr_time (enqueue_blocked t q qt s) = intr_time s"
  "linux_time (enqueue_blocked t q qt s) = linux_time s"
  "linux_tick (enqueue_blocked t q qt s) = linux_tick s"
  "timer_shot_fired (enqueue_blocked t q qt s) = timer_shot_fired s"
  "timer_delay (enqueue_blocked t q qt s) = timer_delay s"
  "tsc (enqueue_blocked t q qt s) = tsc s"
  "tuned (enqueue_blocked t q qt s) = tuned s"
  "rt_half_tick (enqueue_blocked t q qt s) = rt_half_tick s"
  "all_tasks (enqueue_blocked t q qt s) = all_tasks s"
  "tasks_per_cpu (enqueue_blocked t q qt s) = tasks_per_cpu s"
  "rt_pid (enqueue_blocked t q qt s) = rt_pid s"
  "mbxs (enqueue_blocked t q qt s) = mbxs s"
  by (simp_all add: enqueue_blocked_def Let_def)

lemma requeue_blocked_sel [simp]:
  "tasks (requeue_blocked t q s) = tasks s"
  "sems (requeue_blocked t q s) = sems s"
  "rready (requeue_blocked t q s) = rready s"
  "rtimed (requeue_blocked t q s) = rtimed s"
  "rt_smp_current (requeue_blocked t q s) = rt_smp_current s"
  "rt_smp_time_h (requeue_blocked t q s) = rt_smp_time_h s"
  "sched_locked (requeue_blocked t q s) = sched_locked s"
  "sched_rqsted (requeue_blocked t q s) = sched_rqsted s"
  "sched_ipi (requeue_blocked t q s) = sched_ipi s"
  "wake_up_srq (requeue_blocked t q s) = wake_up_srq s"
  "tick_time (requeue_blocked t q s) = tick_time s"
  "intr_time (requeue_blocked t q s) = intr_time s"
  "linux_time (requeue_blocked t q s) = linux_time s"
  "linux_tick (requeue_blocked t q s) = linux_tick s"
  "timer_shot_fired (requeue_blocked t q s) = timer_shot_fired s"
  "timer_delay (requeue_blocked t q s) = timer_delay s"
  "tsc (requeue_blocked t q s) = tsc s"
  "tuned (requeue_blocked t q s) = tuned s"
  "rt_half_tick (requeue_blocked t q s) = rt_half_tick s"
  "all_tasks (requeue_blocked t q s) = all_tasks s"
  "tasks_per_cpu (requeue_blocked t q s) = tasks_per_cpu s"
  "rt_pid (requeue_blocked t q s) = rt_pid s"
  "mbxs (requeue_blocked t q s) = mbxs s"
  by (simp_all add: requeue_blocked_def)

lemma enqueue_resqel_sel [simp]:
  "tasks (enqueue_resqel t s) = (tasks s)(t := (tasks s t)\<lparr>owndres := s32 (owndres (tasks s t) + 1)\<rparr>)"
  "sems (enqueue_resqel t s) = sems s"
  "qring (enqueue_resqel t s) = qring s"
  "rready (enqueue_resqel t s) = rready s"
  "rtimed (enqueue_resqel t s) = rtimed s"
  "rt_smp_current (enqueue_resqel t s) = rt_smp_current s"
  "rt_smp_time_h (enqueue_resqel t s) = rt_smp_time_h s"
  "sched_locked (enqueue_resqel t s) = sched_locked s"
  "sched_rqsted (enqueue_resqel t s) = sched_rqsted s"
  "sched_ipi (enqueue_resqel t s) = sched_ipi s"
  "wake_up_srq (enqueue_resqel t s) = wake_up_srq s"
  "tick_time (enqueue_resqel t s) = tick_time s"
  "intr_time (enqueue_resqel t s) = intr_time s"
  "linux_time (enqueue_resqel t s) = linux_time s"
  "linux_tick (enqueue_resqel t s) = linux_tick s"
  "timer_shot_fired (enqueue_resqel t s) = timer_shot_fired s"
  "timer_delay (enqueue_resqel t s) = timer_delay s"
  "tsc (enqueue_resqel t s) = tsc s"
  "tuned (enqueue_resqel t s) = tuned s"
  "rt_half_tick (enqueue_resqel t s) = rt_half_tick s"
  "all_tasks (enqueue_resqel t s) = all_tasks s"
  "tasks_per_cpu (enqueue_resqel t s) = tasks_per_cpu s"
  "rt_pid (enqueue_resqel t s) = rt_pid s"
  "mbxs (enqueue_resqel t s) = mbxs s"
  by (simp_all add: enqueue_resqel_def)

section \<open>The queues as ordered queues\<close>

text \<open>
  The ready list is ordered by priority and first-in first-out among equals, and so is a
  blocked queue of type \<^verbatim>\<open>PRIO_Q\<close>; the timed list is ordered by resume time.
\<close>

interpretation prioq: fifo_queue "prio s" for s
  by (rule fifo_queue_intro)

interpretation timedq: ordered_queue "\<lambda>t. resume_time (tasks s t)"
    "\<lambda>n x. \<not> resume_time (tasks s n) > resume_time (tasks s x)" for s
  by unfold_locales simp_all

text \<open>The early exit of \<^verbatim>\<open>enq_ready_task\<close> at a negative priority is never taken while no
  priority is negative; then its loop is the ordered insertion.\<close>

lemma ready_ins_queue_ins:
  "\<forall>x \<in> set xs. 0 \<le> p x \<Longrightarrow> ready_ins p n xs = queue_ins (\<lambda>x. p n < p x) n xs"
  by (induction p n xs rule: ready_ins.induct) (auto simp: not_le)

lemma set_ready_ins [simp]: "set (ready_ins p n xs) = insert n (set xs)"
  by (induction p n xs rule: ready_ins.induct) auto

lemma distinct_ready_ins [simp]: "distinct (ready_ins p n xs) \<longleftrightarrow> n \<notin> set xs \<and> distinct xs"
  by (induction p n xs rule: ready_ins.induct) auto

lemma ready_ins_cong:
  "p n = p' n \<Longrightarrow> (\<And>x. x \<in> set xs \<Longrightarrow> p x = p' x) \<Longrightarrow> ready_ins p n xs = ready_ins p' n xs"
  by (induction p n xs rule: ready_ins.induct) auto

lemma sorted_map_cong:
  "sorted (map f xs) \<Longrightarrow> (\<And>x. x \<in> set xs \<Longrightarrow> f x = g x) \<Longrightarrow> sorted (map g xs)"
  by (metis map_cong)

section \<open>Well-formed scheduler states\<close>

text \<open>
  The ready list of a CPU holds, in priority order, only real-time tasks of that CPU whose
  state is \<^verbatim>\<open>RT_SCHED_READY\<close>, and all those that run in hard real time (a soft task is
  there only while it executes a service); the timed list exactly those whose state has
  \<^verbatim>\<open>RT_SCHED_DELAYED\<close>, in order of resume time. \<open>X\<close> and \<open>Y\<close> are the tasks that an
  operation under way has taken out of the ready and of the timed lists, and may change at
  will. Scheduling is by fixed priorities (no task is under \<^verbatim>\<open>EDF\<close>), and priorities are
  not negative.
\<close>

definition is_rt :: "tid \<Rightarrow> bool" where
  "is_rt t \<longleftrightarrow> (case t of Linux _ \<Rightarrow> False | Task _ \<Rightarrow> True)"

definition is_delayed :: "rt_task \<Rightarrow> bool" where
  "is_delayed k \<longleftrightarrow> state k AND RT_SCHED_DELAYED \<noteq> 0"

definition ready_wf :: "tid set \<Rightarrow> kst \<Rightarrow> bool" where
  "ready_wf X s \<longleftrightarrow> (\<forall>c. distinct (rready s c) \<and> sorted (map (prio s) (rready s c)) \<and>
     (\<forall>t \<in> set (rready s c). t \<notin> X \<and> is_rt t \<and> state (tasks s t) = RT_SCHED_READY \<and> cpu_of s t = c) \<and>
     (\<forall>t. t \<notin> X \<and> is_rt t \<and> state (tasks s t) = RT_SCHED_READY \<and> is_hard (tasks s t) \<noteq> 0 \<and>
          cpu_of s t = c \<longrightarrow> t \<in> set (rready s c)))"

definition timed_wf :: "tid set \<Rightarrow> kst \<Rightarrow> bool" where
  "timed_wf Y s \<longleftrightarrow> (\<forall>c. distinct (rtimed s c) \<and>
     sorted (map (\<lambda>t. resume_time (tasks s t)) (rtimed s c)) \<and>
     set (rtimed s c) = {t. t \<notin> Y \<and> is_rt t \<and> is_delayed (tasks s t) \<and> cpu_of s t = c})"

definition prio_wf :: "kst \<Rightarrow> bool" where
  "prio_wf s \<longleftrightarrow> (\<forall>t. 0 \<le> prio s t \<and> 0 \<le> base_priority (tasks s t) \<and> 0 \<le> policy (tasks s t))"

definition sched_wf :: "tid set \<Rightarrow> tid set \<Rightarrow> kst \<Rightarrow> bool" where
  "sched_wf X Y s \<longleftrightarrow> ready_wf X s \<and> timed_wf Y s \<and> prio_wf s"

subsection \<open>Tasks in flight\<close>

lemma ready_wfI:
  assumes "\<And>c. distinct (rready s c)" and "\<And>c. sorted (map (prio s) (rready s c))"
    and "\<And>c t. t \<in> set (rready s c) \<Longrightarrow>
      t \<notin> X \<and> is_rt t \<and> state (tasks s t) = RT_SCHED_READY \<and> cpu_of s t = c"
    and "\<And>t. t \<notin> X \<Longrightarrow> is_rt t \<Longrightarrow> state (tasks s t) = RT_SCHED_READY \<Longrightarrow> is_hard (tasks s t) \<noteq> 0 \<Longrightarrow>
      t \<in> set (rready s (cpu_of s t))"
  shows "ready_wf X s"
  using assms unfolding ready_wf_def by blast

lemma ready_wf_distinct: "ready_wf X s \<Longrightarrow> distinct (rready s c)"
  and ready_wf_sorted: "ready_wf X s \<Longrightarrow> sorted (map (prio s) (rready s c))"
  and ready_wf_mem: "ready_wf X s \<Longrightarrow> t \<in> set (rready s c) \<Longrightarrow>
      t \<notin> X \<and> is_rt t \<and> state (tasks s t) = RT_SCHED_READY \<and> cpu_of s t = c"
  and ready_wf_hard: "ready_wf X s \<Longrightarrow> t \<notin> X \<Longrightarrow> is_rt t \<Longrightarrow> state (tasks s t) = RT_SCHED_READY \<Longrightarrow>
      is_hard (tasks s t) \<noteq> 0 \<Longrightarrow> t \<in> set (rready s (cpu_of s t))"
  unfolding ready_wf_def by blast+

lemma ready_wf_cong:
  assumes wf: "ready_wf X s" and eq: "rready s' = rready s"
    and tk: "\<And>u. u \<notin> X \<Longrightarrow> state (tasks s' u) = state (tasks s u) \<and> cpu_of s' u = cpu_of s u \<and>
      prio s' u = prio s u \<and> is_hard (tasks s' u) = is_hard (tasks s u)"
  shows "ready_wf X s'"
proof (rule ready_wfI, unfold eq)
  show "distinct (rready s c)" for c by (rule ready_wf_distinct [OF wf])
  show "sorted (map (prio s') (rready s c))" for c
    by (rule sorted_map_cong [OF ready_wf_sorted [OF wf]]) (use tk ready_wf_mem [OF wf] in metis)
  show "t \<notin> X \<and> is_rt t \<and> state (tasks s' t) = RT_SCHED_READY \<and> cpu_of s' t = c"
    if "t \<in> set (rready s c)" for c t using ready_wf_mem [OF wf that] tk [of t] by simp
  show "t \<in> set (rready s (cpu_of s' t))"
    if "t \<notin> X" "is_rt t" "state (tasks s' t) = RT_SCHED_READY" "is_hard (tasks s' t) \<noteq> 0" for t
    using ready_wf_hard [OF wf that(1,2)] tk [OF that(1)] that(3,4) by simp
qed

lemma timed_wf_cong:
  assumes wf: "timed_wf Y s" and eq: "rtimed s' = rtimed s"
    and tk: "\<And>u. u \<notin> Y \<Longrightarrow> is_delayed (tasks s' u) = is_delayed (tasks s u) \<and> cpu_of s' u = cpu_of s u \<and>
      resume_time (tasks s' u) = resume_time (tasks s u)"
  shows "timed_wf Y s'"
proof -
  have mem: "u \<in> set (rtimed s c) \<Longrightarrow> resume_time (tasks s u) = resume_time (tasks s' u)" for u c
    using wf tk [of u] unfolding timed_wf_def by simp
  show ?thesis unfolding timed_wf_def eq
  proof (intro allI conjI)
    fix c
    show "distinct (rtimed s c)" using wf unfolding timed_wf_def by blast
    show "sorted (map (\<lambda>t. resume_time (tasks s' t)) (rtimed s c))"
      by (rule sorted_map_cong [of "\<lambda>t. resume_time (tasks s t)"])
        (use wf mem in \<open>simp_all add: timed_wf_def\<close>)
    show "set (rtimed s c) = {t. t \<notin> Y \<and> is_rt t \<and> is_delayed (tasks s' t) \<and> cpu_of s' t = c}"
      using wf tk unfolding timed_wf_def by auto
  qed
qed

lemma ready_wf_in_flight: "ready_wf X s \<Longrightarrow> t \<in> X \<Longrightarrow> ready_wf X (upd_task t f s)"
  by (erule ready_wf_cong) auto

lemma timed_wf_in_flight: "timed_wf Y s \<Longrightarrow> t \<in> Y \<Longrightarrow> timed_wf Y (upd_task t f s)"
  by (erule timed_wf_cong) auto

text \<open>An update that does not touch what a list depends on.\<close>

lemma prio_wf_upd:
  "prio_wf s \<Longrightarrow> 0 \<le> priority (f (tasks s t)) \<Longrightarrow> 0 \<le> base_priority (f (tasks s t)) \<Longrightarrow>
   0 \<le> policy (f (tasks s t)) \<Longrightarrow> prio_wf (upd_task t f s)"
  by (simp add: prio_wf_def)

lemma prio_wfD: "prio_wf s \<Longrightarrow> 0 \<le> prio s t" "prio_wf s \<Longrightarrow> 0 \<le> base_priority (tasks s t)"
  "prio_wf s \<Longrightarrow> 0 \<le> policy (tasks s t)"
  by (simp_all add: prio_wf_def)

text \<open>A task that is in neither situation may be counted as in flight or not.\<close>

lemma ready_wf_insert:
  assumes t: "state (tasks s t) \<noteq> RT_SCHED_READY \<or> \<not> is_rt t"
  shows "ready_wf (insert t X) s \<longleftrightarrow> ready_wf X s"
proof
  assume wf: "ready_wf (insert t X) s"
  show "ready_wf X s"
  proof (rule ready_wfI [OF ready_wf_distinct [OF wf] ready_wf_sorted [OF wf]])
    show "u \<notin> X \<and> is_rt u \<and> state (tasks s u) = RT_SCHED_READY \<and> cpu_of s u = c"
      if "u \<in> set (rready s c)" for c u using ready_wf_mem [OF wf that] by blast
    show "u \<in> set (rready s (cpu_of s u))"
      if "u \<notin> X" "is_rt u" "state (tasks s u) = RT_SCHED_READY" "is_hard (tasks s u) \<noteq> 0" for u
      using ready_wf_hard [OF wf _ that(2-4)] that t by blast
  qed
next
  assume wf: "ready_wf X s"
  show "ready_wf (insert t X) s"
  proof (rule ready_wfI [OF ready_wf_distinct [OF wf] ready_wf_sorted [OF wf]])
    show "u \<notin> insert t X \<and> is_rt u \<and> state (tasks s u) = RT_SCHED_READY \<and> cpu_of s u = c"
      if "u \<in> set (rready s c)" for c u using ready_wf_mem [OF wf that] t by blast
    show "u \<in> set (rready s (cpu_of s u))"
      if "u \<notin> insert t X" "is_rt u" "state (tasks s u) = RT_SCHED_READY" "is_hard (tasks s u) \<noteq> 0" for u
      using ready_wf_hard [OF wf _ that(2-4)] that(1) by blast
  qed
qed

lemma timed_wf_insert:
  assumes "\<not> is_delayed (tasks s t) \<or> \<not> is_rt t"
  shows "timed_wf (insert t Y) s \<longleftrightarrow> timed_wf Y s"
proof -
  have "u \<notin> insert t Y \<and> is_rt u \<and> is_delayed (tasks s u) \<and> cpu_of s u = c \<longleftrightarrow>
      u \<notin> Y \<and> is_rt u \<and> is_delayed (tasks s u) \<and> cpu_of s u = c" for u c
    using assms by auto
  then show ?thesis unfolding timed_wf_def by presburger
qed

lemma timed_wf_mem:
  "timed_wf Y s \<Longrightarrow> t \<in> set (rtimed s c) \<longleftrightarrow>
     t \<notin> Y \<and> is_rt t \<and> is_delayed (tasks s t) \<and> cpu_of s t = c"
  unfolding timed_wf_def by auto

subsection \<open>What the primitives do to the lists\<close>

lemma ready_wf_unlink:
  assumes wf: "ready_wf X s"
  shows "ready_wf (insert t X) (unlink_ready t s)"
proof (rule ready_wfI)
  let ?s = "unlink_ready t s"
  have r: "rready ?s c = (if t \<in> set (rready s c) then remove1 t (rready s c) else rready s c)" for c
    using ready_wf_mem [OF wf, of t c] by (auto simp: remove1_idem)
  have d: "distinct (rready s c)" for c by (rule ready_wf_distinct [OF wf])
  show "distinct (rready ?s c)" for c using d by (auto simp: distinct_remove1)
  show "sorted (map (prio ?s) (rready ?s c))" for c
    using ready_wf_sorted [OF wf] by (auto simp: sorted_map_remove1)
  show "u \<notin> insert t X \<and> is_rt u \<and> state (tasks ?s u) = RT_SCHED_READY \<and> cpu_of ?s u = c"
    if "u \<in> set (rready ?s c)" for u c
    using that ready_wf_mem [OF wf, of u c] d [of c] by (auto simp: r set_remove1_eq split: if_splits)
  show "u \<in> set (rready ?s (cpu_of ?s u))"
    if "u \<notin> insert t X" "is_rt u" "state (tasks ?s u) = RT_SCHED_READY" "is_hard (tasks ?s u) \<noteq> 0" for u
    using that ready_wf_hard [OF wf, of u] d [of "cpu_of s u"] by (auto simp: r set_remove1_eq)
qed

text \<open>Inserting a task by priority.\<close>

lemma ready_wf_ins:
  assumes wf: "ready_wf X s" and t: "t \<in> X" "is_rt t" "state (tasks s t) = RT_SCHED_READY"
    and pr: "prio_wf s"
  shows "ready_wf (X - {t}) (upd_ready (cpu_of s t) (ready_ins (prio s) t) s)"
proof (rule ready_wfI)
  let ?s = "upd_ready (cpu_of s t) (ready_ins (prio s) t) s"
  have ins: "ready_ins (prio s) t (rready s c) = queue_ins (\<lambda>x. prio s t < prio s x) t (rready s c)" for c
    using pr by (intro ready_ins_queue_ins) (simp add: prio_wf_def)
  have nin: "t \<notin> set (rready s c)" for c using ready_wf_mem [OF wf, of t c] t(1) by blast
  have d: "distinct (rready s c)" for c by (rule ready_wf_distinct [OF wf])
  have sr: "sorted (map (prio s) (rready s c))" for c by (rule ready_wf_sorted [OF wf])
  show "distinct (rready ?s c)" for c using d nin by auto
  show "sorted (map (prio ?s) (rready ?s c))" for c
    using sr prioq.ordered_ins [OF sr, of t] by (auto simp: ins)
  show "u \<notin> X - {t} \<and> is_rt u \<and> state (tasks ?s u) = RT_SCHED_READY \<and> cpu_of ?s u = c"
    if "u \<in> set (rready ?s c)" for u c
    using that ready_wf_mem [OF wf, of u c] t by (auto split: if_splits)
  show "u \<in> set (rready ?s (cpu_of ?s u))"
    if "u \<notin> X - {t}" "is_rt u" "state (tasks ?s u) = RT_SCHED_READY" "is_hard (tasks ?s u) \<noteq> 0" for u
    using that ready_wf_hard [OF wf, of u] by auto
qed

lemma ready_wf_enq:
  assumes wf: "ready_wf X s" and pr: "prio_wf s" and t: "t \<in> X" "is_rt t" "state (tasks s t) = RT_SCHED_READY"
  shows "ready_wf (X - {t}) (enq_ready_task cpuid t s)"
proof (cases "is_hard (tasks s t) = 0")
  case True
  let ?s = "upd_task t (\<lambda>k. k\<lparr>state := state k OR RT_SCHED_SFTRDY\<rparr>) s"
  have "ready_wf X ?s" by (rule ready_wf_in_flight [OF wf t(1)])
  then have "ready_wf (insert t (X - {t})) ?s" using t(1) by (simp add: insert_absorb)
  then have "ready_wf (X - {t}) ?s" using t(3) by (subst (asm) ready_wf_insert) simp_all
  then have "ready_wf (X - {t}) (pend_wake_up_srq cpuid t ?s)" by (rule ready_wf_cong) simp_all
  then show ?thesis using True by (simp add: enq_ready_task_def)
next
  case False
  then show ?thesis using ready_wf_ins [OF wf t pr] by (simp add: enq_ready_task_def)
qed

lemma timed_wf_enq:
  assumes wf: "timed_wf Y s" and t: "t \<in> Y" "is_rt t" "is_delayed (tasks s t)"
  shows "timed_wf (Y - {t}) (enq_timed_task t s)"
proof -
  let ?c = "cpu_of s t"
  let ?f = "queue_ins (\<lambda>x. \<not> resume_time (tasks s t) > resume_time (tasks s x)) t"
  have nin: "t \<notin> set (rtimed s ?c)" using wf t(1) by (simp add: timed_wf_mem)
  have sr: "sorted (map (\<lambda>t. resume_time (tasks s t)) (?f (rtimed s ?c)))"
    using wf unfolding timed_wf_def by (intro timedq.ordered_ins) blast
  show ?thesis unfolding timed_wf_def enq_timed_task_def
  proof (intro allI conjI)
    fix c
    show "distinct (rtimed (upd_timed ?c ?f s) c)" using wf nin by (auto simp: timed_wf_def)
    show "sorted (map (\<lambda>t. resume_time (tasks (upd_timed ?c ?f s) t)) (rtimed (upd_timed ?c ?f s) c))"
      using wf sr by (auto simp: timed_wf_def)
    show "set (rtimed (upd_timed ?c ?f s) c) = {u. u \<notin> Y - {t} \<and> is_rt u \<and>
        is_delayed (tasks (upd_timed ?c ?f s) u) \<and> cpu_of (upd_timed ?c ?f s) u = c}"
      using wf t by (auto simp: timed_wf_def)
  qed
qed

lemma timed_wf_rem:
  assumes wf: "timed_wf Y s"
  shows "timed_wf (insert t Y) (rem_timed_task t s)"
proof (cases "is_delayed (tasks s t)")
  case True
  then have eq: "rem_timed_task t s = upd_timed (cpu_of s t) (remove1 t) s"
    by (simp add: rem_timed_task_def is_delayed_def)
  have "t \<in> set (rtimed s c) \<Longrightarrow> c = cpu_of s t" for c using wf by (simp add: timed_wf_mem)
  moreover have "distinct (rtimed s (cpu_of s t))" using wf by (simp add: timed_wf_def)
  ultimately show ?thesis using wf unfolding timed_wf_def eq
    by (auto simp: set_remove1_eq distinct_remove1 sorted_map_remove1)
next
  case False
  then show ?thesis using wf by (simp add: rem_timed_task_def is_delayed_def timed_wf_insert)
qed

subsection \<open>Frame and bit rules\<close>

lemma ready_wf_upd_iff [simp]:
  assumes "state (f (tasks s t)) = state (tasks s t)" "runnable_on_cpus (f (tasks s t)) = cpu_of s t"
    "priority (f (tasks s t)) = prio s t" "is_hard (f (tasks s t)) = is_hard (tasks s t)"
  shows "ready_wf X (upd_task t f s) \<longleftrightarrow> ready_wf X s"
proof -
  have "prio (upd_task t f s) = prio s" "\<And>u. cpu_of (upd_task t f s) u = cpu_of s u"
    "\<And>u. is_hard (tasks (upd_task t f s) u) = is_hard (tasks s u)"
    "\<And>u. state (tasks (upd_task t f s) u) = state (tasks s u)" using assms by auto
  then show ?thesis unfolding ready_wf_def by (simp only: upd_task_sel)
qed

lemma timed_wf_upd_iff [simp]:
  assumes "is_delayed (f (tasks s t)) = is_delayed (tasks s t)"
    "runnable_on_cpus (f (tasks s t)) = cpu_of s t"
    "resume_time (f (tasks s t)) = resume_time (tasks s t)"
  shows "timed_wf Y (upd_task t f s) \<longleftrightarrow> timed_wf Y s"
proof -
  have "(\<lambda>u. resume_time (tasks (upd_task t f s) u)) = (\<lambda>u. resume_time (tasks s u))"
    "\<And>u. cpu_of (upd_task t f s) u = cpu_of s u"
    "\<And>u. is_delayed (tasks (upd_task t f s) u) = is_delayed (tasks s u)" using assms by auto
  then show ?thesis unfolding timed_wf_def by (simp only: upd_task_sel)
qed

lemma prio_wf_upd_iff [simp]:
  assumes "priority (f (tasks s t)) = prio s t" "base_priority (f (tasks s t)) = base_priority (tasks s t)"
    "policy (f (tasks s t)) = policy (tasks s t)"
  shows "prio_wf (upd_task t f s) \<longleftrightarrow> prio_wf s"
proof -
  have "\<And>u. prio (upd_task t f s) u = prio s u"
    "\<And>u. base_priority (tasks (upd_task t f s) u) = base_priority (tasks s u)"
    "\<And>u. policy (tasks (upd_task t f s) u) = policy (tasks s u)" using assms by auto
  then show ?thesis unfolding prio_wf_def by (simp only:)
qed

lemma ready_wf_frame [simp]:
  "ready_wf X (enq_timed_task t s) = ready_wf X s" "ready_wf X (rem_timed_task t s) = ready_wf X s"
  "ready_wf X (upd_timed c g s) = ready_wf X s" "ready_wf X (upd_ring q g s) = ready_wf X s"
  "ready_wf X (upd_mbx mb hm s) = ready_wf X s" "ready_wf X (upd_sem x h s) = ready_wf X s" "ready_wf X (unlink_blocked t s) = ready_wf X s"
  "ready_wf X (requeue_blocked t q s) = ready_wf X s" "ready_wf X (pend_wake_up_srq c t s) = ready_wf X s"
  by (simp_all add: ready_wf_def)

lemma timed_wf_frame [simp]:
  "timed_wf Y (upd_ready c g s) = timed_wf Y s" "timed_wf Y (unlink_ready t s) = timed_wf Y s"
  "timed_wf Y (upd_ring q g s) = timed_wf Y s" "timed_wf Y (upd_sem x h s) = timed_wf Y s"
  "timed_wf Y (upd_mbx mb hm s) = timed_wf Y s"
  "timed_wf Y (unlink_blocked t s) = timed_wf Y s" "timed_wf Y (requeue_blocked t q s) = timed_wf Y s"
  "timed_wf Y (pend_wake_up_srq c t s) = timed_wf Y s"
  by (simp_all add: timed_wf_def)

lemma prio_wf_frame [simp]:
  "prio_wf (upd_ready c g s) = prio_wf s" "prio_wf (unlink_ready t s) = prio_wf s"
  "prio_wf (enq_timed_task t s) = prio_wf s" "prio_wf (rem_timed_task t s) = prio_wf s"
  "prio_wf (upd_timed c g s) = prio_wf s" "prio_wf (upd_ring q g s) = prio_wf s"
  "prio_wf (upd_mbx mb hm s) = prio_wf s" "prio_wf (upd_sem x h s) = prio_wf s" "prio_wf (unlink_blocked t s) = prio_wf s"
  "prio_wf (requeue_blocked t q s) = prio_wf s" "prio_wf (pend_wake_up_srq c t s) = prio_wf s"
  by (simp_all add: prio_wf_def)

lemma is_delayed_or [simp]:
  "m AND RT_SCHED_DELAYED = 0 \<Longrightarrow> is_delayed (k\<lparr>state := x OR m\<rparr>) = (x AND RT_SCHED_DELAYED \<noteq> 0)"
  by (simp add: is_delayed_def bit.conj_disj_distrib2)

lemma is_delayed_and_not [simp]:
  "m AND RT_SCHED_DELAYED = 0 \<Longrightarrow> is_delayed (k\<lparr>state := x AND NOT m\<rparr>) = (x AND RT_SCHED_DELAYED \<noteq> 0)"
proof -
  assume "m AND RT_SCHED_DELAYED = 0"
  moreover have "(m AND RT_SCHED_DELAYED) OR (NOT m AND RT_SCHED_DELAYED) = RT_SCHED_DELAYED"
    by (simp only: bit.conj_disj_distrib2 [symmetric]) simp
  ultimately have "NOT m AND RT_SCHED_DELAYED = RT_SCHED_DELAYED" by simp
  then show ?thesis by (simp add: is_delayed_def and.assoc)
qed

lemma prio_wf_enq [simp]: "prio_wf (enq_ready_task c t s) = prio_wf s"
  by (simp add: enq_ready_task_def)

lemma timed_wf_enq_ready [simp]: "timed_wf Y (enq_ready_task c t s) = timed_wf Y s"
  by (simp add: enq_ready_task_def is_delayed_def [symmetric])

lemma timed_wf_rem_ready [simp]: "timed_wf Y (rem_ready_current t s) = timed_wf Y s"
  by (simp add: rem_ready_current_def non_rtai_task_suspend_def is_delayed_def)

lemma prio_wf_rem_ready [simp]: "prio_wf (rem_ready_current t s) = prio_wf s"
  by (simp add: rem_ready_current_def non_rtai_task_suspend_def)

lemma ready_wf_rem_ready: "ready_wf X s \<Longrightarrow> ready_wf (insert t X) (rem_ready_current t s)"
  unfolding rem_ready_current_def by (rule ready_wf_unlink) (simp add: non_rtai_task_suspend_def)

lemma ready_wf_rem_ready_task: "ready_wf X s \<Longrightarrow> ready_wf (insert t X) (rem_ready_task t s)"
  unfolding rem_ready_task_def using ready_wf_rem_ready [of X s t] by (auto simp: ready_wf_insert)

section \<open>Waking timed tasks\<close>

lemma wake_up_timed_task_sel [simp]:
  "sems (wake_up_timed_task c t s) = sems s"
  "qring (wake_up_timed_task c t s) = qring s"
  "rtimed (wake_up_timed_task c t s) = rtimed s"
  "rt_smp_current (wake_up_timed_task c t s) = rt_smp_current s"
  "rt_smp_time_h (wake_up_timed_task c t s) = rt_smp_time_h s"
  "sched_locked (wake_up_timed_task c t s) = sched_locked s"
  "sched_rqsted (wake_up_timed_task c t s) = sched_rqsted s"
  "sched_ipi (wake_up_timed_task c t s) = sched_ipi s"
  "tick_time (wake_up_timed_task c t s) = tick_time s"
  "intr_time (wake_up_timed_task c t s) = intr_time s"
  "linux_time (wake_up_timed_task c t s) = linux_time s"
  "linux_tick (wake_up_timed_task c t s) = linux_tick s"
  "timer_shot_fired (wake_up_timed_task c t s) = timer_shot_fired s"
  "timer_delay (wake_up_timed_task c t s) = timer_delay s"
  "tsc (wake_up_timed_task c t s) = tsc s"
  "tuned (wake_up_timed_task c t s) = tuned s"
  "rt_half_tick (wake_up_timed_task c t s) = rt_half_tick s"
  "all_tasks (wake_up_timed_task c t s) = all_tasks s"
  "tasks_per_cpu (wake_up_timed_task c t s) = tasks_per_cpu s"
  "rt_pid (wake_up_timed_task c t s) = rt_pid s"
  "mbxs (wake_up_timed_task c t s) = mbxs s"
  by (simp_all add: wake_up_timed_task_def Let_def)


text \<open>The control block of a task after its wake-up.\<close>

definition woken :: "rt_task \<Rightarrow> rt_task" where
  "woken k =
     (let k1 = k\<lparr>suspdepth := (if state k AND RT_SCHED_SUSPENDED \<noteq> 0 \<and> suspdepth k > 0 then 0
                              else suspdepth k),
                state := state k AND NOT WAKE_MASK\<rparr>
      in if state k1 = RT_SCHED_READY \<and> policy k \<ge> 0 \<and> is_hard k = 0
         then k1\<lparr>state := state k1 OR RT_SCHED_SFTRDY\<rparr> else k1)"

lemma tasks_wake_up_timed_task:
  "tasks (wake_up_timed_task c t s) = (tasks s)(t := woken (tasks s t))"
  by (auto simp: wake_up_timed_task_def woken_def Let_def fun_eq_iff)

lemma woken_fields [simp]:
  "resume_time (woken k) = resume_time k" "priority (woken k) = priority k"
  "base_priority (woken k) = base_priority k" "policy (woken k) = policy k"
  "runnable_on_cpus (woken k) = runnable_on_cpus k" "blocked_on (woken k) = blocked_on k"
  "is_hard (woken k) = is_hard k" "schedlat (woken k) = schedlat k"
  by (simp_all add: woken_def Let_def)

lemma woken_not_delayed [simp]: "\<not> is_delayed (woken k)"
proof -
  have "(x AND NOT WAKE_MASK) AND RT_SCHED_DELAYED = 0" for x :: u32 by (simp add: and.assoc)
  then show ?thesis by (simp add: woken_def Let_def is_delayed_def bit.conj_disj_distrib2)
qed

lemma tasks_wake_fold:
  "distinct ts \<Longrightarrow> tasks (fold (wake_up_timed_task c) ts s) u =
     (if u \<in> set ts then woken (tasks s u) else tasks s u)"
  by (induction ts arbitrary: s) (auto simp: tasks_wake_up_timed_task)

lemma wake_fold_sel [simp]:
  "rtimed (fold (wake_up_timed_task c) ts s) = rtimed s"
  "rt_smp_time_h (fold (wake_up_timed_task c) ts s) = rt_smp_time_h s"
  "rt_smp_current (fold (wake_up_timed_task c) ts s) = rt_smp_current s"
  "qring (fold (wake_up_timed_task c) ts s) = qring s"
  "sems (fold (wake_up_timed_task c) ts s) = sems s"
  "sched_locked (fold (wake_up_timed_task c) ts s) = sched_locked s"
  by (induction ts arbitrary: s) simp_all

text \<open>The loop wakes its first task and then the due tasks that follow without a gap.\<close>

lemma wake_up_loop_fold:
  "wake_up_loop c (t # ts) s =
     (dropWhile (\<lambda>u. resume_time (tasks s u) \<le> rt_smp_time_h s c) ts,
      fold (wake_up_timed_task c)
        (t # takeWhile (\<lambda>u. resume_time (tasks s u) \<le> rt_smp_time_h s c) ts) s)"
proof (induction ts arbitrary: t s)
  case (Cons u ts)
  have rt: "resume_time (tasks (wake_up_timed_task c t s) v) = resume_time (tasks s v)" for v
    by (simp add: tasks_wake_up_timed_task)
  show ?case using Cons.IH [of u "wake_up_timed_task c t s"] by (simp add: rt Let_def)
qed simp

text \<open>The tasks a timer tick wakes on a CPU.\<close>

definition due_tasks :: "nat \<Rightarrow> kst \<Rightarrow> tid list" where
  "due_tasks c s =
     (case rtimed s c of [] \<Rightarrow> []
      | t # ts \<Rightarrow> if resume_time (tasks s t) - schedlat (tasks s t) \<le> rt_smp_time_h s c
                  then t # takeWhile (\<lambda>u. resume_time (tasks s u) \<le> rt_smp_time_h s c) ts else [])"

lemma upd_timed_idle: "rtimed s c = xs \<Longrightarrow> s\<lparr>rtimed := (rtimed s)(c := xs)\<rparr> = s"
  by auto

lemma wake_up_timed_tasks_eq:
  "wake_up_timed_tasks c s =
     upd_timed c (drop (length (due_tasks c s))) (fold (wake_up_timed_task c) (due_tasks c s) s)"
proof (cases "rtimed s c")
  case Nil
  then show ?thesis
    by (simp add: wake_up_timed_tasks_def due_tasks_def upd_timed_def upd_timed_idle)
next
  case (Cons t ts)
  then show ?thesis
    by (simp add: wake_up_timed_tasks_def due_tasks_def wake_up_loop_fold upd_timed_def
        dropWhile_eq_drop upd_timed_idle)
qed

lemma due_tasks_take: "take (length (due_tasks c s)) (rtimed s c) = due_tasks c s"
  by (simp add: due_tasks_def takeWhile_eq_take [symmetric] split: list.split)


lemma ready_wf_wake:
  assumes wf: "ready_wf X s" and pr: "prio_wf s" and t: "t \<notin> X" "is_rt t" "state (tasks s t) \<noteq> RT_SCHED_READY"
  shows "ready_wf X (wake_up_timed_task c t s)"
proof -
  define s1 where "s1 = (if state (tasks s t) AND RT_SCHED_SUSPENDED \<noteq> 0 \<and> suspdepth (tasks s t) > 0
                then upd_task t (\<lambda>k. k\<lparr>suspdepth := 0\<rparr>) s else s)"
  define s2 where "s2 = upd_task t (\<lambda>k. k\<lparr>state := state k AND NOT WAKE_MASK\<rparr>) s1"
  have "ready_wf (insert t X) s" using wf t by (simp add: ready_wf_insert)
  then have wf2: "ready_wf (insert t X) s2" unfolding s2_def s1_def by (intro ready_wf_in_flight) simp_all
  have pr2: "prio_wf s2" using pr by (simp add: s2_def s1_def)
  have pol: "\<not> policy (tasks s2 t) < 0" using pr2 by (simp add: prio_wf_def not_less)
  have eq: "wake_up_timed_task c t s =
      (if state (tasks s2 t) = RT_SCHED_READY then enq_ready_task c t s2 else s2)"
    using pol unfolding wake_up_timed_task_def Let_def s2_def s1_def by (simp only: if_False)
  show ?thesis
  proof (cases "state (tasks s2 t) = RT_SCHED_READY")
    case True
    then show ?thesis using ready_wf_enq [OF wf2 pr2, of t c] t by (simp add: eq)
  next
    case False
    then show ?thesis using wf2 by (simp add: eq ready_wf_insert)
  qed
qed

lemma prio_wf_wake [simp]: "prio_wf (wake_up_timed_task c t s) = prio_wf s"
  by (auto simp: prio_wf_def tasks_wake_up_timed_task)

lemma ready_wf_wake_fold:
  "ready_wf X s \<Longrightarrow> prio_wf s \<Longrightarrow> distinct ts \<Longrightarrow>
   (\<And>t. t \<in> set ts \<Longrightarrow> t \<notin> X \<and> is_rt t \<and> state (tasks s t) \<noteq> RT_SCHED_READY) \<Longrightarrow>
   ready_wf X (fold (wake_up_timed_task c) ts s)"
proof (induction ts arbitrary: s)
  case (Cons t ts)
  have "ready_wf X (wake_up_timed_task c t s)" using Cons.prems by (intro ready_wf_wake) simp_all
  moreover have "u \<in> set ts \<Longrightarrow> u \<notin> X \<and> is_rt u \<and>
      state (tasks (wake_up_timed_task c t s) u) \<noteq> RT_SCHED_READY" for u
    using Cons.prems(4) [of u] Cons.prems(3) by (auto simp: tasks_wake_up_timed_task)
  ultimately show ?case using Cons by simp
qed simp

lemma delayed_not_ready: "is_delayed k \<Longrightarrow> state k \<noteq> RT_SCHED_READY"
  by (auto simp: is_delayed_def)

lemma due_tasks_mem:
  assumes wf: "timed_wf Y s" and u: "u \<in> set (due_tasks c s)"
  shows "u \<notin> Y" "is_rt u" "is_delayed (tasks s u)" "cpu_of s u = c"
proof -
  have "u \<in> set (rtimed s c)" using u by (metis due_tasks_take in_set_takeD)
  then show "u \<notin> Y" "is_rt u" "is_delayed (tasks s u)" "cpu_of s u = c"
    using wf by (simp_all add: timed_wf_mem)
qed

lemma due_tasks_distinct: "timed_wf Y s \<Longrightarrow> distinct (due_tasks c s)"
  using due_tasks_take [of c s] unfolding timed_wf_def by (metis distinct_take)

lemma tasks_wake_up_timed_tasks:
  "timed_wf Y s \<Longrightarrow> tasks (wake_up_timed_tasks c s) u =
     (if u \<in> set (due_tasks c s) then woken (tasks s u) else tasks s u)"
  by (simp add: wake_up_timed_tasks_eq tasks_wake_fold due_tasks_distinct)

lemma rtimed_wake_up_timed_tasks:
  "rtimed (wake_up_timed_tasks c s) = (rtimed s)(c := drop (length (due_tasks c s)) (rtimed s c))"
  by (simp add: wake_up_timed_tasks_eq)

lemma timed_wf_wake_up:
  assumes wf: "timed_wf Y s"
  shows "timed_wf Y (wake_up_timed_tasks c s)"
proof -
  let ?s = "wake_up_timed_tasks c s"
  let ?n = "length (due_tasks c s)"
  have split: "set (drop ?n (rtimed s c)) = set (rtimed s c) - set (due_tasks c s)"
    using wf set_drop_distinct [of "rtimed s c" ?n] by (simp add: timed_wf_def due_tasks_take)
  show ?thesis unfolding timed_wf_def
  proof (intro allI conjI)
    fix b
    show "distinct (rtimed ?s b)" using wf by (simp add: rtimed_wake_up_timed_tasks timed_wf_def)
    have srt: "sorted (map (\<lambda>t. resume_time (tasks s t)) (rtimed s b))" using wf by (simp add: timed_wf_def)
    have "(\<lambda>t. resume_time (tasks ?s t)) = (\<lambda>t. resume_time (tasks s t))"
      using wf by (simp add: tasks_wake_up_timed_tasks fun_eq_iff)
    then show "sorted (map (\<lambda>t. resume_time (tasks ?s t)) (rtimed ?s b))"
      using srt by (auto simp: rtimed_wake_up_timed_tasks drop_map [symmetric] sorted_wrt_drop)
    show "set (rtimed ?s b) = {t. t \<notin> Y \<and> is_rt t \<and> is_delayed (tasks ?s t) \<and> cpu_of ?s t = b}"
      using wf split due_tasks_mem [OF wf]
      by (auto simp: rtimed_wake_up_timed_tasks tasks_wake_up_timed_tasks timed_wf_mem)
  qed
qed

lemma sched_wf_wake_up:
  assumes "sched_wf {} {} s"
  shows "sched_wf {} {} (wake_up_timed_tasks c s)"
proof -
  have wf: "ready_wf {} s" "timed_wf {} s" "prio_wf s" using assms by (simp_all add: sched_wf_def)
  have "u \<notin> {} \<and> is_rt u \<and> state (tasks s u) \<noteq> RT_SCHED_READY" if "u \<in> set (due_tasks c s)" for u
    using due_tasks_mem [OF wf(2) that] delayed_not_ready by blast
  then have "ready_wf {} (fold (wake_up_timed_task c) (due_tasks c s) s)"
    using due_tasks_distinct [OF wf(2)] by (intro ready_wf_wake_fold wf)
  then have "ready_wf {} (wake_up_timed_tasks c s)" by (simp add: wake_up_timed_tasks_eq)
  moreover have "prio_wf (wake_up_timed_tasks c s)"
    using wf by (simp add: prio_wf_def tasks_wake_up_timed_tasks)
  ultimately show ?thesis using timed_wf_wake_up [OF wf(2)] by (simp add: sched_wf_def)
qed

lemma due_tasks_due:
  assumes wf: "timed_wf Y s" and lat: "0 \<le> schedlat (tasks s (hd (rtimed s c)))"
    and u: "u \<in> set (rtimed s c)" "resume_time (tasks s u) \<le> rt_smp_time_h s c"
  shows "u \<in> set (due_tasks c s)"
proof (cases "rtimed s c")
  case (Cons t ts)
  have srt: "sorted (map (\<lambda>t. resume_time (tasks s t)) (t # ts))" using wf Cons by (metis timed_wf_def)
  then have "resume_time (tasks s t) \<le> resume_time (tasks s u)" using u Cons by auto
  then have due: "resume_time (tasks s t) - schedlat (tasks s t) \<le> rt_smp_time_h s c"
    using u lat Cons by simp
  have "sorted (map (\<lambda>t. resume_time (tasks s t)) ts)" using srt by simp
  note sorted_filter_takeWhile [OF this, of "rt_smp_time_h s c"]
  moreover have "u = t \<or> u \<in> set (filter (\<lambda>u. resume_time (tasks s u) \<le> rt_smp_time_h s c) ts)"
    using u Cons by auto
  ultimately show ?thesis using due Cons by (auto simp: due_tasks_def)
qed (use u in simp)

end
