(* ===== verification/Task_Init.thy ===== *)
theory Task_Init
  imports Schedcore
begin

text \<open>
  Start-up of the scheduler and creation of tasks (\<^verbatim>\<open>src/sched/sched.c\<close>): the Linux tasks
  of the CPUs, \<^verbatim>\<open>set_rtext\<close> for threads of Linux processes, \<^verbatim>\<open>rt_task_init_cpuid\<close> for
  kernel tasks, process identifiers and migration. The states they build are the concrete
  inputs of the witnesses in the theories above this one. The lists that chain the tasks of a
  CPU by \<^verbatim>\<open>next/prev\<close> are the sublists of \<open>all_tasks\<close> with that CPU.
\<close>

section \<open>Start-up\<close>

definition zero_task :: rt_task where
  "zero_task = \<lparr>task_magic = 0, state = 0, running = 0, runnable_on_cpus = 0, priority = 0,
     base_priority = 0, policy = 0, period = 0, resume_time = 0, periodic_resume_time = 0,
     yield_time = 0, rr_quantum = 0, rr_remaining = 0, suspdepth = 0, owndres = 0,
     blocked_on = BNull, msg = 0, msg_queue_task = None, ret_queue_task = BNull, pid = 0,
     proxy_receiver = None, proxy_msg = 0, proxy_nmsgs = 0,
     is_hard = 0, resync_frame = False, schedlat = 0, lnx_soft_sleep = False\<rparr>"

definition zero_sem :: sem where
  "zero_sem = \<lparr>sem_magic = 0, sem_type = 0, restype = 0, sem_count = 0, owndby = ONull, qtype = 0\<rparr>"

definition zero_mbx :: mbx where
  "zero_mbx = \<lparr>mbx_magic = 0, sndsem = 0, rcvsem = 0, waiting_task = None, bufadr = [], mbx_size = 0,
     fbyte = 0, lbyte = 0, avbs = 0, frbs = 0\<rparr>"

text \<open>The Linux task of a CPU, as the module's initialisation sets it up.\<close>

definition linux_task :: "tunables \<Rightarrow> nat \<Rightarrow> rt_task" where
  "linux_task tn cpuid = zero_task\<lparr>task_magic := 0, policy := 0, is_hard := 0, runnable_on_cpus := cpuid,
     state := RT_SCHED_READY, msg_queue_task := Some (Linux cpuid), msg := 0, ret_queue_task := BNull,
     priority := RT_SCHED_LINUX_PRIORITY, base_priority := RT_SCHED_LINUX_PRIORITY,
     resume_time := RTAI_TIME_LIMIT, periodic_resume_time := RTAI_TIME_LIMIT,
     schedlat := UserLatency tn\<rparr>"

definition boot_task :: "tunables \<Rightarrow> tid \<Rightarrow> rt_task" where
  "boot_task tn t = (case t of Linux c \<Rightarrow> linux_task tn c | Task _ \<Rightarrow> zero_task)"

definition sched_boot :: "tunables \<Rightarrow> int \<Rightarrow> kst" where
  "sched_boot tn now =
     \<lparr>tasks = boot_task tn, sems = (\<lambda>_. zero_sem), qring = (\<lambda>_. []), rready = (\<lambda>_. []),
      rtimed = (\<lambda>_. []), rt_smp_current = Linux, rt_smp_time_h = (\<lambda>_. now),
      sched_locked = (\<lambda>_. 0), sched_rqsted = (\<lambda>_. 0), sched_ipi = {},
      wake_up_srq = (\<lambda>_. \<lparr>k_in = 0, k_out = 0, k_task = (\<lambda>_. Linux 0)\<rparr>),
      tick_time = (\<lambda>_. now), intr_time = (\<lambda>_. RTAI_TIME_LIMIT), linux_time = (\<lambda>_. RTAI_TIME_LIMIT),
      linux_tick = (\<lambda>_. 0), timer_shot_fired = (\<lambda>_. 0), timer_delay = (\<lambda>_. 0), tsc = now,
      tuned = tn, rt_half_tick = (\<lambda>_. 0), all_tasks = [], tasks_per_cpu = (\<lambda>_. 0),
      rt_pid = 0x7ffffff0, mbxs = (\<lambda>_. zero_mbx),
      mcbs = (\<lambda>_. \<lparr>sbuf = [], sbytes = 0, rbuf = None, rbytes = 0\<rparr>)\<rparr>"

section \<open>Creation\<close>

text \<open>\<^verbatim>\<open>get_min_tasks_cpuid\<close>: the loop from CPU 1 on, with the best CPU so far.\<close>

fun min_tasks_loop :: "(nat \<Rightarrow> int) \<Rightarrow> (nat \<Rightarrow> bool) \<Rightarrow> nat list \<Rightarrow> nat \<Rightarrow> nat" where
  "min_tasks_loop tpc allowed [] cpuid = cpuid"
| "min_tasks_loop tpc allowed (i # is) cpuid =
     min_tasks_loop tpc allowed is (if allowed i \<and> tpc i < tpc cpuid then i else cpuid)"

definition get_min_tasks_cpuid :: "(nat \<Rightarrow> bool) \<Rightarrow> kst \<Rightarrow> nat" where
  "get_min_tasks_cpuid cpus_allowed s =
     min_tasks_loop (tasks_per_cpu s) cpus_allowed [1..<num_online_cpus (tuned s)] 0"

definition rt_set_task_pid :: "tid \<Rightarrow> kst \<Rightarrow> kst" where
  "rt_set_task_pid t s =
     (let s1 = s\<lparr>rt_pid := s32 (rt_pid s - 0x10)\<rparr> in
      upd_task t (\<lambda>k. k\<lparr>pid := s32 (rt_pid s1 + int (runnable_on_cpus k))\<rparr>) s1)"

text \<open>The queues of a new task are empty, and it joins the tasks of its CPU.\<close>

definition link_new_task :: "tid \<Rightarrow> nat \<Rightarrow> kst \<Rightarrow> kst" where
  "link_new_task t cpuid s =
     upd_ring (RetQ t) (\<lambda>_. []) (upd_ring (MsgQ t) (\<lambda>_. [])
       (s\<lparr>tasks_per_cpu := (tasks_per_cpu s)(cpuid := tasks_per_cpu s cpuid + 1),
          all_tasks := all_tasks s @ [t]\<rparr>))"

definition chosen_cpu :: "nat \<Rightarrow> kst \<Rightarrow> nat" where
  "chosen_cpu cpuid s = (if num_online_cpus (tuned s) \<le> 1 then 0 else cpuid)"

text \<open>\<^verbatim>\<open>set_rtext\<close>: \<open>has_mm\<close> says that the Linux thread has user memory.\<close>

definition set_rtext :: "tid \<Rightarrow> int \<Rightarrow> bool \<Rightarrow> nat \<Rightarrow> kst \<Rightarrow> kst \<times> int" where
  "set_rtext t prty has_mm cpu s =
     (let cpuid = chosen_cpu cpu s in
      if task_magic (tasks s t) = RT_TASK_MAGIC \<or> cpuid \<ge> RTAI_NR_CPUS (tuned s) \<or> prty < 0
      then (s, - EINVAL)
      else
        (link_new_task t cpuid
           (upd_task t (\<lambda>k. k\<lparr>runnable_on_cpus := cpuid, task_magic := RT_TASK_MAGIC, policy := 0,
              owndres := 0, running := 0, period := 0, resume_time := RTAI_TIME_LIMIT,
              periodic_resume_time := RTAI_TIME_LIMIT, msg_queue_task := Some t, msg := 0,
              ret_queue_task := BNull, blocked_on := BNull, resync_frame := False, proxy_receiver := None,
              priority := s32 (BASE_SOFT_PRIORITY + prty), base_priority := s32 (BASE_SOFT_PRIORITY + prty),
              suspdepth := 0, is_hard := 0, state := RT_SCHED_READY,
              schedlat := (if has_mm then UserLatency (tuned s) else KernelLatency (tuned s))\<rparr>) s), 0))"

text \<open>\<^verbatim>\<open>rt_task_init_cpuid\<close>: \<open>st\<close> says that the stack could be allocated.\<close>

definition rt_task_init_cpuid :: "tid \<Rightarrow> bool \<Rightarrow> int \<Rightarrow> nat \<Rightarrow> kst \<Rightarrow> kst \<times> int" where
  "rt_task_init_cpuid t st prty cpu s =
     (let cpuid = chosen_cpu cpu s in
      if task_magic (tasks s t) = RT_TASK_MAGIC \<or> cpuid \<ge> RTAI_NR_CPUS (tuned s) \<or> prty < 0
      then (s, - EINVAL)
      else if \<not> st then (s, - ENOMEM)
      else
        (rt_set_task_pid t (link_new_task t cpuid
           (upd_task t (\<lambda>k. k\<lparr>runnable_on_cpus := cpuid, task_magic := RT_TASK_MAGIC, policy := 0,
              suspdepth := 1, state := RT_SCHED_SUSPENDED OR RT_SCHED_READY, owndres := 0,
              running := 0, is_hard := 1, priority := prty, base_priority := prty, period := 0,
              resume_time := RTAI_TIME_LIMIT, periodic_resume_time := RTAI_TIME_LIMIT,
              msg_queue_task := Some t, msg := 0, ret_queue_task := BNull, blocked_on := BNull,
              resync_frame := False, proxy_receiver := None, schedlat := KernelLatency (tuned s)\<rparr>) s)), 0))"

definition rt_task_init :: "tid \<Rightarrow> bool \<Rightarrow> int \<Rightarrow> kst \<Rightarrow> kst \<times> int" where
  "rt_task_init t st prty s = rt_task_init_cpuid t st prty (get_min_tasks_cpuid (\<lambda>i. i < 8) s) s"

definition rt_find_task_by_pid :: "int \<Rightarrow> kst \<Rightarrow> tid option" where
  "rt_find_task_by_pid p s =
     List.find (\<lambda>t. pid (tasks s t) = p)
       (filter (\<lambda>t. cpu_of s t = nat (p mod 16)) (all_tasks s))"

section \<open>Well-formedness\<close>

lemma zero_task_sel [simp]:
  "state zero_task = 0" "priority zero_task = 0" "base_priority zero_task = 0" "policy zero_task = 0"
  "task_magic zero_task = 0"
  by (simp_all add: zero_task_def)

lemma sched_wf_boot: "sched_wf {} {} (sched_boot tn now)"
proof -
  have "prio_wf (sched_boot tn now)"
    by (auto simp: prio_wf_def sched_boot_def boot_task_def linux_task_def split: tid.split)
  moreover have "ready_wf {} (sched_boot tn now)"
    by (rule ready_wfI)
      (auto simp: sched_boot_def boot_task_def is_rt_def split: tid.splits)
  moreover have "timed_wf {} (sched_boot tn now)"
    by (auto simp: timed_wf_def sched_boot_def boot_task_def is_rt_def is_delayed_def split: tid.splits)
  ultimately show ?thesis by (simp add: sched_wf_def)
qed

lemma link_new_task_sel [simp]:
  "tasks (link_new_task t c s) = tasks s" "rready (link_new_task t c s) = rready s"
  "rtimed (link_new_task t c s) = rtimed s" "sems (link_new_task t c s) = sems s"
  "qring (link_new_task t c s) = (qring s)(MsgQ t := [], RetQ t := [])"
  "rt_smp_current (link_new_task t c s) = rt_smp_current s" "tuned (link_new_task t c s) = tuned s"
  "all_tasks (link_new_task t c s) = all_tasks s @ [t]" "tsc (link_new_task t c s) = tsc s"
  "rt_smp_time_h (link_new_task t c s) = rt_smp_time_h s"
  "sched_locked (link_new_task t c s) = sched_locked s"
  by (simp_all add: link_new_task_def)

text \<open>Putting a new control block in place of one that is in no list.\<close>

lemma sched_wf_new_task:
  assumes wf: "sched_wf X Y s" and t: "state (tasks s t) = 0"
    and f: "\<not> is_delayed (f (tasks s t))" "0 \<le> priority (f (tasks s t))"
      "0 \<le> base_priority (f (tasks s t))" "0 \<le> policy (f (tasks s t))"
      "state (f (tasks s t)) = RT_SCHED_READY \<Longrightarrow> is_hard (f (tasks s t)) = 0"
  shows "sched_wf X Y (upd_task t f s)"
proof -
  have wf': "ready_wf X s" "timed_wf Y s" "prio_wf s" using wf by (simp_all add: sched_wf_def)
  have r: "ready_wf (insert t X) (upd_task t f s)" "timed_wf (insert t Y) (upd_task t f s)"
    using wf' t by (auto intro!: ready_wf_in_flight timed_wf_in_flight
        simp: ready_wf_insert timed_wf_insert is_delayed_def)
  have "ready_wf X (upd_task t f s)"
  proof (rule ready_wfI [OF ready_wf_distinct [OF r(1)] ready_wf_sorted [OF r(1)]])
    show "u \<notin> X \<and> is_rt u \<and> state (tasks (upd_task t f s) u) = RT_SCHED_READY \<and>
        cpu_of (upd_task t f s) u = c" if "u \<in> set (rready (upd_task t f s) c)" for c u
      using ready_wf_mem [OF r(1) that] by blast
    show "u \<in> set (rready (upd_task t f s) (cpu_of (upd_task t f s) u))"
      if "u \<notin> X" "is_rt u" "state (tasks (upd_task t f s) u) = RT_SCHED_READY"
        "is_hard (tasks (upd_task t f s) u) \<noteq> 0" for u
      using ready_wf_hard [OF r(1) _ that(2-4)] that f(5) by (cases "u = t") auto
  qed
  moreover have "timed_wf Y (upd_task t f s)" using r(2) f(1) by (simp add: timed_wf_insert)
  ultimately show ?thesis using prio_wf_upd [of s f t] wf'(3) f(2-4) by (simp add: sched_wf_def)
qed

lemma sched_wf_link_new [simp]: "sched_wf X Y (link_new_task t c s) = sched_wf X Y s"
  by (simp add: sched_wf_def ready_wf_def timed_wf_def prio_wf_def)

lemma sched_wf_set_pid [simp]: "sched_wf X Y (rt_set_task_pid t s) = sched_wf X Y s"
proof -
  have "sched_wf X Y (s\<lparr>rt_pid := v\<rparr>) = sched_wf X Y s" for v
    by (simp add: sched_wf_def ready_wf_def timed_wf_def prio_wf_def)
  then show ?thesis
    by (simp add: rt_set_task_pid_def Let_def sched_wf_def is_delayed_def [abs_def])
qed

lemma sched_wf_rt_task_init_cpuid:
  assumes "sched_wf X Y s" "state (tasks s t) = 0"
  shows "sched_wf X Y (fst (rt_task_init_cpuid t st p c s))"
  using assms by (auto simp: rt_task_init_cpuid_def Let_def is_delayed_def intro!: sched_wf_new_task)

lemma sched_wf_set_rtext:
  assumes "sched_wf X Y s" "state (tasks s t) = 0" "BASE_SOFT_PRIORITY + p \<le> int_max"
  shows "sched_wf X Y (fst (set_rtext t p m c s))"
  using assms by (auto simp: set_rtext_def Let_def is_delayed_def intro!: sched_wf_new_task)

lemma tasks_rt_task_init_cpuid:
  "task_magic (tasks s t) \<noteq> RT_TASK_MAGIC \<Longrightarrow> u \<noteq> t \<Longrightarrow>
   tasks (fst (rt_task_init_cpuid t st p c s)) u = tasks s u"
  by (simp add: rt_task_init_cpuid_def Let_def rt_set_task_pid_def)

end
