(* ===== verification/Sched.thy ===== *)
theory Sched
  imports Task_Init
begin

text \<open>
  The scheduler and its task services: \<^verbatim>\<open>rt_schedule\<close>, the scheduling IPI and the timer
  handler of \<^verbatim>\<open>src/sched/sched.c\<close>, and the task API of \<^verbatim>\<open>src/sched/api.c\<close>
  (suspend, resume, sleep, periodic tasks, priority changes, unblocking). Each operation runs
  under the global lock, so it is one atomic state change; \<open>cpuid\<close> is the CPU that executes
  it. A service that waits is split where it calls \<^verbatim>\<open>rt_schedule\<close>: its first part returns
  \<open>None\<close> when the caller is now waiting, and the part after \<^verbatim>\<open>rt_schedule\<close> is the
  operation of the same name with \<open>_resume\<close>, run when the task is current again. Reading
  the time-stamp counter reads the field \<open>tsc\<close>, which only the environment moves.
\<close>

section \<open>Choosing and switching\<close>

text \<open>Moving a task behind the tasks of its own priority that follow it.\<close>

fun rr_shift :: "(tid \<Rightarrow> int) \<Rightarrow> tid \<Rightarrow> tid list \<Rightarrow> tid list" where
  "rr_shift p t [] = []"
| "rr_shift p t (x # xs) =
     (if x = t then takeWhile (\<lambda>y. p t = p y) xs @ t # dropWhile (\<lambda>y. p t = p y) xs
      else x # rr_shift p t xs)"

definition RR_YIELD :: "nat \<Rightarrow> kst \<Rightarrow> kst" where
  "RR_YIELD cpuid s =
     (let t = rt_smp_current s cpuid; k = tasks s t in
      if policy k > 0 then
        (if yield_time k \<le> tick_time s cpuid then
           (let s1 = upd_task t (\<lambda>k. k\<lparr>rr_remaining := rr_quantum k\<rparr>) s in
            if state k = RT_SCHED_READY then upd_ready (cpu_of s t) (rr_shift (prio s) t) s1 else s1)
         else upd_task t (\<lambda>k. k\<lparr>rr_remaining := s32 (yield_time k - tick_time s cpuid)\<rparr>) s)
      else s)"

definition TASK_TO_SCHEDULE :: "nat \<Rightarrow> kst \<Rightarrow> kst \<times> tid" where
  "TASK_TO_SCHEDULE cpuid s =
     (let t = rhead s cpuid;
          s1 = (if policy (tasks s t) > 0
                then upd_task t (\<lambda>k. k\<lparr>yield_time := tick_time s cpuid + rr_remaining k\<rparr>) s else s)
      in (upd_task t (\<lambda>k. k\<lparr>running := 1\<rparr>) s1, t))"

text \<open>The first task of the timed list that resumes before the pending interrupt and may
  preempt a task of priority \<open>pr\<close>.\<close>

fun next_shot :: "kst \<Rightarrow> int \<Rightarrow> int \<Rightarrow> tid list \<Rightarrow> int option" where
  "next_shot s pr it [] = None"
| "next_shot s pr it (t # ts) =
     (if resume_time (tasks s t) < it
      then (if prio s t \<le> pr then Some (resume_time (tasks s t) - schedlat (tasks s t))
            else next_shot s pr it ts)
      else None)"

definition SET_NEXT_TIMER_SHOT :: "nat \<Rightarrow> tid \<Rightarrow> kst \<Rightarrow> kst \<times> bool" where
  "SET_NEXT_TIMER_SHOT cpuid new_task s =
     (let k = tasks s new_task;
          (it, shot) = (if policy k > 0 \<and> yield_time k < intr_time s cpuid
                        then (yield_time k, True) else (intr_time s cpuid, False))
      in (case next_shot s (priority k) it (rtimed s cpuid) of
            None \<Rightarrow> (s\<lparr>intr_time := (intr_time s)(cpuid := it)\<rparr>, shot)
          | Some it' \<Rightarrow> (s\<lparr>intr_time := (intr_time s)(cpuid := it')\<rparr>, True)))"

definition IF_GOING_TO_LINUX_CHECK_TIMER_SHOT :: "nat \<Rightarrow> int \<Rightarrow> bool \<Rightarrow> kst \<Rightarrow> kst \<times> bool" where
  "IF_GOING_TO_LINUX_CHECK_TIMER_SHOT cpuid pr shot s =
     (if pr = RT_SCHED_LINUX_PRIORITY then
        (if linux_time s cpuid < intr_time s cpuid
         then (s\<lparr>intr_time := (intr_time s)(cpuid := linux_time s cpuid)\<rparr>, True)
         else (s, shot \<or> timer_shot_fired s cpuid = 0))
      else (s, shot))"

definition FIRE_NEXT_TIMER_SHOT :: "nat \<Rightarrow> bool \<Rightarrow> bool \<Rightarrow> kst \<Rightarrow> kst" where
  "FIRE_NEXT_TIMER_SHOT cpuid shot_fired fire_shot s =
     (if fire_shot then
        (let span = intr_time s cpuid - rt_smp_time_h s cpuid;
             (s1, delay) =
               (if \<not> shot_fired \<and> span > oneshot_span (tuned s)
                then (s\<lparr>intr_time := (intr_time s)(cpuid := rt_smp_time_h s cpuid + oneshot_span (tuned s))\<rparr>,
                      satdelay (tuned s))
                else (s, s32 (s32 span - sched_latency (tuned s))))
         in if delay > setup_time_TIMER_CPUNIT (tuned s)
            then s1\<lparr>timer_shot_fired := (timer_shot_fired s1)(cpuid := 1),
                    timer_delay := (timer_delay s1)(cpuid := delay)\<rparr>
            else s1\<lparr>timer_shot_fired := (timer_shot_fired s1)(cpuid := -1),
                    intr_time := (intr_time s1)(cpuid :=
                      rt_smp_time_h s1 cpuid + setup_time_TIMER_CPUNIT (tuned s))\<rparr>)
      else s)"

definition program_timer :: "nat \<Rightarrow> bool \<Rightarrow> tid \<Rightarrow> kst \<Rightarrow> kst" where
  "program_timer cpuid shot_fired new_task s =
     (case SET_NEXT_TIMER_SHOT cpuid new_task s of
        (s1, shot) \<Rightarrow>
          (case IF_GOING_TO_LINUX_CHECK_TIMER_SHOT cpuid (prio s new_task) shot s1 of
             (s2, shot2) \<Rightarrow> FIRE_NEXT_TIMER_SHOT cpuid shot_fired shot2 s2))"

definition switch_to :: "nat \<Rightarrow> tid \<Rightarrow> kst \<Rightarrow> kst" where
  "switch_to cpuid new_task s =
     (if new_task \<noteq> rt_smp_current s cpuid then
        (if sched_locked s cpuid \<noteq> 0 then s\<lparr>sched_rqsted := (sched_rqsted s)(cpuid := 1)\<rparr>
         else s\<lparr>rt_smp_current := (rt_smp_current s)(cpuid := new_task)\<rparr>)
      else s)"

text \<open>
  In the interrupt handlers the switch is made only when one of the two tasks runs in hard
  real time; between two Linux contexts it is left to Linux.
\<close>

definition switch_in_irq :: "nat \<Rightarrow> tid \<Rightarrow> kst \<Rightarrow> kst" where
  "switch_in_irq cpuid new_task s =
     (if new_task \<noteq> rt_smp_current s cpuid \<and> sched_locked s cpuid = 0 \<and>
         \<not> is_hard (tasks s new_task) > 0 \<and> \<not> is_hard (tasks s (rt_smp_current s cpuid)) > 0
      then s else switch_to cpuid new_task s)"

definition set_time_h :: "nat \<Rightarrow> kst \<Rightarrow> kst" where
  "set_time_h cpuid s = s\<lparr>rt_smp_time_h := (rt_smp_time_h s)(cpuid := tsc s + rt_half_tick s cpuid)\<rparr>"

text \<open>\<^verbatim>\<open>rt_schedule\<close> up to the switch; its last statement is the step \<open>CALL_TIMER_HANDLER\<close> below.\<close>

definition rt_schedule :: "nat \<Rightarrow> kst \<Rightarrow> kst" where
  "rt_schedule cpuid s =
     (case TASK_TO_SCHEDULE cpuid (wake_up_timed_tasks cpuid (set_time_h cpuid (RR_YIELD cpuid s))) of
        (s1, new_task) \<Rightarrow>
          switch_to cpuid new_task
            (program_timer cpuid (timer_shot_fired s1 cpuid \<noteq> 0) new_task s1))"

definition rt_schedule_on_schedule_ipi :: "nat \<Rightarrow> kst \<Rightarrow> kst" where
  "rt_schedule_on_schedule_ipi cpuid s0 =
     (let s = s0\<lparr>sched_ipi := sched_ipi s0 - {cpuid}\<rparr> in
      case TASK_TO_SCHEDULE cpuid (wake_up_timed_tasks cpuid (set_time_h cpuid (RR_YIELD cpuid s))) of
        (s1, new_task) \<Rightarrow>
          switch_in_irq cpuid new_task
            (program_timer cpuid (timer_shot_fired s1 cpuid \<noteq> 0) new_task s1))"

definition SET_PEND_LINUX_TIMER_SHOT :: "nat \<Rightarrow> kst \<Rightarrow> kst" where
  "SET_PEND_LINUX_TIMER_SHOT cpuid s =
     (if tick_time s cpuid \<ge> linux_time s cpuid then
        s\<lparr>linux_time := (linux_time s)(cpuid :=
            (if linux_tick s cpuid > 0 then linux_time s cpuid + linux_tick s cpuid
             else RTAI_TIME_LIMIT))\<rparr>
      else s)"

text \<open>One pass of \<^verbatim>\<open>rt_timer_handler\<close>; when the shot to program is already due
  (\<open>timer_shot_fired < 0\<close>) the code runs another pass, here the step \<open>CALL_TIMER_HANDLER\<close>.\<close>

definition rt_timer_handler :: "nat \<Rightarrow> kst \<Rightarrow> kst" where
  "rt_timer_handler cpuid s =
     (let s1 = s\<lparr>tick_time := (tick_time s)(cpuid := tsc s)\<rparr>;
          s2 = SET_PEND_LINUX_TIMER_SHOT cpuid (set_time_h cpuid s1)
      in case TASK_TO_SCHEDULE cpuid (wake_up_timed_tasks cpuid (RR_YIELD cpuid s2)) of
           (s3, new_task) \<Rightarrow>
             switch_in_irq cpuid new_task
               (program_timer cpuid False new_task
                  (s3\<lparr>timer_shot_fired := (timer_shot_fired s3)(cpuid := 0),
                      intr_time := (intr_time s3)(cpuid := RTAI_TIME_LIMIT)\<rparr>)))"

text \<open>
  The last statement of \<^verbatim>\<open>rt_schedule\<close> and of the IPI, after the switch: a shot that was already due when
  it should have been programmed is handled on the spot. The global lock is released before the timer is programmed
  and the task that runs this statement is the one that was switched to, so it is not a part of
  \<open>rt_schedule\<close> but a step of its own on the same CPU; the other CPUs may make steps in between.
\<close>

definition CALL_TIMER_HANDLER :: "nat \<Rightarrow> kst \<Rightarrow> kst" where
  "CALL_TIMER_HANDLER cpuid s =
     (if timer_shot_fired s cpuid < 0
      then rt_timer_handler cpuid (s\<lparr>timer_shot_fired := (timer_shot_fired s)(cpuid := 1)\<rparr>) else s)"

section \<open>Scheduling requests\<close>

definition send_sched_ipi :: "nat set \<Rightarrow> kst \<Rightarrow> kst" where
  "send_sched_ipi dest s = s\<lparr>sched_ipi := sched_ipi s \<union> dest\<rparr>"

definition RT_SCHEDULE_MAP :: "nat set \<Rightarrow> kst \<Rightarrow> kst" where
  "RT_SCHEDULE_MAP schedmap s = (if schedmap \<noteq> {} then send_sched_ipi schedmap s else s)"

definition RT_SCHEDULE_MAP_BOTH :: "nat \<Rightarrow> nat set \<Rightarrow> kst \<Rightarrow> kst" where
  "RT_SCHEDULE_MAP_BOTH cpuid schedmap s = rt_schedule cpuid (RT_SCHEDULE_MAP schedmap s)"

definition RT_SCHEDULE :: "tid \<Rightarrow> nat \<Rightarrow> kst \<Rightarrow> kst" where
  "RT_SCHEDULE t cpuid s =
     (if cpu_of s t \<noteq> cpuid then send_sched_ipi {cpu_of s t} s else rt_schedule cpuid s)"

definition RT_SCHEDULE_BOTH :: "tid \<Rightarrow> nat \<Rightarrow> kst \<Rightarrow> kst" where
  "RT_SCHEDULE_BOTH t cpuid s =
     rt_schedule cpuid (if cpu_of s t \<noteq> cpuid then send_sched_ipi {cpu_of s t} s else s)"

definition rt_sched_lock :: "nat \<Rightarrow> kst \<Rightarrow> kst" where
  "rt_sched_lock cpuid s =
     (let s1 = (if sched_locked s cpuid = 0 then s\<lparr>sched_rqsted := (sched_rqsted s)(cpuid := 0)\<rparr> else s)
      in s1\<lparr>sched_locked := (sched_locked s1)(cpuid := Suc (sched_locked s1 cpuid))\<rparr>)"

definition rt_sched_unlock :: "nat \<Rightarrow> kst \<Rightarrow> kst" where
  "rt_sched_unlock cpuid s =
     (if sched_locked s cpuid \<noteq> 0 then
        (let s1 = s\<lparr>sched_locked := (sched_locked s)(cpuid := sched_locked s cpuid - 1)\<rparr> in
         if sched_locked s1 cpuid = 0 \<and> sched_rqsted s1 cpuid > 0
         then rt_schedule cpuid (s1\<lparr>sched_rqsted := (sched_rqsted s1)(cpuid := 0)\<rparr>)
         else s1)
      else s)"

section \<open>Time conversions\<close>

text \<open>
  \<^verbatim>\<open>rtai_imuldiv\<close>/\<^verbatim>\<open>rtai_llimd\<close>: \<^verbatim>\<open>mulq\<close> to 128 bits, then \<^verbatim>\<open>divq\<close>, which
  traps (here \<open>None\<close>) on a zero divisor or a quotient of more than 64 bits.
\<close>

definition rtai_llimd :: "int \<Rightarrow> int \<Rightarrow> int \<Rightarrow> int option" where
  "rtai_llimd ll mult dv =
     (let p = (ll mod 2 ^ 64) * (mult mod 2 ^ 64); d = dv mod 2 ^ 64 in
      if d = 0 \<or> p div d \<ge> 2 ^ 64 then None
      else Some (if p div d \<ge> 2 ^ 63 then p div d - 2 ^ 64 else p div d))"

definition count2nano :: "int \<Rightarrow> int \<Rightarrow> int option" where
  "count2nano freq counts =
     (if counts \<ge> 0 then rtai_llimd counts 1000000000 freq
      else map_option uminus (rtai_llimd (- counts) 1000000000 freq))"

definition nano2count :: "int \<Rightarrow> int \<Rightarrow> int option" where
  "nano2count freq ns =
     (if ns \<ge> 0 then rtai_llimd ns freq 1000000000
      else map_option uminus (rtai_llimd (- ns) freq 1000000000))"

definition rt_get_time :: "kst \<Rightarrow> int" where
  "rt_get_time s = tsc s"

section \<open>Task services\<close>

abbreviation RT_CURRENT :: "nat \<Rightarrow> kst \<Rightarrow> tid" where
  "RT_CURRENT cpuid s \<equiv> rt_smp_current s cpuid"

definition valid_task :: "tid \<Rightarrow> kst \<Rightarrow> bool" where
  "valid_task t s \<longleftrightarrow> task_magic (tasks s t) = RT_TASK_MAGIC"

text \<open>The argument convention of several services: a null task is the current one, any other
  must carry the magic number.\<close>

definition task_arg :: "nat \<Rightarrow> tid option \<Rightarrow> kst \<Rightarrow> tid option" where
  "task_arg cpuid task s =
     (case task of None \<Rightarrow> Some (RT_CURRENT cpuid s)
      | Some t \<Rightarrow> if valid_task t s then Some t else None)"

definition rt_set_sched_policy :: "nat \<Rightarrow> tid option \<Rightarrow> int \<Rightarrow> int \<Rightarrow> kst \<Rightarrow> kst option" where
  "rt_set_sched_policy cpuid task pol rr_quantum_ns s =
     (let t = (case task of None \<Rightarrow> RT_CURRENT cpuid s | Some t \<Rightarrow> t) in
      if pol = 0 then Some (upd_task t (\<lambda>k. k\<lparr>policy := 0\<rparr>) s)
      else case nano2count (clock_freq (tuned s)) rr_quantum_ns of
             None \<Rightarrow> None
           | Some n \<Rightarrow>
               (let q = s32 n;
                    q' = (if (word_of_int q :: u32) AND 0xF0000000 \<noteq> 0 \<or> q = 0
                          then s32 (linux_tick s (cpu_of s t)) else q)
                in Some (upd_task t (\<lambda>k. k\<lparr>policy := 1, rr_quantum := q', rr_remaining := q',
                                          yield_time := 0\<rparr>) s)))"

definition rt_get_prio :: "tid \<Rightarrow> kst \<Rightarrow> int" where
  "rt_get_prio t s = (if valid_task t s then base_priority (tasks s t) else - EINVAL)"

definition rt_get_inher_prio :: "tid \<Rightarrow> kst \<Rightarrow> int" where
  "rt_get_inher_prio t s = (if valid_task t s then priority (tasks s t) else - EINVAL)"

definition rt_get_priorities :: "nat \<Rightarrow> tid option \<Rightarrow> kst \<Rightarrow> (int \<times> int) option" where
  "rt_get_priorities cpuid task s =
     (let t = (case task of None \<Rightarrow> RT_CURRENT cpuid s | Some t \<Rightarrow> t) in
      if valid_task t s then Some (priority (tasks s t), base_priority (tasks s t)) else None)"

definition rt_task_get_info :: "nat \<Rightarrow> tid option \<Rightarrow> kst \<Rightarrow> (int \<times> int \<times> int) option" where
  "rt_task_get_info cpuid task s =
     (let t = (case task of None \<Rightarrow> RT_CURRENT cpuid s | Some t \<Rightarrow> t) in
      if valid_task t s
      then Some (period (tasks s t), base_priority (tasks s t), priority (tasks s t)) else None)"

text \<open>The loop of \<^verbatim>\<open>rt_change_prio\<close>, which passes the new priority on like
  \<^verbatim>\<open>pass_prio\<close>; fuel as there.\<close>

fun change_prio_loop :: "nat \<Rightarrow> nat \<Rightarrow> tid \<Rightarrow> int \<Rightarrow> nat set \<Rightarrow> kst \<Rightarrow> kst \<times> nat set" where
  "change_prio_loop 0 cpuid t pr schedmap s = (s, schedmap)"
| "change_prio_loop (Suc n) cpuid t pr schedmap s =
     (let s1 = upd_task t (\<lambda>k. k\<lparr>priority := pr\<rparr>) s in
      if state (tasks s1 t) = RT_SCHED_READY then pass_prio_ready cpuid t schedmap s1
      else
        (case pass_through t s1 of
           None \<Rightarrow> (s1, schedmap)
         | Some (q, nxt) \<Rightarrow>
             (let (s2, stop) =
                (if \<not> first_in t (qring s1 q)
                 then (let s2 = requeue_blocked t q s1 in (s2, \<not> first_in t (qring s2 q)))
                 else (s1, False))
              in if stop then (s2, schedmap)
                 else case nxt of
                        None \<Rightarrow> (s2, schedmap)
                      | Some u \<Rightarrow> if prio s2 u > pr then change_prio_loop n cpuid u pr schedmap s2
                                  else (s2, schedmap))))"

definition rt_change_prio :: "nat \<Rightarrow> tid \<Rightarrow> int \<Rightarrow> kst \<Rightarrow> kst \<times> int" where
  "rt_change_prio cpuid t pr0 s =
     (if \<not> valid_task t s \<or> pr0 < 0 then (s, - EINVAL)
      else
        (let old = base_priority (tasks s t);
             pr = (if is_hard (tasks s t) = 0 \<and> pr0 < BASE_SOFT_PRIORITY
                   then s32 (pr0 + BASE_SOFT_PRIORITY) else pr0);
             s1 = upd_task t (\<lambda>k. k\<lparr>base_priority := pr\<rparr>) s
         in if old = prio s1 t \<or> pr < prio s1 t then
              (case change_prio_loop (Suc (length (all_tasks s1))) cpuid t pr {} s1 of
                 (s2, schedmap) \<Rightarrow>
                   (if schedmap = {} then s2
                    else if cpuid \<in> schedmap then RT_SCHEDULE_MAP_BOTH cpuid (schedmap - {cpuid}) s2
                    else RT_SCHEDULE_MAP schedmap s2, old))
            else (s1, old)))"

definition rt_task_yield :: "nat \<Rightarrow> kst \<Rightarrow> kst" where
  "rt_task_yield cpuid s =
     (let t = RT_CURRENT cpuid s; c = cpu_of s t in
      if rhead s c = t then
        (let xs = rr_shift (prio s) t (rready s c) in
         if xs \<noteq> rready s c then rt_schedule cpuid (upd_ready c (\<lambda>_. xs) s) else s)
      else rt_schedule cpuid s)"

definition rt_task_suspend :: "nat \<Rightarrow> tid option \<Rightarrow> kst \<Rightarrow> kst \<times> int option" where
  "rt_task_suspend cpuid task s =
     (case task_arg cpuid task s of
        None \<Rightarrow> (s, Some (- EINVAL))
      | Some t \<Rightarrow>
          if \<not> task_owns_sems t s \<and> suspdepth (tasks s t) = 0 then
            (let s1 = upd_task t (\<lambda>k. k\<lparr>suspdepth := 1\<rparr>) s in
             if t = RT_CURRENT cpuid s1 then
               (let s2 = rem_ready_current t (upd_task t (\<lambda>k. k\<lparr>blocked_on := BTask t\<rparr>) s1) in
                (rt_schedule cpuid (upd_task t (\<lambda>k. k\<lparr>state := state k OR RT_SCHED_SUSPENDED\<rparr>) s2),
                 None))
             else
               (let s2 = upd_task t (\<lambda>k. k\<lparr>state := state k OR RT_SCHED_SUSPENDED\<rparr>)
                           (rem_timed_task t (rem_ready_task t s1))
                in (if cpu_of s2 t \<noteq> cpuid then send_sched_ipi {cpu_of s2 t} s2 else s2, Some 1)))
          else
            (let s1 = upd_task t (\<lambda>k. k\<lparr>suspdepth := s32 (suspdepth k + 1)\<rparr>) s
             in (s1, Some (suspdepth (tasks s1 t)))))"

definition rt_task_suspend_resume :: "tid \<Rightarrow> kst \<Rightarrow> int" where
  "rt_task_suspend_resume t s =
     (if blocked_on (tasks s t) \<noteq> BNull then RTE_UNBLKD else suspdepth (tasks s t))"

definition rt_task_suspend_if :: "nat \<Rightarrow> tid option \<Rightarrow> kst \<Rightarrow> kst \<times> int" where
  "rt_task_suspend_if cpuid task s =
     (case task_arg cpuid task s of
        None \<Rightarrow> (s, - EINVAL)
      | Some t \<Rightarrow>
          (let s1 = (if suspdepth (tasks s t) < 0
                     then upd_task t (\<lambda>k. k\<lparr>suspdepth := suspdepth k + 1\<rparr>) s else s)
           in (s1, suspdepth (tasks s1 t))))"

definition rt_task_suspend_until :: "nat \<Rightarrow> tid option \<Rightarrow> int \<Rightarrow> kst \<Rightarrow> kst \<times> int option" where
  "rt_task_suspend_until cpuid task time s =
     (case task_arg cpuid task s of
        None \<Rightarrow> (s, Some (- EINVAL))
      | Some t \<Rightarrow>
          if \<not> task_owns_sems t s \<and> suspdepth (tasks s t) = 0 then
            (let s1 = upd_task t (\<lambda>k. k\<lparr>resume_time := time\<rparr>) s in
             if time > rt_smp_time_h s1 cpuid then
               (let s2 = upd_task t (\<lambda>k. k\<lparr>suspdepth := 1\<rparr>) s1 in
                if t = RT_CURRENT cpuid s2 then
                  (let s3 = enq_timed_task t
                              (rem_ready_current t (upd_task t (\<lambda>k. k\<lparr>blocked_on := BTask t\<rparr>) s2))
                   in (rt_schedule cpuid
                         (upd_task t (\<lambda>k. k\<lparr>state := state k OR (RT_SCHED_SUSPENDED OR RT_SCHED_DELAYED)\<rparr>) s3),
                       None))
                else
                  (let s3 = rem_ready_task t s2;
                       s4 = (if state (tasks s3 t) AND RT_SCHED_DELAYED = 0 then enq_timed_task t s3 else s3);
                       s5 = upd_task t (\<lambda>k. k\<lparr>state := state k OR (RT_SCHED_SUSPENDED OR RT_SCHED_DELAYED)\<rparr>) s4
                   in (if cpu_of s5 t \<noteq> cpuid then send_sched_ipi {cpu_of s5 t} s5 else s5, Some 1)))
             else (s1, Some RTE_TMROVRN))
          else
            (let s1 = upd_task t (\<lambda>k. k\<lparr>suspdepth := s32 (suspdepth k + 1)\<rparr>) s
             in (s1, Some (suspdepth (tasks s1 t)))))"

definition rt_task_suspend_until_resume :: "tid \<Rightarrow> kst \<Rightarrow> int" where
  "rt_task_suspend_until_resume t s =
     (if blk_is_adr (blocked_on (tasks s t)) then RTE_TIMOUT
      else if blocked_on (tasks s t) \<noteq> BNull then RTE_UNBLKD
      else suspdepth (tasks s t))"

definition rt_task_suspend_timed :: "nat \<Rightarrow> tid option \<Rightarrow> int \<Rightarrow> kst \<Rightarrow> kst \<times> int option" where
  "rt_task_suspend_timed cpuid task delay s =
     rt_task_suspend_until cpuid task (rt_get_time s + delay) s"

definition rt_task_resume :: "nat \<Rightarrow> tid \<Rightarrow> kst \<Rightarrow> kst \<times> int" where
  "rt_task_resume cpuid t s =
     (if \<not> valid_task t s then (s, - EINVAL)
      else
        (let s1 = upd_task t (\<lambda>k. k\<lparr>suspdepth := s32 (suspdepth k - 1)\<rparr>) s in
         if suspdepth (tasks s1 t) = 0 then
           (let s2 = upd_task t (\<lambda>k. k\<lparr>state := state k AND NOT (RT_SCHED_SUSPENDED OR RT_SCHED_DELAYED)\<rparr>)
                       (rem_timed_task t s1)
            in if state (tasks s2 t) = RT_SCHED_READY
               then (RT_SCHEDULE t cpuid
                       (enq_ready_task cpuid t (upd_task t (\<lambda>k. k\<lparr>blocked_on := BNull\<rparr>) s2)), 0)
               else (s2, 0))
         else (s1, 0)))"

text \<open>The common tail of the two \<^verbatim>\<open>rt_task_make_periodic\<close> services.\<close>

definition make_periodic :: "nat \<Rightarrow> tid \<Rightarrow> int \<Rightarrow> int \<Rightarrow> kst \<Rightarrow> kst" where
  "make_periodic cpuid t start per s =
     (let s1 = upd_task t (\<lambda>k. k\<lparr>periodic_resume_time := start, resume_time := start,
                                period := per, suspdepth := 0\<rparr>) s;
          s2 = (if state (tasks s1 t) AND RT_SCHED_DELAYED = 0
                then enq_timed_task t
                       (upd_task t (\<lambda>k. k\<lparr>state := (state k AND NOT RT_SCHED_SUSPENDED) OR RT_SCHED_DELAYED\<rparr>)
                          (rem_ready_task t s1))
                else s1)
      in RT_SCHEDULE t cpuid s2)"

definition rt_task_make_periodic_relative_ns ::
  "nat \<Rightarrow> tid option \<Rightarrow> int \<Rightarrow> int \<Rightarrow> kst \<Rightarrow> (kst \<times> int) option" where
  "rt_task_make_periodic_relative_ns cpuid task start_delay per s =
     (case task_arg cpuid task s of
        None \<Rightarrow> Some (s, - EINVAL)
      | Some t \<Rightarrow>
          (case (nano2count (clock_freq (tuned s)) start_delay, nano2count (clock_freq (tuned s)) per) of
             (Some d, Some p) \<Rightarrow> Some (make_periodic cpuid t (rt_get_time s + d) p s, 0)
           | _ \<Rightarrow> None))"

definition rt_task_make_periodic :: "nat \<Rightarrow> tid option \<Rightarrow> int \<Rightarrow> int \<Rightarrow> kst \<Rightarrow> kst \<times> int" where
  "rt_task_make_periodic cpuid task start_time per s =
     (case task_arg cpuid task s of
        None \<Rightarrow> (s, - EINVAL)
      | Some t \<Rightarrow> (make_periodic cpuid t start_time per s, 0))"

text \<open>Going to sleep until the task's own \<open>resume_time\<close>: the common body of
  \<^verbatim>\<open>rt_task_wait_period\<close>, \<^verbatim>\<open>rt_sleep\<close> and \<^verbatim>\<open>rt_sleep_until\<close>.\<close>

definition go_to_sleep :: "nat \<Rightarrow> tid \<Rightarrow> kst \<Rightarrow> kst" where
  "go_to_sleep cpuid t s =
     rt_schedule cpuid
       (enq_timed_task t
          (rem_ready_current t
             (upd_task t (\<lambda>k. k\<lparr>blocked_on := BNull, state := state k OR RT_SCHED_DELAYED\<rparr>) s)))"

definition rt_task_wait_period :: "nat \<Rightarrow> kst \<Rightarrow> kst \<times> int option" where
  "rt_task_wait_period cpuid s =
     (let t = RT_CURRENT cpuid s in
      if resync_frame (tasks s t) then
        (upd_task t (\<lambda>k. k\<lparr>resync_frame := False, periodic_resume_time := tsc s, resume_time := tsc s\<rparr>) s,
         Some RTE_TMROVRN)
      else
        (let s1 = upd_task t (\<lambda>k. k\<lparr>periodic_resume_time := periodic_resume_time k + period k\<rparr>) s in
         if periodic_resume_time (tasks s1 t) > rt_smp_time_h s1 cpuid
         then (go_to_sleep cpuid t (upd_task t (\<lambda>k. k\<lparr>resume_time := periodic_resume_time k\<rparr>) s1), None)
         else (s1, Some RTE_TMROVRN)))"

definition rt_sleep_until :: "nat \<Rightarrow> int \<Rightarrow> kst \<Rightarrow> kst \<times> int option" where
  "rt_sleep_until cpuid time s =
     (let t = RT_CURRENT cpuid s; s1 = upd_task t (\<lambda>k. k\<lparr>resume_time := time\<rparr>) s in
      if time > rt_smp_time_h s1 cpuid then (go_to_sleep cpuid t s1, None)
      else (s1, Some RTE_TMROVRN))"

definition rt_sleep :: "nat \<Rightarrow> int \<Rightarrow> kst \<Rightarrow> kst \<times> int option" where
  "rt_sleep cpuid delay s = rt_sleep_until cpuid (rt_get_time s + delay) s"

text \<open>After \<^verbatim>\<open>rt_schedule\<close> in the three services.\<close>

definition rt_sleep_resume :: "tid \<Rightarrow> kst \<Rightarrow> int" where
  "rt_sleep_resume t s = (if blocked_on (tasks s t) = BNull then 0 else RTE_UNBLKD)"

definition rt_task_set_resume_end_times :: "nat \<Rightarrow> int \<Rightarrow> int \<Rightarrow> kst \<Rightarrow> kst" where
  "rt_task_set_resume_end_times cpuid resume fin s =
     (let t = RT_CURRENT cpuid s;
          s1 = upd_task t (\<lambda>k. k\<lparr>policy := -1, priority := 0,
                 resume_time := (if resume > 0 then resume else resume_time k - resume)\<rparr>) s;
          s2 = upd_task t (\<lambda>k. k\<lparr>period := (if fin > 0 then fin else resume_time k - fin),
                                 state := state k OR RT_SCHED_DELAYED\<rparr>) s1
      in rt_schedule cpuid (enq_timed_task t (rem_ready_current t s2)))"

definition rt_set_resume_time :: "tid \<Rightarrow> int \<Rightarrow> kst \<Rightarrow> kst \<times> int" where
  "rt_set_resume_time t new_resume_time s =
     (if \<not> valid_task t s then (s, - EINVAL)
      else if state (tasks s t) AND RT_SCHED_DELAYED \<noteq> 0 then
        (let s1 = upd_task t (\<lambda>k. k\<lparr>resume_time := new_resume_time\<rparr>) s;
             u = next_in (Linux (cpu_of s1 t)) t (rtimed s1 (cpu_of s1 t))
         in if new_resume_time - resume_time (tasks s1 u) > 0
            then (enq_timed_task t (rem_timed_task t s1), 0) else (s1, - ETIME))
      else (s, - ETIME))"

definition rt_set_period :: "tid \<Rightarrow> int \<Rightarrow> kst \<Rightarrow> kst \<times> int" where
  "rt_set_period t new_period s =
     (if valid_task t s then (upd_task t (\<lambda>k. k\<lparr>period := new_period\<rparr>) s, 0) else (s, - EINVAL))"

definition next_period :: "nat \<Rightarrow> kst \<Rightarrow> int" where
  "next_period cpuid s =
     (let k = tasks s (RT_CURRENT cpuid s) in periodic_resume_time k + period k)"

definition rt_task_masked_unblock_locked :: "nat \<Rightarrow> tid \<Rightarrow> u32 \<Rightarrow> kst \<Rightarrow> kst \<times> int" where
  "rt_task_masked_unblock_locked cpuid t msk s =
     (if state (tasks s t) \<noteq> 0 \<and> state (tasks s t) \<noteq> RT_SCHED_READY then
        (let s1 = (if msk AND RT_SCHED_DELAYED \<noteq> 0 then rem_timed_task t s else s);
             s2 = (if msk AND state (tasks s1 t) AND RT_SCHED_SUSPENDED \<noteq> 0 \<and> suspdepth (tasks s1 t) > 0
                   then upd_task t (\<lambda>k. k\<lparr>suspdepth := 0\<rparr>) s1 else s1);
             s3 = upd_task t (\<lambda>k. k\<lparr>state := state k AND NOT msk\<rparr>) s2
         in (if state (tasks s3 t) = RT_SCHED_READY
             then RT_SCHEDULE t cpuid
                    (enq_ready_task cpuid t (upd_task t (\<lambda>k. k\<lparr>blocked_on := BErr RT_UNBLKD\<rparr>) s3))
             else s3, RTE_UNBLKD))
      else (s, 0))"

definition rt_task_masked_unblock :: "nat \<Rightarrow> tid \<Rightarrow> u32 \<Rightarrow> kst \<Rightarrow> kst \<times> int" where
  "rt_task_masked_unblock cpuid t msk s =
     (if valid_task t s then rt_task_masked_unblock_locked cpuid t msk s else (s, - EINVAL))"

text \<open>
  \<^verbatim>\<open>rt_spv_RMS\<close>: rate-monotonic priorities for the tasks of a CPU, chosen by repeatedly
  taking the periodic task of the shortest period that has none yet (marked by priority
  -1). The task list is the \<^verbatim>\<open>next\<close> chain of the CPU's Linux task.
\<close>

fun rms_pick :: "kst \<Rightarrow> tid list \<Rightarrow> int \<Rightarrow> tid option \<Rightarrow> tid option" where
  "rms_pick s [] per htask = htask"
| "rms_pick s (t # ts) per htask =
     (let k = tasks s t in
      if priority k \<ge> 0 \<and> policy k \<ge> 0 \<and> period k \<noteq> 0 \<and> period k < per
      then rms_pick s ts (period k) (Some t) else rms_pick s ts per htask)"

fun rms_assign :: "nat \<Rightarrow> tid list \<Rightarrow> int \<Rightarrow> kst \<Rightarrow> kst" where
  "rms_assign 0 ts pr s = s"
| "rms_assign (Suc n) ts pr s =
     (case rms_pick s ts RTAI_TIME_LIMIT None of
        None \<Rightarrow> s
      | Some t \<Rightarrow> rms_assign n ts (pr + 1)
                    (upd_task t (\<lambda>k. k\<lparr>priority := -1, base_priority := pr\<rparr>) s))"

definition rms_restore :: "tid list \<Rightarrow> kst \<Rightarrow> kst" where
  "rms_restore ts s =
     fold (\<lambda>t s. if prio s t < 0 then upd_task t (\<lambda>k. k\<lparr>priority := base_priority k\<rparr>) s else s) ts s"

definition rt_spv_RMS :: "tid list \<Rightarrow> kst \<Rightarrow> kst" where
  "rt_spv_RMS ts s = rms_restore ts (rms_assign (length ts) ts 0 s)"

end
