(* ===== verification/Sched_Wf.thy ===== *)
theory Sched_Wf
  imports Sched "HOL-Library.Multiset"
begin

text \<open>
  The scheduler keeps its lists well-formed: \<open>sched_wf\<close> of theory \<open>Schedcore\<close> is
  preserved by \<^verbatim>\<open>rt_schedule\<close>, the interrupt handlers and the task services, and what
  \<^verbatim>\<open>rt_schedule\<close> chooses is a ready task of the best priority.
\<close>

section \<open>Frames\<close>

lemma set_time_h_sel [simp]:
  "tasks (set_time_h c s) = tasks s"
  "sems (set_time_h c s) = sems s"
  "qring (set_time_h c s) = qring s"
  "rready (set_time_h c s) = rready s"
  "rtimed (set_time_h c s) = rtimed s"
  "rt_smp_current (set_time_h c s) = rt_smp_current s"
  "rt_smp_time_h (set_time_h c s) = (rt_smp_time_h s)(c := tsc s + rt_half_tick s c)"
  "sched_locked (set_time_h c s) = sched_locked s"
  "sched_rqsted (set_time_h c s) = sched_rqsted s"
  "sched_ipi (set_time_h c s) = sched_ipi s"
  "wake_up_srq (set_time_h c s) = wake_up_srq s"
  "tick_time (set_time_h c s) = tick_time s"
  "intr_time (set_time_h c s) = intr_time s"
  "linux_time (set_time_h c s) = linux_time s"
  "linux_tick (set_time_h c s) = linux_tick s"
  "timer_shot_fired (set_time_h c s) = timer_shot_fired s"
  "timer_delay (set_time_h c s) = timer_delay s"
  "tsc (set_time_h c s) = tsc s"
  "tuned (set_time_h c s) = tuned s"
  "rt_half_tick (set_time_h c s) = rt_half_tick s"
  "all_tasks (set_time_h c s) = all_tasks s"
  "tasks_per_cpu (set_time_h c s) = tasks_per_cpu s"
  "rt_pid (set_time_h c s) = rt_pid s"
  "mbxs (set_time_h c s) = mbxs s"
  by (simp_all add: set_time_h_def)

lemma SET_NEXT_TIMER_SHOT_sel [simp]:
  "tasks (fst (SET_NEXT_TIMER_SHOT c t s)) = tasks s"
  "sems (fst (SET_NEXT_TIMER_SHOT c t s)) = sems s"
  "qring (fst (SET_NEXT_TIMER_SHOT c t s)) = qring s"
  "rready (fst (SET_NEXT_TIMER_SHOT c t s)) = rready s"
  "rtimed (fst (SET_NEXT_TIMER_SHOT c t s)) = rtimed s"
  "rt_smp_current (fst (SET_NEXT_TIMER_SHOT c t s)) = rt_smp_current s"
  "rt_smp_time_h (fst (SET_NEXT_TIMER_SHOT c t s)) = rt_smp_time_h s"
  "sched_locked (fst (SET_NEXT_TIMER_SHOT c t s)) = sched_locked s"
  "sched_rqsted (fst (SET_NEXT_TIMER_SHOT c t s)) = sched_rqsted s"
  "sched_ipi (fst (SET_NEXT_TIMER_SHOT c t s)) = sched_ipi s"
  "wake_up_srq (fst (SET_NEXT_TIMER_SHOT c t s)) = wake_up_srq s"
  "tick_time (fst (SET_NEXT_TIMER_SHOT c t s)) = tick_time s"
  "linux_time (fst (SET_NEXT_TIMER_SHOT c t s)) = linux_time s"
  "linux_tick (fst (SET_NEXT_TIMER_SHOT c t s)) = linux_tick s"
  "timer_shot_fired (fst (SET_NEXT_TIMER_SHOT c t s)) = timer_shot_fired s"
  "timer_delay (fst (SET_NEXT_TIMER_SHOT c t s)) = timer_delay s"
  "tsc (fst (SET_NEXT_TIMER_SHOT c t s)) = tsc s"
  "tuned (fst (SET_NEXT_TIMER_SHOT c t s)) = tuned s"
  "rt_half_tick (fst (SET_NEXT_TIMER_SHOT c t s)) = rt_half_tick s"
  "all_tasks (fst (SET_NEXT_TIMER_SHOT c t s)) = all_tasks s"
  "tasks_per_cpu (fst (SET_NEXT_TIMER_SHOT c t s)) = tasks_per_cpu s"
  "rt_pid (fst (SET_NEXT_TIMER_SHOT c t s)) = rt_pid s"
  "mbxs (fst (SET_NEXT_TIMER_SHOT c t s)) = mbxs s"
  by (auto simp: SET_NEXT_TIMER_SHOT_def Let_def split: option.split)

lemma IF_GOING_TO_LINUX_sel [simp]:
  "tasks (fst (IF_GOING_TO_LINUX_CHECK_TIMER_SHOT c p b s)) = tasks s"
  "sems (fst (IF_GOING_TO_LINUX_CHECK_TIMER_SHOT c p b s)) = sems s"
  "qring (fst (IF_GOING_TO_LINUX_CHECK_TIMER_SHOT c p b s)) = qring s"
  "rready (fst (IF_GOING_TO_LINUX_CHECK_TIMER_SHOT c p b s)) = rready s"
  "rtimed (fst (IF_GOING_TO_LINUX_CHECK_TIMER_SHOT c p b s)) = rtimed s"
  "rt_smp_current (fst (IF_GOING_TO_LINUX_CHECK_TIMER_SHOT c p b s)) = rt_smp_current s"
  "rt_smp_time_h (fst (IF_GOING_TO_LINUX_CHECK_TIMER_SHOT c p b s)) = rt_smp_time_h s"
  "sched_locked (fst (IF_GOING_TO_LINUX_CHECK_TIMER_SHOT c p b s)) = sched_locked s"
  "sched_rqsted (fst (IF_GOING_TO_LINUX_CHECK_TIMER_SHOT c p b s)) = sched_rqsted s"
  "sched_ipi (fst (IF_GOING_TO_LINUX_CHECK_TIMER_SHOT c p b s)) = sched_ipi s"
  "wake_up_srq (fst (IF_GOING_TO_LINUX_CHECK_TIMER_SHOT c p b s)) = wake_up_srq s"
  "tick_time (fst (IF_GOING_TO_LINUX_CHECK_TIMER_SHOT c p b s)) = tick_time s"
  "linux_time (fst (IF_GOING_TO_LINUX_CHECK_TIMER_SHOT c p b s)) = linux_time s"
  "linux_tick (fst (IF_GOING_TO_LINUX_CHECK_TIMER_SHOT c p b s)) = linux_tick s"
  "timer_shot_fired (fst (IF_GOING_TO_LINUX_CHECK_TIMER_SHOT c p b s)) = timer_shot_fired s"
  "timer_delay (fst (IF_GOING_TO_LINUX_CHECK_TIMER_SHOT c p b s)) = timer_delay s"
  "tsc (fst (IF_GOING_TO_LINUX_CHECK_TIMER_SHOT c p b s)) = tsc s"
  "tuned (fst (IF_GOING_TO_LINUX_CHECK_TIMER_SHOT c p b s)) = tuned s"
  "rt_half_tick (fst (IF_GOING_TO_LINUX_CHECK_TIMER_SHOT c p b s)) = rt_half_tick s"
  "all_tasks (fst (IF_GOING_TO_LINUX_CHECK_TIMER_SHOT c p b s)) = all_tasks s"
  "tasks_per_cpu (fst (IF_GOING_TO_LINUX_CHECK_TIMER_SHOT c p b s)) = tasks_per_cpu s"
  "rt_pid (fst (IF_GOING_TO_LINUX_CHECK_TIMER_SHOT c p b s)) = rt_pid s"
  "mbxs (fst (IF_GOING_TO_LINUX_CHECK_TIMER_SHOT c p b s)) = mbxs s"
  by (simp_all add: IF_GOING_TO_LINUX_CHECK_TIMER_SHOT_def)

lemma FIRE_NEXT_TIMER_SHOT_sel [simp]:
  "tasks (FIRE_NEXT_TIMER_SHOT c b d s) = tasks s"
  "sems (FIRE_NEXT_TIMER_SHOT c b d s) = sems s"
  "qring (FIRE_NEXT_TIMER_SHOT c b d s) = qring s"
  "rready (FIRE_NEXT_TIMER_SHOT c b d s) = rready s"
  "rtimed (FIRE_NEXT_TIMER_SHOT c b d s) = rtimed s"
  "rt_smp_current (FIRE_NEXT_TIMER_SHOT c b d s) = rt_smp_current s"
  "rt_smp_time_h (FIRE_NEXT_TIMER_SHOT c b d s) = rt_smp_time_h s"
  "sched_locked (FIRE_NEXT_TIMER_SHOT c b d s) = sched_locked s"
  "sched_rqsted (FIRE_NEXT_TIMER_SHOT c b d s) = sched_rqsted s"
  "sched_ipi (FIRE_NEXT_TIMER_SHOT c b d s) = sched_ipi s"
  "wake_up_srq (FIRE_NEXT_TIMER_SHOT c b d s) = wake_up_srq s"
  "tick_time (FIRE_NEXT_TIMER_SHOT c b d s) = tick_time s"
  "linux_time (FIRE_NEXT_TIMER_SHOT c b d s) = linux_time s"
  "linux_tick (FIRE_NEXT_TIMER_SHOT c b d s) = linux_tick s"
  "tsc (FIRE_NEXT_TIMER_SHOT c b d s) = tsc s"
  "tuned (FIRE_NEXT_TIMER_SHOT c b d s) = tuned s"
  "rt_half_tick (FIRE_NEXT_TIMER_SHOT c b d s) = rt_half_tick s"
  "all_tasks (FIRE_NEXT_TIMER_SHOT c b d s) = all_tasks s"
  "tasks_per_cpu (FIRE_NEXT_TIMER_SHOT c b d s) = tasks_per_cpu s"
  "rt_pid (FIRE_NEXT_TIMER_SHOT c b d s) = rt_pid s"
  "mbxs (FIRE_NEXT_TIMER_SHOT c b d s) = mbxs s"
  by (simp_all add: FIRE_NEXT_TIMER_SHOT_def Let_def)

lemma program_timer_sel [simp]:
  "tasks (program_timer c b t s) = tasks s"
  "sems (program_timer c b t s) = sems s"
  "qring (program_timer c b t s) = qring s"
  "rready (program_timer c b t s) = rready s"
  "rtimed (program_timer c b t s) = rtimed s"
  "rt_smp_current (program_timer c b t s) = rt_smp_current s"
  "rt_smp_time_h (program_timer c b t s) = rt_smp_time_h s"
  "sched_locked (program_timer c b t s) = sched_locked s"
  "sched_rqsted (program_timer c b t s) = sched_rqsted s"
  "sched_ipi (program_timer c b t s) = sched_ipi s"
  "wake_up_srq (program_timer c b t s) = wake_up_srq s"
  "tick_time (program_timer c b t s) = tick_time s"
  "linux_time (program_timer c b t s) = linux_time s"
  "linux_tick (program_timer c b t s) = linux_tick s"
  "tsc (program_timer c b t s) = tsc s"
  "tuned (program_timer c b t s) = tuned s"
  "rt_half_tick (program_timer c b t s) = rt_half_tick s"
  "all_tasks (program_timer c b t s) = all_tasks s"
  "tasks_per_cpu (program_timer c b t s) = tasks_per_cpu s"
  "rt_pid (program_timer c b t s) = rt_pid s"
  "mbxs (program_timer c b t s) = mbxs s"
  by (simp_all add: program_timer_def split_beta)

lemma switch_to_sel [simp]:
  "tasks (switch_to c t s) = tasks s"
  "sems (switch_to c t s) = sems s"
  "qring (switch_to c t s) = qring s"
  "rready (switch_to c t s) = rready s"
  "rtimed (switch_to c t s) = rtimed s"
  "rt_smp_time_h (switch_to c t s) = rt_smp_time_h s"
  "sched_locked (switch_to c t s) = sched_locked s"
  "sched_ipi (switch_to c t s) = sched_ipi s"
  "wake_up_srq (switch_to c t s) = wake_up_srq s"
  "tick_time (switch_to c t s) = tick_time s"
  "intr_time (switch_to c t s) = intr_time s"
  "linux_time (switch_to c t s) = linux_time s"
  "linux_tick (switch_to c t s) = linux_tick s"
  "timer_shot_fired (switch_to c t s) = timer_shot_fired s"
  "timer_delay (switch_to c t s) = timer_delay s"
  "tsc (switch_to c t s) = tsc s"
  "tuned (switch_to c t s) = tuned s"
  "rt_half_tick (switch_to c t s) = rt_half_tick s"
  "all_tasks (switch_to c t s) = all_tasks s"
  "tasks_per_cpu (switch_to c t s) = tasks_per_cpu s"
  "rt_pid (switch_to c t s) = rt_pid s"
  "mbxs (switch_to c t s) = mbxs s"
  by (simp_all add: switch_to_def)

lemma switch_in_irq_sel [simp]:
  "tasks (switch_in_irq c t s) = tasks s"
  "sems (switch_in_irq c t s) = sems s"
  "qring (switch_in_irq c t s) = qring s"
  "rready (switch_in_irq c t s) = rready s"
  "rtimed (switch_in_irq c t s) = rtimed s"
  "rt_smp_time_h (switch_in_irq c t s) = rt_smp_time_h s"
  "sched_locked (switch_in_irq c t s) = sched_locked s"
  "sched_ipi (switch_in_irq c t s) = sched_ipi s"
  "wake_up_srq (switch_in_irq c t s) = wake_up_srq s"
  "tick_time (switch_in_irq c t s) = tick_time s"
  "intr_time (switch_in_irq c t s) = intr_time s"
  "linux_time (switch_in_irq c t s) = linux_time s"
  "linux_tick (switch_in_irq c t s) = linux_tick s"
  "timer_shot_fired (switch_in_irq c t s) = timer_shot_fired s"
  "timer_delay (switch_in_irq c t s) = timer_delay s"
  "tsc (switch_in_irq c t s) = tsc s"
  "tuned (switch_in_irq c t s) = tuned s"
  "rt_half_tick (switch_in_irq c t s) = rt_half_tick s"
  "all_tasks (switch_in_irq c t s) = all_tasks s"
  "tasks_per_cpu (switch_in_irq c t s) = tasks_per_cpu s"
  "rt_pid (switch_in_irq c t s) = rt_pid s"
  "mbxs (switch_in_irq c t s) = mbxs s"
  by (simp_all add: switch_in_irq_def)

lemma send_sched_ipi_sel [simp]:
  "tasks (send_sched_ipi d s) = tasks s"
  "sems (send_sched_ipi d s) = sems s"
  "qring (send_sched_ipi d s) = qring s"
  "rready (send_sched_ipi d s) = rready s"
  "rtimed (send_sched_ipi d s) = rtimed s"
  "rt_smp_current (send_sched_ipi d s) = rt_smp_current s"
  "rt_smp_time_h (send_sched_ipi d s) = rt_smp_time_h s"
  "sched_locked (send_sched_ipi d s) = sched_locked s"
  "sched_rqsted (send_sched_ipi d s) = sched_rqsted s"
  "sched_ipi (send_sched_ipi d s) = sched_ipi s \<union> d"
  "wake_up_srq (send_sched_ipi d s) = wake_up_srq s"
  "tick_time (send_sched_ipi d s) = tick_time s"
  "intr_time (send_sched_ipi d s) = intr_time s"
  "linux_time (send_sched_ipi d s) = linux_time s"
  "linux_tick (send_sched_ipi d s) = linux_tick s"
  "timer_shot_fired (send_sched_ipi d s) = timer_shot_fired s"
  "timer_delay (send_sched_ipi d s) = timer_delay s"
  "tsc (send_sched_ipi d s) = tsc s"
  "tuned (send_sched_ipi d s) = tuned s"
  "rt_half_tick (send_sched_ipi d s) = rt_half_tick s"
  "all_tasks (send_sched_ipi d s) = all_tasks s"
  "tasks_per_cpu (send_sched_ipi d s) = tasks_per_cpu s"
  "rt_pid (send_sched_ipi d s) = rt_pid s"
  "mbxs (send_sched_ipi d s) = mbxs s"
  by (simp_all add: send_sched_ipi_def)

lemma SET_PEND_LINUX_TIMER_SHOT_sel [simp]:
  "tasks (SET_PEND_LINUX_TIMER_SHOT c s) = tasks s"
  "sems (SET_PEND_LINUX_TIMER_SHOT c s) = sems s"
  "qring (SET_PEND_LINUX_TIMER_SHOT c s) = qring s"
  "rready (SET_PEND_LINUX_TIMER_SHOT c s) = rready s"
  "rtimed (SET_PEND_LINUX_TIMER_SHOT c s) = rtimed s"
  "rt_smp_current (SET_PEND_LINUX_TIMER_SHOT c s) = rt_smp_current s"
  "rt_smp_time_h (SET_PEND_LINUX_TIMER_SHOT c s) = rt_smp_time_h s"
  "sched_locked (SET_PEND_LINUX_TIMER_SHOT c s) = sched_locked s"
  "sched_rqsted (SET_PEND_LINUX_TIMER_SHOT c s) = sched_rqsted s"
  "sched_ipi (SET_PEND_LINUX_TIMER_SHOT c s) = sched_ipi s"
  "wake_up_srq (SET_PEND_LINUX_TIMER_SHOT c s) = wake_up_srq s"
  "tick_time (SET_PEND_LINUX_TIMER_SHOT c s) = tick_time s"
  "intr_time (SET_PEND_LINUX_TIMER_SHOT c s) = intr_time s"
  "linux_tick (SET_PEND_LINUX_TIMER_SHOT c s) = linux_tick s"
  "timer_shot_fired (SET_PEND_LINUX_TIMER_SHOT c s) = timer_shot_fired s"
  "timer_delay (SET_PEND_LINUX_TIMER_SHOT c s) = timer_delay s"
  "tsc (SET_PEND_LINUX_TIMER_SHOT c s) = tsc s"
  "tuned (SET_PEND_LINUX_TIMER_SHOT c s) = tuned s"
  "rt_half_tick (SET_PEND_LINUX_TIMER_SHOT c s) = rt_half_tick s"
  "all_tasks (SET_PEND_LINUX_TIMER_SHOT c s) = all_tasks s"
  "tasks_per_cpu (SET_PEND_LINUX_TIMER_SHOT c s) = tasks_per_cpu s"
  "rt_pid (SET_PEND_LINUX_TIMER_SHOT c s) = rt_pid s"
  "mbxs (SET_PEND_LINUX_TIMER_SHOT c s) = mbxs s"
  by (simp_all add: SET_PEND_LINUX_TIMER_SHOT_def)

text \<open>Well-formedness is a matter of the tasks and the two lists.\<close>

lemma sched_wf_same:
  "tasks s' = tasks s \<Longrightarrow> rready s' = rready s \<Longrightarrow> rtimed s' = rtimed s \<Longrightarrow> sched_wf X Y s' = sched_wf X Y s"
  by (simp add: sched_wf_def ready_wf_def timed_wf_def prio_wf_def)

lemma sched_wf_frame [simp]:
  "sched_wf X Y (set_time_h c s) = sched_wf X Y s"
  "sched_wf X Y (program_timer c b t s) = sched_wf X Y s"
  "sched_wf X Y (switch_to c t s) = sched_wf X Y s"
  "sched_wf X Y (switch_in_irq c t s) = sched_wf X Y s"
  "sched_wf X Y (send_sched_ipi d s) = sched_wf X Y s"
  "sched_wf X Y (SET_PEND_LINUX_TIMER_SHOT c s) = sched_wf X Y s"
  "sched_wf X Y (upd_ring q g s) = sched_wf X Y s"
  "sched_wf X Y (upd_sem x h s) = sched_wf X Y s"
  "sched_wf X Y (upd_mbx mb hm s) = sched_wf X Y s"
  "sched_wf X Y (unlink_blocked t s) = sched_wf X Y s"
  "sched_wf X Y (requeue_blocked t q s) = sched_wf X Y s"
  by (rule sched_wf_same; simp)+

lemma sched_wf_fields [simp]:
  "sched_wf X Y (s\<lparr>tick_time := a\<rparr>) = sched_wf X Y s"
  "sched_wf X Y (s\<lparr>timer_shot_fired := a, intr_time := b\<rparr>) = sched_wf X Y s"
  "sched_wf X Y (s\<lparr>sched_ipi := c\<rparr>) = sched_wf X Y s"
  "sched_wf X Y (s\<lparr>sched_locked := d\<rparr>) = sched_wf X Y s"
  "sched_wf X Y (s\<lparr>sched_rqsted := e\<rparr>) = sched_wf X Y s"
  "sched_wf X Y (s\<lparr>rt_smp_current := f\<rparr>) = sched_wf X Y s"
  by (rule sched_wf_same; simp)+

lemma sched_wf_upd_iff [simp]:
  "state (f (tasks s t)) = state (tasks s t) \<Longrightarrow> runnable_on_cpus (f (tasks s t)) = cpu_of s t \<Longrightarrow>
   priority (f (tasks s t)) = prio s t \<Longrightarrow> is_hard (f (tasks s t)) = is_hard (tasks s t) \<Longrightarrow>
   resume_time (f (tasks s t)) = resume_time (tasks s t) \<Longrightarrow>
   base_priority (f (tasks s t)) = base_priority (tasks s t) \<Longrightarrow>
   policy (f (tasks s t)) = policy (tasks s t) \<Longrightarrow>
   sched_wf X Y (upd_task t f s) = sched_wf X Y s"
  by (simp add: sched_wf_def is_delayed_def)

section \<open>Round robin\<close>

lemma map_rr_shift: "map p (rr_shift p t xs) = map p xs"
proof (induction xs)
  case (Cons x xs)
  have "map p (takeWhile (\<lambda>y. p t = p y) ys) @ p t # map p (dropWhile (\<lambda>y. p t = p y) ys) = p t # map p ys"
    for ys by (induction ys) auto
  then show ?case using Cons by simp
qed simp

lemma mset_rr_shift: "mset (rr_shift p t xs) = mset xs"
proof (induction xs)
  case (Cons x xs)
  have "mset (takeWhile (\<lambda>y. p t = p y) ys) + mset (dropWhile (\<lambda>y. p t = p y) ys) = mset ys" for ys
    by (metis mset_append takeWhile_dropWhile_id)
  then show ?case using Cons by simp
qed simp

text \<open>Reordering a ready list without breaking its order.\<close>

lemma sched_wf_reorder:
  assumes wf: "sched_wf X Y s" and m: "mset (f (rready s c)) = mset (rready s c)"
    and p: "map (prio s) (f (rready s c)) = map (prio s) (rready s c)"
  shows "sched_wf X Y (upd_ready c f s)"
proof -
  have wfs: "ready_wf X s" "timed_wf Y s" "prio_wf s" using wf by (simp_all add: sched_wf_def)
  have st: "set (f (rready s c)) = set (rready s c)" using m by (metis set_mset_mset)
  have d: "distinct (f (rready s c))"
    using mset_eq_imp_distinct_iff [OF m] ready_wf_distinct [OF wfs(1), of c] by blast
  have "ready_wf X (upd_ready c f s)"
  proof (rule ready_wfI)
    show "distinct (rready (upd_ready c f s) b)" for b
      using d ready_wf_distinct [OF wfs(1), of b] by simp
    show "sorted (map (prio (upd_ready c f s)) (rready (upd_ready c f s) b))" for b
      using p ready_wf_sorted [OF wfs(1)] by simp
    show "t \<notin> X \<and> is_rt t \<and> state (tasks (upd_ready c f s) t) = RT_SCHED_READY \<and> cpu_of (upd_ready c f s) t = b"
      if "t \<in> set (rready (upd_ready c f s) b)" for b t
      using that st ready_wf_mem [OF wfs(1), of t b] by (simp split: if_splits)
    show "t \<in> set (rready (upd_ready c f s) (cpu_of (upd_ready c f s) t))"
      if "t \<notin> X" "is_rt t" "state (tasks (upd_ready c f s) t) = RT_SCHED_READY"
        "is_hard (tasks (upd_ready c f s) t) \<noteq> 0" for t
      using that st ready_wf_hard [OF wfs(1), of t] by auto
  qed
  then show ?thesis using wfs by (simp add: sched_wf_def)
qed

lemma sched_wf_RR_YIELD:
  assumes "sched_wf X Y s"
  shows "sched_wf X Y (RR_YIELD c s)"
proof -
  let ?t = "rt_smp_current s c"
  let ?s = "upd_task ?t (\<lambda>k. k\<lparr>rr_remaining := rr_quantum k\<rparr>) s"
  have "sched_wf X Y ?s" using assms by simp
  moreover have "prio ?s = prio s" by auto
  ultimately have "sched_wf X Y (upd_ready (cpu_of s ?t) (rr_shift (prio s) ?t) ?s)"
    by (intro sched_wf_reorder) (simp_all only: mset_rr_shift map_rr_shift)
  then show ?thesis using assms by (simp add: RR_YIELD_def Let_def)
qed

section \<open>Scheduling\<close>

lemma TASK_TO_SCHEDULE_fst:
  "sched_wf X Y (fst (TASK_TO_SCHEDULE c s)) = sched_wf X Y s"
  "rready (fst (TASK_TO_SCHEDULE c s)) = rready s"
  "rt_smp_current (fst (TASK_TO_SCHEDULE c s)) = rt_smp_current s"
  "sched_locked (fst (TASK_TO_SCHEDULE c s)) = sched_locked s"
  "prio (fst (TASK_TO_SCHEDULE c s)) u = prio s u"
  "snd (TASK_TO_SCHEDULE c s) = rhead s c"
  by (simp_all add: TASK_TO_SCHEDULE_def Let_def)

lemma sched_wf_rt_schedule:
  assumes "sched_wf {} {} s"
  shows "sched_wf {} {} (rt_schedule c s)"
  using assms
  by (simp add: rt_schedule_def split_beta TASK_TO_SCHEDULE_fst sched_wf_wake_up sched_wf_RR_YIELD)

lemma sched_wf_ipi:
  assumes "sched_wf {} {} s"
  shows "sched_wf {} {} (rt_schedule_on_schedule_ipi c s)"
  using assms
  by (simp add: rt_schedule_on_schedule_ipi_def Let_def split_beta TASK_TO_SCHEDULE_fst sched_wf_wake_up
      sched_wf_RR_YIELD)

lemma sched_wf_rt_timer_handler:
  assumes "sched_wf {} {} s"
  shows "sched_wf {} {} (rt_timer_handler c s)"
  using assms
  by (simp add: rt_timer_handler_def Let_def split_beta TASK_TO_SCHEDULE_fst sched_wf_wake_up
      sched_wf_RR_YIELD)

lemma sched_wf_CALL_TIMER_HANDLER: "sched_wf {} {} s \<Longrightarrow> sched_wf {} {} (CALL_TIMER_HANDLER c s)"
proof -
  assume "sched_wf {} {} s"
  then have "sched_wf {} {} (s\<lparr>timer_shot_fired := f\<rparr>)" for f by (subst sched_wf_same) simp_all
  then show ?thesis using \<open>sched_wf {} {} s\<close> by (simp add: CALL_TIMER_HANDLER_def sched_wf_rt_timer_handler)
qed

section \<open>Moving one task\<close>

lemma sched_wf_leave: "sched_wf X Y s \<Longrightarrow> sched_wf (insert t X) Y (rem_ready_current t s)"
  by (simp add: sched_wf_def ready_wf_rem_ready)

lemma sched_wf_leave_task: "sched_wf X Y s \<Longrightarrow> sched_wf (insert t X) Y (rem_ready_task t s)"
  using sched_wf_leave [of X Y s t]
  by (auto simp: rem_ready_task_def sched_wf_def ready_wf_insert)

lemma sched_wf_unlink: "sched_wf X Y s \<Longrightarrow> sched_wf (insert t X) Y (unlink_ready t s)"
  by (simp add: sched_wf_def ready_wf_unlink)

lemma sched_wf_untime: "sched_wf X Y s \<Longrightarrow> sched_wf X (insert t Y) (rem_timed_task t s)"
  by (simp add: sched_wf_def timed_wf_rem)

lemma sched_wf_enq:
  "sched_wf X Y s \<Longrightarrow> t \<in> X \<Longrightarrow> is_rt t \<Longrightarrow> state (tasks s t) = RT_SCHED_READY \<Longrightarrow>
   sched_wf (X - {t}) Y (enq_ready_task c t s)"
  by (simp add: sched_wf_def ready_wf_enq)

lemma sched_wf_time:
  "sched_wf X Y s \<Longrightarrow> t \<in> Y \<Longrightarrow> is_rt t \<Longrightarrow> is_delayed (tasks s t) \<Longrightarrow>
   sched_wf X (Y - {t}) (enq_timed_task t s)"
  by (simp add: sched_wf_def timed_wf_enq)

lemma sched_wf_ready_iff:
  "state (tasks s t) \<noteq> RT_SCHED_READY \<or> \<not> is_rt t \<Longrightarrow> sched_wf (insert t X) Y s = sched_wf X Y s"
  by (simp add: sched_wf_def ready_wf_insert)

lemma sched_wf_timed_iff:
  "\<not> is_delayed (tasks s t) \<or> \<not> is_rt t \<Longrightarrow> sched_wf X (insert t Y) s = sched_wf X Y s"
  by (simp add: sched_wf_def timed_wf_insert)

text \<open>A task out of both lists may be changed at will, as long as its priorities stay legal.\<close>

lemma sched_wf_in_flight:
  "sched_wf X Y s \<Longrightarrow> t \<in> X \<Longrightarrow> t \<in> Y \<Longrightarrow> 0 \<le> priority (f (tasks s t)) \<Longrightarrow>
   0 \<le> base_priority (f (tasks s t)) \<Longrightarrow> 0 \<le> policy (f (tasks s t)) \<Longrightarrow> sched_wf X Y (upd_task t f s)"
  by (simp add: sched_wf_def ready_wf_in_flight timed_wf_in_flight prio_wf_upd)

text \<open>A change of state of a task that is out of the ready list and not, or no longer,
  delayed.\<close>

lemma sched_wf_set_state:
  "sched_wf X Y s \<Longrightarrow> t \<in> X \<Longrightarrow>
   (v AND RT_SCHED_DELAYED \<noteq> 0) = is_delayed (tasks s t) \<Longrightarrow>
   sched_wf X Y (upd_task t (\<lambda>k. k\<lparr>state := v\<rparr>) s)"
  by (simp add: sched_wf_def ready_wf_in_flight is_delayed_def)

lemma sched_wf_prios:
  "sched_wf X Y s \<Longrightarrow> 0 \<le> prio s t" "sched_wf X Y s \<Longrightarrow> 0 \<le> base_priority (tasks s t)"
  "sched_wf X Y s \<Longrightarrow> 0 \<le> policy (tasks s t)"
  by (simp_all add: sched_wf_def prio_wf_def)

lemma sched_wf_upd_awake:
  assumes wf: "sched_wf X Y s" and nd: "\<not> is_delayed (tasks s t)"
    and f: "state (f (tasks s t)) = state (tasks s t)" "runnable_on_cpus (f (tasks s t)) = cpu_of s t"
      "priority (f (tasks s t)) = prio s t" "is_hard (f (tasks s t)) = is_hard (tasks s t)"
      "base_priority (f (tasks s t)) = base_priority (tasks s t)" "policy (f (tasks s t)) = policy (tasks s t)"
  shows "sched_wf X Y (upd_task t f s)"
proof -
  have "timed_wf (insert t Y) (upd_task t f s)"
    using wf nd by (intro timed_wf_in_flight) (simp_all add: timed_wf_insert sched_wf_def)
  then have "timed_wf Y (upd_task t f s)"
    using nd by (subst (asm) timed_wf_insert) (simp_all add: is_delayed_def f)
  then show ?thesis using wf f by (simp add: sched_wf_def)
qed

text \<open>Taking a task out of the ready list does not depend on its state.\<close>

lemma rem_ready_current_upd:
  assumes "\<And>k. is_hard (f k) = is_hard k" "\<And>k. runnable_on_cpus (f k) = runnable_on_cpus k"
    "\<And>k. f (k\<lparr>lnx_soft_sleep := True\<rparr>) = (f k)\<lparr>lnx_soft_sleep := True\<rparr>"
  shows "rem_ready_current t (upd_task t f s) = upd_task t f (rem_ready_current t s)"
  using assms by (simp add: rem_ready_current_def unlink_ready_def non_rtai_task_suspend_def
      upd_task_def upd_ready_def)

lemma unlink_ready_upd:
  "(\<And>k. runnable_on_cpus (f k) = runnable_on_cpus k) \<Longrightarrow>
   unlink_ready t (upd_task t f s) = upd_task t f (unlink_ready t s)"
  by (simp add: unlink_ready_def upd_task_def upd_ready_def)

lemma upd_task_twice: "upd_task t g (upd_task t f s) = upd_task t (\<lambda>k. g (f k)) s"
  by (simp add: upd_task_def)

text \<open>A task that stops waiting: either nothing is left in its state but
  \<^verbatim>\<open>RT_SCHED_READY\<close> and it enters the ready list, or it still waits for something else.\<close>

lemma sched_wf_release:
  assumes wf: "sched_wf X (insert t Y) s" and t: "is_rt t" "t \<notin> X" "state (tasks s t) \<noteq> RT_SCHED_READY"
    and f: "priority (f (tasks s t)) = prio s t" "base_priority (f (tasks s t)) = base_priority (tasks s t)"
      "policy (f (tasks s t)) = policy (tasks s t)" "\<not> is_delayed (f (tasks s t))"
  shows "state (f (tasks s t)) = RT_SCHED_READY \<Longrightarrow> sched_wf X Y (enq_ready_task c t (upd_task t f s))"
    and "state (f (tasks s t)) \<noteq> RT_SCHED_READY \<Longrightarrow> sched_wf X Y (upd_task t f s)"
proof -
  have "sched_wf (insert t X) (insert t Y) s" using wf t by (simp add: sched_wf_ready_iff)
  then have "sched_wf (insert t X) (insert t Y) (upd_task t f s)"
    by (intro sched_wf_in_flight) (simp_all add: f sched_wf_prios [OF wf])
  then have wf': "sched_wf (insert t X) Y (upd_task t f s)" by (simp add: sched_wf_timed_iff f)
  show "state (f (tasks s t)) = RT_SCHED_READY \<Longrightarrow> sched_wf X Y (enq_ready_task c t (upd_task t f s))"
    using sched_wf_enq [OF wf', of t c] t by simp
  show "state (f (tasks s t)) \<noteq> RT_SCHED_READY \<Longrightarrow> sched_wf X Y (upd_task t f s)"
    using wf' by (simp add: sched_wf_ready_iff)
qed

section \<open>Task services\<close>

text \<open>A service is called by a ready real-time task of the CPU that executes it.\<close>

definition running_ok :: "nat \<Rightarrow> kst \<Rightarrow> bool" where
  "running_ok c s \<longleftrightarrow> is_rt (rt_smp_current s c) \<and> state (tasks s (rt_smp_current s c)) = RT_SCHED_READY \<and>
     cpu_of s (rt_smp_current s c) = c"

lemma sched_wf_requests [simp]:
  "sched_wf {} {} s \<Longrightarrow> sched_wf {} {} (RT_SCHEDULE t c s)"
  "sched_wf {} {} s \<Longrightarrow> sched_wf {} {} (RT_SCHEDULE_BOTH t c s)"
  "sched_wf {} {} s \<Longrightarrow> sched_wf {} {} (RT_SCHEDULE_MAP m s)"
  "sched_wf {} {} s \<Longrightarrow> sched_wf {} {} (RT_SCHEDULE_MAP_BOTH c m s)"
  by (simp_all add: RT_SCHEDULE_def RT_SCHEDULE_BOTH_def RT_SCHEDULE_MAP_def RT_SCHEDULE_MAP_BOTH_def
      sched_wf_rt_schedule)

lemma ready_not_delayed: "state k = RT_SCHED_READY \<Longrightarrow> \<not> is_delayed k"
  by (simp add: is_delayed_def)

lemma or_bit_not_ready: "RT_SCHED_READY AND m \<noteq> m \<Longrightarrow> (v :: u32) OR m \<noteq> RT_SCHED_READY"
  by (metis word_ao_absorbs(5))

text \<open>The core of every timed wait: the caller leaves the ready list and enters the timed list
  with new state bits and a new resume time.\<close>

lemma sched_wf_delay_current:
  assumes wf: "sched_wf {} {} s" and t: "is_rt t" "\<not> is_delayed (tasks s t)"
    and f: "\<And>k. priority (f k) = priority k" "\<And>k. base_priority (f k) = base_priority k"
      "\<And>k. policy (f k) = policy k" "\<And>k. is_delayed (f k)"
  shows "sched_wf {} {} (enq_timed_task t (upd_task t f (rem_ready_current t s)))"
proof -
  let ?s = "upd_task t f (rem_ready_current t s)"
  have "\<not> is_delayed (tasks (rem_ready_current t s) t)" using t(2) by (simp add: is_delayed_def)
  then have "sched_wf {t} {t} (rem_ready_current t s)"
    using sched_wf_leave [OF wf] by (simp add: sched_wf_timed_iff)
  then have "sched_wf {t} {t} ?s"
    by (intro sched_wf_in_flight) (simp_all add: f sched_wf_prios [OF wf] split: if_split)
  then have "sched_wf {t} ({t} - {t}) (enq_timed_task t ?s)" by (rule sched_wf_time) (simp_all add: t f)
  then have "sched_wf {t} {} (enq_timed_task t ?s)" by simp
  moreover have "state (tasks (enq_timed_task t ?s) t) \<noteq> RT_SCHED_READY"
    using delayed_not_ready [OF f(4)] by simp
  ultimately show ?thesis by (simp add: sched_wf_ready_iff)
qed

lemma sched_wf_go_to_sleep:
  assumes "sched_wf {} {} s" "is_rt t" "\<not> is_delayed (tasks s t)"
  shows "sched_wf {} {} (go_to_sleep c t s)"
  unfolding go_to_sleep_def
  by (subst rem_ready_current_upd)
    (use assms in \<open>simp_all add: sched_wf_rt_schedule sched_wf_delay_current is_delayed_def bit.conj_disj_distrib2\<close>)

lemma sched_wf_rt_sleep_until:
  assumes "sched_wf {} {} s" "running_ok c s"
  shows "sched_wf {} {} (fst (rt_sleep_until c time s))"
  using assms by (auto simp: rt_sleep_until_def Let_def running_ok_def is_delayed_def
      intro!: sched_wf_go_to_sleep sched_wf_upd_awake)

lemma sched_wf_rt_task_wait_period:
  assumes "sched_wf {} {} s" "running_ok c s"
  shows "sched_wf {} {} (fst (rt_task_wait_period c s))"
  using assms by (auto simp: rt_task_wait_period_def Let_def running_ok_def is_delayed_def
      intro!: sched_wf_go_to_sleep sched_wf_upd_awake)

text \<open>The core of an untimed wait.\<close>

lemma sched_wf_block_current:
  assumes wf: "sched_wf {} Y s" and m: "RT_SCHED_READY AND m \<noteq> m" "m AND RT_SCHED_DELAYED = 0"
  shows "sched_wf {} Y (upd_task t (\<lambda>k. k\<lparr>state := state k OR m\<rparr>) (rem_ready_current t s))"
proof -
  let ?s = "upd_task t (\<lambda>k. k\<lparr>state := state k OR m\<rparr>) (rem_ready_current t s)"
  have "sched_wf {t} Y ?s"
    using sched_wf_leave [OF wf, of t] m(2)
    by (simp add: sched_wf_def ready_wf_in_flight is_delayed_def bit.conj_disj_distrib2)
  moreover have "state (tasks ?s t) \<noteq> RT_SCHED_READY" using or_bit_not_ready [OF m(1)] by simp
  ultimately show ?thesis by (simp add: sched_wf_ready_iff)
qed

lemma sched_wf_block_task:
  assumes wf: "sched_wf {} Y s" and m: "RT_SCHED_READY AND m \<noteq> m" "m AND RT_SCHED_DELAYED = 0"
  shows "sched_wf {} Y (upd_task t (\<lambda>k. k\<lparr>state := state k OR m\<rparr>) (rem_ready_task t s))"
proof -
  let ?s = "upd_task t (\<lambda>k. k\<lparr>state := state k OR m\<rparr>) (rem_ready_task t s)"
  have "sched_wf {t} Y ?s"
    using sched_wf_leave_task [OF wf, of t] m(2)
    by (simp add: sched_wf_def ready_wf_in_flight is_delayed_def bit.conj_disj_distrib2)
  moreover have "state (tasks ?s t) \<noteq> RT_SCHED_READY" using or_bit_not_ready [OF m(1)] by simp
  ultimately show ?thesis by (simp add: sched_wf_ready_iff)
qed

lemma rem_timed_idle: "\<not> is_delayed (tasks s t) \<Longrightarrow> rem_timed_task t s = s"
  by (simp add: rem_timed_task_def is_delayed_def)

lemma rem_ready_task_fields [simp]:
  "is_delayed (tasks (rem_ready_task t s) u) = is_delayed (tasks s u)"
  "state (tasks (rem_ready_task t s) u) = state (tasks s u)"
  "cpu_of (rem_ready_task t s) u = cpu_of s u"
  by (simp_all add: rem_ready_task_def is_delayed_def)

lemma sched_wf_rt_task_suspend:
  assumes wf: "sched_wf {} {} s"
    and nd: "\<And>t. task_arg c task s = Some t \<Longrightarrow> t \<noteq> rt_smp_current s c \<Longrightarrow> \<not> is_delayed (tasks s t)"
  shows "sched_wf {} {} (fst (rt_task_suspend c task s))"
proof (cases "task_arg c task s")
  case (Some t)
  have m: "RT_SCHED_READY AND RT_SCHED_SUSPENDED \<noteq> RT_SCHED_SUSPENDED"
    "RT_SCHED_SUSPENDED AND RT_SCHED_DELAYED = 0" by simp_all
  have cur: "sched_wf {} {} (upd_task t (\<lambda>k. k\<lparr>state := state k OR RT_SCHED_SUSPENDED\<rparr>)
      (rem_ready_current t (upd_task t (\<lambda>k. k\<lparr>blocked_on := b\<rparr>) (upd_task t (\<lambda>k. k\<lparr>suspdepth := 1\<rparr>) s))))" for b
    by (rule sched_wf_block_current [OF _ m]) (use wf in simp)
  let ?s1 = "upd_task t (\<lambda>k. k\<lparr>suspdepth := 1\<rparr>) s"
  have oth: "sched_wf {} {} (upd_task t (\<lambda>k. k\<lparr>state := state k OR RT_SCHED_SUSPENDED\<rparr>)
      (rem_timed_task t (rem_ready_task t ?s1)))" if "t \<noteq> rt_smp_current s c"
  proof -
    have "rem_timed_task t (rem_ready_task t ?s1) = rem_ready_task t ?s1"
      using nd [OF Some that] by (intro rem_timed_idle) (simp add: is_delayed_def)
    then show ?thesis using sched_wf_block_task [OF _ m, of "{}" ?s1 t] wf by simp
  qed
  show ?thesis using Some wf cur oth
    by (auto simp: rt_task_suspend_def Let_def intro!: sched_wf_rt_schedule)
qed (use wf in \<open>simp add: rt_task_suspend_def\<close>)

lemma sched_wf_rt_task_resume:
  assumes wf: "sched_wf {} {} s" and t: "is_rt t"
    and susp: "s32 (suspdepth (tasks s t) - 1) = 0 \<Longrightarrow> state (tasks s t) \<noteq> RT_SCHED_READY"
  shows "sched_wf {} {} (fst (rt_task_resume c t s))"
proof -
  let ?s1 = "upd_task t (\<lambda>k. k\<lparr>suspdepth := s32 (suspdepth k - 1)\<rparr>) s"
  let ?m = "RT_SCHED_SUSPENDED OR RT_SCHED_DELAYED :: u32"
  have wf1: "sched_wf {} {} ?s1" using wf by simp
  have wf2: "sched_wf {} {t} (rem_timed_task t ?s1)" by (rule sched_wf_untime [OF wf1])
  have nd: "\<not> is_delayed (k\<lparr>state := state k AND NOT ?m\<rparr>)" for k
    by (simp add: is_delayed_def and.assoc)
  note rel = sched_wf_release [OF wf2 t]
  have "sched_wf {} {} (fst (rt_task_resume c t s))" if "s32 (suspdepth (tasks s t) - 1) = 0"
  proof -
    have nr: "state (tasks s t) \<noteq> RT_SCHED_READY"
      using susp that by blast
    show ?thesis
      using rel(1) [where f = "\<lambda>k. k\<lparr>state := state k AND NOT ?m, blocked_on := BNull\<rparr>"]
        rel(2) [where f = "\<lambda>k. k\<lparr>state := state k AND NOT ?m\<rparr>"] nd nr that wf
      by (simp add: rt_task_resume_def Let_def upd_task_twice is_delayed_def)
  qed
  then show ?thesis using wf1 by (auto simp: rt_task_resume_def Let_def wf)
qed

lemma sched_wf_delay_task:
  assumes wf: "sched_wf {} {} s" and t: "is_rt t" "\<not> is_delayed (tasks s t)"
    and f: "\<And>k. priority (f k) = priority k" "\<And>k. base_priority (f k) = base_priority k"
      "\<And>k. policy (f k) = policy k" "\<And>k. is_delayed (f k)"
  shows "sched_wf {} {} (enq_timed_task t (upd_task t f (rem_ready_task t s)))"
proof (cases "state (tasks s t) = RT_SCHED_READY")
  case True
  then show ?thesis using sched_wf_delay_current [OF wf t f] by (simp add: rem_ready_task_def)
next
  case False
  have "sched_wf {t} {t} s" using wf t False by (simp add: sched_wf_timed_iff sched_wf_ready_iff)
  then have "sched_wf {t} {t} (upd_task t f s)"
    by (intro sched_wf_in_flight) (simp_all add: f sched_wf_prios [OF wf])
  then have "sched_wf {t} ({t} - {t}) (enq_timed_task t (upd_task t f s))"
    by (rule sched_wf_time) (simp_all add: t f)
  then show ?thesis using False delayed_not_ready [OF f(4)]
    by (simp add: sched_wf_ready_iff rem_ready_task_def)
qed

text \<open>Entering the timed list does not depend on the state bits.\<close>

lemma enq_timed_task_upd:
  assumes "\<And>k. resume_time (f k) = resume_time k" "\<And>k. runnable_on_cpus (f k) = runnable_on_cpus k"
  shows "upd_task t f (enq_timed_task t s) = enq_timed_task t (upd_task t f s)"
proof -
  have "resume_time (tasks (upd_task t f s) x) = resume_time (tasks s x)"
    "cpu_of (upd_task t f s) x = cpu_of s x" for x using assms by simp_all
  then have "enq_timed_task t (upd_task t f s) = upd_timed (cpu_of s t)
      (queue_ins (\<lambda>x. \<not> resume_time (tasks s t) > resume_time (tasks s x)) t) (upd_task t f s)"
    unfolding enq_timed_task_def by (simp only:)
  then show ?thesis by (simp add: enq_timed_task_def upd_timed_def upd_task_def)
qed

lemma sched_wf_make_periodic:
  assumes "sched_wf {} {} s" "is_rt t" "\<not> is_delayed (tasks s t)"
  shows "sched_wf {} {} (make_periodic c t start per s)"
proof -
  let ?s1 = "upd_task t (\<lambda>k. k\<lparr>periodic_resume_time := start, resume_time := start,
                                period := per, suspdepth := 0\<rparr>) s"
  have "sched_wf {} {} ?s1" using assms by (auto intro!: sched_wf_upd_awake)
  then have "sched_wf {} {} (enq_timed_task t
      (upd_task t (\<lambda>k. k\<lparr>state := (state k AND NOT RT_SCHED_SUSPENDED) OR RT_SCHED_DELAYED\<rparr>) (rem_ready_task t ?s1)))"
    using assms by (intro sched_wf_delay_task) (simp_all add: is_delayed_def bit.conj_disj_distrib2)
  then show ?thesis using assms(3) by (simp add: make_periodic_def Let_def is_delayed_def)
qed

lemma sched_wf_rt_task_suspend_until:
  assumes wf: "sched_wf {} {} s"
    and arg: "\<And>t. task_arg c task s = Some t \<Longrightarrow> is_rt t \<and> \<not> is_delayed (tasks s t)"
  shows "sched_wf {} {} (fst (rt_task_suspend_until c task time s))"
proof (cases "task_arg c task s")
  case (Some t)
  have t: "is_rt t" "\<not> is_delayed (tasks s t)" using arg [OF Some] by auto
  let ?s2 = "upd_task t (\<lambda>k. k\<lparr>suspdepth := 1\<rparr>) (upd_task t (\<lambda>k. k\<lparr>resume_time := time\<rparr>) s)"
  let ?b = "upd_task t (\<lambda>k. k\<lparr>blocked_on := BTask t\<rparr>)"
  let ?f = "\<lambda>k. k\<lparr>state := state k OR (RT_SCHED_SUSPENDED OR RT_SCHED_DELAYED)\<rparr>"
  have wf1: "sched_wf {} {} (upd_task t (\<lambda>k. k\<lparr>resume_time := time\<rparr>) s)"
    using wf t by (auto intro!: sched_wf_upd_awake)
  then have wf2: "sched_wf {} {} ?s2" "sched_wf {} {} (?b ?s2)" by simp_all
  have nd: "\<not> is_delayed (tasks ?s2 t)" "\<not> is_delayed (tasks (?b ?s2) t)"
    using t by (simp_all add: is_delayed_def)
  have del: "is_delayed (?f k)" for k :: rt_task by (simp add: is_delayed_def bit.conj_disj_distrib2)
  have cur: "sched_wf {} {} (upd_task t ?f (enq_timed_task t (rem_ready_current t (?b ?s2))))"
    by (subst enq_timed_task_upd) (use sched_wf_delay_current [OF wf2(2) t(1) nd(2), of ?f] del in simp_all)
  have oth: "sched_wf {} {} (upd_task t ?f (enq_timed_task t (rem_ready_task t ?s2)))"
    by (subst enq_timed_task_upd) (use sched_wf_delay_task [OF wf2(1) t(1) nd(1), of ?f] del in simp_all)
  show ?thesis using Some wf wf1 cur oth nd
    by (auto simp: rt_task_suspend_until_def Let_def is_delayed_def intro!: sched_wf_rt_schedule)
qed (use wf in \<open>simp add: rt_task_suspend_until_def\<close>)

lemma is_delayed_bit: "is_delayed k \<longleftrightarrow> bit (state k) 2"
  using and_exp_eq_0_iff_not_bit [of "state k" 2] by (simp add: is_delayed_def)

lemma sched_wf_masked_unblock:
  assumes wf: "sched_wf {} {} s" and t: "is_rt t"
  shows "sched_wf {} {} (fst (rt_task_masked_unblock c t msk s))"
proof -
  let ?k = "tasks s t"
  define u where "u = (if msk AND state ?k AND RT_SCHED_SUSPENDED \<noteq> 0 \<and> suspdepth ?k > 0 then 0 else suspdepth ?k)"
  let ?f = "\<lambda>k. k\<lparr>suspdepth := u, state := state k AND NOT msk\<rparr>"
  let ?g = "\<lambda>k. k\<lparr>suspdepth := u, state := state k AND NOT msk, blocked_on := BErr RT_UNBLKD\<rparr>"
  have m: "msk AND RT_SCHED_DELAYED = 0 \<longleftrightarrow> \<not> bit msk 2"
    using and_exp_eq_0_iff_not_bit [of msk 2] by simp
  have eq: "fst (rt_task_masked_unblock_locked c t msk s) =
      (let s1 = (if msk AND RT_SCHED_DELAYED \<noteq> 0 then rem_timed_task t s else s) in
       if state (?f ?k) = RT_SCHED_READY then RT_SCHEDULE t c (enq_ready_task c t (upd_task t ?g s1))
       else upd_task t ?f s1)" if "state ?k \<noteq> 0" "state ?k \<noteq> RT_SCHED_READY"
    using that by (auto simp: rt_task_masked_unblock_locked_def Let_def upd_task_twice upd_task_def u_def)
  have "sched_wf {} {} (fst (rt_task_masked_unblock_locked c t msk s))"
  proof (cases "state ?k = 0 \<or> state ?k = RT_SCHED_READY")
    case False
    have "sched_wf {} {} (if state (?f ?k) = RT_SCHED_READY then enq_ready_task c t (upd_task t ?g s1)
        else upd_task t ?f s1)" if s1: "s1 = (if msk AND RT_SCHED_DELAYED \<noteq> 0 then rem_timed_task t s else s)" for s1
    proof (cases "msk AND RT_SCHED_DELAYED = 0 \<and> is_delayed ?k")
      case True
      then have wf1: "sched_wf {t} {} s" using wf False by (simp add: sched_wf_ready_iff)
      have d: "is_delayed (?f ?k)"
        using True m by (simp add: is_delayed_bit bit_and_iff bit_not_iff)
      then have "sched_wf {t} {} (upd_task t ?f s)"
        using wf1 True by (simp add: sched_wf_def ready_wf_in_flight)
      moreover have "state (?f ?k) \<noteq> RT_SCHED_READY" by (rule delayed_not_ready [OF d])
      ultimately show ?thesis using s1 True by (simp add: sched_wf_ready_iff)
    next
      case nd: False
      then have wf1: "sched_wf {} {t} s1"
        using sched_wf_untime [OF wf, of t] wf by (auto simp: s1 sched_wf_timed_iff)
      have "\<not> is_delayed (?f ?k)" "\<not> is_delayed (?g ?k)"
        using nd m by (auto simp: is_delayed_bit bit_and_iff bit_not_iff)
      moreover have "tasks s1 = tasks s" by (simp add: s1)
      ultimately show ?thesis
        using sched_wf_release(2) [OF wf1 t, of ?f] sched_wf_release(1) [OF wf1 t, of ?g c] False by simp
    qed
    from this [OF refl] show ?thesis using False by (simp add: eq Let_def split: if_splits)
  qed (use wf in \<open>auto simp: rt_task_masked_unblock_locked_def\<close>)
  then show ?thesis using wf by (simp add: rt_task_masked_unblock_def)
qed

lemma sched_wf_rt_task_yield:
  assumes "sched_wf {} {} s"
  shows "sched_wf {} {} (rt_task_yield c s)"
proof -
  let ?t = "rt_smp_current s c"
  have "sched_wf {} {} (upd_ready (cpu_of s ?t) (\<lambda>_. rr_shift (prio s) ?t (rready s (cpu_of s ?t))) s)"
    using assms by (rule sched_wf_reorder) (simp_all only: mset_rr_shift map_rr_shift)
  then show ?thesis using assms by (simp add: rt_task_yield_def Let_def sched_wf_rt_schedule)
qed

lemma sched_wf_lock: "sched_wf {} {} s \<Longrightarrow> sched_wf {} {} (rt_sched_lock c s)"
  by (simp add: rt_sched_lock_def Let_def)

lemma sched_wf_unlock: "sched_wf {} {} s \<Longrightarrow> sched_wf {} {} (rt_sched_unlock c s)"
  by (simp add: rt_sched_unlock_def Let_def sched_wf_rt_schedule)

lemma sched_wf_rt_set_sched_policy:
  assumes "sched_wf X Y s" "rt_set_sched_policy c task pol rr s = Some s'"
  shows "sched_wf X Y s'"
  using assms by (auto simp: rt_set_sched_policy_def Let_def sched_wf_def is_delayed_def
      split: if_splits option.splits intro!: prio_wf_upd dest: prio_wfD)

section \<open>Changing priorities\<close>

lemma prev_in_split: "t \<notin> set a \<Longrightarrow> prev_in q t (a @ t # b) = last (q # a)"
  by (induction a arbitrary: q) auto

lemma next_in_split: "t \<notin> set a \<Longrightarrow> next_in q t (a @ t # b) = (case b of [] \<Rightarrow> q | y # _ \<Rightarrow> y)"
  by (induction a) auto

lemma sorted_map_upd:
  assumes s: "sorted (map p (a @ t # b))" and t: "t \<notin> set a" "t \<notin> set b"
    and le: "a = [] \<or> p (last a) \<le> v" "b = [] \<or> v \<le> p (hd b)"
  shows "sorted (map (p(t := v)) (a @ t # b))"
proof -
  have eq: "map (p(t := v)) a = map p a" "map (p(t := v)) b = map p b" using t by auto
  have "\<forall>x \<in> set a. p x \<le> v"
  proof (cases a rule: rev_cases)
    case (snoc a' y)
    then have "\<forall>x \<in> set a'. p x \<le> p y" using s by (auto simp: sorted_append)
    then show ?thesis using le(1) snoc by auto
  qed simp
  moreover have "\<forall>y \<in> set b. v \<le> p y"
  proof (cases b)
    case (Cons y b')
    then have "\<forall>z \<in> set b'. p y \<le> p z" using s by (simp add: sorted_append)
    then show ?thesis using le(2) Cons by auto
  qed simp
  ultimately have "sorted (map p a @ v # map p b)" using s by (auto simp: sorted_append)
  moreover have "map (p(t := v)) (a @ t # b) = map p a @ v # map p b" using eq by simp
  ultimately show ?thesis by (simp only:)
qed

text \<open>The neighbour test of \<^verbatim>\<open>pass_prio\<close> and \<^verbatim>\<open>rt_change_prio\<close> decides exactly when
  the list is still in order.\<close>

lemma ready_wf_in_place:
  assumes wf: "ready_wf X s" and t: "t \<in> set (rready s (cpu_of s t))"
    and s1: "s1 = upd_task t (\<lambda>k. k\<lparr>priority := v\<rparr>) s"
    and ord: "\<not> prio s1 (prev_in (Linux (cpu_of s t)) t (rready s (cpu_of s t))) > v"
      "\<not> prio s1 (next_in (Linux (cpu_of s t)) t (rready s (cpu_of s t))) < v"
  shows "ready_wf X s1"
proof (rule ready_wfI)
  let ?c = "cpu_of s t"
  obtain a b where ab: "rready s ?c = a @ t # b" using split_list [OF t] by blast
  have d: "distinct (a @ t # b)" using ready_wf_distinct [OF wf, of ?c] ab by simp
  have mem: "u \<notin> X \<and> is_rt u \<and> state (tasks s u) = RT_SCHED_READY \<and> cpu_of s u = c"
    if "u \<in> set (rready s c)" for u c using ready_wf_mem [OF wf that] .
  have p: "prio s1 = (prio s)(t := v)" and r: "rready s1 = rready s" by (auto simp: s1)
  have "sorted (map ((prio s)(t := v)) (a @ t # b))"
  proof (rule sorted_map_upd)
    show "sorted (map (prio s) (a @ t # b))" using ready_wf_sorted [OF wf, of ?c] ab by simp
    show "t \<notin> set a" "t \<notin> set b" using d by auto
    then have "a \<noteq> [] \<Longrightarrow> last a \<noteq> t" "b \<noteq> [] \<Longrightarrow> hd b \<noteq> t" by (auto dest: last_in_set hd_in_set)
    then show "a = [] \<or> prio s (last a) \<le> v" "b = [] \<or> v \<le> prio s (hd b)"
      using ord \<open>t \<notin> set a\<close>
      by (auto simp: ab s1 prev_in_split next_in_split split: list.splits if_splits)
  qed
  moreover have "sorted (map ((prio s)(t := v)) (rready s c))" if "c \<noteq> ?c" for c
    using mem that by (intro sorted_map_cong [OF ready_wf_sorted [OF wf]]) auto
  ultimately show "sorted (map (prio s1) (rready s1 c))" for c
    unfolding p r by (cases "c = ?c") (simp_all only: ab)
  show "distinct (rready s1 c)" for c using ready_wf_distinct [OF wf] by (simp add: s1)
  show "u \<notin> X \<and> is_rt u \<and> state (tasks s1 u) = RT_SCHED_READY \<and> cpu_of s1 u = c"
    if "u \<in> set (rready s1 c)" for c u using that mem [of u c] by (auto simp: s1)
  show "u \<in> set (rready s1 (cpu_of s1 u))"
    if "u \<notin> X" "is_rt u" "state (tasks s1 u) = RT_SCHED_READY" "is_hard (tasks s1 u) \<noteq> 0" for u
    using that ready_wf_hard [OF wf, of u] by (auto simp: s1 split: if_splits)
qed

lemma ready_wf_absent:
  assumes wf: "ready_wf X s" and t: "\<And>c. t \<notin> set (rready s c)"
  shows "ready_wf (insert t X) s"
proof (rule ready_wfI [OF ready_wf_distinct [OF wf] ready_wf_sorted [OF wf]])
  show "u \<notin> insert t X \<and> is_rt u \<and> state (tasks s u) = RT_SCHED_READY \<and> cpu_of s u = c"
    if "u \<in> set (rready s c)" for c u using ready_wf_mem [OF wf that] that t by blast
  show "u \<in> set (rready s (cpu_of s u))"
    if "u \<notin> insert t X" "is_rt u" "state (tasks s u) = RT_SCHED_READY" "is_hard (tasks s u) \<noteq> 0" for u
    using ready_wf_hard [OF wf _ that(2-4)] that(1) by blast
qed

lemma ready_wf_soft:
  assumes wf: "ready_wf (insert t X) s" and t: "is_hard (tasks s t) = 0"
  shows "ready_wf X s"
proof (rule ready_wfI [OF ready_wf_distinct [OF wf] ready_wf_sorted [OF wf]])
  show "u \<notin> X \<and> is_rt u \<and> state (tasks s u) = RT_SCHED_READY \<and> cpu_of s u = c"
    if "u \<in> set (rready s c)" for c u using ready_wf_mem [OF wf that] by blast
  show "u \<in> set (rready s (cpu_of s u))"
    if "u \<notin> X" "is_rt u" "state (tasks s u) = RT_SCHED_READY" "is_hard (tasks s u) \<noteq> 0" for u
    using ready_wf_hard [OF wf _ that(2-4)] that(1,4) t by blast
qed

text \<open>Setting the priority of a ready task and moving it to its new place.\<close>

lemma sched_wf_requeue:
  assumes wf: "sched_wf {} Y s" and t: "is_rt t" "state (tasks s t) = RT_SCHED_READY" and v: "0 \<le> v"
  shows "sched_wf {} Y (enq_ready_task c t (unlink_ready t (upd_task t (\<lambda>k. k\<lparr>priority := v\<rparr>) s)))"
proof -
  let ?f = "\<lambda>k. k\<lparr>priority := v\<rparr>"
  have "sched_wf {t} Y (unlink_ready t s)" by (rule sched_wf_unlink [OF wf])
  then have "sched_wf {t} Y (upd_task t ?f (unlink_ready t s))"
    using v sched_wf_prios [OF wf]
    by (simp add: sched_wf_def ready_wf_in_flight is_delayed_def prio_wf_upd)
  from sched_wf_enq [OF this, of t c] show ?thesis using t by (simp add: unlink_ready_upd)
qed

lemma sched_wf_set_prio:
  assumes wf: "sched_wf {} Y s" and t: "state (tasks s t) \<noteq> RT_SCHED_READY \<or> \<not> is_rt t" and v: "0 \<le> v"
  shows "sched_wf {} Y (upd_task t (\<lambda>k. k\<lparr>priority := v\<rparr>) s)"
proof -
  have "sched_wf {t} Y s" using wf t by (simp add: sched_wf_ready_iff)
  then have "sched_wf {t} Y (upd_task t (\<lambda>k. k\<lparr>priority := v\<rparr>) s)"
    using v sched_wf_prios [OF wf]
    by (simp add: sched_wf_def ready_wf_in_flight is_delayed_def prio_wf_upd)
  then show ?thesis using t by (simp add: sched_wf_ready_iff)
qed

lemma sched_wf_pass_prio_ready:
  assumes wf: "sched_wf {} Y s" and t: "is_rt t" "state (tasks s t) = RT_SCHED_READY" and v: "0 \<le> v"
    and s1: "s1 = upd_task t (\<lambda>k. k\<lparr>priority := v\<rparr>) s"
  shows "sched_wf {} Y (fst (pass_prio_ready c t m s1))"
proof (cases "prio s1 (prev_in (Linux (cpu_of s1 t)) t (rready s1 (cpu_of s1 t))) > prio s1 t \<or>
         prio s1 (next_in (Linux (cpu_of s1 t)) t (rready s1 (cpu_of s1 t))) < prio s1 t")
  case True
  then show ?thesis using sched_wf_requeue [OF wf t v, of c]
    by (simp add: pass_prio_ready_def Let_def s1 [symmetric])
next
  case False
  have wfs: "ready_wf {} s" "timed_wf Y s" "prio_wf s" using wf by (simp_all add: sched_wf_def)
  have "ready_wf {} s1"
  proof (cases "t \<in> set (rready s (cpu_of s t))")
    case True
    then show ?thesis using False by (intro ready_wf_in_place [OF wfs(1) True s1]) (simp_all add: s1)
  next
    case absent: False
    then have "t \<notin> set (rready s b)" for b using ready_wf_mem [OF wfs(1), of t b] by blast
    then have "ready_wf {t} s1" unfolding s1 by (intro ready_wf_in_flight ready_wf_absent wfs) simp_all
    moreover have "is_hard (tasks s1 t) = 0" using ready_wf_hard [OF wfs(1), of t] absent t by (auto simp: s1)
    ultimately show ?thesis by (rule ready_wf_soft)
  qed
  moreover have "timed_wf Y s1" using wfs by (simp add: s1 is_delayed_def)
  moreover have "prio_wf s1" using wfs v unfolding s1 by (intro prio_wf_upd) (simp_all add: prio_wf_def)
  ultimately show ?thesis using False by (simp add: pass_prio_ready_def Let_def sched_wf_def)
qed

section \<open>A small system\<close>

text \<open>Two CPUs and three kernel tasks on CPU 0, of priorities 5, 3 and 5, for the witnesses.\<close>

definition tn0 :: tunables where
  "tn0 = \<lparr>clock_freq = 2000000000, sched_latency = 0, setup_time_TIMER_CPUNIT = 10,
     oneshot_span = 1000000, satdelay = 900000, num_online_cpus = 2, RTAI_NR_CPUS = 8,
     KernelLatency = 0, UserLatency = 0, TIMER_FREQ = 2000000000\<rparr>"

definition demo_init :: kst where
  "demo_init = fst (rt_task_init_cpuid (Task 3) True 5 0
     (fst (rt_task_init_cpuid (Task 2) True 3 0
        (fst (rt_task_init_cpuid (Task 4) True 5 0 (sched_boot tn0 1000))))))"

definition demo_ready :: kst where
  "demo_ready = fst (rt_task_resume 1 (Task 2) (fst (rt_task_resume 1 (Task 4) demo_init)))"

lemmas demo_simps = demo_init_def demo_ready_def rt_task_init_cpuid_def sched_boot_def tn0_def Let_def
  chosen_cpu_def link_new_task_def rt_set_task_pid_def boot_task_def linux_task_def zero_task_def
  upd_task_def upd_ring_def

lemma demo_init_tasks:
  "state (tasks demo_init (Task n)) = (if n \<in> {2, 3, 4} then 3 else 0)"
  "suspdepth (tasks demo_init (Task n)) = (if n \<in> {2, 3, 4} then 1 else 0)"
  "prio demo_init (Task n) = (if n = 4 \<or> n = 3 then 5 else if n = 2 then 3 else 0)"
  "cpu_of demo_init (Task n) = 0" "is_hard (tasks demo_init (Task n)) = (if n \<in> {2, 3, 4} then 1 else 0)"
  "policy (tasks demo_init (Task n)) = 0" "schedlat (tasks demo_init (Task n)) = 0"
  "task_magic (tasks demo_init (Task n)) = (if n \<in> {2, 3, 4} then RT_TASK_MAGIC else 0)"
  "owndres (tasks demo_init (Task n)) = 0" "\<not> resync_frame (tasks demo_init (Task n))"
  "rready demo_init = (\<lambda>_. [])" "rtimed demo_init = (\<lambda>_. [])" "rt_smp_current demo_init = Linux"
  "tasks demo_init (Linux c) = linux_task tn0 c" "tuned demo_init = tn0"
  "sched_locked demo_init = (\<lambda>_. 0)" "tsc demo_init = 1000" "rt_half_tick demo_init = (\<lambda>_. 0)"
  by (simp_all add: demo_simps)

lemma demo_init_wf: "sched_wf {} {} demo_init"
  unfolding demo_init_def
  by (intro sched_wf_rt_task_init_cpuid sched_wf_boot) (simp_all add: demo_simps)

lemma demo_ready_eq:
  "rready demo_ready 0 = [Task 2, Task 4]" "rtimed demo_ready = (\<lambda>_. [])"
  "sched_locked demo_ready = (\<lambda>_. 0)" "rt_smp_current demo_ready = Linux"
  "tasks demo_ready (Task 3) = tasks demo_init (Task 3)"
  "tasks demo_ready (Task 4) = (tasks demo_init (Task 4))\<lparr>suspdepth := 0, state := 1, blocked_on := BNull\<rparr>"
  "tasks demo_ready (Task 2) = (tasks demo_init (Task 2))\<lparr>suspdepth := 0, state := 1, blocked_on := BNull\<rparr>"
  "tasks demo_ready (Linux c) = linux_task tn0 c" "tuned demo_ready = tn0" "tsc demo_ready = 1000"
  "rt_half_tick demo_ready = (\<lambda>_. 0)"
  unfolding demo_ready_def
  by (simp_all add: rt_task_resume_def valid_task_def demo_init_tasks Let_def rem_timed_task_def RT_SCHEDULE_def
      send_sched_ipi_def enq_ready_task_def upd_ready_def upd_task_def)

lemma demo_ready_wf: "sched_wf {} {} demo_ready"
proof -
  let ?s = "fst (rt_task_resume 1 (Task 4) demo_init)"
  have "sched_wf {} {} ?s"
    by (rule sched_wf_rt_task_resume [OF demo_init_wf]) (simp_all add: is_rt_def demo_init_tasks)
  moreover have "state (tasks ?s (Task 2)) = 3"
    by (simp add: rt_task_resume_def valid_task_def demo_init_tasks Let_def rem_timed_task_def RT_SCHEDULE_def
        enq_ready_task_def)
  ultimately show ?thesis unfolding demo_ready_def
    using sched_wf_rt_task_resume [of ?s "Task 2" 1] by (simp add: is_rt_def)
qed

section \<open>Properties\<close>

lemma rhead_least:
  assumes "ready_wf X s" "t \<in> set (rready s c)"
  shows "prio s (rhead s c) \<le> prio s t"
proof -
  obtain u us where us: "rready s c = u # us" using assms(2) by (cases "rready s c") auto
  then have "sorted (map (prio s) (u # us))" using ready_wf_sorted [OF assms(1), of c] by simp
  then show ?thesis using assms(2) us prioq.head_least [of s u us t] by (simp add: rhead_def)
qed

lemma rt_schedule_state:
  fixes c s
  defines "s1 \<equiv> fst (TASK_TO_SCHEDULE c (wake_up_timed_tasks c (set_time_h c (RR_YIELD c s))))"
  shows "tasks (rt_schedule c s) = tasks s1" "rready (rt_schedule c s) = rready s1"
    "sched_locked s1 c = 0 \<Longrightarrow> rt_smp_current (rt_schedule c s) c = rhead s1 c"
  by (simp_all add: rt_schedule_def s1_def split_beta switch_to_def TASK_TO_SCHEDULE_fst rhead_def)

lemma sched_locked_frames [simp]:
  "sched_locked (RR_YIELD c s) = sched_locked s" "sched_locked (wake_up_timed_tasks c s) = sched_locked s"
  by (simp_all add: RR_YIELD_def Let_def wake_up_timed_tasks_eq)

text \<open>C1. When the scheduler is not locked, \<^verbatim>\<open>rt_schedule\<close> gives the CPU to the first task of
  its ready list, and no ready hard real-time task of that CPU has a better (lower)
  priority; the lists stay well-formed.\<close>

theorem rt_schedule_picks_best:
  assumes wf: "sched_wf {} {} s" and unlocked: "sched_locked s c = 0"
    and s': "s' = rt_schedule c s"
  shows "rt_smp_current s' c = rhead s' c \<and> sched_wf {} {} s' \<and>
    (\<forall>t. is_rt t \<and> cpu_of s' t = c \<and> state (tasks s' t) = RT_SCHED_READY \<and> is_hard (tasks s' t) \<noteq> 0
       \<longrightarrow> prio s' (rt_smp_current s' c) \<le> prio s' t)"
proof -
  have wf': "sched_wf {} {} s'" unfolding s' by (rule sched_wf_rt_schedule [OF wf])
  have cur: "rt_smp_current s' c = rhead s' c"
    using rt_schedule_state [of c s] unlocked by (simp add: s' rhead_def TASK_TO_SCHEDULE_fst)
  have "prio s' (rhead s' c) \<le> prio s' t"
    if "is_rt t" "cpu_of s' t = c" "state (tasks s' t) = RT_SCHED_READY" "is_hard (tasks s' t) \<noteq> 0" for t
    using ready_wf_hard [of "{}" s' t] rhead_least [of "{}" s' t c] wf' that by (simp add: sched_wf_def)
  then show ?thesis using cur wf' by simp
qed

theorem rt_schedule_picks_best_witness:
  "rt_smp_current (rt_schedule 0 demo_ready) 0 = rhead (rt_schedule 0 demo_ready) 0 \<and>
   sched_wf {} {} (rt_schedule 0 demo_ready)"
  using rt_schedule_picks_best [OF demo_ready_wf _ refl, of 0] by (simp add: demo_ready_eq)

text \<open>In a sorted timed list the loop that stops at the first task that is not due wakes all tasks that are due.\<close>

lemma sorted_takeWhile_filter:
  "sorted (map f xs) \<Longrightarrow> takeWhile (\<lambda>u. f u \<le> (n :: int)) xs = filter (\<lambda>u. f u \<le> n) xs"
proof (induction xs)
  case (Cons x xs)
  have "f x \<le> f y" if "y \<in> set xs" for y using Cons.prems that by simp
  then have "n < f x \<Longrightarrow> filter (\<lambda>u. f u \<le> n) xs = []" by (fastforce simp: filter_empty_conv)
  then show ?case using Cons by auto
qed simp

lemma due_tasks_filter:
  assumes "timed_wf Y s"
  shows "due_tasks c s = filter (\<lambda>t. resume_time (tasks s (hd (rtimed s c))) - schedlat (tasks s (hd (rtimed s c))) \<le> rt_smp_time_h s c \<and>
    (t = hd (rtimed s c) \<or> resume_time (tasks s t) \<le> rt_smp_time_h s c)) (rtimed s c)"
proof (cases "rtimed s c")
  case (Cons u us)
  have "sorted (map (\<lambda>t. resume_time (tasks s t)) (u # us))" "distinct (u # us)"
    using assms Cons unfolding timed_wf_def by metis+
  then show ?thesis using Cons sorted_takeWhile_filter [of "\<lambda>t. resume_time (tasks s t)" us "rt_smp_time_h s c"]
    by (auto simp: due_tasks_def intro!: filter_cong)
qed (simp add: due_tasks_def)

text \<open>C3. A timer tick wakes exactly the tasks that are due. When the first task \<open>h\<close> of the timed list of the CPU is
  due, that is when its resume time less its latency has come, \<open>h\<close> is woken, even if its resume time itself is
  still to come, and with it every other delayed task of the CPU whose resume time has come; otherwise nobody is woken. A woken
  task loses all the bits of its waits, and a hard one that waits for nothing else is in the ready list; every
  other task is as it was, and the tasks not woken stay in the timed list in their order. When the latency of
  \<open>h\<close> is not negative, no task whose resume time has come is left.\<close>

theorem wake_up_timed_tasks_exact:
  assumes wf: "sched_wf {} {} s" and s': "s' = wake_up_timed_tasks c s" and h: "h = hd (rtimed s c)"
    and due: "due = (\<lambda>t. is_rt t \<and> cpu_of s t = c \<and> is_delayed (tasks s t) \<and>
      resume_time (tasks s h) - schedlat (tasks s h) \<le> rt_smp_time_h s c \<and>
      (t = h \<or> resume_time (tasks s t) \<le> rt_smp_time_h s c))"
  shows "sched_wf {} {} s' \<and>
    (\<forall>t. tasks s' t = (if due t then woken (tasks s t) else tasks s t)) \<and>
    (\<forall>t. due t \<longrightarrow> state (tasks s' t) AND WAKE_MASK = 0 \<and> \<not> is_delayed (tasks s' t) \<and>
       (is_hard (tasks s t) \<noteq> 0 \<and> state (tasks s t) AND NOT WAKE_MASK = RT_SCHED_READY \<longrightarrow> t \<in> set (rready s' c))) \<and>
    rtimed s' c = filter (\<lambda>t. \<not> due t) (rtimed s c) \<and>
    (0 \<le> schedlat (tasks s h) \<longrightarrow>
       (\<forall>t. is_rt t \<and> cpu_of s t = c \<and> is_delayed (tasks s t) \<and> resume_time (tasks s t) \<le> rt_smp_time_h s c \<longrightarrow> due t))"
proof -
  have wfs: "timed_wf {} s" using wf by (simp add: sched_wf_def)
  have wf': "sched_wf {} {} s'" unfolding s' by (rule sched_wf_wake_up [OF wf])
  have mem: "t \<in> set (rtimed s c) \<longleftrightarrow> is_rt t \<and> cpu_of s t = c \<and> is_delayed (tasks s t)" for t
    using wfs by (auto simp: timed_wf_mem)
  have set: "t \<in> set (due_tasks c s) \<longleftrightarrow> due t" for t
    by (auto simp: due_tasks_filter [OF wfs] mem due h)
  have woke: "tasks s' t = (if due t then woken (tasks s t) else tasks s t)" for t
    unfolding s' set [symmetric] by (rule tasks_wake_up_timed_tasks [OF wfs])
  have "state (woken k) AND WAKE_MASK = 0" for k
    by (simp add: woken_def Let_def and.assoc bit.conj_disj_distrib2)
  moreover have "t \<in> set (rready s' c)"
    if "due t" "is_hard (tasks s t) \<noteq> 0" "state (tasks s t) AND NOT WAKE_MASK = RT_SCHED_READY" for t
    using ready_wf_hard [of "{}" s' t] wf' that
    by (simp add: sched_wf_def woke due) (simp add: woken_def Let_def)
  moreover have "rtimed s' c = filter (\<lambda>t. \<not> due t) (rtimed s c)"
  proof -
    let ?n = "length (due_tasks c s)"
    have "distinct (take ?n (rtimed s c) @ drop ?n (rtimed s c))" using wfs by (simp add: timed_wf_def)
    then have "filter (\<lambda>t. t \<notin> set (due_tasks c s)) (take ?n (rtimed s c) @ drop ?n (rtimed s c)) = drop ?n (rtimed s c)"
      unfolding due_tasks_take by (auto simp: filter_id_conv filter_empty_conv)
    then show ?thesis by (simp add: s' rtimed_wake_up_timed_tasks set)
  qed
  moreover have "due t" if "0 \<le> schedlat (tasks s h)" "is_rt t" "cpu_of s t = c" "is_delayed (tasks s t)"
      "resume_time (tasks s t) \<le> rt_smp_time_h s c" for t
    using due_tasks_due [OF wfs, of c t] that mem set h by simp
  ultimately show ?thesis using wf' woke by simp
qed

text \<open>Task 3 of the small system made periodic from time 2000 on, seen at time 3000.\<close>

definition demo_timed :: kst where
  "demo_timed = set_time_h 0 ((fst (rt_task_make_periodic 1 (Some (Task 3)) 2000 500 demo_ready))\<lparr>tsc := 3000\<rparr>)"

lemma sched_wf_tsc [simp]: "sched_wf X Y (s\<lparr>tsc := v\<rparr>) = sched_wf X Y s"
  by (rule sched_wf_same) simp_all

lemma demo_timed_wf: "sched_wf {} {} demo_timed"
  by (simp add: demo_timed_def rt_task_make_periodic_def task_arg_def valid_task_def demo_ready_eq
      demo_init_tasks sched_wf_make_periodic demo_ready_wf is_rt_def is_delayed_def)

lemma demo_timed_eq:
  "rtimed demo_timed 0 = [Task 3]" "resume_time (tasks demo_timed (Task 3)) = 2000"
  "state (tasks demo_timed (Task 3)) = 5" "rt_smp_time_h demo_timed 0 = 3000"
  "schedlat (tasks demo_timed (Task 3)) = 0" "cpu_of demo_timed (Task 3) = 0"
  "is_hard (tasks demo_timed (Task 3)) = 1" "owndres (tasks demo_timed (Task 3)) = 0"
  "suspdepth (tasks demo_timed (Task 3)) = 0" "task_magic (tasks demo_timed (Task 3)) = RT_TASK_MAGIC"
  "rt_smp_current demo_timed 0 = Linux 0"
  by (simp_all add: demo_timed_def rt_task_make_periodic_def task_arg_def valid_task_def demo_ready_eq
      demo_init_tasks make_periodic_def Let_def rem_ready_task_def enq_timed_task_def RT_SCHEDULE_def
      is_delayed_def)

theorem wake_up_timed_tasks_exact_witness:
  "state (tasks (wake_up_timed_tasks 0 demo_timed) (Task 3)) AND WAKE_MASK = 0 \<and>
   Task 3 \<in> set (rready (wake_up_timed_tasks 0 demo_timed) 0) \<and> rtimed (wake_up_timed_tasks 0 demo_timed) 0 = []"
proof -
  define due where "due = (\<lambda>t. is_rt t \<and> cpu_of demo_timed t = 0 \<and> is_delayed (tasks demo_timed t) \<and>
      resume_time (tasks demo_timed (Task 3)) - schedlat (tasks demo_timed (Task 3)) \<le> rt_smp_time_h demo_timed 0 \<and>
      (t = Task 3 \<or> resume_time (tasks demo_timed t) \<le> rt_smp_time_h demo_timed 0))"
  have h: "Task 3 = hd (rtimed demo_timed 0)" by (simp add: demo_timed_eq)
  have due: "due (Task 3)" by (simp add: due_def demo_timed_eq is_rt_def is_delayed_def)
  have hard: "is_hard (tasks demo_timed (Task 3)) \<noteq> 0 \<and> state (tasks demo_timed (Task 3)) AND NOT WAKE_MASK = RT_SCHED_READY"
    by (simp add: demo_timed_eq)
  note ex = wake_up_timed_tasks_exact [OF demo_timed_wf refl h due_def]
  have "rtimed (wake_up_timed_tasks 0 demo_timed) 0 = []" using ex due by (simp add: demo_timed_eq)
  with ex due hard show ?thesis by blast
qed

text \<open>The small system running its best task, Task 2.\<close>

definition demo_run :: kst where
  "demo_run = rt_schedule 0 demo_ready"

lemma demo_run_wf: "sched_wf {} {} demo_run"
  unfolding demo_run_def by (rule sched_wf_rt_schedule [OF demo_ready_wf])

lemma demo_run_step:
  "fst (TASK_TO_SCHEDULE 0 (wake_up_timed_tasks 0 (set_time_h 0 (RR_YIELD 0 demo_ready)))) =
     upd_task (Task 2) (\<lambda>k. k\<lparr>running := 1\<rparr>) (set_time_h 0 demo_ready)"
  by (simp add: RR_YIELD_def Let_def demo_ready_eq linux_task_def zero_task_def wake_up_timed_tasks_def
      TASK_TO_SCHEDULE_def rhead_def demo_init_tasks)

lemma demo_run_eq:
  "rready demo_run 0 = [Task 2, Task 4]" "rt_smp_current demo_run 0 = Task 2"
  "tasks demo_run = (tasks demo_ready)(Task 2 := (tasks demo_ready (Task 2))\<lparr>running := 1\<rparr>)"
  "rtimed demo_run = (\<lambda>_. [])" "rt_smp_time_h demo_run 0 = 1000" "sched_locked demo_run 0 = 0"
  "tuned demo_run = tn0" "rt_half_tick demo_run = (\<lambda>_. 0)"
proof -
  show "rready demo_run 0 = [Task 2, Task 4]"
    "tasks demo_run = (tasks demo_ready)(Task 2 := (tasks demo_ready (Task 2))\<lparr>running := 1\<rparr>)"
    unfolding demo_run_def rt_schedule_state demo_run_step by (simp_all add: demo_ready_eq)
  show "rt_smp_current demo_run 0 = Task 2"
    unfolding demo_run_def by (subst rt_schedule_state; simp only: demo_run_step)
      (simp_all add: demo_ready_eq rhead_def)
qed (simp_all add: demo_run_def rt_schedule_def split_beta demo_run_step demo_ready_eq)

section \<open>What scheduling leaves alone\<close>

text \<open>\<^verbatim>\<open>rt_schedule\<close> changes nothing of a task but its state, suspension depth and the
  bookkeeping of round robin.\<close>

definition strip :: "rt_task \<Rightarrow> rt_task" where
  "strip k = k\<lparr>state := 0, suspdepth := 0, running := 0, yield_time := 0, rr_remaining := 0\<rparr>"

definition same_but_sched :: "rt_task \<Rightarrow> rt_task \<Rightarrow> bool" where
  "same_but_sched k k' \<longleftrightarrow> strip k' = strip k"

lemma strip_sel:
  "priority (strip k) = priority k" "base_priority (strip k) = base_priority k"
  "blocked_on (strip k) = blocked_on k" "resume_time (strip k) = resume_time k"
  "periodic_resume_time (strip k) = periodic_resume_time k" "period (strip k) = period k"
  "owndres (strip k) = owndres k" "runnable_on_cpus (strip k) = runnable_on_cpus k"
  "is_hard (strip k) = is_hard k" "task_magic (strip k) = task_magic k" "policy (strip k) = policy k"
  "msg (strip k) = msg k" "msg_queue_task (strip k) = msg_queue_task k"
  "proxy_receiver (strip k) = proxy_receiver k" "proxy_msg (strip k) = proxy_msg k" "proxy_nmsgs (strip k) = proxy_nmsgs k"
  "ret_queue_task (strip k) = ret_queue_task k" "schedlat (strip k) = schedlat k"
  by (simp_all add: strip_def)

lemma same_but_schedD:
  assumes "same_but_sched k k'"
  shows "priority k' = priority k" "base_priority k' = base_priority k" "blocked_on k' = blocked_on k"
    "resume_time k' = resume_time k" "periodic_resume_time k' = periodic_resume_time k"
    "period k' = period k" "owndres k' = owndres k" "runnable_on_cpus k' = runnable_on_cpus k"
    "is_hard k' = is_hard k" "task_magic k' = task_magic k" "policy k' = policy k" "msg k' = msg k"
    "proxy_receiver k' = proxy_receiver k" "proxy_msg k' = proxy_msg k" "proxy_nmsgs k' = proxy_nmsgs k"
    "msg_queue_task k' = msg_queue_task k" "ret_queue_task k' = ret_queue_task k" "schedlat k' = schedlat k"
  using assms strip_sel [of k] strip_sel [of k'] unfolding same_but_sched_def by simp_all

lemma same_but_sched_refl [simp]: "same_but_sched k k"
  by (simp add: same_but_sched_def)

lemma strip_upds [simp]:
  "strip (k\<lparr>state := a\<rparr>) = strip k" "strip (k\<lparr>suspdepth := b\<rparr>) = strip k"
  "strip (k\<lparr>running := d\<rparr>) = strip k" "strip (k\<lparr>yield_time := e\<rparr>) = strip k"
  "strip (k\<lparr>rr_remaining := f\<rparr>) = strip k"
  by (simp_all add: strip_def)

lemma strip_woken [simp]: "strip (woken k) = strip k"
  by (simp add: woken_def Let_def)

lemma same_but_sched_fold:
  "strip (tasks (fold (wake_up_timed_task c) ts s) u) = strip (tasks s u)"
  by (induction ts arbitrary: s) (auto simp: tasks_wake_up_timed_task)

lemma rt_schedule_same: "same_but_sched (tasks s u) (tasks (rt_schedule c s) u)"
  unfolding rt_schedule_state(1) same_but_sched_def
  by (simp add: TASK_TO_SCHEDULE_def Let_def wake_up_timed_tasks_eq RR_YIELD_def same_but_sched_fold)

lemmas rt_schedule_fields [simp] = same_but_schedD [OF rt_schedule_same]

lemma rt_schedule_sel [simp]:
  "qring (rt_schedule c s) = qring s" "sems (rt_schedule c s) = sems s"
  "sched_locked (rt_schedule c s) = sched_locked s" "tuned (rt_schedule c s) = tuned s"
  "tsc (rt_schedule c s) = tsc s" "all_tasks (rt_schedule c s) = all_tasks s" "mbxs (rt_schedule c s) = mbxs s"
proof -
  have "qring (RR_YIELD c s) = qring s" "sems (RR_YIELD c s) = sems s" "tuned (RR_YIELD c s) = tuned s"
    "tsc (RR_YIELD c s) = tsc s" "all_tasks (RR_YIELD c s) = all_tasks s" "mbxs (RR_YIELD c s) = mbxs s" for s
    by (simp_all add: RR_YIELD_def Let_def)
  moreover have "tuned (fold (wake_up_timed_task c) ts s) = tuned s" "tsc (fold (wake_up_timed_task c) ts s) = tsc s"
    "all_tasks (fold (wake_up_timed_task c) ts s) = all_tasks s"
    "mbxs (fold (wake_up_timed_task c) ts s) = mbxs s" for ts s
    by (induction ts arbitrary: s) simp_all
  ultimately show "qring (rt_schedule c s) = qring s" "sems (rt_schedule c s) = sems s"
    "sched_locked (rt_schedule c s) = sched_locked s" "tuned (rt_schedule c s) = tuned s"
    "tsc (rt_schedule c s) = tsc s" "all_tasks (rt_schedule c s) = all_tasks s" "mbxs (rt_schedule c s) = mbxs s"
    by (simp_all add: rt_schedule_def split_beta TASK_TO_SCHEDULE_def Let_def wake_up_timed_tasks_eq)
qed

section \<open>Locking, periods and the suspension of tasks\<close>

text \<open>Everything that can happen to CPU \<open>c\<close> between \<^verbatim>\<open>rt_sched_lock\<close> and the unlock: the three operations that
  switch tasks, the last statement of two of them, and whatever else leaves the running task and the lock of this CPU
  alone, as the services of the running task, the clock and the other CPUs do.\<close>

inductive locked_step :: "nat \<Rightarrow> kst \<Rightarrow> kst \<Rightarrow> bool" where
  schedule: "locked_step c s (rt_schedule c s)"
| ipi: "locked_step c s (rt_schedule_on_schedule_ipi c s)"
| timer: "locked_step c s (rt_timer_handler c s)"
| call: "locked_step c s (CALL_TIMER_HANDLER c s)"
| other: "rt_smp_current s' c = rt_smp_current s c \<Longrightarrow> sched_locked s' c = sched_locked s c \<Longrightarrow> locked_step c s s'"

lemma switch_locked:
  "sched_locked s c \<noteq> 0 \<Longrightarrow> switch_in_irq c t s = switch_to c t s"
  "sched_locked s c \<noteq> 0 \<Longrightarrow> rt_smp_current (switch_to c t s) = rt_smp_current s"
  "sched_locked s c \<noteq> 0 \<Longrightarrow> t \<noteq> rt_smp_current s c \<Longrightarrow> sched_rqsted (switch_to c t s) c = 1"
  by (simp_all add: switch_in_irq_def switch_to_def)

lemma current_frames [simp]:
  "rt_smp_current (RR_YIELD c s) = rt_smp_current s" "rt_smp_current (wake_up_timed_tasks c s) = rt_smp_current s"
  by (simp_all add: RR_YIELD_def Let_def wake_up_timed_tasks_eq)

lemma locked_pass:
  assumes "sched_locked s c \<noteq> 0" "s' \<in> {rt_schedule c s, rt_schedule_on_schedule_ipi c s, rt_timer_handler c s}"
  shows "rt_smp_current s' = rt_smp_current s" "sched_locked s' = sched_locked s"
    "rhead s' c \<noteq> rt_smp_current s c \<Longrightarrow> sched_rqsted s' c = 1"
  using assms
  by (auto simp: rt_schedule_def rt_schedule_on_schedule_ipi_def rt_timer_handler_def Let_def split_beta switch_locked
      TASK_TO_SCHEDULE_fst rhead_def)

lemma locked_run:
  "(locked_step c)\<^sup>*\<^sup>* s s' \<Longrightarrow> sched_locked s c \<noteq> 0 \<Longrightarrow>
   rt_smp_current s' c = rt_smp_current s c \<and> sched_locked s' c = sched_locked s c"
proof (induction rule: rtranclp_induct)
  case (step y z)
  have l: "sched_locked y c \<noteq> 0" using step by simp
  have "rt_smp_current z c = rt_smp_current y c \<and> sched_locked z c = sched_locked y c"
    using step(2)
  proof (cases rule: locked_step.cases)
    case call
    let ?y = "y\<lparr>timer_shot_fired := (timer_shot_fired y)(c := 1)\<rparr>"
    show ?thesis using l locked_pass(1,2) [of ?y c "rt_timer_handler c ?y"] by (simp add: call CALL_TIMER_HANDLER_def)
  qed (use l locked_pass(1,2) [of y c z] in simp_all)
  then show ?case using step by simp
qed simp

text \<open>C40. From \<^verbatim>\<open>rt_sched_lock\<close> on, \<^verbatim>\<open>rt_schedule\<close>, the scheduling IPI and the timer handler leave the running task
  of the CPU in place, whatever happens in between; each of them notes the request when another task should run. When
  the lock was the outermost one, the unlock that follows gives the CPU to the first ready task.\<close>

theorem rt_sched_lock_defers:
  assumes run: "(locked_step c)\<^sup>*\<^sup>* (rt_sched_lock c s) s1"
    and s': "s' \<in> {rt_schedule c s1, rt_schedule_on_schedule_ipi c s1, rt_timer_handler c s1}"
  shows "rt_smp_current s' c = rt_smp_current s c \<and> sched_locked s' c = Suc (sched_locked s c) \<and>
    (rhead s' c \<noteq> rt_smp_current s c \<longrightarrow> sched_rqsted s' c = 1) \<and>
    (sched_locked s c = 0 \<and> rhead s' c \<noteq> rt_smp_current s c \<longrightarrow>
       rt_smp_current (rt_sched_unlock c s') c = rhead (rt_sched_unlock c s') c)"
proof -
  have "rt_smp_current (rt_sched_lock c s) c = rt_smp_current s c" "sched_locked (rt_sched_lock c s) c = Suc (sched_locked s c)"
    by (simp_all add: rt_sched_lock_def Let_def)
  then have 1: "rt_smp_current s1 c = rt_smp_current s c" "sched_locked s1 c = Suc (sched_locked s c)"
    using locked_run [OF run] by simp_all
  then have a: "rt_smp_current s' c = rt_smp_current s c" "sched_locked s' c = Suc (sched_locked s c)"
    "rhead s' c \<noteq> rt_smp_current s c \<longrightarrow> sched_rqsted s' c = 1"
    using locked_pass [OF _ s'] by simp_all
  have "rt_smp_current (rt_sched_unlock c s') c = rhead (rt_sched_unlock c s') c"
    if "sched_locked s c = 0" "rhead s' c \<noteq> rt_smp_current s c"
  proof -
    let ?u = "s'\<lparr>sched_locked := (sched_locked s')(c := 0), sched_rqsted := (sched_rqsted s')(c := 0)\<rparr>"
    have "rt_sched_unlock c s' = rt_schedule c ?u"
      using a that by (simp add: rt_sched_unlock_def Let_def)
    then show ?thesis using rt_schedule_state [of c ?u] by (simp add: TASK_TO_SCHEDULE_fst rhead_def)
  qed
  then show ?thesis using a by simp
qed

theorem rt_sched_lock_defers_witness:
  "rt_smp_current (rt_schedule 0 (rt_timer_handler 0 (rt_sched_lock 0 demo_ready))) 0 = Linux 0 \<and>
   sched_rqsted (rt_schedule 0 (rt_timer_handler 0 (rt_sched_lock 0 demo_ready))) 0 = 1"
proof -
  let ?s = "rt_sched_lock 0 demo_ready"
  have r: "rready (rt_timer_handler 0 s) 0 = rready s 0" "rready (rt_schedule 0 s) 0 = rready s 0" "rtimed (rt_timer_handler 0 s) 0 = []"
    "policy (tasks (rt_timer_handler 0 s) u) = policy (tasks s u)"
    if "policy (tasks s (rt_smp_current s 0)) = 0" "rtimed s 0 = []" for s u
    using that by (simp_all add: rt_timer_handler_def rt_schedule_state Let_def split_beta TASK_TO_SCHEDULE_def RR_YIELD_def
        wake_up_timed_tasks_def)
  have a: "rready ?s 0 = [Task 2, Task 4]" "rtimed ?s 0 = []" "tasks ?s = tasks demo_ready" "rt_smp_current ?s = Linux"
    "policy (tasks ?s (Linux 0)) = 0" "sched_locked ?s 0 = 1"
    by (simp_all add: rt_sched_lock_def Let_def demo_ready_eq linux_task_def zero_task_def)
  have "rt_smp_current (rt_timer_handler 0 ?s) = Linux" using locked_pass(1) [of ?s 0 "rt_timer_handler 0 ?s"] a by simp
  then have "rhead (rt_schedule 0 (rt_timer_handler 0 ?s)) 0 = Task 2"
    using r [of ?s] r(2) [of "rt_timer_handler 0 ?s"] a by (simp add: rhead_def)
  then show ?thesis
    using rt_sched_lock_defers [of 0 demo_ready "rt_timer_handler 0 ?s" "rt_schedule 0 (rt_timer_handler 0 ?s)"]
      locked_step.timer [of 0 ?s] by (simp add: r_into_rtranclp demo_ready_eq)
qed

text \<open>Periodic releases do not drift: \<^verbatim>\<open>rt_task_wait_period\<close> advances the release time of
  the caller by exactly one period. A release still to come puts the caller to sleep; one
  already past returns the overrun code at once, with the caller still running.\<close>

theorem rt_task_wait_period_no_drift:
  assumes "\<not> resync_frame (tasks s t)" "t = rt_smp_current s c"
    "s' = fst (rt_task_wait_period c s)" "r = snd (rt_task_wait_period c s)"
    "next = periodic_resume_time (tasks s t) + period (tasks s t)"
  shows "periodic_resume_time (tasks s' t) = next \<and> period (tasks s' t) = period (tasks s t) \<and>
    (if next > rt_smp_time_h s c then r = None \<and> resume_time (tasks s' t) = next
     else r = Some RTE_TMROVRN \<and> state (tasks s' t) = state (tasks s t) \<and> rt_smp_current s' = rt_smp_current s)"
  using assms by (simp add: rt_task_wait_period_def Let_def go_to_sleep_def)

theorem rt_task_wait_period_no_drift_witness:
  "snd (rt_task_wait_period 0 (upd_task (Task 2) (\<lambda>k. k\<lparr>periodic_resume_time := 800, period := 500\<rparr>) demo_run))
     = None"
  using rt_task_wait_period_no_drift [OF _ refl refl refl refl,
      of "upd_task (Task 2) (\<lambda>k. k\<lparr>periodic_resume_time := 800, period := 500\<rparr>) demo_run" 0]
  by (simp add: demo_run_eq demo_ready_eq demo_init_tasks)

text \<open>The next two theorems are about states in which the lists lose their shape.\<close>

lemma count_ready_ins: "count_list (ready_ins p n xs) x = count_list xs x + (if x = n then 1 else 0)"
  by (induction p n xs rule: ready_ins.induct) auto

text \<open>Suspending a task that owns a resource only counts the request (the task stays ready);
  resuming it then inserts it into the ready list a second time.\<close>

theorem resume_of_ready_owner_duplicates:
  assumes wf: "sched_wf {} {} s" and t: "valid_task t s" "is_rt t" "is_hard (tasks s t) \<noteq> 0"
      "state (tasks s t) = RT_SCHED_READY" "owndres (tasks s t) \<noteq> 0" "suspdepth (tasks s t) = 0"
    and c: "cpu_of s t \<noteq> c"
    and s1: "s1 = fst (rt_task_suspend c (Some t) s)" and s2: "s2 = fst (rt_task_resume c t s1)"
  shows "state (tasks s1 t) = RT_SCHED_READY \<and> count_list (rready s2 (cpu_of s t)) t = 2 \<and> \<not> sched_wf {} {} s2"
proof -
  let ?c = "cpu_of s t"
  have "ready_wf {} s" using wf by (simp add: sched_wf_def)
  then have "t \<in> set (rready s ?c)" "distinct (rready s ?c)"
    using ready_wf_hard [of "{}" s t] ready_wf_distinct [of "{}" s] t by simp_all
  then have one: "count_list (rready s ?c) t = 1" by (simp add: count_list_distinct)
  have s1': "s1 = upd_task t (\<lambda>k. k\<lparr>suspdepth := 1\<rparr>) s"
    using t by (simp add: s1 rt_task_suspend_def task_arg_def task_owns_sems_def Let_def upd_task_def)
  have "\<exists>p. rready s2 ?c = ready_ins p t (rready s ?c)"
    using t c by (auto simp: s2 s1' rt_task_resume_def valid_task_def Let_def rem_timed_task_def
        RT_SCHEDULE_def enq_ready_task_def)
  then have two: "count_list (rready s2 ?c) t = 2" using one by (auto simp: count_ready_ins)
  then have "\<not> distinct (rready s2 ?c)" by (auto simp: count_list_distinct split: if_splits)
  then have "\<not> sched_wf {} {} s2" using ready_wf_distinct [of "{}" s2 ?c] by (auto simp: sched_wf_def)
  then show ?thesis using two t s1' by simp
qed

text \<open>Task 2 of the small system runs on CPU 0 and owns a resource; CPU 1 suspends and
  resumes it.\<close>

lemma demo_owner_wf: "sched_wf {} {} (upd_task (Task 2) (\<lambda>k. k\<lparr>owndres := 1\<rparr>) demo_run)"
  using demo_run_wf by simp

theorem resume_of_ready_owner_duplicates_witness:
  "\<not> sched_wf {} {} (fst (rt_task_resume 1 (Task 2) (fst (rt_task_suspend 1 (Some (Task 2))
      (upd_task (Task 2) (\<lambda>k. k\<lparr>owndres := 1\<rparr>) demo_run)))))"
  using resume_of_ready_owner_duplicates [OF demo_owner_wf _ _ _ _ _ _ _ refl refl, of "Task 2" 1]
  by (simp add: demo_run_eq demo_ready_eq demo_init_tasks valid_task_def is_rt_def)

text \<open>Suspending another task that sleeps takes it out of the timed list but leaves it
  marked as delayed, so a later \<^verbatim>\<open>rem_timed_task\<close> unlinks a node that is in no list.\<close>

theorem suspend_of_sleeper_strands_it:
  assumes wf: "sched_wf {} {} s" and t: "valid_task t s" "is_rt t" "is_delayed (tasks s t)"
      "owndres (tasks s t) = 0" "suspdepth (tasks s t) = 0" "t \<noteq> rt_smp_current s c"
    and s1: "s1 = fst (rt_task_suspend c (Some t) s)"
  shows "is_delayed (tasks s1 t) \<and> (\<forall>b. t \<notin> set (rtimed s1 b)) \<and> \<not> sched_wf {} {} s1"
proof -
  have tw: "timed_wf {} s" using wf by (simp add: sched_wf_def)
  have nr: "state (tasks s t) \<noteq> RT_SCHED_READY" using t(3) by (rule delayed_not_ready)
  let ?s2 = "rem_timed_task t (upd_task t (\<lambda>k. k\<lparr>suspdepth := 1\<rparr>) s)"
  have "timed_wf {t} ?s2"
    by (rule timed_wf_rem) (use tw in \<open>simp add: is_delayed_def\<close>)
  then have out: "t \<notin> set (rtimed ?s2 b)" for b by (simp add: timed_wf_mem)
  have s1': "rtimed s1 = rtimed ?s2" "is_delayed (tasks s1 t)" "cpu_of s1 t = cpu_of s t"
    using t nr by (auto simp: s1 rt_task_suspend_def task_arg_def task_owns_sems_def Let_def
        rem_ready_task_def is_delayed_bit bit_or_iff)
  then have "\<not> timed_wf {} s1" using out t timed_wf_mem [of "{}" s1 t "cpu_of s t"] by auto
  then show ?thesis using s1' out by (simp add: sched_wf_def)
qed

theorem suspend_of_sleeper_strands_it_witness:
  "\<not> sched_wf {} {} (fst (rt_task_suspend 0 (Some (Task 3)) demo_timed))"
  using suspend_of_sleeper_strands_it [OF demo_timed_wf _ _ _ _ _ _ refl, of "Task 3" 0]
  by (simp add: demo_timed_eq is_rt_def is_delayed_def valid_task_def)

end
