(* ===== verification/Prio_Inherit.thy ===== *)
theory Prio_Inherit
  imports Sched_Wf
begin

text \<open>
  Priority inheritance (\<^verbatim>\<open>pass_prio\<close>, \<^verbatim>\<open>rt_change_prio\<close> and the resets of
  \<^verbatim>\<open>include/rtai_prinher.h\<close>): the loops end, priorities are only raised (their values
  lowered), the scheduler's lists stay well-formed, and the owner of a resource semaphore
  always runs at least at the priority of every task that waits for it, through any chain of
  owners that are themselves blocked.
\<close>

section \<open>Frames\<close>

lemma pass_prio_ready_sel [simp]:
  "sems (fst (pass_prio_ready c t m s)) = sems s"
  "qring (fst (pass_prio_ready c t m s)) = qring s"
  "rtimed (fst (pass_prio_ready c t m s)) = rtimed s"
  "rt_smp_current (fst (pass_prio_ready c t m s)) = rt_smp_current s"
  "rt_smp_time_h (fst (pass_prio_ready c t m s)) = rt_smp_time_h s"
  "sched_locked (fst (pass_prio_ready c t m s)) = sched_locked s"
  "sched_rqsted (fst (pass_prio_ready c t m s)) = sched_rqsted s"
  "sched_ipi (fst (pass_prio_ready c t m s)) = sched_ipi s"
  "tick_time (fst (pass_prio_ready c t m s)) = tick_time s"
  "intr_time (fst (pass_prio_ready c t m s)) = intr_time s"
  "linux_time (fst (pass_prio_ready c t m s)) = linux_time s"
  "linux_tick (fst (pass_prio_ready c t m s)) = linux_tick s"
  "timer_shot_fired (fst (pass_prio_ready c t m s)) = timer_shot_fired s"
  "timer_delay (fst (pass_prio_ready c t m s)) = timer_delay s"
  "tsc (fst (pass_prio_ready c t m s)) = tsc s"
  "tuned (fst (pass_prio_ready c t m s)) = tuned s"
  "rt_half_tick (fst (pass_prio_ready c t m s)) = rt_half_tick s"
  "all_tasks (fst (pass_prio_ready c t m s)) = all_tasks s"
  "tasks_per_cpu (fst (pass_prio_ready c t m s)) = tasks_per_cpu s"
  "rt_pid (fst (pass_prio_ready c t m s)) = rt_pid s"
  "mbxs (fst (pass_prio_ready c t m s)) = mbxs s"
  by (simp_all add: pass_prio_ready_def Let_def)

lemma pass_prio_ready_prio [simp]:
  "prio (fst (pass_prio_ready c t m s)) u = prio s u"
  by (simp add: pass_prio_ready_def Let_def)

section \<open>The loop ends\<close>

text \<open>Where a priority is passed on to: the owner of the semaphore, or the task of the message
  queue, that a blocked task waits for.\<close>

definition pass_ok :: "(tid \<Rightarrow> bool) \<Rightarrow> kst \<Rightarrow> bool" where
  "pass_ok P s \<longleftrightarrow> (\<forall>t q u. pass_through t s = Some (q, Some u) \<longrightarrow> P u)"

lemma pass_through_prio [simp]:
  "pass_through u (upd_task t (\<lambda>k. k\<lparr>priority := v\<rparr>) s) = pass_through u s"
proof -
  have "queue_task (upd_task t (\<lambda>k. k\<lparr>priority := v\<rparr>) s) q = queue_task s q" for q by (cases q) simp_all
  then show ?thesis by (simp add: pass_through_def split: blk.split qref.split)
qed

lemma pass_through_requeue [simp]: "pass_through u (requeue_blocked t q s) = pass_through u s"
proof -
  have "queue_task (requeue_blocked t q s) r = queue_task s r" for r by (cases r) simp_all
  then show ?thesis by (simp add: pass_through_def split: blk.split qref.split)
qed

lemma pass_ok_frame [simp]:
  "pass_ok P (upd_task t (\<lambda>k. k\<lparr>priority := v\<rparr>) s) = pass_ok P s"
  "pass_ok P (requeue_blocked t q s) = pass_ok P s"
  by (simp_all add: pass_ok_def)

text \<open>The tasks whose priority the loop may still raise.\<close>

definition below :: "tid set \<Rightarrow> int \<Rightarrow> kst \<Rightarrow> tid set" where
  "below A p s = {u \<in> A. prio s u > p}"

lemma card_below:
  assumes "finite A" "t \<in> A" "prio s t > p"
  shows "card (below A p (upd_task t (\<lambda>k. k\<lparr>priority := p\<rparr>) s)) < card (below A p s)"
proof (rule psubset_card_mono)
  show "finite (below A p s)" using assms by (simp add: below_def)
  show "below A p (upd_task t (\<lambda>k. k\<lparr>priority := p\<rparr>) s) \<subset> below A p s"
    using assms by (auto simp: below_def psubset_eq split: if_splits)
qed

lemma below_requeue [simp]: "below A p (requeue_blocked t q s) = below A p s"
  by (simp add: below_def)

text \<open>With more fuel than tasks to raise, fuel does not matter.\<close>

section \<open>What passing a priority does\<close>

lemma prio_upd [simp]: "prio (upd_task t (\<lambda>k. k\<lparr>priority := v\<rparr>) s) u = (if u = t then v else prio s u)"
  by simp

text \<open>Priority values only go down, and the first task of the chain gets at least the priority
  of the task that waits for it.\<close>

lemma pass_prio_loop_mono: "prio (fst (pass_prio_loop n c to from m s)) u \<le> prio s u"
proof (induction n arbitrary: to s)
  case (Suc n)
  show ?case
  proof (cases to)
    case (Some t)
    let ?s1 = "upd_task t (\<lambda>k. k\<lparr>priority := prio s from\<rparr>) s"
    have le: "prio s' u \<le> prio ?s1 u \<Longrightarrow> prio s t > prio s from \<Longrightarrow> prio s' u \<le> prio s u" for s'
      by (auto split: if_splits)
    have rec: "prio (fst (pass_prio_loop n c nxt from m s')) u \<le> prio s u"
      if "prio s' u \<le> prio ?s1 u" "prio s t > prio s from" for nxt s'
      using Suc.IH [of nxt s'] le that by (meson order_trans)
    show ?thesis
    proof (cases "prio s t > prio s from")
      case True
      have "prio ?s1 u \<le> prio s u" using True by simp
      then show ?thesis using True rec [of ?s1] rec [of "requeue_blocked t q ?s1" for q]
        by (auto simp: Some Let_def split: option.split prod.split)
    qed (simp add: Some)
  qed simp
qed simp

lemma pass_prio_loop_first:
  assumes "prio s t > prio s from"
  shows "prio (fst (pass_prio_loop (Suc n) c (Some t) from m s)) t \<le> prio s from"
proof -
  let ?s1 = "upd_task t (\<lambda>k. k\<lparr>priority := prio s from\<rparr>) s"
  have "prio (fst (pass_prio_loop n c nxt from m s')) t \<le> prio s from"
    if "prio s' t = prio ?s1 t" for nxt s'
    using pass_prio_loop_mono [of n c nxt "from" m s' t] that by simp
  then show ?thesis using assms by (auto simp: Let_def split: option.split prod.split)
qed

section \<open>Inheritance\<close>

text \<open>The tasks in the queue of a semaphore wait for it (none has timed out and not yet left).\<close>

definition rings_live :: "kst \<Rightarrow> bool" where
  "rings_live s \<longleftrightarrow> (\<forall>x t. t \<in> set (qring s (SemQ x)) \<longrightarrow>
     state (tasks s t) AND RT_SCHED_SEMAPHORE \<noteq> 0 \<and> blocked_on (tasks s t) = BQueue (SemQ x))"

text \<open>The owner of a resource semaphore has at least the priority of its waiters.\<close>

definition inherits :: "kst \<Rightarrow> bool" where
  "inherits s \<longleftrightarrow> (\<forall>x u w. sem_type (sems s x) > 0 \<and> owndby (sems s x) = OTask u \<and>
     w \<in> set (qring s (SemQ x)) \<longrightarrow> prio s u \<le> prio s w)"

text \<open>The same while the loop is about to raise \<open>to\<close> to priority \<open>p\<close>.\<close>

definition inherits_but :: "tid option \<Rightarrow> int \<Rightarrow> kst \<Rightarrow> bool" where
  "inherits_but to p s \<longleftrightarrow> (\<forall>x u w. sem_type (sems s x) > 0 \<and> owndby (sems s x) = OTask u \<and>
     w \<in> set (qring s (SemQ x)) \<longrightarrow> prio s u \<le> prio s w \<or> to = Some u \<and> p \<le> prio s w)"

lemma inherits_but_done: "inherits_but to p s \<Longrightarrow> (\<And>t. to = Some t \<Longrightarrow> prio s t \<le> p) \<Longrightarrow> inherits s"
  unfolding inherits_but_def inherits_def by (meson order_trans)

lemma inherits_pass_ready: "inherits (fst (pass_prio_ready c t m s)) = inherits s"
  by (simp add: inherits_def)

lemma set_requeue:
  "t \<in> set (qring s q) \<Longrightarrow> set (qring (requeue_blocked t q s) r) = set (qring s r)"
  by (simp add: requeue_blocked_def insert_set_remove1)

lemma rings_live_prio [simp]: "rings_live (upd_task t (\<lambda>k. k\<lparr>priority := v\<rparr>) s) = rings_live s"
  by (auto simp: rings_live_def)

lemma rings_live_requeue:
  "rings_live s \<Longrightarrow> t \<in> set (qring s q) \<Longrightarrow> rings_live (requeue_blocked t q s)"
  by (simp add: rings_live_def set_requeue)

lemma requeue_head:
  assumes "\<not> first_in t (qring (requeue_blocked t q s) q)" "t \<in> set (qring s q)"
  obtains h where "h \<in> set (qring s q)" "h \<noteq> t" "prio s h \<le> prio s t"
proof -
  have "qring (requeue_blocked t q s) q =
      queue_ins (\<lambda>x. \<not> prio s x \<le> prio s t) t (remove1 t (qring s q))"
    by (simp add: requeue_blocked_def)
  then obtain h xs where "remove1 t (qring s q) = h # xs" "prio s h \<le> prio s t" "h \<noteq> t"
    using assms(1) by (cases "remove1 t (qring s q)") (auto simp: first_in_def split: if_splits)
  then show ?thesis using that by (metis list.set_intros(1) notin_set_remove1)
qed

text \<open>After a task has been raised, only its own waits can be out of order.\<close>

lemma inherits_but_raise:
  assumes J: "inherits_but (Some t) p s" and lt: "p < prio s t"
  shows "\<And>x u w. sem_type (sems s x) > 0 \<Longrightarrow> owndby (sems s x) = OTask u \<Longrightarrow>
     w \<in> set (qring s (SemQ x)) \<Longrightarrow> w \<noteq> t \<Longrightarrow> (if u = t then p else prio s u) \<le> prio s w"
  using assms unfolding inherits_but_def by fastforce

lemma pass_through_waiter:
  assumes "rings_live s" "t \<in> set (qring s (SemQ x))" "sem_type (sems s x) > 0"
  shows "pass_through t s = Some (SemQ x, owner_task (owndby (sems s x)))"
  using assms by (auto simp: rings_live_def pass_through_def)

lemma pass_prio_loop_inherits:
  assumes "finite A" "pass_ok (\<lambda>u. u \<in> A) s" "\<And>t. to = Some t \<Longrightarrow> t \<in> A"
    "card (below A (prio s from) s) < n" "rings_live s" "inherits_but to (prio s from) s"
    "\<And>t q nxt. pass_through t s = Some (q, nxt) \<Longrightarrow> t \<in> set (qring s q)"
  shows "inherits (fst (pass_prio_loop n c to from m s))"
  using assms
proof (induction n arbitrary: to s)
  case (Suc n)
  let ?p = "prio s from"
  show ?case
  proof (cases "\<exists>t. to = Some t \<and> prio s t > ?p")
    case False
    then have "inherits s" by (intro inherits_but_done [OF Suc.prems(6)]) (auto simp: not_less)
    then show ?thesis using False by (cases to) auto
  next
    case True
    then obtain t where to: "to = Some t" and gt: "prio s t > ?p" by blast
    let ?s1 = "upd_task t (\<lambda>k. k\<lparr>priority := ?p\<rparr>) s"
    have from1: "prio ?s1 from = ?p" using gt by auto
    have raised: "prio ?s1 u \<le> prio ?s1 w"
      if "sem_type (sems s x) > 0" "owndby (sems s x) = OTask u" "w \<in> set (qring s (SemQ x))" "w \<noteq> t" for x u w
      using inherits_but_raise [OF _ gt, of x u w] Suc.prems(6) to that by (auto split: if_splits)
    have free: "inherits ?s1" if "\<And>x. sem_type (sems s x) > 0 \<Longrightarrow> t \<notin> set (qring s (SemQ x))"
      unfolding inherits_def using raised that by (metis upd_task_sel(2,3))
    have live1: "rings_live ?s1" using Suc.prems(5) by simp
    consider (ready) "state (tasks s t) = RT_SCHED_READY"
      | (none) "state (tasks s t) \<noteq> RT_SCHED_READY" "pass_through t s = None"
      | (some) q nxt where "state (tasks s t) \<noteq> RT_SCHED_READY" "pass_through t s = Some (q, nxt)"
      by (cases "pass_through t s") auto
    then show ?thesis
    proof cases
      case ready
      then have "t \<notin> set (qring s (SemQ x))" for x using Suc.prems(5) unfolding rings_live_def by force
      then show ?thesis using to gt ready free by (simp add: Let_def inherits_pass_ready)
    next
      case none
      then have "t \<notin> set (qring s (SemQ x))" if "sem_type (sems s x) > 0" for x
        using pass_through_waiter [OF Suc.prems(5) _ that] by auto
      then have "inherits ?s1" by (rule free)
      moreover have "pass_prio_loop n c (Some t) from m ?s1 = (?s1, m)" by (cases n) (simp_all add: from1)
      ultimately show ?thesis using to gt none by (simp add: Let_def)
    next
      case some
      have tq: "t \<in> set (qring s q)" by (rule Suc.prems(7) [OF some(2)])
      have other: "x' = q" if "t \<in> set (qring s x')" "x' = SemQ x" for x x'
        using Suc.prems(5) some(2) that by (auto simp: rings_live_def pass_through_def split: if_splits)
      have rec: "inherits (fst (pass_prio_loop n c nxt from m s'))"
        if s': "s' = ?s1 \<or> s' = requeue_blocked t q ?s1" for s'
      proof (rule Suc.IH)
        have sets: "set (qring s' r) = set (qring s r)" "prio s' u = prio ?s1 u" "sems s' = sems s"
          "pass_through u s' = pass_through u s" for r u using s' tq by (auto simp: set_requeue)
        show "finite A" by (rule Suc.prems(1))
        show "pass_ok (\<lambda>u. u \<in> A) s'" using Suc.prems(2) s' by auto
        show "\<And>u. nxt = Some u \<Longrightarrow> u \<in> A" using Suc.prems(2) some(2) by (auto simp: pass_ok_def)
        have "card (below A ?p ?s1) < n"
          using card_below [OF Suc.prems(1), of t ?p s] Suc.prems(3,4) to gt by auto
        then show "card (below A (prio s' from) s') < n" using s' from1 by auto
        show "rings_live s'" using s' live1 tq by (auto simp: rings_live_requeue)
        show "\<And>u q nxt. pass_through u s' = Some (q, nxt) \<Longrightarrow> u \<in> set (qring s' q)"
          using Suc.prems(7) sets by auto
        show "inherits_but nxt (prio s' from) s'"
          unfolding inherits_but_def
        proof (intro allI impI)
          fix x u w
          assume a: "0 < sem_type (sems s' x) \<and> owndby (sems s' x) = OTask u \<and> w \<in> set (qring s' (SemQ x))"
          show "prio s' u \<le> prio s' w \<or> nxt = Some u \<and> prio s' from \<le> prio s' w"
          proof (cases "w = t")
            case True
            then have "nxt = Some u"
              using a sets pass_through_waiter [OF Suc.prems(5), of t x] some(2) by (simp add: owner_task_def)
            then show ?thesis using True sets from1 by simp
          next
            case False
            then show ?thesis using raised [of x u w] a sets by simp
          qed
        qed
      qed
      have stuck: "inherits (requeue_blocked t q ?s1)" if nf: "\<not> first_in t (qring (requeue_blocked t q ?s1) q)"
      proof -
        obtain h where h: "h \<in> set (qring s q)" "h \<noteq> t" "prio ?s1 h \<le> ?p"
          using requeue_head [OF nf] tq by auto
        show ?thesis unfolding inherits_def
        proof (intro allI impI)
          fix x u w
          assume "0 < sem_type (sems (requeue_blocked t q ?s1) x) \<and>
              owndby (sems (requeue_blocked t q ?s1) x) = OTask u \<and>
              w \<in> set (qring (requeue_blocked t q ?s1) (SemQ x))"
          then have a: "0 < sem_type (sems s x)" "owndby (sems s x) = OTask u" "w \<in> set (qring s (SemQ x))"
            using tq by (simp_all add: set_requeue)
          have "prio ?s1 u \<le> prio ?s1 w"
          proof (cases "w = t")
            case True
            then have "SemQ x = q" using other a(3) by blast
            then have "prio ?s1 u \<le> prio ?s1 h" using raised [OF a(1,2), of h] h by simp
            then show ?thesis using h True by simp
          qed (rule raised [OF a])
          then show "prio (requeue_blocked t q ?s1) u \<le> prio (requeue_blocked t q ?s1) w" by simp
        qed
      qed
      show ?thesis using to gt some rec [of ?s1] rec [of "requeue_blocked t q ?s1"] stuck by (simp add: Let_def)
    qed
  qed
qed simp

section \<open>The lists stay well-formed\<close>

lemma sched_wf_pass_prio_loop:
  assumes "sched_wf {} Y s" "\<And>t. to = Some t \<Longrightarrow> is_rt t" "pass_ok is_rt s"
  shows "sched_wf {} Y (fst (pass_prio_loop n c to from m s))"
  using assms
proof (induction n arbitrary: to s)
  case (Suc n)
  show ?case
  proof (cases "\<exists>t. to = Some t \<and> prio s t > prio s from")
    case True
    then obtain t where to: "to = Some t" and gt: "prio s t > prio s from" by blast
    let ?s1 = "upd_task t (\<lambda>k. k\<lparr>priority := prio s from\<rparr>) s"
    have t: "is_rt t" and v: "0 \<le> prio s from"
      using Suc.prems(1,2) to by (auto simp: sched_wf_prios)
    show ?thesis
    proof (cases "state (tasks s t) = RT_SCHED_READY")
      case True
      then show ?thesis using to gt sched_wf_pass_prio_ready [OF Suc.prems(1) t True v refl]
        by (simp add: Let_def)
    next
      case False
      then have wf1: "sched_wf {} Y ?s1" using sched_wf_set_prio [OF Suc.prems(1) _ v] by simp
      have rec: "sched_wf {} Y (fst (pass_prio_loop n c nxt from m s'))"
        if "s' = ?s1 \<or> s' = requeue_blocked t q ?s1" "\<And>u. nxt = Some u \<Longrightarrow> is_rt u" for s' q nxt
        by (rule Suc.IH) (use wf1 that Suc.prems(3) in \<open>auto simp del: upd_task_sel\<close>)
      have nxt: "is_rt u" if "pass_through t s = Some (q, Some u)" for q u
        using Suc.prems(3) that by (auto simp: pass_ok_def)
      show ?thesis using to gt False wf1 t rec [OF disjI1 [OF refl]] rec [OF disjI2 [OF refl]] nxt
        by (auto simp: Let_def split: option.split)
    qed
  qed (use Suc in \<open>cases to; auto\<close>)
qed simp

lemma sched_wf_pass_prio:
  "sched_wf {} Y s \<Longrightarrow> pass_ok is_rt s \<Longrightarrow> (\<And>t. to = Some t \<Longrightarrow> is_rt t) \<Longrightarrow>
   sched_wf {} Y (fst (pass_prio c to from s))"
  unfolding pass_prio_def by (rule sched_wf_pass_prio_loop)

lemma sched_wf_renq_ready_task:
  assumes "sched_wf {} Y s" "is_rt t" "0 \<le> v"
  shows "sched_wf {} Y (fst (renq_ready_task c t v s))"
  using assms sched_wf_requeue [OF assms(1,2) _ assms(3)] sched_wf_set_prio [OF assms(1) _ assms(3)]
  by (simp add: renq_ready_task_def Let_def)

lemma sched_wf_resets:
  assumes "sched_wf {} Y s" "is_rt t"
  shows "sched_wf {} Y (fst (dequeue_resqel_reset_task_priority c t s))"
    and "sched_wf {} Y (fst (set_task_prio_from_resq c t s))"
proof -
  have rp: "0 \<le> resq_prio t s'" if "sched_wf {} Y s'" for s'
    using sched_wf_prios [OF that] by (simp add: resq_prio_def split: list.split)
  let ?s = "upd_task t (\<lambda>k. k\<lparr>owndres := 0\<rparr>) (upd_task t (\<lambda>k. k\<lparr>owndres := s32 (owndres k - 1)\<rparr>) s)"
  have "sched_wf {} Y ?s" using assms(1) by simp
  then show "sched_wf {} Y (fst (dequeue_resqel_reset_task_priority c t s))"
    using assms sched_wf_renq_ready_task [OF _ assms(2) rp, of Y ?s ?s c]
    by (simp add: dequeue_resqel_reset_task_priority_def set_prio_from_resq_def Let_def)
  show "sched_wf {} Y (fst (set_task_prio_from_resq c t s))"
    using assms sched_wf_renq_ready_task [OF assms rp [OF assms(1)], of c]
    by (simp add: set_task_prio_from_resq_def set_prio_from_resq_def)
qed

lemma sched_wf_change_prio_loop:
  assumes "sched_wf {} Y s" "is_rt t" "pass_ok is_rt s" "0 \<le> v"
  shows "sched_wf {} Y (fst (change_prio_loop n c t v m s))"
  using assms
proof (induction n arbitrary: t s)
  case (Suc n)
  let ?s1 = "upd_task t (\<lambda>k. k\<lparr>priority := v\<rparr>) s"
  show ?case
  proof (cases "state (tasks s t) = RT_SCHED_READY")
    case True
    then show ?thesis using sched_wf_pass_prio_ready [OF Suc.prems(1,2) True Suc.prems(4) refl]
      by (simp add: Let_def)
  next
    case False
    then have wf1: "sched_wf {} Y ?s1" using sched_wf_set_prio [OF Suc.prems(1) _ Suc.prems(4)] by simp
    have rec: "sched_wf {} Y (fst (change_prio_loop n c u v m s'))"
      if "s' = ?s1 \<or> s' = requeue_blocked t q ?s1" "is_rt u" for s' q u
      by (rule Suc.IH) (use wf1 that Suc.prems(3,4) in \<open>auto simp del: upd_task_sel\<close>)
    have nxt: "is_rt u" if "pass_through t s = Some (q, Some u)" for q u
      using Suc.prems(3) that by (auto simp: pass_ok_def)
    show ?thesis using False wf1 rec [OF disjI1 [OF refl]] rec [OF disjI2 [OF refl]] nxt
      by (auto simp: Let_def split: option.split)
  qed
qed simp

lemma pass_ok_base [simp]: "pass_ok P (upd_task t (\<lambda>k. k\<lparr>base_priority := v\<rparr>) s) = pass_ok P s"
proof -
  let ?s = "upd_task t (\<lambda>k. k\<lparr>base_priority := v\<rparr>) s"
  have "queue_task ?s q = queue_task s q" for q by (cases q) simp_all
  then have "pass_through u ?s = pass_through u s" for u
    by (simp add: pass_through_def split: blk.split qref.split)
  then show ?thesis by (simp add: pass_ok_def)
qed

lemma sched_wf_rt_change_prio:
  assumes wf: "sched_wf {} {} s" and t: "is_rt t" "pass_ok is_rt s"
  shows "sched_wf {} {} (fst (rt_change_prio c t v s))"
proof (cases "valid_task t s \<and> 0 \<le> v")
  case True
  define pr where "pr = (if is_hard (tasks s t) = 0 \<and> v < BASE_SOFT_PRIORITY
                   then s32 (v + BASE_SOFT_PRIORITY) else v)"
  let ?s1 = "upd_task t (\<lambda>k. k\<lparr>base_priority := pr\<rparr>) s"
  have pr: "0 \<le> pr" using True by (simp add: pr_def)
  then have wf1: "sched_wf {} {} ?s1"
    using wf sched_wf_prios [OF wf, of t] by (simp add: sched_wf_def is_delayed_def prio_wf_upd)
  have "sched_wf {} {} (fst (change_prio_loop n c t pr {} ?s1))" for n
    by (rule sched_wf_change_prio_loop) (use wf1 t pr in simp_all)
  then show ?thesis using True wf1
    by (simp add: rt_change_prio_def Let_def pr_def [symmetric] split_beta del: change_prio_loop.simps)
next
  case False
  then have "\<not> valid_task t s \<or> v < 0" by linarith
  then show ?thesis unfolding rt_change_prio_def using wf by (simp only: if_True fst_conv)
qed

section \<open>Properties of priority inheritance\<close>

text \<open>A task that a priority can pass through is in the queue it is blocked on.\<close>

definition ring_members :: "kst \<Rightarrow> bool" where
  "ring_members s \<longleftrightarrow> (\<forall>t q nxt. pass_through t s = Some (q, nxt) \<longrightarrow> t \<in> set (qring s q))"

lemma card_below_all: "card (below (set (all_tasks s)) p s) < Suc (length (all_tasks s))"
proof -
  have "card (below (set (all_tasks s)) p s) \<le> card (set (all_tasks s))"
    by (rule card_mono) (auto simp: below_def)
  also have "\<dots> \<le> length (all_tasks s)" by (rule card_length)
  finally show ?thesis by simp
qed

text \<open>C4. Priority inheritance is transitive: when \<^verbatim>\<open>pass_prio\<close> gives the owner \<open>t\<close> of a
  resource the priority of the task \<open>from\<close> about to wait for it, every owner of a resource
  semaphore, also at the end of a chain of blocked owners, still has at least the priority
  of all its waiters; no priority gets worse, and \<open>t\<close> is at least as urgent as
  \<open>from\<close>.\<close>

theorem pass_prio_inherits:
  assumes "pass_ok (\<lambda>u. u \<in> set (all_tasks s)) s" "t \<in> set (all_tasks s)" "rings_live s"
    "ring_members s" "inherits s" and s': "s' = fst (pass_prio c (Some t) from s)"
  shows "inherits s' \<and> prio s' t \<le> prio s from \<and> (\<forall>u. prio s' u \<le> prio s u)"
proof (intro conjI allI)
  show "inherits s'" unfolding s' pass_prio_def
  proof (rule pass_prio_loop_inherits)
    show "finite (set (all_tasks s))" by simp
    show "card (below (set (all_tasks s)) (prio s from) s) < Suc (length (all_tasks s))"
      by (rule card_below_all)
    show "inherits_but (Some t) (prio s from) s" using assms(5) by (auto simp: inherits_def inherits_but_def)
  qed (use assms in \<open>auto simp: ring_members_def\<close>)
  show "prio s' u \<le> prio s u" for u unfolding s' pass_prio_def by (rule pass_prio_loop_mono)
  show "prio s' t \<le> prio s from"
  proof (cases "prio s t > prio s from")
    case True
    then show ?thesis unfolding s' pass_prio_def by (rule pass_prio_loop_first)
  next
    case False
    then show ?thesis using pass_prio_loop_mono [of "Suc (length (all_tasks s))" c "Some t" "from" "{}" s t]
      unfolding s' pass_prio_def by linarith
  qed
qed

text \<open>Semaphore 0 is owned by Task 4, which waits for semaphore 7, owned by Task 3; both
  semaphores are resources. Task 2, the most urgent, is about to wait for semaphore 0.\<close>

definition demo_res :: "tid \<Rightarrow> sem" where
  "demo_res t = \<lparr>sem_magic = RT_SEM_MAGIC, sem_type = 1, restype = 0, sem_count = 0, owndby = OTask t, qtype = 0\<rparr>"

definition demo_chain :: kst where
  "demo_chain = upd_task (Task 4) (\<lambda>k. k\<lparr>state := 9, blocked_on := BQueue (SemQ 7)\<rparr>)
     (demo_init\<lparr>sems := (\<lambda>x. if x = 0 then demo_res (Task 4) else if x = 7 then demo_res (Task 3) else zero_sem),
        qring := (\<lambda>q. if q = SemQ 7 then [Task 4] else [])\<rparr>)"

lemma demo_chain_tasks:
  "all_tasks demo_chain = [Task 4, Task 2, Task 3]" "prio demo_chain (Task 2) = 3"
  "sems demo_chain = (\<lambda>x. if x = 0 then demo_res (Task 4) else if x = 7 then demo_res (Task 3) else zero_sem)"
  "qring demo_chain = (\<lambda>q. if q = SemQ 7 then [Task 4] else [])"
  "prio demo_chain (Task 4) = 5" "prio demo_chain (Task 3) = 5"
  by (simp_all add: demo_chain_def demo_simps)

lemma demo_chain_blocked:
  "blocked_on (tasks demo_chain t) = (if t = Task 4 then BQueue (SemQ 7) else BNull)"
  "state (tasks demo_chain (Task 4)) = 9"
  by (cases t; simp add: demo_chain_def demo_simps) (simp add: demo_chain_def demo_simps)

lemma demo_chain_pass:
  "pass_through t demo_chain = (if t = Task 4 then Some (SemQ 7, Some (Task 3)) else None)"
  by (simp add: pass_through_def demo_chain_blocked demo_chain_tasks demo_res_def owner_task_def)

theorem pass_prio_inherits_witness:
  "inherits (fst (pass_prio 0 (Some (Task 4)) (Task 2) demo_chain)) \<and>
   prio (fst (pass_prio 0 (Some (Task 4)) (Task 2) demo_chain)) (Task 4) \<le> 3"
proof -
  have "pass_ok (\<lambda>u. u \<in> set (all_tasks demo_chain)) demo_chain" "ring_members demo_chain"
    by (simp_all add: pass_ok_def ring_members_def demo_chain_pass demo_chain_tasks)
  moreover have "rings_live demo_chain" "inherits demo_chain"
    by (auto simp: rings_live_def inherits_def demo_chain_tasks demo_chain_blocked demo_res_def zero_sem_def)
  ultimately show ?thesis
    using pass_prio_inherits [of demo_chain "Task 4" _ 0 "Task 2", OF _ _ _ _ _ refl]
    by (simp add: demo_chain_tasks)
qed

text \<open>The loop of \<^verbatim>\<open>pass_prio\<close> once more, as the source has it: nothing bounds its turns, and a loop that does
  not end has no value.\<close>

partial_function (option) pass_prio_while :: "nat \<Rightarrow> tid option \<Rightarrow> tid \<Rightarrow> nat set \<Rightarrow> kst \<Rightarrow> (kst \<times> nat set) option" where
  "pass_prio_while cpuid to from schedmap s =
     (case to of None \<Rightarrow> Some (s, schedmap)
      | Some t \<Rightarrow>
          if \<not> prio s t > prio s from then Some (s, schedmap)
          else
            (let s1 = upd_task t (\<lambda>k. k\<lparr>priority := prio s from\<rparr>) s in
             if state (tasks s1 t) = RT_SCHED_READY then Some (pass_prio_ready cpuid t schedmap s1)
             else
               (case pass_through t s1 of
                  None \<Rightarrow> pass_prio_while cpuid (Some t) from schedmap s1
                | Some (q, nxt) \<Rightarrow>
                    if \<not> first_in t (qring s1 q) then
                      (let s2 = requeue_blocked t q s1 in
                       if \<not> first_in t (qring s2 q) then Some (s2, schedmap)
                       else pass_prio_while cpuid nxt from schedmap s2)
                    else pass_prio_while cpuid nxt from schedmap s1)))"

lemma pass_prio_while_loop:
  assumes "finite A" "pass_ok (\<lambda>u. u \<in> A) s" "\<And>t. to = Some t \<Longrightarrow> t \<in> A" "card (below A (prio s from) s) < n"
  shows "pass_prio_while c to from m s = Some (pass_prio_loop n c to from m s)"
  using assms
proof (induction n arbitrary: to s)
  case (Suc n)
  show ?case
  proof (cases to)
    case (Some t)
    show ?thesis
    proof (cases "prio s t > prio s from")
      case True
      let ?s1 = "upd_task t (\<lambda>k. k\<lparr>priority := prio s from\<rparr>) s"
      have from1: "prio ?s1 from = prio s from" using True by auto
      have card: "card (below A (prio s from) ?s1) < n"
        using card_below [OF Suc.prems(1), of t "prio s from" s] Suc.prems Some True by auto
      have same: "pass_prio_while c (Some t) from m ?s1 = Some (pass_prio_loop n c (Some t) from m ?s1)"
        using card by (cases n) (simp_all add: from1 pass_prio_while.simps [of c "Some t"])
      have rec: "pass_prio_while c nxt from m s' = Some (pass_prio_loop n c nxt from m s')"
        if "pass_through t ?s1 = Some (q, nxt)" "s' = ?s1 \<or> s' = requeue_blocked t q ?s1" for q nxt s'
        by (rule Suc.IH) (use Suc.prems that card from1 in \<open>auto simp: pass_ok_def\<close>)
      show ?thesis using Some True same rec
        by (subst pass_prio_while.simps, subst pass_prio_loop.simps)
          (simp add: Let_def split: option.split prod.split del: pass_prio_loop.simps)
    qed (use Some in \<open>simp add: pass_prio_while.simps [of c "Some t"]\<close>)
  qed (simp add: pass_prio_while.simps [of c None])
qed simp

text \<open>C5. The loop of \<^verbatim>\<open>pass_prio\<close> ends, whatever cycles the blocked tasks form, as long as the tasks it can reach are
  in the list of all tasks; and the loop with the number of tasks plus one as its bound computes the same.\<close>

theorem pass_prio_terminates:
  assumes "pass_ok (\<lambda>u. u \<in> set (all_tasks s)) s" "t \<in> set (all_tasks s)"
  shows "pass_prio_while c (Some t) from {} s = Some (pass_prio c (Some t) from s)"
  unfolding pass_prio_def
  by (rule pass_prio_while_loop [of "set (all_tasks s)"]) (use assms card_below_all in simp_all)

theorem pass_prio_terminates_witness:
  "pass_prio_while 0 (Some (Task 4)) (Task 2) {} demo_chain = Some (pass_prio 0 (Some (Task 4)) (Task 2) demo_chain)"
  by (rule pass_prio_terminates) (simp_all add: pass_ok_def demo_chain_pass demo_chain_tasks)

end
