(* ===== verification/Sem.thy ===== *)
theory Sem
  imports Prio_Inherit
begin

text \<open>
  Semaphores, resources, barriers, condition variables, read-write locks and recursive
  spinlocks (\<^verbatim>\<open>src/ipc/sem/sem.c\<close>), and the deletion of tasks (\<^verbatim>\<open>clr_rtext\<close> of
  \<^verbatim>\<open>src/sched/sched.c\<close>), which the release of a resource may trigger. Polling is not
  compiled in the configuration modelled. A service that waits returns \<open>None\<close> with the
  caller blocked; what it does when it runs again is the function of the same name with
  \<open>_resume\<close>. Where the code follows a pointer that may be null, the result is an option
  and \<open>None\<close> stands for the access to address 0.
\<close>

section \<open>Types and initialisation\<close>

abbreviation (input) PRIO_Q :: int where "PRIO_Q \<equiv> 0"
abbreviation (input) FIFO_Q :: int where "FIFO_Q \<equiv> 4"
abbreviation (input) BIN_SEM :: int where "BIN_SEM \<equiv> 1"
abbreviation (input) CNT_SEM :: int where "CNT_SEM \<equiv> 2"
abbreviation (input) RES_SEM :: int where "RES_SEM \<equiv> 3"

text \<open>Bits 0-1 of the type select the kind (stored as -1 binary, 0 counting, 1 resource), bit 2
  the queueing.\<close>

definition rt_typed_sem_init :: "nat \<Rightarrow> int \<Rightarrow> int \<Rightarrow> kst \<Rightarrow> kst" where
  "rt_typed_sem_init x value type s =
     (let q = (if type mod 4 = RES_SEM then 0 else if (type div 4) mod 2 = 1 then 1 else 0);
          ty = type mod 4 - 2;
          (t, n, r) = (if ty < 0 \<and> value > 1 then (ty, 1, 0)
                       else if ty > 0 then (1, 1, value) else (ty, value, 0))
      in upd_ring (SemQ x) (\<lambda>_. [])
           (upd_sem x (\<lambda>_. \<lparr>sem_magic = RT_SEM_MAGIC, sem_type = t, restype = r, sem_count = n,
                           owndby = ONull, qtype = q\<rparr>) s))"

definition rt_sem_init :: "nat \<Rightarrow> int \<Rightarrow> kst \<Rightarrow> kst" where
  "rt_sem_init x value s = rt_typed_sem_init x value CNT_SEM s"

definition rt_sem_count :: "nat \<Rightarrow> kst \<Rightarrow> int" where
  "rt_sem_count x s = sem_count (sems s x)"

definition sem_ok :: "nat \<Rightarrow> kst \<Rightarrow> bool" where
  "sem_ok x s \<longleftrightarrow> sem_magic (sems s x) = RT_SEM_MAGIC"

section \<open>Waking waiters\<close>

abbreviation (input) SEM_WAIT_BITS :: u32 where
  "SEM_WAIT_BITS \<equiv> RT_SCHED_SEMAPHORE OR RT_SCHED_DELAYED"

text \<open>\<^verbatim>\<open>if (task->state != READY && (task->state &= ~mask) == READY) enq_ready_task(task)\<close>,
  and whether the task was made ready.\<close>

definition release :: "u32 \<Rightarrow> nat \<Rightarrow> tid \<Rightarrow> kst \<Rightarrow> kst \<times> bool" where
  "release msk cpuid t s =
     (if state (tasks s t) \<noteq> RT_SCHED_READY then
        (let s1 = upd_task t (\<lambda>k. k\<lparr>state := state k AND NOT msk\<rparr>) s in
         if state (tasks s1 t) = RT_SCHED_READY then (enq_ready_task cpuid t s1, True) else (s1, False))
      else (s, False))"

text \<open>Taking a waiter out of its queue and of the timed list, and releasing it.\<close>

definition wake_waiter :: "nat \<Rightarrow> tid \<Rightarrow> kst \<Rightarrow> kst \<times> bool" where
  "wake_waiter cpuid t s = release SEM_WAIT_BITS cpuid t (rem_timed_task t (dequeue_blocked t s))"

definition sem_head :: "nat \<Rightarrow> kst \<Rightarrow> tid option" where
  "sem_head x s = (case qring s (SemQ x) of [] \<Rightarrow> None | t # _ \<Rightarrow> Some t)"

definition wake_head :: "nat \<Rightarrow> nat \<Rightarrow> kst \<Rightarrow> kst \<times> tid option \<times> bool" where
  "wake_head cpuid x s =
     (case sem_head x s of None \<Rightarrow> (s, None, False)
      | Some t \<Rightarrow> (case wake_waiter cpuid t s of (s1, w) \<Rightarrow> (s1, Some t, w)))"

section \<open>Deleting a task\<close>

text \<open>The count of a semaphore that a waiter leaves: one up, at most 1 unless the semaphore
  counts.\<close>

definition sem_give_back :: "nat \<Rightarrow> kst \<Rightarrow> kst" where
  "sem_give_back x s =
     upd_sem x (\<lambda>k. k\<lparr>sem_count := (let n = s32 (sem_count k + 1) in
        if n > 1 \<and> sem_type k \<noteq> 0 then 1 else n)\<rparr>) s"

text \<open>The tasks blocked in the message or return queue of a deleted task.\<close>

definition abandon :: "u32 \<Rightarrow> nat \<Rightarrow> tid \<Rightarrow> kst \<Rightarrow> kst" where
  "abandon msk cpuid u s =
     upd_task u (\<lambda>k. k\<lparr>blocked_on := BErr RT_OBJREM\<rparr>) (fst (release msk cpuid u (rem_timed_task u s)))"

text \<open>
  \<^verbatim>\<open>clr_rtext\<close>, with \<open>sig\<close> for \<^verbatim>\<open>sched_sem_signal\<close>, which it calls when the deleted
  task is waiting inside a mailbox. Exit handlers, the floating point owner and the release
  of the stack are not part of the model.
\<close>

definition clr_rtext_with ::
  "(nat \<Rightarrow> kst \<Rightarrow> kst option) \<Rightarrow> nat \<Rightarrow> tid \<Rightarrow> kst \<Rightarrow> (kst \<times> int) option" where
  "clr_rtext_with sig cpuid t s =
     (let cur = RT_CURRENT cpuid s in
      if \<not> valid_task t s \<or> prio s t = RT_SCHED_LINUX_PRIORITY then Some (s, - EINVAL)
      else if \<not> task_owns_sems t s \<or> t = cur \<or> prio s cur = RT_SCHED_LINUX_PRIORITY then
        (let s1 = rem_timed_task t s;
             k = tasks s1 t;
             blocked = (if blocked_on k = BNull then Some s1
               else if state k AND (RT_SCHED_SEMAPHORE OR RT_SCHED_SEND OR RT_SCHED_RPC OR RT_SCHED_RETURN) \<noteq> 0 then
                 (let s2 = unlink_blocked t s1 in
                  Some (case blocked_on k of
                          BQueue (SemQ x) \<Rightarrow> if state k AND RT_SCHED_SEMAPHORE \<noteq> 0 then sem_give_back x s2 else s2
                        | _ \<Rightarrow> s2))
               else if state k AND RT_SCHED_MBXSUSP \<noteq> 0 then
                 (case blocked_on k of
                    BMbx m \<Rightarrow>
                      (let s2 = upd_mbx m (\<lambda>b. b\<lparr>waiting_task := None\<rparr>) s1; b = mbxs s2 m in
                       sig (if frbs b = 0 then sndsem b else rcvsem b) s2)
                  | _ \<Rightarrow> Some s1)
               else Some s1)
         in case blocked of None \<Rightarrow> None
            | Some s2 \<Rightarrow>
                (let s3 = fold (abandon (RT_SCHED_SEND OR RT_SCHED_RPC OR RT_SCHED_DELAYED) cpuid)
                            (qring s2 (MsgQ t)) s2;
                     s4 = fold (abandon (RT_SCHED_RETURN OR RT_SCHED_DELAYED) cpuid) (qring s3 (RetQ t)) s3;
                     s5 = s4\<lparr>all_tasks := remove1 t (all_tasks s4)\<rparr>;
                     s6 = rem_ready_task t (upd_task t (\<lambda>k. k\<lparr>task_magic := 0\<rparr>) s5);
                     s7 = upd_task t (\<lambda>k. k\<lparr>state := 0\<rparr>) s6;
                     s8 = s7\<lparr>tasks_per_cpu := (tasks_per_cpu s7)(cpu_of s7 t := tasks_per_cpu s7 (cpu_of s7 t) - 1)\<rparr>
                 in Some (if t = cur then rt_schedule cpuid s8 else s8, 0)))
      else Some (upd_task t (\<lambda>k. k\<lparr>suspdepth := RT_RESEM_SUSPDEL\<rparr>) s, 0))"

section \<open>Signal\<close>

text \<open>
  \<^verbatim>\<open>rt_sem_signal\<close>. When the caller releases a resource while its suspension depth is
  negative, the code reads \<^verbatim>\<open>task->suspdepth\<close> of the task it woke, which is null when
  nobody waited. A deletion requested meanwhile applies to the running caller, which is
  blocked nowhere.
\<close>

definition sem_release_owner :: "nat \<Rightarrow> nat \<Rightarrow> tid option \<Rightarrow> bool \<Rightarrow> kst \<Rightarrow> kst option" where
  "sem_release_owner cpuid x task tosched s =
     (let cur = RT_CURRENT cpuid s;
          s1 = upd_sem x (\<lambda>k. k\<lparr>owndby := (case task of None \<Rightarrow> ONull | Some t \<Rightarrow> OTask t)\<rparr>) s;
          (s2, sched) = dequeue_resqel_reset_task_priority cpuid cur s1;
          d = suspdepth (tasks s2 cur);
          suspended = (if d > 0 then
              Some (rem_ready_current cur (upd_task cur (\<lambda>k. k\<lparr>state := state k OR RT_SCHED_SUSPENDED\<rparr>) s2), True)
            else if d < 0 then
              (case task of None \<Rightarrow> None
               | Some t \<Rightarrow> if suspdepth (tasks s2 t) = RT_RESEM_SUSPDEL
                           then map_option (\<lambda>(s3, _). (s3, sched)) (clr_rtext_with (\<lambda>_ s. Some s) cpuid cur s2)
                           else Some (s2, sched))
            else Some (s2, sched))
      in case suspended of None \<Rightarrow> None
         | Some (s3, sched) \<Rightarrow>
             Some (case task of
                     Some t \<Rightarrow> if sched then (if tosched then RT_SCHEDULE_BOTH t cpuid s3 else rt_schedule cpuid s3)
                               else if tosched then RT_SCHEDULE t cpuid s3 else s3
                   | None \<Rightarrow> if sched then rt_schedule cpuid s3 else s3))"

definition sem_count_up :: "nat \<Rightarrow> kst \<Rightarrow> kst" where
  "sem_count_up x s =
     upd_sem x (\<lambda>k. k\<lparr>sem_count := (let n = s32 (sem_count k + 1) in
        if sem_type k \<noteq> 0 \<and> n > 1 then 1 else n)\<rparr>) s"

definition rt_sem_signal :: "nat \<Rightarrow> nat \<Rightarrow> kst \<Rightarrow> (kst \<times> int) option" where
  "rt_sem_signal cpuid x s =
     (let k = sems s x in
      if \<not> sem_ok x s then Some (s, RTE_OBJINV)
      else if sem_type k \<noteq> 0 \<and> restype k \<noteq> 0 \<and> owndby k \<noteq> OTask (RT_CURRENT cpuid s) then Some (s, RTE_PERM)
      else if sem_type k > 1 then Some (upd_sem x (\<lambda>k. k\<lparr>sem_type := sem_type k - 1\<rparr>) s, 0)
      else
        (case wake_head cpuid x (sem_count_up x s) of
           (s1, task, woke) \<Rightarrow>
             if sem_type k \<le> 0 then
               Some (case task of Some t \<Rightarrow> if woke then RT_SCHEDULE t cpuid s1 else s1 | None \<Rightarrow> s1, 0)
             else
               (let s2 = (case task of
                            Some t \<Rightarrow> if woke then upd_task t (\<lambda>k. k\<lparr>running := - uint (state k AND RT_SCHED_DELAYED)\<rparr>) s1 else s1
                          | None \<Rightarrow> s1)
                in map_option (\<lambda>s3. (s3, 0)) (sem_release_owner cpuid x task woke s2))))"

definition clr_rtext :: "nat \<Rightarrow> tid \<Rightarrow> kst \<Rightarrow> (kst \<times> int) option" where
  "clr_rtext cpuid t s =
     clr_rtext_with (\<lambda>x s. map_option fst (rt_sem_signal cpuid x s)) cpuid t s"

definition rt_task_delete :: "nat \<Rightarrow> tid \<Rightarrow> kst \<Rightarrow> (kst \<times> int) option" where
  "rt_task_delete cpuid t s = map_option (\<lambda>(s1, _). (s1, 0)) (clr_rtext cpuid t s)"

section \<open>Delete and broadcast\<close>

text \<open>One waiter of a deleted semaphore: it is told that the object is gone only if this makes
  it ready. The queue keeps its links.\<close>

definition delete_waiter :: "nat \<Rightarrow> tid \<Rightarrow> kst \<times> nat set \<Rightarrow> kst \<times> nat set" where
  "delete_waiter cpuid t = (\<lambda>(s, schedmap).
     (let s1 = rem_timed_task t s in
      if state (tasks s1 t) \<noteq> RT_SCHED_READY then
        (let s2 = upd_task t (\<lambda>k. k\<lparr>state := state k AND NOT SEM_WAIT_BITS\<rparr>) s1 in
         if state (tasks s2 t) = RT_SCHED_READY
         then (enq_ready_task cpuid t (upd_task t (\<lambda>k. k\<lparr>blocked_on := BErr RT_OBJREM\<rparr>) s2),
               insert (cpu_of s2 t mod 32) schedmap)
         else (s2, schedmap))
      else (s1, schedmap)))"

definition rt_sem_delete :: "nat \<Rightarrow> nat \<Rightarrow> kst \<Rightarrow> (kst \<times> int) option" where
  "rt_sem_delete cpuid x s =
     (if \<not> sem_ok x s then Some (s, RTE_OBJINV)
      else
        (let s1 = upd_sem x (\<lambda>k. k\<lparr>sem_magic := 0\<rparr>) s;
             (s2, woken) = fold (delete_waiter cpuid) (qring s1 (SemQ x)) (s1, {});
             schedmap = woken - {cpuid};
             owner = (if sem_type (sems s2 x) > 0 then owner_task (owndby (sems s2 x)) else None);
             rest = (case owner of
                 None \<Rightarrow> Some (s2, woken \<noteq> {})
               | Some t \<Rightarrow>
                   (case dequeue_resqel_reset_task_priority cpuid t s2 of
                      (s3, b) \<Rightarrow>
                        if suspdepth (tasks s3 t) > 0 then
                          Some (rem_ready_task t (upd_task t (\<lambda>k. k\<lparr>state := state k OR RT_SCHED_SUSPENDED\<rparr>) s3), True)
                        else if suspdepth (tasks s3 t) = RT_RESEM_SUSPDEL then
                          map_option (\<lambda>(s4, _). (s4, woken \<noteq> {} \<or> b)) (rt_task_delete cpuid t s3)
                        else Some (s3, woken \<noteq> {} \<or> b)))
         in case rest of None \<Rightarrow> None
            | Some (s4, sched) \<Rightarrow>
                Some (if sched then (if schedmap \<noteq> {} then RT_SCHEDULE_MAP_BOTH cpuid schedmap s4
                                     else rt_schedule cpuid s4)
                      else s4, 0)))"

text \<open>\<^verbatim>\<open>rt_sem_broadcast\<close>; the loop takes the queue's first task until none is left. (The code
  lets interrupts in between two turns.)\<close>

fun broadcast_loop :: "nat \<Rightarrow> tid list \<Rightarrow> kst \<times> nat set \<Rightarrow> kst \<times> nat set" where
  "broadcast_loop cpuid [] r = r"
| "broadcast_loop cpuid (t # ts) (s, schedmap) =
     (case wake_waiter cpuid t s of
        (s1, w) \<Rightarrow> broadcast_loop cpuid ts (s1, if w then insert (cpu_of s1 t mod 32) schedmap else schedmap))"

text \<open>The loop gives up the global lock between two turns. Here it runs without anyone in between; a task that left the
  queue in between would not be met by the loop, one that joined it would be woken as well.\<close>

definition rt_sem_broadcast :: "nat \<Rightarrow> nat \<Rightarrow> kst \<Rightarrow> kst \<times> int" where
  "rt_sem_broadcast cpuid x s =
     (if \<not> sem_ok x s then (s, RTE_OBJINV)
      else
        (case broadcast_loop cpuid (qring s (SemQ x)) (s, {}) of
           (s1, schedmap) \<Rightarrow>
             (let s2 = upd_sem x (\<lambda>k. k\<lparr>sem_count := 0\<rparr>) s1 in
              (if schedmap = {} then s2
               else if cpuid \<in> schedmap then RT_SCHEDULE_MAP_BOTH cpuid (schedmap - {cpuid}) s2
               else RT_SCHEDULE_MAP schedmap s2, 0))))"

section \<open>Wait\<close>

definition take_sem :: "nat \<Rightarrow> tid \<Rightarrow> kst \<Rightarrow> kst" where
  "take_sem x t s =
     (if sem_type (sems s x) > 0 then enqueue_resqel t (upd_sem x (\<lambda>k. k\<lparr>owndby := OTask t\<rparr>) s) else s)"

definition sem_count_down :: "nat \<Rightarrow> kst \<Rightarrow> kst" where
  "sem_count_down x s = upd_sem x (\<lambda>k. k\<lparr>sem_count := s32 (sem_count k - 1)\<rparr>) s"

text \<open>
  \<^verbatim>\<open>UBI_MAIOR_MINOR_CESSAT_WAIT\<close>: an owner that was given the resource but has not run
  since gives way to a more urgent caller. The result is \<open>None\<close> when the macro falls
  through.
\<close>

definition UBI_MAIOR_MINOR_CESSAT_WAIT :: "nat \<Rightarrow> nat \<Rightarrow> kst \<Rightarrow> kst option" where
  "UBI_MAIOR_MINOR_CESSAT_WAIT cpuid x s =
     (case owner_task (owndby (sems s x)) of None \<Rightarrow> None
      | Some t \<Rightarrow>
          (let cur = RT_CURRENT cpuid s; k = tasks s t in
           if prio s cur < prio s t \<and> running k \<le> 0 then
             (let s1 = (if running k = 0 then
                          upd_task t (\<lambda>k. k\<lparr>state := state k OR RT_SCHED_SEMAPHORE\<rparr>) (rem_ready_task t (sem_count_down x s))
                        else if resume_time k > rt_smp_time_h s (runnable_on_cpus k) then
                          enq_timed_task t (upd_task t (\<lambda>k. k\<lparr>state := state k OR SEM_WAIT_BITS\<rparr>)
                            (rem_ready_task t (sem_count_down x s)))
                        else s)
              in Some (enqueue_resqel cur (upd_sem x (\<lambda>k. k\<lparr>owndby := OTask cur\<rparr>)
                         (enqueue_blocked t (SemQ x) PRIO_Q s1))))
           else None))"

text \<open>A resource the caller already owns: a recursive one counts up, a checked one reports the
  deadlock; \<open>None\<close> when the caller is not its owner or the type does not check.\<close>

definition own_again :: "nat \<Rightarrow> nat \<Rightarrow> kst \<Rightarrow> (kst \<times> int) option" where
  "own_again cpuid x s =
     (let k = sems s x in
      if restype k \<noteq> 0 \<and> owndby k = OTask (RT_CURRENT cpuid s)
      then (if restype k > 0
            then Some (upd_sem x (\<lambda>k. k\<lparr>sem_type := s32 (sem_type k + 1)\<rparr>) s, s32 (sem_type k + 1))
            else Some (s, RTE_DEADLOK))
      else None)"

text \<open>The way in for a resource that is taken: overtaking, recursion, or passing the caller's
  priority to the owner and waiting.\<close>

definition resource_busy :: "nat \<Rightarrow> nat \<Rightarrow> kst \<Rightarrow> (kst \<times> int) option" where
  "resource_busy cpuid x s =
     (if sem_type (sems s x) > 0 then
        (case UBI_MAIOR_MINOR_CESSAT_WAIT cpuid x s of
           Some s1 \<Rightarrow> Some (s1, 1)
         | None \<Rightarrow> own_again cpuid x s)
      else None)"

definition pass_to_owner :: "nat \<Rightarrow> nat \<Rightarrow> kst \<Rightarrow> kst \<times> nat set" where
  "pass_to_owner cpuid x s =
     (if sem_type (sems s x) > 0
      then pass_prio cpuid (owner_task (owndby (sems s x))) (RT_CURRENT cpuid s) s else (s, {}))"

definition rt_sem_wait :: "nat \<Rightarrow> nat \<Rightarrow> kst \<Rightarrow> kst \<times> int option" where
  "rt_sem_wait cpuid x s =
     (let cur = RT_CURRENT cpuid s; count = sem_count (sems s x) in
      if \<not> sem_ok x s then (s, Some RTE_OBJINV)
      else if count \<le> 0 then
        (case resource_busy cpuid x s of
           Some (s1, r) \<Rightarrow> (s1, Some r)
         | None \<Rightarrow>
             (case pass_to_owner cpuid x s of
                (s1, schedmap) \<Rightarrow>
                  (RT_SCHEDULE_MAP_BOTH cpuid schedmap
                     (enqueue_blocked cur (SemQ x) (qtype (sems s x))
                        (rem_ready_current cur
                           (upd_task cur (\<lambda>k. k\<lparr>state := state k OR RT_SCHED_SEMAPHORE\<rparr>) (sem_count_down x s1)))),
                   None)))
      else (take_sem x cur (sem_count_down x s), Some count))"

text \<open>After the wait: the caller was given the semaphore, or the semaphore is gone, or the wait
  ended otherwise.\<close>

definition leave_queue :: "nat \<Rightarrow> nat \<Rightarrow> tid \<Rightarrow> kst \<Rightarrow> kst" where
  "leave_queue cpuid x t s =
     (let s1 = sem_give_back x (dequeue_blocked t s) in
      if sem_type (sems s1 x) > 0 then
        (case owner_task (owndby (sems s1 x)) of
           Some u \<Rightarrow> fst (set_task_prio_from_resq cpuid u s1) | None \<Rightarrow> s1)
      else s1)"

definition rt_sem_wait_resume :: "nat \<Rightarrow> nat \<Rightarrow> tid \<Rightarrow> kst \<Rightarrow> kst \<times> int" where
  "rt_sem_wait_resume cpuid x t s =
     (case blocked_on (tasks s t) of
        BNull \<Rightarrow> (take_sem x t s, sem_count (sems s x))
      | r \<Rightarrow> if r = BErr RT_OBJREM then (s, RTE_OBJREM) else (leave_queue cpuid x t s, RTE_UNBLKD))"

definition rt_sem_wait_if :: "nat \<Rightarrow> nat \<Rightarrow> kst \<Rightarrow> kst \<times> int" where
  "rt_sem_wait_if cpuid x s =
     (let count = sem_count (sems s x) in
      if \<not> sem_ok x s then (s, RTE_OBJINV)
      else if count \<le> 0 then
        (case (if sem_type (sems s x) > 0 then UBI_MAIOR_MINOR_CESSAT_WAIT cpuid x s else None) of
           Some s1 \<Rightarrow> (s1, 1)
         | None \<Rightarrow> (case own_again cpuid x s of Some r \<Rightarrow> r | None \<Rightarrow> (s, count)))
      else (take_sem x (RT_CURRENT cpuid s) (sem_count_down x s), count))"

definition rt_sem_wait_until_resume :: "nat \<Rightarrow> nat \<Rightarrow> tid \<Rightarrow> kst \<Rightarrow> kst \<times> int" where
  "rt_sem_wait_until_resume cpuid x t s =
     (case blocked_on (tasks s t) of
        BNull \<Rightarrow> (take_sem x t s, sem_count (sems s x))
      | r \<Rightarrow> if r = BErr RT_OBJREM then (s, RTE_OBJREM)
             else (leave_queue cpuid x t s, if blk_is_adr r then RTE_TIMOUT else RTE_UNBLKD))"

definition rt_sem_wait_until :: "nat \<Rightarrow> nat \<Rightarrow> int \<Rightarrow> kst \<Rightarrow> kst \<times> int option" where
  "rt_sem_wait_until cpuid x time s =
     (let cur = RT_CURRENT cpuid s; count = sem_count (sems s x) in
      if \<not> sem_ok x s then (s, Some RTE_OBJINV)
      else if count \<le> 0 then
        (let s0 = upd_task cur (\<lambda>k. k\<lparr>blocked_on := BQueue (SemQ x), resume_time := time\<rparr>) s in
         if time > rt_smp_time_h s0 cpuid then
           (case resource_busy cpuid x s0 of
              Some (s1, r) \<Rightarrow> (s1, Some r)
            | None \<Rightarrow>
                (case pass_to_owner cpuid x s0 of
                   (s1, schedmap) \<Rightarrow>
                     (RT_SCHEDULE_MAP_BOTH cpuid schedmap
                        (enq_timed_task cur
                           (enqueue_blocked cur (SemQ x) (qtype (sems s x))
                              (rem_ready_current cur
                                 (upd_task cur (\<lambda>k. k\<lparr>state := state k OR SEM_WAIT_BITS\<rparr>) (sem_count_down x s1))))),
                      None)))
         else
           (case rt_sem_wait_until_resume cpuid x cur (sem_count_down x s0) of (s1, r) \<Rightarrow> (s1, Some r)))
      else (take_sem x cur (sem_count_down x s), Some count))"

definition rt_sem_wait_timed :: "nat \<Rightarrow> nat \<Rightarrow> int \<Rightarrow> kst \<Rightarrow> kst \<times> int option" where
  "rt_sem_wait_timed cpuid x delay s = rt_sem_wait_until cpuid x (rt_get_time s + delay) s"

section \<open>Barriers\<close>

text \<open>The first use stores the number of tasks to wait for in \<open>owndby\<close>. (A task pointer there,
  read as a signed number, is negative.)\<close>

definition barrier_size :: "owner \<Rightarrow> int" where
  "barrier_size w = (case w of ONum n \<Rightarrow> n | ONull \<Rightarrow> 0 | OTask _ \<Rightarrow> -1)"

definition barrier_open :: "nat \<Rightarrow> kst \<Rightarrow> kst" where
  "barrier_open x s =
     (if owndby (sems s x) = ONull
      then upd_sem x (\<lambda>k. k\<lparr>owndby := ONum (if sem_count k < 1 then 1 else sem_count k),
                           sem_count := 0, sem_type := 0\<rparr>) s
      else s)"

definition rt_sem_wait_barrier :: "nat \<Rightarrow> nat \<Rightarrow> kst \<Rightarrow> kst \<times> int option" where
  "rt_sem_wait_barrier cpuid x s =
     (if \<not> sem_ok x s then (s, Some RTE_OBJINV)
      else
        (let s1 = barrier_open x s in
         if s32 (1 - sem_count (sems s1 x)) < barrier_size (owndby (sems s1 x))
         then (case rt_sem_wait cpuid x s1 of (s2, r) \<Rightarrow> (s2, map_option (\<lambda>_. -1) r))
         else (fst (rt_sem_broadcast cpuid x s1), Some 0)))"

section \<open>Condition variables\<close>

definition rt_cond_signal :: "nat \<Rightarrow> nat \<Rightarrow> kst \<Rightarrow> kst \<times> int" where
  "rt_cond_signal cpuid x s =
     (if \<not> sem_ok x s then (s, RTE_OBJINV)
      else (case wake_head cpuid x s of
              (s1, Some t, True) \<Rightarrow> (RT_SCHEDULE t cpuid s1, 0)
            | (s1, _, _) \<Rightarrow> (s1, 0)))"

text \<open>\<^verbatim>\<open>rt_cndmtx_signal\<close>: gives the mutex away entirely, whatever its recursion depth, and
  returns that depth.\<close>

definition rt_cndmtx_signal :: "nat \<Rightarrow> nat \<Rightarrow> kst \<Rightarrow> kst \<times> int" where
  "rt_cndmtx_signal cpuid x s =
     (let cur = RT_CURRENT cpuid s;
          type = sem_type (sems s x);
          s1 = upd_sem x (\<lambda>k. k\<lparr>sem_type := (if type > 1 then 1 else type),
                 sem_count := (let n = s32 (sem_count k + 1) in if n > 1 then 1 else n)\<rparr>) s;
          (s2, task, woke) = wake_head cpuid x s1;
          s3 = (case task of
                  Some t \<Rightarrow> if woke then upd_task t (\<lambda>k. k\<lparr>running := - uint (state k AND RT_SCHED_DELAYED)\<rparr>) s2 else s2
                | None \<Rightarrow> s2);
          s4 = fst (dequeue_resqel_reset_task_priority cpuid cur (upd_sem x (\<lambda>k. k\<lparr>owndby := ONull\<rparr>) s3))
      in (case task of Some t \<Rightarrow> RT_SCHEDULE_BOTH t cpuid s4 | None \<Rightarrow> rt_schedule cpuid s4, type))"

text \<open>The first part of \<^verbatim>\<open>rt_cond_wait\<close>: an error code, or the recursion depth to restore
  later.\<close>

definition rt_cond_wait :: "nat \<Rightarrow> nat \<Rightarrow> nat \<Rightarrow> kst \<Rightarrow> kst \<times> (int + int)" where
  "rt_cond_wait cpuid cnd mtx s =
     (let cur = RT_CURRENT cpuid s in
      if \<not> sem_ok cnd s \<or> \<not> sem_ok mtx s then (s, Inl RTE_OBJINV)
      else if owndby (sems s mtx) \<noteq> OTask cur then (s, Inl RTE_PERM)
      else
        (case rt_cndmtx_signal cpuid mtx
                (enqueue_blocked cur (SemQ cnd) (qtype (sems s cnd))
                   (rem_ready_current cur
                      (upd_task cur (\<lambda>k. k\<lparr>state := state k OR RT_SCHED_SEMAPHORE\<rparr>) s))) of
           (s1, type) \<Rightarrow> (s1, Inr type)))"

text \<open>When the caller runs again it fixes its result and waits for the mutex; with the mutex it
  gets its recursion depth back.\<close>

definition rt_cond_wait_resume :: "nat \<Rightarrow> nat \<Rightarrow> nat \<Rightarrow> tid \<Rightarrow> kst \<Rightarrow> kst \<times> int \<times> int option" where
  "rt_cond_wait_resume cpuid cnd mtx t s =
     (let (s1, retval) =
        (case blocked_on (tasks s t) of
           BNull \<Rightarrow> (s, 0)
         | r \<Rightarrow> if r = BErr RT_OBJREM then (s, RTE_OBJREM) else (dequeue_blocked t s, RTE_UNBLKD))
      in case rt_sem_wait cpuid mtx s1 of (s2, r) \<Rightarrow> (s2, retval, r))"

definition rt_cond_relock :: "nat \<Rightarrow> int \<Rightarrow> int \<Rightarrow> kst \<Rightarrow> kst" where
  "rt_cond_relock mtx type r s =
     (if r < RTE_LOWERR then upd_sem mtx (\<lambda>k. k\<lparr>sem_type := type\<rparr>) s else s)"

definition rt_cond_wait_until :: "nat \<Rightarrow> nat \<Rightarrow> nat \<Rightarrow> int \<Rightarrow> kst \<Rightarrow> kst \<times> (int + int)" where
  "rt_cond_wait_until cpuid cnd mtx time s =
     (let cur = RT_CURRENT cpuid s in
      if \<not> sem_ok cnd s \<or> \<not> sem_ok mtx s then (s, Inl RTE_OBJINV)
      else if owndby (sems s mtx) \<noteq> OTask cur then (s, Inl RTE_PERM)
      else
        (let s0 = upd_task cur (\<lambda>k. k\<lparr>resume_time := time\<rparr>) s in
         if time > rt_smp_time_h s0 cpuid then
           (case rt_cndmtx_signal cpuid mtx
                   (enq_timed_task cur
                      (enqueue_blocked cur (SemQ cnd) (qtype (sems s cnd))
                         (rem_ready_current cur
                            (upd_task cur (\<lambda>k. k\<lparr>state := state k OR SEM_WAIT_BITS\<rparr>) s0)))) of
              (s1, type) \<Rightarrow> (s1, Inr type))
         else (s0, Inl RTE_TIMOUT)))"

definition rt_cond_wait_until_resume :: "nat \<Rightarrow> nat \<Rightarrow> nat \<Rightarrow> tid \<Rightarrow> kst \<Rightarrow> kst \<times> int \<times> int option" where
  "rt_cond_wait_until_resume cpuid cnd mtx t s =
     (let (s1, retval) =
        (case blocked_on (tasks s t) of
           BNull \<Rightarrow> (s, 0)
         | r \<Rightarrow> if r = BErr RT_OBJREM then (s, RTE_OBJREM)
                else (dequeue_blocked t s, if blk_is_adr r then RTE_TIMOUT else RTE_UNBLKD))
      in case rt_sem_wait cpuid mtx s1 of (s2, r) \<Rightarrow> (s2, retval, r))"

definition rt_cond_wait_timed :: "nat \<Rightarrow> nat \<Rightarrow> nat \<Rightarrow> int \<Rightarrow> kst \<Rightarrow> kst \<times> (int + int)" where
  "rt_cond_wait_timed cpuid cnd mtx delay s = rt_cond_wait_until cpuid cnd mtx (rt_get_time s + delay) s"

section \<open>Read-write locks\<close>

text \<open>Three semaphores; \<open>owndby\<close> of the readers' one is the number of readers.\<close>

record rwl =
  wrmtx :: nat
  wrsem :: nat
  rdsem :: nat

definition readers :: "rwl \<Rightarrow> kst \<Rightarrow> int" where
  "readers rw s = (case owndby (sems s (rdsem rw)) of ONum n \<Rightarrow> n | ONull \<Rightarrow> 0 | OTask _ \<Rightarrow> 1)"

definition set_readers :: "rwl \<Rightarrow> int \<Rightarrow> kst \<Rightarrow> kst" where
  "set_readers rw n s =
     upd_sem (rdsem rw) (\<lambda>k. k\<lparr>owndby := (if s32 n = 0 then ONull else ONum (s32 n))\<rparr>) s"

definition rt_typed_rwl_init :: "rwl \<Rightarrow> int \<Rightarrow> kst \<Rightarrow> kst" where
  "rt_typed_rwl_init rw type s =
     rt_typed_sem_init (rdsem rw) 0 (CNT_SEM + PRIO_Q)
       (rt_typed_sem_init (wrsem rw) 0 (CNT_SEM + PRIO_Q)
          (rt_typed_sem_init (wrmtx rw) type RES_SEM s))"

definition rt_rwl_delete :: "nat \<Rightarrow> rwl \<Rightarrow> kst \<Rightarrow> (kst \<times> int) option" where
  "rt_rwl_delete cpuid rw s =
     (case rt_sem_delete cpuid (rdsem rw) s of None \<Rightarrow> None
      | Some (s1, r1) \<Rightarrow>
          (case rt_sem_delete cpuid (wrsem rw) s1 of None \<Rightarrow> None
           | Some (s2, r2) \<Rightarrow>
               (case rt_sem_delete cpuid (wrmtx rw) s2 of None \<Rightarrow> None
                | Some (s3, r3) \<Rightarrow> Some (s3, if r1 = 0 \<and> r2 = 0 \<and> r3 = 0 then 0 else RTE_OBJINV))))"

text \<open>What one turn of a locking loop ends with: the lock call returns, the loop tests again,
  or the caller waits (and tests again when its wait ends without error).\<close>

datatype turn = Done int | Again | Waits

definition after_wait :: "int option \<Rightarrow> turn" where
  "after_wait r = (case r of None \<Rightarrow> Waits | Some n \<Rightarrow> if n \<ge> RTE_LOWERR then Done n else Again)"

definition rd_blocked :: "nat \<Rightarrow> rwl \<Rightarrow> kst \<Rightarrow> bool" where
  "rd_blocked cpuid rw s \<longleftrightarrow> owndby (sems s (wrmtx rw)) \<noteq> ONull \<or>
     (case sem_head (wrsem rw) s of None \<Rightarrow> False | Some w \<Rightarrow> prio s w \<le> prio s (RT_CURRENT cpuid s))"

definition rt_rwl_rdlock_turn :: "nat \<Rightarrow> rwl \<Rightarrow> kst \<Rightarrow> kst \<times> turn" where
  "rt_rwl_rdlock_turn cpuid rw s =
     (if rd_blocked cpuid rw s then
        (if owndby (sems s (wrmtx rw)) = OTask (RT_CURRENT cpuid s) then (s, Done RTE_RWLINV)
         else (case rt_sem_wait cpuid (rdsem rw) s of (s1, r) \<Rightarrow> (s1, after_wait r)))
      else (set_readers rw (readers rw s + 1) s, Done 0))"

definition rt_rwl_rdlock_if :: "nat \<Rightarrow> rwl \<Rightarrow> kst \<Rightarrow> kst \<times> int" where
  "rt_rwl_rdlock_if cpuid rw s =
     (if \<not> rd_blocked cpuid rw s then (set_readers rw (readers rw s + 1) s, 0) else (s, -1))"

definition rt_rwl_rdlock_until_turn :: "nat \<Rightarrow> rwl \<Rightarrow> int \<Rightarrow> kst \<Rightarrow> kst \<times> turn" where
  "rt_rwl_rdlock_until_turn cpuid rw time s =
     (if rd_blocked cpuid rw s then
        (if owndby (sems s (wrmtx rw)) = OTask (RT_CURRENT cpuid s) then (s, Done RTE_RWLINV)
         else (case rt_sem_wait_until cpuid (rdsem rw) time s of (s1, r) \<Rightarrow> (s1, after_wait r)))
      else (set_readers rw (readers rw s + 1) s, Done 0))"

definition rt_rwl_rdlock_timed_turn :: "nat \<Rightarrow> rwl \<Rightarrow> int \<Rightarrow> kst \<Rightarrow> kst \<times> turn" where
  "rt_rwl_rdlock_timed_turn cpuid rw delay s =
     rt_rwl_rdlock_until_turn cpuid rw (rt_get_time s + delay) s"

text \<open>A turn of \<^verbatim>\<open>rt_rwl_wrlock\<close>: while there are readers it waits for \<open>wrsem\<close>, then it
  takes the mutex.\<close>

definition rt_rwl_wrlock_turn :: "nat \<Rightarrow> rwl \<Rightarrow> kst \<Rightarrow> kst \<times> turn" where
  "rt_rwl_wrlock_turn cpuid rw s =
     (if readers rw s \<noteq> 0 then
        (case rt_sem_wait cpuid (wrsem rw) s of (s1, r) \<Rightarrow> (s1, after_wait r))
      else
        (case rt_sem_wait cpuid (wrmtx rw) s of
           (s1, None) \<Rightarrow> (s1, Waits)
         | (s1, Some n) \<Rightarrow> (s1, Done (if n \<ge> RTE_LOWERR then n else 0))))"

definition rt_rwl_wrlock_if :: "nat \<Rightarrow> rwl \<Rightarrow> kst \<Rightarrow> kst \<times> int" where
  "rt_rwl_wrlock_if cpuid rw s =
     (if readers rw s = 0 then
        (case rt_sem_wait_if cpuid (wrmtx rw) s of
           (s1, r) \<Rightarrow> (s1, if r > 0 \<and> r < RTE_LOWERR then 0 else -1))
      else (s, -1))"

definition rt_rwl_wrlock_until_turn :: "nat \<Rightarrow> rwl \<Rightarrow> int \<Rightarrow> kst \<Rightarrow> kst \<times> turn" where
  "rt_rwl_wrlock_until_turn cpuid rw time s =
     (if readers rw s \<noteq> 0 then
        (case rt_sem_wait_until cpuid (wrsem rw) time s of (s1, r) \<Rightarrow> (s1, after_wait r))
      else
        (case rt_sem_wait_until cpuid (wrmtx rw) time s of
           (s1, None) \<Rightarrow> (s1, Waits)
         | (s1, Some n) \<Rightarrow> (s1, Done (if n \<ge> RTE_LOWERR then n else 0))))"

definition rt_rwl_wrlock_timed_turn :: "nat \<Rightarrow> rwl \<Rightarrow> int \<Rightarrow> kst \<Rightarrow> kst \<times> turn" where
  "rt_rwl_wrlock_timed_turn cpuid rw delay s =
     rt_rwl_wrlock_until_turn cpuid rw (rt_get_time s + delay) s"

definition rwl_wake_next :: "nat \<Rightarrow> rwl \<Rightarrow> kst \<Rightarrow> kst option" where
  "rwl_wake_next cpuid rw s =
     (if owndby (sems s (wrmtx rw)) = ONull \<and> readers rw s = 0 then
        (case (sem_head (wrsem rw) s, sem_head (rdsem rw) s) of
           (Some w, Some r) \<Rightarrow>
             if prio s w \<le> prio s r then map_option fst (rt_sem_signal cpuid (wrsem rw) s)
             else Some (fst (rt_sem_broadcast cpuid (rdsem rw) s))
         | (Some _, None) \<Rightarrow> map_option fst (rt_sem_signal cpuid (wrsem rw) s)
         | (None, Some _) \<Rightarrow> Some (fst (rt_sem_broadcast cpuid (rdsem rw) s))
         | (None, None) \<Rightarrow> Some s)
      else Some s)"

text \<open>\<^verbatim>\<open>rt_rwl_unlock\<close> gives up the global lock between the release and the wake-up of the next tasks: these are two steps.
  \<open>rt_rwl_unlock\<close> itself is the call that nobody interrupts in between.\<close>

definition rwl_release :: "nat \<Rightarrow> rwl \<Rightarrow> kst \<Rightarrow> (kst \<times> int) option" where
  "rwl_release cpuid rw s =
     (if owndby (sems s (wrmtx rw)) = OTask (RT_CURRENT cpuid s)
      then map_option (\<lambda>(s1, _). (s1, 0)) (rt_sem_signal cpuid (wrmtx rw) s)
      else if readers rw s \<noteq> 0 then Some (set_readers rw (readers rw s - 1) s, 0)
      else Some (s, RTE_PERM))"

definition rt_rwl_unlock :: "nat \<Rightarrow> rwl \<Rightarrow> kst \<Rightarrow> (kst \<times> int) option" where
  "rt_rwl_unlock cpuid rw s =
     (case rwl_release cpuid rw s of None \<Rightarrow> None
      | Some (s1, r) \<Rightarrow> if r = 0 then map_option (\<lambda>s2. (s2, 0)) (rwl_wake_next cpuid rw s1) else Some (s1, r))"

section \<open>Recursive spinlocks\<close>

text \<open>\<^verbatim>\<open>rtai_save_flags_and_cli\<close> gives the saved interrupt flags; the lock keeps those of its
  first holder. An operation returns the flags it leaves.\<close>

record spl =
  spl_owndby :: "tid option"
  spl_count :: int
  spl_flags :: int

definition rt_spl_init :: "spl \<Rightarrow> spl" where
  "rt_spl_init l = l\<lparr>spl_owndby := None, spl_count := 0\<rparr>"

text \<open>One try of the \<^verbatim>\<open>cmpxchg\<close> loop of \<^verbatim>\<open>rt_spl_lock\<close>: \<open>None\<close> is another spin.\<close>

definition rt_spl_lock_try :: "tid \<Rightarrow> int \<Rightarrow> spl \<Rightarrow> (spl \<times> int) option" where
  "rt_spl_lock_try cur flags l =
     (if spl_owndby l = Some cur then Some (l\<lparr>spl_count := s32 (spl_count l + 1)\<rparr>, 0)
      else if spl_owndby l = None then Some (l\<lparr>spl_owndby := Some cur, spl_flags := flags\<rparr>, 0)
      else None)"

definition rt_spl_lock_if :: "tid \<Rightarrow> int \<Rightarrow> spl \<Rightarrow> spl \<times> int" where
  "rt_spl_lock_if cur flags l =
     (case rt_spl_lock_try cur flags l of Some r \<Rightarrow> r | None \<Rightarrow> (l, -1))"

text \<open>\<^verbatim>\<open>rt_spl_lock_timed\<close> at the times its loop reads: it tries once at least and gives up
  when the last time read has reached the end.\<close>

fun rt_spl_lock_timed :: "tid \<Rightarrow> int \<Rightarrow> int \<Rightarrow> int list \<Rightarrow> spl \<Rightarrow> spl \<times> int" where
  "rt_spl_lock_timed cur flags end_time [] l = rt_spl_lock_if cur flags l"
| "rt_spl_lock_timed cur flags end_time (now # ts) l =
     (case rt_spl_lock_try cur flags l of
        Some r \<Rightarrow> r
      | None \<Rightarrow> if now < end_time then rt_spl_lock_timed cur flags end_time ts l else (l, -1))"

text \<open>\<^verbatim>\<open>rt_spl_unlock\<close>: the lock, the result and the interrupt flags restored.\<close>

definition rt_spl_unlock :: "tid \<Rightarrow> int \<Rightarrow> spl \<Rightarrow> spl \<times> int \<times> int" where
  "rt_spl_unlock cur flags l =
     (if spl_owndby l = Some cur then
        (if spl_count l \<noteq> 0 then (l\<lparr>spl_count := s32 (spl_count l - 1)\<rparr>, 0, spl_flags l)
         else (l\<lparr>spl_owndby := None, spl_count := 0\<rparr>, 0, spl_flags l))
      else (l, -1, flags))"

section \<open>Frames\<close>

lemma RT_SCHEDULE_sel [simp]:
  "sems (RT_SCHEDULE t c s) = sems s"
  "qring (RT_SCHEDULE t c s) = qring s"
  "sched_locked (RT_SCHEDULE t c s) = sched_locked s"
  "tsc (RT_SCHEDULE t c s) = tsc s"
  "tuned (RT_SCHEDULE t c s) = tuned s"
  "all_tasks (RT_SCHEDULE t c s) = all_tasks s"
  "mbxs (RT_SCHEDULE t c s) = mbxs s"
  by (simp_all add: RT_SCHEDULE_def)


lemma RT_SCHEDULE_BOTH_sel [simp]:
  "sems (RT_SCHEDULE_BOTH t c s) = sems s"
  "qring (RT_SCHEDULE_BOTH t c s) = qring s"
  "sched_locked (RT_SCHEDULE_BOTH t c s) = sched_locked s"
  "tsc (RT_SCHEDULE_BOTH t c s) = tsc s"
  "tuned (RT_SCHEDULE_BOTH t c s) = tuned s"
  "all_tasks (RT_SCHEDULE_BOTH t c s) = all_tasks s"
  "mbxs (RT_SCHEDULE_BOTH t c s) = mbxs s"
  by (simp_all add: RT_SCHEDULE_BOTH_def)


lemma RT_SCHEDULE_MAP_sel [simp]:
  "sems (RT_SCHEDULE_MAP m s) = sems s"
  "qring (RT_SCHEDULE_MAP m s) = qring s"
  "sched_locked (RT_SCHEDULE_MAP m s) = sched_locked s"
  "tsc (RT_SCHEDULE_MAP m s) = tsc s"
  "tuned (RT_SCHEDULE_MAP m s) = tuned s"
  "all_tasks (RT_SCHEDULE_MAP m s) = all_tasks s"
  "mbxs (RT_SCHEDULE_MAP m s) = mbxs s"
  by (simp_all add: RT_SCHEDULE_MAP_def)


lemma RT_SCHEDULE_MAP_BOTH_sel [simp]:
  "sems (RT_SCHEDULE_MAP_BOTH c m s) = sems s"
  "qring (RT_SCHEDULE_MAP_BOTH c m s) = qring s"
  "sched_locked (RT_SCHEDULE_MAP_BOTH c m s) = sched_locked s"
  "tsc (RT_SCHEDULE_MAP_BOTH c m s) = tsc s"
  "tuned (RT_SCHEDULE_MAP_BOTH c m s) = tuned s"
  "all_tasks (RT_SCHEDULE_MAP_BOTH c m s) = all_tasks s"
  "mbxs (RT_SCHEDULE_MAP_BOTH c m s) = mbxs s"
  by (simp_all add: RT_SCHEDULE_MAP_BOTH_def)


lemma release_sel [simp]:
  "sems (fst (release m c t s)) = sems s"
  "qring (fst (release m c t s)) = qring s"
  "rtimed (fst (release m c t s)) = rtimed s"
  "rt_smp_current (fst (release m c t s)) = rt_smp_current s"
  "rt_smp_time_h (fst (release m c t s)) = rt_smp_time_h s"
  "sched_locked (fst (release m c t s)) = sched_locked s"
  "sched_rqsted (fst (release m c t s)) = sched_rqsted s"
  "sched_ipi (fst (release m c t s)) = sched_ipi s"
  "tick_time (fst (release m c t s)) = tick_time s"
  "intr_time (fst (release m c t s)) = intr_time s"
  "linux_time (fst (release m c t s)) = linux_time s"
  "linux_tick (fst (release m c t s)) = linux_tick s"
  "timer_shot_fired (fst (release m c t s)) = timer_shot_fired s"
  "timer_delay (fst (release m c t s)) = timer_delay s"
  "tsc (fst (release m c t s)) = tsc s"
  "tuned (fst (release m c t s)) = tuned s"
  "rt_half_tick (fst (release m c t s)) = rt_half_tick s"
  "all_tasks (fst (release m c t s)) = all_tasks s"
  "tasks_per_cpu (fst (release m c t s)) = tasks_per_cpu s"
  "rt_pid (fst (release m c t s)) = rt_pid s"
  "mbxs (fst (release m c t s)) = mbxs s"
  by (simp_all add: release_def Let_def)


lemma wake_waiter_sel [simp]:
  "sems (fst (wake_waiter c t s)) = sems s"
  "qring (fst (wake_waiter c t s)) = (\<lambda>q. remove1 t (qring s q))"
  "rt_smp_current (fst (wake_waiter c t s)) = rt_smp_current s"
  "rt_smp_time_h (fst (wake_waiter c t s)) = rt_smp_time_h s"
  "sched_locked (fst (wake_waiter c t s)) = sched_locked s"
  "sched_rqsted (fst (wake_waiter c t s)) = sched_rqsted s"
  "sched_ipi (fst (wake_waiter c t s)) = sched_ipi s"
  "tick_time (fst (wake_waiter c t s)) = tick_time s"
  "intr_time (fst (wake_waiter c t s)) = intr_time s"
  "linux_time (fst (wake_waiter c t s)) = linux_time s"
  "linux_tick (fst (wake_waiter c t s)) = linux_tick s"
  "timer_shot_fired (fst (wake_waiter c t s)) = timer_shot_fired s"
  "timer_delay (fst (wake_waiter c t s)) = timer_delay s"
  "tsc (fst (wake_waiter c t s)) = tsc s"
  "tuned (fst (wake_waiter c t s)) = tuned s"
  "rt_half_tick (fst (wake_waiter c t s)) = rt_half_tick s"
  "all_tasks (fst (wake_waiter c t s)) = all_tasks s"
  "tasks_per_cpu (fst (wake_waiter c t s)) = tasks_per_cpu s"
  "rt_pid (fst (wake_waiter c t s)) = rt_pid s"
  "mbxs (fst (wake_waiter c t s)) = mbxs s"
  by (simp_all add: wake_waiter_def)


lemma renq_ready_task_sel [simp]:
  "sems (fst (renq_ready_task c t v s)) = sems s"
  "qring (fst (renq_ready_task c t v s)) = qring s"
  "rtimed (fst (renq_ready_task c t v s)) = rtimed s"
  "rt_smp_current (fst (renq_ready_task c t v s)) = rt_smp_current s"
  "rt_smp_time_h (fst (renq_ready_task c t v s)) = rt_smp_time_h s"
  "sched_locked (fst (renq_ready_task c t v s)) = sched_locked s"
  "sched_rqsted (fst (renq_ready_task c t v s)) = sched_rqsted s"
  "sched_ipi (fst (renq_ready_task c t v s)) = sched_ipi s"
  "tick_time (fst (renq_ready_task c t v s)) = tick_time s"
  "intr_time (fst (renq_ready_task c t v s)) = intr_time s"
  "linux_time (fst (renq_ready_task c t v s)) = linux_time s"
  "linux_tick (fst (renq_ready_task c t v s)) = linux_tick s"
  "timer_shot_fired (fst (renq_ready_task c t v s)) = timer_shot_fired s"
  "timer_delay (fst (renq_ready_task c t v s)) = timer_delay s"
  "tsc (fst (renq_ready_task c t v s)) = tsc s"
  "tuned (fst (renq_ready_task c t v s)) = tuned s"
  "rt_half_tick (fst (renq_ready_task c t v s)) = rt_half_tick s"
  "all_tasks (fst (renq_ready_task c t v s)) = all_tasks s"
  "tasks_per_cpu (fst (renq_ready_task c t v s)) = tasks_per_cpu s"
  "rt_pid (fst (renq_ready_task c t v s)) = rt_pid s"
  "mbxs (fst (renq_ready_task c t v s)) = mbxs s"
  by (simp_all add: renq_ready_task_def Let_def)


lemma dequeue_resqel_sel [simp]:
  "sems (fst (dequeue_resqel_reset_task_priority c t s)) = sems s"
  "qring (fst (dequeue_resqel_reset_task_priority c t s)) = qring s"
  "rtimed (fst (dequeue_resqel_reset_task_priority c t s)) = rtimed s"
  "rt_smp_current (fst (dequeue_resqel_reset_task_priority c t s)) = rt_smp_current s"
  "rt_smp_time_h (fst (dequeue_resqel_reset_task_priority c t s)) = rt_smp_time_h s"
  "sched_locked (fst (dequeue_resqel_reset_task_priority c t s)) = sched_locked s"
  "sched_rqsted (fst (dequeue_resqel_reset_task_priority c t s)) = sched_rqsted s"
  "sched_ipi (fst (dequeue_resqel_reset_task_priority c t s)) = sched_ipi s"
  "tick_time (fst (dequeue_resqel_reset_task_priority c t s)) = tick_time s"
  "intr_time (fst (dequeue_resqel_reset_task_priority c t s)) = intr_time s"
  "linux_time (fst (dequeue_resqel_reset_task_priority c t s)) = linux_time s"
  "linux_tick (fst (dequeue_resqel_reset_task_priority c t s)) = linux_tick s"
  "timer_shot_fired (fst (dequeue_resqel_reset_task_priority c t s)) = timer_shot_fired s"
  "timer_delay (fst (dequeue_resqel_reset_task_priority c t s)) = timer_delay s"
  "tsc (fst (dequeue_resqel_reset_task_priority c t s)) = tsc s"
  "tuned (fst (dequeue_resqel_reset_task_priority c t s)) = tuned s"
  "rt_half_tick (fst (dequeue_resqel_reset_task_priority c t s)) = rt_half_tick s"
  "all_tasks (fst (dequeue_resqel_reset_task_priority c t s)) = all_tasks s"
  "tasks_per_cpu (fst (dequeue_resqel_reset_task_priority c t s)) = tasks_per_cpu s"
  "rt_pid (fst (dequeue_resqel_reset_task_priority c t s)) = rt_pid s"
  "mbxs (fst (dequeue_resqel_reset_task_priority c t s)) = mbxs s"
  by (simp_all add: dequeue_resqel_reset_task_priority_def set_prio_from_resq_def Let_def)


lemma set_task_prio_sel [simp]:
  "sems (fst (set_task_prio_from_resq c t s)) = sems s"
  "qring (fst (set_task_prio_from_resq c t s)) = qring s"
  "rtimed (fst (set_task_prio_from_resq c t s)) = rtimed s"
  "rt_smp_current (fst (set_task_prio_from_resq c t s)) = rt_smp_current s"
  "rt_smp_time_h (fst (set_task_prio_from_resq c t s)) = rt_smp_time_h s"
  "sched_locked (fst (set_task_prio_from_resq c t s)) = sched_locked s"
  "sched_rqsted (fst (set_task_prio_from_resq c t s)) = sched_rqsted s"
  "sched_ipi (fst (set_task_prio_from_resq c t s)) = sched_ipi s"
  "tick_time (fst (set_task_prio_from_resq c t s)) = tick_time s"
  "intr_time (fst (set_task_prio_from_resq c t s)) = intr_time s"
  "linux_time (fst (set_task_prio_from_resq c t s)) = linux_time s"
  "linux_tick (fst (set_task_prio_from_resq c t s)) = linux_tick s"
  "timer_shot_fired (fst (set_task_prio_from_resq c t s)) = timer_shot_fired s"
  "timer_delay (fst (set_task_prio_from_resq c t s)) = timer_delay s"
  "tsc (fst (set_task_prio_from_resq c t s)) = tsc s"
  "tuned (fst (set_task_prio_from_resq c t s)) = tuned s"
  "rt_half_tick (fst (set_task_prio_from_resq c t s)) = rt_half_tick s"
  "all_tasks (fst (set_task_prio_from_resq c t s)) = all_tasks s"
  "tasks_per_cpu (fst (set_task_prio_from_resq c t s)) = tasks_per_cpu s"
  "rt_pid (fst (set_task_prio_from_resq c t s)) = rt_pid s"
  "mbxs (fst (set_task_prio_from_resq c t s)) = mbxs s"
  by (simp_all add: set_task_prio_from_resq_def set_prio_from_resq_def)


end
