(* ===== verification/Sem_Thms.thy ===== *)
theory Sem_Thms
  imports Sem
begin

text \<open>
  What the semaphore services guarantee: the count of a semaphore always tells the number of
  its waiters, whatever sequence of waits, signals, time-outs, broadcasts and forced wake-ups
  it goes through; a signal hands the semaphore to the first waiter, which is the most urgent
  and among equals the longest waiting one; errors leave the state as it was.
\<close>

section \<open>Frames of the tasks\<close>

lemma suspdepth_frames [simp]:
  "suspdepth (tasks (fst (release m c t s)) u) = suspdepth (tasks s u)"
  "suspdepth (tasks (fst (wake_waiter c t s)) u) = suspdepth (tasks s u)"
  "suspdepth (tasks (fst (renq_ready_task c t v s)) u) = suspdepth (tasks s u)"
  "suspdepth (tasks (fst (dequeue_resqel_reset_task_priority c t s)) u) = suspdepth (tasks s u)"
  by (simp_all add: release_def wake_waiter_def renq_ready_task_def Let_def
      dequeue_resqel_reset_task_priority_def set_prio_from_resq_def)

lemma pass_prio_loop_sel:
  "sems (fst (pass_prio_loop n c to from m s)) = sems s"
  "ring_members s \<Longrightarrow> length (qring (fst (pass_prio_loop n c to from m s)) q) = length (qring s q)"
  "ring_members s \<Longrightarrow> set (qring (fst (pass_prio_loop n c to from m s)) q) = set (qring s q)"
proof (induction n arbitrary: to s)
  case (Suc n)
  {
    case 1
    show ?case using Suc.IH(1) by (auto simp: Let_def split: option.split)
  next
    case 2
    have len: "length (qring (requeue_blocked t r s') q) = length (qring s' q)" if "t \<in> set (qring s' r)" for t r s'
      using that by (auto simp: requeue_blocked_def length_remove1 dest: length_pos_if_in_set)
    have rm: "ring_members (upd_task t (\<lambda>k. k\<lparr>priority := v\<rparr>) s)" for t v
      using 2 by (auto simp: ring_members_def)
    have rm': "ring_members (requeue_blocked t r s')" if "ring_members s'" "t \<in> set (qring s' r)" for t r s'
      using that by (auto simp: ring_members_def set_requeue)
    have mem: "t \<in> set (qring s r)" if "pass_through t s = Some (r, nxt)" for t r nxt
      using 2 that by (auto simp: ring_members_def)
    show ?case using Suc.IH(2) rm rm' mem len
      by (auto simp: Let_def split: option.split)
  next
    case 3
    have rm: "ring_members (upd_task t (\<lambda>k. k\<lparr>priority := v\<rparr>) s)" for t v
      using 3 by (auto simp: ring_members_def)
    have rm': "ring_members (requeue_blocked t r s')" if "ring_members s'" "t \<in> set (qring s' r)" for t r s'
      using that by (auto simp: ring_members_def set_requeue)
    have mem: "t \<in> set (qring s r)" if "pass_through t s = Some (r, nxt)" for t r nxt
      using 3 that by (auto simp: ring_members_def)
    show ?case using Suc.IH(3) rm rm' mem set_requeue
      by (simp add: Let_def split: option.split)
  }
qed simp_all

lemma pass_to_owner_sel:
  "sems (fst (pass_to_owner c x s)) = sems s"
  "ring_members s \<Longrightarrow> length (qring (fst (pass_to_owner c x s)) q) = length (qring s q)"
  "ring_members s \<Longrightarrow> set (qring (fst (pass_to_owner c x s)) q) = set (qring s q)"
  by (simp_all add: pass_to_owner_def pass_prio_def pass_prio_loop_sel del: pass_prio_loop.simps)

section \<open>The count tells the waiters\<close>

text \<open>For a semaphore that was not created with a negative value: with no waiter the count is
  not negative, otherwise it is minus the number of waiters.\<close>

definition sem_wf :: "nat \<Rightarrow> kst \<Rightarrow> bool" where
  "sem_wf x s \<longleftrightarrow> (let ring = qring s (SemQ x); n = sem_count (sems s x) in
     -2147483648 < n \<and> n \<le> int_max \<and> (if ring = [] then 0 \<le> n else n = - int (length ring)))"

lemma sem_wf_cong:
  "length (qring s' (SemQ x)) = length (qring s (SemQ x)) \<Longrightarrow> sem_count (sems s' x) = sem_count (sems s x) \<Longrightarrow>
   sem_wf x s' = sem_wf x s"
  by (auto simp: sem_wf_def Let_def)

lemma sem_wf_waiting: "sem_wf x s \<Longrightarrow> sem_count (sems s x) \<le> 0 \<Longrightarrow>
   sem_count (sems s x) = - int (length (qring s (SemQ x)))"
  by (auto simp: sem_wf_def Let_def split: if_splits)

lemma sem_wf_free: "sem_wf x s \<Longrightarrow> 0 < sem_count (sems s x) \<Longrightarrow> qring s (SemQ x) = []"
  by (auto simp: sem_wf_def Let_def split: if_splits)

lemma sem_wfI_waiting:
  "sem_count (sems s x) = - int (length (qring s (SemQ x))) \<Longrightarrow> length (qring s (SemQ x)) < 2147483648 \<Longrightarrow> sem_wf x s"
  by (auto simp: sem_wf_def Let_def)

lemma sem_wf_length: "sem_wf x s \<Longrightarrow> length (qring s (SemQ x)) < 2147483648"
  by (auto simp: sem_wf_def Let_def split: if_splits)

lemma sem_wf_init:
  "0 \<le> v \<Longrightarrow> v \<le> int_max \<Longrightarrow> sem_wf x (rt_typed_sem_init x v type s)"
  by (auto simp: sem_wf_def rt_typed_sem_init_def Let_def)

lemma sems_upd_other [simp]: "x \<noteq> y \<Longrightarrow> sems (upd_sem x f s) y = sems s y"
  by simp

lemma sem_wf_wake_head:
  assumes "sem_wf x s" "sem_count (sems s x) < int_max"
    and s': "s' = fst (wake_head c x (sem_count_up x s))"
  shows "sem_wf x s'"
proof (cases "qring s (SemQ x)")
  case Nil
  then show ?thesis using assms
    by (auto simp: wake_head_def sem_head_def sem_count_up_def sem_wf_def Let_def)
next
  case (Cons t ts)
  have n: "sem_count (sems s x) = - int (Suc (length ts))"
    using assms(1) Cons by (auto simp: sem_wf_def Let_def)
  have "qring s' (SemQ x) = ts" "sem_count (sems s' x) = - int (length ts)"
    using Cons n sem_wf_length [OF assms(1)]
    by (simp_all add: s' wake_head_def sem_head_def sem_count_up_def split_beta Let_def)
  then show ?thesis using sem_wf_length [OF assms(1)] Cons by (intro sem_wfI_waiting) simp_all
qed

lemma sem_release_owner_sel:
  assumes "sem_release_owner c x task b s = Some s'" "0 \<le> suspdepth (tasks s (RT_CURRENT c s))"
  shows "qring s' = qring s" "sem_count (sems s' y) = sem_count (sems s y)" "sem_type (sems s' y) = sem_type (sems s y)"
  using assms
  by (auto simp: sem_release_owner_def Let_def split_beta split: if_splits option.splits)

lemma sem_wf_signal:
  assumes wf: "sem_wf x s" "sem_count (sems s x) < int_max" "0 \<le> suspdepth (tasks s (RT_CURRENT c s))"
    and sig: "rt_sem_signal c x s = Some (s', r)"
  shows "sem_wf x s'"
proof -
  obtain s1 task woke where wh: "wake_head c x (sem_count_up x s) = (s1, task, woke)"
    by (cases "wake_head c x (sem_count_up x s)")
  have s1: "s1 = fst (wake_head c x (sem_count_up x s))" using wh by simp
  have wf1: "sem_wf x s1" by (rule sem_wf_wake_head [OF wf(1,2) s1])
  have cur: "RT_CURRENT c s1 = RT_CURRENT c s" "suspdepth (tasks s1 u) = suspdepth (tasks s u)" for u
    by (simp_all add: s1 wake_head_def sem_count_up_def split_beta split: option.split)
  have rel: "sem_wf x s''"
    if "sem_release_owner c x task b s2 = Some s''" "qring s2 = qring s1" "sems s2 = sems s1"
      "RT_CURRENT c s2 = RT_CURRENT c s" "\<And>u. suspdepth (tasks s2 u) = suspdepth (tasks s u)" for task b s2 s''
  proof -
    have "0 \<le> suspdepth (tasks s2 (RT_CURRENT c s2))" using that(4,5) wf(3) by simp
    note sel = sem_release_owner_sel [OF that(1) this]
    have "sem_wf x s'' = sem_wf x s1" by (rule sem_wf_cong) (simp_all add: sel that)
    then show ?thesis using wf1 by blast
  qed
  consider "s' = s" | "s' = upd_sem x (\<lambda>k. k\<lparr>sem_type := sem_type k - 1\<rparr>) s"
    | t where "s' = RT_SCHEDULE t c s1" | "s' = s1"
    | "sem_release_owner c x task woke s1 = Some s'"
    | t f where "sem_release_owner c x task woke (upd_task t (\<lambda>k. k\<lparr>running := f k\<rparr>) s1) = Some s'"
    using sig wh by (auto simp: rt_sem_signal_def Let_def split: if_splits option.splits)
  then show ?thesis
  proof cases
    case 2
    then show ?thesis using wf(1) by (subst sem_wf_cong [of _ _ s]) simp_all
  next
    case 3
    then show ?thesis using wf1 by (subst sem_wf_cong [of _ _ s1]) simp_all
  next
    case 5
    then show ?thesis using rel cur by blast
  next
    case 6
    then show ?thesis using rel [OF 6(1)] cur by simp
  qed (use wf wf1 in simp_all)
qed


lemma sem_wf_blocks:
  assumes "sem_wf x s" "sem_count (sems s x) \<le> 0" "length (qring s (SemQ x)) < 2147483647"
    and "length (qring s' (SemQ x)) = Suc (length (qring s (SemQ x)))"
    and "sem_count (sems s' x) = s32 (sem_count (sems s x) - 1)"
  shows "sem_wf x s'"
  using assms sem_wf_waiting [OF assms(1,2)] by (intro sem_wfI_waiting) simp_all

lemma sem_wf_take:
  assumes "sem_wf x s" "0 < sem_count (sems s x)"
  shows "sem_wf x (take_sem x t (sem_count_down x s))"
  using assms sem_wf_free [OF assms]
  by (auto simp: sem_wf_def take_sem_def sem_count_down_def enqueue_resqel_def Let_def)

lemma sem_wf_UBI:
  assumes "sem_wf x s" "sem_count (sems s x) \<le> 0" "length (qring s (SemQ x)) < 2147483647"
    and "\<And>t. 0 \<le> running (tasks s t)" and "UBI_MAIOR_MINOR_CESSAT_WAIT c x s = Some s'"
  shows "sem_wf x s'"
proof -
  obtain t where t: "owner_task (owndby (sems s x)) = Some t"
    using assms(5) by (auto simp: UBI_MAIOR_MINOR_CESSAT_WAIT_def split: option.splits)
  have "running (tasks s t) = 0"
    using assms(4) [of t] assms(5) t by (auto simp: UBI_MAIOR_MINOR_CESSAT_WAIT_def Let_def split: if_splits)
  then have "s' = enqueue_resqel (RT_CURRENT c s) (upd_sem x (\<lambda>k. k\<lparr>owndby := OTask (RT_CURRENT c s)\<rparr>)
      (enqueue_blocked t (SemQ x) 0 (upd_task t (\<lambda>k. k\<lparr>state := state k OR RT_SCHED_SEMAPHORE\<rparr>)
         (rem_ready_task t (sem_count_down x s)))))"
    using assms(5) t by (auto simp: UBI_MAIOR_MINOR_CESSAT_WAIT_def Let_def split: if_splits)
  then show ?thesis
    by (intro sem_wf_blocks [OF assms(1-3)])
      (simp_all add: enqueue_resqel_def enqueue_blocked_def sem_count_down_def Let_def)
qed

lemma sem_wf_own_again:
  "sem_wf x s \<Longrightarrow> own_again c x s = Some (s', r) \<Longrightarrow> sem_wf x s'"
  by (auto simp: own_again_def Let_def sem_wf_def split: if_splits)

lemma sem_wf_resource_busy:
  assumes "sem_wf x s" "sem_count (sems s x) \<le> 0" "length (qring s (SemQ x)) < 2147483647"
    and "\<And>t. 0 \<le> running (tasks s t)" and "resource_busy c x s = Some (s', r)"
  shows "sem_wf x s'"
  using assms(5) sem_wf_UBI [OF assms(1-4)] sem_wf_own_again [OF assms(1)]
  by (auto simp: resource_busy_def split: if_splits option.splits)

text \<open>What a blocking wait does to the queue and the count.\<close>

lemma wait_blocks_sel:
  assumes "ring_members s"
  shows "length (qring (fst (pass_to_owner c x s)) (SemQ x)) = length (qring s (SemQ x))"
    and "sems (fst (pass_to_owner c x s)) = sems s"
  using assms by (simp_all add: pass_to_owner_sel)

lemma sem_wf_wait:
  assumes wf: "sem_wf x s" "ring_members s" "\<And>t. 0 \<le> running (tasks s t)"
      "length (qring s (SemQ x)) < 2147483647"
    and s': "s' = fst (rt_sem_wait c x s)"
  shows "sem_wf x s'"
proof (cases "sem_ok x s \<and> sem_count (sems s x) \<le> 0")
  case False
  then show ?thesis using wf sem_wf_take [OF wf(1)] by (auto simp: s' rt_sem_wait_def Let_def)
next
  case True
  show ?thesis
  proof (cases "resource_busy c x s")
    case (Some r)
    then show ?thesis using True sem_wf_resource_busy [OF wf(1) _ wf(4,3)]
      by (auto simp: s' rt_sem_wait_def Let_def split: prod.split)
  next
    case None
    obtain s1 m where p: "pass_to_owner c x s = (s1, m)" by (cases "pass_to_owner c x s")
    note sel = wait_blocks_sel [OF wf(2), of c x, unfolded p fst_conv]
    show ?thesis using True None
      by (intro sem_wf_blocks [OF wf(1) _ wf(4)])
        (simp_all add: s' rt_sem_wait_def p sel enqueue_blocked_def sem_count_down_def Let_def)
  qed
qed

lemma sem_wf_wait_if:
  assumes wf: "sem_wf x s" "\<And>t. 0 \<le> running (tasks s t)" "length (qring s (SemQ x)) < 2147483647"
    and s': "s' = fst (rt_sem_wait_if c x s)"
  shows "sem_wf x s'"
  using wf(1) sem_wf_UBI [OF wf(1) _ wf(3,2)] sem_wf_own_again [OF wf(1)] sem_wf_take [OF wf(1)]
  by (auto simp: s' rt_sem_wait_if_def Let_def split: option.split if_splits)

text \<open>A waiter that leaves on its own takes its place in the count with it.\<close>

lemma set_task_prio_wf: "sem_wf x (fst (set_task_prio_from_resq c u s)) = sem_wf x s"
  by (rule sem_wf_cong) simp_all

lemma sem_wf_leave_queue:
  assumes "sem_count (sems s x) \<le> 0"
    and "t \<in> set (qring s (SemQ x)) \<Longrightarrow> sem_wf x s"
    and "t \<notin> set (qring s (SemQ x)) \<Longrightarrow> sem_count (sems s x) = - int (length (qring s (SemQ x))) - 1 \<and>
           length (qring s (SemQ x)) < 2147483647"
  shows "sem_wf x (leave_queue c x t s)"
proof -
  have "sem_wf x (sem_give_back x (dequeue_blocked t s))"
  proof (cases "t \<in> set (qring s (SemQ x))")
    case True
    have n: "sem_count (sems s x) = - int (length (qring s (SemQ x)))" "length (qring s (SemQ x)) < 2147483648"
      using sem_wf_waiting [OF assms(2) [OF True] assms(1)] sem_wf_length [OF assms(2) [OF True]] by auto
    have "0 < length (qring s (SemQ x))" using True by (auto intro: length_pos_if_in_set)
    then show ?thesis using n True
      by (intro sem_wfI_waiting) (simp_all add: sem_give_back_def length_remove1 of_nat_diff Suc_leI Let_def)
  next
    case False
    then show ?thesis using assms(3)
      by (intro sem_wfI_waiting) (simp_all add: sem_give_back_def remove1_idem Let_def)
  qed
  then show ?thesis by (simp add: leave_queue_def set_task_prio_wf Let_def split: option.split)
qed

lemma sem_wf_take_only: "sem_wf x (take_sem x t s) = sem_wf x s"
  by (rule sem_wf_cong) (simp_all add: take_sem_def enqueue_resqel_def)

text \<open>The queue a task is blocked on contains it.\<close>

definition really_blocked :: "tid \<Rightarrow> nat \<Rightarrow> kst \<Rightarrow> bool" where
  "really_blocked t x s \<longleftrightarrow> (case blocked_on (tasks s t) of BNull \<Rightarrow> True | BErr e \<Rightarrow> e = RT_OBJREM \<or> t \<in> set (qring s (SemQ x))
     | _ \<Rightarrow> t \<in> set (qring s (SemQ x)))"

lemma ring_count: "sem_wf x s \<Longrightarrow> t \<in> set (qring s (SemQ x)) \<Longrightarrow> sem_count (sems s x) \<le> 0"
  by (cases "qring s (SemQ x)") (auto simp: sem_wf_def Let_def)

lemma sem_wf_wait_resume:
  assumes "sem_wf x s" "really_blocked t x s"
  shows "sem_wf x (fst (rt_sem_wait_resume c x t s))" "sem_wf x (fst (rt_sem_wait_until_resume c x t s))"
proof -
  have "sem_wf x (leave_queue c x t s)" if "t \<in> set (qring s (SemQ x))"
    using ring_count [OF assms(1) that] assms(1) that by (intro sem_wf_leave_queue) auto
  then show "sem_wf x (fst (rt_sem_wait_resume c x t s))" "sem_wf x (fst (rt_sem_wait_until_resume c x t s))"
    using assms
    by (auto simp: rt_sem_wait_resume_def rt_sem_wait_until_resume_def really_blocked_def sem_wf_take_only
        split: blk.splits)
qed

lemma ring_members_upd_blocked:
  assumes "ring_members s" "state (tasks s t) AND
      (RT_SCHED_SEMAPHORE OR RT_SCHED_SEND OR RT_SCHED_RPC OR RT_SCHED_RETURN) = 0"
  shows "ring_members (upd_task t (\<lambda>k. k\<lparr>blocked_on := b, resume_time := v\<rparr>) s)"
proof -
  have z: "state (tasks s t) AND RT_SCHED_SEMAPHORE = 0"
      "state (tasks s t) AND (RT_SCHED_SEND OR RT_SCHED_RPC OR RT_SCHED_RETURN) = 0"
    using assms(2) by (simp_all add: bit.conj_disj_distrib or_eq_0_iff del: or_numerals)
  let ?s = "upd_task t (\<lambda>k. k\<lparr>blocked_on := b, resume_time := v\<rparr>) s"
  have qt: "queue_task ?s q = queue_task s q" for q by (cases q) simp_all
  have "pass_through t ?s = None" using z by (simp add: pass_through_def split: blk.splits qref.splits)
  moreover have "pass_through u ?s = pass_through u s" if "u \<noteq> t" for u
    using that qt by (simp add: pass_through_def split: blk.split qref.split)
  ultimately have "pass_through u ?s = (if u = t then None else pass_through u s)" for u by simp
  then show ?thesis using assms(1) by (auto simp: ring_members_def split: if_splits)
qed

lemma sem_wf_wait_until:
  assumes wf: "sem_wf x s" "ring_members s" "\<And>t. 0 \<le> running (tasks s t)"
      "length (qring s (SemQ x)) < 2147483647"
    and cur: "state (tasks s (RT_CURRENT c s)) = RT_SCHED_READY" "RT_CURRENT c s \<notin> set (qring s (SemQ x))"
    and s': "s' = fst (rt_sem_wait_until c x time s)"
  shows "sem_wf x s'"
proof (cases "sem_ok x s \<and> sem_count (sems s x) \<le> 0")
  case False
  then show ?thesis using wf sem_wf_take [OF wf(1)] by (auto simp: s' rt_sem_wait_until_def Let_def)
next
  case True
  define s0 where "s0 = upd_task (RT_CURRENT c s) (\<lambda>k. k\<lparr>blocked_on := BQueue (SemQ x), resume_time := time\<rparr>) s"
  have f0: "sems s0 = sems s" "qring s0 = qring s" "RT_CURRENT c s0 = RT_CURRENT c s" "rt_smp_time_h s0 = rt_smp_time_h s"
    by (simp_all add: s0_def)
  have wf0: "sem_wf x s0" using wf(1) by (subst sem_wf_cong [of _ _ s]) (simp_all add: f0)
  have rm0: "ring_members s0" using ring_members_upd_blocked [OF wf(2)] cur(1) by (simp add: s0_def)
  have run0: "\<And>t. 0 \<le> running (tasks s0 t)" using wf(3) by (simp add: s0_def)
  note def' = rt_sem_wait_until_def [of c x time s, unfolded Let_def, folded s0_def]
  consider "\<not> rt_smp_time_h s c < time"
    | r where "rt_smp_time_h s c < time" "resource_busy c x s0 = Some r"
    | "rt_smp_time_h s c < time" "resource_busy c x s0 = None" by fastforce
  then show ?thesis
  proof cases
    case 1
    have "blocked_on (tasks (sem_count_down x s0) (RT_CURRENT c s)) = BQueue (SemQ x)"
      by (simp add: s0_def sem_count_down_def)
    then have "s' = leave_queue c x (RT_CURRENT c s) (sem_count_down x s0)"
      using True 1 by (simp add: s' def' f0 rt_sem_wait_until_resume_def)
    moreover have "sem_wf x (leave_queue c x (RT_CURRENT c s) (sem_count_down x s0))"
      using cur(2) True wf(4) sem_wf_waiting [OF wf(1)]
      by (intro sem_wf_leave_queue) (simp_all add: sem_count_down_def f0)
    ultimately show ?thesis by simp
  next
    case 2
    then show ?thesis using True sem_wf_resource_busy [OF wf0 _ _ run0] wf(4)
      by (auto simp: s' def' f0 split: prod.split)
  next
    case 3
    obtain s1 m where p: "pass_to_owner c x s0 = (s1, m)" by (cases "pass_to_owner c x s0")
    note sel = wait_blocks_sel [OF rm0, of c x, unfolded p fst_conv]
    show ?thesis using True 3
      by (intro sem_wf_blocks [OF wf(1) _ wf(4)])
        (simp_all add: s' def' f0 p sel enqueue_blocked_def sem_count_down_def Let_def)
  qed
qed

lemma broadcast_loop_sel:
  "qring (fst (broadcast_loop c ts (s, m))) q = fold remove1 ts (qring s q)"
  "sems (fst (broadcast_loop c ts (s, m))) = sems s"
  by (induction ts arbitrary: s m) (simp_all add: split_beta)

lemma fold_remove1_all [simp]: "fold remove1 ts (ts @ us) = us"
  by (induction ts) simp_all

lemma broadcast_empties: "qring (fst (broadcast_loop c (qring s q) (s, m))) q = []"
  using fold_remove1_all [of "qring s q" "[]"] by (simp add: broadcast_loop_sel)

lemma sem_wf_broadcast:
  assumes "sem_wf x s"
  shows "sem_wf x (fst (rt_sem_broadcast c x s))"
proof -
  obtain s1 m where b: "broadcast_loop c (qring s (SemQ x)) (s, {}) = (s1, m)"
    by (cases "broadcast_loop c (qring s (SemQ x)) (s, {})")
  have "qring s1 (SemQ x) = []" using broadcast_empties [of c s "SemQ x" "{}"] b by simp
  then show ?thesis using assms by (auto simp: rt_sem_broadcast_def b sem_wf_def Let_def)
qed

text \<open>
  Everything the kernel does to a semaphore. The premises say what the rest of the kernel
  sees to: a task blocked on a queue is in it, \<open>running\<close> is never negative, a caller is
  ready and in no queue, a caller that releases the semaphore was not resumed before its
  time, and the count stays in its range. Other services leave the count and the number of
  waiters alone.
\<close>

inductive sem_step :: "nat \<Rightarrow> kst \<Rightarrow> kst \<Rightarrow> bool" for x where
  step_wait: "ring_members s \<Longrightarrow> \<forall>t. 0 \<le> running (tasks s t) \<Longrightarrow> length (qring s (SemQ x)) < 2147483647 \<Longrightarrow>
    sem_step x s (fst (rt_sem_wait c x s))"
| step_wait_if: "\<forall>t. 0 \<le> running (tasks s t) \<Longrightarrow> length (qring s (SemQ x)) < 2147483647 \<Longrightarrow>
    sem_step x s (fst (rt_sem_wait_if c x s))"
| step_wait_until: "ring_members s \<Longrightarrow> \<forall>t. 0 \<le> running (tasks s t) \<Longrightarrow> length (qring s (SemQ x)) < 2147483647 \<Longrightarrow>
    state (tasks s (RT_CURRENT c s)) = RT_SCHED_READY \<Longrightarrow> RT_CURRENT c s \<notin> set (qring s (SemQ x)) \<Longrightarrow>
    sem_step x s (fst (rt_sem_wait_until c x time s))"
| step_resume: "really_blocked t x s \<Longrightarrow> sem_step x s (fst (rt_sem_wait_resume c x t s))"
| step_until_resume: "really_blocked t x s \<Longrightarrow> sem_step x s (fst (rt_sem_wait_until_resume c x t s))"
| step_signal: "sem_count (sems s x) < int_max \<Longrightarrow> 0 \<le> suspdepth (tasks s (RT_CURRENT c s)) \<Longrightarrow>
    rt_sem_signal c x s = Some (s', r) \<Longrightarrow> sem_step x s s'"
| step_broadcast: "sem_step x s (fst (rt_sem_broadcast c x s))"
| step_other: "length (qring s' (SemQ x)) = length (qring s (SemQ x)) \<Longrightarrow>
    sem_count (sems s' x) = sem_count (sems s x) \<Longrightarrow> sem_step x s s'"

lemma sem_step_wf: "sem_step x s s' \<Longrightarrow> sem_wf x s \<Longrightarrow> sem_wf x s'"
proof (induction rule: sem_step.induct)
  case (step_wait s c)
  then show ?case by (intro sem_wf_wait [OF _ _ _ _ refl]) blast+
next
  case (step_wait_if s c)
  then show ?case by (intro sem_wf_wait_if [OF _ _ _ refl]) blast+
next
  case (step_wait_until s c time)
  then show ?case by (intro sem_wf_wait_until [OF _ _ _ _ _ _ refl]) blast+
next
  case (step_signal s c s' r)
  then show ?case by (blast intro: sem_wf_signal)
next
  case (step_other s' s)
  then show ?case using sem_wf_cong [of s' x s] by blast
qed (blast intro: sem_wf_wait_resume sem_wf_broadcast)+

text \<open>C6. Whatever sequence of waits, tries, timed waits, wake-ups, signals and broadcasts a
  semaphore created with a non-negative value goes through, its count is minus the number of
  the tasks in its queue when some task waits, and not negative when none does.\<close>

theorem sem_count_tells_waiters:
  assumes "(sem_step x)\<^sup>*\<^sup>* (rt_typed_sem_init x v type s0) s" and "0 \<le> v" "v \<le> int_max"
  shows "(qring s (SemQ x) \<noteq> [] \<longrightarrow> rt_sem_count x s = - int (length (qring s (SemQ x)))) \<and>
    (qring s (SemQ x) = [] \<longrightarrow> 0 \<le> rt_sem_count x s)"
proof -
  have "sem_wf x s"
    using assms(1) sem_wf_init [OF assms(2,3)] by (induction rule: rtranclp_induct) (blast intro: sem_step_wf)+
  then show ?thesis by (auto simp: sem_wf_def rt_sem_count_def Let_def)
qed

text \<open>The small system with a semaphore of value 0 that its running task waits for.\<close>

definition demo_sem :: kst where
  "demo_sem = rt_typed_sem_init 7 0 CNT_SEM demo_run"

lemma demo_init_calm:
  "blocked_on (tasks demo_init t) = BNull" "running (tasks demo_init t) = 0" "qring demo_init = (\<lambda>_. [])"
  by (cases t; simp add: demo_simps fun_upd_def)+

lemma demo_run_calm:
  "blocked_on (tasks demo_run t) = BNull" "0 \<le> running (tasks demo_run t)" "qring demo_run = (\<lambda>_. [])"
proof -
  have r: "blocked_on (tasks demo_ready u) = BNull" "0 \<le> running (tasks demo_ready u)" "qring demo_ready = (\<lambda>_. [])" for u
    by (simp_all add: demo_ready_def rt_task_resume_def valid_task_def demo_init_tasks demo_init_calm Let_def
      rem_timed_task_def RT_SCHEDULE_def enq_ready_task_def)
  show "blocked_on (tasks demo_run t) = BNull" "0 \<le> running (tasks demo_run t)"
    by (simp_all add: demo_run_eq r)
  show "qring demo_run = (\<lambda>_. [])" by (simp add: demo_run_def r)
qed

lemma demo_sem_wait:
  "qring (fst (rt_sem_wait 0 7 demo_sem)) (SemQ 7) = [Task 2]" "snd (rt_sem_wait 0 7 demo_sem) = None"
  "sem_step 7 demo_sem (fst (rt_sem_wait 0 7 demo_sem))"
proof -
  show "qring (fst (rt_sem_wait 0 7 demo_sem)) (SemQ 7) = [Task 2]" "snd (rt_sem_wait 0 7 demo_sem) = None"
    by (simp_all add: demo_sem_def rt_typed_sem_init_def rt_sem_wait_def sem_ok_def resource_busy_def pass_to_owner_def
      demo_run_eq sem_count_down_def enqueue_blocked_def Let_def)
  show "sem_step 7 demo_sem (fst (rt_sem_wait 0 7 demo_sem))"
    by (rule step_wait)
      (simp_all add: demo_sem_def rt_typed_sem_init_def ring_members_def pass_through_def demo_run_calm Let_def)
qed

theorem sem_count_tells_waiters_witness:
  "rt_sem_count 7 (fst (rt_sem_wait 0 7 demo_sem)) = -1"
  using sem_count_tells_waiters [of 7 0 CNT_SEM demo_run "fst (rt_sem_wait 0 7 demo_sem)"]
    r_into_rtranclp [of "sem_step 7", OF demo_sem_wait(3)] demo_sem_wait(1) by (simp add: demo_sem_def [symmetric])
section \<open>Semaphore services keep the lists\<close>

lemma sched_wf_release_bits:
  assumes "sched_wf {} {} s" "is_rt t" "msk AND RT_SCHED_DELAYED \<noteq> 0"
  shows "sched_wf {} {} (fst (release msk c t (rem_timed_task t s)))"
proof (cases "state (tasks s t) = RT_SCHED_READY")
  case True
  then show ?thesis using assms(1) by (simp add: release_def rem_timed_idle is_delayed_def)
next
  case False
  have wf: "sched_wf {} {t} (rem_timed_task t s)" by (rule sched_wf_untime [OF assms(1)])
  let ?f = "\<lambda>k. k\<lparr>state := state k AND NOT msk\<rparr>"
  have "bit msk 2" using assms(3) and_exp_eq_0_iff_not_bit [of msk 2] by simp
  then have nd: "\<not> is_delayed (?f k)" for k :: rt_task by (simp add: is_delayed_bit bit_and_iff bit_not_iff)
  have "sched_wf {} {} (enq_ready_task c t (upd_task t ?f (rem_timed_task t s)))"
    if "state (?f (tasks (rem_timed_task t s) t)) = RT_SCHED_READY"
    using that False nd by (intro sched_wf_release(1) [OF wf]) (simp_all add: assms(2) is_delayed_def)
  moreover have "sched_wf {} {} (upd_task t ?f (rem_timed_task t s))"
    if "state (?f (tasks (rem_timed_task t s) t)) \<noteq> RT_SCHED_READY"
    using that False nd by (intro sched_wf_release(2) [OF wf]) (simp_all add: assms(2))
  ultimately show ?thesis using False by (simp add: release_def Let_def)
qed

lemma sched_wf_wake_waiter:
  assumes "sched_wf {} {} s" "is_rt t"
  shows "sched_wf {} {} (fst (wake_waiter c t s))"
  unfolding wake_waiter_def using assms by (intro sched_wf_release_bits) (simp_all add: dequeue_blocked_def)

lemma sched_wf_wake_head:
  assumes "sched_wf {} {} s" "\<forall>t\<in>set (qring s (SemQ x)). is_rt t"
  shows "sched_wf {} {} (fst (wake_head c x s))"
proof (cases "qring s (SemQ x)")
  case (Cons t ts)
  then show ?thesis using sched_wf_wake_waiter [OF assms(1), of t c] assms(2)
    by (auto simp: wake_head_def sem_head_def split: prod.splits)
qed (use assms in \<open>simp add: wake_head_def sem_head_def\<close>)

lemma sched_wf_broadcast_loop:
  "sched_wf {} {} s \<Longrightarrow> \<forall>t\<in>set ts. is_rt t \<Longrightarrow> sched_wf {} {} (fst (broadcast_loop c ts (s, m)))"
proof (induction ts arbitrary: s m)
  case (Cons t ts)
  have "sched_wf {} {} (fst (wake_waiter c t s))" using Cons.prems by (intro sched_wf_wake_waiter) auto
  then show ?case using Cons by (auto split: prod.splits)
qed simp

lemma sched_wf_rt_sem_broadcast:
  assumes "sched_wf {} {} s" "\<forall>t\<in>set (qring s (SemQ x)). is_rt t"
  shows "sched_wf {} {} (fst (rt_sem_broadcast c x s))"
  using sched_wf_broadcast_loop [OF assms, of c "{}"] assms(1)
  by (auto simp: rt_sem_broadcast_def Let_def split: prod.splits)

lemma sched_wf_take_sem [simp]: "sched_wf X Y (take_sem x t s) = sched_wf X Y s"
  by (simp add: take_sem_def enqueue_resqel_def)

lemma sched_wf_counts [simp]:
  "sched_wf X Y (sem_count_down x s) = sched_wf X Y s" "sched_wf X Y (sem_count_up x s) = sched_wf X Y s"
  "sched_wf X Y (sem_give_back x s) = sched_wf X Y s"
  by (simp_all add: sem_count_down_def sem_count_up_def sem_give_back_def)

lemma sched_wf_enqueue_blocked [simp]: "sched_wf X Y (enqueue_blocked t q d s) = sched_wf X Y s"
  by (simp add: enqueue_blocked_def Let_def)

section \<open>What waking a task means\<close>

text \<open>A state \<open>s'\<close> in which task \<open>t\<close>, which waited in \<open>s\<close>, has been freed of the bits \<open>msk\<close> of its wait: they are clear,
  and if it waits for nothing else it is ready: a hard task in the ready list of its CPU, any other marked for the
  wake-up by Linux.\<close>

definition freed :: "u32 \<Rightarrow> kst \<Rightarrow> kst \<Rightarrow> tid \<Rightarrow> bool" where
  "freed msk s s' t \<longleftrightarrow> state (tasks s' t) AND msk = 0 \<and>
     (state (tasks s t) AND NOT msk = RT_SCHED_READY \<longrightarrow>
        (if is_hard (tasks s t) \<noteq> 0 then state (tasks s' t) = RT_SCHED_READY \<and> t \<in> set (rready s' (cpu_of s' t))
         else state (tasks s' t) = RT_SCHED_READY OR RT_SCHED_SFTRDY))"

text \<open>The state a task has after its release.\<close>

definition freed_state :: "u32 \<Rightarrow> rt_task \<Rightarrow> u32" where
  "freed_state msk k =
     (if state k AND NOT msk = RT_SCHED_READY
      then if is_hard k \<noteq> 0 then RT_SCHED_READY else RT_SCHED_READY OR RT_SCHED_SFTRDY else state k AND NOT msk)"

lemma freedI:
  assumes "sched_wf {} {} s'" "is_rt t" "state (tasks s' t) = freed_state msk (tasks s t)" "is_hard (tasks s' t) = is_hard (tasks s t)"
    and m: "msk AND RT_SCHED_READY = 0" "msk AND RT_SCHED_SFTRDY = 0"
  shows "freed msk s s' t"
proof -
  have "t \<in> set (rready s' (cpu_of s' t))"
    if "is_hard (tasks s t) \<noteq> 0" "state (tasks s t) AND NOT msk = RT_SCHED_READY"
    using ready_wf_hard [of "{}" s' t] assms that by (simp add: sched_wf_def freed_state_def)
  moreover have "freed_state msk k AND msk = 0" for k
  proof -
    have "(RT_SCHED_READY OR RT_SCHED_SFTRDY) AND msk = 0"
      using m by (simp only: bit.conj_disj_distrib and.commute [of _ msk] or.left_neutral)
    moreover have "RT_SCHED_READY AND msk = 0" using m by (simp only: and.commute [of _ msk])
    moreover have "(state k AND NOT msk) AND msk = 0" by (simp only: and.assoc bit.conj_cancel_left bit.conj_zero_right)
    ultimately show ?thesis unfolding freed_state_def by presburger
  qed
  ultimately show ?thesis using assms(3) by (auto simp: freed_def freed_state_def)
qed

lemma freed_not_delayed: "msk AND RT_SCHED_DELAYED \<noteq> 0 \<Longrightarrow> freed_state msk k AND RT_SCHED_DELAYED = 0"
proof -
  assume "msk AND RT_SCHED_DELAYED \<noteq> 0"
  then have "bit msk 2" using and_exp_eq_0_iff_not_bit [of msk 2] by simp
  then have "\<not> bit (state k AND NOT msk) 2" by (simp add: bit_and_iff bit_not_iff)
  then have "(state k AND NOT msk) AND RT_SCHED_DELAYED = 0" using and_exp_eq_0_iff_not_bit [of "state k AND NOT msk" 2] by simp
  then show ?thesis by (simp add: freed_state_def bit.conj_disj_distrib2)
qed

lemma release_freed_state:
  "state (tasks s t) \<noteq> RT_SCHED_READY \<Longrightarrow> state (tasks (fst (release msk c t s)) u) = (if u = t then freed_state msk (tasks s t) else state (tasks s u))"
  by (auto simp: release_def freed_state_def Let_def)

lemma is_hard_release [simp]: "is_hard (tasks (fst (release msk c t s)) u) = is_hard (tasks s u)"
  by (simp add: release_def Let_def)

text \<open>\<^verbatim>\<open>rt_schedule\<close> leaves the state of a task alone that is not delayed.\<close>

lemma rt_schedule_state_kept:
  assumes "sched_wf {} {} s" "\<not> is_delayed (tasks s t)"
  shows "state (tasks (rt_schedule c s) t) = state (tasks s t)"
proof -
  let ?s = "set_time_h c (RR_YIELD c s)"
  have wf: "sched_wf {} {} ?s" using assms(1) by (simp add: sched_wf_RR_YIELD)
  then have w: "timed_wf {} ?s" by (simp add: sched_wf_def)
  have rr: "state (tasks (RR_YIELD c s) t) = state (tasks s t)" by (simp add: RR_YIELD_def Let_def)
  have "\<not> is_delayed (tasks ?s t)" using assms(2) rr by (simp add: is_delayed_def)
  then have "t \<notin> set (due_tasks c ?s)" using due_tasks_mem(3) [OF w] by blast
  then have "state (tasks (wake_up_timed_tasks c ?s) t) = state (tasks s t)"
    using tasks_wake_up_timed_tasks [OF w, of c t] rr by simp
  then show ?thesis unfolding rt_schedule_state(1) by (auto simp: TASK_TO_SCHEDULE_def Let_def)
qed

lemma sched_requests_state_kept:
  assumes "sched_wf {} {} s" "\<not> is_delayed (tasks s t)"
  shows "state (tasks (RT_SCHEDULE u c s) t) = state (tasks s t)" "state (tasks (RT_SCHEDULE_MAP_BOTH c m s) t) = state (tasks s t)"
    "state (tasks (RT_SCHEDULE_MAP m s) t) = state (tasks s t)"
  using assms rt_schedule_state_kept [of s t c] rt_schedule_state_kept [of "RT_SCHEDULE_MAP m s" t c]
  by (simp_all add: RT_SCHEDULE_def RT_SCHEDULE_MAP_BOTH_def RT_SCHEDULE_MAP_def)

lemma broadcast_loop_state:
  assumes "distinct ts" "\<forall>t\<in>set ts. state (tasks s t) \<noteq> RT_SCHED_READY"
  shows "state (tasks (fst (broadcast_loop c ts (s, m))) u) =
    (if u \<in> set ts then freed_state SEM_WAIT_BITS (tasks s u) else state (tasks s u))"
    "is_hard (tasks (fst (broadcast_loop c ts (s, m))) u) = is_hard (tasks s u)"
proof -
  have w: "state (tasks (fst (wake_waiter c t s)) v) = (if v = t then freed_state SEM_WAIT_BITS (tasks s t) else state (tasks s v))"
    "is_hard (tasks (fst (wake_waiter c t s)) v) = is_hard (tasks s v)"
    if "state (tasks s t) \<noteq> RT_SCHED_READY" for t s v
    using that release_freed_state [of "rem_timed_task t (dequeue_blocked t s)" t SEM_WAIT_BITS c v]
    by (simp_all add: wake_waiter_def freed_state_def)
  have "state (tasks (fst (broadcast_loop c ts (s, m))) u) =
      (if u \<in> set ts then freed_state SEM_WAIT_BITS (tasks s u) else state (tasks s u)) \<and>
    is_hard (tasks (fst (broadcast_loop c ts (s, m))) u) = is_hard (tasks s u)"
    using assms
  proof (induction ts arbitrary: s m)
    case (Cons t ts)
    let ?s = "fst (wake_waiter c t s)"
    have t: "state (tasks s t) \<noteq> RT_SCHED_READY" "t \<notin> set ts" using Cons.prems by auto
    have "\<forall>v\<in>set ts. state (tasks ?s v) \<noteq> RT_SCHED_READY" using Cons.prems t w(1) [OF t(1)] by auto
    moreover have "freed_state SEM_WAIT_BITS (tasks ?s u) = freed_state SEM_WAIT_BITS (tasks s u)" if "u \<noteq> t"
      using w [OF t(1), of u] that by (simp add: freed_state_def)
    ultimately show ?case using Cons.IH [of ?s] Cons.prems w [OF t(1), of u] t(2) by (auto simp: split_beta)
  qed simp
  then show "state (tasks (fst (broadcast_loop c ts (s, m))) u) =
      (if u \<in> set ts then freed_state SEM_WAIT_BITS (tasks s u) else state (tasks s u))"
    "is_hard (tasks (fst (broadcast_loop c ts (s, m))) u) = is_hard (tasks s u)" by simp_all
qed

text \<open>A broadcast frees all waiters.\<close>

lemma rt_sem_broadcast_frees:
  assumes ok: "sem_ok x s" "sched_wf {} {} s" "distinct (qring s (SemQ x))"
    and q: "\<forall>t\<in>set (qring s (SemQ x)). is_rt t \<and> state (tasks s t) \<noteq> RT_SCHED_READY" and t: "t \<in> set (qring s (SemQ x))"
  shows "freed SEM_WAIT_BITS s (fst (rt_sem_broadcast c x s)) t"
proof -
  let ?q = "qring s (SemQ x)"
  obtain s1 m where b: "broadcast_loop c ?q (s, {}) = (s1, m)" by (cases "broadcast_loop c ?q (s, {})")
  let ?s2 = "upd_sem x (\<lambda>k. k\<lparr>sem_count := 0\<rparr>) s1"
  have st: "state (tasks s1 t) = freed_state SEM_WAIT_BITS (tasks s t)" "is_hard (tasks s1 t) = is_hard (tasks s t)"
    using broadcast_loop_state [OF ok(3), of s c "{}" t] q t b by auto
  have wf2: "sched_wf {} {} ?s2" using sched_wf_broadcast_loop [OF ok(2), of ?q c "{}"] q b by simp
  have nd: "\<not> is_delayed (tasks ?s2 t)" using freed_not_delayed [of SEM_WAIT_BITS "tasks s t"] st(1) by (simp add: is_delayed_def)
  have kept: "state (tasks (rt_schedule c ?s2) t) = state (tasks s1 t)"
    "state (tasks (rt_schedule c (send_sched_ipi d ?s2)) t) = state (tasks s1 t)" for d
    using rt_schedule_state_kept [of ?s2 t c] rt_schedule_state_kept [of "send_sched_ipi d ?s2" t c] wf2 nd by simp_all
  have "state (tasks (fst (rt_sem_broadcast c x s)) t) = freed_state SEM_WAIT_BITS (tasks s t)"
    "is_hard (tasks (fst (rt_sem_broadcast c x s)) t) = is_hard (tasks s t)"
    using ok(1) b st kept by (simp_all add: rt_sem_broadcast_def Let_def RT_SCHEDULE_MAP_BOTH_def RT_SCHEDULE_MAP_def)
  moreover have "sched_wf {} {} (fst (rt_sem_broadcast c x s))" using sched_wf_rt_sem_broadcast [OF ok(2)] q by blast
  ultimately show ?thesis using q t by (intro freedI) simp_all
qed

end
