(* ===== verification/Sem_Spec.thy ===== *)
theory Sem_Spec
  imports Sem_Thms
begin

text \<open>
  Abstract semaphores and what the services promise of them: a semaphore is a number of
  tokens and a queue of tasks, and the services of \<^verbatim>\<open>src/ipc/sem/sem.c\<close> refine the two
  textbook operations on it; a resource has one owner; a barrier opens for its last task; a
  read-write lock never has readers and a writer at once.
\<close>

section \<open>The abstract semaphore\<close>

type_synonym asem = "nat \<times> tid list"

definition sem_abs :: "nat \<Rightarrow> kst \<Rightarrow> asem" where
  "sem_abs x s = (nat (sem_count (sems s x)), qring s (SemQ x))"

text \<open>Signal: the first task of the queue gets the token, or the token is kept (a binary
  semaphore keeps one at most).\<close>

fun sem_spec_signal :: "bool \<Rightarrow> asem \<Rightarrow> asem" where
  "sem_spec_signal binary (n, []) = (if binary then 1 else Suc n, [])"
| "sem_spec_signal binary (n, t # ts) = (n, ts)"

text \<open>Wait: take a token, or queue up, at the end or behind every task at least as urgent.\<close>

fun sem_spec_wait :: "bool \<Rightarrow> (tid \<Rightarrow> int) \<Rightarrow> tid \<Rightarrow> asem \<Rightarrow> asem" where
  "sem_spec_wait fifo p t (Suc n, ts) = (n, ts)"
| "sem_spec_wait fifo p t (0, ts) =
     (0, if fifo then ts @ [t] else filter (\<lambda>u. p u \<le> p t) ts @ t # filter (\<lambda>u. p t < p u) ts)"

lemma queue_ins_filter:
  "sorted (map p ts) \<Longrightarrow> queue_ins (\<lambda>u. p t < p u) t ts =
     filter (\<lambda>u. p u \<le> p t) ts @ t # filter (\<lambda>u. (p t :: int) < p u) ts"
proof (induction ts)
  case (Cons a ts)
  show ?case
  proof (cases "p t < p a")
    case True
    then have "\<forall>u \<in> set ts. p t < p u" using Cons.prems by fastforce
    then show ?thesis using True by (auto simp: filter_empty_conv filter_id_conv)
  qed (use Cons in auto)
qed simp

lemma enqueue_blocked_ring:
  "qring (enqueue_blocked t q qt s) q =
     (if qt = 0 then queue_ins (\<lambda>u. prio s t < prio s u) t (qring s q) else qring s q @ [t])"
proof -
  have p: "prio (upd_task t (\<lambda>k. k\<lparr>blocked_on := BQueue q\<rparr>) s) u = prio s u" for u by simp
  show ?thesis unfolding enqueue_blocked_def Let_def p not_le by simp
qed

lemma wait_prio:
  "prio (rem_ready_current t s) u = prio s u"
  "prio (upd_task t (\<lambda>k. k\<lparr>state := f k\<rparr>) s) u = prio s u"
  "prio (sem_count_down x s) u = prio s u"
  "prio (enqueue_blocked t q qt s) u = prio s u"
  by (simp_all add: rem_ready_current_def non_rtai_task_suspend_def sem_count_down_def enqueue_blocked_def Let_def)

lemma RT_SCHEDULE_MAP_BOTH_tasks [simp]:
  "blocked_on (tasks (RT_SCHEDULE_MAP_BOTH c m s) t) = blocked_on (tasks s t)"
  "prio (RT_SCHEDULE_MAP_BOTH c m s) t = prio s t"
  "blocked_on (tasks (RT_SCHEDULE u c s) t) = blocked_on (tasks s t)"
  "prio (RT_SCHEDULE u c s) t = prio s t"
  by (simp_all add: RT_SCHEDULE_MAP_BOTH_def RT_SCHEDULE_MAP_def RT_SCHEDULE_def)

text \<open>C8. \<^verbatim>\<open>rt_sem_wait\<close> on a counting or binary semaphore refines the abstract wait: it takes a
  token and returns, or, only if there is none, queues the caller, behind all or behind the
  tasks at least as urgent, and blocks it. A priority queue stays sorted.\<close>

theorem rt_sem_wait_refines:
  assumes "sem_wf x s" "sem_ok x s" "sem_type (sems s x) \<le> 0" "length (qring s (SemQ x)) < 2147483647"
    and sorted: "qtype (sems s x) = 0 \<longrightarrow> sorted (map (prio s) (qring s (SemQ x)))"
    and res: "rt_sem_wait c x s = (s', r)"
  shows "sem_abs x s' = sem_spec_wait (qtype (sems s x) \<noteq> 0) (prio s) (RT_CURRENT c s) (sem_abs x s) \<and>
    (r = None \<longleftrightarrow> fst (sem_abs x s) = 0) \<and>
    (r = None \<longrightarrow> blocked_on (tasks s' (RT_CURRENT c s)) = BQueue (SemQ x)) \<and>
    (qtype (sems s x) = 0 \<longrightarrow> sorted (map (prio s') (qring s' (SemQ x))))"
proof (cases "sem_count (sems s x) \<le> 0")
  case True
  let ?cur = "RT_CURRENT c s"
  have n: "sem_count (sems s x) = - int (length (qring s (SemQ x)))" by (rule sem_wf_waiting [OF assms(1) True])
  have "resource_busy c x s = None" "pass_to_owner c x s = (s, {})"
    using assms(3) by (simp_all add: resource_busy_def pass_to_owner_def)
  then have s': "s' = RT_SCHEDULE_MAP_BOTH c {} (enqueue_blocked ?cur (SemQ x) (qtype (sems s x))
      (rem_ready_current ?cur (upd_task ?cur (\<lambda>k. k\<lparr>state := state k OR RT_SCHED_SEMAPHORE\<rparr>) (sem_count_down x s))))"
    and r: "r = None"
    using res True assms(2) by (simp_all add: rt_sem_wait_def Let_def)
  have p: "prio s' u = prio s u" for u
    by (simp only: s' RT_SCHEDULE_MAP_BOTH_tasks wait_prio)
  have ring: "qring s' (SemQ x) = (if qtype (sems s x) \<noteq> 0 then qring s (SemQ x) @ [?cur]
      else queue_ins (\<lambda>u. prio s ?cur < prio s u) ?cur (qring s (SemQ x)))"
    unfolding s' RT_SCHEDULE_MAP_BOTH_sel enqueue_blocked_ring wait_prio by (simp add: sem_count_down_def)
  have "sem_abs x s' = sem_spec_wait (qtype (sems s x) \<noteq> 0) (prio s) ?cur (sem_abs x s)"
    using n assms(4) sorted queue_ins_filter [of "prio s" "qring s (SemQ x)" ?cur]
    by (simp add: sem_abs_def ring) (simp add: s' enqueue_blocked_def sem_count_down_def Let_def)
  moreover have "qtype (sems s x) = 0 \<longrightarrow> sorted (map (prio s') (qring s' (SemQ x)))"
    using sorted prioq.ordered_ins [of s "qring s (SemQ x)" ?cur] by (simp add: p ring)
  ultimately show ?thesis using n r by (simp add: sem_abs_def s' enqueue_blocked_def Let_def)
next
  case False
  then have "s' = sem_count_down x s" "r = Some (sem_count (sems s x))"
    using res assms(2,3) by (simp_all add: rt_sem_wait_def take_sem_def sem_count_down_def Let_def)
  moreover obtain m where "nat (sem_count (sems s x)) = Suc m" "sem_count (sems s x) = int (Suc m)"
    using False by (metis Suc_pred int_nat_eq not_le zero_less_nat_eq less_le_not_le)
  ultimately show ?thesis using assms(1) sorted sem_wf_free [OF assms(1)] False
    by (simp add: sem_abs_def sem_count_down_def sem_wf_def Let_def)
qed

lemma wake_head_blocked:
  "qring s (SemQ x) = t # ts \<Longrightarrow> blocked_on (tasks (fst (wake_head c x s)) t) = BNull"
  by (simp add: wake_head_def sem_head_def wake_waiter_def release_def split_beta Let_def)

lemma signal_plain:
  assumes "sem_ok x s" "sem_type (sems s x) \<le> 0" "restype (sems s x) = 0"
  shows "rt_sem_signal c x s = Some (case wake_head c x (sem_count_up x s) of
     (s1, task, woke) \<Rightarrow> (case task of Some t \<Rightarrow> if woke then RT_SCHEDULE t c s1 else s1 | None \<Rightarrow> s1, 0))"
  using assms by (simp add: rt_sem_signal_def Let_def split: prod.split)

text \<open>C9. \<^verbatim>\<open>rt_sem_signal\<close> on a counting or binary semaphore always returns 0 and refines the
  abstract signal: the first task of the queue leaves it with its wait satisfied, or, only if
  nobody waits, the semaphore gains a token.\<close>

theorem rt_sem_signal_refines:
  assumes "sem_wf x s" "sem_ok x s" "sem_type (sems s x) \<le> 0" "restype (sems s x) = 0"
    and "sem_count (sems s x) < int_max"
  shows "\<exists>s'. rt_sem_signal c x s = Some (s', 0) \<and>
    sem_abs x s' = sem_spec_signal (sem_type (sems s x) \<noteq> 0) (sem_abs x s) \<and>
    (\<forall>t ts. qring s (SemQ x) = t # ts \<longrightarrow> blocked_on (tasks s' t) = BNull)"
proof -
  obtain s1 task woke where w: "wake_head c x (sem_count_up x s) = (s1, task, woke)"
    by (cases "wake_head c x (sem_count_up x s)")
  define s' where "s' = (case task of Some t \<Rightarrow> if woke then RT_SCHEDULE t c s1 else s1 | None \<Rightarrow> s1)"
  have sig: "rt_sem_signal c x s = Some (s', 0)" using signal_plain [OF assms(2-4), of c] w by (simp add: s'_def)
  have sel: "sems s' = sems s1" "qring s' = qring s1" "\<And>t. blocked_on (tasks s' t) = blocked_on (tasks s1 t)"
    by (simp_all add: s'_def split: option.split)
  have s1: "s1 = fst (wake_head c x (sem_count_up x s))" using w by simp
  have sems1: "sems s1 = sems (sem_count_up x s)" by (simp add: s1 wake_head_def split_beta split: option.split)
  have up: "qring (sem_count_up x s) = qring s" by (simp add: sem_count_up_def)
  have "sem_abs x s' = sem_spec_signal (sem_type (sems s x) \<noteq> 0) (sem_abs x s)"
  proof (cases "qring s (SemQ x)")
    case Nil
    then have "s1 = sem_count_up x s" by (simp add: s1 wake_head_def sem_head_def up)
    then show ?thesis using Nil assms(1,5)
      by (auto simp: sem_abs_def sel sem_count_up_def sem_wf_def Let_def)
  next
    case (Cons t ts)
    then have "qring s1 (SemQ x) = ts" by (simp add: s1 wake_head_def sem_head_def up split_beta)
    moreover have "sem_count (sems s x) = - int (Suc (length ts))" "length ts < 2147483647"
      using assms(1) Cons by (auto simp: sem_wf_def Let_def)
    ultimately show ?thesis using Cons by (simp add: sem_abs_def sel sems1 sem_count_up_def Let_def)
  qed
  moreover have "blocked_on (tasks s' t) = BNull" if "qring s (SemQ x) = t # ts" for t ts
    using wake_head_blocked [of "sem_count_up x s" x t ts c] that by (simp add: sel s1 up)
  ultimately show ?thesis using sig by blast
qed

lemma demo_sem_eq:
  "sems demo_sem 7 = \<lparr>sem_magic = RT_SEM_MAGIC, sem_type = 0, restype = 0, sem_count = 0, owndby = ONull, qtype = 0\<rparr>"
  "qring demo_sem (SemQ 7) = []" "RT_CURRENT 0 demo_sem = Task 2" "sem_wf 7 demo_sem"
  by (simp_all add: demo_sem_def rt_typed_sem_init_def demo_run_eq sem_wf_def Let_def)

theorem rt_sem_wait_refines_witness:
  "sem_abs 7 (fst (rt_sem_wait 0 7 demo_sem)) = (0, [Task 2])"
  using rt_sem_wait_refines [of 7 demo_sem 0 "fst (rt_sem_wait 0 7 demo_sem)" "snd (rt_sem_wait 0 7 demo_sem)"]
  by (simp add: demo_sem_eq sem_ok_def) (simp add: sem_abs_def demo_sem_eq)

theorem rt_sem_signal_refines_witness:
  "\<exists>s'. rt_sem_signal 1 7 (fst (rt_sem_wait 0 7 demo_sem)) = Some (s', 0) \<and> sem_abs 7 s' = (0, []) \<and>
     blocked_on (tasks s' (Task 2)) = BNull"
proof -
  let ?s = "fst (rt_sem_wait 0 7 demo_sem)"
  have "sem_wf 7 ?s" by (rule sem_step_wf [OF demo_sem_wait(3) demo_sem_eq(4)])
  moreover have e: "sems ?s 7 = (sems demo_sem 7)\<lparr>sem_count := -1\<rparr>"
    by (simp add: demo_sem_eq rt_sem_wait_def sem_ok_def resource_busy_def pass_to_owner_def
        sem_count_down_def enqueue_blocked_def Let_def)
  ultimately have "\<exists>s'. rt_sem_signal 1 7 ?s = Some (s', 0) \<and> sem_abs 7 s' = sem_spec_signal False (sem_abs 7 ?s) \<and>
     (\<forall>t ts. qring ?s (SemQ 7) = t # ts \<longrightarrow> blocked_on (tasks s' t) = BNull)"
    using rt_sem_signal_refines [of 7 ?s 1] by (simp add: demo_sem_eq sem_ok_def)
  then show ?thesis using demo_sem_wait(1) e by (auto simp: sem_abs_def demo_sem_eq)
qed

section \<open>Tokens are conserved\<close>

text \<open>
  The contract of a counter that can be raised, and lowered unless it is 0; a client's run of
  such operations; and the balance of any run.
\<close>

datatype sem_op = Up | Try

fun sem_run :: "('s \<Rightarrow> 's) \<Rightarrow> ('s \<Rightarrow> 's \<times> bool) \<Rightarrow> sem_op list \<Rightarrow> 's \<Rightarrow> 's \<times> nat" where
  "sem_run up grab [] s = (s, 0)"
| "sem_run up grab (Up # ops) s = sem_run up grab ops (up s)"
| "sem_run up grab (Try # ops) s =
     (case grab s of (s1, got) \<Rightarrow> (case sem_run up grab ops s1 of (s2, n) \<Rightarrow> (s2, if got then Suc n else n)))"

locale token_counter =
  fixes ok :: "'s \<Rightarrow> bool" and free :: "'s \<Rightarrow> nat" and limit :: nat
    and up :: "'s \<Rightarrow> 's" and grab :: "'s \<Rightarrow> 's \<times> bool"
  assumes up_ok: "ok s \<Longrightarrow> free s < limit \<Longrightarrow> ok (up s) \<and> free (up s) = Suc (free s)"
    and grab_some: "ok s \<Longrightarrow> 0 < free s \<Longrightarrow> ok (fst (grab s)) \<and> Suc (free (fst (grab s))) = free s \<and> snd (grab s)"
    and grab_none: "ok s \<Longrightarrow> free s = 0 \<Longrightarrow> grab s = (s, False)"
begin

lemma run_balance:
  "ok s \<Longrightarrow> free s + length ops \<le> limit \<Longrightarrow> sem_run up grab ops s = (s', n) \<Longrightarrow>
   ok s' \<and> free s' + n = free s + count_list ops Up"
proof (induction ops arbitrary: s n)
  case (Cons a ops)
  show ?case
  proof (cases a)
    case Up
    then show ?thesis using Cons.IH [of "up s" n] up_ok [of s] Cons.prems by simp
  next
    case Try
    obtain s1 got where t: "grab s = (s1, got)" by (cases "grab s")
    obtain m where m: "sem_run up grab ops s1 = (s', m)" "n = (if got then Suc m else m)"
      using Cons.prems(3) Try t by (auto split: prod.splits)
    have "ok s1 \<and> (if got then Suc (free s1) = free s else free s1 = free s)"
      using grab_some [of s] grab_none [of s] Cons.prems(1) t by (cases "free s") auto
    then show ?thesis using Cons.IH [of s1 m] Cons.prems(2) m Try by (auto split: if_splits)
  qed
qed simp

end

text \<open>A counting semaphore that nobody waits for is such a counter.\<close>

definition quiet_sem :: "nat \<Rightarrow> kst \<Rightarrow> bool" where
  "quiet_sem x s \<longleftrightarrow> sem_ok x s \<and> sem_type (sems s x) = 0 \<and> restype (sems s x) = 0 \<and> qring s (SemQ x) = [] \<and>
     0 \<le> sem_count (sems s x) \<and> sem_count (sems s x) \<le> int_max"

definition sem_up :: "nat \<Rightarrow> nat \<Rightarrow> kst \<Rightarrow> kst" where
  "sem_up c x s = (case rt_sem_signal c x s of Some (s', _) \<Rightarrow> s' | None \<Rightarrow> s)"

definition sem_try :: "nat \<Rightarrow> nat \<Rightarrow> kst \<Rightarrow> kst \<times> bool" where
  "sem_try c x s = (case rt_sem_wait_if c x s of (s', r) \<Rightarrow> (s', 0 < r))"

interpretation quiet: token_counter "quiet_sem x" "\<lambda>s. nat (rt_sem_count x s)" "nat int_max" "sem_up c x" "sem_try c x"
  for c x
proof
  fix s assume q: "quiet_sem x s"
  show "quiet_sem x (sem_up c x s) \<and> nat (rt_sem_count x (sem_up c x s)) = Suc (nat (rt_sem_count x s))"
    if "nat (rt_sem_count x s) < nat int_max"
  proof -
    have n: "0 \<le> sem_count (sems s x)" "sem_count (sems s x) < int_max"
      using q that by (simp_all add: quiet_sem_def rt_sem_count_def)
    have "sem_up c x s = sem_count_up x s"
      using q signal_plain [of x s c]
      by (simp add: quiet_sem_def sem_up_def wake_head_def sem_head_def sem_count_up_def)
    then show ?thesis using q n by (simp add: quiet_sem_def rt_sem_count_def sem_count_up_def sem_ok_def nat_add_distrib)
  qed
  show "quiet_sem x (fst (sem_try c x s)) \<and>
      Suc (nat (rt_sem_count x (fst (sem_try c x s)))) = nat (rt_sem_count x s) \<and> snd (sem_try c x s)"
    if "0 < nat (rt_sem_count x s)"
  proof -
    have "sem_try c x s = (sem_count_down x s, True)"
      using q that by (simp add: quiet_sem_def sem_try_def rt_sem_wait_if_def rt_sem_count_def take_sem_def sem_count_down_def)
    then show ?thesis using q that by (auto simp: quiet_sem_def rt_sem_count_def sem_count_down_def sem_ok_def)
  qed
  show "sem_try c x s = (s, False)" if "nat (rt_sem_count x s) = 0"
    using q that by (simp add: quiet_sem_def sem_try_def rt_sem_wait_if_def rt_sem_count_def own_again_def Let_def)
qed

text \<open>C15. In any run of \<^verbatim>\<open>rt_sem_signal\<close> and \<^verbatim>\<open>rt_sem_wait_if\<close> on a counting semaphore the
  tokens balance: what is left plus what was taken is what there was plus what was
  signalled.\<close>

theorem sem_tokens_conserved:
  assumes "quiet_sem x s" "rt_sem_count x s + int (length ops) \<le> int_max"
    and "sem_run (sem_up c x) (sem_try c x) ops s = (s', n)"
  shows "rt_sem_count x s' + int n = rt_sem_count x s + int (count_list ops Up)"
proof -
  have "nat (rt_sem_count x s) + length ops \<le> nat int_max"
    using assms(1,2) by (auto simp: quiet_sem_def rt_sem_count_def)
  then have "quiet_sem x s' \<and> nat (rt_sem_count x s') + n = nat (rt_sem_count x s) + count_list ops Up"
    by (rule quiet.run_balance [OF assms(1) _ assms(3)])
  then show ?thesis using assms(1) by (auto simp: quiet_sem_def rt_sem_count_def)
qed

theorem sem_tokens_conserved_witness:
  "rt_sem_count 7 (fst (sem_run (sem_up 1 7) (sem_try 1 7) [Up, Up, Try, Up] demo_sem)) +
   int (snd (sem_run (sem_up 1 7) (sem_try 1 7) [Up, Up, Try, Up] demo_sem)) = 3"
proof -
  have "quiet_sem 7 demo_sem" by (simp add: quiet_sem_def demo_sem_eq sem_ok_def)
  then show ?thesis using sem_tokens_conserved [of 7 demo_sem "[Up, Up, Try, Up]" 1, OF _ _ surjective_pairing]
    by (simp add: rt_sem_count_def demo_sem_eq)
qed

section \<open>Resources\<close>

text \<open>A resource is free, with count 1 and no owner, or some task owns it.\<close>

definition res_wf :: "nat \<Rightarrow> kst \<Rightarrow> bool" where
  "res_wf x s \<longleftrightarrow> 0 < sem_type (sems s x) \<and>
     (if 0 < sem_count (sems s x) then sem_count (sems s x) = 1 \<and> owndby (sems s x) = ONull
      else owner_task (owndby (sems s x)) \<noteq> None)"

lemma owner_taskD: "owner_task w = Some t \<Longrightarrow> w = OTask t"
  by (cases w) (simp_all add: owner_task_def)

lemma UBI_sel:
  assumes "UBI_MAIOR_MINOR_CESSAT_WAIT c x s = Some s'"
  obtains t where "owndby (sems s x) = OTask t" "prio s (RT_CURRENT c s) < prio s t" "running (tasks s t) \<le> 0"
    "t \<in> set (qring s' (SemQ x))" "blocked_on (tasks s' t) = BQueue (SemQ x)"
    "owndby (sems s' x) = OTask (RT_CURRENT c s)" "sem_type (sems s' x) = sem_type (sems s x)"
    "sem_count (sems s' x) = sem_count (sems s x) \<or> sem_count (sems s' x) = s32 (sem_count (sems s x) - 1)"
proof -
  let ?cur = "RT_CURRENT c s"
  obtain t where t: "owner_task (owndby (sems s x)) = Some t"
    using assms by (auto simp: UBI_MAIOR_MINOR_CESSAT_WAIT_def split: option.splits)
  have cond: "prio s ?cur < prio s t" "running (tasks s t) \<le> 0"
    using assms t by (auto simp: UBI_MAIOR_MINOR_CESSAT_WAIT_def Let_def split: if_splits)
  obtain s1 where s': "s' = enqueue_resqel ?cur (upd_sem x (\<lambda>k. k\<lparr>owndby := OTask ?cur\<rparr>) (enqueue_blocked t (SemQ x) PRIO_Q s1))"
    and s1: "sems s1 = sems s \<or> sems s1 = sems (sem_count_down x s)"
    using assms t cond by (simp add: UBI_MAIOR_MINOR_CESSAT_WAIT_def Let_def) (auto split: if_splits)
  have "t \<noteq> ?cur" using cond by auto
  then show thesis using that [of t] t cond s1
    by (auto simp: s' owner_taskD enqueue_resqel_def enqueue_blocked_def sem_count_down_def Let_def)
qed

lemma resource_busy_cases:
  assumes "resource_busy c x s = Some (s', r)" "r < RTE_LOWERR"
  shows "owndby (sems s' x) = OTask (RT_CURRENT c s) \<and>
    (owndby (sems s x) = OTask (RT_CURRENT c s) \<or>
     (\<exists>t. owndby (sems s x) = OTask t \<and> running (tasks s t) \<le> 0 \<and> prio s (RT_CURRENT c s) < prio s t \<and>
        t \<in> set (qring s' (SemQ x)) \<and> blocked_on (tasks s' t) = BQueue (SemQ x)))"
proof (cases "UBI_MAIOR_MINOR_CESSAT_WAIT c x s")
  case None
  then show ?thesis using assms by (auto simp: resource_busy_def own_again_def Let_def split: if_splits)
next
  case (Some s1)
  then have "s' = s1" using assms(1) by (auto simp: resource_busy_def split: if_splits)
  then show ?thesis using Some by (auto elim!: UBI_sel)
qed

lemma free_or_busy:
  assumes "res_wf x s" "rt_sem_wait c x s = (s', Some r)" "r < RTE_LOWERR"
  shows "owndby (sems s' x) = OTask (RT_CURRENT c s) \<and>
    (owndby (sems s x) = ONull \<or> owndby (sems s x) = OTask (RT_CURRENT c s) \<or>
     (\<exists>t. owndby (sems s x) = OTask t \<and> running (tasks s t) \<le> 0 \<and> prio s (RT_CURRENT c s) < prio s t \<and>
        t \<in> set (qring s' (SemQ x)) \<and> blocked_on (tasks s' t) = BQueue (SemQ x)))"
proof (cases "0 < sem_count (sems s x)")
  case True
  then show ?thesis using assms
    by (auto simp: rt_sem_wait_def res_wf_def take_sem_def sem_count_down_def enqueue_resqel_def Let_def split: if_splits)
next
  case False
  then have "resource_busy c x s = Some (s', r)"
    using assms(2,3) by (auto simp: rt_sem_wait_def Let_def split: if_splits option.splits prod.splits)
  then show ?thesis using resource_busy_cases assms(3) by blast
qed

text \<open>The wait goes on when its task runs again: it succeeds if and only if the wait was satisfied.\<close>

lemma leave_queue_owner [simp]: "owndby (sems (leave_queue c x t s) x) = owndby (sems s x)"
  by (auto simp: leave_queue_def sem_give_back_def Let_def split: option.splits)

lemma resumed_wait_owner:
  assumes "0 < sem_type (sems s x)" "sem_count (sems s x) < RTE_LOWERR"
  shows "if blocked_on (tasks s t) = BNull
    then snd (rt_sem_wait_resume c x t s) < RTE_LOWERR \<and> owndby (sems (fst (rt_sem_wait_resume c x t s)) x) = OTask t
    else RTE_LOWERR \<le> snd (rt_sem_wait_resume c x t s) \<and> owndby (sems (fst (rt_sem_wait_resume c x t s)) x) = owndby (sems s x)"
  using assms by (auto simp: rt_sem_wait_resume_def take_sem_def enqueue_resqel_def split: blk.split)

text \<open>An owner is overtaken when its mark \<open>running\<close> is 0. The mark tells that the task has not run since its last wait was
  satisfied, whichever resource it waited for: an owner of \<open>x\<close> that has waited inside its critical section for
  another resource and has just been given that one loses \<open>x\<close> to a more urgent task.\<close>

lemma owner_overtaken:
  assumes "sem_ok x s" "0 < sem_type (sems s x)" "sem_count (sems s x) \<le> 0" "owndby (sems s x) = OTask t"
    and "prio s (RT_CURRENT c s) < prio s t" "running (tasks s t) = 0"
  shows "\<exists>s'. rt_sem_wait c x s = (s', Some 1) \<and> owndby (sems s' x) = OTask (RT_CURRENT c s) \<and> t \<in> set (qring s' (SemQ x))"
proof -
  obtain s' where u: "UBI_MAIOR_MINOR_CESSAT_WAIT c x s = Some s'"
    using assms by (auto simp: UBI_MAIOR_MINOR_CESSAT_WAIT_def owner_task_def Let_def)
  then have "rt_sem_wait c x s = (s', Some 1)" using assms by (simp add: rt_sem_wait_def resource_busy_def Let_def)
  then show ?thesis using UBI_sel [OF u] assms(4) by auto
qed

text \<open>C10. When \<^verbatim>\<open>rt_sem_wait\<close> on a resource returns without an error, at once or after waiting, the caller is its owner.
  A wait that returns at once found the resource free, or the caller's already, or took it over from a less urgent
  owner that is marked as not having run since its last wait was satisfied and that now waits for the resource again. A
  wait that had to queue up returns without an error if and only if a signal satisfied it; otherwise the owner stays
  as it was.\<close>

theorem resource_exclusive:
  assumes wf: "res_wf x s"
  shows "(rt_sem_wait c x s = (s', Some r) \<and> r < RTE_LOWERR \<longrightarrow> owndby (sems s' x) = OTask (RT_CURRENT c s) \<and>
      (owndby (sems s x) = ONull \<or> owndby (sems s x) = OTask (RT_CURRENT c s) \<or>
       (\<exists>t. owndby (sems s x) = OTask t \<and> running (tasks s t) \<le> 0 \<and> prio s (RT_CURRENT c s) < prio s t \<and>
          t \<in> set (qring s' (SemQ x)) \<and> blocked_on (tasks s' t) = BQueue (SemQ x)))) \<and>
    (rt_sem_wait_resume c x t s = (s2, r2) \<longrightarrow>
       (if blocked_on (tasks s t) = BNull then r2 < RTE_LOWERR \<and> owndby (sems s2 x) = OTask t
        else RTE_LOWERR \<le> r2 \<and> owndby (sems s2 x) = owndby (sems s x)))"
proof (intro conjI impI; (elim conjE)?)
  assume w: "rt_sem_wait c x s = (s', Some r)" "r < RTE_LOWERR"
  show "owndby (sems s' x) = OTask (RT_CURRENT c s)"
    "owndby (sems s x) = ONull \<or> owndby (sems s x) = OTask (RT_CURRENT c s) \<or>
     (\<exists>t. owndby (sems s x) = OTask t \<and> running (tasks s t) \<le> 0 \<and> prio s (RT_CURRENT c s) < prio s t \<and>
        t \<in> set (qring s' (SemQ x)) \<and> blocked_on (tasks s' t) = BQueue (SemQ x))"
    using free_or_busy [OF wf w] by blast+
next
  assume "rt_sem_wait_resume c x t s = (s2, r2)"
  moreover have "0 < sem_type (sems s x)" "sem_count (sems s x) < RTE_LOWERR"
    using wf by (auto simp: res_wf_def split: if_splits)
  ultimately show "if blocked_on (tasks s t) = BNull then r2 < RTE_LOWERR \<and> owndby (sems s2 x) = OTask t
      else RTE_LOWERR \<le> r2 \<and> owndby (sems s2 x) = owndby (sems s x)"
    using resumed_wait_owner [of s x t c] by (cases "blocked_on (tasks s t) = BNull") simp_all
qed

text \<open>C13. The owner of a recursive resource may take it again: the wait returns the new depth at
  once, and the matching signal brings back exactly the state before it.\<close>

theorem resource_recursion_unwinds:
  assumes "sem_ok x s" "0 < sem_type (sems s x)" "sem_type (sems s x) < int_max" "0 < restype (sems s x)"
    and "sem_count (sems s x) \<le> 0" "owndby (sems s x) = OTask (RT_CURRENT c s)"
  shows "\<exists>s1. rt_sem_wait c x s = (s1, Some (sem_type (sems s x) + 1)) \<and> rt_sem_signal c x s1 = Some (s, 0)"
proof -
  let ?s1 = "upd_sem x (\<lambda>k. k\<lparr>sem_type := sem_type k + 1\<rparr>) s"
  have "UBI_MAIOR_MINOR_CESSAT_WAIT c x s = None"
    using assms by (simp add: UBI_MAIOR_MINOR_CESSAT_WAIT_def owner_task_def Let_def)
  then have w: "rt_sem_wait c x s = (?s1, Some (sem_type (sems s x) + 1))"
    using assms by (simp add: rt_sem_wait_def resource_busy_def own_again_def upd_sem_def Let_def)
  have "upd_sem x (\<lambda>k. k\<lparr>sem_type := sem_type k - 1\<rparr>) ?s1 = s" by (simp add: upd_sem_def)
  then have "rt_sem_signal c x ?s1 = Some (s, 0)"
    using assms by (simp add: rt_sem_signal_def sem_ok_def Let_def)
  then show ?thesis using w by blast
qed


text \<open>The running task of the small system with a recursive resource it owns.\<close>

definition demo_own :: kst where
  "demo_own = fst (rt_sem_wait 0 7 (rt_typed_sem_init 7 1 RES_SEM demo_run))"

lemma demo_own_eq:
  "sems demo_own 7 = \<lparr>sem_magic = RT_SEM_MAGIC, sem_type = 1, restype = 1, sem_count = 0, owndby = OTask (Task 2), qtype = 0\<rparr>"
  "qring demo_own = (\<lambda>_. [])" "rt_smp_current demo_own 0 = Task 2"
  "suspdepth (tasks demo_own t) = suspdepth (tasks demo_run t)"
  by (simp_all add: demo_own_def rt_sem_wait_def sem_ok_def rt_typed_sem_init_def demo_run_eq sem_count_down_def
      take_sem_def enqueue_resqel_def demo_run_calm Let_def fun_upd_def)

theorem resource_exclusive_witness:
  "owndby (sems demo_own 7) = OTask (Task 2)"
proof -
  let ?s = "rt_typed_sem_init 7 1 RES_SEM demo_run"
  have "rt_sem_wait 0 7 ?s = (demo_own, Some 1)" "res_wf 7 ?s" "RT_CURRENT 0 ?s = Task 2"
    by (simp_all add: demo_own_def rt_sem_wait_def sem_ok_def rt_typed_sem_init_def res_wf_def demo_run_eq Let_def)
  then show ?thesis using resource_exclusive [of 7 ?s 0 demo_own 1] by simp
qed

theorem resource_recursion_unwinds_witness:
  "\<exists>s1. rt_sem_wait 0 7 demo_own = (s1, Some 2) \<and> rt_sem_signal 0 7 s1 = Some (demo_own, 0)"
  using resource_recursion_unwinds [of 7 demo_own 0] by (simp add: demo_own_eq sem_ok_def)


section \<open>A null pointer\<close>

text \<open>A task whose suspension depth is negative, because it was resumed before it suspended
  itself, and that releases a resource nobody waits for, makes \<^verbatim>\<open>rt_sem_signal\<close> read the
  suspension depth of the null task: the deletion test looks at \<^verbatim>\<open>task\<close>, not at the
  caller.\<close>

theorem sem_signal_null_dereference:
  assumes "sem_ok x s" "sem_type (sems s x) = 1" "owndby (sems s x) = OTask (RT_CURRENT c s)"
    and "qring s (SemQ x) = []" "suspdepth (tasks s (RT_CURRENT c s)) < 0"
  shows "rt_sem_signal c x s = None"
  using assms
  by (simp add: rt_sem_signal_def wake_head_def sem_head_def sem_count_up_def sem_release_owner_def split_beta Let_def)

theorem sem_signal_null_dereference_witness:
  "rt_sem_signal 0 7 (upd_task (Task 2) (\<lambda>k. k\<lparr>suspdepth := -1\<rparr>) demo_own) = None"
  using sem_signal_null_dereference [of 7 "upd_task (Task 2) (\<lambda>k. k\<lparr>suspdepth := -1\<rparr>) demo_own" 0]
  by (simp add: demo_own_eq sem_ok_def)

section \<open>Which semaphores a service touches\<close>

definition only_sem :: "nat \<Rightarrow> kst \<Rightarrow> kst \<Rightarrow> bool" where
  "only_sem x s s' \<longleftrightarrow> (\<forall>y. y \<noteq> x \<longrightarrow> sems s' y = sems s y)"

text \<open>A semaphore without an owner (type 0) gets none.\<close>

definition only_count :: "nat \<Rightarrow> kst \<Rightarrow> kst \<Rightarrow> bool" where
  "only_count x s s' \<longleftrightarrow> only_sem x s s' \<and> owndby (sems s' x) = owndby (sems s x) \<and>
     sem_type (sems s' x) = sem_type (sems s x) \<and> restype (sems s' x) = restype (sems s x)"








lemma only_sem_refl [simp]: "only_sem x s s"
  by (simp add: only_sem_def)








lemma only_count_broadcast: "only_count x s (fst (rt_sem_broadcast c x s))"
proof -
  obtain s1 m where b: "broadcast_loop c (qring s (SemQ x)) (s, {}) = (s1, m)"
    by (cases "broadcast_loop c (qring s (SemQ x)) (s, {})")
  have "sems s1 = sems s" using broadcast_loop_sel(2) [of c "qring s (SemQ x)" s "{}"] b by simp
  then show ?thesis by (auto simp: rt_sem_broadcast_def b only_count_def only_sem_def Let_def)
qed

section \<open>Barriers\<close>

lemma broadcast_loop_unblocks:
  "t \<in> set ts \<Longrightarrow> blocked_on (tasks (fst (broadcast_loop c ts (s, m))) t) = BNull"
proof (induction ts arbitrary: s m)
  case (Cons a ts)
  have w: "blocked_on (tasks (fst (wake_waiter c u s)) v) = (if v = u then BNull else blocked_on (tasks s v))" for u v s
    by (simp add: wake_waiter_def release_def Let_def)
  have keep: "blocked_on (tasks (fst (broadcast_loop c us (s, m))) v) = BNull"
    if "blocked_on (tasks s v) = BNull" for us v s m
    using that by (induction us arbitrary: s m) (simp_all add: split_beta w)
  show ?case
  proof (cases "t = a")
    case True
    then show ?thesis using keep [of "fst (wake_waiter c a s)"] w by (simp add: split_beta)
  next
    case False
    then show ?thesis using Cons by (simp add: split_beta)
  qed
qed simp

lemma rt_sem_broadcast_sel:
  assumes "sem_ok x s" "s' = fst (rt_sem_broadcast c x s)"
  shows "qring s' (SemQ x) = []" "sem_count (sems s' x) = 0"
    "t \<in> set (qring s (SemQ x)) \<Longrightarrow> blocked_on (tasks s' t) = BNull"
proof -
  obtain s1 m where b: "broadcast_loop c (qring s (SemQ x)) (s, {}) = (s1, m)"
    by (cases "broadcast_loop c (qring s (SemQ x)) (s, {})")
  have "qring s1 (SemQ x) = []" using broadcast_empties [of c s "SemQ x" "{}"] b by simp
  moreover have "blocked_on (tasks s1 t) = BNull" if "t \<in> set (qring s (SemQ x))"
    using broadcast_loop_unblocks [OF that, of c s "{}"] b by simp
  ultimately show "qring s' (SemQ x) = []" "sem_count (sems s' x) = 0"
    "t \<in> set (qring s (SemQ x)) \<Longrightarrow> blocked_on (tasks s' t) = BNull"
    using assms by (simp_all add: rt_sem_broadcast_def b RT_SCHEDULE_MAP_def Let_def)
qed

text \<open>The first call stores the number of tasks to wait for.\<close>

lemma barrier_open_sel [simp]:
  "tasks (barrier_open x s) = tasks s" "qring (barrier_open x s) = qring s" "sem_ok x (barrier_open x s) = sem_ok x s"
  "RT_CURRENT c (barrier_open x s) = RT_CURRENT c s" "sched_wf X Y (barrier_open x s) = sched_wf X Y s"
  by (simp_all add: barrier_open_def sem_ok_def)

lemma barrier_open_state:
  assumes "owndby (sems s x) = ONum n \<and> sem_type (sems s x) = 0 \<and> sem_count (sems s x) \<le> 0 \<or>
    owndby (sems s x) = ONull \<and> n = max 1 (sem_count (sems s x)) \<and> qring s (SemQ x) = []" "sem_wf x s"
  shows "sem_wf x (barrier_open x s)" "sem_type (sems (barrier_open x s) x) = 0" "owndby (sems (barrier_open x s) x) = ONum n"
    "sem_count (sems (barrier_open x s) x) \<le> 0"
  using assms by (auto simp: barrier_open_def sem_wf_def Let_def max_def)

text \<open>C14. A barrier for \<open>n\<close> tasks, in use or used for the first time (then \<open>n\<close> is the initial count, at least 1): while fewer
  than \<open>n - 1\<close> tasks wait at it, the caller joins them and blocks; the task that completes the number returns 0 at
  once, every task that waited has its wait satisfied and its wait bits cleared, and is in the ready list (or marked for the
  wake-up by Linux) if it waits for nothing else; the barrier is ready for another round with the same number. The
  scheduler's lists are well formed, and no task comes in between two turns of the broadcast.\<close>

theorem barrier_opens_for_last:
  assumes wf: "sem_wf x s" "sem_ok x s" "sched_wf {} {} s" "distinct (qring s (SemQ x))"
    and waiting: "\<forall>t\<in>set (qring s (SemQ x)). is_rt t \<and> state (tasks s t) \<noteq> RT_SCHED_READY"
    and bar: "owndby (sems s x) = ONum n \<and> sem_type (sems s x) = 0 \<and> sem_count (sems s x) \<le> 0 \<or>
      owndby (sems s x) = ONull \<and> n = max 1 (sem_count (sems s x)) \<and> qring s (SemQ x) = []"
    and len: "length (qring s (SemQ x)) < 2147483647"
    and res: "rt_sem_wait_barrier c x s = (s', r)"
  shows "if int (length (qring s (SemQ x))) + 1 < n
    then r = None \<and> blocked_on (tasks s' (RT_CURRENT c s)) = BQueue (SemQ x) \<and>
      length (qring s' (SemQ x)) = Suc (length (qring s (SemQ x))) \<and> owndby (sems s' x) = ONum n
    else r = Some 0 \<and> qring s' (SemQ x) = [] \<and> rt_sem_count x s' = 0 \<and> owndby (sems s' x) = ONum n \<and>
      (\<forall>t \<in> set (qring s (SemQ x)). blocked_on (tasks s' t) = BNull \<and> freed SEM_WAIT_BITS s s' t)"
proof -
  let ?s = "barrier_open x s"
  note o = barrier_open_state [OF bar wf(1)]
  have k: "sem_count (sems ?s x) = - int (length (qring s (SemQ x)))" using sem_wf_waiting [OF o(1,4)] by simp
  have test: "s32 (1 - sem_count (sems ?s x)) < barrier_size (owndby (sems ?s x)) \<longleftrightarrow> int (length (qring s (SemQ x))) + 1 < n"
    using k len o(3) by (simp add: barrier_size_def add.commute)
  show ?thesis
  proof (cases "int (length (qring s (SemQ x))) + 1 < n")
    case True
    have "resource_busy c x ?s = None" "pass_to_owner c x ?s = (?s, {})"
      using o(2) by (simp_all add: resource_busy_def pass_to_owner_def)
    then show ?thesis using True res test wf o
      by (auto simp: rt_sem_wait_barrier_def rt_sem_wait_def enqueue_blocked_def sem_count_down_def Let_def)
  next
    case False
    then have s': "s' = fst (rt_sem_broadcast c x ?s)" "r = Some 0"
      using res test wf(2) by (simp_all add: rt_sem_wait_barrier_def Let_def)
    have "freed SEM_WAIT_BITS ?s s' t" if "t \<in> set (qring s (SemQ x))" for t
      using rt_sem_broadcast_frees [of x ?s t c] wf waiting that s' by simp
    then have "freed SEM_WAIT_BITS s s' t" if "t \<in> set (qring s (SemQ x))" for t
      using that by (simp add: freed_def)
    moreover have "owndby (sems s' x) = ONum n" using only_count_broadcast [of x ?s c] o(3) s' by (simp add: only_count_def)
    ultimately show ?thesis using False s' rt_sem_broadcast_sel [of x ?s _ c] wf(2) by (simp add: rt_sem_count_def)
  qed
qed

text \<open>Task 3 waits at a barrier for two tasks, and Task 2 completes the number.\<close>

definition demo_barrier :: kst where
  "demo_barrier = (upd_ring (SemQ 7) (\<lambda>_. [Task 3])
     (upd_task (Task 3) (\<lambda>k. k\<lparr>state := RT_SCHED_READY OR RT_SCHED_SEMAPHORE, suspdepth := 0, blocked_on := BQueue (SemQ 7)\<rparr>)
       (upd_sem 7 (\<lambda>k. k\<lparr>sem_count := -1\<rparr>) (barrier_open 7 (rt_typed_sem_init 7 2 CNT_SEM demo_run)))))"

theorem barrier_opens_for_last_witness:
  "snd (rt_sem_wait_barrier 0 7 (rt_typed_sem_init 7 2 CNT_SEM demo_run)) = None \<and>
   state (tasks (fst (rt_sem_wait_barrier 0 7 demo_barrier)) (Task 3)) = RT_SCHED_READY"
proof
  let ?s = "rt_typed_sem_init 7 2 CNT_SEM demo_run"
  have "sems ?s 7 = \<lparr>sem_magic = RT_SEM_MAGIC, sem_type = 0, restype = 0, sem_count = 2, owndby = ONull, qtype = 0\<rparr>"
    "qring ?s (SemQ 7) = []" "sched_wf {} {} ?s"
    using demo_run_wf by (simp_all add: rt_typed_sem_init_def Let_def)
  then show "snd (rt_sem_wait_barrier 0 7 ?s) = None"
    using barrier_opens_for_last [of 7 ?s 2 0 "fst (rt_sem_wait_barrier 0 7 ?s)" "snd (rt_sem_wait_barrier 0 7 ?s)"]
    by (simp add: sem_ok_def sem_wf_def Let_def)
  let ?b = demo_barrier
  have b: "sems ?b 7 = \<lparr>sem_magic = RT_SEM_MAGIC, sem_type = 0, restype = 0, sem_count = -1, owndby = ONum 2, qtype = 0\<rparr>"
    "qring ?b (SemQ 7) = [Task 3]" "state (tasks ?b (Task 3)) = 9" "is_hard (tasks ?b (Task 3)) = 1"
    by (simp_all add: demo_barrier_def barrier_open_def rt_typed_sem_init_def Let_def demo_run_eq demo_ready_eq demo_init_tasks)
  let ?i = "upd_sem 7 (\<lambda>k. k\<lparr>sem_count := -1\<rparr>) (barrier_open 7 ?s)"
  have "tasks ?i (Task 3) = tasks demo_run (Task 3)" by (simp add: rt_typed_sem_init_def Let_def)
  then have i: "state (tasks ?i (Task 3)) = 3" by (simp add: demo_run_eq demo_ready_eq demo_init_tasks)
  have "sched_wf {} {} ?i" using demo_run_wf by (simp add: rt_typed_sem_init_def Let_def)
  then have j: "sched_wf {Task 3} {Task 3} ?i" using i by (simp add: sched_wf_ready_iff sched_wf_timed_iff is_delayed_def)
  then have "sched_wf {Task 3} {Task 3} ?b" unfolding demo_barrier_def
    by (simp, intro sched_wf_in_flight) (use sched_wf_prios [OF j, of "Task 3"] in simp_all)
  then have "sched_wf {} {} ?b" using b(3) by (simp add: sched_wf_ready_iff sched_wf_timed_iff is_delayed_def)
  then have "freed SEM_WAIT_BITS ?b (fst (rt_sem_wait_barrier 0 7 ?b)) (Task 3)"
    using barrier_opens_for_last [of 7 ?b 2 0 "fst (rt_sem_wait_barrier 0 7 ?b)" "snd (rt_sem_wait_barrier 0 7 ?b)"] b
    by (simp add: sem_ok_def sem_wf_def is_rt_def Let_def)
  then show "state (tasks (fst (rt_sem_wait_barrier 0 7 ?b)) (Task 3)) = RT_SCHED_READY"
    by (simp add: freed_def b)
qed

section \<open>Readers and writers\<close>

text \<open>The three semaphores of a read-write lock are distinct, the two on which tasks wait for
  their turn have no owner, and the lock never has a writer while it has readers.\<close>

definition rwl_safe :: "rwl \<Rightarrow> kst \<Rightarrow> bool" where
  "rwl_safe rw s \<longleftrightarrow> distinct [wrmtx rw, wrsem rw, rdsem rw] \<and>
     sem_type (sems s (wrsem rw)) = 0 \<and> sem_type (sems s (rdsem rw)) = 0 \<and>
     (readers rw s \<noteq> 0 \<longrightarrow> owndby (sems s (wrmtx rw)) = ONull)"

lemma rwl_safe_cong:
  "rwl_safe rw s \<Longrightarrow> sem_type (sems s' (wrsem rw)) = 0 \<Longrightarrow> sem_type (sems s' (rdsem rw)) = 0 \<Longrightarrow>
   readers rw s' = readers rw s \<Longrightarrow>
   readers rw s' = 0 \<or> owndby (sems s' (wrmtx rw)) = owndby (sems s (wrmtx rw)) \<Longrightarrow> rwl_safe rw s'"
  by (auto simp: rwl_safe_def)





text \<open>What happens to a read-write lock: the turns of the locking calls and their continuations after a wait, on any of the
  three semaphores, whether the wait was satisfied, ended by its time limit or broken off; the two critical
  sections of the unlock, between which others may come; and anything that leaves the semaphores alone. A writer whose
  wait for the mutex was satisfied (\<open>blocked_on\<close> cleared) was made its owner by the signal that satisfied it, as C12
  states; the task that releases has no deletion pending (its suspension count is not negative).\<close>

inductive rwl_step :: "rwl \<Rightarrow> kst \<Rightarrow> kst \<Rightarrow> bool" for rw where
  rdlock: "rwl_step rw s (fst (rt_rwl_rdlock_turn c rw s))"
| rdlock_if: "rwl_step rw s (fst (rt_rwl_rdlock_if c rw s))"
| rdlock_until: "rwl_step rw s (fst (rt_rwl_rdlock_until_turn c rw time s))"
| wrlock: "rwl_step rw s (fst (rt_rwl_wrlock_turn c rw s))"
| wrlock_if: "rwl_step rw s (fst (rt_rwl_wrlock_if c rw s))"
| wrlock_until: "rwl_step rw s (fst (rt_rwl_wrlock_until_turn c rw time s))"
| release: "0 \<le> suspdepth (tasks s (RT_CURRENT c s)) \<Longrightarrow> rwl_release c rw s = Some (s', r) \<Longrightarrow> rwl_step rw s s'"
| wake_next: "rwl_wake_next c rw s = Some s' \<Longrightarrow> rwl_step rw s s'"
| resumed: "x = wrsem rw \<or> x = rdsem rw \<Longrightarrow> rwl_step rw s (fst (rt_sem_wait_resume c x t s))"
| resumed_until: "x = wrsem rw \<or> x = rdsem rw \<Longrightarrow> rwl_step rw s (fst (rt_sem_wait_until_resume c x t s))"
| writer_resumed: "(blocked_on (tasks s t) = BNull \<Longrightarrow> owndby (sems s (wrmtx rw)) = OTask t) \<Longrightarrow>
    rwl_step rw s (fst (rt_sem_wait_resume c (wrmtx rw) t s))"
| writer_resumed_until: "(blocked_on (tasks s t) = BNull \<Longrightarrow> owndby (sems s (wrmtx rw)) = OTask t) \<Longrightarrow>
    rwl_step rw s (fst (rt_sem_wait_until_resume c (wrmtx rw) t s))"
| other: "sems s' = sems s \<Longrightarrow> rwl_step rw s s'"



text \<open>The whole unlock is the two steps one after the other.\<close>

lemma rt_rwl_unlock_steps:
  assumes "0 \<le> suspdepth (tasks s (RT_CURRENT c s))" "rt_rwl_unlock c rw s = Some (s', r)"
  shows "(rwl_step rw)\<^sup>*\<^sup>* s s'"
  using assms by (auto simp: rt_rwl_unlock_def split: option.splits if_splits
      intro: converse_rtranclp_into_rtranclp [OF rwl_step.release r_into_rtranclp [of "rwl_step rw", OF rwl_step.wake_next]]
        r_into_rtranclp [of "rwl_step rw", OF rwl_step.release])





end
