(* ===== verification/Sched_Run.thy ===== *)
theory Sched_Run
  imports Sem_Spec
begin

text \<open>
  The scheduler as a machine: the events of the kernel, the task services and the semaphore services, from start-up
  on and in any order, are the steps of the relation \<open>kernel_step\<close>, with the conditions written out there under which
  the services are called. In every state it reaches, the ready lists and the timed lists have their shape
  (\<open>sched_wf\<close>). The deletion of tasks and semaphores and the services of mailboxes and messages are not steps of it.
\<close>

section \<open>Linux tasks stay out\<close>

text \<open>Linux tasks neither wait in queues nor own resources nor are sent messages, and the mark \<open>running\<close> of a task
  is never negative.\<close>

fun rt_queue :: "qref \<Rightarrow> bool" where
  "rt_queue (SemQ x) = True"
| "rt_queue (MsgQ t) = is_rt t"
| "rt_queue (RetQ t) = is_rt t"

fun rt_blk :: "blk \<Rightarrow> bool" where
  "rt_blk (BQueue q) = rt_queue q"
| "rt_blk b = True"

definition rt_task_ok :: "tid \<Rightarrow> rt_task \<Rightarrow> bool" where
  "rt_task_ok t k \<longleftrightarrow> rt_blk (blocked_on k) \<and> (is_rt t \<longrightarrow> (\<forall>u. msg_queue_task k = Some u \<longrightarrow> is_rt u)) \<and>
     (\<forall>u. ret_queue_task k = BTask u \<longrightarrow> is_rt u) \<and> 0 \<le> running k"

definition rt_links :: "kst \<Rightarrow> bool" where
  "rt_links s \<longleftrightarrow> (\<forall>q. \<forall>t\<in>set (qring s q). is_rt t) \<and> (\<forall>x t. owner_task (owndby (sems s x)) = Some t \<longrightarrow> is_rt t) \<and>
     (\<forall>t. rt_task_ok t (tasks s t))"

lemma rt_links_pass_ok: "rt_links s \<Longrightarrow> pass_ok is_rt s"
proof -
  assume l: "rt_links s"
  have "is_rt u" if "pass_through t s = Some (q, Some u)" for t q u
  proof -
    have b: "rt_blk (blocked_on (tasks s t))" and m: "is_rt v \<Longrightarrow> msg_queue_task (tasks s v) = Some w \<Longrightarrow> is_rt w"
      and r: "ret_queue_task (tasks s v) = BTask w \<Longrightarrow> is_rt w" and o: "owner_task (owndby (sems s x)) = Some w \<Longrightarrow> is_rt w" for v w x
      using l by (simp_all add: rt_links_def rt_task_ok_def)
    have q: "blocked_on (tasks s t) = BQueue q" "case q of SemQ x \<Rightarrow> owner_task (owndby (sems s x)) = Some u | q \<Rightarrow> queue_task s q = Some u"
      using that by (auto simp: pass_through_def split: blk.splits qref.splits if_splits)
    then show ?thesis using b by (cases q) (auto intro: m r o split: blk.splits)
  qed
  then show ?thesis by (simp add: pass_ok_def)
qed

lemma rt_links_same:
  assumes "sems s' = sems s" "qring s' = qring s" "\<And>t. rt_task_ok t (tasks s' t) = rt_task_ok t (tasks s t)"
  shows "rt_links s' = rt_links s"
  by (simp add: rt_links_def assms)

lemma rt_links_upd_task:
  "rt_links s \<Longrightarrow> rt_task_ok t (f (tasks s t)) \<Longrightarrow> rt_links (upd_task t f s)"
  by (simp add: rt_links_def)

lemma rt_links_upd_iff [simp]:
  "msg_queue_task (f (tasks s t)) = msg_queue_task (tasks s t) \<Longrightarrow> ret_queue_task (f (tasks s t)) = ret_queue_task (tasks s t) \<Longrightarrow>
   running (f (tasks s t)) = running (tasks s t) \<Longrightarrow> blocked_on (f (tasks s t)) = blocked_on (tasks s t) \<Longrightarrow>
   rt_links (upd_task t f s) = rt_links s"
  by (rule rt_links_same) (simp_all add: rt_task_ok_def)

lemma rt_links_task: "rt_links s \<Longrightarrow> rt_task_ok t (tasks s t)"
  by (simp add: rt_links_def)

lemma rt_links_upd_block [simp]:
  "rt_links s \<Longrightarrow> msg_queue_task (f (tasks s t)) = msg_queue_task (tasks s t) \<Longrightarrow>
   ret_queue_task (f (tasks s t)) = ret_queue_task (tasks s t) \<Longrightarrow>
   running (f (tasks s t)) = running (tasks s t) \<Longrightarrow> rt_blk (blocked_on (f (tasks s t))) \<Longrightarrow> rt_links (upd_task t f s)"
  using rt_links_task [of s t] by (intro rt_links_upd_task) (auto simp: rt_task_ok_def)

lemma rt_links_upd_sem:
  "rt_links s \<Longrightarrow> (\<And>t. owner_task (owndby (f (sems s x))) = Some t \<Longrightarrow> is_rt t) \<Longrightarrow> rt_links (upd_sem x f s)"
  "owndby (f (sems s x)) = owndby (sems s x) \<Longrightarrow> rt_links (upd_sem x f s) = rt_links s"
  by (auto simp: rt_links_def)

lemma rt_links_upd_ring:
  "rt_links s \<Longrightarrow> (\<And>t. t \<in> set (f (qring s q)) \<Longrightarrow> t \<notin> set (qring s q) \<Longrightarrow> is_rt t) \<Longrightarrow> rt_links (upd_ring q f s)"
  by (auto simp: rt_links_def)

lemma rt_links_frame [simp]:
  "rt_links (upd_ready c g s) = rt_links s" "rt_links (upd_timed c g s) = rt_links s" "rt_links (upd_mbx m h s) = rt_links s"
  "rt_links (set_time_h c s) = rt_links s" "rt_links (program_timer c b k s) = rt_links s" "rt_links (switch_to c t s) = rt_links s"
  "rt_links (switch_in_irq c t s) = rt_links s" "rt_links (SET_PEND_LINUX_TIMER_SHOT c s) = rt_links s"
  "rt_links (s\<lparr>tick_time := tt\<rparr>) = rt_links s" "rt_links (s\<lparr>timer_shot_fired := tt, intr_time := it\<rparr>) = rt_links s"
  "rt_links (s\<lparr>sched_ipi := d\<rparr>) = rt_links s" "rt_links (s\<lparr>sched_locked := lk\<rparr>) = rt_links s"
  "rt_links (s\<lparr>sched_rqsted := rq\<rparr>) = rt_links s" "rt_links (s\<lparr>rt_smp_current := cu\<rparr>) = rt_links s" "rt_links (s\<lparr>tsc := now\<rparr>) = rt_links s"
  "rt_links (enq_timed_task t s) = rt_links s" "rt_links (rem_timed_task t s) = rt_links s"
  "rt_links (send_sched_ipi d s) = rt_links s"
  "rt_links (unlink_ready t s) = rt_links s" "rt_links (enq_ready_task c t s) = rt_links s" "rt_links (rem_ready_current t s) = rt_links s"
  by (rule rt_links_same; simp add: rt_task_ok_def)+

lemma rt_links_wake_fold: "rt_links (fold (wake_up_timed_task c) ts s) = rt_links s"
proof (induction ts arbitrary: s)
  case (Cons t ts)
  have "rt_links (wake_up_timed_task c t s) = rt_links s"
    by (rule rt_links_same) (simp_all add: tasks_wake_up_timed_task woken_def Let_def rt_task_ok_def)
  then show ?case using Cons by simp
qed simp

lemma rt_links_wake [simp]:
  "rt_links (wake_up_timed_tasks c s) = rt_links s" "rt_links (RR_YIELD c s) = rt_links s" "rt_links (rem_ready_task t s) = rt_links s"
  by (simp_all add: wake_up_timed_tasks_eq rt_links_wake_fold RR_YIELD_def rem_ready_task_def Let_def)

lemma rt_links_TASK_TO_SCHEDULE: "rt_links s \<Longrightarrow> rt_links (fst (TASK_TO_SCHEDULE c s))"
proof -
  assume s: "rt_links s"
  have "rt_links (upd_task t (\<lambda>k. k\<lparr>running := 1\<rparr>) s)" if "rt_links s" for s t
    by (intro rt_links_upd_task that) (use rt_links_task [OF that, of t] in \<open>simp add: rt_task_ok_def\<close>)
  then show ?thesis using s by (simp add: TASK_TO_SCHEDULE_def Let_def)
qed

lemma rt_links_schedule [simp]:
  assumes "rt_links s"
  shows "rt_links (rt_schedule c s)" "rt_links (rt_timer_handler c s)" "rt_links (rt_schedule_on_schedule_ipi c s)"
  using assms by (simp_all add: rt_schedule_def rt_timer_handler_def rt_schedule_on_schedule_ipi_def Let_def split_beta
      rt_links_TASK_TO_SCHEDULE)

lemma rt_links_CALL_TIMER_HANDLER [simp]: "rt_links s \<Longrightarrow> rt_links (CALL_TIMER_HANDLER c s)"
proof -
  assume "rt_links s"
  moreover have "rt_links (s\<lparr>timer_shot_fired := f\<rparr>) = rt_links s" for f by (rule rt_links_same) simp_all
  ultimately show ?thesis by (simp add: CALL_TIMER_HANDLER_def)
qed

lemma rt_links_requests [simp]:
  "rt_links s \<Longrightarrow> rt_links (RT_SCHEDULE t c s)" "rt_links s \<Longrightarrow> rt_links (RT_SCHEDULE_BOTH t c s)"
  "rt_links s \<Longrightarrow> rt_links (RT_SCHEDULE_MAP m s)" "rt_links s \<Longrightarrow> rt_links (RT_SCHEDULE_MAP_BOTH c m s)"
  by (simp_all add: RT_SCHEDULE_def RT_SCHEDULE_BOTH_def RT_SCHEDULE_MAP_def RT_SCHEDULE_MAP_BOTH_def rem_ready_task_def)

lemma rt_links_counts [simp]:
  "rt_links (sem_count_down x s) = rt_links s" "rt_links (sem_count_up x s) = rt_links s" "rt_links (sem_give_back x s) = rt_links s"
  by (simp_all add: sem_count_down_def sem_count_up_def sem_give_back_def rt_links_upd_sem(2))

lemma rt_links_queues:
  "rt_links s \<Longrightarrow> rt_links (dequeue_blocked t s)" "rt_links s \<Longrightarrow> rt_links (unlink_blocked t s)"
  "rt_links s \<Longrightarrow> is_rt t \<Longrightarrow> rt_queue q \<Longrightarrow> rt_links (enqueue_blocked t q d s)" "rt_links s \<Longrightarrow> is_rt t \<Longrightarrow> rt_links (requeue_blocked t q s)"
  "rt_links s \<Longrightarrow> is_rt t \<Longrightarrow> rt_links (take_sem x t s)" "rt_links (enqueue_resqel t s) = rt_links s"
proof -
  show u: "rt_links s \<Longrightarrow> rt_links (unlink_blocked t s)"
    by (auto simp: rt_links_def unlink_blocked_def dest: notin_set_remove1)
  then show "rt_links s \<Longrightarrow> rt_links (dequeue_blocked t s)" by (simp add: dequeue_blocked_def)
  show "rt_links s \<Longrightarrow> is_rt t \<Longrightarrow> rt_queue q \<Longrightarrow> rt_links (enqueue_blocked t q d s)"
    by (auto simp: enqueue_blocked_def Let_def intro!: rt_links_upd_ring)
  show "rt_links s \<Longrightarrow> is_rt t \<Longrightarrow> rt_links (requeue_blocked t q s)"
    by (auto simp: requeue_blocked_def intro!: rt_links_upd_ring dest: notin_set_remove1)
  show "rt_links s \<Longrightarrow> is_rt t \<Longrightarrow> rt_links (take_sem x t s)"
    by (auto simp: take_sem_def owner_task_def enqueue_resqel_def intro!: rt_links_upd_sem(1))
qed (simp add: enqueue_resqel_def)

lemma pass_prio_loop_delayed [simp]:
  "is_delayed (tasks (fst (pass_prio_loop n c to from m s)) u) = is_delayed (tasks s u)"
proof (induction n arbitrary: to s)
  case (Suc n)
  have "is_delayed (tasks (fst (pass_prio_ready c t m s)) u) = is_delayed (tasks s u)" for t s
    by (simp add: pass_prio_ready_def Let_def is_delayed_def bit.conj_disj_distrib2)
  then show ?case using Suc by (auto simp: Let_def is_delayed_def split: option.split)
qed simp

lemma sched_wf_pass_to_owner:
  assumes "sched_wf {} {} s" "rt_links s"
  shows "sched_wf {} {} (fst (pass_to_owner c x s))"
  using assms rt_links_pass_ok [OF assms(2)]
  by (auto simp: pass_to_owner_def rt_links_def intro!: sched_wf_pass_prio)

lemma pass_to_owner_delayed [simp]: "is_delayed (tasks (fst (pass_to_owner c x s)) u) = is_delayed (tasks s u)"
  by (simp add: pass_to_owner_def pass_prio_def del: pass_prio_loop.simps)

lemma sched_wf_UBI:
  assumes "sched_wf {} {} s" "\<forall>t. 0 \<le> running (tasks s t)" "UBI_MAIOR_MINOR_CESSAT_WAIT c x s = Some s'"
  shows "sched_wf {} {} s'"
proof -
  obtain t where t: "owner_task (owndby (sems s x)) = Some t" and r: "running (tasks s t) \<le> 0"
    using assms(3) by (auto simp: UBI_MAIOR_MINOR_CESSAT_WAIT_def Let_def split: option.splits if_splits)
  have "running (tasks s t) = 0" using r assms(2) by (simp add: order_antisym)
  moreover have "sched_wf {} {} (upd_task t (\<lambda>k. k\<lparr>state := state k OR RT_SCHED_SEMAPHORE\<rparr>) (rem_ready_task t (sem_count_down x s)))"
    by (rule sched_wf_block_task) (use assms(1) in simp_all)
  ultimately show ?thesis using assms(3) t
    by (auto simp: UBI_MAIOR_MINOR_CESSAT_WAIT_def Let_def enqueue_resqel_def split: if_splits)
qed

lemma sched_wf_resource_busy:
  assumes "sched_wf {} {} s" "\<forall>t. 0 \<le> running (tasks s t)" "resource_busy c x s = Some (s', r)"
  shows "sched_wf {} {} s'"
  using assms by (auto simp: resource_busy_def own_again_def Let_def intro: sched_wf_UBI split: if_splits option.splits)

lemma sched_wf_block:
  assumes "sched_wf {} {} s" "RT_SCHED_READY AND m \<noteq> m" "m AND RT_SCHED_DELAYED = 0"
  shows "sched_wf {} {} (rem_ready_current t (upd_task t (\<lambda>k. k\<lparr>state := state k OR m\<rparr>) s))"
  by (subst rem_ready_current_upd) (use sched_wf_block_current [OF assms] in simp_all)

lemma sched_wf_block_timed:
  assumes wf: "sched_wf {} {} s" and t: "is_rt t" "\<not> is_delayed (tasks s t)" and m: "m AND RT_SCHED_DELAYED \<noteq> 0"
  shows "sched_wf {} {} (enq_timed_task t (enqueue_blocked t q d
    (rem_ready_current t (upd_task t (\<lambda>k. k\<lparr>state := state k OR m\<rparr>) s))))"
proof -
  let ?f = "\<lambda>k. k\<lparr>state := state k OR m\<rparr>"
  have d: "is_delayed (?f k)" for k :: rt_task
    using m by (simp add: is_delayed_def bit.conj_disj_distrib2 or_eq_0_iff)
  have "sched_wf {} {t} s" using wf t(2) by (simp add: sched_wf_timed_iff)
  then have "sched_wf {t} {t} (rem_ready_current t s)" by (rule sched_wf_leave)
  then have "sched_wf {t} {t} (upd_task t ?f (rem_ready_current t s))"
    by (rule sched_wf_in_flight) (use sched_wf_prios [OF wf, of t] in auto)
  then have "sched_wf {t} {t} (enqueue_blocked t q d (upd_task t ?f (rem_ready_current t s)))" (is "sched_wf _ _ ?s") by simp
  moreover have e: "is_delayed (tasks ?s t)" using d by (simp add: enqueue_blocked_def Let_def is_delayed_def)
  ultimately have "sched_wf {t} ({t} - {t}) (enq_timed_task t ?s)" by (intro sched_wf_time) (simp_all add: t)
  moreover have "rem_ready_current t (upd_task t ?f s) = upd_task t ?f (rem_ready_current t s)"
    by (rule rem_ready_current_upd) simp_all
  ultimately show ?thesis using delayed_not_ready [OF e] by (simp add: sched_wf_ready_iff)
qed

lemma sched_wf_rt_sem_wait:
  assumes "sched_wf {} {} s" "rt_links s" "\<forall>t. 0 \<le> running (tasks s t)"
  shows "sched_wf {} {} (fst (rt_sem_wait c x s))"
  using assms sched_wf_resource_busy [OF assms(1,3), of c x] sched_wf_pass_to_owner [OF assms(1,2), of c x]
  by (auto simp: rt_sem_wait_def Let_def split: option.split prod.split intro!: sched_wf_requests sched_wf_block)

lemma sched_wf_leave_queue:
  assumes "sched_wf {} {} s" "rt_links s"
  shows "sched_wf {} {} (leave_queue c x t s)"
proof -
  have "sched_wf {} {} (sem_give_back x (dequeue_blocked t s))" using assms(1) by (simp add: dequeue_blocked_def)
  moreover have "is_rt u" if "owner_task (owndby (sems (sem_give_back x (dequeue_blocked t s)) x)) = Some u" for u
    using that assms(2) by (simp add: rt_links_def sem_give_back_def dequeue_blocked_def)
  ultimately show ?thesis by (auto simp: leave_queue_def Let_def sched_wf_resets(2) split: option.split)
qed

lemma sched_wf_sem_resume:
  assumes "sched_wf {} {} s" "rt_links s"
  shows "sched_wf {} {} (fst (rt_sem_wait_resume c x t s))" "sched_wf {} {} (fst (rt_sem_wait_until_resume c x t s))"
  using assms sched_wf_leave_queue [OF assms]
  by (auto simp: rt_sem_wait_resume_def rt_sem_wait_until_resume_def Let_def split: blk.split)

lemma sched_wf_rt_sem_wait_if:
  assumes "sched_wf {} {} s" "\<forall>t. 0 \<le> running (tasks s t)"
  shows "sched_wf {} {} (fst (rt_sem_wait_if c x s))"
  using assms sched_wf_UBI [OF assms, of c x]
  by (auto simp: rt_sem_wait_if_def own_again_def Let_def split: option.split)

lemma sched_wf_rt_sem_wait_until:
  assumes wf: "sched_wf {} {} s" and l: "rt_links s" and r: "\<forall>t. 0 \<le> running (tasks s t)" and cur: "running_ok c s"
  shows "sched_wf {} {} (fst (rt_sem_wait_until c x time s))"
proof -
  let ?t = "RT_CURRENT c s"
  let ?s0 = "upd_task ?t (\<lambda>k. k\<lparr>blocked_on := BQueue (SemQ x), resume_time := time\<rparr>) s"
  have t: "is_rt ?t" "\<not> is_delayed (tasks s ?t)" using cur by (simp_all add: running_ok_def is_delayed_def)
  have wf0: "sched_wf {} {} ?s0" using wf t by (intro sched_wf_upd_awake) simp_all
  have l0: "rt_links ?s0" "rt_links (sem_count_down x ?s0)" using l by simp_all
  have r0: "\<forall>t. 0 \<le> running (tasks ?s0 t)" using r by simp
  have nd: "\<not> is_delayed (tasks (sem_count_down x (fst (pass_to_owner c x ?s0))) ?t)" 
    using t(2) by (simp add: sem_count_down_def) (simp add: is_delayed_def)
  have "sched_wf {} {} (sem_count_down x (fst (pass_to_owner c x ?s0)))" using sched_wf_pass_to_owner [OF wf0 l0(1)] by simp
  note b = sched_wf_block_timed [OF this t(1) nd, of "SEM_WAIT_BITS"]
  show ?thesis using wf0 sched_wf_resource_busy [OF wf0 r0, of c x] b sched_wf_sem_resume(2) [OF _ l0(2), of c x ?t] wf
    by (auto simp: rt_sem_wait_until_def Let_def split: option.split prod.split intro!: sched_wf_requests)
qed

lemma resets_fields [simp]:
  "suspdepth (tasks (fst (dequeue_resqel_reset_task_priority c t s)) u) = suspdepth (tasks s u)"
  "msg_queue_task (tasks (fst (dequeue_resqel_reset_task_priority c t s)) u) = msg_queue_task (tasks s u)"
  "ret_queue_task (tasks (fst (dequeue_resqel_reset_task_priority c t s)) u) = ret_queue_task (tasks s u)"
  "msg_queue_task (tasks (fst (set_task_prio_from_resq c t s)) u) = msg_queue_task (tasks s u)"
  "ret_queue_task (tasks (fst (set_task_prio_from_resq c t s)) u) = ret_queue_task (tasks s u)"
  by (simp_all add: dequeue_resqel_reset_task_priority_def set_task_prio_from_resq_def set_prio_from_resq_def renq_ready_task_def Let_def)

lemma sched_wf_release_owner:
  assumes wf: "sched_wf {} {} s" and t: "is_rt (RT_CURRENT c s)" "0 \<le> suspdepth (tasks s (RT_CURRENT c s))"
    and s': "sem_release_owner c x task tosched s = Some s'"
  shows "sched_wf {} {} s'"
proof -
  let ?cur = "RT_CURRENT c s"
  obtain s2 b where s2: "dequeue_resqel_reset_task_priority c ?cur
      (upd_sem x (\<lambda>k. k\<lparr>owndby := (case task of None \<Rightarrow> ONull | Some t \<Rightarrow> OTask t)\<rparr>) s) = (s2, b)" (is "?d = _") by (cases ?d) auto
  have wf2: "sched_wf {} {} s2"
    using sched_wf_resets(1) [of "{}" "upd_sem x (\<lambda>k. k\<lparr>owndby := (case task of None \<Rightarrow> ONull | Some t \<Rightarrow> OTask t)\<rparr>) s" ?cur c] wf t(1) s2
    by simp
  have d: "suspdepth (tasks s2 ?cur) = suspdepth (tasks s ?cur)"
    using resets_fields(1) [of c ?cur "upd_sem x (\<lambda>k. k\<lparr>owndby := (case task of None \<Rightarrow> ONull | Some t \<Rightarrow> OTask t)\<rparr>) s" ?cur] s2 by simp
  have "sched_wf {} {} (rem_ready_current ?cur (upd_task ?cur (\<lambda>k. k\<lparr>state := state k OR RT_SCHED_SUSPENDED\<rparr>) s2))"
    by (rule sched_wf_block [OF wf2]) simp_all
  then show ?thesis using s' s2 d t(2) wf2
    by (auto simp: sem_release_owner_def Let_def sched_wf_rt_schedule split: if_splits option.splits)
qed

lemma wake_head_cases:
  obtains "qring s (SemQ x) = []" "wake_head c x s = (s, None, False)"
  | t ts w where "qring s (SemQ x) = t # ts" "wake_head c x s = (fst (wake_waiter c t s), Some t, w)"
  by (cases "qring s (SemQ x)") (auto simp: wake_head_def sem_head_def split_beta)

lemma wake_waiter_suspdepth [simp]: "suspdepth (tasks (fst (wake_waiter c t s)) u) = suspdepth (tasks s u)"
  by (simp add: wake_waiter_def release_def Let_def)

lemma sched_wf_rt_sem_signal:
  assumes wf: "sched_wf {} {} s" and l: "rt_links s" and cur: "is_rt (RT_CURRENT c s)" "0 \<le> suspdepth (tasks s (RT_CURRENT c s))"
    and s': "rt_sem_signal c x s = Some (s', r)"
  shows "sched_wf {} {} s'"
proof -
  obtain s1 task w where h: "wake_head c x (sem_count_up x s) = (s1, task, w)" by (cases "wake_head c x (sem_count_up x s)") auto
  have q: "qring (sem_count_up x s) = qring s" "RT_CURRENT c (sem_count_up x s) = RT_CURRENT c s" "tasks (sem_count_up x s) = tasks s"
    by (simp_all add: sem_count_up_def)
  have wf1: "sched_wf {} {} s1"
    using sched_wf_wake_head [of "sem_count_up x s" x c] wf l h q by (simp add: rt_links_def)
  have c1: "RT_CURRENT c s1 = RT_CURRENT c s" "suspdepth (tasks s1 u) = suspdepth (tasks s u)" for u
    using h q by (cases rule: wake_head_cases [of "sem_count_up x s" x c]; auto)+
  define s2 where "s2 = (case task of Some t \<Rightarrow>
      if w then upd_task t (\<lambda>k. k\<lparr>running := - uint (state k AND RT_SCHED_DELAYED)\<rparr>) s1 else s1 | None \<Rightarrow> s1)"
  have s2: "sched_wf {} {} s2" "RT_CURRENT c s2 = RT_CURRENT c s" "suspdepth (tasks s2 u) = suspdepth (tasks s u)" for u
    using wf1 c1 by (auto simp: s2_def split: option.split)
  have "sched_wf {} {} s3" if "sem_release_owner c x task w s2 = Some s3" for s3
    using sched_wf_release_owner [OF s2(1) _ _ that] cur s2(2,3) by simp
  then show ?thesis using s' h wf wf1
    by (auto simp: rt_sem_signal_def Let_def s2_def [symmetric] split: if_splits option.splits)
qed

lemma sched_wf_rt_cond_signal:
  assumes "sched_wf {} {} s" "rt_links s"
  shows "sched_wf {} {} (fst (rt_cond_signal c x s))"
proof -
  have "sched_wf {} {} (fst (wake_head c x s))" using assms by (intro sched_wf_wake_head) (auto simp: rt_links_def)
  then show ?thesis using assms(1) by (auto simp: rt_cond_signal_def split: prod.splits option.splits bool.splits)
qed

lemma sched_wf_rt_sem_wait_barrier:
  assumes "sched_wf {} {} s" "rt_links s" "\<forall>t. 0 \<le> running (tasks s t)"
  shows "sched_wf {} {} (fst (rt_sem_wait_barrier c x s))"
proof -
  have b: "sched_wf {} {} (barrier_open x s)" using assms(1) by (simp add: barrier_open_def)
  have l: "rt_links (barrier_open x s)"
    using assms(2) by (auto simp: barrier_open_def owner_task_def intro!: rt_links_upd_sem(1))
  have "\<forall>t. 0 \<le> running (tasks (barrier_open x s) t)" using assms(3) by (simp add: barrier_open_def)
  note w = sched_wf_rt_sem_wait [OF b l this, of c x]
  have "sched_wf {} {} (fst (rt_sem_broadcast c x (barrier_open x s)))"
    by (rule sched_wf_rt_sem_broadcast [OF b]) (use l in \<open>simp add: rt_links_def\<close>)
  then show ?thesis using w assms(1) by (auto simp: rt_sem_wait_barrier_def Let_def split: prod.splits)
qed

section \<open>The links of the services\<close>

lemma rt_links_upd_running: "rt_links s \<Longrightarrow> 0 \<le> v (tasks s t) \<Longrightarrow> rt_links (upd_task t (\<lambda>k. k\<lparr>running := v k\<rparr>) s)"
  using rt_links_task [of s t] by (intro rt_links_upd_task) (simp_all add: rt_task_ok_def)

lemma rt_links_task_services [simp]:
  assumes "rt_links s"
  shows "rt_links (rt_sched_lock c s)" "rt_links (rt_sched_unlock c s)" "rt_links (rt_task_yield c s)"
    "rt_links (fst (rt_sleep_until c time s))" "rt_links (fst (rt_task_wait_period c s))"
    "rt_links (fst (rt_task_suspend c task s))" "rt_links (fst (rt_task_resume c t s))"
    "rt_links (fst (rt_task_suspend_until c task time s))" "rt_links (make_periodic c t start per s)"
    "rt_links (fst (rt_task_masked_unblock c t msk s))"
  using assms
  by (auto simp: rt_sched_lock_def rt_sched_unlock_def rt_task_yield_def rt_sleep_until_def rt_task_wait_period_def go_to_sleep_def
      rt_task_suspend_def rt_task_resume_def rt_task_suspend_until_def make_periodic_def rt_task_masked_unblock_def
      rt_task_masked_unblock_locked_def Let_def split: option.split)

lemma rt_links_pass_prio_loop:
  "rt_links s \<Longrightarrow> (\<And>t. to = Some t \<Longrightarrow> is_rt t) \<Longrightarrow> rt_links (fst (pass_prio_loop n c to from m s))"
proof (induction n arbitrary: to s)
  case (Suc n)
  have r: "rt_links (fst (pass_prio_ready c t m s)) = rt_links s" for t s by (simp add: pass_prio_ready_def Let_def)
  have q: "is_rt u" if "pass_through t s = Some (q, Some u)" for t q u
    using rt_links_pass_ok [OF Suc.prems(1)] that by (simp add: pass_ok_def)
  have i: "rt_links (fst (pass_prio_loop n c b from m s'))" if "rt_links s'" "pass_through t s = Some (q, b)" for t q b s'
    using Suc.IH [OF that(1), of b] q that(2) by auto
  show ?case using Suc i by (auto simp: Let_def r rt_links_queues(4) split: option.split)
qed simp

lemma rt_links_pass_to_owner: "rt_links s \<Longrightarrow> rt_links (fst (pass_to_owner c x s))"
  using rt_links_pass_prio_loop [of s "owner_task (owndby (sems s x))"]
  by (auto simp: pass_to_owner_def pass_prio_def rt_links_def simp del: pass_prio_loop.simps)

lemma rt_links_UBI:
  assumes "rt_links s" "is_rt (RT_CURRENT c s)" "UBI_MAIOR_MINOR_CESSAT_WAIT c x s = Some s'"
  shows "rt_links s'"
proof -
  obtain t where t: "owner_task (owndby (sems s x)) = Some t"
    using assms(3) by (auto simp: UBI_MAIOR_MINOR_CESSAT_WAIT_def split: option.splits)
  then have "is_rt t" using assms(1) by (simp add: rt_links_def)
  then show ?thesis using assms t
    by (auto simp: UBI_MAIOR_MINOR_CESSAT_WAIT_def Let_def rt_links_queues owner_task_def intro!: rt_links_upd_sem(1) split: if_splits)
qed

lemma rt_links_resource_busy:
  assumes "rt_links s" "is_rt (RT_CURRENT c s)" "resource_busy c x s = Some (s', r)"
  shows "rt_links s'"
  using assms by (auto simp: resource_busy_def own_again_def Let_def rt_links_upd_sem(2) intro: rt_links_UBI split: if_splits option.splits)

lemma rt_links_sem_resume:
  assumes "rt_links s" "is_rt t"
  shows "rt_links (fst (rt_sem_wait_resume c x t s))" "rt_links (fst (rt_sem_wait_until_resume c x t s))"
proof -
  have "rt_links (fst (set_task_prio_from_resq c u s)) = rt_links s" for u s
    by (rule rt_links_same) (simp_all add: rt_task_ok_def set_task_prio_from_resq_def set_prio_from_resq_def renq_ready_task_def Let_def)
  then have "rt_links (leave_queue c x t s)" using assms(1) by (auto simp: leave_queue_def Let_def rt_links_queues split: option.split)
  then show "rt_links (fst (rt_sem_wait_resume c x t s))" "rt_links (fst (rt_sem_wait_until_resume c x t s))"
    using assms by (auto simp: rt_sem_wait_resume_def rt_sem_wait_until_resume_def rt_links_queues split: blk.split)
qed

lemma rt_links_semaphores:
  assumes "rt_links s" "is_rt (RT_CURRENT c s)"
  shows "rt_links (fst (rt_sem_wait c x s))" "rt_links (fst (rt_sem_wait_if c x s))"
    "rt_links (fst (rt_sem_wait_until c x time s))"
proof -
  show "rt_links (fst (rt_sem_wait c x s))"
    using assms rt_links_resource_busy [OF assms, of x] rt_links_pass_to_owner [OF assms(1), of c x]
    by (auto simp: rt_sem_wait_def Let_def split: option.split prod.split intro!: rt_links_requests(4) rt_links_queues)
  show "rt_links (fst (rt_sem_wait_if c x s))"
    using assms rt_links_UBI [OF assms, of x]
    by (auto simp: rt_sem_wait_if_def own_again_def Let_def rt_links_upd_sem(2) rt_links_queues split: option.split)
  let ?s0 = "upd_task (RT_CURRENT c s) (\<lambda>k. k\<lparr>blocked_on := BQueue (SemQ x), resume_time := time\<rparr>) s"
  have l: "rt_links ?s0" using assms(1) by simp
  show "rt_links (fst (rt_sem_wait_until c x time s))"
    using assms l rt_links_resource_busy [OF l, of c x] rt_links_pass_to_owner [OF l, of c x] rt_links_sem_resume(2) [of "sem_count_down x ?s0" "RT_CURRENT c s" c x]
    by (auto simp: rt_sem_wait_until_def Let_def rt_links_queues split: option.split prod.split intro!: rt_links_requests(4))
qed

lemma rt_links_wake_waiter: "rt_links s \<Longrightarrow> rt_links (fst (wake_waiter c t s))"
  by (simp add: wake_waiter_def release_def Let_def rt_links_queues)

lemma rt_links_broadcast_loop: "rt_links s \<Longrightarrow> rt_links (fst (broadcast_loop c ts (s, m)))"
proof (induction ts arbitrary: s m)
  case (Cons t ts)
  show ?case using Cons.IH [OF rt_links_wake_waiter [OF Cons.prems, of c t]] by (simp add: split_beta)
qed simp

lemma rt_links_rt_sem_broadcast: "rt_links s \<Longrightarrow> rt_links (fst (rt_sem_broadcast c x s))"
  using rt_links_broadcast_loop [of s c "qring s (SemQ x)" "{}"]
  by (auto simp: rt_sem_broadcast_def Let_def rt_links_upd_sem(2) split: prod.splits)

lemma rt_links_rt_cond_signal: "rt_links s \<Longrightarrow> rt_links (fst (rt_cond_signal c x s))"
  by (cases rule: wake_head_cases [of s x c]) (auto simp: rt_cond_signal_def rt_links_wake_waiter split: bool.split)


lemma rt_links_release_owner:
  assumes l: "rt_links s" and t: "is_rt (RT_CURRENT c s)" "0 \<le> suspdepth (tasks s (RT_CURRENT c s))"
    and task: "\<And>t. task = Some t \<Longrightarrow> is_rt t" and s': "sem_release_owner c x task tosched s = Some s'"
  shows "rt_links s'"
proof -
  let ?cur = "RT_CURRENT c s"
  let ?s1 = "upd_sem x (\<lambda>k. k\<lparr>owndby := (case task of None \<Rightarrow> ONull | Some t \<Rightarrow> OTask t)\<rparr>) s"
  have "rt_links ?s1" by (rule rt_links_upd_sem(1) [OF l]) (use task in \<open>auto simp: owner_task_def split: option.splits\<close>)
  moreover have "rt_links (fst (dequeue_resqel_reset_task_priority c ?cur ?s1)) = rt_links ?s1"
    by (rule rt_links_same)
      (simp_all add: rt_task_ok_def dequeue_resqel_reset_task_priority_def set_prio_from_resq_def renq_ready_task_def Let_def)
  moreover have "suspdepth (tasks (fst (dequeue_resqel_reset_task_priority c ?cur ?s1)) ?cur) \<ge> 0" using t(2) by simp
  ultimately show ?thesis using s'
    by (auto simp: sem_release_owner_def Let_def split_beta split: if_splits option.splits)
qed

lemma release_ready: "snd (release m c t s) \<Longrightarrow> \<not> is_delayed (tasks (fst (release m c t s)) t)"
  by (auto simp: release_def Let_def is_delayed_def bit.conj_disj_distrib2 split: if_splits)

lemma rt_links_rt_sem_signal:
  assumes l: "rt_links s" and cur: "is_rt (RT_CURRENT c s)" "0 \<le> suspdepth (tasks s (RT_CURRENT c s))"
    and s': "rt_sem_signal c x s = Some (s', r)"
  shows "rt_links s'"
proof -
  obtain s1 task w where h: "wake_head c x (sem_count_up x s) = (s1, task, w)" by (cases "wake_head c x (sem_count_up x s)") auto
  have q: "qring (sem_count_up x s) = qring s" "RT_CURRENT c (sem_count_up x s) = RT_CURRENT c s" "tasks (sem_count_up x s) = tasks s"
    by (simp_all add: sem_count_up_def)
  have l1: "rt_links s1" "RT_CURRENT c s1 = RT_CURRENT c s" "suspdepth (tasks s1 u) = suspdepth (tasks s u)" for u
    using h q l by (cases rule: wake_head_cases [of "sem_count_up x s" x c]; auto simp: rt_links_wake_waiter)+
  have task: "is_rt t \<and> (w \<longrightarrow> \<not> is_delayed (tasks s1 t))" if "task = Some t" for t
  proof (cases rule: wake_head_cases [of "sem_count_up x s" x c])
    case (2 u us v)
    have "wake_waiter c u (sem_count_up x s) = (s1, w)" "u = t"
      using h 2 that by (auto simp: wake_head_def sem_head_def split: prod.splits)
    then have "w \<longrightarrow> \<not> is_delayed (tasks s1 t)"
      using release_ready [of SEM_WAIT_BITS c t "rem_timed_task t (dequeue_blocked t (sem_count_up x s))"] by (auto simp: wake_waiter_def)
    moreover have "is_rt t" using l 2 q \<open>u = t\<close> unfolding rt_links_def by (metis list.set_intros(1))
    ultimately show ?thesis by blast
  qed (use h that in simp)
  define s2 where "s2 = (case task of Some t \<Rightarrow>
      if w then upd_task t (\<lambda>k. k\<lparr>running := - uint (state k AND RT_SCHED_DELAYED)\<rparr>) s1 else s1 | None \<Rightarrow> s1)"
  have s2: "rt_links s2" "RT_CURRENT c s2 = RT_CURRENT c s" "suspdepth (tasks s2 u) = suspdepth (tasks s u)" for u
    using l1 task by (auto simp: s2_def is_delayed_def intro: rt_links_upd_running split: option.split)
  have "rt_links s3" if "sem_release_owner c x task w s2 = Some s3" for s3
    using rt_links_release_owner [OF s2(1) _ _ _ that] cur s2(2,3) task by simp
  then show ?thesis using s' h l l1(1)
    by (auto simp: rt_sem_signal_def Let_def s2_def [symmetric] rt_links_upd_sem(2) split: if_splits option.splits)
qed

lemma rt_links_change_prio_loop:
  "rt_links s \<Longrightarrow> is_rt t \<Longrightarrow> rt_links (fst (change_prio_loop n c t v m s))"
proof (induction n arbitrary: t s)
  case (Suc n)
  have r: "rt_links (fst (pass_prio_ready c t m s)) = rt_links s" for t s by (simp add: pass_prio_ready_def Let_def)
  have q: "is_rt u" if "pass_through t s = Some (q, Some u)" for t q u
    using rt_links_pass_ok [OF Suc.prems(1)] that by (simp add: pass_ok_def)
  show ?case using Suc q by (auto simp: Let_def r rt_links_queues(4) split: option.split)
qed simp

lemma rt_links_rt_change_prio:
  assumes "rt_links s" "is_rt t"
  shows "rt_links (fst (rt_change_prio c t v s))"
proof -
  have "rt_links (fst (change_prio_loop n c t v' m (upd_task t (\<lambda>k. k\<lparr>base_priority := v'\<rparr>) s)))" for n v' m
    using assms by (intro rt_links_change_prio_loop) simp_all
  then show ?thesis using assms by (auto simp: rt_change_prio_def Let_def split_beta simp del: change_prio_loop.simps)
qed

lemma rt_links_rt_task_init_cpuid:
  assumes "rt_links s" "is_rt t"
  shows "rt_links (fst (rt_task_init_cpuid t st p c s))"
proof -
  have "rt_links (rt_set_task_pid t s) = rt_links s" for s
    by (rule rt_links_same) (simp_all add: rt_set_task_pid_def Let_def rt_task_ok_def)
  moreover have "rt_links (s\<lparr>tasks_per_cpu := a, all_tasks := b\<rparr>) = rt_links s" for s a b by (rule rt_links_same) simp_all
  ultimately show ?thesis using assms
    by (auto simp: rt_task_init_cpuid_def Let_def link_new_task_def rt_task_ok_def intro!: rt_links_upd_ring rt_links_upd_task)
qed

section \<open>The kernel as a machine\<close>

text \<open>
  One event or one service on some CPU. The conditions: a service that may switch its caller away is called by a ready
  real-time task on its own CPU (\<open>running_ok\<close>), a signal by a real-time task whose suspension count is not negative;
  the tasks handed to the services are real-time tasks; another task that is suspended is not delayed, and neither is
  a task that is made periodic or suspended until a time; and the resume that takes the last suspension away is not of a
  ready task. The last two exclude calls that the code accepts and that break the lists (lemmas
  \<open>suspend_of_sleeper_strands_it\<close> and \<open>resume_of_ready_owner_duplicates\<close>).
\<close>

inductive kernel_step :: "kst \<Rightarrow> kst \<Rightarrow> bool" where
  clock: "tsc s \<le> now \<Longrightarrow> kernel_step s (s\<lparr>tsc := now\<rparr>)"
| timer: "kernel_step s (rt_timer_handler c s)"
| ipi: "kernel_step s (rt_schedule_on_schedule_ipi c s)"
| schedule: "kernel_step s (rt_schedule c s)"
| call_timer: "kernel_step s (CALL_TIMER_HANDLER c s)"
| init: "is_rt t \<Longrightarrow> state (tasks s t) = 0 \<Longrightarrow> kernel_step s (fst (rt_task_init_cpuid t st p c s))"
| lock: "kernel_step s (rt_sched_lock c s)"
| unlock: "kernel_step s (rt_sched_unlock c s)"
| yield: "kernel_step s (rt_task_yield c s)"
| sleep: "running_ok c s \<Longrightarrow> kernel_step s (fst (rt_sleep_until c time s))"
| wait_period: "running_ok c s \<Longrightarrow> kernel_step s (fst (rt_task_wait_period c s))"
| suspend: "(\<And>t. task_arg c task s = Some t \<Longrightarrow> t \<noteq> rt_smp_current s c \<Longrightarrow> \<not> is_delayed (tasks s t)) \<Longrightarrow>
    kernel_step s (fst (rt_task_suspend c task s))"
| suspend_until: "(\<And>t. task_arg c task s = Some t \<Longrightarrow> is_rt t \<and> \<not> is_delayed (tasks s t)) \<Longrightarrow>
    kernel_step s (fst (rt_task_suspend_until c task time s))"
| resume: "is_rt t \<Longrightarrow> (s32 (suspdepth (tasks s t) - 1) = 0 \<Longrightarrow> state (tasks s t) \<noteq> RT_SCHED_READY) \<Longrightarrow>
    kernel_step s (fst (rt_task_resume c t s))"
| periodic: "(\<And>t. task_arg c task s = Some t \<Longrightarrow> is_rt t \<and> \<not> is_delayed (tasks s t)) \<Longrightarrow>
    kernel_step s (fst (rt_task_make_periodic c task start per s))"
| unblock: "is_rt t \<Longrightarrow> kernel_step s (fst (rt_task_masked_unblock c t msk s))"
| set_policy: "rt_set_sched_policy c task pol rr s = Some s' \<Longrightarrow> kernel_step s s'"
| change_prio: "is_rt t \<Longrightarrow> kernel_step s (fst (rt_change_prio c t v s))"
| sem_init: "kernel_step s (rt_typed_sem_init x v type s)"
| sem_wait: "running_ok c s \<Longrightarrow> kernel_step s (fst (rt_sem_wait c x s))"
| sem_wait_if: "running_ok c s \<Longrightarrow> kernel_step s (fst (rt_sem_wait_if c x s))"
| sem_wait_until: "running_ok c s \<Longrightarrow> kernel_step s (fst (rt_sem_wait_until c x time s))"
| sem_resume: "is_rt t \<Longrightarrow> kernel_step s (fst (rt_sem_wait_resume c x t s))"
| sem_until_resume: "is_rt t \<Longrightarrow> kernel_step s (fst (rt_sem_wait_until_resume c x t s))"
| sem_signal: "is_rt (RT_CURRENT c s) \<Longrightarrow> 0 \<le> suspdepth (tasks s (RT_CURRENT c s)) \<Longrightarrow>
    rt_sem_signal c x s = Some (s', r) \<Longrightarrow> kernel_step s s'"
| sem_broadcast: "kernel_step s (fst (rt_sem_broadcast c x s))"
| sem_barrier: "running_ok c s \<Longrightarrow> kernel_step s (fst (rt_sem_wait_barrier c x s))"
| cond_signal: "kernel_step s (fst (rt_cond_signal c x s))"

lemmas kernel_sched_wf = sched_wf_rt_timer_handler sched_wf_CALL_TIMER_HANDLER sched_wf_ipi sched_wf_rt_schedule sched_wf_rt_task_init_cpuid sched_wf_lock
  sched_wf_unlock sched_wf_rt_task_yield sched_wf_rt_sleep_until sched_wf_rt_task_wait_period sched_wf_masked_unblock
  sched_wf_rt_change_prio sched_wf_rt_sem_wait sched_wf_rt_sem_wait_if sched_wf_rt_sem_wait_until sched_wf_sem_resume
  sched_wf_rt_sem_wait_barrier sched_wf_rt_cond_signal

lemma rt_links_running: "rt_links s \<Longrightarrow> \<forall>t. 0 \<le> running (tasks s t)"
  by (simp add: rt_links_def rt_task_ok_def)

lemma sched_wf_kernel_step: "kernel_step s s' \<Longrightarrow> sched_wf {} {} s \<Longrightarrow> rt_links s \<Longrightarrow> sched_wf {} {} s'"
proof (induction rule: kernel_step.induct)
  case (periodic c task s start per)
  then show ?case by (auto simp: rt_task_make_periodic_def sched_wf_make_periodic split: option.split)
next
  case (sem_init s x v type)
  then show ?case by (simp add: rt_typed_sem_init_def Let_def split_beta)
next
  case (sem_broadcast s c x)
  then show ?case by (auto simp: rt_links_def intro!: sched_wf_rt_sem_broadcast)
next
  case (suspend c task s)
  then show ?case by (intro sched_wf_rt_task_suspend) blast+
next
  case (suspend_until c task s time)
  then show ?case by (intro sched_wf_rt_task_suspend_until) blast+
next
  case (resume t s c)
  then show ?case by (intro sched_wf_rt_task_resume) blast+
next
  case (set_policy c task pol rr s s')
  then show ?case by (blast intro: sched_wf_rt_set_sched_policy)
next
  case (sem_signal c s x s' r)
  then show ?case by (blast intro: sched_wf_rt_sem_signal)
qed (simp_all add: kernel_sched_wf rt_links_running rt_links_pass_ok)

lemma rt_links_sem_init: "rt_links s \<Longrightarrow> rt_links (rt_typed_sem_init x v type s)"
  by (auto simp: rt_typed_sem_init_def Let_def split_beta owner_task_def intro!: rt_links_upd_ring rt_links_upd_sem(1))

lemma rt_links_barrier:
  assumes "rt_links s" "is_rt (RT_CURRENT c s)"
  shows "rt_links (fst (rt_sem_wait_barrier c x s))"
proof -
  have l: "rt_links (barrier_open x s)" "is_rt (RT_CURRENT c (barrier_open x s))"
    using assms by (auto simp: barrier_open_def owner_task_def intro!: rt_links_upd_sem(1))
  show ?thesis using rt_links_semaphores(1) [OF l, of x] rt_links_rt_sem_broadcast [OF l(1), of c x] assms(1)
    by (auto simp: rt_sem_wait_barrier_def Let_def split_beta)
qed

lemma rt_links_kernel_step: "kernel_step s s' \<Longrightarrow> rt_links s \<Longrightarrow> rt_links s'"
proof (induction rule: kernel_step.induct)
  case (periodic c task s start per)
  then show ?case by (auto simp: rt_task_make_periodic_def split: option.split)
next
  case (set_policy c task pol rr s s')
  then show ?case by (auto simp: rt_set_sched_policy_def Let_def split: option.splits if_splits)
next
  case (sem_signal c s x s' r)
  then show ?case by (blast intro: rt_links_rt_sem_signal)
qed (simp_all add: rt_links_rt_task_init_cpuid rt_links_rt_change_prio rt_links_sem_init rt_links_semaphores rt_links_sem_resume
    rt_links_rt_sem_broadcast rt_links_barrier rt_links_rt_cond_signal running_ok_def)

lemma rt_links_boot: "rt_links (sched_boot tn now)"
  by (auto simp: rt_links_def rt_task_ok_def sched_boot_def boot_task_def linux_task_def zero_task_def zero_sem_def owner_task_def
      is_rt_def split: tid.splits)

text \<open>C2. In every state that the steps of \<open>kernel_step\<close> reach from the start of the scheduler, in any order and on any
  CPUs, the ready lists hold exactly the ready tasks of their CPU by priority, the timed lists exactly the delayed ones by
  resume time; no Linux task waits in a queue or owns a resource; and the mark \<open>running\<close> is never negative, so the branch
  in which \<^verbatim>\<open>UBI_MAIOR_MINOR_CESSAT_WAIT\<close> puts an owner back into the timed list is never taken. The steps are the
  clock, the timer handler, the scheduling IPI, \<^verbatim>\<open>rt_schedule\<close>, the creation of a task, lock and unlock of the scheduler,
  the task services (yield, sleep, wait for the period, suspend, resume, make periodic, unblock, set policy, change
  priority) and the semaphore services (init, wait with its variants and their continuations, signal, broadcast,
  barrier, condition signal), under the conditions written at \<open>kernel_step\<close>; suspending another task that sleeps and
  resuming a ready owner, which break the lists, the deletions, mailboxes and messages are not among them.\<close>

theorem kernel_state_typed:
  assumes "kernel_step\<^sup>*\<^sup>* (sched_boot tn now) s"
  shows "sched_wf {} {} s \<and> rt_links s"
  using assms
proof (induction rule: rtranclp_induct)
  case base
  then show ?case by (simp add: sched_wf_boot rt_links_boot)
next
  case (step s s')
  then show ?case using sched_wf_kernel_step rt_links_kernel_step by blast
qed

lemma demo_ready_reached: "kernel_step\<^sup>*\<^sup>* (sched_boot tn0 1000) demo_ready"
proof -
  have init: "kernel_step\<^sup>*\<^sup>* a (fst (rt_task_init_cpuid t st p c s))"
    if "kernel_step\<^sup>*\<^sup>* a s" "is_rt t" "state (tasks s t) = 0" for a t st p c s
    using that by (auto intro: rtranclp.rtrancl_into_rtrancl kernel_step.init)
  have resume: "kernel_step\<^sup>*\<^sup>* a (fst (rt_task_resume c t s))"
    if "kernel_step\<^sup>*\<^sup>* a s" "is_rt t" "state (tasks s t) \<noteq> RT_SCHED_READY" for a c t s
    using that by (auto intro: rtranclp.rtrancl_into_rtrancl kernel_step.resume)
  have "state (tasks (fst (rt_task_resume 1 (Task 4) demo_init)) (Task 2)) = 3"
    by (simp add: rt_task_resume_def valid_task_def demo_init_tasks Let_def rem_timed_task_def RT_SCHEDULE_def enq_ready_task_def)
  moreover have "kernel_step\<^sup>*\<^sup>* (sched_boot tn0 1000) demo_init"
    unfolding demo_init_def by (intro init rtranclp.rtrancl_refl) (simp_all add: is_rt_def demo_simps)
  ultimately show ?thesis unfolding demo_ready_def by (intro resume) (simp_all add: is_rt_def demo_init_tasks)
qed

theorem kernel_state_typed_witness:
  "sched_wf {} {} (rt_schedule 0 demo_ready) \<and> rt_links (rt_schedule 0 demo_ready)"
  using kernel_state_typed [OF rtranclp.rtrancl_into_rtrancl [OF demo_ready_reached kernel_step.schedule]] .

end
