(* ===== verification/Mbx_Buffer.thy ===== *)
theory Mbx_Buffer
  imports Task_Init
begin

text \<open>
  The circular buffer of a mailbox (\<^verbatim>\<open>mbxput\<close>, \<^verbatim>\<open>mbxget\<close>, \<^verbatim>\<open>mbxovrwrput\<close> and
  \<^verbatim>\<open>mbxevdrp\<close> of \<^verbatim>\<open>src/ipc/mbx/mbx.c\<close>), refined to a queue of bytes. A message is the list
  of its bytes, so that \<^verbatim>\<open>msg_size\<close> is its length. Each loop copies at most up to the end of
  the buffer; were an index to leave the buffer it might copy nothing and go round for ever,
  so the loops are partial and \<open>None\<close> is a loop that never ends.
\<close>

section \<open>The contract of a bounded byte queue\<close>

datatype bq_op = Send "byte list" | Receive nat

text \<open>A run of operations: the final buffer, the bytes it accepted and the bytes it handed
  out.\<close>

fun bq_run :: "('b \<Rightarrow> byte list \<Rightarrow> ('b \<times> byte list) option) \<Rightarrow> ('b \<Rightarrow> nat \<Rightarrow> ('b \<times> byte list) option) \<Rightarrow>
    bq_op list \<Rightarrow> 'b \<Rightarrow> ('b \<times> byte list \<times> byte list) option" where
  "bq_run put get [] b = Some (b, [], [])"
| "bq_run put get (Send xs # ops) b =
     (case put b xs of None \<Rightarrow> None
      | Some (b1, rest) \<Rightarrow>
          (case bq_run put get ops b1 of None \<Rightarrow> None
           | Some (b2, ins, outs) \<Rightarrow> Some (b2, take (length xs - length rest) xs @ ins, outs)))"
| "bq_run put get (Receive n # ops) b =
     (case get b n of None \<Rightarrow> None
      | Some (b1, ys) \<Rightarrow>
          (case bq_run put get ops b1 of None \<Rightarrow> None
           | Some (b2, ins, outs) \<Rightarrow> Some (b2, ins, ys @ outs)))"

locale byte_queue =
  fixes ok :: "'b \<Rightarrow> bool" and contents :: "'b \<Rightarrow> byte list" and room :: "'b \<Rightarrow> nat"
    and put :: "'b \<Rightarrow> byte list \<Rightarrow> ('b \<times> byte list) option"
    and get :: "'b \<Rightarrow> nat \<Rightarrow> ('b \<times> byte list) option"
  assumes put_law: "ok b \<Longrightarrow> \<exists>b'. put b xs = Some (b', drop (room b) xs) \<and> ok b' \<and>
      contents b' = contents b @ take (room b) xs \<and> room b' = room b - length xs"
    and get_law: "ok b \<Longrightarrow> \<exists>b'. get b n = Some (b', take n (contents b)) \<and> ok b' \<and>
      contents b' = drop n (contents b) \<and> room b' = room b + min n (length (contents b))"
begin

lemma run_fifo:
  "ok b \<Longrightarrow> \<exists>b' ins outs. bq_run put get ops b = Some (b', ins, outs) \<and> ok b' \<and>
     contents b @ ins = outs @ contents b' \<and> room b' + length (contents b') = room b + length (contents b)"
proof (induction ops arbitrary: b)
  case Nil
  then show ?case by simp
next
  case (Cons op ops)
  show ?case
  proof (cases op)
    case (Send xs)
    obtain b1 where b1: "put b xs = Some (b1, drop (room b) xs)" "ok b1"
      "contents b1 = contents b @ take (room b) xs" "room b1 = room b - length xs"
      using put_law [OF Cons.prems] by blast
    obtain b2 ins outs where b2: "bq_run put get ops b1 = Some (b2, ins, outs)" "ok b2"
      "contents b1 @ ins = outs @ contents b2" "room b2 + length (contents b2) = room b1 + length (contents b1)"
      using Cons.IH [OF b1(2)] by blast
    have "take (length xs - (length xs - room b)) xs = take (room b) xs"
      by (cases "room b \<le> length xs") simp_all
    then show ?thesis using b1 b2 Send by simp
  next
    case (Receive n)
    obtain b1 where b1: "get b n = Some (b1, take n (contents b))" "ok b1"
      "contents b1 = drop n (contents b)" "room b1 = room b + min n (length (contents b))"
      using get_law [OF Cons.prems] by blast
    obtain b2 ins outs where b2: "bq_run put get ops b1 = Some (b2, ins, outs)" "ok b2"
      "contents b1 @ ins = outs @ contents b2" "room b2 + length (contents b2) = room b1 + length (contents b1)"
      using Cons.IH [OF b1(2)] by blast
    have "contents b @ ins = take n (contents b) @ outs @ contents b2"
      using b1(3) b2(3) by (metis append_assoc append_take_drop_id)
    then show ?thesis using b1 b2 Receive by simp
  qed
qed

lemma put_get: "ok b \<Longrightarrow> contents b = [] \<Longrightarrow> length xs \<le> room b \<Longrightarrow>
   \<exists>b1 b2. put b xs = Some (b1, []) \<and> get b1 (length xs) = Some (b2, xs) \<and> contents b2 = []"
  (is "_ \<Longrightarrow> _ \<Longrightarrow> _ \<Longrightarrow> ?goal")
proof -
  assume b: "ok b" "contents b = []" "length xs \<le> room b"
  obtain b1 where b1: "put b xs = Some (b1, [])" "ok b1" "contents b1 = xs"
    using put_law [OF b(1), of xs] b(2,3) by auto
  obtain b2 where "get b1 (length xs) = Some (b2, xs)" "contents b2 = []"
    using get_law [OF b1(2), of "length xs"] b1(3) by auto
  then show ?goal using b1 by blast
qed

end

section \<open>The loops\<close>

definition MOD_SIZE :: "mbx \<Rightarrow> nat \<Rightarrow> nat" where
  "MOD_SIZE m indx = (if indx < mbx_size m then indx else indx - mbx_size m)"

text \<open>\<^verbatim>\<open>memcpy\<close> into the buffer\<close>

definition copy_in :: "nat \<Rightarrow> byte list \<Rightarrow> byte list \<Rightarrow> byte list" where
  "copy_in i xs buf = take i buf @ xs @ drop (i + length xs) buf"

definition copy_out :: "nat \<Rightarrow> nat \<Rightarrow> byte list \<Rightarrow> byte list" where
  "copy_out i n buf = take n (drop i buf)"

text \<open>One turn of the copying loops: a chunk into the buffer, a chunk out of it.\<close>

definition put_chunk :: "byte list \<Rightarrow> mbx \<Rightarrow> mbx" where
  "put_chunk xs m = m\<lparr>bufadr := copy_in (lbyte m) xs (bufadr m), frbs := frbs m - length xs,
     avbs := avbs m + length xs, lbyte := MOD_SIZE m (lbyte m + length xs)\<rparr>"

definition drop_chunk :: "nat \<Rightarrow> mbx \<Rightarrow> mbx" where
  "drop_chunk n m = m\<lparr>frbs := frbs m + n, avbs := avbs m - n, fbyte := MOD_SIZE m (fbyte m + n)\<rparr>"

definition put_size :: "nat \<Rightarrow> mbx \<Rightarrow> nat" where
  "put_size n m = min (min (mbx_size m - lbyte m) n) (frbs m)"

definition get_size :: "nat \<Rightarrow> mbx \<Rightarrow> nat" where
  "get_size n m = min (min (mbx_size m - fbyte m) n) (avbs m)"

partial_function (option) mbxput :: "mbx \<Rightarrow> byte list \<Rightarrow> (mbx \<times> byte list) option" where
  "mbxput m data =
     (if data \<noteq> [] \<and> frbs m \<noteq> 0 then
        mbxput (put_chunk (take (put_size (length data) m) data) m) (drop (put_size (length data) m) data)
      else Some (m, data))"

partial_function (option) mbxget :: "mbx \<Rightarrow> nat \<Rightarrow> byte list \<Rightarrow> (mbx \<times> byte list) option" where
  "mbxget m msg_size got =
     (if 0 < msg_size \<and> avbs m \<noteq> 0 then
        mbxget (drop_chunk (get_size msg_size m) m) (msg_size - get_size msg_size m)
          (got @ copy_out (fbyte m) (get_size msg_size m) (bufadr m))
      else Some (m, got))"

text \<open>\<^verbatim>\<open>mbxevdrp\<close> reads without removing. Its two local variables walk along the buffer; in the
  copy to user space the code reads at \<^verbatim>\<open>mbx->fbyte\<close> instead.\<close>

partial_function (option) mbxevdrp :: "mbx \<Rightarrow> bool \<Rightarrow> nat \<Rightarrow> nat \<Rightarrow> nat \<Rightarrow> byte list \<Rightarrow> (byte list) option" where
  "mbxevdrp m space fb av msg_size got =
     (if 0 < msg_size \<and> av \<noteq> 0 then
        (let tocpy = min (min (mbx_size m - fb) msg_size) av in
         mbxevdrp m space (MOD_SIZE m (fb + tocpy)) (av - tocpy) (msg_size - tocpy)
           (got @ copy_out (if space then fb else fbyte m) tocpy (bufadr m)))
      else Some got)"

definition rt_mbx_evdrp :: "mbx \<Rightarrow> bool \<Rightarrow> nat \<Rightarrow> byte list option" where
  "rt_mbx_evdrp m space msg_size = mbxevdrp m space (fbyte m) (avbs m) msg_size []"

text \<open>The inner loop of \<^verbatim>\<open>mbxovrwrput\<close> makes room by dropping the oldest bytes.\<close>

partial_function (option) make_room :: "mbx \<Rightarrow> nat \<Rightarrow> mbx option" where
  "make_room m msg_size =
     (if frbs m < msg_size then make_room (drop_chunk (get_size (msg_size - frbs m) m) m) msg_size else Some m)"

partial_function (option) ovrwr_loop :: "mbx \<Rightarrow> byte list \<Rightarrow> mbx option" where
  "ovrwr_loop m data =
     (if data \<noteq> [] then
        (let n = (if frbs m \<noteq> 0 then put_size (length data) m else 0);
             m1 = (if frbs m \<noteq> 0 then put_chunk (take n data) m else m);
             rest = drop n data in
         if rest \<noteq> [] then (case make_room m1 (length rest) of None \<Rightarrow> None | Some m2 \<Rightarrow> ovrwr_loop m2 rest)
         else ovrwr_loop m1 rest)
      else Some m)"

definition mbxovrwrput :: "mbx \<Rightarrow> byte list \<Rightarrow> mbx option" where
  "mbxovrwrput m data = ovrwr_loop m (drop (length data - mbx_size m) data)"

section \<open>Refinement to a queue of bytes\<close>

definition mbx_bytes :: "mbx \<Rightarrow> byte list" where
  "mbx_bytes m = map (\<lambda>i. bufadr m ! ((fbyte m + i) mod mbx_size m)) [0..<avbs m]"

definition mbx_wf :: "mbx \<Rightarrow> bool" where
  "mbx_wf m \<longleftrightarrow> 0 < mbx_size m \<and> length (bufadr m) = mbx_size m \<and> fbyte m < mbx_size m \<and>
     avbs m + frbs m = mbx_size m \<and> lbyte m = (fbyte m + avbs m) mod mbx_size m"

lemma length_mbx_bytes [simp]: "length (mbx_bytes m) = avbs m"
  by (simp add: mbx_bytes_def)

lemma mbx_bytes_Nil [simp]: "mbx_bytes m = [] \<longleftrightarrow> avbs m = 0"
  by (simp add: mbx_bytes_def)

lemma MOD_SIZE_mod: "i < 2 * mbx_size m \<Longrightarrow> MOD_SIZE m i = i mod mbx_size m"
  by (simp add: MOD_SIZE_def mod_if)

lemma nth_copy_in:
  "i + length xs \<le> length buf \<Longrightarrow> k < length buf \<Longrightarrow>
   copy_in i xs buf ! k = (if i \<le> k \<and> k < i + length xs then xs ! (k - i) else buf ! k)"
  by (auto simp: copy_in_def nth_append)

lemma length_copy_in [simp]: "i + length xs \<le> length buf \<Longrightarrow> length (copy_in i xs buf) = length buf"
  by (simp add: copy_in_def)

lemma lbyte_less: "mbx_wf m \<Longrightarrow> lbyte m < mbx_size m"
  by (simp add: mbx_wf_def)

text \<open>A chunk written behind the last byte comes out behind all others.\<close>

lemma put_chunk_bytes:
  assumes wf: "mbx_wf m" and n: "length xs \<le> frbs m" "length xs \<le> mbx_size m - lbyte m"
  shows "mbx_bytes (put_chunk xs m) = mbx_bytes m @ xs" "mbx_wf (put_chunk xs m)"
proof -
  let ?z = "mbx_size m"
  have sz: "0 < ?z" "length (bufadr m) = ?z" "fbyte m < ?z" "avbs m + frbs m = ?z"
    and lb: "lbyte m = (fbyte m + avbs m) mod ?z" "lbyte m < ?z" using wf by (auto simp: mbx_wf_def)
  have fit: "lbyte m + length xs \<le> ?z" using n lb by simp
  have idx: "(fbyte m + i) mod ?z = (if fbyte m + i < ?z then fbyte m + i else fbyte m + i - ?z)" if "i < ?z" for i
    using that sz by (simp add: mod_if)
  have lbv: "lbyte m = (if fbyte m + avbs m < ?z then fbyte m + avbs m else fbyte m + avbs m - ?z)"
    using lb(1) sz by (simp add: mod_if)
  have old: "copy_in (lbyte m) xs (bufadr m) ! ((fbyte m + i) mod ?z) = bufadr m ! ((fbyte m + i) mod ?z)"
    if "i < avbs m" for i
    using that sz n fit lbv idx [of i] by (subst nth_copy_in) (auto split: if_splits)
  have new: "copy_in (lbyte m) xs (bufadr m) ! ((fbyte m + (avbs m + j)) mod ?z) = xs ! j"
    if "j < length xs" for j
  proof -
    have "(fbyte m + (avbs m + j)) mod ?z = lbyte m + j"
      using that fit lb by (metis add.assoc mod_add_left_eq mod_less nat_add_left_cancel_less order_less_le_trans)
    then show ?thesis using that fit sz by (simp add: nth_copy_in)
  qed
  show "mbx_bytes (put_chunk xs m) = mbx_bytes m @ xs"
  proof (rule nth_equalityI)
    fix k assume k: "k < length (mbx_bytes (put_chunk xs m))"
    show "mbx_bytes (put_chunk xs m) ! k = (mbx_bytes m @ xs) ! k"
    proof (cases "k < avbs m")
      case True
      then show ?thesis using k old [of k] by (simp add: mbx_bytes_def put_chunk_def nth_append)
    next
      case False
      then show ?thesis using k new [of "k - avbs m"] by (simp add: mbx_bytes_def put_chunk_def nth_append)
    qed
  qed (simp add: put_chunk_def)
  have "MOD_SIZE m (lbyte m + length xs) = (fbyte m + (avbs m + length xs)) mod ?z"
    using fit sz lb by (subst MOD_SIZE_mod) (simp_all add: mod_add_left_eq add.assoc [symmetric])
  then show "mbx_wf (put_chunk xs m)" using sz n fit by (simp add: mbx_wf_def put_chunk_def)
qed

text \<open>The bytes in front of the end of the buffer are the first ones of the queue.\<close>

lemma drop_chunk_bytes:
  assumes wf: "mbx_wf m" and n: "n \<le> avbs m" "n \<le> mbx_size m - fbyte m"
  shows "copy_out (fbyte m) n (bufadr m) = take n (mbx_bytes m)"
    "mbx_bytes (drop_chunk n m) = drop n (mbx_bytes m)" "mbx_wf (drop_chunk n m)"
proof -
  let ?z = "mbx_size m"
  have sz: "0 < ?z" "length (bufadr m) = ?z" "fbyte m < ?z" "avbs m + frbs m = ?z" using wf by (auto simp: mbx_wf_def)
  show "copy_out (fbyte m) n (bufadr m) = take n (mbx_bytes m)"
    using n sz by (intro nth_equalityI) (simp_all add: copy_out_def mbx_bytes_def)
  have f: "MOD_SIZE m (fbyte m + n) = (fbyte m + n) mod ?z" using n sz by (intro MOD_SIZE_mod) simp
  show "mbx_bytes (drop_chunk n m) = drop n (mbx_bytes m)"
  proof (rule nth_equalityI)
    fix i assume "i < length (mbx_bytes (drop_chunk n m))"
    then have "n + i < avbs m" "i < avbs m - n" by (simp_all add: drop_chunk_def)
    then show "mbx_bytes (drop_chunk n m) ! i = drop n (mbx_bytes m) ! i"
      by (simp add: drop_chunk_def mbx_bytes_def f mod_add_left_eq add.assoc)
  qed (simp add: drop_chunk_def)
  have "((fbyte m + n) mod ?z + (avbs m - n)) mod ?z = (fbyte m + avbs m) mod ?z"
    using n by (simp only: mod_add_left_eq) simp
  then show "mbx_wf (drop_chunk n m)"
    using wf n sz f by (simp add: mbx_wf_def drop_chunk_def)
qed


lemma put_size_pos: "mbx_wf m \<Longrightarrow> 0 < n \<Longrightarrow> frbs m \<noteq> 0 \<Longrightarrow> 0 < put_size n m"
  using lbyte_less [of m] by (simp add: put_size_def)

lemma get_size_pos: "mbx_wf m \<Longrightarrow> 0 < n \<Longrightarrow> avbs m \<noteq> 0 \<Longrightarrow> 0 < get_size n m"
  by (simp add: get_size_def mbx_wf_def)

lemma chunk_sel [simp]:
  "mbx_size (put_chunk xs m) = mbx_size m" "mbx_size (drop_chunk n m) = mbx_size m"
  "frbs (put_chunk xs m) = frbs m - length xs" "avbs (drop_chunk n m) = avbs m - n"
  "frbs (drop_chunk n m) = frbs m + n" "avbs (put_chunk xs m) = avbs m + length xs"
  "sndsem (put_chunk xs m) = sndsem m" "rcvsem (put_chunk xs m) = rcvsem m"
  "sndsem (drop_chunk n m) = sndsem m" "rcvsem (drop_chunk n m) = rcvsem m"
  "waiting_task (put_chunk xs m) = waiting_task m" "waiting_task (drop_chunk n m) = waiting_task m"
  "mbx_magic (put_chunk xs m) = mbx_magic m" "mbx_magic (drop_chunk n m) = mbx_magic m"
  by (simp_all add: put_chunk_def drop_chunk_def)

text \<open>What copying does not touch.\<close>

definition same_mbx :: "mbx \<Rightarrow> mbx \<Rightarrow> bool" where
  "same_mbx m m' \<longleftrightarrow> mbx_size m' = mbx_size m \<and> sndsem m' = sndsem m \<and> rcvsem m' = rcvsem m \<and>
     waiting_task m' = waiting_task m \<and> mbx_magic m' = mbx_magic m"

lemma same_mbx_simps [simp]:
  "same_mbx m m" "same_mbx (put_chunk xs m) m' = same_mbx m m'" "same_mbx (drop_chunk n m) m' = same_mbx m m'"
  "same_mbx m (put_chunk xs m') = same_mbx m m'"
  by (simp_all add: same_mbx_def)

lemma mbxput_total:
  assumes "mbx_wf m"
  shows "\<exists>m'. mbxput m data = Some (m', drop (frbs m) data) \<and> mbx_wf m' \<and> same_mbx m m' \<and>
    mbx_bytes m' = mbx_bytes m @ take (frbs m) data \<and> frbs m' = frbs m - length data"
  using assms
proof (induction "length data" arbitrary: data m rule: less_induct)
  case less
  show ?case
  proof (cases "data \<noteq> [] \<and> frbs m \<noteq> 0")
    case False
    then show ?thesis using less.prems by (subst mbxput.simps) auto
  next
    case True
    let ?n = "put_size (length data) m"
    let ?m = "put_chunk (take ?n data) m"
    have n: "0 < ?n" "?n \<le> length data" "?n \<le> frbs m" "?n \<le> mbx_size m - lbyte m"
      using True put_size_pos [OF less.prems, of "length data"] by (auto simp: put_size_def)
    have c: "mbx_bytes ?m = mbx_bytes m @ take ?n data" "mbx_wf ?m"
      using put_chunk_bytes [OF less.prems, of "take ?n data"] n by simp_all
    obtain m' where m': "mbxput ?m (drop ?n data) = Some (m', drop (frbs ?m) (drop ?n data))" "mbx_wf m'"
      "same_mbx ?m m'" "mbx_bytes m' = mbx_bytes ?m @ take (frbs ?m) (drop ?n data)" "frbs m' = frbs ?m - length (drop ?n data)"
      using less.hyps [of "drop ?n data" ?m] n(1) True c(2) by auto
    have f: "frbs ?m = frbs m - ?n" using n by simp
    have "take ?n data @ take (frbs m - ?n) (drop ?n data) = take (frbs m) data"
      using n(3) by (metis le_add_diff_inverse take_add)
    moreover have "drop (frbs m - ?n) (drop ?n data) = drop (frbs m) data" using n(3) by simp
    ultimately show ?thesis using True m' c n f by (subst mbxput.simps) simp
  qed
qed

lemma mbxget_total:
  assumes "mbx_wf m"
  shows "\<exists>m'. mbxget m n got = Some (m', got @ take n (mbx_bytes m)) \<and> mbx_wf m' \<and> same_mbx m m' \<and>
    mbx_bytes m' = drop n (mbx_bytes m) \<and> frbs m' = frbs m + min n (avbs m)"
  using assms
proof (induction n arbitrary: got m rule: less_induct)
  case (less n)
  show ?case
  proof (cases "0 < n \<and> avbs m \<noteq> 0")
    case False
    then have "take n (mbx_bytes m) = []" "drop n (mbx_bytes m) = mbx_bytes m" "min n (avbs m) = 0"
      using mbx_bytes_Nil [of m] by (auto simp del: mbx_bytes_Nil)
    then show ?thesis using less.prems False by (subst mbxget.simps) auto
  next
    case True
    let ?n = "get_size n m"
    let ?m = "drop_chunk ?n m"
    have n: "0 < ?n" "?n \<le> n" "?n \<le> avbs m" "?n \<le> mbx_size m - fbyte m"
      using True get_size_pos [OF less.prems, of n] by (auto simp: get_size_def)
    note c = drop_chunk_bytes [OF less.prems n(3,4)]
    obtain m' where m': "mbxget ?m (n - ?n) (got @ take ?n (mbx_bytes m)) =
        Some (m', (got @ take ?n (mbx_bytes m)) @ take (n - ?n) (mbx_bytes ?m))" "mbx_wf m'" "same_mbx ?m m'"
      "mbx_bytes m' = drop (n - ?n) (mbx_bytes ?m)" "frbs m' = frbs ?m + min (n - ?n) (avbs ?m)"
      using less.IH [of "n - ?n" ?m] n c(3) by fastforce
    have "take ?n (mbx_bytes m) @ take (n - ?n) (drop ?n (mbx_bytes m)) = take n (mbx_bytes m)"
      using n(2) by (metis le_add_diff_inverse take_add)
    moreover have "drop (n - ?n) (drop ?n (mbx_bytes m)) = drop n (mbx_bytes m)" using n(2) by simp
    moreover have "?n + min (n - ?n) (avbs m - ?n) = min n (avbs m)" using n by simp
    ultimately show ?thesis using True m' c by (subst mbxget.simps) simp
  qed
qed

interpretation mbxq: byte_queue mbx_wf mbx_bytes frbs mbxput "\<lambda>m n. mbxget m n []"
proof
  show "\<exists>b'. mbxput b xs = Some (b', drop (frbs b) xs) \<and> mbx_wf b' \<and> mbx_bytes b' = mbx_bytes b @ take (frbs b) xs \<and>
      frbs b' = frbs b - length xs" if "mbx_wf b" for b xs
    using mbxput_total [OF that, of xs] by blast
  show "\<exists>b'. mbxget b n [] = Some (b', take n (mbx_bytes b)) \<and> mbx_wf b' \<and> mbx_bytes b' = drop n (mbx_bytes b) \<and>
      frbs b' = frbs b + min n (length (mbx_bytes b))" if "mbx_wf b" for b n
    using mbxget_total [OF that, of n "[]"] by auto
qed


text \<open>Previewing in kernel space shows the first bytes of the queue.\<close>

lemma mbxevdrp_total:
  assumes "0 < mbx_size m" "length (bufadr m) = mbx_size m" "fb < mbx_size m" "av \<le> mbx_size m"
  shows "mbxevdrp m True fb av n got =
    Some (got @ take n (map (\<lambda>i. bufadr m ! ((fb + i) mod mbx_size m)) [0..<av]))"
  using assms(3,4)
proof (induction n arbitrary: got fb av rule: less_induct)
  case (less n)
  show ?case
  proof (cases "0 < n \<and> av \<noteq> 0")
    case False
    then show ?thesis by (subst mbxevdrp.simps) auto
  next
    case True
    let ?v = "m\<lparr>fbyte := fb, avbs := av, frbs := mbx_size m - av, lbyte := (fb + av) mod mbx_size m\<rparr>"
    define k where "k = min (min (mbx_size m - fb) n) av"
    have wf: "mbx_wf ?v" using assms less.prems by (simp add: mbx_wf_def)
    have n: "0 < k" "k \<le> n" "k \<le> av" "k \<le> mbx_size m - fb" using True less.prems by (auto simp: k_def)
    have c: "copy_out fb k (bufadr m) = take k (mbx_bytes ?v)" "mbx_bytes (drop_chunk k ?v) = drop k (mbx_bytes ?v)"
      using drop_chunk_bytes [OF wf, of k] n by simp_all
    have f: "MOD_SIZE ?v i = MOD_SIZE m i" for i by (simp add: MOD_SIZE_def)
    have lt: "MOD_SIZE m (fb + k) < mbx_size m" "av - k \<le> mbx_size m"
      using assms less.prems n by (auto simp: MOD_SIZE_def)
    have b: "mbx_bytes (drop_chunk k ?v) =
        map (\<lambda>i. bufadr m ! ((MOD_SIZE m (fb + k) + i) mod mbx_size m)) [0..<av - k]"
      by (simp add: mbx_bytes_def drop_chunk_def f)
    have v: "mbx_bytes ?v = map (\<lambda>i. bufadr m ! ((fb + i) mod mbx_size m)) [0..<av]" by (simp add: mbx_bytes_def)
    have "mbxevdrp m True fb av n got = mbxevdrp m True (MOD_SIZE m (fb + k)) (av - k) (n - k) (got @ take k (mbx_bytes ?v))"
      using True c(1) by (subst mbxevdrp.simps) (simp add: k_def [symmetric])
    also have "\<dots> = Some ((got @ take k (mbx_bytes ?v)) @ take (n - k) (drop k (mbx_bytes ?v)))"
      using less.IH [of "n - k", OF _ lt] n(1,2) b c(2) by simp
    also have "\<dots> = Some (got @ take n (mbx_bytes ?v))"
      using n(2) by (metis append_assoc le_add_diff_inverse take_add)
    finally show ?thesis by (simp add: v)
  qed
qed

lemma mbxevdrp_stop: "mbxevdrp m space fb av 0 got = Some got"
  by (subst mbxevdrp.simps) simp

text \<open>Making room drops the oldest bytes.\<close>

lemma make_room_total:
  assumes "mbx_wf m" "n \<le> mbx_size m"
  shows "\<exists>m'. make_room m n = Some m' \<and> mbx_wf m' \<and> same_mbx m m' \<and>
    mbx_bytes m' = drop (n - frbs m) (mbx_bytes m) \<and> frbs m' = max n (frbs m)"
  using assms
proof (induction "n - frbs m" arbitrary: m rule: less_induct)
  case less
  show ?case
  proof (cases "frbs m < n")
    case False
    then show ?thesis using less.prems by (subst make_room.simps) auto
  next
    case True
    let ?k = "get_size (n - frbs m) m"
    let ?m = "drop_chunk ?k m"
    have av: "avbs m \<noteq> 0" using True less.prems by (auto simp: mbx_wf_def)
    have k: "0 < ?k" "?k \<le> n - frbs m" "?k \<le> avbs m" "?k \<le> mbx_size m - fbyte m"
      using True av get_size_pos [OF less.prems(1), of "n - frbs m"] by (auto simp: get_size_def)
    note c = drop_chunk_bytes [OF less.prems(1) k(3,4)]
    have decr: "n - frbs ?m < n - frbs m" using k(1) True by simp
    obtain m' where m': "make_room ?m n = Some m'" "mbx_wf m'" "same_mbx ?m m'"
      "mbx_bytes m' = drop (n - frbs ?m) (mbx_bytes ?m)" "frbs m' = max n (frbs ?m)"
      using less.hyps [OF _ c(3)] decr less.prems(2) by (metis chunk_sel(2))
    have "?k + (n - frbs ?m) = n - frbs m" using k(2) by simp
    then have "drop (n - frbs ?m) (drop ?k (mbx_bytes m)) = drop (n - frbs m) (mbx_bytes m)"
      by (metis add.commute drop_drop)
    moreover have "max n (frbs ?m) = max n (frbs m)" using k(2) True by simp
    ultimately show ?thesis using True m' c by (subst make_room.simps) simp
  qed
qed


lemma ovrwr_loop_room:
  assumes "mbx_wf m" "length data \<le> mbx_size m" "frbs m \<noteq> 0"
  shows "\<exists>m'. ovrwr_loop m data = Some m' \<and> mbx_wf m' \<and> same_mbx m m' \<and>
    mbx_bytes m' = drop (length data - frbs m) (mbx_bytes m) @ data"
  using assms
proof (induction "length data" arbitrary: data m rule: less_induct)
  case less
  show ?case
  proof (cases "data = []")
    case True
    then show ?thesis using less.prems by (subst ovrwr_loop.simps) simp
  next
    case False
    define n where "n = put_size (length data) m"
    define m1 where "m1 = put_chunk (take n data) m"
    have n: "0 < n" "n \<le> length data" "n \<le> frbs m" "n \<le> mbx_size m - lbyte m"
      using False less.prems put_size_pos [OF less.prems(1), of "length data"] by (auto simp: put_size_def n_def)
    have m1: "mbx_bytes m1 = mbx_bytes m @ take n data" "mbx_wf m1" "frbs m1 = frbs m - n" "same_mbx m1 m2 = same_mbx m m2"
        "mbx_size m1 = mbx_size m" for m2
      using put_chunk_bytes [OF less.prems(1), of "take n data"] n by (simp_all add: m1_def)
    show ?thesis
    proof (cases "drop n data = []")
      case True
      then have "ovrwr_loop m data = Some m1"
        using False less.prems(3) by (subst ovrwr_loop.simps) (simp add: ovrwr_loop.simps n_def m1_def Let_def)
      then show ?thesis using m1 n True less.prems by simp (simp add: m1_def)
    next
      case rest: False
      let ?r = "drop n data"
      obtain m2 where m2: "make_room m1 (length ?r) = Some m2" "mbx_wf m2" "same_mbx m1 m2"
        "mbx_bytes m2 = drop (length ?r - frbs m1) (mbx_bytes m1)" "frbs m2 = max (length ?r) (frbs m1)"
        using make_room_total [OF m1(2), of "length ?r"] le_trans [OF diff_le_self less.prems(2)] m1(5) by auto
      have s2: "mbx_size m2 = mbx_size m" using m2(3) m1(5) by (simp add: same_mbx_def)
      have len: "length ?r < length data" "length ?r \<le> mbx_size m2" using n(1,2) less.prems(2) s2 by simp_all
      have room2: "frbs m2 \<noteq> 0" "length ?r - frbs m2 = 0" using rest m2(5) by auto
      obtain m' where m': "ovrwr_loop m2 ?r = Some m'" "mbx_wf m'" "same_mbx m2 m'"
        "mbx_bytes m' = drop (length ?r - frbs m2) (mbx_bytes m2) @ ?r"
        using less.hyps [OF len(1) m2(2) len(2) room2(1)] by blast
      have keep: "length ?r - frbs m1 = length data - frbs m" "length data - frbs m \<le> length (mbx_bytes m)"
        using n m1(3) less.prems by (auto simp: mbx_wf_def)
      have "mbx_bytes m' = drop (length data - frbs m) (mbx_bytes m) @ data"
        using m' room2(2) m2(4) m1(1) keep by simp
      moreover have "ovrwr_loop m data = Some m'"
        using False rest less.prems(3) m2(1) m'(1) by (subst ovrwr_loop.simps) (simp add: n_def m1_def Let_def)
      moreover have "same_mbx m m'" using m2(3) m'(3) m1(4) by (simp add: same_mbx_def)
      ultimately show ?thesis using m'(2) by blast
    qed
  qed
qed

lemma ovrwr_loop_total:
  assumes "mbx_wf m" "length data \<le> mbx_size m"
  shows "\<exists>m'. ovrwr_loop m data = Some m' \<and> mbx_wf m' \<and> same_mbx m m' \<and>
    mbx_bytes m' = drop (length data - frbs m) (mbx_bytes m) @ data"
proof (cases "data = [] \<or> frbs m \<noteq> 0")
  case True
  then show ?thesis using ovrwr_loop_room [OF assms] assms by (subst ovrwr_loop.simps) (auto simp: ovrwr_loop.simps)
next
  case False
  obtain m2 where m2: "make_room m (length data) = Some m2" "mbx_wf m2" "same_mbx m m2"
    "mbx_bytes m2 = drop (length data - frbs m) (mbx_bytes m)" "frbs m2 = max (length data) (frbs m)"
    using make_room_total [OF assms] by auto
  have "ovrwr_loop m data = ovrwr_loop m2 data"
    using False m2(1) by (subst ovrwr_loop.simps) (simp add: Let_def)
  moreover have "frbs m2 \<noteq> 0" "length data \<le> mbx_size m2" "length data - frbs m2 = 0"
    using False m2(3,5) assms(2) by (auto simp: same_mbx_def)
  moreover obtain m' where "ovrwr_loop m2 data = Some m'" "mbx_wf m'" "same_mbx m2 m'"
    "mbx_bytes m' = drop (length data - frbs m2) (mbx_bytes m2) @ data"
    using ovrwr_loop_room [OF m2(2)] calculation(2,3) by blast
  ultimately show ?thesis using m2 by (simp add: same_mbx_def)
qed

section \<open>Properties\<close>

text \<open>A mailbox of four bytes that has gone once round its buffer, for the witnesses.\<close>

definition demo_mbx :: mbx where
  "demo_mbx = zero_mbx\<lparr>mbx_magic := RT_MBX_MAGIC, bufadr := [30, 40, 10, 20], mbx_size := 4, fbyte := 2, lbyte := 1,
     avbs := 3, frbs := 1\<rparr>"

lemma demo_mbx_wf: "mbx_wf demo_mbx"
  by (simp add: mbx_wf_def demo_mbx_def)

lemma demo_mbx_bytes: "mbx_bytes demo_mbx = [10, 20, 30]" "mbx_size demo_mbx = 4" "fbyte demo_mbx = 2" "avbs demo_mbx = 3"
  "frbs demo_mbx = 1"
  by (code_simp, simp_all add: demo_mbx_def)

text \<open>C18. The circular buffer is a byte queue: in any sequence of \<^verbatim>\<open>mbxput\<close> and \<^verbatim>\<open>mbxget\<close>
  calls all loops end, the bytes handed out followed by those still inside are the bytes there
  were followed by those accepted, in order and without loss, and used plus free bytes stay
  the size of the buffer.\<close>

theorem mbx_is_fifo:
  assumes "mbx_wf m"
  shows "\<exists>m' ins outs. bq_run mbxput (\<lambda>m n. mbxget m n []) ops m = Some (m', ins, outs) \<and> mbx_wf m' \<and>
    mbx_bytes m @ ins = outs @ mbx_bytes m' \<and> frbs m' + avbs m' = frbs m + avbs m"
  using mbxq.run_fifo [OF assms, of ops] by simp

theorem mbx_is_fifo_witness:
  "\<exists>m' ins outs. bq_run mbxput (\<lambda>m n. mbxget m n []) [Receive 2, Send [50, 60, 70], Receive 3] demo_mbx = Some (m', ins, outs) \<and>
     [10, 20, 30] @ ins = outs @ mbx_bytes m'"
  using mbx_is_fifo [OF demo_mbx_wf, of "[Receive 2, Send [50, 60, 70], Receive 3]"] by (auto simp: demo_mbx_bytes)

text \<open>\<^verbatim>\<open>mbxput\<close> ends and stores exactly the longest front of the message there is room for,
  behind the bytes already there; it returns the rest.\<close>

theorem mbxput_stores_front:
  assumes "mbx_wf m"
  shows "\<exists>m'. mbxput m data = Some (m', drop (frbs m) data) \<and> mbx_wf m' \<and>
    mbx_bytes m' = mbx_bytes m @ take (frbs m) data"
  using mbxput_total [OF assms, of data] by blast

theorem mbxput_stores_front_witness:
  "\<exists>m'. mbxput demo_mbx [50, 60] = Some (m', [60]) \<and> mbx_bytes m' = [10, 20, 30, 50]"
  using mbxput_stores_front [OF demo_mbx_wf, of "[50, 60]"] by (auto simp: demo_mbx_bytes)

text \<open>C19. \<^verbatim>\<open>mbxovrwrput\<close> ends and leaves in the mailbox the last bytes, as many as fit, of what
  was there followed by the message: the oldest bytes go first.\<close>

theorem mbxovrwrput_keeps_newest:
  assumes "mbx_wf m"
  shows "\<exists>m'. mbxovrwrput m data = Some m' \<and> mbx_wf m' \<and>
    mbx_bytes m' = drop (avbs m + length data - mbx_size m) (mbx_bytes m @ data)"
proof -
  let ?d = "drop (length data - mbx_size m) data"
  obtain m' where m': "ovrwr_loop m ?d = Some m'" "mbx_wf m'" "mbx_bytes m' = drop (length ?d - frbs m) (mbx_bytes m) @ ?d"
    using ovrwr_loop_total [OF assms, of ?d] by (metis diff_diff_cancel diff_is_0_eq' drop0 le_refl length_drop nat_le_linear)
  have sz: "avbs m + frbs m = mbx_size m" using assms by (simp add: mbx_wf_def)
  have "drop (length ?d - frbs m) (mbx_bytes m) @ ?d = drop (avbs m + length data - mbx_size m) (mbx_bytes m @ data)"
  proof (cases "length data \<le> mbx_size m")
    case True
    then have "avbs m + length data - mbx_size m = length data - frbs m" "length data - frbs m - avbs m = 0"
      "length data - mbx_size m = 0"
      using sz by linarith+
    then show ?thesis by simp
  next
    case False
    then show ?thesis using sz by simp
  qed
  then show ?thesis using m' by (auto simp: mbxovrwrput_def)
qed

theorem mbxovrwrput_keeps_newest_witness:
  "\<exists>m'. mbxovrwrput demo_mbx [50, 60, 70] = Some m' \<and> mbx_bytes m' = [30, 50, 60, 70]"
  using mbxovrwrput_keeps_newest [OF demo_mbx_wf, of "[50, 60, 70]"] by (auto simp: demo_mbx_bytes)


text \<open>A preview in kernel space shows the first bytes of the mailbox, as many as asked for and
  there are.\<close>

theorem evdrp_shows_front:
  assumes "mbx_wf m"
  shows "rt_mbx_evdrp m True n = Some (take n (mbx_bytes m))"
  using mbxevdrp_total [of m "fbyte m" "avbs m" n "[]"] assms
  by (simp add: rt_mbx_evdrp_def mbx_bytes_def mbx_wf_def)

theorem evdrp_shows_front_witness: "rt_mbx_evdrp demo_mbx True 3 = Some [10, 20, 30]"
  using evdrp_shows_front [OF demo_mbx_wf, of 3] by (simp add: demo_mbx_bytes)

text \<open>A preview in user space of bytes that lie across the end of the buffer is wrong: the
  part that should come from the start of the buffer is again the first bytes.\<close>

theorem evdrp_user_space_repeats:
  assumes wf: "mbx_wf m" and k: "k = mbx_size m - fbyte m" and n: "k < n" "n \<le> avbs m" "n - k \<le> k"
  shows "rt_mbx_evdrp m False n = Some (take k (mbx_bytes m) @ take (n - k) (mbx_bytes m))"
proof -
  have sz: "fbyte m < mbx_size m" "avbs m \<le> mbx_size m" using wf by (auto simp: mbx_wf_def)
  have c: "copy_out (fbyte m) j (bufadr m) = take j (mbx_bytes m)" if "j \<le> k" for j
    using drop_chunk_bytes(1) [OF wf, of j] that k n by simp
  have t1: "min (min k n) (avbs m) = k" using n by simp
  have m1: "MOD_SIZE m (fbyte m + k) = 0" using k sz by (simp add: MOD_SIZE_def)
  have t2: "min (min (mbx_size m) (n - k)) (avbs m - k) = n - k" using n sz by simp
  have kk: "mbx_size m - fbyte m = k" "0 < n" "avbs m \<noteq> 0" "0 < n - k" "avbs m - k \<noteq> 0" using k n by auto
  have "rt_mbx_evdrp m False n = mbxevdrp m False 0 (avbs m - k) (n - k) (take k (mbx_bytes m))"
    unfolding rt_mbx_evdrp_def
    by (subst mbxevdrp.simps) (simp only: kk t1 m1 c [OF order_refl] Let_def if_True if_False append_Nil simp_thms)
  also have "\<dots> = Some (take k (mbx_bytes m) @ take (n - k) (mbx_bytes m))"
    by (subst mbxevdrp.simps)
      (simp only: kk t2 c [OF n(3)] mbxevdrp_stop diff_zero diff_self_eq_0 Let_def if_True if_False simp_thms)
  finally show ?thesis .
qed

theorem evdrp_user_space_repeats_witness: "rt_mbx_evdrp demo_mbx False 3 = Some [10, 20, 10]"
  using evdrp_user_space_repeats [OF demo_mbx_wf, of 2 3] by (simp add: demo_mbx_bytes)

end
