(* ===== verification/Mbx.thy ===== *)
theory Mbx
  imports Sem_Spec Mbx_Buffer
begin

text \<open>
  The mailbox services of \<^verbatim>\<open>src/ipc/mbx/mbx.c\<close>. A sender holds \<open>sndsem\<close> for the whole of
  its message and a receiver \<open>rcvsem\<close>; both may stop inside, for room or for bytes, and be
  woken through \<open>waiting_task\<close>. Since a wake-up may switch to another task, a service is cut
  at these points: its entry, its turns, what it does when it is woken, and the release of the
  semaphore at its end. Between two pieces other tasks run. \<open>None\<close> is a copying loop that
  never ends or, in the release, an access through a null pointer.
\<close>

section \<open>Waiting and signalling\<close>

text \<open>What a service returns: a number, or \<^verbatim>\<open>blocked_on\<close> itself cast to an int.\<close>

datatype mret = RVal int | RPtr blk

text \<open>Where a service stands: it has returned, waits for the semaphore, waits inside the mailbox,
  is about to take a turn, or is about to release the semaphore and return.\<close>

datatype mstage = MRet mret | MSem | MWait | MLoop | MEnd mret

datatype mwait = Go | Blocked | Fail mret

definition mbx_ok :: "nat \<Rightarrow> kst \<Rightarrow> bool" where
  "mbx_ok m s \<longleftrightarrow> mbx_magic (mbxs s m) = RT_MBX_MAGIC"

definition mbx_signal_with :: "blk \<Rightarrow> nat \<Rightarrow> nat \<Rightarrow> kst \<Rightarrow> kst" where
  "mbx_signal_with blckdon cpuid m s =
     (case waiting_task (mbxs s m) of None \<Rightarrow> s
      | Some t \<Rightarrow>
          (let s1 = upd_mbx m (\<lambda>b. b\<lparr>waiting_task := None\<rparr>)
                      (upd_task t (\<lambda>k. k\<lparr>blocked_on := blckdon\<rparr>) (rem_timed_task t s)) in
           case release (RT_SCHED_MBXSUSP OR RT_SCHED_DELAYED) cpuid t s1 of
             (s2, w) \<Rightarrow> if w then RT_SCHEDULE t cpuid s2 else s2))"

definition mbx_delete_signal :: "nat \<Rightarrow> nat \<Rightarrow> kst \<Rightarrow> kst" where
  "mbx_delete_signal cpuid m s = mbx_signal_with (BErr RT_OBJREM) cpuid m s"

definition mbx_signal :: "nat \<Rightarrow> nat \<Rightarrow> kst \<Rightarrow> kst" where
  "mbx_signal cpuid m s = mbx_signal_with BNull cpuid m s"

text \<open>\<^verbatim>\<open>mbx_wait\<close>, up to the switch and after it; \<open>fravbs\<close> is the counter it waits for, \<open>t\<close>
  the caller.\<close>

definition mbx_wait :: "(mbx \<Rightarrow> nat) \<Rightarrow> nat \<Rightarrow> nat \<Rightarrow> tid \<Rightarrow> kst \<Rightarrow> kst \<times> mwait" where
  "mbx_wait fravbs cpuid m t s =
     (if fravbs (mbxs s m) = 0 then
        (rt_schedule cpuid (upd_mbx m (\<lambda>b. b\<lparr>waiting_task := Some t\<rparr>)
           (upd_task t (\<lambda>k. k\<lparr>blocked_on := BMbx m\<rparr>)
              (rem_ready_current t (upd_task t (\<lambda>k. k\<lparr>state := state k OR RT_SCHED_MBXSUSP\<rparr>) s)))), Blocked)
      else (s, Go))"

definition mbx_wait_resume :: "nat \<Rightarrow> tid \<Rightarrow> kst \<Rightarrow> kst \<times> mwait" where
  "mbx_wait_resume m t s =
     (case blocked_on (tasks s t) of BNull \<Rightarrow> (s, Go)
      | r \<Rightarrow> (upd_mbx m (\<lambda>b. b\<lparr>waiting_task := None\<rparr>) s, Fail (RPtr r)))"

definition mbx_wait_until_resume :: "nat \<Rightarrow> tid \<Rightarrow> kst \<Rightarrow> kst \<times> mwait" where
  "mbx_wait_until_resume m t s =
     (case blocked_on (tasks s t) of BNull \<Rightarrow> (s, Go)
      | r \<Rightarrow> (upd_mbx m (\<lambda>b. b\<lparr>waiting_task := None\<rparr>) s,
              Fail (RVal (if blk_is_adr r then RTE_TIMOUT
                          else if r = BErr RT_UNBLKD then RTE_UNBLKD else RTE_OBJREM))))"

definition mbx_wait_until :: "(mbx \<Rightarrow> nat) \<Rightarrow> int \<Rightarrow> nat \<Rightarrow> nat \<Rightarrow> tid \<Rightarrow> kst \<Rightarrow> kst \<times> mwait" where
  "mbx_wait_until fravbs time cpuid m t s =
     (if fravbs (mbxs s m) = 0 then
        (let s1 = upd_mbx m (\<lambda>b. b\<lparr>waiting_task := Some t\<rparr>)
                    (upd_task t (\<lambda>k. k\<lparr>blocked_on := BMbx m, resume_time := time\<rparr>) s) in
         if time > rt_smp_time_h s1 cpuid then
           (rt_schedule cpuid (enq_timed_task t (rem_ready_current t
              (upd_task t (\<lambda>k. k\<lparr>state := state k OR (RT_SCHED_MBXSUSP OR RT_SCHED_DELAYED)\<rparr>) s1))), Blocked)
         else mbx_wait_until_resume m t s1)
      else (s, Go))"

section \<open>Creation and deletion\<close>

text \<open>\<^verbatim>\<open>rt_typed_mbx_init\<close>: \<open>buf\<close> is what \<^verbatim>\<open>rt_malloc\<close> gave, \<open>x\<close> and \<open>y\<close> name the
  two semaphores inside the mailbox.\<close>

definition mbx_sem_type :: "int \<Rightarrow> int" where
  "mbx_sem_type type = (if type mod 4 \<noteq> 0 then type else type + BIN_SEM)"

definition rt_typed_mbx_init :: "nat \<Rightarrow> nat \<Rightarrow> nat \<Rightarrow> nat \<Rightarrow> int \<Rightarrow> byte list option \<Rightarrow> kst \<Rightarrow> kst \<times> int" where
  "rt_typed_mbx_init m x y sz type buf s =
     (case buf of None \<Rightarrow> (s, - ENOMEM)
      | Some adr \<Rightarrow>
          (upd_mbx m (\<lambda>_. \<lparr>mbx_magic = RT_MBX_MAGIC, sndsem = x, rcvsem = y, waiting_task = None, bufadr = adr,
             mbx_size = sz, fbyte = 0, lbyte = 0, avbs = 0, frbs = sz\<rparr>)
             (rt_typed_sem_init y 1 (mbx_sem_type type) (rt_typed_sem_init x 1 (mbx_sem_type type) s)), 0))"

definition rt_mbx_init :: "nat \<Rightarrow> nat \<Rightarrow> nat \<Rightarrow> nat \<Rightarrow> byte list option \<Rightarrow> kst \<Rightarrow> kst \<times> int" where
  "rt_mbx_init m x y sz buf s = rt_typed_mbx_init m x y sz PRIO_Q buf s"

text \<open>The loop at the end of \<^verbatim>\<open>rt_mbx_delete\<close> runs at most once, for its body clears
  \<open>waiting_task\<close>.\<close>

definition rt_mbx_delete :: "nat \<Rightarrow> nat \<Rightarrow> kst \<Rightarrow> (kst \<times> int) option" where
  "rt_mbx_delete cpuid m s =
     (if \<not> mbx_ok m s then Some (s, RTE_OBJINV)
      else
        (case rt_sem_delete cpuid (sndsem (mbxs s m)) (upd_mbx m (\<lambda>b. b\<lparr>mbx_magic := 0\<rparr>) s) of
           None \<Rightarrow> None
         | Some (s1, r1) \<Rightarrow>
             if r1 \<noteq> 0 then Some (s1, - EFAULT)
             else (case rt_sem_delete cpuid (rcvsem (mbxs s m)) s1 of
                     None \<Rightarrow> None
                   | Some (s2, r2) \<Rightarrow>
                       if r2 \<noteq> 0 then Some (s2, - EFAULT)
                       else Some (mbx_delete_signal cpuid m s2, 0))))"

section \<open>Sending\<close>

text \<open>Copying into the mailbox and waking whoever waits inside. The code copies with interrupts enabled and without the
  global lock; here a copy is one step. Theory \<open>Mbx_Conc\<close> has the copies byte by byte, interleaved with those of the
  other tasks, and shows that the loops run alone compute what they compute here.\<close>

definition mbx_put :: "nat \<Rightarrow> nat \<Rightarrow> byte list \<Rightarrow> kst \<Rightarrow> (kst \<times> byte list) option" where
  "mbx_put cpuid m data s =
     (case mbxput (mbxs s m) data of None \<Rightarrow> None
      | Some (b, rest) \<Rightarrow> Some (mbx_signal cpuid m (upd_mbx m (\<lambda>_. b) s), rest))"

definition mbx_get :: "nat \<Rightarrow> nat \<Rightarrow> nat \<Rightarrow> kst \<Rightarrow> (kst \<times> byte list) option" where
  "mbx_get cpuid m n s =
     (case mbxget (mbxs s m) n [] of None \<Rightarrow> None
      | Some (b, got) \<Rightarrow> Some (mbx_signal cpuid m (upd_mbx m (\<lambda>_. b) s), got))"

text \<open>How the call of the semaphore's wait goes on.\<close>

definition mbx_entered :: "int option \<Rightarrow> mstage" where
  "mbx_entered r = (case r of None \<Rightarrow> MSem | Some n \<Rightarrow> if n > 1 then MRet (RVal n) else MLoop)"

definition rt_mbx_send :: "nat \<Rightarrow> nat \<Rightarrow> kst \<Rightarrow> kst \<times> mstage" where
  "rt_mbx_send cpuid m s =
     (if \<not> mbx_ok m s then (s, MRet (RVal RTE_OBJINV))
      else (case rt_sem_wait cpuid (sndsem (mbxs s m)) s of (s1, r) \<Rightarrow> (s1, mbx_entered r)))"

definition mbx_send_after :: "mwait \<Rightarrow> nat \<Rightarrow> nat \<Rightarrow> byte list \<Rightarrow> kst \<Rightarrow> (kst \<times> mstage \<times> byte list) option" where
  "mbx_send_after w cpuid m data s =
     (case w of
        Blocked \<Rightarrow> Some (s, MWait, data)
      | Fail r \<Rightarrow> Some (s, MEnd r, data)
      | Go \<Rightarrow> map_option (\<lambda>(s1, rest). (s1, MLoop, rest)) (mbx_put cpuid m data s))"

text \<open>A turn of the loop of \<^verbatim>\<open>_rt_mbx_send\<close> by its task \<open>t\<close> with the rest of the message, and
  the same turn resumed after a wait.\<close>

definition rt_mbx_send_turn :: "nat \<Rightarrow> nat \<Rightarrow> tid \<Rightarrow> byte list \<Rightarrow> kst \<Rightarrow> (kst \<times> mstage \<times> byte list) option" where
  "rt_mbx_send_turn cpuid m t data s =
     (if data = [] then Some (s, MEnd (RVal 0), [])
      else (case mbx_wait frbs cpuid m t s of (s1, w) \<Rightarrow> mbx_send_after w cpuid m data s1))"

definition rt_mbx_send_resume :: "nat \<Rightarrow> nat \<Rightarrow> tid \<Rightarrow> byte list \<Rightarrow> kst \<Rightarrow> (kst \<times> mstage \<times> byte list) option" where
  "rt_mbx_send_resume cpuid m t data s =
     (case mbx_wait_resume m t s of (s1, w) \<Rightarrow> mbx_send_after w cpuid m data s1)"

text \<open>The end of a service: release its semaphore \<open>x\<close>, return.\<close>

definition mbx_end :: "nat \<Rightarrow> nat \<Rightarrow> mret \<Rightarrow> kst \<Rightarrow> (kst \<times> mstage) option" where
  "mbx_end cpuid x r s = map_option (\<lambda>(s1, _). (s1, MRet r)) (rt_sem_signal cpuid x s)"

text \<open>The services that do not wait take the semaphore by hand.\<close>

definition mbx_grab :: "nat \<Rightarrow> nat \<Rightarrow> kst \<Rightarrow> kst" where
  "mbx_grab cpuid x s =
     (let cur = RT_CURRENT cpuid s; s1 = upd_sem x (\<lambda>k. k\<lparr>sem_count := 0\<rparr>) s in
      if sem_type (sems s x) > 0 then enqueue_resqel cur (upd_sem x (\<lambda>k. k\<lparr>owndby := OTask cur\<rparr>) s1) else s1)"

definition rt_mbx_send_wp :: "nat \<Rightarrow> nat \<Rightarrow> byte list \<Rightarrow> kst \<Rightarrow> (kst \<times> mstage \<times> byte list) option" where
  "rt_mbx_send_wp cpuid m data s =
     (let x = sndsem (mbxs s m) in
      if \<not> mbx_ok m s then Some (s, MRet (RVal RTE_OBJINV), data)
      else if sem_count (sems s x) > 0 \<and> frbs (mbxs s m) \<noteq> 0 then
        map_option (\<lambda>(s1, rest). (s1, MEnd (RVal (int (length rest))), rest)) (mbx_put cpuid m data (mbx_grab cpuid x s))
      else Some (s, MRet (RVal (int (length data))), data))"

definition rt_mbx_send_if :: "nat \<Rightarrow> nat \<Rightarrow> byte list \<Rightarrow> kst \<Rightarrow> (kst \<times> mstage \<times> byte list) option" where
  "rt_mbx_send_if cpuid m data s =
     (let x = sndsem (mbxs s m) in
      if \<not> mbx_ok m s then Some (s, MRet (RVal RTE_OBJINV), data)
      else if sem_count (sems s x) > 0 \<and> length data \<le> frbs (mbxs s m) then
        map_option (\<lambda>(s1, rest). (s1, MEnd (RVal 0), rest)) (mbx_put cpuid m data (mbx_grab cpuid x s))
      else Some (s, MRet (RVal (int (length data))), data))"

definition rt_mbx_send_until :: "nat \<Rightarrow> nat \<Rightarrow> int \<Rightarrow> kst \<Rightarrow> kst \<times> mstage" where
  "rt_mbx_send_until cpuid m time s =
     (if \<not> mbx_ok m s then (s, MRet (RVal RTE_OBJINV))
      else (case rt_sem_wait_until cpuid (sndsem (mbxs s m)) time s of (s1, r) \<Rightarrow> (s1, mbx_entered r)))"

definition rt_mbx_send_until_turn :: "nat \<Rightarrow> nat \<Rightarrow> tid \<Rightarrow> int \<Rightarrow> byte list \<Rightarrow> kst \<Rightarrow> (kst \<times> mstage \<times> byte list) option" where
  "rt_mbx_send_until_turn cpuid m t time data s =
     (if data = [] then Some (s, MEnd (RVal 0), [])
      else (case mbx_wait_until frbs time cpuid m t s of (s1, w) \<Rightarrow> mbx_send_after w cpuid m data s1))"

definition rt_mbx_send_until_resume :: "nat \<Rightarrow> nat \<Rightarrow> tid \<Rightarrow> byte list \<Rightarrow> kst \<Rightarrow> (kst \<times> mstage \<times> byte list) option" where
  "rt_mbx_send_until_resume cpuid m t data s =
     (case mbx_wait_until_resume m t s of (s1, w) \<Rightarrow> mbx_send_after w cpuid m data s1)"

definition rt_mbx_send_timed :: "nat \<Rightarrow> nat \<Rightarrow> int \<Rightarrow> kst \<Rightarrow> kst \<times> mstage" where
  "rt_mbx_send_timed cpuid m delay s = rt_mbx_send_until cpuid m (rt_get_time s + delay) s"

definition rt_mbx_ovrwr_send :: "nat \<Rightarrow> nat \<Rightarrow> byte list \<Rightarrow> kst \<Rightarrow> (kst \<times> mstage) option" where
  "rt_mbx_ovrwr_send cpuid m data s =
     (let x = sndsem (mbxs s m) in
      if \<not> mbx_ok m s then Some (s, MRet (RVal RTE_OBJINV))
      else if sem_count (sems s x) > 0 then
        map_option (\<lambda>b. (mbx_signal cpuid m (upd_mbx m (\<lambda>_. b) (mbx_grab cpuid x s)), MEnd (RVal 0)))
          (mbxovrwrput (mbxs s m) data)
      else Some (s, MRet (RVal (int (length data)))))"

section \<open>Receiving\<close>

text \<open>The state of a receiver is the number of bytes still to come; a turn also gives the bytes it
  received. Unlike the sender, a receiver that fails to get the semaphore returns the size.\<close>

definition mbx_entered_receive :: "nat \<Rightarrow> int option \<Rightarrow> mstage" where
  "mbx_entered_receive n r =
     (case r of None \<Rightarrow> MSem | Some k \<Rightarrow> if k > 1 then MRet (RVal (int n)) else MLoop)"

definition rt_mbx_receive :: "nat \<Rightarrow> nat \<Rightarrow> nat \<Rightarrow> kst \<Rightarrow> kst \<times> mstage" where
  "rt_mbx_receive cpuid m n s =
     (if \<not> mbx_ok m s then (s, MRet (RVal RTE_OBJINV))
      else (case rt_sem_wait cpuid (rcvsem (mbxs s m)) s of (s1, r) \<Rightarrow> (s1, mbx_entered_receive n r)))"

definition mbx_receive_after :: "mwait \<Rightarrow> nat \<Rightarrow> nat \<Rightarrow> nat \<Rightarrow> kst \<Rightarrow> (kst \<times> mstage \<times> nat \<times> byte list) option" where
  "mbx_receive_after w cpuid m n s =
     (case w of
        Blocked \<Rightarrow> Some (s, MWait, n, [])
      | Fail r \<Rightarrow> Some (s, MEnd r, n, [])
      | Go \<Rightarrow> map_option (\<lambda>(s1, got). (s1, MLoop, n - length got, got)) (mbx_get cpuid m n s))"

definition rt_mbx_receive_turn :: "nat \<Rightarrow> nat \<Rightarrow> tid \<Rightarrow> nat \<Rightarrow> kst \<Rightarrow> (kst \<times> mstage \<times> nat \<times> byte list) option" where
  "rt_mbx_receive_turn cpuid m t n s =
     (if n = 0 then Some (s, MEnd (RVal 0), 0, [])
      else (case mbx_wait avbs cpuid m t s of (s1, w) \<Rightarrow> mbx_receive_after w cpuid m n s1))"

definition rt_mbx_receive_resume :: "nat \<Rightarrow> nat \<Rightarrow> tid \<Rightarrow> nat \<Rightarrow> kst \<Rightarrow> (kst \<times> mstage \<times> nat \<times> byte list) option" where
  "rt_mbx_receive_resume cpuid m t n s =
     (case mbx_wait_resume m t s of (s1, w) \<Rightarrow> mbx_receive_after w cpuid m n s1)"

definition rt_mbx_receive_wp :: "nat \<Rightarrow> nat \<Rightarrow> nat \<Rightarrow> kst \<Rightarrow> (kst \<times> mstage \<times> byte list) option" where
  "rt_mbx_receive_wp cpuid m n s =
     (let x = rcvsem (mbxs s m) in
      if \<not> mbx_ok m s then Some (s, MRet (RVal RTE_OBJINV), [])
      else if sem_count (sems s x) > 0 \<and> avbs (mbxs s m) \<noteq> 0 then
        map_option (\<lambda>(s1, got). (s1, MEnd (RVal (int (n - length got))), got)) (mbx_get cpuid m n (mbx_grab cpuid x s))
      else Some (s, MRet (RVal (int n)), []))"

definition rt_mbx_receive_if :: "nat \<Rightarrow> nat \<Rightarrow> nat \<Rightarrow> kst \<Rightarrow> (kst \<times> mstage \<times> byte list) option" where
  "rt_mbx_receive_if cpuid m n s =
     (let x = rcvsem (mbxs s m) in
      if \<not> mbx_ok m s then Some (s, MRet (RVal RTE_OBJINV), [])
      else if sem_count (sems s x) > 0 \<and> n \<le> avbs (mbxs s m) then
        map_option (\<lambda>(s1, got). (s1, MEnd (RVal 0), got)) (mbx_get cpuid m n (mbx_grab cpuid x s))
      else Some (s, MRet (RVal (int n)), []))"

definition rt_mbx_receive_until :: "nat \<Rightarrow> nat \<Rightarrow> int \<Rightarrow> kst \<Rightarrow> kst \<times> mstage" where
  "rt_mbx_receive_until cpuid m time s =
     (if \<not> mbx_ok m s then (s, MRet (RVal RTE_OBJINV))
      else (case rt_sem_wait_until cpuid (rcvsem (mbxs s m)) time s of (s1, r) \<Rightarrow> (s1, mbx_entered r)))"

definition rt_mbx_receive_until_turn :: "nat \<Rightarrow> nat \<Rightarrow> tid \<Rightarrow> int \<Rightarrow> nat \<Rightarrow> kst \<Rightarrow> (kst \<times> mstage \<times> nat \<times> byte list) option" where
  "rt_mbx_receive_until_turn cpuid m t time n s =
     (if n = 0 then Some (s, MEnd (RVal 0), 0, [])
      else (case mbx_wait_until avbs time cpuid m t s of (s1, w) \<Rightarrow> mbx_receive_after w cpuid m n s1))"

definition rt_mbx_receive_until_resume :: "nat \<Rightarrow> nat \<Rightarrow> tid \<Rightarrow> nat \<Rightarrow> kst \<Rightarrow> (kst \<times> mstage \<times> nat \<times> byte list) option" where
  "rt_mbx_receive_until_resume cpuid m t n s =
     (case mbx_wait_until_resume m t s of (s1, w) \<Rightarrow> mbx_receive_after w cpuid m n s1)"

definition rt_mbx_receive_timed :: "nat \<Rightarrow> nat \<Rightarrow> int \<Rightarrow> kst \<Rightarrow> kst \<times> mstage" where
  "rt_mbx_receive_timed cpuid m delay s = rt_mbx_receive_until cpuid m (rt_get_time s + delay) s"

end
