(* ===== verification/Mbx_Thms.thy ===== *)
theory Mbx_Thms
  imports Mbx Sched_Run
begin

text \<open>
  What the mailbox services guarantee: however the pieces of the services interleave, bytes come out in the order in
  which they went in (the pieces are atomic here; theory \<open>Mbx_Conc\<close> takes the copying loops apart); the conditional
  services are all or nothing; a waiting receiver is made ready and handed what a sender puts in.
\<close>

section \<open>Frames\<close>

lemma mbx_waiting_sel [simp]:
  "mbx_bytes (b\<lparr>waiting_task := w\<rparr>) = mbx_bytes b" "mbx_wf (b\<lparr>waiting_task := w\<rparr>) = mbx_wf b"
  by (simp_all add: mbx_bytes_def mbx_wf_def)

lemma mbx_waiting_None: "waiting_task b = None \<Longrightarrow> b\<lparr>waiting_task := None\<rparr> = b"
  by (cases b) simp

lemma mbx_signal_with_mbxs [simp]:
  "mbxs (mbx_signal_with r c m s) = (mbxs s)(m := (mbxs s m)\<lparr>waiting_task := None\<rparr>)"
  by (auto simp: mbx_signal_with_def split_beta Let_def mbx_waiting_None split: option.split)

lemma mbx_signal_mbxs [simp]: "mbxs (mbx_signal c m s) = (mbxs s)(m := (mbxs s m)\<lparr>waiting_task := None\<rparr>)"
  by (simp add: mbx_signal_def)

lemma mbx_grab_mbxs [simp]: "mbxs (mbx_grab c x s) = mbxs s"
  by (simp add: mbx_grab_def enqueue_resqel_def Let_def)

text \<open>Same bytes, whoever waits.\<close>

definition same_bytes :: "nat \<Rightarrow> kst \<Rightarrow> kst \<Rightarrow> bool" where
  "same_bytes m s s' \<longleftrightarrow> mbx_bytes (mbxs s' m) = mbx_bytes (mbxs s m) \<and> mbx_wf (mbxs s' m) = mbx_wf (mbxs s m)"

lemma same_bytes_refl [simp]: "same_bytes m s s"
  by (simp add: same_bytes_def)

lemma mbx_wait_bytes:
  "same_bytes m s (fst (mbx_wait f c m t s))" "same_bytes m s (fst (mbx_wait_until f time c m t s))"
  "same_bytes m s (fst (mbx_wait_resume m t s))" "same_bytes m s (fst (mbx_wait_until_resume m t s))"
  by (simp_all add: mbx_wait_def mbx_wait_until_def mbx_wait_resume_def mbx_wait_until_resume_def same_bytes_def Let_def
      split: blk.split)

lemma mbx_put_bytes:
  assumes "mbx_put c m data s = Some (s', rest)" "mbx_wf (mbxs s m)"
  shows "mbx_bytes (mbxs s' m) = mbx_bytes (mbxs s m) @ take (length data - length rest) data" "mbx_wf (mbxs s' m)"
    "rest = drop (frbs (mbxs s m)) data"
proof -
  obtain b where b: "mbxput (mbxs s m) data = Some (b, drop (frbs (mbxs s m)) data)" "mbx_wf b"
      "mbx_bytes b = mbx_bytes (mbxs s m) @ take (frbs (mbxs s m)) data"
    using mbxput_total [OF assms(2), of data] by blast
  then have r: "rest = drop (frbs (mbxs s m)) data" "s' = mbx_signal c m (upd_mbx m (\<lambda>_. b) s)"
    using assms(1) by (auto simp: mbx_put_def)
  have "take (length data - length rest) data = take (frbs (mbxs s m)) data"
    by (cases "frbs (mbxs s m) \<le> length data") (simp_all add: r(1))
  then show "mbx_bytes (mbxs s' m) = mbx_bytes (mbxs s m) @ take (length data - length rest) data" "mbx_wf (mbxs s' m)"
    "rest = drop (frbs (mbxs s m)) data"
    using b r by simp_all
qed

lemma mbx_get_bytes:
  assumes "mbx_get c m n s = Some (s', got)" "mbx_wf (mbxs s m)"
  shows "mbx_bytes (mbxs s m) = got @ mbx_bytes (mbxs s' m)" "mbx_wf (mbxs s' m)" "got = take n (mbx_bytes (mbxs s m))"
proof -
  obtain b where "mbxget (mbxs s m) n [] = Some (b, take n (mbx_bytes (mbxs s m)))" "mbx_wf b"
      "mbx_bytes b = drop n (mbx_bytes (mbxs s m))"
    using mbxget_total [OF assms(2), of n "[]"] by auto
  then show "mbx_bytes (mbxs s m) = got @ mbx_bytes (mbxs s' m)" "mbx_wf (mbxs s' m)" "got = take n (mbx_bytes (mbxs s m))"
    using assms(1) by (auto simp: mbx_get_def)
qed

lemma mbx_put_works: "mbx_wf (mbxs s m) \<Longrightarrow> \<exists>s'. mbx_put c m data s = Some (s', drop (frbs (mbxs s m)) data)"
  using mbxput_total [of "mbxs s m" data] by (auto simp: mbx_put_def)

lemma mbx_get_works: "mbx_wf (mbxs s m) \<Longrightarrow> \<exists>s'. mbx_get c m n s = Some (s', take n (mbx_bytes (mbxs s m)))"
  using mbxget_total [of "mbxs s m" n "[]"] by (auto simp: mbx_get_def)

section \<open>The flow of bytes\<close>

definition accepted :: "byte list \<Rightarrow> byte list \<Rightarrow> byte list" where
  "accepted data rest = take (length data - length rest) data"

lemma accepted_none [simp]: "accepted data data = []"
  by (simp add: accepted_def)

text \<open>What one piece of a service, by any task, moves into and out of mailbox \<open>m\<close>. Nothing else
  touches the buffer.\<close>

inductive mbx_flow :: "nat \<Rightarrow> kst \<Rightarrow> byte list \<Rightarrow> byte list \<Rightarrow> kst \<Rightarrow> bool" for m where
  send_turn: "rt_mbx_send_turn c m t data s = Some (s', st, rest) \<Longrightarrow> mbx_flow m s (accepted data rest) [] s'"
| send_resume: "rt_mbx_send_resume c m t data s = Some (s', st, rest) \<Longrightarrow> mbx_flow m s (accepted data rest) [] s'"
| send_until_turn: "rt_mbx_send_until_turn c m t time data s = Some (s', st, rest) \<Longrightarrow> mbx_flow m s (accepted data rest) [] s'"
| send_until_resume: "rt_mbx_send_until_resume c m t data s = Some (s', st, rest) \<Longrightarrow> mbx_flow m s (accepted data rest) [] s'"
| send_wp: "rt_mbx_send_wp c m data s = Some (s', st, rest) \<Longrightarrow> mbx_flow m s (accepted data rest) [] s'"
| send_if: "rt_mbx_send_if c m data s = Some (s', st, rest) \<Longrightarrow> mbx_flow m s (accepted data rest) [] s'"
| receive_turn: "rt_mbx_receive_turn c m t n s = Some (s', st, k, got) \<Longrightarrow> mbx_flow m s [] got s'"
| receive_resume: "rt_mbx_receive_resume c m t n s = Some (s', st, k, got) \<Longrightarrow> mbx_flow m s [] got s'"
| receive_until_turn: "rt_mbx_receive_until_turn c m t time n s = Some (s', st, k, got) \<Longrightarrow> mbx_flow m s [] got s'"
| receive_until_resume: "rt_mbx_receive_until_resume c m t n s = Some (s', st, k, got) \<Longrightarrow> mbx_flow m s [] got s'"
| receive_wp: "rt_mbx_receive_wp c m n s = Some (s', st, got) \<Longrightarrow> mbx_flow m s [] got s'"
| receive_if: "rt_mbx_receive_if c m n s = Some (s', st, got) \<Longrightarrow> mbx_flow m s [] got s'"
| other: "mbxs s' m = mbxs s m \<Longrightarrow> mbx_flow m s [] [] s'"

inductive mbx_flows :: "nat \<Rightarrow> kst \<Rightarrow> byte list \<Rightarrow> byte list \<Rightarrow> kst \<Rightarrow> bool" for m where
  none: "mbx_flows m s [] [] s"
| more: "mbx_flows m s ins outs s1 \<Longrightarrow> mbx_flow m s1 i u s2 \<Longrightarrow> mbx_flows m s (ins @ i) (outs @ u) s2"

definition moved :: "nat \<Rightarrow> kst \<Rightarrow> byte list \<Rightarrow> byte list \<Rightarrow> kst \<Rightarrow> bool" where
  "moved m s i u s' \<longleftrightarrow> mbx_wf (mbxs s' m) \<and> mbx_bytes (mbxs s m) @ i = u @ mbx_bytes (mbxs s' m)"

lemma send_after_moved:
  assumes "mbx_send_after w c m data s1 = Some (s', st, rest)" "same_bytes m s s1" "mbx_wf (mbxs s m)"
  shows "moved m s (accepted data rest) [] s'"
  using assms mbx_put_bytes [of c m data s1]
  by (auto simp: mbx_send_after_def same_bytes_def moved_def accepted_def split: mwait.splits)

lemma receive_after_moved:
  assumes "mbx_receive_after w c m n s1 = Some (s', st, k, got)" "same_bytes m s s1" "mbx_wf (mbxs s m)"
  shows "moved m s [] got s'"
  using assms mbx_get_bytes [of c m n s1]
  by (auto simp: mbx_receive_after_def same_bytes_def moved_def split: mwait.splits)

lemma grab_moved:
  assumes "mbx_wf (mbxs s m)"
  shows "mbx_put c m data (mbx_grab c x s) = Some (s', rest) \<Longrightarrow> moved m s (accepted data rest) [] s'"
    "mbx_get c m n (mbx_grab c x s) = Some (s', got) \<Longrightarrow> moved m s [] got s'"
  using mbx_put_bytes [of c m data "mbx_grab c x s"] mbx_get_bytes [of c m n "mbx_grab c x s"] assms
  by (auto simp: moved_def accepted_def)

lemma moved_none [simp]: "mbx_wf (mbxs s m) \<Longrightarrow> moved m s [] [] s"
  by (simp add: moved_def)

lemma mbx_flow_moved: "mbx_flow m s i u s' \<Longrightarrow> mbx_wf (mbxs s m) \<Longrightarrow> moved m s i u s'"
proof (induction rule: mbx_flow.induct)
  case (send_turn c t data s s' st rest)
  then show ?case using send_after_moved mbx_wait_bytes(1)
    by (auto simp: rt_mbx_send_turn_def split_beta split: if_splits)
next
  case (send_resume c t data s s' st rest)
  then show ?case using send_after_moved mbx_wait_bytes(3)
    by (auto simp: rt_mbx_send_resume_def split_beta)
next
  case (send_until_turn c t time data s s' st rest)
  then show ?case using send_after_moved mbx_wait_bytes(2)
    by (auto simp: rt_mbx_send_until_turn_def split_beta split: if_splits)
next
  case (send_until_resume c t data s s' st rest)
  then show ?case using send_after_moved mbx_wait_bytes(4)
    by (auto simp: rt_mbx_send_until_resume_def split_beta)
next
  case (send_wp c data s s' st rest)
  then show ?case using grab_moved(1) by (auto simp: rt_mbx_send_wp_def Let_def split: if_splits)
next
  case (send_if c data s s' st rest)
  then show ?case using grab_moved(1) by (auto simp: rt_mbx_send_if_def Let_def split: if_splits)
next
  case (receive_turn c t n s s' st k got)
  then show ?case using receive_after_moved mbx_wait_bytes(1)
    by (auto simp: rt_mbx_receive_turn_def split_beta split: if_splits)
next
  case (receive_resume c t n s s' st k got)
  then show ?case using receive_after_moved mbx_wait_bytes(3)
    by (auto simp: rt_mbx_receive_resume_def split_beta)
next
  case (receive_until_turn c t time n s s' st k got)
  then show ?case using receive_after_moved mbx_wait_bytes(2)
    by (auto simp: rt_mbx_receive_until_turn_def split_beta split: if_splits)
next
  case (receive_until_resume c t n s s' st k got)
  then show ?case using receive_after_moved mbx_wait_bytes(4)
    by (auto simp: rt_mbx_receive_until_resume_def split_beta)
next
  case (receive_wp c n s s' st got)
  then show ?case using grab_moved(2) by (auto simp: rt_mbx_receive_wp_def Let_def split: if_splits)
next
  case (receive_if c n s s' st got)
  then show ?case using grab_moved(2) by (auto simp: rt_mbx_receive_if_def Let_def split: if_splits)
next
  case (other s' s)
  then show ?case by (simp add: moved_def)
qed

text \<open>Over any interleaving of the pieces of senders' and receivers' services, what the mailbox held before followed by all it
  accepted is all it handed out followed by what it holds now, and its buffer stays consistent.\<close>

lemma mbx_flows_in_order:
  assumes "mbx_flows m s ins outs s'" "mbx_wf (mbxs s m)"
  shows "mbx_bytes (mbxs s m) @ ins = outs @ mbx_bytes (mbxs s' m) \<and> mbx_wf (mbxs s' m)"
  using assms
proof (induction rule: mbx_flows.induct)
  case (more s ins outs s1 i u s2)
  then have "moved m s1 i u s2" using mbx_flow_moved by blast
  then show ?case using more by (auto simp: moved_def) (metis append_assoc)
qed simp

section \<open>Properties\<close>

text \<open>The small system with an empty mailbox of four bytes.\<close>

definition demo_post :: kst where
  "demo_post = fst (rt_typed_mbx_init 3 8 9 4 FIFO_Q (Some [0, 0, 0, 0]) demo_run)"

lemma demo_post_mbx:
  "mbxs demo_post 3 = \<lparr>mbx_magic = RT_MBX_MAGIC, sndsem = 8, rcvsem = 9, waiting_task = None, bufadr = [0, 0, 0, 0],
     mbx_size = 4, fbyte = 0, lbyte = 0, avbs = 0, frbs = 4\<rparr>"
  by (simp add: demo_post_def rt_typed_mbx_init_def)

lemma demo_post_eq:
  "sndsem (mbxs demo_post 3) = 8" "rcvsem (mbxs demo_post 3) = 9" "mbx_size (mbxs demo_post 3) = 4"
  "avbs (mbxs demo_post 3) = 0" "frbs (mbxs demo_post 3) = 4"
  "sem_count (sems demo_post 8) = 1" "sem_count (sems demo_post 9) = 1" "mbx_ok 3 demo_post" "mbx_wf (mbxs demo_post 3)"
  by (simp_all add: demo_post_mbx mbx_ok_def mbx_wf_def)
    (simp_all add: demo_post_def rt_typed_mbx_init_def rt_typed_sem_init_def mbx_sem_type_def Let_def)

lemma demo_post_bytes: "mbx_bytes (mbxs demo_post 3) = []"
  by (simp add: demo_post_eq)

lemma mbx_signal_sems [simp]: "sems (mbx_signal c m s) = sems s"
  by (simp add: mbx_signal_def mbx_signal_with_def split_beta Let_def split: option.split)

lemma mbx_signal_wakes: "waiting_task (mbxs s m) = Some t \<Longrightarrow> blocked_on (tasks (mbx_signal c m s) t) = BNull"
  by (simp add: mbx_signal_def mbx_signal_with_def release_def split_beta Let_def)

lemma mbx_put_sel:
  assumes "mbx_put c m data s = Some (s', rest)" "mbx_wf (mbxs s m)"
  shows "sems s' = sems s" "sndsem (mbxs s' m) = sndsem (mbxs s m)" "rcvsem (mbxs s' m) = rcvsem (mbxs s m)"
    "mbx_magic (mbxs s' m) = mbx_magic (mbxs s m)" "waiting_task (mbxs s' m) = None"
    "waiting_task (mbxs s m) = Some t \<Longrightarrow> blocked_on (tasks s' t) = BNull"
proof -
  obtain b where b: "mbxput (mbxs s m) data = Some (b, rest)" "same_mbx (mbxs s m) b" "s' = mbx_signal c m (upd_mbx m (\<lambda>_. b) s)"
    using mbxput_total [OF assms(2), of data] assms(1) by (auto simp: mbx_put_def)
  then show "sems s' = sems s" "sndsem (mbxs s' m) = sndsem (mbxs s m)" "rcvsem (mbxs s' m) = rcvsem (mbxs s m)"
    "mbx_magic (mbxs s' m) = mbx_magic (mbxs s m)" "waiting_task (mbxs s' m) = None"
    by (simp_all add: same_mbx_def)
  show "blocked_on (tasks s' t) = BNull" if "waiting_task (mbxs s m) = Some t"
    using mbx_signal_wakes [of "upd_mbx m (\<lambda>_. b) s" m t c] b that by (simp add: same_mbx_def)
qed

text \<open>C17. \<^verbatim>\<open>rt_mbx_send_if\<close> on a mailbox no one is sending to is all or nothing: it stores the
  whole message and returns 0, or, when there is not room for all of it, it changes nothing
  and returns the size of the message.\<close>

theorem mbx_send_if_all_or_nothing:
  assumes "mbx_ok m s" "mbx_wf (mbxs s m)" "0 < sem_count (sems s (sndsem (mbxs s m)))"
  shows "if length data \<le> frbs (mbxs s m)
    then \<exists>s'. rt_mbx_send_if c m data s = Some (s', MEnd (RVal 0), []) \<and>
      mbx_bytes (mbxs s' m) = mbx_bytes (mbxs s m) @ data
    else rt_mbx_send_if c m data s = Some (s, MRet (RVal (int (length data))), data)"
proof -
  obtain s' where p: "mbx_put c m data (mbx_grab c (sndsem (mbxs s m)) s) = Some (s', drop (frbs (mbxs s m)) data)"
    using mbx_put_works [of "mbx_grab c (sndsem (mbxs s m)) s"] assms by (metis mbx_grab_mbxs)
  have "mbx_bytes (mbxs s' m) = mbx_bytes (mbxs s m) @ data" if "length data \<le> frbs (mbxs s m)"
    using mbx_put_bytes(1) [OF p] that assms(2) by simp
  then show ?thesis using assms p by (simp add: rt_mbx_send_if_def Let_def)
qed

theorem mbx_send_if_all_or_nothing_witness:
  "rt_mbx_send_if 0 3 [1, 2, 3, 4, 5] demo_post = Some (demo_post, MRet (RVal 5), [1, 2, 3, 4, 5]) \<and>
   (\<exists>s'. rt_mbx_send_if 0 3 [1, 2] demo_post = Some (s', MEnd (RVal 0), []))"
  using mbx_send_if_all_or_nothing [of 3 demo_post "[1, 2, 3, 4, 5]" 0]
    mbx_send_if_all_or_nothing [of 3 demo_post "[1, 2]" 0] by (auto simp: demo_post_eq)

text \<open>A message sent to an empty mailbox is received as it was sent, even while the sender
  still holds its semaphore.\<close>

theorem mbx_send_receive_roundtrip:
  assumes "mbx_ok m s" "mbx_wf (mbxs s m)" "avbs (mbxs s m) = 0" "length data \<le> mbx_size (mbxs s m)"
    and "sndsem (mbxs s m) \<noteq> rcvsem (mbxs s m)"
    and "0 < sem_count (sems s (sndsem (mbxs s m)))" "0 < sem_count (sems s (rcvsem (mbxs s m)))"
  shows "\<exists>s1 s2. rt_mbx_send_if c m data s = Some (s1, MEnd (RVal 0), []) \<and>
    rt_mbx_receive_if c' m (length data) s1 = Some (s2, MEnd (RVal 0), data) \<and> mbx_bytes (mbxs s2 m) = []"
proof -
  let ?g = "mbx_grab c (sndsem (mbxs s m)) s"
  have fr: "frbs (mbxs s m) = mbx_size (mbxs s m)" using assms(2,3) by (auto simp: mbx_wf_def)
  obtain s1 where p: "mbx_put c m data ?g = Some (s1, [])"
    using mbx_put_works [of ?g m c data] assms fr by auto
  note sel = mbx_put_sel [OF p, simplified, OF assms(2)]
  have b1: "mbx_bytes (mbxs s1 m) = data" "mbx_wf (mbxs s1 m)"
    using mbx_put_bytes [OF p] assms(2,3) mbx_bytes_Nil [of "mbxs s m"] by auto
  have cnt: "0 < sem_count (sems s1 (rcvsem (mbxs s1 m)))"
    using assms(5,7) sel by (simp add: mbx_grab_def enqueue_resqel_def Let_def)
  let ?h = "mbx_grab c' (rcvsem (mbxs s1 m)) s1"
  obtain s2 where q: "mbx_get c' m (length data) ?h = Some (s2, data)"
    using mbx_get_works [of ?h m c' "length data"] b1 by auto
  have "mbx_bytes (mbxs s2 m) = []" using mbx_get_bytes(1) [OF q] b1 by simp
  moreover have "length data \<le> avbs (mbxs s1 m)" using b1(1) length_mbx_bytes [of "mbxs s1 m"] by simp
  ultimately show ?thesis using p q assms fr cnt sel
    by (auto simp: rt_mbx_send_if_def rt_mbx_receive_if_def mbx_ok_def Let_def)
qed

theorem mbx_send_receive_roundtrip_witness:
  "\<exists>s1 s2. rt_mbx_send_if 0 3 [1, 2] demo_post = Some (s1, MEnd (RVal 0), []) \<and>
     rt_mbx_receive_if 0 3 2 s1 = Some (s2, MEnd (RVal 0), [1, 2])"
  using mbx_send_receive_roundtrip [of 3 demo_post "[1, 2]" 0 0] by (auto simp: demo_post_eq numeral_2_eq_2)

section \<open>Waking the task that waits inside\<close>

text \<open>\<^verbatim>\<open>_mbx_signal\<close> frees the task that waits inside.\<close>

abbreviation (input) MBX_WAIT_BITS :: u32 where
  "MBX_WAIT_BITS \<equiv> RT_SCHED_MBXSUSP OR RT_SCHED_DELAYED"

lemma mbx_signal_frees:
  assumes wf: "sched_wf {} {} s" and t: "is_rt t" "waiting_task (mbxs s m) = Some t" "state (tasks s t) \<noteq> RT_SCHED_READY"
  shows "sched_wf {} {} (mbx_signal c m s) \<and> freed MBX_WAIT_BITS s (mbx_signal c m s) t"
proof -
  let ?u = "upd_mbx m (\<lambda>b. b\<lparr>waiting_task := None\<rparr>) (upd_task t (\<lambda>k. k\<lparr>blocked_on := BNull\<rparr>) s)"
  have eq: "upd_mbx m (\<lambda>b. b\<lparr>waiting_task := None\<rparr>) (upd_task t (\<lambda>k. k\<lparr>blocked_on := BNull\<rparr>) (rem_timed_task t s)) =
      rem_timed_task t ?u"
    by (simp add: rem_timed_task_def upd_timed_def upd_mbx_def upd_task_def is_delayed_def)
  let ?r = "release MBX_WAIT_BITS c t (rem_timed_task t ?u)"
  have "sched_wf {} {} ?u" using wf by simp
  then have w: "sched_wf {} {} (fst ?r)" using t(1) by (intro sched_wf_release_bits) simp_all
  have st: "state (tasks (fst ?r) t) = freed_state MBX_WAIT_BITS (tasks s t)"
    using release_freed_state [of "rem_timed_task t ?u" t MBX_WAIT_BITS c t] t(3) by (simp add: freed_state_def)
  then have nd: "\<not> is_delayed (tasks (fst ?r) t)" using freed_not_delayed [of MBX_WAIT_BITS "tasks s t"] by (simp add: is_delayed_def)
  have sig: "mbx_signal c m s = (if snd ?r then RT_SCHEDULE t c (fst ?r) else fst ?r)"
    using t(2) by (simp add: mbx_signal_def mbx_signal_with_def Let_def eq split_beta)
  have wf': "sched_wf {} {} (mbx_signal c m s)" using w by (simp add: sig)
  have "state (tasks (mbx_signal c m s) t) = freed_state MBX_WAIT_BITS (tasks s t)"
    using st sched_requests_state_kept(1) [OF w nd] by (simp add: sig)
  moreover have "is_hard (tasks (mbx_signal c m s) t) = is_hard (tasks s t)"
    by (simp add: sig RT_SCHEDULE_def)
  ultimately show ?thesis using wf' t(1) by (auto intro!: freedI)
qed

lemma mbx_put_frees:
  assumes "mbx_put c m data s = Some (s', rest)" "mbx_wf (mbxs s m)" "sched_wf {} {} s"
    and "is_rt t" "waiting_task (mbxs s m) = Some t" "state (tasks s t) \<noteq> RT_SCHED_READY"
  shows "freed MBX_WAIT_BITS s s' t"
proof -
  obtain b where b: "same_mbx (mbxs s m) b" "s' = mbx_signal c m (upd_mbx m (\<lambda>_. b) s)"
    using mbxput_total [OF assms(2), of data] assms(1) by (auto simp: mbx_put_def)
  then have "freed MBX_WAIT_BITS (upd_mbx m (\<lambda>_. b) s) s' t"
    using mbx_signal_frees [of "upd_mbx m (\<lambda>_. b) s" t m c] assms by (simp add: same_mbx_def)
  then show ?thesis by (simp add: freed_def)
qed

text \<open>A receive at an empty mailbox by the running task: it leaves the ready list and waits inside.\<close>

lemma mbx_receive_blocks:
  assumes "sched_wf {} {} s" "avbs (mbxs s m) = 0" "0 < n" "\<not> is_delayed (tasks s t)"
  shows "\<exists>s'. rt_mbx_receive_turn c m t n s = Some (s', MWait, n, []) \<and> sched_wf {} {} s' \<and>
    mbxs s' m = (mbxs s m)\<lparr>waiting_task := Some t\<rparr> \<and> state (tasks s' t) = state (tasks s t) OR RT_SCHED_MBXSUSP \<and>
    is_hard (tasks s' t) = is_hard (tasks s t)"
proof -
  let ?b = "rem_ready_current t (upd_task t (\<lambda>k. k\<lparr>state := state k OR RT_SCHED_MBXSUSP\<rparr>) s)"
  let ?w = "upd_mbx m (\<lambda>b. b\<lparr>waiting_task := Some t\<rparr>) (upd_task t (\<lambda>k. k\<lparr>blocked_on := BMbx m\<rparr>) ?b)"
  have "sched_wf {} {} ?b" using assms(1) by (intro sched_wf_block) simp_all
  then have w: "sched_wf {} {} ?w" by simp
  have st: "state (tasks ?w t) = state (tasks s t) OR RT_SCHED_MBXSUSP" by simp
  then have "\<not> is_delayed (tasks ?w t)" using assms(4) by (simp add: is_delayed_def bit.conj_disj_distrib2)
  then have "state (tasks (rt_schedule c ?w) t) = state (tasks s t) OR RT_SCHED_MBXSUSP"
    using rt_schedule_state_kept [OF w, of t c] st by simp
  moreover have "rt_mbx_receive_turn c m t n s = Some (rt_schedule c ?w, MWait, n, [])"
    using assms(2,3) by (simp add: rt_mbx_receive_turn_def mbx_wait_def mbx_receive_after_def)
  ultimately show ?thesis using sched_wf_rt_schedule [OF w] by simp
qed

text \<open>C16. A real-time receiver that waits inside an empty mailbox is served by the next sender's turn: the turn clears its
  wait, clears the bits of its wait and, if it waits for nothing else, makes it ready, a hard task in the ready list
  of its CPU; and when it goes on it gets the first bytes sent. The scheduler's lists are well formed.\<close>

theorem mbx_serves_waiting_receiver:
  assumes wf: "sched_wf {} {} s" "is_rt t" "state (tasks s t) \<noteq> RT_SCHED_READY"
    and box: "mbx_wf (mbxs s m)" "avbs (mbxs s m) = 0" "waiting_task (mbxs s m) = Some t" "data \<noteq> []" "0 < n"
  shows "\<exists>s1 s2. rt_mbx_send_turn c m u data s = Some (s1, MLoop, drop (mbx_size (mbxs s m)) data) \<and>
    waiting_task (mbxs s1 m) = None \<and> blocked_on (tasks s1 t) = BNull \<and> freed MBX_WAIT_BITS s s1 t \<and>
    (let got = take n (take (mbx_size (mbxs s m)) data) in
     got \<noteq> [] \<and> rt_mbx_receive_resume c' m t n s1 = Some (s2, MLoop, n - length got, got))"
proof -
  have fr: "frbs (mbxs s m) = mbx_size (mbxs s m)" "0 < mbx_size (mbxs s m)" using box(1,2) by (auto simp: mbx_wf_def)
  obtain s1 where p: "mbx_put c m data s = Some (s1, drop (mbx_size (mbxs s m)) data)"
    using mbx_put_works [of s m c data] box fr by auto
  have turn: "rt_mbx_send_turn c m u data s = Some (s1, MLoop, drop (mbx_size (mbxs s m)) data)"
    using p box fr by (simp add: rt_mbx_send_turn_def mbx_wait_def mbx_send_after_def)
  note sel = mbx_put_sel(5,6) [OF p box(1)]
  have "mbx_bytes (mbxs s m) = []" using box(2) by simp
  then have b0: "mbx_bytes (mbxs s1 m) = take (length data - (length data - mbx_size (mbxs s m))) data"
    using mbx_put_bytes(1) [OF p box(1)] by simp
  also have "\<dots> = take (mbx_size (mbxs s m)) data" by (cases "mbx_size (mbxs s m) \<le> length data") simp_all
  finally have b1: "mbx_bytes (mbxs s1 m) = take (mbx_size (mbxs s m)) data" "mbx_wf (mbxs s1 m)"
    using mbx_put_bytes(2) [OF p box(1)] by simp_all
  obtain s2 where q: "mbx_get c' m n s1 = Some (s2, take n (take (mbx_size (mbxs s m)) data))"
    using mbx_get_works [OF b1(2), of c' n] b1(1) by auto
  have "rt_mbx_receive_resume c' m t n s1 =
      Some (s2, MLoop, n - length (take n (take (mbx_size (mbxs s m)) data)), take n (take (mbx_size (mbxs s m)) data))"
    using q sel(2) [OF box(3)] by (simp add: rt_mbx_receive_resume_def mbx_wait_resume_def mbx_receive_after_def)
  moreover have "take n (take (mbx_size (mbxs s m)) data) \<noteq> []" using box(4,5) fr(2) by simp
  ultimately show ?thesis unfolding Let_def
    using turn sel(1) sel(2) [OF box(3)] mbx_put_frees [OF p box(1) wf(1,2) box(3) wf(3)] by blast
qed

theorem mbx_serves_waiting_receiver_witness:
  "\<exists>s. rt_mbx_receive_turn 0 3 (Task 2) 1 demo_post = Some (s, MWait, 1, []) \<and>
   (\<exists>s1 s2. rt_mbx_send_turn 0 3 (Task 4) [7, 8] s = Some (s1, MLoop, []) \<and> state (tasks s1 (Task 2)) = RT_SCHED_READY \<and>
     rt_mbx_receive_resume 0 3 (Task 2) 1 s1 = Some (s2, MLoop, 0, [7]))"
proof -
  have "tasks demo_post (Task 2) = tasks demo_run (Task 2)" "sched_wf {} {} demo_post"
    using demo_run_wf by (simp_all add: demo_post_def rt_typed_mbx_init_def rt_typed_sem_init_def Let_def)
  moreover have "state (tasks demo_run (Task 2)) = 1" "is_hard (tasks demo_run (Task 2)) = 1"
    by (simp_all add: demo_run_eq demo_ready_eq demo_init_tasks)
  ultimately obtain s where s: "rt_mbx_receive_turn 0 3 (Task 2) 1 demo_post = Some (s, MWait, 1, [])" "sched_wf {} {} s"
      "mbxs s 3 = (mbxs demo_post 3)\<lparr>waiting_task := Some (Task 2)\<rparr>" "state (tasks s (Task 2)) = 257" "is_hard (tasks s (Task 2)) = 1"
    using mbx_receive_blocks [of demo_post 3 1 "Task 2" 0] demo_post_eq(4) by (auto simp: is_delayed_def)
  moreover have "mbx_wf (mbxs s 3)" "avbs (mbxs s 3) = 0" "mbx_size (mbxs s 3) = 4"
    using s(3) demo_post_eq by simp_all
  ultimately obtain s1 s2 where "rt_mbx_send_turn 0 3 (Task 4) [7, 8] s = Some (s1, MLoop, [])" "freed MBX_WAIT_BITS s s1 (Task 2)"
      "rt_mbx_receive_resume 0 3 (Task 2) 1 s1 = Some (s2, MLoop, 0, [7])"
    using mbx_serves_waiting_receiver [of s "Task 2" 3 "[7, 8]" 1 0 "Task 4" 0] by (auto simp: is_rt_def Let_def)
  moreover from this(2) have "state (tasks s1 (Task 2)) = RT_SCHED_READY" using s(4,5) by (simp add: freed_def)
  ultimately show ?thesis using s(1) by blast
qed

end
