(* ===== verification/Mbx_Conc.thy ===== *)
theory Mbx_Conc
  imports Mbx
begin

text \<open>
  The mailbox under preemption. \<^verbatim>\<open>mbxput\<close> and \<^verbatim>\<open>mbxget\<close> of \<^verbatim>\<open>src/ipc/mbx/mbx.c\<close> copy with interrupts
  enabled and without the global lock, so a sender and a receiver may be in the middle of their copies at the same
  time and on different CPUs. Here each byte copied, each locked update of the two counters and each move of an index is
  a step of its own, and the steps of all tasks interleave. What keeps two senders, or two receivers, apart are the
  semaphores \<^verbatim>\<open>sndsem\<close> and \<^verbatim>\<open>rcvsem\<close>, here in the abstract form that the detailed services refine
  (theory \<open>Sem_Spec\<close>): the binary or counting semaphores of a mailbox, not resources.

  The guard \<^verbatim>\<open>tocpy > mbx->frbs\<close> and the assignment it guards are taken as one read of the counter. The overwriting
  send is left out: it moves \<^verbatim>\<open>fbyte\<close> without \<^verbatim>\<open>rcvsem\<close>. So are the deletion of the mailbox and the preview, which
  changes nothing.
\<close>

section \<open>The copying loops in small steps\<close>

text \<open>A sender: outside, queued at \<^verbatim>\<open>sndsem\<close>, at the head of its loop with the rest of the message, waiting for room,
  in the copy of a chunk of \<open>k\<close> bytes of which \<open>i\<close> are copied, or between the update of the counters and that of the
  index. The flag tells the services that wait for room from those that do not.\<close>

datatype sphase = SOut | SSem "byte list" | SLoop bool "byte list" | SWait "byte list"
  | SCopy bool "byte list" nat nat | SAdvance bool "byte list" nat

text \<open>A receiver: the same with the number of bytes still to come, and the bytes of the chunk read so far.\<close>

datatype rphase = ROut | RSem nat | RLoop bool nat | RWait nat | RCopy bool nat nat "byte list" | RAdvance bool nat nat

text \<open>One step of \<^verbatim>\<open>mbxput\<close>, with the bytes that the update of the counters hands to the mailbox.\<close>

fun put_step :: "mbx \<Rightarrow> sphase \<Rightarrow> (mbx \<times> sphase \<times> byte list) option" where
  "put_step m (SLoop w data) =
     (if data \<noteq> [] \<and> frbs m \<noteq> 0 then Some (m, SCopy w data (put_size (length data) m) 0, []) else None)"
| "put_step m (SCopy w data tocpy i) =
     (if i < tocpy
      then Some (m\<lparr>bufadr := (bufadr m)[lbyte m + i := data ! i]\<rparr>, SCopy w data tocpy (Suc i), [])
      else Some (m\<lparr>frbs := frbs m - tocpy, avbs := avbs m + tocpy\<rparr>, SAdvance w data tocpy, take tocpy data))"
| "put_step m (SAdvance w data tocpy) =
     Some (m\<lparr>lbyte := MOD_SIZE m (lbyte m + tocpy)\<rparr>, SLoop w (drop tocpy data), [])"
| "put_step m ph = None"

text \<open>One step of \<^verbatim>\<open>mbxget\<close>, with the bytes that leave the mailbox.\<close>

fun get_step :: "mbx \<Rightarrow> rphase \<Rightarrow> (mbx \<times> rphase \<times> byte list) option" where
  "get_step m (RLoop w n) =
     (if 0 < n \<and> avbs m \<noteq> 0 then Some (m, RCopy w n (get_size n m) [], []) else None)"
| "get_step m (RCopy w n tocpy got) =
     (if length got < tocpy
      then Some (m, RCopy w n tocpy (got @ [bufadr m ! (fbyte m + length got)]), [])
      else Some (m\<lparr>frbs := frbs m + tocpy, avbs := avbs m - tocpy\<rparr>, RAdvance w n tocpy, got))"
| "get_step m (RAdvance w n tocpy) =
     Some (m\<lparr>fbyte := MOD_SIZE m (fbyte m + tocpy)\<rparr>, RLoop w (n - tocpy), [])"
| "get_step m ph = None"

section \<open>Senders and receivers\<close>

record mconc =
  cbox :: mbx
  ssem :: asem
  rsem :: asem
  sph :: "tid \<Rightarrow> sphase"
  rph :: "tid \<Rightarrow> rphase"

text \<open>The task at the head of a queue that is given the token enters.\<close>

fun s_passed :: "sphase \<Rightarrow> sphase" where
  "s_passed (SSem data) = SLoop True data"
| "s_passed ph = ph"

fun r_passed :: "rphase \<Rightarrow> rphase" where
  "r_passed (RSem n) = RLoop True n"
| "r_passed ph = ph"

definition pass_on :: "tid list \<Rightarrow> ('p \<Rightarrow> 'p) \<Rightarrow> (tid \<Rightarrow> 'p) \<Rightarrow> tid \<Rightarrow> 'p" where
  "pass_on ts f ph = (case ts of [] \<Rightarrow> ph | u # us \<Rightarrow> ph(u := f (ph u)))"

text \<open>The wait and the signal of \<^verbatim>\<open>_rt_mbx_send\<close> and \<^verbatim>\<open>_rt_mbx_receive\<close> at both ends.\<close>

definition send_enter :: "bool \<Rightarrow> (tid \<Rightarrow> int) \<Rightarrow> tid \<Rightarrow> byte list \<Rightarrow> mconc \<Rightarrow> mconc" where
  "send_enter fifo p t data s = s\<lparr>ssem := sem_spec_wait fifo p t (ssem s),
     sph := (sph s)(t := if 0 < fst (ssem s) then SLoop True data else SSem data)\<rparr>"

definition send_leave :: "bool \<Rightarrow> tid \<Rightarrow> mconc \<Rightarrow> mconc" where
  "send_leave bin t s = s\<lparr>ssem := sem_spec_signal bin (ssem s),
     sph := pass_on (snd (ssem s)) s_passed ((sph s)(t := SOut))\<rparr>"

definition receive_enter :: "bool \<Rightarrow> (tid \<Rightarrow> int) \<Rightarrow> tid \<Rightarrow> nat \<Rightarrow> mconc \<Rightarrow> mconc" where
  "receive_enter fifo p t n s = s\<lparr>rsem := sem_spec_wait fifo p t (rsem s),
     rph := (rph s)(t := if 0 < fst (rsem s) then RLoop True n else RSem n)\<rparr>"

definition receive_leave :: "bool \<Rightarrow> tid \<Rightarrow> mconc \<Rightarrow> mconc" where
  "receive_leave bin t s = s\<lparr>rsem := sem_spec_signal bin (rsem s),
     rph := pass_on (snd (rsem s)) r_passed ((rph s)(t := ROut))\<rparr>"

definition set_waiting :: "tid option \<Rightarrow> mconc \<Rightarrow> mconc" where
  "set_waiting w s = s\<lparr>cbox := (cbox s)\<lparr>waiting_task := w\<rparr>\<rparr>"

text \<open>The steps of any task, with the bytes that enter and leave the mailbox. A task that waits inside may be woken or
  given up at any time, whoever does it; a queued one may give up by its time limit or by being unblocked.\<close>

inductive mstep :: "mconc \<Rightarrow> byte list \<Rightarrow> byte list \<Rightarrow> mconc \<Rightarrow> bool" where
  send: "sph s t = SOut \<Longrightarrow> mstep s [] [] (send_enter fifo p t data s)"
| send_unqueue: "sph s t = SSem data \<Longrightarrow>
    mstep s [] [] (s\<lparr>ssem := (fst (ssem s), remove1 t (snd (ssem s))), sph := (sph s)(t := SOut)\<rparr>)"
| send_wp: "sph s t = SOut \<Longrightarrow> 0 < fst (ssem s) \<Longrightarrow> frbs (cbox s) \<noteq> 0 \<Longrightarrow>
    mstep s [] [] (s\<lparr>ssem := (0, snd (ssem s)), sph := (sph s)(t := SLoop False data)\<rparr>)"
| send_if: "sph s t = SOut \<Longrightarrow> 0 < fst (ssem s) \<Longrightarrow> length data \<le> frbs (cbox s) \<Longrightarrow>
    mstep s [] [] (s\<lparr>ssem := (0, snd (ssem s)), sph := (sph s)(t := SLoop False data)\<rparr>)"
| put: "put_step (cbox s) (sph s t) = Some (b, ph, i) \<Longrightarrow> mstep s i [] (s\<lparr>cbox := b, sph := (sph s)(t := ph)\<rparr>)"
| send_wait: "sph s t = SLoop True data \<Longrightarrow> data \<noteq> [] \<Longrightarrow> frbs (cbox s) = 0 \<Longrightarrow>
    mstep s [] [] (set_waiting (Some t) (s\<lparr>sph := (sph s)(t := SWait data)\<rparr>))"
| send_woken: "sph s t = SWait data \<Longrightarrow> mstep s [] [] (set_waiting None (s\<lparr>sph := (sph s)(t := SLoop True data)\<rparr>))"
| send_fail: "sph s t = SWait data \<Longrightarrow> mstep s [] [] (send_leave bin t (set_waiting None s))"
| send_end: "sph s t = SLoop w data \<Longrightarrow> data = [] \<or> \<not> w \<and> frbs (cbox s) = 0 \<Longrightarrow> mstep s [] [] (send_leave bin t s)"
| receive: "rph s t = ROut \<Longrightarrow> mstep s [] [] (receive_enter fifo p t n s)"
| receive_unqueue: "rph s t = RSem n \<Longrightarrow>
    mstep s [] [] (s\<lparr>rsem := (fst (rsem s), remove1 t (snd (rsem s))), rph := (rph s)(t := ROut)\<rparr>)"
| receive_wp: "rph s t = ROut \<Longrightarrow> 0 < fst (rsem s) \<Longrightarrow> avbs (cbox s) \<noteq> 0 \<Longrightarrow>
    mstep s [] [] (s\<lparr>rsem := (0, snd (rsem s)), rph := (rph s)(t := RLoop False n)\<rparr>)"
| receive_if: "rph s t = ROut \<Longrightarrow> 0 < fst (rsem s) \<Longrightarrow> n \<le> avbs (cbox s) \<Longrightarrow>
    mstep s [] [] (s\<lparr>rsem := (0, snd (rsem s)), rph := (rph s)(t := RLoop False n)\<rparr>)"
| get: "get_step (cbox s) (rph s t) = Some (b, ph, u) \<Longrightarrow> mstep s [] u (s\<lparr>cbox := b, rph := (rph s)(t := ph)\<rparr>)"
| receive_wait: "rph s t = RLoop True n \<Longrightarrow> 0 < n \<Longrightarrow> avbs (cbox s) = 0 \<Longrightarrow>
    mstep s [] [] (set_waiting (Some t) (s\<lparr>rph := (rph s)(t := RWait n)\<rparr>))"
| receive_woken: "rph s t = RWait n \<Longrightarrow> mstep s [] [] (set_waiting None (s\<lparr>rph := (rph s)(t := RLoop True n)\<rparr>))"
| receive_fail: "rph s t = RWait n \<Longrightarrow> mstep s [] [] (receive_leave bin t (set_waiting None s))"
| receive_end: "rph s t = RLoop w n \<Longrightarrow> n = 0 \<or> \<not> w \<and> avbs (cbox s) = 0 \<Longrightarrow> mstep s [] [] (receive_leave bin t s)"

inductive mrun :: "mconc \<Rightarrow> byte list \<Rightarrow> byte list \<Rightarrow> mconc \<Rightarrow> bool" where
  start: "mrun s [] [] s"
| step: "mrun s ins outs s1 \<Longrightarrow> mstep s1 i u s2 \<Longrightarrow> mrun s (ins @ i) (outs @ u) s2"

text \<open>A mailbox that nobody uses, with both semaphores free.\<close>

definition mbx_at_rest :: "mbx \<Rightarrow> mconc" where
  "mbx_at_rest b = \<lparr>cbox = b, ssem = (1, []), rsem = (1, []), sph = (\<lambda>_. SOut), rph = (\<lambda>_. ROut)\<rparr>"

fun s_in :: "sphase \<Rightarrow> bool" where
  "s_in SOut = False"
| "s_in (SSem data) = False"
| "s_in ph = True"

fun r_in :: "rphase \<Rightarrow> bool" where
  "r_in ROut = False"
| "r_in (RSem n) = False"
| "r_in ph = True"

section \<open>One at a time\<close>

text \<open>The token of a semaphore is free or with the one task inside, and who queues is in the queue, once.\<close>

definition tok :: "asem \<Rightarrow> tid set \<Rightarrow> tid set \<Rightarrow> bool" where
  "tok a I Q \<longleftrightarrow> distinct (snd a) \<and> set (snd a) = Q \<and>
     (if I = {} then a = (1, []) else fst a = 0 \<and> (\<exists>t. I = {t}))"

lemma sem_spec_wait_one [simp]: "sem_spec_wait fifo p t (Suc 0, ts) = (0, ts)"
  by (simp only: sem_spec_wait.simps)

lemma tok_enter: "tok a I Q \<Longrightarrow> 0 < fst a \<Longrightarrow> tok (sem_spec_wait fifo p t a) {t} {} \<and> tok (0, snd a) {t} {} \<and> I = {} \<and> Q = {}"
  by (auto simp: tok_def split: if_splits)

lemma tok_queue: "tok a I Q \<Longrightarrow> fst a = 0 \<Longrightarrow> t \<notin> Q \<Longrightarrow> tok (sem_spec_wait fifo p t a) I (insert t Q)"
  by (cases a) (auto simp: tok_def split: if_splits)

lemma tok_unqueue: "tok a I Q \<Longrightarrow> t \<in> Q \<Longrightarrow> tok (fst a, remove1 t (snd a)) I (Q - {t})"
  by (auto simp: tok_def split: if_splits)

lemma tok_signal:
  assumes "tok a {t} Q"
  shows "snd a = [] \<Longrightarrow> tok (sem_spec_signal bin a) {} {} \<and> Q = {}"
    "snd a = u # us \<Longrightarrow> tok (sem_spec_signal bin a) {u} (Q - {u}) \<and> u \<in> Q"
  using assms by (cases a; auto simp: tok_def)+

lemma tok_one: "tok a I Q \<Longrightarrow> t \<in> I \<Longrightarrow> I = {t}"
  by (auto simp: tok_def split: if_splits)

abbreviation senders :: "mconc \<Rightarrow> tid set" where
  "senders s \<equiv> {t. s_in (sph s t)}"

abbreviation receivers :: "mconc \<Rightarrow> tid set" where
  "receivers s \<equiv> {t. r_in (rph s t)}"

abbreviation squeued :: "mconc \<Rightarrow> tid set" where
  "squeued s \<equiv> {t. \<exists>data. sph s t = SSem data}"

abbreviation rqueued :: "mconc \<Rightarrow> tid set" where
  "rqueued s \<equiv> {t. \<exists>n. rph s t = RSem n}"

definition tok_ok :: "mconc \<Rightarrow> bool" where
  "tok_ok s \<longleftrightarrow> tok (ssem s) (senders s) (squeued s) \<and> tok (rsem s) (receivers s) (rqueued s)"

lemma s_in_not: "s_in ph \<Longrightarrow> ph \<noteq> SOut \<and> ph \<noteq> SSem data"
  by auto

lemma r_in_not: "r_in ph \<Longrightarrow> ph \<noteq> ROut \<and> ph \<noteq> RSem n"
  by auto

text \<open>Which of the sets a change of one task's phase changes.\<close>

lemma in_upd:
  "{u. s_in ((ph(t := a)) u)} = (if s_in a then insert t {u. s_in (ph u)} else {u. s_in (ph u)} - {t})"
  "{u. r_in ((rp(t := b)) u)} = (if r_in b then insert t {u. r_in (rp u)} else {u. r_in (rp u)} - {t})"
  "{u. \<exists>data. (ph(t := a)) u = SSem data} =
     (if \<exists>data. a = SSem data then insert t {u. \<exists>data. ph u = SSem data} else {u. \<exists>data. ph u = SSem data} - {t})"
  "{u. \<exists>n. (rp(t := b)) u = RSem n} =
     (if \<exists>n. b = RSem n then insert t {u. \<exists>n. rp u = RSem n} else {u. \<exists>n. rp u = RSem n} - {t})"
  by (auto split: if_splits)

lemma tok_send_leave:
  assumes "tok_ok s" "s_in (sph s t)"
  shows "tok_ok (send_leave bin t s)"
proof -
  have q: "tok (ssem s) {t} (squeued s)" using assms tok_one [of "ssem s" "senders s" "squeued s" t] by (simp add: tok_ok_def)
  have I: "senders s = {t}" using assms tok_one [of "ssem s" "senders s" "squeued s" t] by (simp add: tok_ok_def)
  have t: "t \<notin> squeued s" using assms(2) by auto
  show ?thesis
  proof (cases "snd (ssem s)")
    case Nil
    then show ?thesis using tok_signal(1) [OF q Nil, of bin] assms(1) I t
      by (simp add: tok_ok_def send_leave_def pass_on_def in_upd del: fun_upd_apply)
  next
    case (Cons u us)
    obtain data where u: "sph s u = SSem data" using tok_signal(2) [OF q Cons] by auto
    then have "u \<noteq> t" using t by auto
    then show ?thesis using tok_signal(2) [OF q Cons, of bin] assms(1) I t u Cons
      by (simp add: tok_ok_def send_leave_def pass_on_def in_upd insert_absorb del: fun_upd_apply)
        (simp add: fun_upd_apply)
  qed
qed

lemma tok_receive_leave:
  assumes "tok_ok s" "r_in (rph s t)"
  shows "tok_ok (receive_leave bin t s)"
proof -
  have q: "tok (rsem s) {t} (rqueued s)" using assms tok_one [of "rsem s" "receivers s" "rqueued s" t] by (simp add: tok_ok_def)
  have I: "receivers s = {t}" using assms tok_one [of "rsem s" "receivers s" "rqueued s" t] by (simp add: tok_ok_def)
  have t: "t \<notin> rqueued s" using assms(2) by auto
  show ?thesis
  proof (cases "snd (rsem s)")
    case Nil
    then show ?thesis using tok_signal(1) [OF q Nil, of bin] assms(1) I t
      by (simp add: tok_ok_def receive_leave_def pass_on_def in_upd del: fun_upd_apply)
  next
    case (Cons u us)
    obtain n where u: "rph s u = RSem n" using tok_signal(2) [OF q Cons] by auto
    then have "u \<noteq> t" using t by auto
    then show ?thesis using tok_signal(2) [OF q Cons, of bin] assms(1) I t u Cons
      by (simp add: tok_ok_def receive_leave_def pass_on_def in_upd insert_absorb del: fun_upd_apply)
        (simp add: fun_upd_apply)
  qed
qed

text \<open>A step that stays inside or outside leaves the tokens alone.\<close>

lemma tok_same:
  assumes "tok_ok s"
  shows "s_in (sph s t) \<Longrightarrow> s_in ph \<Longrightarrow> tok_ok (s\<lparr>cbox := b, sph := (sph s)(t := ph)\<rparr>)"
    "r_in (rph s t) \<Longrightarrow> r_in rp \<Longrightarrow> tok_ok (s\<lparr>cbox := b, rph := (rph s)(t := rp)\<rparr>)"
proof -
  show "tok_ok (s\<lparr>cbox := b, sph := (sph s)(t := ph)\<rparr>)" if "s_in (sph s t)" "s_in ph"
  proof -
    have "senders (s\<lparr>cbox := b, sph := (sph s)(t := ph)\<rparr>) = senders s" "squeued (s\<lparr>cbox := b, sph := (sph s)(t := ph)\<rparr>) = squeued s"
      using that by auto
    then show ?thesis using assms by (simp add: tok_ok_def)
  qed
  show "tok_ok (s\<lparr>cbox := b, rph := (rph s)(t := rp)\<rparr>)" if "r_in (rph s t)" "r_in rp"
  proof -
    have "receivers (s\<lparr>cbox := b, rph := (rph s)(t := rp)\<rparr>) = receivers s" "rqueued (s\<lparr>cbox := b, rph := (rph s)(t := rp)\<rparr>) = rqueued s"
      using that by auto
    then show ?thesis using assms by (simp add: tok_ok_def)
  qed
qed

lemma tok_out:
  assumes "tok_ok s"
  shows "sph s t = SOut \<Longrightarrow> 0 < fst (ssem s) \<Longrightarrow> tok_ok (s\<lparr>ssem := (0, snd (ssem s)), sph := (sph s)(t := SLoop w data)\<rparr>)"
    "rph s t = ROut \<Longrightarrow> 0 < fst (rsem s) \<Longrightarrow> tok_ok (s\<lparr>rsem := (0, snd (rsem s)), rph := (rph s)(t := RLoop w n)\<rparr>)"
    "sph s t = SOut \<Longrightarrow> tok_ok (send_enter fifo p t data s)"
    "rph s t = ROut \<Longrightarrow> tok_ok (receive_enter fifo p t n s)"
    "sph s t = SSem data \<Longrightarrow> tok_ok (s\<lparr>ssem := (fst (ssem s), remove1 t (snd (ssem s))), sph := (sph s)(t := SOut)\<rparr>)"
    "rph s t = RSem n \<Longrightarrow> tok_ok (s\<lparr>rsem := (fst (rsem s), remove1 t (snd (rsem s))), rph := (rph s)(t := ROut)\<rparr>)"
proof -
  have S: "tok (ssem s) (senders s) (squeued s)" and R: "tok (rsem s) (receivers s) (rqueued s)"
    using assms by (simp_all add: tok_ok_def)
  show "tok_ok (s\<lparr>ssem := (0, snd (ssem s)), sph := (sph s)(t := SLoop w data)\<rparr>)" if "sph s t = SOut" "0 < fst (ssem s)"
    using tok_enter [OF S that(2), of fifo p t] R that(1) by (simp add: tok_ok_def in_upd del: fun_upd_apply)
  show "tok_ok (s\<lparr>rsem := (0, snd (rsem s)), rph := (rph s)(t := RLoop w n)\<rparr>)" if "rph s t = ROut" "0 < fst (rsem s)"
    using tok_enter [OF R that(2), of fifo p t] S that(1) by (simp add: tok_ok_def in_upd del: fun_upd_apply)
  show "tok_ok (send_enter fifo p t data s)" if "sph s t = SOut"
    using tok_enter [OF S, of fifo p t] tok_queue [OF S, of t fifo p] R that
    by (cases "fst (ssem s) = 0") (simp_all add: tok_ok_def send_enter_def in_upd del: fun_upd_apply)
  show "tok_ok (receive_enter fifo p t n s)" if "rph s t = ROut"
    using tok_enter [OF R, of fifo p t] tok_queue [OF R, of t fifo p] S that
    by (cases "fst (rsem s) = 0") (simp_all add: tok_ok_def receive_enter_def in_upd del: fun_upd_apply)
  show "tok_ok (s\<lparr>ssem := (fst (ssem s), remove1 t (snd (ssem s))), sph := (sph s)(t := SOut)\<rparr>)" if "sph s t = SSem data"
    using tok_unqueue [OF S, of t] R that by (simp add: tok_ok_def in_upd del: fun_upd_apply)
  show "tok_ok (s\<lparr>rsem := (fst (rsem s), remove1 t (snd (rsem s))), rph := (rph s)(t := ROut)\<rparr>)" if "rph s t = RSem n"
    using tok_unqueue [OF R, of t] S that by (simp add: tok_ok_def in_upd del: fun_upd_apply)
qed

lemma tok_waiting [simp]: "tok_ok (set_waiting w s) = tok_ok s"
  by (simp add: tok_ok_def set_waiting_def)

lemma tok_ok_upd_box: "tok_ok (s\<lparr>cbox := b\<rparr>) = tok_ok s"
  by (simp add: tok_ok_def)

lemma set_waiting_sel [simp]:
  "ssem (set_waiting w s) = ssem s" "rsem (set_waiting w s) = rsem s" "sph (set_waiting w s) = sph s" "rph (set_waiting w s) = rph s"
  "cbox (set_waiting w s) = (cbox s)\<lparr>waiting_task := w\<rparr>"
  by (simp_all add: set_waiting_def)

lemma put_step_in: "put_step m ph = Some (m', ph', i) \<Longrightarrow> s_in ph \<and> s_in ph'"
  by (cases ph) (auto split: if_splits)

lemma get_step_in: "get_step m ph = Some (m', ph', u) \<Longrightarrow> r_in ph \<and> r_in ph'"
  by (cases ph) (auto split: if_splits)

lemma tok_step: "mstep s i u s' \<Longrightarrow> tok_ok s \<Longrightarrow> tok_ok s'"
proof (induction rule: mstep.induct)
  case (put s t b ph i)
  then show ?case using put_step_in tok_same(1) by blast
next
  case (get s t b ph u)
  then show ?case using get_step_in tok_same(2) by blast
next
  case (send_wait s t data)
  then show ?case using tok_same(1) [OF send_wait(4), of t "SWait data" "cbox s"] by simp
next
  case (send_woken s t data)
  then show ?case using tok_same(1) [OF send_woken(2), of t "SLoop True data" "cbox s"] by simp
next
  case (receive_wait s t n)
  then show ?case using tok_same(2) [OF receive_wait(4), of t "RWait n" "cbox s"] by simp
next
  case (receive_woken s t n)
  then show ?case using tok_same(2) [OF receive_woken(2), of t "RLoop True n" "cbox s"] by simp
qed (simp_all add: tok_out tok_send_leave tok_receive_leave)

section \<open>The buffer between two steps\<close>

text \<open>The buffer with the indices that its counters stand for: the index of a task that has changed the counters and not
  yet the index is ahead.\<close>

definition box_at :: "mbx \<Rightarrow> nat \<Rightarrow> nat \<Rightarrow> mbx" where
  "box_at b F L = b\<lparr>fbyte := F, lbyte := L\<rparr>"

fun s_ok :: "mbx \<Rightarrow> nat \<Rightarrow> sphase \<Rightarrow> bool" where
  "s_ok b L (SCopy w data k i) \<longleftrightarrow> L = lbyte b \<and> i \<le> k \<and> k \<le> length data \<and> k \<le> frbs b \<and> lbyte b + k \<le> mbx_size b \<and>
     take i (drop (lbyte b) (bufadr b)) = take i data"
| "s_ok b L (SAdvance w data k) \<longleftrightarrow> L = MOD_SIZE b (lbyte b + k)"
| "s_ok b L ph \<longleftrightarrow> (s_in ph \<longrightarrow> L = lbyte b)"

fun r_ok :: "mbx \<Rightarrow> nat \<Rightarrow> byte list \<Rightarrow> rphase \<Rightarrow> bool" where
  "r_ok b F c (RCopy w n k got) \<longleftrightarrow> F = fbyte b \<and> length got \<le> k \<and> k \<le> n \<and> k \<le> avbs b \<and> fbyte b + k \<le> mbx_size b \<and>
     got = take (length got) c"
| "r_ok b F c (RAdvance w n k) \<longleftrightarrow> F = MOD_SIZE b (fbyte b + k)"
| "r_ok b F c ph \<longleftrightarrow> (r_in ph \<longrightarrow> F = fbyte b)"

definition s_side :: "mbx \<Rightarrow> nat \<Rightarrow> (tid \<Rightarrow> sphase) \<Rightarrow> bool" where
  "s_side b L ph \<longleftrightarrow> (\<forall>t. s_ok b L (ph t)) \<and> ((\<forall>t. \<not> s_in (ph t)) \<longrightarrow> L = lbyte b)"

definition r_side :: "mbx \<Rightarrow> nat \<Rightarrow> byte list \<Rightarrow> (tid \<Rightarrow> rphase) \<Rightarrow> bool" where
  "r_side b F c ph \<longleftrightarrow> (\<forall>t. r_ok b F c (ph t)) \<and> ((\<forall>t. \<not> r_in (ph t)) \<longrightarrow> F = fbyte b)"

definition box_ok :: "mconc \<Rightarrow> byte list \<Rightarrow> bool" where
  "box_ok s c \<longleftrightarrow> (\<exists>F L. mbx_wf (box_at (cbox s) F L) \<and> mbx_bytes (box_at (cbox s) F L) = c \<and>
     s_side (cbox s) L (sph s) \<and> r_side (cbox s) F c (rph s))"

lemma box_at_sel [simp]:
  "bufadr (box_at b F L) = bufadr b" "mbx_size (box_at b F L) = mbx_size b" "avbs (box_at b F L) = avbs b"
  "frbs (box_at b F L) = frbs b" "fbyte (box_at b F L) = F" "lbyte (box_at b F L) = L"
  by (simp_all add: box_at_def)

lemma mbx_same_fields:
  assumes "bufadr b' = bufadr b" "mbx_size b' = mbx_size b" "avbs b' = avbs b" "frbs b' = frbs b" "fbyte b' = fbyte b" "lbyte b' = lbyte b"
  shows "mbx_bytes b' = mbx_bytes b" "mbx_wf b' = mbx_wf b"
  by (simp_all add: mbx_bytes_def mbx_wf_def assms)

lemma s_ok_idle: "\<not> s_in ph \<Longrightarrow> s_ok b L ph"
  by (cases ph) simp_all

lemma r_ok_idle: "\<not> r_in ph \<Longrightarrow> r_ok b F c ph"
  by (cases ph) simp_all

text \<open>With one task inside at most, its phase is all there is to know.\<close>

lemma s_side_one:
  assumes "\<And>u. u \<noteq> t \<Longrightarrow> \<not> s_in (ph u)"
  shows "s_side b L ph \<longleftrightarrow> s_ok b L (ph t) \<and> (\<not> s_in (ph t) \<longrightarrow> L = lbyte b)"
  using assms s_ok_idle unfolding s_side_def by metis

lemma r_side_one:
  assumes "\<And>u. u \<noteq> t \<Longrightarrow> \<not> r_in (ph u)"
  shows "r_side b F c ph \<longleftrightarrow> r_ok b F c (ph t) \<and> (\<not> r_in (ph t) \<longrightarrow> F = fbyte b)"
  using assms r_ok_idle unfolding r_side_def by metis

lemma s_side_mono:
  assumes "s_side b L ph" "lbyte b' = lbyte b" "mbx_size b' = mbx_size b" "bufadr b' = bufadr b" "frbs b \<le> frbs b'"
  shows "s_side b' L ph"
proof -
  have "s_ok b' L p" if "s_ok b L p" for p using that assms(2-) by (cases p) (simp_all add: MOD_SIZE_def)
  then show ?thesis using assms(1,2) by (simp add: s_side_def)
qed

lemma r_side_mono:
  assumes "r_side b F c ph" "fbyte b' = fbyte b" "mbx_size b' = mbx_size b" "avbs b \<le> avbs b'" "length c = avbs b"
  shows "r_side b' F (c @ xs) ph"
proof -
  have "r_ok b' F (c @ xs) p" if "r_ok b F c p" for p using that assms(2-) by (cases p) (auto simp: MOD_SIZE_def)
  then show ?thesis using assms(1,2) by (simp add: r_side_def)
qed

lemma s_side_inside: "s_side b L ph \<Longrightarrow> s_ok b L (ph t)"
  by (simp add: s_side_def)

lemma r_side_inside: "r_side b F c ph \<Longrightarrow> r_ok b F c (ph t)"
  by (simp add: r_side_def)

lemma only_sender: "tok_ok s \<Longrightarrow> s_in (sph s t) \<Longrightarrow> u \<noteq> t \<Longrightarrow> \<not> s_in (sph s u)"
  using tok_one [of "ssem s" "senders s" "squeued s" t] by (auto simp: tok_ok_def)

lemma only_receiver: "tok_ok s \<Longrightarrow> r_in (rph s t) \<Longrightarrow> u \<noteq> t \<Longrightarrow> \<not> r_in (rph s u)"
  using tok_one [of "rsem s" "receivers s" "rqueued s" t] by (auto simp: tok_ok_def)

text \<open>A byte written into the free part of the buffer is not seen.\<close>

lemma free_byte:
  assumes wf: "mbx_wf (box_at b F L)" and c: "mbx_bytes (box_at b F L) = c" and j: "j < frbs b" "L + j < mbx_size b"
    and b': "b' = b\<lparr>bufadr := (bufadr b)[L + j := x]\<rparr>"
  shows "mbx_bytes (box_at b' F L) = c \<and> mbx_wf (box_at b' F L)"
proof -
  let ?z = "mbx_size b"
  have L: "L = (F + avbs b) mod ?z" "avbs b + frbs b = ?z" "F < ?z" "0 < ?z" using wf by (auto simp: mbx_wf_def)
  have "(F + k) mod ?z \<noteq> L + j" if "k < avbs b" for k
  proof
    assume eq: "(F + k) mod ?z = L + j"
    have idx: "(F + i) mod ?z = (if F + i < ?z then F + i else F + i - ?z)" if "i < ?z" for i
      using that L(3) by (simp add: mod_if)
    have "avbs b + j < ?z" using j L by simp
    moreover have "L + j = (F + (avbs b + j)) mod ?z"
      using L j(2) by (metis add.assoc mod_add_left_eq mod_less)
    ultimately show False using eq idx [of k] idx [of "avbs b + j"] that L by (auto split: if_splits)
  qed
  then have "mbx_bytes (box_at b' F L) = mbx_bytes (box_at b F L)"
    by (intro nth_equalityI) (simp_all add: mbx_bytes_def b' nth_list_update_neq [OF not_sym])
  then show ?thesis using wf c by (simp add: mbx_wf_def b')
qed

text \<open>A step of a sender inside.\<close>

lemma box_put_step:
  assumes tok: "tok_ok s" and box: "box_ok s c" and step: "put_step (cbox s) (sph s t) = Some (b, ph, i)"
  shows "box_ok (s\<lparr>cbox := b, sph := (sph s)(t := ph)\<rparr>) (c @ i)"
proof -
  let ?b = "cbox s"
  obtain F L where wf: "mbx_wf (box_at ?b F L)" and c: "mbx_bytes (box_at ?b F L) = c"
      and S: "s_side ?b L (sph s)" and R: "r_side ?b F c (rph s)"
    using box by (auto simp: box_ok_def)
  have inside: "s_in (sph s t)" "s_in ph" using put_step_in [OF step] by simp_all
  have others: "\<not> s_in (((sph s)(t := ph)) u)" if "u \<noteq> t" for u using only_sender [OF tok inside(1) that] that by simp
  have S': "s_side b' L' ((sph s)(t := ph)) = s_ok b' L' ph" for b' L'
    using s_side_one [where ph = "(sph s)(t := ph)" and t = t, OF others] inside by simp
  have s: "s_ok ?b L (sph s t)" by (rule s_side_inside [OF S])
  have len: "length c = avbs ?b" using c by auto
  show ?thesis
  proof (cases "sph s t")
    case (SLoop w data)
    have "L < mbx_size ?b" using wf by (simp add: mbx_wf_def)
    then have "s_ok b L ph" "b = ?b" "i = []"
      using s step SLoop by (auto simp: put_size_def split: if_splits)
    then show ?thesis using wf c R S' by (auto simp: box_ok_def)
  next
    case (SCopy w data k j)
    have L: "L = lbyte ?b" "lbyte ?b + k \<le> mbx_size ?b" "k \<le> frbs ?b" "k \<le> length data" "j \<le> k"
      and copied: "take j (drop (lbyte ?b) (bufadr ?b)) = take j data"
      using s SCopy by simp_all
    have buf: "length (bufadr ?b) = mbx_size ?b" "lbyte ?b < mbx_size ?b" using wf L(1) by (auto simp: mbx_wf_def)
    show ?thesis
    proof (cases "j < k")
      case True
      let ?x = "(bufadr ?b)[lbyte ?b + j := data ! j]"
      have b: "b = ?b\<lparr>bufadr := ?x\<rparr>" "ph = SCopy w data k (Suc j)" "i = []" using step SCopy True by simp_all
      have "mbx_bytes (box_at b F L) = c \<and> mbx_wf (box_at b F L)"
        by (rule free_byte [OF wf c]) (use b L True in simp_all)
      moreover have "take (Suc j) (drop (lbyte ?b) ?x) = take (Suc j) data"
        using copied L buf True by (simp add: take_Suc_conv_app_nth drop_update_swap)
      then have "s_ok b L ph" using b L True by simp
      moreover have "r_side b F c (rph s)" using r_side_mono [OF R, of b "[]"] b len by simp
      ultimately show ?thesis using S' b(3) by (auto simp: box_ok_def)
    next
      case False
      then have k: "j = k" using L by simp
      have b: "b = ?b\<lparr>frbs := frbs ?b - k, avbs := avbs ?b + k\<rparr>" "ph = SAdvance w data k" "i = take k data"
        using step SCopy False by simp_all
      have full: "copy_in (lbyte ?b) (take k data) (bufadr ?b) = bufadr ?b"
        using copied k L buf by (simp add: copy_in_def) (metis append_take_drop_id drop_drop add.commute)
      let ?L = "MOD_SIZE ?b (lbyte ?b + k)"
      let ?p = "put_chunk (take k data) (box_at ?b F L)"
      have p: "mbx_bytes ?p = c @ take k data" "mbx_wf ?p"
        using put_chunk_bytes [OF wf, of "take k data"] c L by simp_all
      have "mbx_bytes (box_at b F ?L) = mbx_bytes ?p" "mbx_wf (box_at b F ?L) = mbx_wf ?p"
        using b L full by (intro mbx_same_fields; simp add: put_chunk_def MOD_SIZE_def)+
      moreover have "r_side b F (c @ i) (rph s)" using b by (intro r_side_mono [OF R]) (simp_all add: len)
      moreover have "s_ok b ?L ph" using b by (simp add: MOD_SIZE_def)
      ultimately show ?thesis using p b S' by (auto simp: box_ok_def)
    qed
  next
    case (SAdvance w data k)
    have b: "b = ?b\<lparr>lbyte := L\<rparr>" "ph = SLoop w (drop k data)" "i = []" using step SAdvance s by simp_all
    have "mbx_bytes (box_at b F L) = mbx_bytes (box_at ?b F L)" "mbx_wf (box_at b F L) = mbx_wf (box_at ?b F L)"
      using b by (intro mbx_same_fields; simp)+
    moreover have "r_side b F c (rph s)" using r_side_mono [OF R, of b "[]"] b len by simp
    ultimately show ?thesis using wf c b S' by (auto simp: box_ok_def)
  qed (use step in simp_all)
qed

text \<open>A step of a receiver inside.\<close>

lemma box_get_step:
  assumes tok: "tok_ok s" and box: "box_ok s c" and step: "get_step (cbox s) (rph s t) = Some (b, ph, u)"
  shows "\<exists>c'. box_ok (s\<lparr>cbox := b, rph := (rph s)(t := ph)\<rparr>) c' \<and> c = u @ c'"
proof -
  let ?b = "cbox s"
  obtain F L where wf: "mbx_wf (box_at ?b F L)" and c: "mbx_bytes (box_at ?b F L) = c"
      and S: "s_side ?b L (sph s)" and R: "r_side ?b F c (rph s)"
    using box by (auto simp: box_ok_def)
  have inside: "r_in (rph s t)" "r_in ph" using get_step_in [OF step] by simp_all
  have others: "\<not> r_in (((rph s)(t := ph)) v)" if "v \<noteq> t" for v using only_receiver [OF tok inside(1) that] that by simp
  have R': "r_side b' F' c' ((rph s)(t := ph)) = r_ok b' F' c' ph" for b' F' c'
    using r_side_one [where ph = "(rph s)(t := ph)" and t = t, OF others] inside by simp
  have r: "r_ok ?b F c (rph s t)" by (rule r_side_inside [OF R])
  have len: "length c = avbs ?b" using c by auto
  show ?thesis
  proof (cases "rph s t")
    case (RLoop w n)
    have "F < mbx_size ?b" using wf by (simp add: mbx_wf_def)
    then have "r_ok ?b F c ph" "b = ?b" "u = []"
      using r step RLoop by (auto simp: get_size_def split: if_splits)
    then show ?thesis using wf c S R' by (auto simp: box_ok_def)
  next
    case (RCopy w n k got)
    have F: "F = fbyte ?b" "fbyte ?b + k \<le> mbx_size ?b" "k \<le> avbs ?b" "k \<le> n" "length got \<le> k"
      and read: "got = take (length got) c"
      using r RCopy by simp_all
    have sz: "fbyte ?b < mbx_size ?b" using wf F(1) by (simp add: mbx_wf_def)
    show ?thesis
    proof (cases "length got < k")
      case True
      have b: "b = ?b" "ph = RCopy w n k (got @ [bufadr ?b ! (fbyte ?b + length got)])" "u = []"
        using step RCopy True by auto
      have "length got < length c" using True F len by simp
      moreover have "bufadr ?b ! (fbyte ?b + length got) = c ! length got"
        using True F sz calculation by (simp add: c [symmetric] mbx_bytes_def)
      ultimately have "got @ [bufadr ?b ! (fbyte ?b + length got)] = take (Suc (length got)) c"
        using read by (simp add: take_Suc_conv_app_nth)
      then have "r_ok b F c ph" using b F True \<open>length got < length c\<close> by (simp add: min_absorb2)
      then show ?thesis using wf c S R' b by (auto simp: box_ok_def)
    next
      case False
      then have k: "length got = k" using F by simp
      have b: "b = ?b\<lparr>frbs := frbs ?b + k, avbs := avbs ?b - k\<rparr>" "ph = RAdvance w n k" "u = got"
        using step RCopy False by simp_all
      let ?F = "MOD_SIZE ?b (fbyte ?b + k)"
      let ?p = "drop_chunk k (box_at ?b F L)"
      have p: "mbx_bytes ?p = drop k c" "mbx_wf ?p" using drop_chunk_bytes [OF wf, of k] c F by simp_all
      have "mbx_bytes (box_at b ?F L) = mbx_bytes ?p" "mbx_wf (box_at b ?F L) = mbx_wf ?p"
        using b F by (intro mbx_same_fields; simp add: drop_chunk_def MOD_SIZE_def)+
      moreover have "s_side b L (sph s)" using b by (intro s_side_mono [OF S]) simp_all
      moreover have "r_ok b ?F (drop k c) ph" using b by (simp add: MOD_SIZE_def)
      moreover have "c = u @ drop k c" using read k b(3) by (metis append_take_drop_id)
      ultimately show ?thesis using p R' by (auto simp: box_ok_def)
    qed
  next
    case (RAdvance w n k)
    have b: "b = ?b\<lparr>fbyte := F\<rparr>" "ph = RLoop w (n - k)" "u = []" using step RAdvance r by simp_all
    have "mbx_bytes (box_at b F L) = mbx_bytes (box_at ?b F L)" "mbx_wf (box_at b F L) = mbx_wf (box_at ?b F L)"
      using b by (intro mbx_same_fields; simp)+
    moreover have "s_side b L (sph s)" using s_side_mono [OF S, of b] b by simp
    ultimately show ?thesis using wf c b R' by (auto simp: box_ok_def)
  qed (use step in simp_all)
qed

section \<open>All steps\<close>

text \<open>Entering and leaving changes neither the buffer nor the counters: only who is inside.\<close>

lemma box_same:
  assumes "box_ok s c" "cbox s' = cbox s \<or> (\<exists>w. cbox s' = (cbox s)\<lparr>waiting_task := w\<rparr>)"
    "\<And>L. s_side (cbox s) L (sph s) \<Longrightarrow> s_side (cbox s) L (sph s')"
    "\<And>F. r_side (cbox s) F c (rph s) \<Longrightarrow> r_side (cbox s) F c (rph s')"
  shows "box_ok s' c"
proof -
  let ?b = "cbox s" and ?b' = "cbox s'"
  obtain F L where wf: "mbx_wf (box_at ?b F L)" and c: "mbx_bytes (box_at ?b F L) = c"
      and S: "s_side ?b L (sph s)" and R: "r_side ?b F c (rph s)"
    using assms(1) by (auto simp: box_ok_def)
  have "mbx_bytes (box_at ?b' F L) = mbx_bytes (box_at ?b F L)" "mbx_wf (box_at ?b' F L) = mbx_wf (box_at ?b F L)"
    using assms(2) by (intro mbx_same_fields; auto)+
  moreover have "s_side ?b' L (sph s')" by (rule s_side_mono [OF assms(3) [OF S]]) (use assms(2) in auto)
  moreover have "r_side ?b' F (c @ []) (rph s')" by (rule r_side_mono [OF assms(4) [OF R]]) (use assms(2) c in auto)
  ultimately show ?thesis using wf c by (auto simp: box_ok_def)
qed

fun s_plain :: "sphase \<Rightarrow> bool" where
  "s_plain (SCopy w data k i) = False"
| "s_plain (SAdvance w data k) = False"
| "s_plain ph = True"

fun r_plain :: "rphase \<Rightarrow> bool" where
  "r_plain (RCopy w n k got) = False"
| "r_plain (RAdvance w n k) = False"
| "r_plain ph = True"

lemma s_plain_ok: "s_plain ph \<Longrightarrow> L = lbyte b \<Longrightarrow> s_ok b L ph"
  by (cases ph) simp_all

lemma r_plain_ok: "r_plain ph \<Longrightarrow> F = fbyte b \<Longrightarrow> r_ok b F c ph"
  by (cases ph) simp_all

text \<open>A sender that is not in a copy leaves, enters, waits or goes on, and so does a receiver: afterwards still no one of them is
  in a copy.\<close>

lemma s_side_plain:
  assumes "s_side b L (sph s)" "s_in (sph s t) \<and> s_plain (sph s t) \<or> senders s = {}"
    "\<And>u. s_in (ph u) \<Longrightarrow> s_plain (ph u)"
  shows "s_side b L ph"
proof -
  have "L = lbyte b"
  proof (cases "senders s = {}")
    case False
    then show ?thesis using assms(2) s_side_inside [OF assms(1), of t] by (cases "sph s t") auto
  qed (use assms(1) in \<open>auto simp: s_side_def\<close>)
  moreover have "s_ok b L (ph u)" for u
    using assms(3) [of u] s_plain_ok [of "ph u" L b] s_ok_idle [of "ph u" b L] calculation by blast
  ultimately show ?thesis by (simp add: s_side_def)
qed

lemma r_side_plain:
  assumes "r_side b F c (rph s)" "r_in (rph s t) \<and> r_plain (rph s t) \<or> receivers s = {}"
    "\<And>u. r_in (ph u) \<Longrightarrow> r_plain (ph u)"
  shows "r_side b F c ph"
proof -
  have "F = fbyte b"
  proof (cases "receivers s = {}")
    case False
    then show ?thesis using assms(2) r_side_inside [OF assms(1), of t] by (cases "rph s t") auto
  qed (use assms(1) in \<open>auto simp: r_side_def\<close>)
  moreover have "r_ok b F c (ph u)" for u
    using assms(3) [of u] r_plain_ok [of "ph u" F b c] r_ok_idle [of "ph u" b F c] calculation by blast
  ultimately show ?thesis by (simp add: r_side_def)
qed

text \<open>A change of phase of a task outside that stays outside.\<close>

lemma s_side_outside:
  "s_side b L ph \<Longrightarrow> \<not> s_in (ph t) \<Longrightarrow> \<not> s_in p \<Longrightarrow> s_side b L (ph(t := p))"
  by (auto simp: s_side_def s_ok_idle)

lemma r_side_outside:
  "r_side b F c ph \<Longrightarrow> \<not> r_in (ph t) \<Longrightarrow> \<not> r_in p \<Longrightarrow> r_side b F c (ph(t := p))"
  by (auto simp: r_side_def r_ok_idle)

lemma no_sender: "tok_ok s \<Longrightarrow> 0 < fst (ssem s) \<Longrightarrow> senders s = {}"
  by (auto simp: tok_ok_def tok_def split: if_splits)

lemma no_receiver: "tok_ok s \<Longrightarrow> 0 < fst (rsem s) \<Longrightarrow> receivers s = {}"
  by (auto simp: tok_ok_def tok_def split: if_splits)

lemma passed_plain: "s_in p \<longrightarrow> s_plain p \<Longrightarrow> s_in (s_passed p) \<longrightarrow> s_plain (s_passed p)"
    "r_in q \<longrightarrow> r_plain q \<Longrightarrow> r_in (r_passed q) \<longrightarrow> r_plain (r_passed q)"
  by (cases p; simp) (cases q; simp)

text \<open>After a sender has left, or one that is not in a copy has changed its phase, nobody is in a copy.\<close>

lemma s_side_leave:
  assumes "tok_ok s" "s_side b L (sph s)" "s_in (sph s t)" "s_plain (sph s t)"
  shows "s_side b L (pass_on ts s_passed ((sph s)(t := SOut)))" "s_plain p \<Longrightarrow> s_side b L ((sph s)(t := p))"
proof -
  have o: "u = t \<or> \<not> s_in (sph s u)" for u using only_sender [OF assms(1,3)] by blast
  have "s_in (((sph s)(t := SOut)) u) \<longrightarrow> s_plain (((sph s)(t := SOut)) u)" for u using o [of u] by auto
  then have "s_in (pass_on ts s_passed ((sph s)(t := SOut)) u) \<longrightarrow> s_plain (pass_on ts s_passed ((sph s)(t := SOut)) u)" for u
    using passed_plain(1) by (simp add: pass_on_def split: list.split)
  then show "s_side b L (pass_on ts s_passed ((sph s)(t := SOut)))" using assms by (intro s_side_plain [OF assms(2)]) blast+
  show "s_side b L ((sph s)(t := p))" if "s_plain p"
    using assms that o by (intro s_side_plain [OF assms(2), of t]) (auto split: if_splits)
qed

lemma r_side_leave:
  assumes "tok_ok s" "r_side b F c (rph s)" "r_in (rph s t)" "r_plain (rph s t)"
  shows "r_side b F c (pass_on ts r_passed ((rph s)(t := ROut)))" "r_plain p \<Longrightarrow> r_side b F c ((rph s)(t := p))"
proof -
  have o: "u = t \<or> \<not> r_in (rph s u)" for u using only_receiver [OF assms(1,3)] by blast
  have "r_in (((rph s)(t := ROut)) u) \<longrightarrow> r_plain (((rph s)(t := ROut)) u)" for u using o [of u] by auto
  then have "r_in (pass_on ts r_passed ((rph s)(t := ROut)) u) \<longrightarrow> r_plain (pass_on ts r_passed ((rph s)(t := ROut)) u)" for u
    using passed_plain(2) by (simp add: pass_on_def split: list.split)
  then show "r_side b F c (pass_on ts r_passed ((rph s)(t := ROut)))" using assms by (intro r_side_plain [OF assms(2)]) blast+
  show "r_side b F c ((rph s)(t := p))" if "r_plain p"
    using assms that o by (intro r_side_plain [OF assms(2), of t]) (auto split: if_splits)
qed

lemma s_side_enter:
  assumes "tok_ok s" "s_side b L (sph s)" "\<not> s_in (sph s t)" "0 < fst (ssem s) \<or> \<not> s_in p" "s_plain p"
  shows "s_side b L ((sph s)(t := p))"
proof (cases "s_in p")
  case True
  then have "senders s = {}" using no_sender assms by blast
  then show ?thesis using assms by (intro s_side_plain [OF assms(2), of t]) (auto split: if_splits)
qed (use assms s_side_outside in blast)

lemma r_side_enter:
  assumes "tok_ok s" "r_side b F c (rph s)" "\<not> r_in (rph s t)" "0 < fst (rsem s) \<or> \<not> r_in p" "r_plain p"
  shows "r_side b F c ((rph s)(t := p))"
proof (cases "r_in p")
  case True
  then have "receivers s = {}" using no_receiver assms by blast
  then show ?thesis using assms by (intro r_side_plain [OF assms(2), of t]) (auto split: if_splits)
qed (use assms r_side_outside in blast)

lemma box_step:
  "mstep s i u s' \<Longrightarrow> tok_ok s \<Longrightarrow> box_ok s c \<Longrightarrow> \<exists>c'. box_ok s' c' \<and> c @ i = u @ c'"
proof (induction rule: mstep.induct)
  case (put s t b ph i)
  then show ?case using box_put_step by auto
next
  case (get s t b ph u)
  then show ?case using box_get_step by auto
next
  case (send s t fifo p data)
  have "s_side b L (sph (send_enter fifo p t data s))" if "s_side b L (sph s)" for b L
    using send that by (auto simp: send_enter_def intro!: s_side_enter)
  then have "box_ok (send_enter fifo p t data s) c" by (intro box_same [OF send(3)]) (simp_all add: send_enter_def)
  then show ?case by auto
next
  case (receive s t fifo p n)
  have "r_side b F c (rph (receive_enter fifo p t n s))" if "r_side b F c (rph s)" for b F
    using receive that by (auto simp: receive_enter_def intro!: r_side_enter)
  then have "box_ok (receive_enter fifo p t n s) c" by (intro box_same [OF receive(3)]) (simp_all add: receive_enter_def)
  then show ?case by auto
next
  case (send_unqueue s t data)
  then show ?case by (auto intro!: exI [of _ c] box_same [OF send_unqueue(3)] s_side_outside)
next
  case (receive_unqueue s t n)
  then show ?case by (auto intro!: exI [of _ c] box_same [OF receive_unqueue(3)] r_side_outside)
next
  case (send_wp s t data)
  then show ?case by (auto intro!: exI [of _ c] box_same [OF send_wp(5)] s_side_enter)
next
  case (send_if s t data)
  then show ?case by (auto intro!: exI [of _ c] box_same [OF send_if(5)] s_side_enter)
next
  case (receive_wp s t n)
  then show ?case by (auto intro!: exI [of _ c] box_same [OF receive_wp(5)] r_side_enter)
next
  case (receive_if s t n)
  then show ?case by (auto intro!: exI [of _ c] box_same [OF receive_if(5)] r_side_enter)
next
  case (send_wait s t data)
  then show ?case by (auto intro!: exI [of _ c] box_same [OF send_wait(5)] s_side_leave(2))
next
  case (receive_wait s t n)
  then show ?case by (auto intro!: exI [of _ c] box_same [OF receive_wait(5)] r_side_leave(2))
next
  case (send_woken s t data)
  then show ?case by (auto intro!: exI [of _ c] box_same [OF send_woken(3)] s_side_leave(2))
next
  case (receive_woken s t n)
  then show ?case by (auto intro!: exI [of _ c] box_same [OF receive_woken(3)] r_side_leave(2))
next
  case (send_fail s t data bin)
  then show ?case by (auto intro!: exI [of _ c] box_same [OF send_fail(3)] s_side_leave(1) simp: send_leave_def)
next
  case (receive_fail s t n bin)
  then show ?case by (auto intro!: exI [of _ c] box_same [OF receive_fail(3)] r_side_leave(1) simp: receive_leave_def)
next
  case (send_end s t w data bin)
  then show ?case by (auto intro!: exI [of _ c] box_same [OF send_end(4)] s_side_leave(1) simp: send_leave_def)
next
  case (receive_end s t w n bin)
  then show ?case by (auto intro!: exI [of _ c] box_same [OF receive_end(4)] r_side_leave(1) simp: receive_leave_def)
qed

section \<open>The loops of the services\<close>

text \<open>Left alone, the small steps of \<^verbatim>\<open>mbxput\<close> and \<^verbatim>\<open>mbxget\<close> do what the loops \<open>mbxput\<close> and \<open>mbxget\<close> do at once.\<close>

inductive put_alone :: "mbx \<Rightarrow> sphase \<Rightarrow> mbx \<Rightarrow> sphase \<Rightarrow> bool" where
  stop: "put_alone m ph m ph"
| more: "put_step m ph = Some (m1, ph1, i) \<Longrightarrow> put_alone m1 ph1 m2 ph2 \<Longrightarrow> put_alone m ph m2 ph2"

inductive get_alone :: "mbx \<Rightarrow> rphase \<Rightarrow> mbx \<Rightarrow> rphase \<Rightarrow> bool" where
  stop: "get_alone m ph m ph"
| more: "get_step m ph = Some (m1, ph1, u) \<Longrightarrow> get_alone m1 ph1 m2 ph2 \<Longrightarrow> get_alone m ph m2 ph2"

lemma copy_in_next:
  "i < length data \<Longrightarrow> l + i < length buf \<Longrightarrow> (copy_in l (take i data) buf)[l + i := data ! i] = copy_in l (take (Suc i) data) buf"
  by (simp add: copy_in_def take_Suc_conv_app_nth list_update_append Cons_nth_drop_Suc [symmetric])

lemma put_alone_copy:
  assumes k: "k \<le> length data" "lbyte m + k \<le> length (bufadr m)"
    and rest: "put_alone (put_chunk (take k data) m) (SLoop w (drop k data)) m2 ph"
  shows "i \<le> k \<Longrightarrow> put_alone (m\<lparr>bufadr := copy_in (lbyte m) (take i data) (bufadr m)\<rparr>) (SCopy w data k i) m2 ph"
proof (induction "k - i" arbitrary: i)
  case 0
  let ?m = "m\<lparr>bufadr := copy_in (lbyte m) (take k data) (bufadr m)\<rparr>"
  have "put_step ?m (SCopy w data k k) = Some (?m\<lparr>frbs := frbs m - k, avbs := avbs m + k\<rparr>, SAdvance w data k, take k data)" by simp
  moreover have "put_step (?m\<lparr>frbs := frbs m - k, avbs := avbs m + k\<rparr>) (SAdvance w data k) =
      Some (put_chunk (take k data) m, SLoop w (drop k data), [])"
    using k by (simp add: put_chunk_def MOD_SIZE_def)
  moreover have "i = k" using 0 by simp
  ultimately show ?case using rest by (blast intro: put_alone.more)
next
  case (Suc d)
  then have i: "i < k" by simp
  have "put_step (m\<lparr>bufadr := copy_in (lbyte m) (take i data) (bufadr m)\<rparr>) (SCopy w data k i) =
      Some (m\<lparr>bufadr := copy_in (lbyte m) (take (Suc i) data) (bufadr m)\<rparr>, SCopy w data k (Suc i), [])"
    using i k by (simp add: copy_in_next)
  then show ?case by (rule put_alone.more) (use Suc i in \<open>simp\<close>)
qed

lemma put_alone_mbxput:
  "mbx_wf m \<Longrightarrow> mbxput m data = Some (m', rest) \<Longrightarrow> put_alone m (SLoop w data) m' (SLoop w rest)"
proof (induction "length data" arbitrary: data m rule: less_induct)
  case less
  show ?case
  proof (cases "data \<noteq> [] \<and> frbs m \<noteq> 0")
    case False
    then have "m' = m \<and> rest = data" using less.prems(2) by (subst (asm) mbxput.simps) (auto split: if_splits)
    then show ?thesis by (simp add: put_alone.stop)
  next
    case True
    let ?n = "put_size (length data) m"
    have n: "0 < ?n" "?n \<le> length data" "?n \<le> frbs m" "?n \<le> mbx_size m - lbyte m"
      using True put_size_pos [OF less.prems(1), of "length data"] by (auto simp: put_size_def)
    have "mbx_wf (put_chunk (take ?n data) m)" using put_chunk_bytes [OF less.prems(1), of "take ?n data"] n by simp
    moreover have "mbxput (put_chunk (take ?n data) m) (drop ?n data) = Some (m', rest)"
      using less.prems(2) True by (subst (asm) mbxput.simps) simp
    ultimately have r: "put_alone (put_chunk (take ?n data) m) (SLoop w (drop ?n data)) m' (SLoop w rest)"
      using less.hyps [of "drop ?n data"] n(1,2) by simp
    have "lbyte m + ?n \<le> length (bufadr m)" using n lbyte_less [OF less.prems(1)] less.prems(1) by (simp add: mbx_wf_def)
    then have "put_alone (m\<lparr>bufadr := copy_in (lbyte m) (take 0 data) (bufadr m)\<rparr>) (SCopy w data ?n 0) m' (SLoop w rest)"
      by (intro put_alone_copy [OF n(2) _ r]) simp_all
    then have "put_alone m (SCopy w data ?n 0) m' (SLoop w rest)" by (simp add: copy_in_def)
    moreover have "put_step m (SLoop w data) = Some (m, SCopy w data ?n 0, [])" using True by simp
    ultimately show ?thesis by (blast intro: put_alone.more)
  qed
qed

lemma get_alone_copy:
  assumes k: "fbyte m + k \<le> length (bufadr m)" and rest: "get_alone (drop_chunk k m) (RLoop w (n - k)) m2 ph"
  shows "i \<le> k \<Longrightarrow> get_alone m (RCopy w n k (copy_out (fbyte m) i (bufadr m))) m2 ph"
proof (induction "k - i" arbitrary: i)
  case 0
  let ?m = "m\<lparr>frbs := frbs m + k, avbs := avbs m - k\<rparr>"
  have "get_step m (RCopy w n k (copy_out (fbyte m) k (bufadr m))) = Some (?m, RAdvance w n k, copy_out (fbyte m) k (bufadr m))"
    using k by (simp add: copy_out_def)
  moreover have "get_step ?m (RAdvance w n k) = Some (drop_chunk k m, RLoop w (n - k), [])"
    by (simp add: drop_chunk_def MOD_SIZE_def)
  moreover have "i = k" using 0 by simp
  ultimately show ?case using rest by (blast intro: get_alone.more)
next
  case (Suc d)
  then have i: "i < k" by simp
  have "get_step m (RCopy w n k (copy_out (fbyte m) i (bufadr m))) =
      Some (m, RCopy w n k (copy_out (fbyte m) (Suc i) (bufadr m)), [])"
    using i k by (simp add: copy_out_def take_Suc_conv_app_nth)
  then show ?case by (rule get_alone.more) (use Suc i in simp)
qed

lemma get_alone_mbxget:
  "mbx_wf m \<Longrightarrow> mbxget m n got = Some (m', got') \<Longrightarrow>
   get_alone m (RLoop w n) m' (RLoop w (n - (length got' - length got))) \<and> length got \<le> length got'"
proof (induction n arbitrary: m got rule: less_induct)
  case (less n)
  show ?case
  proof (cases "0 < n \<and> avbs m \<noteq> 0")
    case False
    then have "m' = m \<and> got' = got" using less.prems(2) by (subst (asm) mbxget.simps) (auto split: if_splits)
    then show ?thesis by (simp add: get_alone.stop)
  next
    case True
    let ?n = "get_size n m"
    have n: "0 < ?n" "?n \<le> n" "?n \<le> avbs m" "?n \<le> mbx_size m - fbyte m"
      using True get_size_pos [OF less.prems(1), of n] by (auto simp: get_size_def)
    have sz: "fbyte m + ?n \<le> length (bufadr m)" using n less.prems(1) by (auto simp: mbx_wf_def)
    have "mbx_wf (drop_chunk ?n m)" by (rule drop_chunk_bytes(3) [OF less.prems(1) n(3,4)])
    moreover have "mbxget (drop_chunk ?n m) (n - ?n) (got @ copy_out (fbyte m) ?n (bufadr m)) = Some (m', got')"
      using less.prems(2) True by (subst (asm) mbxget.simps) simp
    moreover have "length (copy_out (fbyte m) ?n (bufadr m)) = ?n" using sz by (simp add: copy_out_def)
    ultimately have r: "get_alone (drop_chunk ?n m) (RLoop w (n - ?n)) m' (RLoop w (n - ?n - (length got' - length (got @ copy_out (fbyte m) ?n (bufadr m)))))"
        "length got + ?n \<le> length got'" and len: "length (copy_out (fbyte m) ?n (bufadr m)) = ?n"
      using less.IH [of "n - ?n" "drop_chunk ?n m" "got @ copy_out (fbyte m) ?n (bufadr m)"] n(1,2) by (auto simp del: diff_diff_left)
    have "n - ?n - (length got' - length (got @ copy_out (fbyte m) ?n (bufadr m))) = n - (length got' - length got)" using r(2) len by simp
    then have r': "get_alone (drop_chunk ?n m) (RLoop w (n - ?n)) m' (RLoop w (n - (length got' - length got)))" using r(1) by simp
    have "get_alone m (RCopy w n ?n (copy_out (fbyte m) 0 (bufadr m))) m' (RLoop w (n - (length got' - length got)))"
      by (rule get_alone_copy [OF sz r']) simp
    moreover have "get_step m (RLoop w n) = Some (m, RCopy w n ?n (copy_out (fbyte m) 0 (bufadr m)), [])"
      using True by (simp add: copy_out_def)
    ultimately show ?thesis using r(2) by (metis add_leD1 get_alone.more)
  qed
qed

section \<open>The order of the bytes\<close>

text \<open>C7. Whatever tasks send and receive through a mailbox, with their copies interleaved byte by byte, the bytes leave it in
  the order in which they entered: what it held at rest followed by the bytes handed in is the bytes handed out
  followed by what it holds, as many as its counter says; a receiver in the middle of a chunk has read the next bytes
  due; when no task stands between the update of its counters and that of its index, the buffer is consistent and holds just these
  bytes. There is never more than one sender nor more than one receiver inside, so messages do not mix. The services are
  the sends and receives with their conditional, \<^verbatim>\<open>_wp\<close> and timed variants; the overwriting send, the deletion of
  the mailbox and mailboxes made with resource semaphores are not covered.\<close>

theorem mbx_delivers_in_order:
  assumes run: "mrun (mbx_at_rest b) ins outs s" and wf: "mbx_wf b"
  shows "\<exists>held. mbx_bytes b @ ins = outs @ held \<and> length held = avbs (cbox s) \<and>
    (\<forall>t w n k got. rph s t = RCopy w n k got \<longrightarrow> got = take (length got) held) \<and>
    ((\<forall>t w data k. sph s t \<noteq> SAdvance w data k) \<and> (\<forall>t w n k. rph s t \<noteq> RAdvance w n k) \<longrightarrow>
       mbx_wf (cbox s) \<and> mbx_bytes (cbox s) = held) \<and>
    (\<forall>t u. s_in (sph s t) \<and> s_in (sph s u) \<longrightarrow> t = u) \<and> (\<forall>t u. r_in (rph s t) \<and> r_in (rph s u) \<longrightarrow> t = u)"
proof -
  have "tok_ok s \<and> (\<exists>held. box_ok s held \<and> mbx_bytes b @ ins = outs @ held)"
    using run wf
  proof (induction "mbx_at_rest b" ins outs s rule: mrun.induct)
    case start
    have "box_at b (fbyte b) (lbyte b) = b" by (simp add: box_at_def)
    then show ?case using start
      by (auto simp: mbx_at_rest_def tok_ok_def tok_def box_ok_def s_side_def r_side_def intro!: exI [of _ "fbyte b"] exI [of _ "lbyte b"])
  next
    case (step ins outs s1 i u s2)
    then obtain held where h: "tok_ok s1" "box_ok s1 held" "mbx_bytes b @ ins = outs @ held" by blast
    then obtain c' where "box_ok s2 c'" "held @ i = u @ c'" using box_step [OF step(3)] by blast
    then show ?case using h tok_step [OF step(3)] by (metis append.assoc)
  qed
  then obtain held F L where tok: "tok_ok s" and h: "mbx_bytes b @ ins = outs @ held"
      and box: "mbx_wf (box_at (cbox s) F L)" "mbx_bytes (box_at (cbox s) F L) = held"
        "s_side (cbox s) L (sph s)" "r_side (cbox s) F held (rph s)"
    by (auto simp: box_ok_def)
  have "length held = avbs (cbox s)" using box(2) by auto
  moreover have "got = take (length got) held" if "rph s t = RCopy w n k got" for t w n k got
    using r_side_inside [OF box(4), of t] that by simp
  moreover have "mbx_wf (cbox s) \<and> mbx_bytes (cbox s) = held"
    if sa: "\<forall>t w data k. sph s t \<noteq> SAdvance w data k" and ra: "\<forall>t w n k. rph s t \<noteq> RAdvance w n k"
  proof -
    have "L = lbyte (cbox s)" if "s_in (sph s t)" for t
      using s_side_inside [OF box(3), of t] that sa by (cases "sph s t") auto
    moreover have "F = fbyte (cbox s)" if "r_in (rph s t)" for t
      using r_side_inside [OF box(4), of t] that ra by (cases "rph s t") auto
    ultimately have "L = lbyte (cbox s)" "F = fbyte (cbox s)" using box(3,4) by (auto simp: s_side_def r_side_def)
    then show ?thesis using box(1,2) by (simp add: box_at_def)
  qed
  ultimately show ?thesis using h only_sender [OF tok] only_receiver [OF tok] by blast
qed

text \<open>A mailbox of one byte. Task 2 sends, and before it has moved its index Task 3 has received the byte.\<close>

definition demo_one :: mbx where
  "demo_one = \<lparr>mbx_magic = RT_MBX_MAGIC, sndsem = 8, rcvsem = 9, waiting_task = None, bufadr = [0],
     mbx_size = 1, fbyte = 0, lbyte = 0, avbs = 0, frbs = 1\<rparr>"

definition demo_st :: "mbx \<Rightarrow> sphase \<Rightarrow> rphase \<Rightarrow> mconc" where
  "demo_st b q r = \<lparr>cbox = b, ssem = (0, []), rsem = (0, []), sph = (\<lambda>_. SOut)(Task 2 := q), rph = (\<lambda>_. ROut)(Task 3 := r)\<rparr>"

lemma demo_put:
  assumes "mrun s0 ins outs (demo_st b q r)" "put_step b q = Some (b', q', i)"
  shows "mrun s0 (ins @ i) outs (demo_st b' q' r)"
  using mrun.step [OF assms(1) mstep.put [of _ "Task 2" b' q' i]] assms(2) by (simp add: demo_st_def)

lemma demo_get:
  assumes "mrun s0 ins outs (demo_st b q r)" "get_step b r = Some (b', r', u)"
  shows "mrun s0 ins (outs @ u) (demo_st b' q r')"
  using mrun.step [OF assms(1) mstep.get [of _ "Task 3" b' r' u]] assms(2) by (simp add: demo_st_def)

lemma demo_crossed_run:
  "mrun (mbx_at_rest demo_one) [7] [7] (demo_st (demo_one\<lparr>bufadr := [7]\<rparr>) (SAdvance True [7] 1) (RLoop True 0))"
proof -
  let ?s0 = "mbx_at_rest demo_one"
  let ?s1 = "send_enter True (\<lambda>_. 0) (Task 2) [7] ?s0"
  let ?s2 = "receive_enter True (\<lambda>_. 0) (Task 3) 1 ?s1"
  have s1: "mrun ?s0 [] [] ?s1" using mrun.step [OF mrun.start mstep.send [of ?s0 "Task 2"]] by (simp add: mbx_at_rest_def)
  have s2: "mrun ?s0 [] [] ?s2"
    using mrun.step [OF s1 mstep.receive [of ?s1 "Task 3"]] by (simp add: mbx_at_rest_def send_enter_def)
  have "?s2 = demo_st demo_one (SLoop True [7]) (RLoop True 1)"
    by (simp add: mbx_at_rest_def send_enter_def receive_enter_def demo_st_def)
  then have a: "mrun ?s0 [] [] (demo_st demo_one (SLoop True [7]) (RLoop True 1))" using s2 by simp
  let ?b = "demo_one\<lparr>bufadr := [7]\<rparr>"
  let ?f = "?b\<lparr>frbs := 0, avbs := 1\<rparr>"
  have p: "put_step demo_one (SLoop True [7]) = Some (demo_one, SCopy True [7] 1 0, [])"
    "put_step demo_one (SCopy True [7] 1 0) = Some (?b, SCopy True [7] 1 1, [])"
    "put_step ?b (SCopy True [7] 1 1) = Some (?f, SAdvance True [7] 1, [7])"
    by (simp_all add: demo_one_def put_size_def)
  have g: "get_step ?f (RLoop True 1) = Some (?f, RCopy True 1 1 [], [])"
    "get_step ?f (RCopy True 1 1 []) = Some (?f, RCopy True 1 1 [7], [])"
    "get_step ?f (RCopy True 1 1 [7]) = Some (?b, RAdvance True 1 1, [7])"
    "get_step ?b (RAdvance True 1 1) = Some (?b, RLoop True 0, [])"
    by (simp_all add: demo_one_def get_size_def MOD_SIZE_def)
  show ?thesis
    using demo_get [OF demo_get [OF demo_get [OF demo_get [OF demo_put [OF demo_put [OF demo_put [OF a p(1)] p(2)] p(3)] g(1)] g(2)] g(3)] g(4)]
    by simp
qed

theorem mbx_delivers_in_order_witness:
  "\<exists>held. mbx_bytes demo_one @ [7] = [7] @ held \<and> length held = 0"
proof -
  let ?s = "demo_st (demo_one\<lparr>bufadr := [7]\<rparr>) (SAdvance True [7] 1) (RLoop True 0)"
  have "mbx_wf demo_one" by (simp add: mbx_wf_def demo_one_def)
  then obtain held where h: "mbx_bytes demo_one @ [7] = [7] @ held" "length held = avbs (cbox ?s)"
    using mbx_delivers_in_order [OF demo_crossed_run] by blast
  have "avbs (cbox ?s) = 0" by (simp add: demo_st_def demo_one_def)
  then show ?thesis using h by metis
qed

end
