(* ===== verification/Msg.thy ===== *)
theory Msg
  imports Sem_Spec
begin

text \<open>
  Intertask messages (\<^verbatim>\<open>src/ipc/msg/msg.c\<close>): sends, remote procedure calls, returns,
  receives, their extended variants and proxies. A message is handed over directly when the
  receiver waits for it, otherwise the sender queues up at the receiver. A task that made a
  remote procedure call stays in the receiver's return queue until the return. A service that
  may be switched away from is cut there: the function of the same name with \<open>_resume\<close> is
  what its task \<open>t\<close> does when it goes on. The field \<^verbatim>\<open>prio_passed_to\<close>, which these services
  clear and nothing reads, is left out.
\<close>

text \<open>The pointer a service returns: a task, an error code, null.\<close>

datatype mtask = MTask tid | MErr int | MNull

section \<open>Sending\<close>

text \<open>The receiver waits for anyone, or for the sender.\<close>

definition accepts :: "tid \<Rightarrow> tid \<Rightarrow> kst \<Rightarrow> bool" where
  "accepts t cur s \<longleftrightarrow> state (tasks s t) AND RT_SCHED_RECEIVE \<noteq> 0 \<and>
     (msg_queue_task (tasks s t) = None \<or> msg_queue_task (tasks s t) = Some cur)"

definition hand_over :: "nat \<Rightarrow> int \<Rightarrow> tid \<Rightarrow> tid \<Rightarrow> kst \<Rightarrow> kst \<times> bool" where
  "hand_over cpuid m t cur s =
     release (RT_SCHED_RECEIVE OR RT_SCHED_DELAYED) cpuid t
       (rem_timed_task t
          (upd_task t (\<lambda>k. k\<lparr>msg := m, msg_queue_task := Some cur, ret_queue_task := BNull\<rparr>) s))"

text \<open>\<^verbatim>\<open>msg_not_sent\<close>: the sender \<open>t\<close> is back without its message delivered to \<open>task\<close>.\<close>

definition msg_not_sent :: "nat \<Rightarrow> tid \<Rightarrow> tid \<Rightarrow> kst \<Rightarrow> kst \<times> mtask" where
  "msg_not_sent cpuid t task s =
     (let retp = blocked_on (tasks s t);
          (s1, r) = (if retp \<noteq> BErr RT_OBJREM
                     then (dequeue_blocked t (fst (set_task_prio_from_resq cpuid task s)),
                           MErr (if blk_is_adr retp then RTE_TIMOUT else RTE_UNBLKD))
                     else (s, MErr RTE_OBJREM))
      in (upd_task t (\<lambda>k. k\<lparr>msg_queue_task := Some t\<rparr>) s1, r))"

definition rt_send_resume :: "nat \<Rightarrow> tid \<Rightarrow> tid \<Rightarrow> kst \<Rightarrow> kst \<times> mtask" where
  "rt_send_resume cpuid t task s =
     (if msg_queue_task (tasks s t) \<noteq> Some t then msg_not_sent cpuid t task s else (s, MTask task))"

text \<open>\<^verbatim>\<open>rt_send\<close> up to its switching point; \<open>Some\<close> is an early return.\<close>

definition rt_send :: "nat \<Rightarrow> tid \<Rightarrow> int \<Rightarrow> kst \<Rightarrow> kst \<times> mtask option" where
  "rt_send cpuid task m s =
     (let cur = RT_CURRENT cpuid s in
      if task_magic (tasks s task) \<noteq> RT_TASK_MAGIC then (s, Some (MErr RTE_OBJINV))
      else if accepts task cur s then
        (case hand_over cpuid m task cur s of
           (s1, w) \<Rightarrow> (if w then RT_SCHEDULE task cpuid s1 else s1, None))
      else
        (rt_schedule cpuid (rem_ready_current cur (fst (pass_prio cpuid (Some task) cur
           (upd_task cur (\<lambda>k. k\<lparr>state := state k OR RT_SCHED_SEND\<rparr>)
              (enqueue_blocked cur (MsgQ task) 0
                 (upd_task cur (\<lambda>k. k\<lparr>msg := m, msg_queue_task := Some task\<rparr>) s)))))), None))"

definition rt_send_if_resume :: "tid \<Rightarrow> tid \<Rightarrow> kst \<Rightarrow> kst \<times> mtask" where
  "rt_send_if_resume t task s =
     (if msg_queue_task (tasks s t) \<noteq> Some t
      then (upd_task t (\<lambda>k. k\<lparr>msg_queue_task := Some t\<rparr>) s, MNull) else (s, MTask task))"

definition rt_send_if :: "nat \<Rightarrow> tid \<Rightarrow> int \<Rightarrow> kst \<Rightarrow> kst \<times> mtask option" where
  "rt_send_if cpuid task m s =
     (let cur = RT_CURRENT cpuid s in
      if task_magic (tasks s task) \<noteq> RT_TASK_MAGIC then (s, Some (MErr RTE_OBJINV))
      else if accepts task cur s then
        (case hand_over cpuid m task cur s of
           (s1, w) \<Rightarrow> (if w then RT_SCHEDULE task cpuid s1 else s1, None))
      else (s, Some MNull))"

text \<open>\<^verbatim>\<open>rt_send_until\<close>: with a time already past the caller does not queue, but goes on as if
  its wait had ended.\<close>

definition rt_send_until :: "nat \<Rightarrow> tid \<Rightarrow> int \<Rightarrow> int \<Rightarrow> kst \<Rightarrow> kst \<times> mtask option" where
  "rt_send_until cpuid task m time s =
     (let cur = RT_CURRENT cpuid s in
      if task_magic (tasks s task) \<noteq> RT_TASK_MAGIC then (s, Some (MErr RTE_OBJINV))
      else if accepts task cur s then
        (case hand_over cpuid m task cur s of
           (s1, w) \<Rightarrow> (if w then RT_SCHEDULE task cpuid s1 else s1, None))
      else
        (let s1 = upd_task cur (\<lambda>k. k\<lparr>msg_queue_task := Some task, resume_time := time\<rparr>) s in
         (if time > rt_smp_time_h s1 cpuid then
            rt_schedule cpuid (enq_timed_task cur (rem_ready_current cur (fst (pass_prio cpuid (Some task) cur
              (upd_task cur (\<lambda>k. k\<lparr>state := state k OR (RT_SCHED_SEND OR RT_SCHED_DELAYED)\<rparr>)
                 (enqueue_blocked cur (MsgQ task) 0 (upd_task cur (\<lambda>k. k\<lparr>msg := m\<rparr>) s1)))))))
          else s1, None)))"

definition rt_send_timed :: "nat \<Rightarrow> tid \<Rightarrow> int \<Rightarrow> int \<Rightarrow> kst \<Rightarrow> kst \<times> mtask option" where
  "rt_send_timed cpuid task m delay s = rt_send_until cpuid task m (rt_get_time s + delay) s"

section \<open>Remote procedure calls\<close>

text \<open>The caller enters the return queue of a receiver that waits, or the message queue.\<close>

definition rpc_enqueue :: "nat \<Rightarrow> u32 \<Rightarrow> tid \<Rightarrow> int \<Rightarrow> kst \<Rightarrow> kst" where
  "rpc_enqueue cpuid delayed task to_do s =
     (let cur = RT_CURRENT cpuid s; s0 = upd_task cur (\<lambda>k. k\<lparr>msg := to_do\<rparr>) s in
      if accepts task cur s then
        upd_task cur (\<lambda>k. k\<lparr>state := state k OR (RT_SCHED_RETURN OR delayed)\<rparr>)
          (enqueue_blocked cur (RetQ task) 0 (fst (hand_over cpuid to_do task cur s0)))
      else
        upd_task cur (\<lambda>k. k\<lparr>state := state k OR (RT_SCHED_RPC OR delayed)\<rparr>)
          (enqueue_blocked cur (MsgQ task) 0 s0))"

definition rpc_leave :: "nat \<Rightarrow> tid \<Rightarrow> tid \<Rightarrow> kst \<Rightarrow> kst" where
  "rpc_leave cpuid cur task s =
     upd_task cur (\<lambda>k. k\<lparr>msg_queue_task := Some task\<rparr>)
       (rem_ready_current cur (fst (pass_prio cpuid (Some task) cur s)))"

definition rt_rpc :: "nat \<Rightarrow> tid \<Rightarrow> int \<Rightarrow> kst \<Rightarrow> kst \<times> mtask option" where
  "rt_rpc cpuid task to_do s =
     (let cur = RT_CURRENT cpuid s in
      if task_magic (tasks s task) \<noteq> RT_TASK_MAGIC then (s, Some (MErr RTE_OBJINV))
      else (RT_SCHEDULE_BOTH task cpuid (rpc_leave cpuid cur task (rpc_enqueue cpuid 0 task to_do s)), None))"

text \<open>The end of a call: the result, or an error.\<close>

definition rt_rpc_resume :: "nat \<Rightarrow> tid \<Rightarrow> tid \<Rightarrow> kst \<Rightarrow> kst \<times> mtask \<times> int option" where
  "rt_rpc_resume cpuid t task s =
     (if msg_queue_task (tasks s t) = Some t then (s, MTask task, Some (msg (tasks s t)))
      else (case msg_not_sent cpuid t task s of (s1, r) \<Rightarrow> (s1, r, None)))"

definition rt_rpc_if :: "nat \<Rightarrow> tid \<Rightarrow> int \<Rightarrow> kst \<Rightarrow> kst \<times> mtask option" where
  "rt_rpc_if cpuid task to_do s =
     (let cur = RT_CURRENT cpuid s in
      if task_magic (tasks s task) \<noteq> RT_TASK_MAGIC then (s, Some (MErr RTE_OBJINV))
      else if accepts task cur s then
        (RT_SCHEDULE_BOTH task cpuid (rpc_leave cpuid cur task (rpc_enqueue cpuid 0 task to_do s)), None)
      else (s, Some MNull))"

definition rt_rpc_until :: "nat \<Rightarrow> tid \<Rightarrow> int \<Rightarrow> int \<Rightarrow> kst \<Rightarrow> kst \<times> mtask option" where
  "rt_rpc_until cpuid task to_do time s =
     (let cur = RT_CURRENT cpuid s in
      if task_magic (tasks s task) \<noteq> RT_TASK_MAGIC then (s, Some (MErr RTE_OBJINV))
      else
        (let s1 = upd_task cur (\<lambda>k. k\<lparr>resume_time := time\<rparr>) s in
         if time \<le> rt_smp_time_h s1 cpuid then (s1, Some MNull)
         else (RT_SCHEDULE_BOTH task cpuid (enq_timed_task cur
                 (rpc_leave cpuid cur task (rpc_enqueue cpuid RT_SCHED_DELAYED task to_do s1))), None)))"

definition rt_rpc_timed :: "nat \<Rightarrow> tid \<Rightarrow> int \<Rightarrow> int \<Rightarrow> kst \<Rightarrow> kst \<times> mtask option" where
  "rt_rpc_timed cpuid task to_do delay s = rt_rpc_until cpuid task to_do (rt_get_time s + delay) s"

definition rt_isrpc :: "tid \<Rightarrow> kst \<Rightarrow> u32" where
  "rt_isrpc task s = state (tasks s task) AND RT_SCHED_RETURN"

section \<open>Returning\<close>

definition do_return :: "nat \<Rightarrow> tid \<Rightarrow> tid \<Rightarrow> int \<Rightarrow> kst \<Rightarrow> kst" where
  "do_return cpuid cur task res s =
     (let (s1, sched) = set_task_prio_from_resq cpuid cur (dequeue_blocked task s);
          (s2, w) = release (RT_SCHED_RETURN OR RT_SCHED_DELAYED) cpuid task
                      (rem_timed_task task (upd_task task (\<lambda>k. k\<lparr>msg := res, msg_queue_task := Some task\<rparr>) s1))
      in if w then (if sched then RT_SCHEDULE_BOTH task cpuid s2 else RT_SCHEDULE task cpuid s2)
         else if sched then rt_schedule cpuid s2 else s2)"

definition awaits_return :: "tid \<Rightarrow> tid \<Rightarrow> kst \<Rightarrow> bool" where
  "awaits_return task cur s \<longleftrightarrow>
     state (tasks s task) AND RT_SCHED_RETURN \<noteq> 0 \<and> msg_queue_task (tasks s task) = Some cur"

definition rt_return :: "nat \<Rightarrow> tid \<Rightarrow> int \<Rightarrow> kst \<Rightarrow> kst \<times> mtask" where
  "rt_return cpuid task res s =
     (let cur = RT_CURRENT cpuid s in
      if task_magic (tasks s task) \<noteq> RT_TASK_MAGIC then (s, MErr RTE_OBJINV)
      else if awaits_return task cur s then (do_return cpuid cur task res s, MTask task)
      else (s, MNull))"

section \<open>Receiving\<close>

text \<open>Whom to receive from: the task named, else \<^verbatim>\<open>(rt_current->msg_queue.next)->task\<close>, the first
  task of the queue, which for an empty queue is what the head itself holds.\<close>

definition msg_from :: "tid option \<Rightarrow> tid \<Rightarrow> kst \<Rightarrow> tid option" where
  "msg_from task cur s =
     (case task of Some t \<Rightarrow> Some t
      | None \<Rightarrow> (case qring s (MsgQ cur) of t # _ \<Rightarrow> Some t | [] \<Rightarrow> msg_queue_task (tasks s cur)))"

definition has_message :: "tid \<Rightarrow> tid \<Rightarrow> kst \<Rightarrow> bool" where
  "has_message t cur s \<longleftrightarrow>
     state (tasks s t) AND (RT_SCHED_SEND OR RT_SCHED_RPC) \<noteq> 0 \<and> msg_queue_task (tasks s t) = Some cur"

definition bad_receiver :: "tid option \<Rightarrow> kst \<Rightarrow> bool" where
  "bad_receiver task s \<longleftrightarrow> (case task of None \<Rightarrow> False | Some t \<Rightarrow> task_magic (tasks s t) \<noteq> RT_TASK_MAGIC)"

text \<open>\<^verbatim>\<open>rt_evdrp\<close> looks at the message without receiving it. \<open>None\<close> is an access through a null
  task, here and below.\<close>

definition rt_evdrp :: "nat \<Rightarrow> tid option \<Rightarrow> kst \<Rightarrow> (mtask \<times> int option) option" where
  "rt_evdrp cpuid task s =
     (let cur = RT_CURRENT cpuid s in
      if bad_receiver task s then Some (MErr RTE_OBJINV, None)
      else (case msg_from task cur s of None \<Rightarrow> None
            | Some t \<Rightarrow> Some (if has_message t cur s then (MTask t, Some (msg (tasks s t))) else (MNull, None))))"

text \<open>Taking the message of a queued sender: a plain send is over, a call goes to the return
  queue.\<close>

definition take_message :: "nat \<Rightarrow> tid \<Rightarrow> tid \<Rightarrow> kst \<Rightarrow> kst" where
  "take_message cpuid t cur s =
     (let s1 = upd_task cur (\<lambda>k. k\<lparr>msg_queue_task := Some t\<rparr>) (rem_timed_task t (dequeue_blocked t s)) in
      if state (tasks s1 t) AND RT_SCHED_SEND \<noteq> 0 then
        (let (s2, sched) = set_task_prio_from_resq cpuid cur (upd_task t (\<lambda>k. k\<lparr>msg_queue_task := Some t\<rparr>) s1);
             (s3, w) = release (RT_SCHED_SEND OR RT_SCHED_DELAYED) cpuid t s2
         in if w then (if sched then RT_SCHEDULE_BOTH t cpuid s3 else RT_SCHEDULE t cpuid s3) else s3)
      else if state (tasks s1 t) AND RT_SCHED_RPC \<noteq> 0 then
        upd_task t (\<lambda>k. k\<lparr>state := (state k AND NOT (RT_SCHED_RPC OR RT_SCHED_DELAYED)) OR RT_SCHED_RETURN\<rparr>)
          (enqueue_blocked t (RetQ cur) 0 s1)
      else s1)"

abbreviation (input) RTP_HIGERR :: blk where "RTP_HIGERR \<equiv> BErr 11"

text \<open>Waiting for a message: of one task, or of anyone.\<close>

definition await_message :: "u32 \<Rightarrow> tid \<Rightarrow> tid \<Rightarrow> kst \<Rightarrow> kst" where
  "await_message delayed t cur s =
     upd_task cur (\<lambda>k. k\<lparr>msg_queue_task := (if t \<noteq> cur then Some t else None)\<rparr>)
       (rem_ready_current cur (upd_task cur (\<lambda>k. k\<lparr>state := state k OR (RT_SCHED_RECEIVE OR delayed)\<rparr>) s))"

text \<open>The first part of \<^verbatim>\<open>rt_receive\<close>, with the message when it was taken from a queued sender;
  and the end, where \<open>m\<close> is that message.\<close>

datatype received = Early mtask | Taken int | Awaited

definition rt_receive :: "nat \<Rightarrow> tid option \<Rightarrow> kst \<Rightarrow> (kst \<times> received) option" where
  "rt_receive cpuid task s =
     (let cur = RT_CURRENT cpuid s in
      if bad_receiver task s then Some (s, Early (MErr RTE_OBJINV))
      else (case msg_from task cur s of None \<Rightarrow> None
            | Some t \<Rightarrow>
                Some (if has_message t cur s then (take_message cpuid t cur s, Taken (msg (tasks s t)))
                      else (rt_schedule cpuid (await_message 0 t cur
                              (upd_task cur (\<lambda>k. k\<lparr>ret_queue_task := RTP_HIGERR\<rparr>) s)), Awaited))))"

definition rt_receive_resume :: "tid \<Rightarrow> received \<Rightarrow> kst \<Rightarrow> kst \<times> mtask \<times> int option" where
  "rt_receive_resume t how s =
     (let m = (case how of Taken m \<Rightarrow> Some m | Awaited \<Rightarrow> Some (msg (tasks s t)) | Early _ \<Rightarrow> None);
          (s1, r) = (if ret_queue_task (tasks s t) \<noteq> BNull
                     then (upd_task t (\<lambda>k. k\<lparr>ret_queue_task := BNull\<rparr>) s,
                           MErr (if blocked_on (tasks s t) \<noteq> BErr RT_UNBLKD then RTE_TIMOUT else RTE_UNBLKD))
                     else (s, case msg_queue_task (tasks s t) of Some u \<Rightarrow> MTask u | None \<Rightarrow> MNull))
      in (upd_task t (\<lambda>k. k\<lparr>msg_queue_task := Some t\<rparr>) s1, r, m))"

text \<open>A message that came through a proxy is returned at once.\<close>

definition proxy_reply :: "nat \<Rightarrow> mtask \<Rightarrow> kst \<Rightarrow> kst" where
  "proxy_reply cpuid r s =
     (case r of MTask u \<Rightarrow> if proxy_receiver (tasks s u) = Some (RT_CURRENT cpuid s)
                           then fst (rt_return cpuid u 0 s) else s
      | _ \<Rightarrow> s)"

definition rt_receive_if :: "nat \<Rightarrow> tid option \<Rightarrow> kst \<Rightarrow> (kst \<times> received) option" where
  "rt_receive_if cpuid task s =
     (let cur = RT_CURRENT cpuid s in
      if bad_receiver task s then Some (s, Early (MErr RTE_OBJINV))
      else (case msg_from task cur s of None \<Rightarrow> None
            | Some t \<Rightarrow>
                Some (if has_message t cur s then (take_message cpuid t cur s, Taken (msg (tasks s t)))
                      else (s, Early MNull))))"

definition rt_receive_if_resume :: "tid \<Rightarrow> int \<Rightarrow> kst \<Rightarrow> kst \<times> mtask \<times> int option" where
  "rt_receive_if_resume t m s =
     (let (s1, r) = (if ret_queue_task (tasks s t) \<noteq> BNull
                     then (upd_task t (\<lambda>k. k\<lparr>ret_queue_task := BNull\<rparr>) s, MNull)
                     else (s, case msg_queue_task (tasks s t) of Some u \<Rightarrow> MTask u | None \<Rightarrow> MNull))
      in (upd_task t (\<lambda>k. k\<lparr>msg_queue_task := Some t\<rparr>) s1, r, Some m))"

text \<open>\<^verbatim>\<open>rt_receive_until\<close>: with a time already past it does not wait and reads no message.\<close>

definition rt_receive_until :: "nat \<Rightarrow> tid option \<Rightarrow> int \<Rightarrow> kst \<Rightarrow> (kst \<times> received \<times> bool) option" where
  "rt_receive_until cpuid task time s =
     (let cur = RT_CURRENT cpuid s in
      if bad_receiver task s then Some (s, Early (MErr RTE_OBJINV), False)
      else (case msg_from task cur s of None \<Rightarrow> None
            | Some t \<Rightarrow>
                Some (if has_message t cur s then (take_message cpuid t cur s, Taken (msg (tasks s t)), True)
                      else
                        (let s1 = upd_task cur (\<lambda>k. k\<lparr>ret_queue_task := RTP_HIGERR, resume_time := time\<rparr>) s in
                         if time > rt_smp_time_h s1 cpuid
                         then (rt_schedule cpuid (enq_timed_task cur (await_message RT_SCHED_DELAYED t cur s1)), Awaited, True)
                         else (s1, Awaited, False)))))"

text \<open>Its end; \<open>rd\<close> says whether the message was read.\<close>

definition rt_receive_until_resume :: "tid \<Rightarrow> received \<Rightarrow> bool \<Rightarrow> kst \<Rightarrow> kst \<times> mtask \<times> int option" where
  "rt_receive_until_resume t how rd s =
     (case rt_receive_resume t how s of (s1, r, m) \<Rightarrow> (s1, r, if rd then m else None))"

definition rt_receive_timed :: "nat \<Rightarrow> tid option \<Rightarrow> int \<Rightarrow> kst \<Rightarrow> (kst \<times> received \<times> bool) option" where
  "rt_receive_timed cpuid task delay s = rt_receive_until cpuid task (rt_get_time s + delay) s"


section \<open>Extended messages\<close>

text \<open>
  The message is the address of a control block in the sender's memory; \<open>mcbs\<close> maps these
  addresses to their contents. A null task is \<open>None\<close>; sizes are not negative.
\<close>

definition SET_RPC_MCB :: "int \<Rightarrow> byte list \<Rightarrow> int \<Rightarrow> byte list option \<Rightarrow> int \<Rightarrow> kst \<Rightarrow> kst" where
  "SET_RPC_MCB adr smsg ssize rmsg rsize s =
     s\<lparr>mcbs := (mcbs s)(adr := \<lparr>sbuf = smsg, sbytes = ssize, rbuf = rmsg, rbytes = rsize\<rparr>)\<rparr>"

definition rt_rpcx :: "nat \<Rightarrow> tid option \<Rightarrow> int \<Rightarrow> byte list \<Rightarrow> int \<Rightarrow> byte list option \<Rightarrow> int \<Rightarrow> kst \<Rightarrow> kst \<times> mtask option" where
  "rt_rpcx cpuid task adr smsg ssize rmsg rsize s =
     (case task of None \<Rightarrow> (s, Some MNull)
      | Some t \<Rightarrow> rt_rpc cpuid t adr (SET_RPC_MCB adr smsg ssize rmsg rsize s))"

definition rt_rpcx_if :: "nat \<Rightarrow> tid option \<Rightarrow> int \<Rightarrow> byte list \<Rightarrow> int \<Rightarrow> byte list option \<Rightarrow> int \<Rightarrow> kst \<Rightarrow> kst \<times> mtask option" where
  "rt_rpcx_if cpuid task adr smsg ssize rmsg rsize s =
     (case task of None \<Rightarrow> (s, Some MNull)
      | Some t \<Rightarrow> rt_rpc_if cpuid t adr (SET_RPC_MCB adr smsg ssize rmsg rsize s))"

definition rt_rpcx_until :: "nat \<Rightarrow> tid option \<Rightarrow> int \<Rightarrow> byte list \<Rightarrow> int \<Rightarrow> byte list option \<Rightarrow> int \<Rightarrow> int \<Rightarrow> kst \<Rightarrow> kst \<times> mtask option" where
  "rt_rpcx_until cpuid task adr smsg ssize rmsg rsize time s =
     (case task of None \<Rightarrow> (s, Some MNull)
      | Some t \<Rightarrow> rt_rpc_until cpuid t adr time (SET_RPC_MCB adr smsg ssize rmsg rsize s))"

definition rt_rpcx_timed :: "nat \<Rightarrow> tid option \<Rightarrow> int \<Rightarrow> byte list \<Rightarrow> int \<Rightarrow> byte list option \<Rightarrow> int \<Rightarrow> int \<Rightarrow> kst \<Rightarrow> kst \<times> mtask option" where
  "rt_rpcx_timed cpuid task adr smsg ssize rmsg rsize delay s =
     (case task of None \<Rightarrow> (s, Some MNull)
      | Some t \<Rightarrow> rt_rpc_timed cpuid t adr delay (SET_RPC_MCB adr smsg ssize rmsg rsize s))"

text \<open>\<^verbatim>\<open>SEND_RCV_BYTES\<close>, stored in an int\<close>

abbreviation (input) SEND_RCV_BYTES :: int where "SEND_RCV_BYTES \<equiv> -1"

definition rt_sendx :: "nat \<Rightarrow> tid option \<Rightarrow> int \<Rightarrow> byte list \<Rightarrow> int \<Rightarrow> kst \<Rightarrow> kst \<times> mtask option" where
  "rt_sendx cpuid task adr data sz s = rt_rpcx cpuid task adr data sz None SEND_RCV_BYTES s"

definition rt_sendx_until :: "nat \<Rightarrow> tid option \<Rightarrow> int \<Rightarrow> byte list \<Rightarrow> int \<Rightarrow> int \<Rightarrow> kst \<Rightarrow> kst \<times> mtask option" where
  "rt_sendx_until cpuid task adr data sz time s = rt_rpcx_until cpuid task adr data sz None SEND_RCV_BYTES time s"

definition rt_sendx_timed :: "nat \<Rightarrow> tid option \<Rightarrow> int \<Rightarrow> byte list \<Rightarrow> int \<Rightarrow> int \<Rightarrow> kst \<Rightarrow> kst \<times> mtask option" where
  "rt_sendx_timed cpuid task adr data sz delay s = rt_rpcx_timed cpuid task adr data sz None SEND_RCV_BYTES delay s"

text \<open>\<^verbatim>\<open>rt_sendx_if\<close> uses the control block inside the receiver, at \<open>adr\<close>.\<close>

definition rt_sendx_if :: "nat \<Rightarrow> tid \<Rightarrow> int \<Rightarrow> byte list \<Rightarrow> int \<Rightarrow> kst \<Rightarrow> kst \<times> mtask option" where
  "rt_sendx_if cpuid task adr data sz s =
     (let cur = RT_CURRENT cpuid s in
      if task_magic (tasks s task) \<noteq> RT_TASK_MAGIC then (s, Some (MErr RTE_OBJINV))
      else if accepts task cur s then
        (case hand_over cpuid adr task cur
                (s\<lparr>mcbs := (mcbs s)(adr := (mcbs s adr)\<lparr>sbuf := data, sbytes := sz\<rparr>)\<rparr>) of
           (s1, w) \<Rightarrow> (if w then RT_SCHEDULE task cpuid s1 else s1, None))
      else (s, Some MNull))"

text \<open>\<^verbatim>\<open>rt_returnx\<close> copies the reply, cut to the caller's size; \<open>None\<close> is a copy to a null
  buffer.\<close>

definition rt_returnx :: "nat \<Rightarrow> tid \<Rightarrow> byte list option \<Rightarrow> int \<Rightarrow> kst \<Rightarrow> (kst \<times> mtask) option" where
  "rt_returnx cpuid task data sz s =
     (let cur = RT_CURRENT cpuid s in
      if task_magic (tasks s task) \<noteq> RT_TASK_MAGIC then Some (s, MErr RTE_OBJINV)
      else if awaits_return task cur s then
        (let adr = msg (tasks s task); mc = mcbs s adr; n = (if rbytes mc < sz then rbytes mc else sz) in
         case data of
           Some d \<Rightarrow>
             if n > 0 then
               (case rbuf mc of None \<Rightarrow> None
                | Some rb \<Rightarrow>
                    Some (do_return cpuid cur task 0
                            (s\<lparr>mcbs := (mcbs s)(adr := mc\<lparr>rbuf := Some (take (nat n) d @ drop (nat n) rb)\<rparr>)\<rparr>), MTask task))
             else Some (do_return cpuid cur task 0 s, MTask task)
         | None \<Rightarrow> Some (do_return cpuid cur task 0 s, MTask task))
      else Some (s, MNull))"

text \<open>\<^verbatim>\<open>DO_RCV_MSG\<close>: the bytes of the message, cut to the buffer of the receiver; an extended
  send ends here.\<close>

definition DO_RCV_MSG :: "nat \<Rightarrow> tid \<Rightarrow> int \<Rightarrow> int \<Rightarrow> kst \<Rightarrow> kst \<times> byte list" where
  "DO_RCV_MSG cpuid task adr sz s =
     (let mc = mcbs s adr; len = (if sz \<le> sbytes mc then sz else sbytes mc) in
      (if rbuf mc = None \<and> rbytes mc = SEND_RCV_BYTES then fst (rt_return cpuid task 0 s) else s,
       take (nat len) (sbuf mc)))"

text \<open>The end of \<^verbatim>\<open>rt_receivex\<close> and its variants, after the receive gave \<open>r\<close> and the address.\<close>

definition receivex_end :: "nat \<Rightarrow> int \<Rightarrow> mtask \<Rightarrow> int option \<Rightarrow> kst \<Rightarrow> kst \<times> mtask \<times> byte list" where
  "receivex_end cpuid sz r m s =
     (case (r, m) of (MTask u, Some adr) \<Rightarrow> (case DO_RCV_MSG cpuid u adr sz s of (s1, bs) \<Rightarrow> (s1, r, bs))
      | _ \<Rightarrow> (s, r, []))"

definition rt_receivex_resume :: "nat \<Rightarrow> tid \<Rightarrow> received \<Rightarrow> int \<Rightarrow> kst \<Rightarrow> kst \<times> mtask \<times> byte list" where
  "rt_receivex_resume cpuid t how sz s =
     (case rt_receive_resume t how s of (s1, r, m) \<Rightarrow> receivex_end cpuid sz r m (proxy_reply cpuid r s1))"

definition rt_receivex_if_resume :: "nat \<Rightarrow> tid \<Rightarrow> int \<Rightarrow> int \<Rightarrow> kst \<Rightarrow> kst \<times> mtask \<times> byte list" where
  "rt_receivex_if_resume cpuid t m sz s =
     (case rt_receive_if_resume t m s of (s1, r, m) \<Rightarrow> receivex_end cpuid sz r m (proxy_reply cpuid r s1))"

definition rt_receivex_until_resume :: "nat \<Rightarrow> tid \<Rightarrow> received \<Rightarrow> bool \<Rightarrow> int \<Rightarrow> kst \<Rightarrow> kst \<times> mtask \<times> byte list" where
  "rt_receivex_until_resume cpuid t how rd sz s =
     (case rt_receive_until_resume t how rd s of (s1, r, m) \<Rightarrow> receivex_end cpuid sz r m (proxy_reply cpuid r s1))"

definition rt_evdrpx :: "nat \<Rightarrow> tid option \<Rightarrow> int \<Rightarrow> kst \<Rightarrow> (kst \<times> mtask \<times> byte list) option" where
  "rt_evdrpx cpuid task sz s = map_option (\<lambda>(r, m). receivex_end cpuid sz r m s) (rt_evdrp cpuid task s)"

section \<open>Proxies\<close>

abbreviation (input) RT_SCHED_LOWEST_PRIORITY :: int where "RT_SCHED_LOWEST_PRIORITY \<equiv> 0x3fffffff"

text \<open>The data of a proxy lie at the bottom of its stack. \<^verbatim>\<open>__rt_proxy_attach\<close>: \<open>p\<close> is the
  task block that \<^verbatim>\<open>rt_malloc\<close> gave, \<open>st\<close> says that its stack could be allocated.\<close>

definition rt_proxy_attach :: "nat \<Rightarrow> tid option \<Rightarrow> bool \<Rightarrow> tid option \<Rightarrow> int \<Rightarrow> int \<Rightarrow> kst \<Rightarrow> kst \<times> tid option" where
  "rt_proxy_attach cpuid p st task m prty s =
     (let cur = RT_CURRENT cpuid s; t = (case task of None \<Rightarrow> cur | Some t \<Rightarrow> t) in
      if task_magic (tasks s t) \<noteq> RT_TASK_MAGIC then (s, None)
      else (case p of None \<Rightarrow> (s, None)
            | Some proxy \<Rightarrow>
                (let pr = (if prty = -1 then (if base_priority (tasks s cur) = RT_SCHED_LINUX_PRIORITY
                                              then RT_SCHED_LOWEST_PRIORITY else base_priority (tasks s cur))
                           else prty) in
                 case rt_task_init proxy st pr s of
                   (s1, r) \<Rightarrow> if r \<noteq> 0 then (s1, None)
                              else (upd_task proxy (\<lambda>k. k\<lparr>proxy_receiver := Some t, proxy_nmsgs := 0, proxy_msg := m\<rparr>) s1,
                                    Some proxy))))"

definition rt_proxy_detach :: "nat \<Rightarrow> tid \<Rightarrow> kst \<Rightarrow> (kst \<times> int) option" where
  "rt_proxy_detach cpuid proxy s =
     map_option (\<lambda>(s1, r). (s1, if r = 0 then 0 else - EINVAL)) (rt_task_delete cpuid proxy s)"

definition rt_trigger :: "nat \<Rightarrow> tid \<Rightarrow> kst \<Rightarrow> kst \<times> tid option" where
  "rt_trigger cpuid proxy s =
     (if task_magic (tasks s proxy) = RT_TASK_MAGIC then
        (let s1 = fst (rt_task_resume cpuid proxy (upd_task proxy (\<lambda>k. k\<lparr>proxy_nmsgs := s32 (proxy_nmsgs k + 1)\<rparr>) s)) in
         (s1, proxy_receiver (tasks s1 proxy)))
      else (s, None))"

text \<open>A turn of the loop of \<^verbatim>\<open>proxy_task\<close>, by the running proxy: pass one trigger on, or suspend.
  A proxy without a receiver would call a null task.\<close>

definition proxy_turn :: "nat \<Rightarrow> kst \<Rightarrow> kst option" where
  "proxy_turn cpuid s =
     (let me = RT_CURRENT cpuid s; k = tasks s me in
      if proxy_nmsgs k \<noteq> 0 then
        (case proxy_receiver k of None \<Rightarrow> None
         | Some t \<Rightarrow> Some (fst (rt_rpc cpuid t (proxy_msg k) (upd_task me (\<lambda>k. k\<lparr>proxy_nmsgs := s32 (proxy_nmsgs k - 1)\<rparr>) s))))
      else Some (fst (rt_task_suspend cpuid (Some me) s)))"

end
