(* ===== verification/Msg_Thms.thy ===== *)
theory Msg_Thms
  imports Msg
begin

text \<open>
  What the message services guarantee: a message reaches the task it was sent to with its
  sender's name, queued senders are served the most urgent first, a remote procedure call gets
  the value that was returned to it; and three places where they do not do what they should.
\<close>

section \<open>Frames\<close>

lemma enq_ready_task_msg [simp]:
  "msg (tasks (enq_ready_task c t s) u) = msg (tasks s u)"
  "msg_queue_task (tasks (enq_ready_task c t s) u) = msg_queue_task (tasks s u)"
  "ret_queue_task (tasks (enq_ready_task c t s) u) = ret_queue_task (tasks s u)"
  "blocked_on (tasks (enq_ready_task c t s) u) = blocked_on (tasks s u)"
  "task_magic (tasks (enq_ready_task c t s) u) = task_magic (tasks s u)"
  "priority (tasks (enq_ready_task c t s) u) = priority (tasks s u)"
  by (simp_all add: enq_ready_task_def)

lemma release_msg [simp]:
  "msg (tasks (fst (release k c t s)) u) = msg (tasks s u)"
  "msg_queue_task (tasks (fst (release k c t s)) u) = msg_queue_task (tasks s u)"
  "ret_queue_task (tasks (fst (release k c t s)) u) = ret_queue_task (tasks s u)"
  "blocked_on (tasks (fst (release k c t s)) u) = blocked_on (tasks s u)"
  "task_magic (tasks (fst (release k c t s)) u) = task_magic (tasks s u)"
  "priority (tasks (fst (release k c t s)) u) = priority (tasks s u)"
  by (simp_all add: release_def Let_def)

lemma set_task_prio_msg [simp]:
  "msg (tasks (fst (set_task_prio_from_resq c t s)) u) = msg (tasks s u)"
  "msg_queue_task (tasks (fst (set_task_prio_from_resq c t s)) u) = msg_queue_task (tasks s u)"
  "ret_queue_task (tasks (fst (set_task_prio_from_resq c t s)) u) = ret_queue_task (tasks s u)"
  "blocked_on (tasks (fst (set_task_prio_from_resq c t s)) u) = blocked_on (tasks s u)"
  "task_magic (tasks (fst (set_task_prio_from_resq c t s)) u) = task_magic (tasks s u)"
  by (simp_all add: set_task_prio_from_resq_def set_prio_from_resq_def renq_ready_task_def Let_def)

lemma schedule_msg [simp]:
  "msg (tasks (RT_SCHEDULE t c s) u) = msg (tasks s u)"
  "msg_queue_task (tasks (RT_SCHEDULE t c s) u) = msg_queue_task (tasks s u)"
  "ret_queue_task (tasks (RT_SCHEDULE t c s) u) = ret_queue_task (tasks s u)"
  "task_magic (tasks (RT_SCHEDULE t c s) u) = task_magic (tasks s u)"
  "msg (tasks (RT_SCHEDULE_BOTH t c s) u) = msg (tasks s u)"
  "msg_queue_task (tasks (RT_SCHEDULE_BOTH t c s) u) = msg_queue_task (tasks s u)"
  "ret_queue_task (tasks (RT_SCHEDULE_BOTH t c s) u) = ret_queue_task (tasks s u)"
  "task_magic (tasks (RT_SCHEDULE_BOTH t c s) u) = task_magic (tasks s u)"
  "blocked_on (tasks (RT_SCHEDULE_BOTH t c s) u) = blocked_on (tasks s u)"
  by (simp_all add: RT_SCHEDULE_def RT_SCHEDULE_BOTH_def)

lemma hand_over_msg:
  "msg (tasks (fst (hand_over c m t cur s)) t) = m"
  "msg_queue_task (tasks (fst (hand_over c m t cur s)) t) = Some cur"
  "ret_queue_task (tasks (fst (hand_over c m t cur s)) t) = BNull"
  by (simp_all add: hand_over_def)

section \<open>Delivery\<close>

text \<open>A message sent to a task that waits for it arrives: \<^verbatim>\<open>rt_send\<close> hands it over without
  queueing, and the receiver, when it goes on, returns the sender and the message.\<close>

theorem send_reaches_waiting_receiver:
  assumes "task_magic (tasks s t) = RT_TASK_MAGIC" "accepts t (RT_CURRENT c s) s"
  shows "\<exists>s1. rt_send c t m s = (s1, None) \<and> qring s1 = qring s \<and>
    (\<exists>s2. rt_receive_resume t Awaited s1 = (s2, MTask (RT_CURRENT c s), Some m))"
proof -
  let ?cur = "RT_CURRENT c s"
  obtain s0 w where h: "hand_over c m t ?cur s = (s0, w)" by (cases "hand_over c m t ?cur s")
  let ?s1 = "if w then RT_SCHEDULE t c s0 else s0"
  note d = hand_over_msg [of c m t ?cur s, unfolded h fst_conv]
  have "qring s0 = qring s" using h by (metis fst_conv hand_over_def release_sel(2) rem_timed_task_sel(3) upd_task_sel(3))
  moreover have "rt_send c t m s = (?s1, None)" using assms h by (simp add: rt_send_def Let_def)
  moreover have "\<exists>s2. rt_receive_resume t Awaited ?s1 = (s2, MTask ?cur, Some m)"
    by (cases w) (simp_all add: rt_receive_resume_def d)
  ultimately show ?thesis by (intro exI [of _ ?s1]) simp
qed

text \<open>C22. Senders that queue at a task are served the most urgent first: a receive from anyone
  takes the message of the first task of the queue, that task leaves the queue and its send
  succeeds.\<close>

theorem receive_serves_first_sender:
  assumes "qring s (MsgQ r) = t # ts" "RT_CURRENT c s = r" "t \<noteq> r"
    and "state (tasks s t) AND RT_SCHED_SEND \<noteq> 0" "msg_queue_task (tasks s t) = Some r"
  shows "\<exists>s1. rt_receive c None s = Some (s1, Taken (msg (tasks s t))) \<and> qring s1 (MsgQ r) = ts \<and>
    rt_send_resume c t r s1 = (s1, MTask r)"
proof -
  have z: "state (tasks s t) AND (RT_SCHED_SEND OR RT_SCHED_RPC) \<noteq> 0"
  proof
    assume "state (tasks s t) AND (RT_SCHED_SEND OR RT_SCHED_RPC) = 0"
    then have "state (tasks s t) AND RT_SCHED_SEND = 0"
      by (simp only: bit.conj_disj_distrib or_eq_0_iff)
    then show False using assms(4) by simp
  qed
  let ?s1 = "take_message c t r s"
  have "rt_receive c None s = Some (?s1, Taken (msg (tasks s t)))"
    using assms z by (simp add: rt_receive_def bad_receiver_def msg_from_def has_message_def)
  moreover have "qring ?s1 (MsgQ r) = ts"
    using assms by (simp add: take_message_def split_beta Let_def)
  moreover have "msg_queue_task (tasks ?s1 t) = Some t"
    using assms by (simp add: take_message_def split_beta Let_def)
  ultimately show ?thesis by (auto simp: rt_send_resume_def)
qed

text \<open>A remote procedure call gets the value returned to it: \<^verbatim>\<open>rt_return\<close> by the task called
  takes the caller out of the return queue, and the caller's \<^verbatim>\<open>rt_rpc\<close> ends with that value;
  for any other task \<^verbatim>\<open>rt_return\<close> gives null and changes nothing.\<close>

theorem rpc_gets_returned_value:
  assumes "task_magic (tasks s u) = RT_TASK_MAGIC" "state (tasks s u) AND RT_SCHED_RETURN \<noteq> 0"
  shows "(msg_queue_task (tasks s u) = Some (RT_CURRENT c s) \<longrightarrow>
      (\<exists>s1. rt_return c u res s = (s1, MTask u) \<and> qring s1 = (\<lambda>q. remove1 u (qring s q)) \<and>
         rt_rpc_resume c' u (RT_CURRENT c s) s1 = (s1, MTask (RT_CURRENT c s), Some res))) \<and>
    (msg_queue_task (tasks s u) \<noteq> Some (RT_CURRENT c s) \<longrightarrow> rt_return c u res s = (s, MNull))"
proof -
  let ?s1 = "do_return c (RT_CURRENT c s) u res s"
  have f: "msg (tasks ?s1 u) = res" "msg_queue_task (tasks ?s1 u) = Some u" "qring ?s1 = (\<lambda>q. remove1 u (qring s q))"
    by (simp_all add: do_return_def split_beta Let_def)
  show ?thesis using assms f by (auto simp: rt_return_def awaits_return_def rt_rpc_resume_def)
qed

section \<open>Where the services go wrong\<close>

text \<open>A send that times out restores the receiver's priority before the sender leaves the
  receiver's queue: the priority is computed with the sender still first in it, so the receiver
  keeps the priority that nobody asks of it any more.\<close>

theorem send_timeout_keeps_inherited_priority:
  assumes "qring s (MsgQ r) = [t]" "blocked_on (tasks s t) = BQueue (MsgQ r)" "t \<noteq> r"
    and "prio s t < base_priority (tasks s r)" "owndres (tasks s r) = 0"
    and "msg_queue_task (tasks s t) = Some r"
  shows "\<exists>s1. rt_send_resume c t r s = (s1, MErr RTE_TIMOUT) \<and> qring s1 (MsgQ r) = [] \<and>
    prio s1 r = prio s t \<and> prio s1 r \<noteq> base_priority (tasks s1 r)"
proof -
  let ?s0 = "fst (set_task_prio_from_resq c r s)"
  have "resq_prio r s = prio s t" using assms by (simp add: resq_prio_def)
  then have p: "prio ?s0 r = prio s t" "base_priority (tasks ?s0 r) = base_priority (tasks s r)" "qring ?s0 = qring s"
    using assms by (simp_all add: set_task_prio_from_resq_def set_prio_from_resq_def renq_ready_task_def
        enq_ready_task_def Let_def)
  have "rt_send_resume c t r s = (upd_task t (\<lambda>k. k\<lparr>msg_queue_task := Some t\<rparr>) (dequeue_blocked t ?s0), MErr RTE_TIMOUT)"
    using assms by (simp add: rt_send_resume_def msg_not_sent_def)
  then show ?thesis using assms p by (auto simp: dequeue_blocked_def unlink_blocked_def)
qed

text \<open>A timed send with a time that is already past is reported as unblocked, not as timed
  out: the sender never queued, so its \<^verbatim>\<open>blocked_on\<close> is null, which \<^verbatim>\<open>msg_not_sent\<close> takes for an
  error code.\<close>

theorem late_send_reports_unblocked:
  assumes "task_magic (tasks s r) = RT_TASK_MAGIC" "\<not> accepts r t s" "RT_CURRENT c s = t" "r \<noteq> t"
    and "blocked_on (tasks s t) = BNull" "time \<le> rt_smp_time_h s c"
  shows "\<exists>s1 s2. rt_send_until c r m time s = (s1, None) \<and> rt_send_resume c t r s1 = (s2, MErr RTE_UNBLKD)"
proof -
  let ?s1 = "upd_task t (\<lambda>k. k\<lparr>msg_queue_task := Some r, resume_time := time\<rparr>) s"
  have "rt_send_until c r m time s = (?s1, None)" using assms by (simp add: rt_send_until_def Let_def)
  moreover have "snd (rt_send_resume c t r ?s1) = MErr RTE_UNBLKD"
    using assms by (simp add: rt_send_resume_def msg_not_sent_def Let_def)
  ultimately show ?thesis by (metis prod.collapse)
qed

text \<open>A task that waits for a message keeps an error code in the head of its return queue, where
  \<^verbatim>\<open>pass_prio\<close> looks for the next task to pass a priority to, while the callers it has not yet
  answered are still blocked in that queue.\<close>

theorem receive_leaves_code_in_return_queue:
  assumes "RT_CURRENT c s = r" "qring s (MsgQ r) = []" "msg_queue_task (tasks s r) = Some r"
    and "\<not> has_message r r s" "u \<noteq> r" "qring s (RetQ r) = [u]" "blocked_on (tasks s u) = BQueue (RetQ r)"
  shows "\<exists>s1. rt_receive c None s = Some (s1, Awaited) \<and> ret_queue_task (tasks s1 r) = RTP_HIGERR \<and>
    qring s1 (RetQ r) = [u] \<and> blocked_on (tasks s1 u) = BQueue (RetQ r)"
proof -
  let ?s0 = "await_message 0 r r (upd_task r (\<lambda>k. k\<lparr>ret_queue_task := RTP_HIGERR\<rparr>) s)"
  have "rt_receive c None s = Some (rt_schedule c ?s0, Awaited)"
    using assms by (simp add: rt_receive_def bad_receiver_def msg_from_def)
  moreover have "ret_queue_task (tasks (rt_schedule c ?s0) r) = RTP_HIGERR"
    "qring (rt_schedule c ?s0) (RetQ r) = [u]" "blocked_on (tasks (rt_schedule c ?s0) u) = BQueue (RetQ r)"
    using assms by (simp_all add: await_message_def rem_ready_current_def)
  ultimately show ?thesis by blast
qed

section \<open>Witnesses\<close>

text \<open>Task 2 runs; task 3 waits for a message.\<close>

definition demo_recv :: kst where
  "demo_recv = upd_task (Task 3) (\<lambda>k. k\<lparr>state := RT_SCHED_READY OR RT_SCHED_RECEIVE, msg_queue_task := None\<rparr>) demo_run"

theorem send_reaches_waiting_receiver_witness:
  "\<exists>s1. rt_send 0 (Task 3) 42 demo_recv = (s1, None) \<and>
    (\<exists>s2. rt_receive_resume (Task 3) Awaited s1 = (s2, MTask (Task 2), Some 42))"
  using send_reaches_waiting_receiver [of demo_recv "Task 3" 0 42]
  by (auto simp: demo_recv_def accepts_def demo_run_eq demo_ready_eq demo_init_tasks)

text \<open>Task 3 has queued at task 2 with a message.\<close>

definition demo_queued :: kst where
  "demo_queued = upd_ring (MsgQ (Task 2)) (\<lambda>_. [Task 3]) (upd_task (Task 3)
     (\<lambda>k. k\<lparr>state := RT_SCHED_READY OR RT_SCHED_SEND, msg := 17, msg_queue_task := Some (Task 2),
            blocked_on := BQueue (MsgQ (Task 2))\<rparr>) demo_run)"

lemma demo_queued_eq:
  "qring demo_queued (MsgQ (Task 2)) = [Task 3]" "rt_smp_current demo_queued 0 = Task 2"
  "msg (tasks demo_queued (Task 3)) = 17" "msg_queue_task (tasks demo_queued (Task 3)) = Some (Task 2)"
  "state (tasks demo_queued (Task 3)) = RT_SCHED_READY OR RT_SCHED_SEND"
  "blocked_on (tasks demo_queued (Task 3)) = BQueue (MsgQ (Task 2))"
  by (simp_all add: demo_queued_def upd_ring_def demo_run_eq)

theorem receive_serves_first_sender_witness:
  "\<exists>s1. rt_receive 0 None demo_queued = Some (s1, Taken 17) \<and> qring s1 (MsgQ (Task 2)) = [] \<and>
    rt_send_resume 0 (Task 3) (Task 2) s1 = (s1, MTask (Task 2))"
  using receive_serves_first_sender [of demo_queued "Task 2" "Task 3" "[]" 0] by (simp add: demo_queued_eq)

text \<open>Task 3 waits for the reply of task 2.\<close>

definition demo_called :: kst where
  "demo_called = upd_ring (RetQ (Task 2)) (\<lambda>_. [Task 3]) (upd_task (Task 3)
     (\<lambda>k. k\<lparr>state := RT_SCHED_READY OR RT_SCHED_RETURN, msg := 17, msg_queue_task := Some (Task 2),
            blocked_on := BQueue (RetQ (Task 2))\<rparr>) demo_run)"

theorem rpc_gets_returned_value_witness:
  "\<exists>s1. rt_return 0 (Task 3) 99 demo_called = (s1, MTask (Task 3)) \<and>
    rt_rpc_resume 0 (Task 3) (Task 2) s1 = (s1, MTask (Task 2), Some 99)"
  using rpc_gets_returned_value [of demo_called "Task 3" 0 99 0]
  by (auto simp: demo_called_def upd_ring_def demo_run_eq demo_ready_eq demo_init_tasks)

theorem send_timeout_keeps_inherited_priority_witness:
  "\<exists>s1. rt_send_resume 0 (Task 2) (Task 3)
      (upd_ring (MsgQ (Task 3)) (\<lambda>_. [Task 2]) (upd_task (Task 2) (\<lambda>k. k\<lparr>msg_queue_task := Some (Task 3),
         blocked_on := BQueue (MsgQ (Task 3))\<rparr>) (upd_task (Task 3) (\<lambda>k. k\<lparr>base_priority := 5\<rparr>) demo_run)))
      = (s1, MErr RTE_TIMOUT) \<and> prio s1 (Task 3) = 3"
  (is "\<exists>s1. rt_send_resume _ _ _ ?s = _ \<and> _")
  using send_timeout_keeps_inherited_priority [of ?s "Task 3" "Task 2" 0]
  by (auto simp: upd_ring_def demo_run_eq demo_ready_eq demo_init_tasks)

theorem late_send_reports_unblocked_witness:
  "\<exists>s1 s2. rt_send_until 0 (Task 3) 42 500 demo_run = (s1, None) \<and>
    rt_send_resume 0 (Task 2) (Task 3) s1 = (s2, MErr RTE_UNBLKD)"
  using late_send_reports_unblocked [of demo_run "Task 3" "Task 2" 0 500 42]
  by (simp add: accepts_def demo_run_eq demo_ready_eq demo_init_tasks demo_init_calm)

theorem receive_leaves_code_in_return_queue_witness:
  "\<exists>s1. rt_receive 0 None (upd_task (Task 2) (\<lambda>k. k\<lparr>msg_queue_task := Some (Task 2)\<rparr>) demo_called) = Some (s1, Awaited) \<and>
    ret_queue_task (tasks s1 (Task 2)) = RTP_HIGERR \<and> qring s1 (RetQ (Task 2)) = [Task 3]"
  (is "\<exists>s1. rt_receive _ _ ?s = _ \<and> _")
  using receive_leaves_code_in_return_queue [where c = 0 and s = ?s and r = "Task 2" and u = "Task 3"]
  by (auto simp: demo_called_def upd_ring_def demo_run_eq demo_ready_eq demo_init_tasks has_message_def demo_run_calm)

end
