(* ===== verification/Registry.thy ===== *)
theory Registry
  imports Sched Nam2num
begin

text \<open>
  The name registry (\<^verbatim>\<open>src/sched/api.c\<close>, \<^verbatim>\<open>HASHED_REGISTRY\<close>): a hash table with linear probing
  that is searched by name and by address. A slot holds a name and, independently, an address;
  \<^verbatim>\<open>alink\<close> and \<^verbatim>\<open>nlink\<close> join the slot of a name with the slot of its address. A removed key
  leaves the mark 1 behind unless the next slot is empty. The probing loops are searches by
  \<open>partial_function\<close>; the operations refine a finite map. The functions look at the table
  before they take its lock and try again when it has changed; here an operation has the table
  to itself, so that the first try decides.
\<close>

section \<open>The table\<close>

record rt_registry_entry =
  ename :: nat
  eadr :: nat
  etsk :: nat
  etype :: int
  ecount :: nat
  alink :: nat
  nlink :: nat

type_synonym registry = "nat \<Rightarrow> rt_registry_entry"

definition upd_slot :: "nat \<Rightarrow> (rt_registry_entry \<Rightarrow> rt_registry_entry) \<Rightarrow> registry \<Rightarrow> registry" where
  "upd_slot k f t = t(k := f (t k))"

text \<open>\<^verbatim>\<open>NONAME\<close> and \<^verbatim>\<open>NOADR\<close>: the mark of a removed key\<close>

abbreviation (input) NONAME :: nat where "NONAME \<equiv> Suc 0"

text \<open>\<^verbatim>\<open>count\<close> is an unsigned short.\<close>

definition u16 :: "nat \<Rightarrow> nat" where
  "u16 x = x mod 65536"

definition hash_fun :: "nat \<Rightarrow> nat \<Rightarrow> nat" where
  "hash_fun m n = m mod n + 1"

definition nxt :: "nat \<Rightarrow> nat \<Rightarrow> nat" where
  "nxt n k = (if k + 1 > n then 1 else k + 1)"

text \<open>The probing loop from slot \<open>k\<close>: the first slot at which it stops, or \<open>Some None\<close> when it is
  back at slot \<open>i\<close>.\<close>

partial_function (option) probe :: "(nat \<Rightarrow> bool) \<Rightarrow> nat \<Rightarrow> nat \<Rightarrow> nat \<Rightarrow> nat option option" where
  "probe stp n i k =
     (if stp k then Some (Some k)
      else if nxt n k = i then Some None else probe stp n i (nxt n k))"

section \<open>Operations\<close>

definition hash_ins_adr :: "nat \<Rightarrow> nat \<Rightarrow> nat \<Rightarrow> registry \<Rightarrow> (registry \<times> int) option" where
  "hash_ins_adr adr lstlen nl t =
     (let i = hash_fun adr lstlen in
      case probe (\<lambda>k. \<not> (eadr (t k) > NONAME \<and> eadr (t k) \<noteq> adr)) lstlen i i of
        None \<Rightarrow> None
      | Some None \<Rightarrow> Some (t, 0)
      | Some (Some k) \<Rightarrow>
          if eadr (t k) = adr then Some (t, - int k)
          else Some (upd_slot nl (\<lambda>e. e\<lparr>alink := k\<rparr>) (upd_slot k (\<lambda>e. e\<lparr>eadr := adr, nlink := nl\<rparr>) t), int k))"

definition hash_ins_name :: "nat \<Rightarrow> nat \<Rightarrow> int \<Rightarrow> nat \<Rightarrow> nat \<Rightarrow> bool \<Rightarrow> registry \<Rightarrow> (registry \<times> int) option" where
  "hash_ins_name name adr ty tsk lstlen inc t =
     (let i = hash_fun name lstlen in
      case probe (\<lambda>k. \<not> (ename (t k) > NONAME \<and> ename (t k) \<noteq> name)) lstlen i i of
        None \<Rightarrow> None
      | Some None \<Rightarrow> Some (t, 0)
      | Some (Some k) \<Rightarrow>
          if ename (t k) = name
          then Some (if inc then upd_slot k (\<lambda>e. e\<lparr>ecount := u16 (ecount e + 1)\<rparr>) t else t, - int k)
          else (case hash_ins_adr adr lstlen k
                       (upd_slot k (\<lambda>e. e\<lparr>ename := name, etype := ty, etsk := tsk, ecount := 1, alink := 0\<rparr>) t) of
                  None \<Rightarrow> None
                | Some (t1, r) \<Rightarrow> Some (t1, if r \<le> 0 then 0 else int k)))"

text \<open>The address found, and the slot of the name.\<close>

definition hash_find_name :: "nat \<Rightarrow> nat \<Rightarrow> bool \<Rightarrow> registry \<Rightarrow> (registry \<times> nat \<times> nat option) option" where
  "hash_find_name name lstlen inc t =
     (let i = hash_fun name lstlen in
      case probe (\<lambda>k. \<not> (ename (t k) \<noteq> 0 \<and> ename (t k) \<noteq> name)) lstlen i i of
        None \<Rightarrow> None
      | Some None \<Rightarrow> Some (t, 0, None)
      | Some (Some k) \<Rightarrow>
          if ename (t k) = name
          then Some (if inc then upd_slot k (\<lambda>e. e\<lparr>ecount := u16 (ecount e + 1)\<rparr>) t else t, eadr (t (alink (t k))), Some k)
          else Some (t, 0, None))"

definition hash_find_adr :: "nat \<Rightarrow> nat \<Rightarrow> bool \<Rightarrow> registry \<Rightarrow> (registry \<times> nat) option" where
  "hash_find_adr adr lstlen inc t =
     (let i = hash_fun adr lstlen in
      case probe (\<lambda>k. \<not> (eadr (t k) \<noteq> 0 \<and> eadr (t k) \<noteq> adr)) lstlen i i of
        None \<Rightarrow> None
      | Some None \<Rightarrow> Some (t, 0)
      | Some (Some k) \<Rightarrow>
          if eadr (t k) = adr
          then Some (if inc then upd_slot (nlink (t k)) (\<lambda>e. e\<lparr>ecount := u16 (ecount e + 1)\<rparr>) t else t, ename (t (nlink (t k))))
          else Some (t, 0))"

text \<open>Removing a key: an empty slot, or the mark.\<close>

definition clear_name :: "nat \<Rightarrow> nat \<Rightarrow> registry \<Rightarrow> registry" where
  "clear_name lstlen k t = upd_slot k (\<lambda>e. e\<lparr>ename := (if ename (t (nxt lstlen k)) = 0 then 0 else NONAME)\<rparr>) t"

definition clear_adr :: "nat \<Rightarrow> nat \<Rightarrow> registry \<Rightarrow> registry" where
  "clear_adr lstlen j t = upd_slot j (\<lambda>e. e\<lparr>eadr := (if eadr (t (nxt lstlen j)) = 0 then 0 else NONAME)\<rparr>) t"

text \<open>\<open>!dec || (count && !--count)\<close>, with the table after the counting.\<close>

definition count_out :: "int \<Rightarrow> nat \<Rightarrow> registry \<Rightarrow> registry \<times> bool" where
  "count_out dcr k t =
     (if dcr = 0 then (t, True)
      else if ecount (t k) = 0 then (t, False)
      else (upd_slot k (\<lambda>e. e\<lparr>ecount := ecount e - 1\<rparr>) t, ecount (t k) = 1))"

definition hash_rem_name :: "nat \<Rightarrow> nat \<Rightarrow> int \<Rightarrow> registry \<Rightarrow> (registry \<times> int) option" where
  "hash_rem_name name lstlen dcr t =
     (let i = hash_fun name lstlen in
      case probe (\<lambda>k. \<not> (ename (t k) \<noteq> 0 \<and> ename (t k) \<noteq> name)) lstlen i i of
        None \<Rightarrow> None
      | Some None \<Rightarrow> Some (t, 0)
      | Some (Some k) \<Rightarrow>
          if ename (t k) = name then
            (let (t1, gone) = count_out dcr k t;
                 t2 = (if gone then
                         (let u = clear_name lstlen k t1; j = alink (u k) in
                          if j \<noteq> 0 then clear_adr lstlen j u else u)
                       else t1)
             in Some (t2, if dcr \<noteq> 0 then int (ecount (t2 k)) else int k))
          else Some (t, dcr))"

definition hash_rem_adr :: "nat \<Rightarrow> nat \<Rightarrow> int \<Rightarrow> registry \<Rightarrow> (registry \<times> int) option" where
  "hash_rem_adr adr lstlen dcr t =
     (let i = hash_fun adr lstlen in
      case probe (\<lambda>k. \<not> (eadr (t k) \<noteq> 0 \<and> eadr (t k) \<noteq> adr)) lstlen i i of
        None \<Rightarrow> None
      | Some None \<Rightarrow> Some (t, 0)
      | Some (Some k) \<Rightarrow>
          if eadr (t k) = adr then
            (let (t1, gone) = count_out dcr (nlink (t k)) t;
                 t2 = (if gone then clear_name lstlen (nlink (t1 k)) (clear_adr lstlen k t1) else t1)
             in Some (t2, if dcr \<noteq> 0 then int (ecount (t2 (nlink (t2 k)))) else int k))
          else Some (t, dcr))"

abbreviation (input) EFAULT :: int where "EFAULT \<equiv> 14"

definition registr :: "nat \<Rightarrow> nat \<Rightarrow> nat \<Rightarrow> int \<Rightarrow> nat \<Rightarrow> registry \<Rightarrow> (registry \<times> int) option" where
  "registr max_slots name adr ty tsk t =
     map_option (\<lambda>(t1, r). (t1, \<bar>r\<bar>)) (hash_ins_name name adr ty tsk max_slots True t)"

definition rt_drg_on_name :: "nat \<Rightarrow> nat \<Rightarrow> registry \<Rightarrow> (registry \<times> int) option" where
  "rt_drg_on_name max_slots name t = hash_rem_name name max_slots 0 t"

definition rt_drg_on_name_cnt :: "nat \<Rightarrow> nat \<Rightarrow> registry \<Rightarrow> (registry \<times> int) option" where
  "rt_drg_on_name_cnt max_slots name t = hash_rem_name name max_slots (- EFAULT) t"

definition rt_drg_on_adr :: "nat \<Rightarrow> nat \<Rightarrow> registry \<Rightarrow> (registry \<times> int) option" where
  "rt_drg_on_adr max_slots adr t = hash_rem_adr adr max_slots 0 t"

definition rt_drg_on_adr_cnt :: "nat \<Rightarrow> nat \<Rightarrow> registry \<Rightarrow> (registry \<times> int) option" where
  "rt_drg_on_adr_cnt max_slots adr t = hash_rem_adr adr max_slots (- EFAULT) t"

definition rt_get_adr :: "nat \<Rightarrow> nat \<Rightarrow> registry \<Rightarrow> nat option" where
  "rt_get_adr max_slots name t = map_option (\<lambda>(_, a, _). a) (hash_find_name name max_slots False t)"

definition rt_get_adr_cnt :: "nat \<Rightarrow> nat \<Rightarrow> registry \<Rightarrow> (registry \<times> nat) option" where
  "rt_get_adr_cnt max_slots name t = map_option (\<lambda>(t1, a, _). (t1, a)) (hash_find_name name max_slots True t)"

definition rt_get_type :: "nat \<Rightarrow> nat \<Rightarrow> registry \<Rightarrow> int option" where
  "rt_get_type max_slots name t =
     map_option (\<lambda>(_, a, sl). case sl of Some k \<Rightarrow> if a \<noteq> 0 then etype (t k) else - EINVAL | None \<Rightarrow> - EINVAL)
       (hash_find_name name max_slots False t)"

text \<open>The Linux task's extension gives the address.\<close>

definition is_process_registered :: "nat \<Rightarrow> nat \<Rightarrow> registry \<Rightarrow> nat option" where
  "is_process_registered max_slots adr t =
     (if adr \<noteq> 0 then map_option snd (hash_find_adr adr max_slots False t) else Some 0)"

definition rt_register :: "nat \<Rightarrow> nat \<Rightarrow> nat \<Rightarrow> int \<Rightarrow> nat \<Rightarrow> registry \<Rightarrow> (registry \<times> int) option" where
  "rt_register max_slots name adr ty tsk t =
     (case rt_get_adr max_slots name t of None \<Rightarrow> None
      | Some a \<Rightarrow> if a \<noteq> 0 then Some (t, 0) else registr max_slots name adr ty tsk t)"

definition rt_get_registry_slot :: "nat \<Rightarrow> registry \<Rightarrow> rt_registry_entry option" where
  "rt_get_registry_slot slot t =
     (if ename (t slot) > NONAME then Some ((t slot)\<lparr>eadr := eadr (t (alink (t slot)))\<rparr>) else None)"

section \<open>Allocation\<close>

text \<open>The table sizes.\<close>

definition primes :: "nat list" where
  "primes = [1, 103, 211, 307, 401, 503, 601, 701, 809, 907, 1009, 1103, 1201, 1301, 1409, 1511,
     1601, 1709, 1801, 1901, 2003, 2111, 2203, 2309, 2411, 2503, 2609, 2707, 2801, 2903, 3001,
     3109, 3203, 3301, 3407, 3511, 3607, 3701, 3803, 3907, 4001, 4111, 4201, 4327, 4409, 4507,
     4603, 4703, 4801, 4903, 5003, 5101, 5209, 5303, 5407, 5501, 5623, 5701, 5801, 5903, 6007,
     6101, 6203, 6301, 6421, 6521, 6607, 6703, 6803, 6907, 7001, 7103, 7207, 7307, 7411, 7507,
     7603, 7703, 7817, 7901, 8009, 8101, 8209, 8311, 8419, 8501, 8609, 8707, 8803, 8923, 9001,
     9103, 9203, 9311, 9403, 9511, 9601, 9719, 9803, 9901, 10007, 10103, 10211, 10301, 10427,
     10501, 10601, 10709, 10831, 10903, 11003, 11113, 11213, 11311, 11411, 11503, 11597, 11617,
     11701, 11801, 11903, 12007, 12101, 12203, 12301, 12401, 12503, 12601, 12703, 12809, 12907,
     13001, 13103, 13217, 13309, 13411, 13513, 13613, 13709, 13807, 13901, 14009, 14107, 14207,
     14303, 14401, 14503, 14621, 14713, 14813, 14923, 15013, 15101, 15217, 15307, 15401, 15511,
     15601, 15727, 15803, 15901, 16001, 16103, 16217, 16301, 16411, 16519, 16603, 16703, 16811,
     16901, 17011, 17107, 17203, 17317, 17401, 17509, 17609, 17707, 17807, 17903, 18013, 18119,
     18211, 18301, 18401, 18503, 18617, 18701, 18803, 18911, 19001, 19121, 19207, 19301, 19403,
     19501, 19603, 19709, 19801, 19913, 20011, 20101]"

abbreviation (input) PRIMES_TAB_GRANULARITY :: nat where "PRIMES_TAB_GRANULARITY \<equiv> 100"

abbreviation (input) empty_entry :: rt_registry_entry where
  "empty_entry \<equiv> \<lparr>ename = 0, eadr = 0, etsk = 0, etype = 0, ecount = 0, alink = 0, nlink = 0\<rparr>"

text \<open>\<open>num\<close> is the configured \<^verbatim>\<open>MAX_SLOTS\<close>, \<open>mem\<close> says that \<^verbatim>\<open>vmalloc\<close> succeeds; \<open>None\<close> is \<^verbatim>\<open>-ENOMEM\<close>.\<close>

definition rt_registry_alloc :: "nat \<Rightarrow> bool \<Rightarrow> (nat \<times> registry) option" where
  "rt_registry_alloc num mem =
     (let i = (num + PRIMES_TAB_GRANULARITY - 1) div PRIMES_TAB_GRANULARITY in
      if i \<ge> length primes then None
      else if \<not> mem then None
      else Some (primes ! i, \<lambda>_. empty_entry))"

section \<open>Names for nameless objects\<close>

abbreviation (input) TWOPWR31M1 :: int where "TWOPWR31M1 \<equiv> 2147483647"

text \<open>The generator of \<^verbatim>\<open>rtai.h\<close>; its divisions are of numbers that are not negative.\<close>

definition next_rand :: "int \<Rightarrow> int" where
  "next_rand r =
     (let hi = r div 127773; lo = r - hi * 127773; x = 16807 * lo - 2836 * hi
      in if x \<le> 0 then x + TWOPWR31M1 else x)"

text \<open>The static seed is passed along.\<close>

definition irandu :: "int \<Rightarrow> int \<Rightarrow> (int \<times> int) option" where
  "irandu rng seed =
     (let s = next_rand seed in map_option (\<lambda>x. (s, x)) (rtai_llimd s rng TWOPWR31M1))"

text \<open>The loop of \<^verbatim>\<open>get_name(NULL)\<close>, with the tries left.\<close>

fun fresh_name :: "nat \<Rightarrow> nat \<Rightarrow> registry \<Rightarrow> int \<Rightarrow> (int \<times> nat) option" where
  "fresh_name max_slots 0 t seed = Some (seed, 0)"
| "fresh_name max_slots (Suc i) t seed =
     (case irandu (0xFFFFFFFF - MAX_NAM2NUM - 2) seed of None \<Rightarrow> None
      | Some (s, x) \<Rightarrow>
          let name = nat (MAX_NAM2NUM + x) in
          (case rt_get_adr max_slots name t of None \<Rightarrow> None
           | Some a \<Rightarrow> if a = 0 then Some (s, name) else fresh_name max_slots i t s))"

definition rt_get_name :: "nat \<Rightarrow> nat \<Rightarrow> registry \<Rightarrow> int \<Rightarrow> (int \<times> nat) option" where
  "rt_get_name max_slots adr t seed =
     (if adr = 0 then fresh_name max_slots 10 t seed
      else map_option (\<lambda>(_, x). (seed, x)) (hash_find_adr adr max_slots False t))"

section \<open>Probing\<close>

text \<open>The slots in the order in which probing from \<open>i\<close> visits them.\<close>

definition ring_from :: "nat \<Rightarrow> nat \<Rightarrow> nat list" where
  "ring_from n i = [i..<Suc n] @ [1..<i]"

definition slots :: "nat \<Rightarrow> nat set" where
  "slots n = {1..n}"

lemma ring_from_set: "i \<in> slots n \<Longrightarrow> set (ring_from n i) = slots n"
  by (auto simp: ring_from_def slots_def)

lemma ring_from_distinct: "i \<in> slots n \<Longrightarrow> distinct (ring_from n i)"
  by (auto simp: ring_from_def slots_def)

lemma ring_from_length: "i \<in> slots n \<Longrightarrow> length (ring_from n i) = n"
  by (auto simp: ring_from_def slots_def)

lemma ring_from_nth:
  assumes "i \<in> slots n" "p < n"
  shows "ring_from n i ! p = (if p < Suc n - i then i + p else p - (Suc n - i) + 1)"
  using assms by (auto simp: ring_from_def slots_def nth_append)

lemma ring_from_nxt:
  assumes "i \<in> slots n" "p < n"
  shows "nxt n (ring_from n i ! p) = (if Suc p = n then i else ring_from n i ! Suc p)"
  using assms by (auto simp: ring_from_nth nxt_def slots_def)

lemma probe_suffix:
  assumes "i \<in> slots n" "p < n"
  shows "probe stp n i (ring_from n i ! p) = Some (find stp (drop p (ring_from n i)))"
  using assms(2)
proof (induction "n - p" arbitrary: p)
  case 0
  then show ?case by simp
next
  case (Suc d)
  let ?r = "ring_from n i"
  have dr: "drop p ?r = ?r ! p # drop (Suc p) ?r"
    using Suc.prems assms(1) by (intro Cons_nth_drop_Suc [symmetric]) (simp add: ring_from_length)
  have ni: "?r ! Suc p \<noteq> i" if "Suc p < n"
    using that assms(1) ring_from_distinct [OF assms(1)] ring_from_length [OF assms(1)]
    by (metis Suc_less_eq ring_from_nth [of i n 0] add.right_neutral gr_implies_not0 gr_zeroI le_imp_less_Suc
        atLeastAtMost_iff less_Suc_eq_0_disj nth_eq_iff_index_eq slots_def zero_less_diff zero_less_Suc)
  show ?case
  proof (cases "stp (?r ! p)")
    case True
    then show ?thesis by (subst probe.simps) (simp add: dr)
  next
    case False
    show ?thesis
    proof (cases "Suc p = n")
      case True
      then have "drop (Suc p) ?r = []" using assms(1) by (simp add: ring_from_length)
      then show ?thesis using False True ring_from_nxt [OF assms(1) Suc.prems]
        by (subst probe.simps) (simp add: dr)
    next
      case neq: False
      then have lt: "Suc p < n" using Suc.prems by simp
      have "probe stp n i (?r ! Suc p) = Some (find stp (drop (Suc p) ?r))" using Suc lt by simp
      then show ?thesis using False lt ni [OF lt] ring_from_nxt [OF assms(1) Suc.prems]
        by (subst probe.simps) (simp add: dr)
    qed
  qed
qed

text \<open>A probing loop ends, after at most one round, at the first slot that stops it.\<close>

lemma probe_find:
  assumes "i \<in> slots n"
  shows "probe stp n i i = Some (find stp (ring_from n i))"
proof -
  have "0 < n" using assms by (simp add: slots_def)
  then show ?thesis
    using probe_suffix [OF assms, of 0 stp] ring_from_nth [OF assms, of 0] assms by (simp add: slots_def)
qed

lemma hash_fun_slots: "0 < n \<Longrightarrow> hash_fun x n \<in> slots n"
  by (simp add: hash_fun_def slots_def Suc_leI)

text \<open>The slots before \<open>k\<close> in this order.\<close>

definition before :: "nat \<Rightarrow> nat \<Rightarrow> nat \<Rightarrow> nat set" where
  "before n i k = set (takeWhile (\<lambda>j. j \<noteq> k) (ring_from n i))"

lemma find_Some_before:
  assumes "find stp (ring_from n i) = Some k" "i \<in> slots n"
  shows "k \<in> slots n" "stp k" "\<forall>j \<in> before n i k. \<not> stp j"
proof -
  obtain p where p: "p < length (ring_from n i)" "stp k" "k = ring_from n i ! p" "\<forall>q<p. \<not> stp (ring_from n i ! q)"
    using assms(1) by (auto simp: find_Some_iff)
  then show "stp k" "k \<in> slots n" using nth_mem [OF p(1)] ring_from_set [OF assms(2)] by auto
  have "takeWhile (\<lambda>j. j \<noteq> k) (ring_from n i) = take p (ring_from n i)"
    using p ring_from_distinct [OF assms(2)] by (intro takeWhile_eq_take_P_nth) (auto simp: nth_eq_iff_index_eq)
  then show "\<forall>j \<in> before n i k. \<not> stp j" using p(4) by (auto simp: before_def in_set_conv_nth)
qed

lemma find_before_Some:
  assumes "i \<in> slots n" "k \<in> slots n" "stp k" "\<forall>j \<in> before n i k. \<not> stp j"
  shows "find stp (ring_from n i) = Some k"
proof -
  obtain ys zs where r: "ring_from n i = ys @ k # zs" "k \<notin> set ys"
    using assms(1, 2) ring_from_set split_list_first by metis
  then have "takeWhile (\<lambda>j. j \<noteq> k) (ring_from n i) = ys" by (auto simp: takeWhile_append2 takeWhile_tail)
  then have "\<forall>j \<in> set ys. \<not> stp j" using assms(4) by (simp add: before_def)
  then have "find stp (ys @ k # zs) = Some k" using assms(3) by (induction ys) auto
  then show ?thesis by (simp add: r)
qed

lemma before_subset: "i \<in> slots n \<Longrightarrow> before n i k \<subseteq> slots n"
  using ring_from_set set_takeWhileD unfolding before_def by fastforce

lemma before_irrefl: "k \<notin> before n i k"
  unfolding before_def using set_takeWhileD by fastforce

text \<open>Of two neighbours of which the first lies before \<open>m\<close>, so does the second, unless it is \<open>m\<close>.\<close>

lemma nxt_before:
  assumes "i \<in> slots n" "m \<in> slots n" "k \<in> before n i m"
  shows "nxt n k = m \<or> nxt n k \<in> before n i m"
proof -
  let ?r = "ring_from n i"
  note len = ring_from_length [OF assms(1)]
  obtain q where q: "q < n" "?r ! q = m" using assms(1, 2) ring_from_set len by (metis in_set_conv_nth)
  have tw: "takeWhile (\<lambda>j. j \<noteq> m) ?r = take q ?r"
    using q len ring_from_distinct [OF assms(1)] by (intro takeWhile_eq_take_P_nth) (auto simp: nth_eq_iff_index_eq)
  then obtain p where p: "p < q" "k = ?r ! p" using assms(3) q len
    by (auto simp: before_def in_set_conv_nth)
  then have "nxt n k = ?r ! Suc p" using q ring_from_nxt [OF assms(1), of p] by simp
  moreover have "Suc p = q \<or> ?r ! Suc p \<in> set (take q ?r)"
    using p q len by (auto simp: in_set_conv_nth intro!: exI [of _ "Suc p"])
  ultimately show ?thesis using q tw by (auto simp: before_def)
qed

section \<open>A column of keys\<close>

text \<open>
  The names, and likewise the addresses: no key stands in two slots, and no empty slot lies
  between a key's home slot and the slot it stands in.
\<close>

definition column_ok :: "nat \<Rightarrow> (nat \<Rightarrow> nat) \<Rightarrow> bool" where
  "column_ok n f \<longleftrightarrow>
     (\<forall>j \<in> slots n. \<forall>k \<in> slots n. f j = f k \<longrightarrow> f j > 1 \<longrightarrow> j = k) \<and>
     (\<forall>k \<in> slots n. f k > 1 \<longrightarrow> (\<forall>j \<in> before n (hash_fun (f k) n) k. f j \<noteq> 0))"

lemma column_ok_same: "column_ok n f \<Longrightarrow> j \<in> slots n \<Longrightarrow> k \<in> slots n \<Longrightarrow> f j = f k \<Longrightarrow> f k > 1 \<Longrightarrow> j = k"
  by (simp add: column_ok_def)

lemma column_ok_reach:
  "column_ok n f \<Longrightarrow> k \<in> slots n \<Longrightarrow> f k > 1 \<Longrightarrow> j \<in> before n (hash_fun (f k) n) k \<Longrightarrow> f j \<noteq> 0"
  by (simp add: column_ok_def)

lemma column_find:
  assumes "column_ok n f" "k \<in> slots n" "f k = x" "x > 1"
  shows "find (\<lambda>k. \<not> (f k \<noteq> 0 \<and> f k \<noteq> x)) (ring_from n (hash_fun x n)) = Some k"
proof (rule find_before_Some)
  have "0 < n" using assms(2) by (simp add: slots_def)
  then show h: "hash_fun x n \<in> slots n" by (rule hash_fun_slots)
  show "\<forall>j \<in> before n (hash_fun x n) k. \<not> \<not> (f j \<noteq> 0 \<and> f j \<noteq> x)"
    using assms before_irrefl before_subset [OF h, of k] column_ok_reach [OF assms(1, 2)]
      column_ok_same [OF assms(1) _ assms(2)] by (metis subsetD)
qed (use assms in auto)

lemma column_find_absent:
  assumes "0 < n" "\<forall>k \<in> slots n. f k \<noteq> x"
    and "find (\<lambda>k. \<not> (f k \<noteq> 0 \<and> f k \<noteq> x)) (ring_from n (hash_fun x n)) = Some k"
  shows "f k = 0 \<and> k \<in> slots n"
  using find_Some_before(1, 2) [OF assms(3) hash_fun_slots [OF assms(1)]] assms(2) by auto

lemma column_find_free:
  assumes "0 < n" "\<forall>k \<in> slots n. f k \<noteq> x"
    and "find (\<lambda>k. \<not> (f k > 1 \<and> f k \<noteq> x)) (ring_from n (hash_fun x n)) = Some k"
  shows "k \<in> slots n" "f k \<le> 1" "\<forall>j \<in> before n (hash_fun x n) k. f j > 1"
  using find_Some_before [OF assms(3) hash_fun_slots [OF assms(1)]] assms(2) by auto

lemma column_find_full:
  assumes "0 < n" "\<forall>k \<in> slots n. f k \<noteq> x"
  shows "find (\<lambda>k. \<not> (f k > 1 \<and> f k \<noteq> x)) (ring_from n (hash_fun x n)) = None \<longleftrightarrow> (\<forall>k \<in> slots n. f k > 1)"
  using assms ring_from_set [OF hash_fun_slots [OF assms(1), of x]] by (auto simp: find_None_iff)

lemma column_ins:
  assumes "column_ok n f" "x > 1" "\<forall>k \<in> slots n. f k \<noteq> x" "k \<in> slots n" "f k \<le> 1"
    and "\<forall>j \<in> before n (hash_fun x n) k. f j > 1"
  shows "column_ok n (f(k := x))"
  unfolding column_ok_def
proof (intro conjI ballI impI)
  fix a b assume "a \<in> slots n" "b \<in> slots n" "(f(k := x)) a = (f(k := x)) b" "(f(k := x)) a > 1"
  then show "a = b" using assms(3) column_ok_same [OF assms(1), of a b] by (auto split: if_splits)
next
  fix a b assume a: "a \<in> slots n" "(f(k := x)) a > 1" "b \<in> before n (hash_fun ((f(k := x)) a) n) a"
  show "(f(k := x)) b \<noteq> 0"
    using a assms(2, 6) column_ok_reach [OF assms(1) a(1)] by (cases "a = k") (force split: if_splits)+
qed

lemma column_rem:
  assumes "column_ok n f" "k \<in> slots n"
  shows "column_ok n (f(k := if f (nxt n k) = 0 then 0 else 1))" (is "column_ok n ?g")
  unfolding column_ok_def
proof (intro conjI ballI impI)
  fix a b assume "a \<in> slots n" "b \<in> slots n" "?g a = ?g b" "?g a > 1"
  then show "a = b" using column_ok_same [OF assms(1), of a b] by (auto split: if_splits)
next
  fix m b assume a: "m \<in> slots n" "?g m > 1" "b \<in> before n (hash_fun (?g m) n) m"
  then have m: "m \<noteq> k" "?g m = f m" "f m > 1" by (auto split: if_splits)
  have h: "hash_fun (f m) n \<in> slots n" using a(1) by (intro hash_fun_slots) (simp add: slots_def)
  show "?g b \<noteq> 0"
  proof (cases "b = k")
    case True
    then have "nxt n k = m \<or> nxt n k \<in> before n (hash_fun (f m) n) m"
      using nxt_before [OF h a(1)] a(3) m by simp
    then have "f (nxt n k) \<noteq> 0" using column_ok_reach [OF assms(1) a(1) m(3)] m by auto
    then show ?thesis using True by simp
  next
    case False
    then show ?thesis using column_ok_reach [OF assms(1) a(1) m(3)] a(3) m by simp
  qed
qed

section \<open>The invariant and the map\<close>

definition reg_wf :: "nat \<Rightarrow> registry \<Rightarrow> bool" where
  "reg_wf n t \<longleftrightarrow> 0 < n \<and> n < 65536 \<and> eadr (t 0) = 0 \<and>
     column_ok n (\<lambda>k. ename (t k)) \<and> column_ok n (\<lambda>k. eadr (t k)) \<and>
     (\<forall>k \<in> slots n. ename (t k) > 1 \<longrightarrow>
        alink (t k) \<in> slots n \<and> eadr (t (alink (t k))) > 1 \<and> nlink (t (alink (t k))) = k) \<and>
     (\<forall>j \<in> slots n. eadr (t j) > 1 \<longrightarrow>
        nlink (t j) \<in> slots n \<and> ename (t (nlink (t j))) > 1 \<and> alink (t (nlink (t j))) = j)"

record robj =
  oadr :: nat
  otype :: int
  otsk :: nat
  ocount :: nat

definition slot_obj :: "registry \<Rightarrow> nat \<Rightarrow> robj" where
  "slot_obj t k = \<lparr>oadr = eadr (t (alink (t k))), otype = etype (t k), otsk = etsk (t k), ocount = ecount (t k)\<rparr>"

text \<open>What the registry stands for: the objects by name.\<close>

definition reg_abs :: "nat \<Rightarrow> registry \<Rightarrow> nat \<rightharpoonup> robj" where
  "reg_abs n t x =
     (if x > 1 then map_option (slot_obj t) (find (\<lambda>k. ename (t k) = x) [1..<Suc n]) else None)"

lemma reg_wfD:
  assumes "reg_wf n t"
  shows "0 < n" "n < 65536" "eadr (t 0) = 0" "column_ok n (\<lambda>k. ename (t k))" "column_ok n (\<lambda>k. eadr (t k))"
    "k \<in> slots n \<Longrightarrow> ename (t k) > 1 \<Longrightarrow> alink (t k) \<in> slots n \<and> eadr (t (alink (t k))) > 1 \<and> nlink (t (alink (t k))) = k"
    "k \<in> slots n \<Longrightarrow> eadr (t k) > 1 \<Longrightarrow> nlink (t k) \<in> slots n \<and> ename (t (nlink (t k))) > 1 \<and> alink (t (nlink (t k))) = k"
  using assms unfolding reg_wf_def by auto

lemma reg_abs_None: "reg_abs n t x = None \<longleftrightarrow> x \<le> 1 \<or> (\<forall>k \<in> slots n. ename (t k) \<noteq> x)"
  by (auto simp: reg_abs_def find_None_iff slots_def)

lemma reg_abs_Some:
  assumes "column_ok n (\<lambda>k. ename (t k))" "k \<in> slots n" "ename (t k) = x" "x > 1"
  shows "reg_abs n t x = Some (slot_obj t k)"
proof -
  have "\<exists>j. find (\<lambda>k. ename (t k) = x) [1..<Suc n] = Some j"
    using assms(2, 3) by (metis reg_abs_None reg_abs_def assms(4) linorder_not_less map_option_is_None not_None_eq)
  then obtain j where j: "find (\<lambda>k. ename (t k) = x) [1..<Suc n] = Some j" by blast
  then have "j \<in> slots n" "ename (t j) = x" unfolding find_Some_iff slots_def by (auto simp del: upt_Suc)
  then have "j = k" using column_ok_same [OF assms(1) _ assms(2)] assms(3, 4) by auto
  then show ?thesis using j assms(4) by (simp add: reg_abs_def)
qed

lemma reg_abs_SomeD:
  assumes "reg_abs n t x = Some ob"
  obtains k where "k \<in> slots n" "ename (t k) = x" "x > 1" "slot_obj t k = ob"
proof -
  obtain k where "find (\<lambda>k. ename (t k) = x) [1..<Suc n] = Some k" "slot_obj t k = ob" "x > 1"
    using assms by (auto simp: reg_abs_def split: if_splits)
  then show ?thesis unfolding find_Some_iff slots_def by (intro that [of k]) (auto simp: slots_def simp del: upt_Suc)
qed

lemma upd_slot_apply: "upd_slot k f t j = (if j = k then f (t k) else t j)"
  by (simp add: upd_slot_def)

lemma find_name_hit:
  assumes "reg_wf n t" "k \<in> slots n" "ename (t k) = x" "x > 1"
  shows "hash_find_name x n inc t =
    Some (if inc then upd_slot k (\<lambda>e. e\<lparr>ecount := u16 (ecount e + 1)\<rparr>) t else t, oadr (slot_obj t k), Some k)"
  using column_find [OF reg_wfD(4) [OF assms(1)] assms(2-4)] assms(3)
  by (simp add: hash_find_name_def probe_find hash_fun_slots reg_wfD(1) [OF assms(1)] slot_obj_def)

lemma find_name_miss:
  assumes "0 < n" "\<forall>k \<in> slots n. ename (t k) \<noteq> x"
  shows "hash_find_name x n inc t = Some (t, 0, None)"
proof (cases "find (\<lambda>k. \<not> (ename (t k) \<noteq> 0 \<and> ename (t k) \<noteq> x)) (ring_from n (hash_fun x n))")
  case None
  then show ?thesis by (simp add: hash_find_name_def probe_find hash_fun_slots assms(1))
next
  case (Some k)
  then have "k \<in> slots n" "ename (t k) = 0" "x \<noteq> 0" using column_find_absent [OF assms Some] assms(2) by auto
  then show ?thesis using Some
    by (simp add: hash_find_name_def probe_find hash_fun_slots assms(1))
qed

lemma find_adr_hit:
  assumes "reg_wf n t" "k \<in> slots n" "eadr (t k) = x" "x > 1"
  shows "hash_find_adr x n False t = Some (t, ename (t (nlink (t k))))"
  using column_find [OF reg_wfD(5) [OF assms(1)] assms(2-4)] assms(3)
  by (simp add: hash_find_adr_def probe_find hash_fun_slots reg_wfD(1) [OF assms(1)])

lemma find_adr_miss:
  assumes "0 < n" "\<forall>k \<in> slots n. eadr (t k) \<noteq> x"
  shows "hash_find_adr x n inc t = Some (t, 0)"
proof (cases "find (\<lambda>k. \<not> (eadr (t k) \<noteq> 0 \<and> eadr (t k) \<noteq> x)) (ring_from n (hash_fun x n))")
  case None
  then show ?thesis by (simp add: hash_find_adr_def probe_find hash_fun_slots assms(1))
next
  case (Some k)
  then have "k \<in> slots n" "eadr (t k) = 0" "x \<noteq> 0" using column_find_absent [OF assms Some] assms(2) by auto
  then show ?thesis using Some
    by (simp add: hash_find_adr_def probe_find hash_fun_slots assms(1))
qed

lemma reg_wf_count:
  assumes "reg_wf n t"
  shows "reg_wf n (upd_slot k (\<lambda>e. e\<lparr>ecount := c\<rparr>) t)"
proof -
  have [simp]: "ename (upd_slot k (\<lambda>e. e\<lparr>ecount := c\<rparr>) t j) = ename (t j)"
    "eadr (upd_slot k (\<lambda>e. e\<lparr>ecount := c\<rparr>) t j) = eadr (t j)"
    "alink (upd_slot k (\<lambda>e. e\<lparr>ecount := c\<rparr>) t j) = alink (t j)"
    "nlink (upd_slot k (\<lambda>e. e\<lparr>ecount := c\<rparr>) t j) = nlink (t j)" for j
    by (simp_all add: upd_slot_apply)
  show ?thesis using assms by (simp add: reg_wf_def)
qed

lemma slot_obj_count:
  "slot_obj (upd_slot k (\<lambda>e. e\<lparr>ecount := c\<rparr>) t) j = (if j = k then (slot_obj t k)\<lparr>ocount := c\<rparr> else slot_obj t j)"
  by (simp add: slot_obj_def upd_slot_apply)

lemma reg_abs_eqI:
  assumes "column_ok n (\<lambda>k. ename (t k))"
    and "\<And>x. x > 1 \<Longrightarrow> (case m x of None \<Rightarrow> (\<forall>k \<in> slots n. ename (t k) \<noteq> x)
           | Some ob \<Rightarrow> (\<exists>k \<in> slots n. ename (t k) = x \<and> slot_obj t k = ob))"
    and "\<And>x. x \<le> 1 \<Longrightarrow> m x = None"
  shows "reg_abs n t = m"
proof
  fix x
  show "reg_abs n t x = m x"
  proof (cases "x > 1")
    case True
    then show ?thesis using assms(2) [OF True] reg_abs_Some [OF assms(1) _ _ True] reg_abs_None [of n t x]
      by (cases "m x") (auto simp: not_le)
  next
    case False
    then show ?thesis using assms(3) [of x] reg_abs_None [of n t x] by simp
  qed
qed

lemma reg_abs_count:
  assumes "reg_wf n t" "k \<in> slots n" "ename (t k) = x" "x > 1"
  shows "reg_abs n (upd_slot k (\<lambda>e. e\<lparr>ecount := c\<rparr>) t) = (reg_abs n t)(x \<mapsto> (slot_obj t k)\<lparr>ocount := c\<rparr>)"
proof (rule reg_abs_eqI)
  let ?t = "upd_slot k (\<lambda>e. e\<lparr>ecount := c\<rparr>) t"
  show "column_ok n (\<lambda>k. ename (?t k))" using reg_wfD(4) [OF reg_wf_count [OF assms(1)]] .
  have nm: "ename (?t j) = ename (t j)" for j by (simp add: upd_slot_apply)
  fix y :: nat
  show "((reg_abs n t)(x \<mapsto> (slot_obj t k)\<lparr>ocount := c\<rparr>)) y = None" if "y \<le> 1"
    using that assms(4) reg_abs_None [of n t y] by auto
  show "case ((reg_abs n t)(x \<mapsto> (slot_obj t k)\<lparr>ocount := c\<rparr>)) y of None \<Rightarrow> \<forall>k\<in>slots n. ename (?t k) \<noteq> y
    | Some ob \<Rightarrow> \<exists>k\<in>slots n. ename (?t k) = y \<and> slot_obj ?t k = ob" if "y > 1"
  proof (cases "y = x")
    case True
    then show ?thesis using assms by (auto simp: nm slot_obj_count intro!: bexI [of _ k])
  next
    case False
    then show ?thesis using that reg_abs_None [of n t y] assms(3)
      by (cases "reg_abs n t y") (auto simp: nm slot_obj_count elim!: reg_abs_SomeD intro!: bexI)
  qed
qed

section \<open>Insertion\<close>

text \<open>The table with a name in slot \<open>k\<close> and its address in slot \<open>j\<close>.\<close>

definition reg_put :: "nat \<Rightarrow> nat \<Rightarrow> nat \<Rightarrow> nat \<Rightarrow> int \<Rightarrow> nat \<Rightarrow> registry \<Rightarrow> registry" where
  "reg_put k j name adr ty tsk t =
     upd_slot k (\<lambda>e. e\<lparr>alink := j\<rparr>) (upd_slot j (\<lambda>e. e\<lparr>eadr := adr, nlink := k\<rparr>)
       (upd_slot k (\<lambda>e. e\<lparr>ename := name, etype := ty, etsk := tsk, ecount := 1, alink := 0\<rparr>) t))"

lemma reg_put_sel:
  "ename (reg_put k j name adr ty tsk t i) = (if i = k then name else ename (t i))"
  "eadr (reg_put k j name adr ty tsk t i) = (if i = j then adr else eadr (t i))"
  "alink (reg_put k j name adr ty tsk t i) = (if i = k then j else alink (t i))"
  "nlink (reg_put k j name adr ty tsk t i) = (if i = j then k else nlink (t i))"
  "etype (reg_put k j name adr ty tsk t i) = (if i = k then ty else etype (t i))"
  "etsk (reg_put k j name adr ty tsk t i) = (if i = k then tsk else etsk (t i))"
  "ecount (reg_put k j name adr ty tsk t i) = (if i = k then 1 else ecount (t i))"
  by (simp_all add: reg_put_def upd_slot_apply)

lemma reg_wf_put:
  assumes "reg_wf n t" "column_ok n ((\<lambda>k. ename (t k))(k := name))" "column_ok n ((\<lambda>k. eadr (t k))(j := adr))"
    and "k \<in> slots n" "j \<in> slots n" "ename (t k) \<le> 1" "eadr (t j) \<le> 1" "name > 1" "adr > 1"
  shows "reg_wf n (reg_put k j name adr ty tsk t)"
proof -
  have c: "(\<lambda>i. ename (reg_put k j name adr ty tsk t i)) = (\<lambda>k. ename (t k))(k := name)"
    "(\<lambda>i. eadr (reg_put k j name adr ty tsk t i)) = (\<lambda>k. eadr (t k))(j := adr)"
    by (auto simp: reg_put_sel)
  have j0: "0 \<noteq> j" using assms(5) by (auto simp: slots_def)
  have l: "alink (t i) \<noteq> j \<and> alink (t i) \<in> slots n \<and> eadr (t (alink (t i))) > 1 \<and> nlink (t (alink (t i))) = i"
    if "i \<in> slots n" "ename (t i) > 1" for i using reg_wfD(6) [OF assms(1) that] assms(7) by auto
  have r: "nlink (t i) \<noteq> k \<and> nlink (t i) \<in> slots n \<and> ename (t (nlink (t i))) > 1 \<and> alink (t (nlink (t i))) = i"
    if "i \<in> slots n" "eadr (t i) > 1" for i using reg_wfD(7) [OF assms(1) that] assms(6) by auto
  show ?thesis
    unfolding reg_wf_def c using assms(2-5, 8, 9) reg_wfD(1-3) [OF assms(1)] l r j0
    by (simp add: reg_put_sel)
qed

lemma slot_obj_put:
  assumes "reg_wf n t" "j \<in> slots n" "eadr (t j) \<le> 1" "i \<in> slots n" "ename (t i) > 1" "i \<noteq> k"
  shows "slot_obj (reg_put k j name adr ty tsk t) i = slot_obj t i"
  using reg_wfD(6) [OF assms(1, 4, 5)] assms(3, 6) by (auto simp: slot_obj_def reg_put_sel)

lemma reg_abs_put:
  assumes "reg_wf n t" "reg_wf n (reg_put k j name adr ty tsk t)"
    and "k \<in> slots n" "j \<in> slots n" "ename (t k) \<le> 1" "eadr (t j) \<le> 1" "name > 1"
  shows "reg_abs n (reg_put k j name adr ty tsk t) =
    (reg_abs n t)(name \<mapsto> \<lparr>oadr = adr, otype = ty, otsk = tsk, ocount = 1\<rparr>)" (is "reg_abs n ?t = ?m")
proof (rule reg_abs_eqI [OF reg_wfD(4) [OF assms(2)]])
  fix y :: nat
  show "?m y = None" if "y \<le> 1" using that assms(7) reg_abs_None [of n t y] by auto
  show "case ?m y of None \<Rightarrow> \<forall>k\<in>slots n. ename (?t k) \<noteq> y
    | Some ob \<Rightarrow> \<exists>k\<in>slots n. ename (?t k) = y \<and> slot_obj ?t k = ob" if y: "y > 1"
  proof (cases "y = name")
    case True
    then show ?thesis using assms(3) by (auto simp: reg_put_sel slot_obj_def intro!: bexI [of _ k])
  next
    case False
    show ?thesis
    proof (cases "reg_abs n t y")
      case None
      then show ?thesis using False y reg_abs_None [of n t y] by (auto simp: reg_put_sel)
    next
      case (Some ob)
      then obtain i where i: "i \<in> slots n" "ename (t i) = y" "slot_obj t i = ob" by (elim reg_abs_SomeD)
      then have "i \<noteq> k" using y assms(5) by auto
      then have "ename (?t i) = y \<and> slot_obj ?t i = ob"
        using i y slot_obj_put [OF assms(1, 4, 6) i(1)] by (simp add: reg_put_sel)
      then show ?thesis using i(1) Some False by auto
    qed
  qed
qed

lemma free_name_free_adr:
  assumes "reg_wf n t" "k \<in> slots n" "ename (t k) \<le> 1"
  shows "\<exists>j \<in> slots n. eadr (t j) \<le> 1"
proof (rule ccontr)
  assume "\<not> ?thesis"
  then have a: "eadr (t j) > 1" if "j \<in> slots n" for j using that by auto
  note w = reg_wfD(7) [OF assms(1)]
  have m: "nlink (t j) \<in> slots n" "alink (t (nlink (t j))) = j" if "j \<in> slots n" for j using w [OF that a [OF that]] by auto
  have "(\<lambda>j. nlink (t j)) ` slots n = slots n"
    using m by (intro endo_inj_surj inj_on_inverseI [where g = "\<lambda>i. alink (t i)"]) (auto simp: slots_def)
  then obtain j where "j \<in> slots n" "nlink (t j) = k" using assms(2) by (metis (mono_tags, lifting) imageE)
  then show False using w [of j] a [of j] assms(3) by auto
qed

lemma free_adr_free_name:
  assumes "reg_wf n t" "j \<in> slots n" "eadr (t j) \<le> 1"
  shows "\<exists>k \<in> slots n. ename (t k) \<le> 1"
proof (rule ccontr)
  assume "\<not> ?thesis"
  then have a: "ename (t k) > 1" if "k \<in> slots n" for k using that by auto
  note w = reg_wfD(6) [OF assms(1)]
  have m: "alink (t k) \<in> slots n" "nlink (t (alink (t k))) = k" if "k \<in> slots n" for k using w [OF that a [OF that]] by auto
  have "(\<lambda>k. alink (t k)) ` slots n = slots n"
    using m by (intro endo_inj_surj inj_on_inverseI [where g = "\<lambda>i. nlink (t i)"]) (auto simp: slots_def)
  then obtain k where "k \<in> slots n" "alink (t k) = j" using assms(2) by (metis (mono_tags, lifting) imageE)
  then show False using w [of k] a [of k] assms(3) by auto
qed

lemma registr_fresh:
  assumes wf: "reg_wf n t" and nm: "name > 1" "\<forall>k \<in> slots n. ename (t k) \<noteq> name"
    and ad: "adr > 1" "\<forall>k \<in> slots n. eadr (t k) \<noteq> adr" and free: "\<exists>k \<in> slots n. ename (t k) \<le> 1"
  shows "\<exists>t' k. registr n name adr ty tsk t = Some (t', int k) \<and> k \<in> slots n \<and> reg_wf n t' \<and>
    reg_abs n t' = (reg_abs n t)(name \<mapsto> \<lparr>oadr = adr, otype = ty, otsk = tsk, ocount = 1\<rparr>)"
proof -
  note n0 = reg_wfD(1) [OF wf]
  obtain k where fk: "find (\<lambda>k. \<not> (ename (t k) > 1 \<and> ename (t k) \<noteq> name)) (ring_from n (hash_fun name n)) = Some k"
    using column_find_full [OF n0 nm(2)] free by fastforce
  note k = column_find_free [OF n0 nm(2) fk]
  obtain j where fj: "find (\<lambda>k. \<not> (eadr (t k) > 1 \<and> eadr (t k) \<noteq> adr)) (ring_from n (hash_fun adr n)) = Some j"
    using column_find_full [OF n0 ad(2)] free_name_free_adr [OF wf k(1, 2)] by fastforce
  note j = column_find_free [OF n0 ad(2) fj]
  let ?t = "reg_put k j name adr ty tsk t"
  have w: "reg_wf n ?t"
    by (rule reg_wf_put [OF wf column_ins [OF reg_wfD(4) [OF wf] nm k] column_ins [OF reg_wfD(5) [OF wf] ad j]
          k(1) j(1) k(2) j(2) nm(1) ad(1)])
  have ne: "ename (t k) \<noteq> name" "eadr (t j) \<noteq> adr" using k j nm ad by auto
  have j0: "j \<noteq> 0" using j(1) by (simp add: slots_def)
  have e: "eadr (upd_slot k (\<lambda>e. e\<lparr>ename := name, etype := ty, etsk := tsk, ecount := 1, alink := 0\<rparr>) t i) = eadr (t i)" for i
    by (simp add: upd_slot_apply)
  have "hash_ins_adr adr n k (upd_slot k (\<lambda>e. e\<lparr>ename := name, etype := ty, etsk := tsk, ecount := 1, alink := 0\<rparr>) t)
    = Some (?t, int j)"
    using fj ne by (simp add: hash_ins_adr_def probe_find hash_fun_slots n0 e [unfolded One_nat_def] reg_put_def)
  then have "hash_ins_name name adr ty tsk n True t = Some (?t, int k)"
    using fk ne j0 by (simp add: hash_ins_name_def probe_find hash_fun_slots n0)
  then show ?thesis using w k(1) reg_abs_put [OF wf w k(1) j(1) k(2) j(2) nm(1)]
    by (auto simp: registr_def)
qed

lemma registr_full:
  assumes "reg_wf n t" "\<forall>k \<in> slots n. ename (t k) \<noteq> name" "\<forall>k \<in> slots n. ename (t k) > 1"
  shows "registr n name adr ty tsk t = Some (t, 0)"
  using column_find_full [OF reg_wfD(1) [OF assms(1)] assms(2)] assms(3)
  by (simp add: registr_def hash_ins_name_def probe_find hash_fun_slots reg_wfD(1) [OF assms(1)])

section \<open>Removal\<close>

lemma clear_sel:
  "ename (clear_name n k t i) = (if i = k then (if ename (t (nxt n k)) = 0 then 0 else 1) else ename (t i))"
  "eadr (clear_name n k t i) = eadr (t i)" "alink (clear_name n k t i) = alink (t i)"
  "nlink (clear_name n k t i) = nlink (t i)" "etype (clear_name n k t i) = etype (t i)"
  "etsk (clear_name n k t i) = etsk (t i)" "ecount (clear_name n k t i) = ecount (t i)"
  "eadr (clear_adr n k t i) = (if i = k then (if eadr (t (nxt n k)) = 0 then 0 else 1) else eadr (t i))"
  "ename (clear_adr n k t i) = ename (t i)" "alink (clear_adr n k t i) = alink (t i)"
  "nlink (clear_adr n k t i) = nlink (t i)" "etype (clear_adr n k t i) = etype (t i)"
  "etsk (clear_adr n k t i) = etsk (t i)" "ecount (clear_adr n k t i) = ecount (t i)"
  by (simp_all add: clear_name_def clear_adr_def upd_slot_apply)

lemma clear_commute: "clear_name n k (clear_adr n j t) = clear_adr n j (clear_name n k t)"
  by (rule ext, rule rt_registry_entry.equality) (simp_all add: clear_sel)

lemma reg_wf_clear:
  assumes "reg_wf n t" "k \<in> slots n" "ename (t k) > 1"
  shows "reg_wf n (clear_adr n (alink (t k)) (clear_name n k t))" (is "reg_wf n ?t")
proof -
  note j = reg_wfD(6) [OF assms]
  have c: "(\<lambda>i. ename (?t i)) = (\<lambda>k. ename (t k))(k := if ename (t (nxt n k)) = 0 then 0 else 1)"
    "(\<lambda>i. eadr (?t i)) = (\<lambda>k. eadr (t k))(alink (t k) := if eadr (t (nxt n (alink (t k)))) = 0 then 0 else 1)"
    by (auto simp: clear_sel)
  have z: "0 \<noteq> alink (t k)" using j by (auto simp: slots_def)
  have l: "alink (t i) \<noteq> alink (t k)" if "i \<in> slots n" "ename (t i) > 1" "i \<noteq> k" for i
    using reg_wfD(6) [OF assms(1) that(1, 2)] j that(3) by auto
  have r: "nlink (t i) \<noteq> k" if "i \<in> slots n" "eadr (t i) > 1" "i \<noteq> alink (t k)" for i
    using reg_wfD(7) [OF assms(1) that(1, 2)] that(3) by auto
  show ?thesis
    unfolding reg_wf_def c
  proof (intro conjI ballI impI)
    show "column_ok n ((\<lambda>k. ename (t k))(k := if ename (t (nxt n k)) = 0 then 0 else 1))"
      by (rule column_rem [OF reg_wfD(4) [OF assms(1)] assms(2)])
    show "column_ok n ((\<lambda>k. eadr (t k))(alink (t k) := if eadr (t (nxt n (alink (t k)))) = 0 then 0 else 1))"
      using j by (intro column_rem [OF reg_wfD(5) [OF assms(1)]]) simp
    fix i assume i: "i \<in> slots n"
    { assume "ename (?t i) > 1"
      then have "i \<noteq> k" "ename (t i) > 1" by (auto simp: clear_sel split: if_splits)
      then show "alink (?t i) \<in> slots n" "eadr (?t (alink (?t i))) > 1" "nlink (?t (alink (?t i))) = i"
        using l [OF i] reg_wfD(6) [OF assms(1) i] by (simp_all add: clear_sel) }
    { assume "eadr (?t i) > 1"
      then have "i \<noteq> alink (t k)" "eadr (t i) > 1" by (auto simp: clear_sel split: if_splits)
      then show "nlink (?t i) \<in> slots n" "ename (?t (nlink (?t i))) > 1" "alink (?t (nlink (?t i))) = i"
        using r [OF i] reg_wfD(7) [OF assms(1) i] by (simp_all add: clear_sel) }
  qed (use reg_wfD(1-3) [OF assms(1)] z in \<open>simp_all add: clear_sel\<close>)
qed

lemma reg_abs_clear:
  assumes "reg_wf n t" "k \<in> slots n" "ename (t k) = x" "x > 1"
  shows "reg_abs n (clear_adr n (alink (t k)) (clear_name n k t)) = (reg_abs n t)(x := None)" (is "reg_abs n ?t = ?m")
proof (rule reg_abs_eqI [OF reg_wfD(4) [OF reg_wf_clear]])
  note j = reg_wfD(6) [OF assms(1, 2)]
  fix y :: nat
  show "?m y = None" if "y \<le> 1" using that reg_abs_None [of n t y] by auto
  show "case ?m y of None \<Rightarrow> \<forall>k\<in>slots n. ename (?t k) \<noteq> y
    | Some ob \<Rightarrow> \<exists>k\<in>slots n. ename (?t k) = y \<and> slot_obj ?t k = ob" if y: "y > 1"
  proof (cases "y = x")
    case True
    have "ename (?t i) \<noteq> x" if "i \<in> slots n" for i
      using column_ok_same [OF reg_wfD(4) [OF assms(1)] that assms(2)] assms(3, 4) by (cases "i = k") (auto simp: clear_sel)
    then show ?thesis using True by simp
  next
    case False
    show ?thesis
    proof (cases "reg_abs n t y")
      case None
      then show ?thesis using False y reg_abs_None [of n t y] by (auto simp: clear_sel)
    next
      case (Some ob)
      then obtain i where i: "i \<in> slots n" "ename (t i) = y" "slot_obj t i = ob" by (elim reg_abs_SomeD)
      then have "i \<noteq> k" using False assms(3) by auto
      then have "ename (?t i) = y" "slot_obj ?t i = ob"
        using i y j assms(3, 4) reg_wfD(6) [OF assms(1) i(1)] by (auto simp: clear_sel slot_obj_def)
      then show ?thesis using i(1) Some False by auto
    qed
  qed
qed (use assms in auto)

end
