(* ===== verification/Sync_Msg.thy ===== *)
theory Sync_Msg
  imports Msg_Thms Registry Nam2num
begin

text \<open>
  The second set of message services of \<^verbatim>\<open>src/ipc/msg/msg.c\<close>: synchronous messages and proxies between tasks that
  are known by their pid, and names of tasks. A message is the address of a control block in the sender's stack; the
  state \<open>smsg_st\<close> adds these blocks, the names of the tasks, and which tasks have a stack of the kernel. Buffers are their contents;
  a null buffer is \<open>None\<close>. A result \<open>None\<close> stands for an access through a pointer that is null or an error code.
\<close>

record msgcb =
  cb_cmd :: int
  cb_sbuf :: "byte list"
  cb_sbytes :: nat
  cb_rbuf :: "byte list option"
  cb_rbytes :: nat

record smsg_st =
  kern :: kst
  cbs :: "int \<Rightarrow> msgcb"
  tname :: "tid \<Rightarrow> string"
  has_stack :: "tid \<Rightarrow> bool"

abbreviation (input) SYNCMSG :: int where "SYNCMSG \<equiv> 0"
abbreviation (input) PROXY :: int where "PROXY \<equiv> -1"
abbreviation (input) ESRCH :: int where "ESRCH \<equiv> 3"
abbreviation (input) EPERM :: int where "EPERM \<equiv> 1"
abbreviation (input) RTAI_MAX_NAME_LENGTH :: nat where "RTAI_MAX_NAME_LENGTH \<equiv> 32"

definition pid2rttask :: "int \<Rightarrow> kst \<Rightarrow> tid option" where
  "pid2rttask p s = rt_find_task_by_pid p s"

definition rttask2pid :: "tid \<Rightarrow> kst \<Rightarrow> int" where
  "rttask2pid t s = pid (tasks s t)"

section \<open>Sending and replying\<close>

text \<open>What \<^verbatim>\<open>rt_Send\<close> makes of the result of its \<^verbatim>\<open>rt_rpc\<close> to \<open>t\<close>.\<close>

definition send_result :: "tid \<Rightarrow> mtask \<Rightarrow> int option \<Rightarrow> int" where
  "send_result t r len =
     (case r of MNull \<Rightarrow> - EINVAL
      | MErr _ \<Rightarrow> - ESRCH
      | MTask u \<Rightarrow> if u \<noteq> t then - ESRCH else (case len of Some n \<Rightarrow> s32 n | None \<Rightarrow> 0))"

text \<open>\<^verbatim>\<open>rt_Send\<close> up to its switching point; \<open>adr\<close> is where its control block lies. \<open>Some\<close> is an early return.\<close>

definition rt_Send :: "nat \<Rightarrow> int \<Rightarrow> int \<Rightarrow> byte list \<Rightarrow> byte list option \<Rightarrow> nat \<Rightarrow> nat \<Rightarrow> smsg_st \<Rightarrow> smsg_st \<times> int option" where
  "rt_Send cpuid adr p smsg rmsg ssize rsize q =
     (case pid2rttask p (kern q) of
        None \<Rightarrow> (q, Some (- ESRCH))
      | Some t \<Rightarrow>
          (let cb = \<lparr>cb_cmd = SYNCMSG, cb_sbuf = smsg, cb_sbytes = ssize, cb_rbuf = rmsg, cb_rbytes = rsize\<rparr>
           in case rt_rpc cpuid t adr (kern q) of
                (s1, r) \<Rightarrow> (q\<lparr>kern := s1, cbs := (cbs q)(adr := cb)\<rparr>, map_option (\<lambda>m. send_result t m None) r)))"

definition rt_Send_resume :: "nat \<Rightarrow> tid \<Rightarrow> tid \<Rightarrow> smsg_st \<Rightarrow> smsg_st \<times> int" where
  "rt_Send_resume cpuid t task q =
     (case rt_rpc_resume cpuid t task (kern q) of (s1, r, len) \<Rightarrow> (q\<lparr>kern := s1\<rparr>, send_result task r len))"

definition rt_Reply :: "nat \<Rightarrow> int \<Rightarrow> byte list \<Rightarrow> nat \<Rightarrow> smsg_st \<Rightarrow> (smsg_st \<times> int) option" where
  "rt_Reply cpuid p data sz q =
     (case pid2rttask p (kern q) of
        None \<Rightarrow> Some (q, - ESRCH)
      | Some t \<Rightarrow>
          (let adr = msg (tasks (kern q) t); cb = cbs q adr in
           if cb_cmd cb \<noteq> SYNCMSG then Some (q, - EPERM)
           else
             (let retlen = (if sz \<le> cb_rbytes cb then sz else cb_rbytes cb);
                  copied = (if retlen = 0 then Some cb
                            else map_option (\<lambda>rb. cb\<lparr>cb_rbuf := Some (take retlen data @ drop retlen rb)\<rparr>) (cb_rbuf cb))
              in case copied of
                   None \<Rightarrow> None
                 | Some cb1 \<Rightarrow>
                     (case rt_return cpuid t (int retlen) (kern q) of
                        (s1, r) \<Rightarrow> Some (q\<lparr>kern := s1, cbs := (cbs q)(adr := cb1)\<rparr>,
                          case r of MNull \<Rightarrow> - EINVAL | MErr _ \<Rightarrow> - ESRCH | MTask u \<Rightarrow> if u \<noteq> t then - ESRCH else 0)))))"

section \<open>Receiving\<close>

text \<open>The pid of the sender and the bytes of its message, cut to the buffer.\<close>

definition read_message :: "int \<Rightarrow> tid \<Rightarrow> int option \<Rightarrow> nat \<Rightarrow> smsg_st \<Rightarrow> (smsg_st \<times> int \<times> byte list) option" where
  "read_message nopid u m maxsize q =
     (let p = rttask2pid u (kern q) in
      if p = 0 then Some (q, nopid, [])
      else map_option (\<lambda>adr. (q, p, take (if maxsize \<le> cb_sbytes (cbs q adr) then maxsize else cb_sbytes (cbs q adr)) (cb_sbuf (cbs q adr)))) m)"

definition sender_task :: "int \<Rightarrow> kst \<Rightarrow> tid option" where
  "sender_task p s = (if p \<noteq> 0 then pid2rttask p s else None)"

definition rt_Receive :: "nat \<Rightarrow> int \<Rightarrow> smsg_st \<Rightarrow> (smsg_st \<times> received) option" where
  "rt_Receive cpuid p q =
     map_option (\<lambda>(s1, how). (q\<lparr>kern := s1\<rparr>, how)) (rt_receive cpuid (sender_task p (kern q)) (kern q))"

text \<open>Its end, with the reply that \<^verbatim>\<open>rt_receive\<close> sends to a proxy.\<close>

definition rt_Receive_resume :: "nat \<Rightarrow> tid \<Rightarrow> received \<Rightarrow> nat \<Rightarrow> smsg_st \<Rightarrow> (smsg_st \<times> int \<times> byte list) option" where
  "rt_Receive_resume cpuid t how maxsize q =
     (case how of
        Early _ \<Rightarrow> Some (q, - EINVAL, [])
      | _ \<Rightarrow>
          (case rt_receive_resume t how (kern q) of
             (s1, r, m) \<Rightarrow>
               (let q1 = q\<lparr>kern := proxy_reply cpuid r s1\<rparr> in
                case r of MTask u \<Rightarrow> read_message (- ESRCH) u m maxsize q1 | _ \<Rightarrow> Some (q1, - EINVAL, []))))"

text \<open>\<^verbatim>\<open>rt_Creceive\<close>: any result that is not null is taken for a task.\<close>

definition rt_Creceive :: "nat \<Rightarrow> int \<Rightarrow> int \<Rightarrow> smsg_st \<Rightarrow> (smsg_st \<times> received \<times> bool) option" where
  "rt_Creceive cpuid p delay q =
     (let t = sender_task p (kern q) in
      if delay \<noteq> 0 then map_option (\<lambda>(s1, how, rd). (q\<lparr>kern := s1\<rparr>, how, rd)) (rt_receive_timed cpuid t delay (kern q))
      else map_option (\<lambda>(s1, how). (q\<lparr>kern := s1\<rparr>, how, True)) (rt_receive_if cpuid t (kern q)))"

definition rt_Creceive_resume :: "nat \<Rightarrow> tid \<Rightarrow> int \<Rightarrow> received \<Rightarrow> bool \<Rightarrow> nat \<Rightarrow> smsg_st \<Rightarrow> (smsg_st \<times> int \<times> byte list) option" where
  "rt_Creceive_resume cpuid t delay how rd maxsize q =
     (let (s1, r, m) = (case how of
            Early r \<Rightarrow> (kern q, r, None)
          | Taken a \<Rightarrow> (if delay \<noteq> 0 then rt_receive_until_resume t how rd (kern q) else rt_receive_if_resume t a (kern q))
          | Awaited \<Rightarrow> rt_receive_until_resume t how rd (kern q));
          q1 = q\<lparr>kern := proxy_reply cpuid r s1\<rparr>
      in case r of MNull \<Rightarrow> Some (q1, 0, [])
         | MErr _ \<Rightarrow> None
         | MTask u \<Rightarrow> read_message 0 u m maxsize q1)"

section \<open>Proxies\<close>

text \<open>A turn of the loop of \<^verbatim>\<open>Proxy_Task\<close>; \<open>adr\<close> is where its control block lies, which \<open>Proxy_start\<close> fills in.\<close>

definition Proxy_start :: "int \<Rightarrow> byte list \<Rightarrow> nat \<Rightarrow> smsg_st \<Rightarrow> smsg_st" where
  "Proxy_start adr bytes nbytes q =
     q\<lparr>cbs := (cbs q)(adr := \<lparr>cb_cmd = PROXY, cb_sbuf = bytes, cb_sbytes = nbytes, cb_rbuf = Some (replicate 8 0), cb_rbytes = 8\<rparr>)\<rparr>"

definition Proxy_turn :: "nat \<Rightarrow> int \<Rightarrow> smsg_st \<Rightarrow> smsg_st option" where
  "Proxy_turn cpuid adr q =
     (let s = kern q; me = RT_CURRENT cpuid s; k = tasks s me in
      if proxy_nmsgs k \<noteq> 0 then
        map_option (\<lambda>t. q\<lparr>kern := fst (rt_rpc cpuid t adr (upd_task me (\<lambda>k. k\<lparr>proxy_nmsgs := s32 (proxy_nmsgs k - 1)\<rparr>) s))\<rparr>)
          (proxy_receiver k)
      else Some (q\<lparr>kern := fst (rt_task_suspend cpuid (Some me) s)\<rparr>))"

text \<open>\<open>b\<close> and \<open>st\<close> are as for \<open>rt_proxy_attach\<close>: the block and the stack of the new task, if there is memory for them. The
  message lies in the stack, at \<open>m\<close>.\<close>

definition rt_Proxy_attach :: "nat \<Rightarrow> tid option \<Rightarrow> bool \<Rightarrow> int \<Rightarrow> int \<Rightarrow> int \<Rightarrow> smsg_st \<Rightarrow> smsg_st \<times> int" where
  "rt_Proxy_attach cpuid b st p m prty q =
     (case rt_proxy_attach cpuid b st (sender_task p (kern q)) m prty (kern q) of
        (s1, Some proxy) \<Rightarrow> (q\<lparr>kern := s1\<rparr>, pid (tasks s1 proxy))
      | (s1, None) \<Rightarrow> (q\<lparr>kern := s1\<rparr>, - ENOMEM))"

definition rt_Proxy_detach :: "nat \<Rightarrow> int \<Rightarrow> smsg_st \<Rightarrow> (smsg_st \<times> int) option" where
  "rt_Proxy_detach cpuid p q =
     (case pid2rttask p (kern q) of
        None \<Rightarrow> None
      | Some proxy \<Rightarrow> map_option (\<lambda>(s1, r). (q\<lparr>kern := s1\<rparr>, if r = 0 then 0 else - EINVAL)) (rt_task_delete cpuid proxy (kern q)))"

text \<open>A task with a stack that is not a proxy has something else at the bottom of it (\<open>None\<close>).\<close>

definition rt_Trigger :: "nat \<Rightarrow> int \<Rightarrow> smsg_st \<Rightarrow> (smsg_st \<times> int) option" where
  "rt_Trigger cpuid p q =
     (case pid2rttask p (kern q) of
        None \<Rightarrow> Some (q, - ESRCH)
      | Some proxy \<Rightarrow>
          if \<not> has_stack q proxy \<or> task_magic (tasks (kern q) proxy) \<noteq> RT_TASK_MAGIC then Some (q, - EINVAL)
          else
            (case proxy_receiver (tasks (kern q) proxy) of
               None \<Rightarrow> None
             | Some r \<Rightarrow>
                 (let s1 = fst (rt_task_resume cpuid proxy
                        (upd_task proxy (\<lambda>k. k\<lparr>proxy_nmsgs := s32 (proxy_nmsgs k + 1)\<rparr>) (kern q)))
                  in Some (q\<lparr>kern := s1\<rparr>, rttask2pid r s1))))"

section \<open>Names\<close>

text \<open>\<open>me\<close> is the task of the caller. The length that is tested at the end was just cut to one less.\<close>

definition rt_Name_attach :: "tid \<Rightarrow> string \<Rightarrow> smsg_st \<Rightarrow> smsg_st \<times> int" where
  "rt_Name_attach me argname q =
     (let nm = take (RTAI_MAX_NAME_LENGTH - 1) argname in
      (q\<lparr>tname := (tname q)(me := nm)\<rparr>,
       if length nm > RTAI_MAX_NAME_LENGTH - 1 then - EINVAL else pid (tasks (kern q) me)))"

text \<open>The tasks are searched CPU by CPU, then the registry for an object of that name, whose address \<open>task_at\<close> is taken for
  a task's; \<open>None\<close> is an access through an address that is not a task's.\<close>

definition rt_Name_locate :: "nat \<Rightarrow> (nat \<Rightarrow> tid option) \<Rightarrow> registry \<Rightarrow> string \<Rightarrow> smsg_st \<Rightarrow> int option" where
  "rt_Name_locate max_slots task_at reg uargname q =
     (let s = kern q; argname = take RTAI_MAX_NAME_LENGTH uargname;
          order = concat (map (\<lambda>c. filter (\<lambda>t. cpu_of s t = c) (all_tasks s)) [0..<num_online_cpus (tuned s)])
      in case List.find (\<lambda>t. take (RTAI_MAX_NAME_LENGTH - 1) argname = take (RTAI_MAX_NAME_LENGTH - 1) (tname q t)) order of
           Some t \<Rightarrow> Some (pid (tasks s t))
         | None \<Rightarrow>
             if length argname \<le> 6 then
               (case rt_get_adr max_slots (nam2num argname) reg of
                  None \<Rightarrow> None
                | Some a \<Rightarrow> if a = 0 then Some 0 else map_option (\<lambda>t. rttask2pid t s) (task_at a))
             else Some 0)"

definition rt_Name_detach :: "int \<Rightarrow> smsg_st \<Rightarrow> (smsg_st \<times> int) option" where
  "rt_Name_detach p q =
     map_option (\<lambda>t. (q\<lparr>tname := (tname q)(t := [])\<rparr>, 0)) (rt_find_task_by_pid p (kern q))"

end
