(* ===== verification/Sync_Msg_Thms.thy ===== *)
theory Sync_Msg_Thms
  imports Sync_Msg
begin

text \<open>A synchronous message makes its round: it is received with its sender's pid, the reply reaches the sender's
  buffer and its length the sender; and two places where the services go wrong.\<close>

section \<open>Frames\<close>

text \<open>Taking the message of a caller moves it to the return queue and notes it as the one received from.\<close>

lemma take_rpc:
  assumes "t \<noteq> r" "state (tasks s t) AND RT_SCHED_SEND = 0" "state (tasks s t) AND RT_SCHED_RPC \<noteq> 0"
  shows "tasks (take_message c t r s) u =
      (if u = t then (tasks s t)\<lparr>blocked_on := BQueue (RetQ r),
          state := (state (tasks s t) AND NOT (RT_SCHED_RPC OR RT_SCHED_DELAYED)) OR RT_SCHED_RETURN\<rparr>
       else if u = r then (tasks s r)\<lparr>msg_queue_task := Some t\<rparr> else tasks s u)"
    and "all_tasks (take_message c t r s) = all_tasks s" "rt_smp_current (take_message c t r s) = rt_smp_current s"
  using assms by (auto simp: take_message_def enqueue_blocked_def dequeue_blocked_def unlink_blocked_def rem_timed_task_def upd_task_def)

lemma find_pid_cong:
  assumes "all_tasks s' = all_tasks s" "\<And>u. pid (tasks s' u) = pid (tasks s u)" "\<And>u. cpu_of s' u = cpu_of s u"
  shows "rt_find_task_by_pid p s' = rt_find_task_by_pid p s"
  using assms by (simp add: rt_find_task_by_pid_def)

section \<open>The round of a message\<close>

lemma or_return: "(x OR RT_SCHED_RETURN) AND RT_SCHED_RETURN \<noteq> 0" for x :: u32
proof
  assume "(x OR RT_SCHED_RETURN) AND RT_SCHED_RETURN = 0"
  then have "RT_SCHED_RETURN AND RT_SCHED_RETURN = (0 :: u32)" by (simp only: bit.conj_disj_distrib2 or_eq_0_iff)
  then show False by simp
qed

lemma reply_to:
  assumes f: "rt_find_task_by_pid p (kern q) = Some t" "cbs q (msg (tasks (kern q) t)) = cb" "cb_cmd cb = SYNCMSG" "cb_rbuf cb = Some rb"
    and n: "n = (if sz \<le> cb_rbytes cb then sz else cb_rbytes cb)" "rt_return c t (int n) (kern q) = (s1, MTask t)"
  shows "rt_Reply c p data sz q =
    Some (q\<lparr>kern := s1, cbs := (cbs q)(msg (tasks (kern q) t) := cb\<lparr>cb_rbuf := Some (take n data @ drop n rb)\<rparr>)\<rparr>, 0)"
proof -
  have "cb\<lparr>cb_rbuf := Some rb\<rparr> = cb" using f(4) by (cases cb) simp
  note idem = this
  show ?thesis using f n
    by (cases "sz \<le> cb_rbytes cb"; cases "n = 0") (simp_all add: rt_Reply_def pid2rttask_def Let_def idem)
qed

text \<open>C23. Task \<open>t\<close> waits in \<^verbatim>\<open>rt_Send\<close>, first in the queue of task \<open>r\<close>, which runs and receives from anyone. Then \<open>r\<close>
  receives the pid of \<open>t\<close> and the bytes, cut to its buffer; its reply, cut to the buffer of \<open>t\<close>, is stored
  there; and \<^verbatim>\<open>rt_Send\<close> returns the number of bytes stored. What \<^verbatim>\<open>rt_Send\<close> does before it waits, and the
  hand-over to a receiver that waits already, are not part of this statement.\<close>

theorem message_makes_round:
  assumes q: "qring (kern q) (MsgQ r) = t # ts" "RT_CURRENT c (kern q) = r" "t \<noteq> r"
    and t: "state (tasks (kern q) t) AND RT_SCHED_SEND = 0" "state (tasks (kern q) t) AND RT_SCHED_RPC \<noteq> 0"
      "msg_queue_task (tasks (kern q) t) = Some r" "task_magic (tasks (kern q) t) = RT_TASK_MAGIC"
      "proxy_receiver (tasks (kern q) t) \<noteq> Some r" "ret_queue_task (tasks (kern q) r) = BNull"
    and p: "pid (tasks (kern q) t) \<noteq> 0" "rt_find_task_by_pid (pid (tasks (kern q) t)) (kern q) = Some t"
    and cb: "cbs q (msg (tasks (kern q) t)) =
      \<lparr>cb_cmd = SYNCMSG, cb_sbuf = smsg, cb_sbytes = ssize, cb_rbuf = Some rb, cb_rbytes = rsize\<rparr>"
    and n: "n = (if sz \<le> rsize then sz else rsize)" "n < 2 ^ 31"
  shows "\<exists>q1 how q2 q3. rt_Receive c 0 q = Some (q1, how) \<and>
    rt_Receive_resume c r how maxsize q1 = Some (q2, pid (tasks (kern q) t), take (if maxsize \<le> ssize then maxsize else ssize) smsg) \<and>
    rt_Reply c (pid (tasks (kern q) t)) data sz q2 = Some (q3, 0) \<and>
    cb_rbuf (cbs q3 (msg (tasks (kern q) t))) = Some (take n data @ drop n rb) \<and>
    rt_Send_resume c' t r q3 = (q3, int n)"
proof -
  let ?s = "kern q" and ?adr = "msg (tasks (kern q) t)" and ?p = "pid (tasks (kern q) t)"
  let ?s1 = "take_message c t r ?s"
  note tk = take_rpc [OF q(3) t(1,2), of c]
  have "state (tasks ?s t) AND (RT_SCHED_SEND OR RT_SCHED_RPC) \<noteq> 0"
    using t(1,2) by (simp only: bit.conj_disj_distrib or_eq_0_iff) simp
  then have rc: "rt_receive c None ?s = Some (?s1, Taken ?adr)"
    using q t by (simp add: rt_receive_def bad_receiver_def msg_from_def has_message_def)
  define s2 where "s2 = upd_task r (\<lambda>k. k\<lparr>msg_queue_task := Some r\<rparr>) ?s1"
  have rr: "rt_receive_resume r (Taken ?adr) ?s1 = (s2, MTask t, Some ?adr)"
    using t(6) q(3) by (simp add: rt_receive_resume_def tk s2_def)
  have cur: "rt_smp_current s2 c = r" using q(2) by (simp add: s2_def tk)
  have px: "proxy_reply c (MTask t) s2 = s2"
    using t(5) q(2,3) by (simp add: proxy_reply_def s2_def tk)
  let ?q2 = "q\<lparr>kern := s2\<rparr>" and ?cb = "(cbs q ?adr)\<lparr>cb_rbuf := Some (take n data @ drop n rb)\<rparr>"
  have recv: "rt_Receive c 0 q = Some (q\<lparr>kern := ?s1\<rparr>, Taken ?adr)"
    using rc by (simp add: rt_Receive_def sender_task_def)
  have p2: "rttask2pid t s2 = ?p" using q(3) by (simp add: rttask2pid_def s2_def tk)
  have res: "rt_Receive_resume c r (Taken ?adr) maxsize (q\<lparr>kern := ?s1\<rparr>) =
      Some (?q2, ?p, take (if maxsize \<le> ssize then maxsize else ssize) smsg)"
    using rr px p(1) by (simp add: rt_Receive_resume_def read_message_def p2 cb)
  have find: "rt_find_task_by_pid ?p s2 = Some t"
    using find_pid_cong [of s2 ?s ?p] p(2) q(3) by (simp add: s2_def tk)
  have "awaits_return t r s2" using q(3) t(3) or_return by (simp add: awaits_return_def s2_def tk)
  then have ret: "rt_return c t (int n) s2 = (do_return c r t (int n) s2, MTask t)"
    using q(3) t(4) cur by (simp add: rt_return_def s2_def tk)
  let ?s3 = "do_return c r t (int n) s2"
  let ?q3 = "q\<lparr>kern := ?s3, cbs := (cbs q)(?adr := ?cb)\<rparr>"
  have m2: "msg (tasks s2 t) = ?adr" using q(3) by (simp add: s2_def tk)
  have rep: "rt_Reply c ?p data sz ?q2 = Some (?q3, 0)"
  proof -
    have "n = (if sz \<le> cb_rbytes (cbs q ?adr) then sz else cb_rbytes (cbs q ?adr))" using n(1) unfolding cb by simp
    from reply_to [of ?p ?q2 t "cbs q ?adr" rb n sz c ?s3 data, OF _ _ _ _ this] show ?thesis using ret by (simp add: find m2 cb)
  qed
  have "msg (tasks ?s3 t) = int n" "msg_queue_task (tasks ?s3 t) = Some t"
    by (simp_all add: do_return_def split_beta Let_def)
  then have "rt_Send_resume c' t r ?q3 = (?q3, int n)"
    using n(2) by (simp add: rt_Send_resume_def rt_rpc_resume_def send_result_def s32_id)
  then show ?thesis using recv res rep by (intro exI conjI) (assumption | simp)+
qed

section \<open>Where the services go wrong\<close>

text \<open>A receive with a time limit that passes, or that is unblocked, gives an error code; \<^verbatim>\<open>rt_Creceive\<close> takes it
  for the address of a task.\<close>

lemma creceive_follows_error_code:
  "ret_queue_task (tasks (kern q) t) \<noteq> BNull \<Longrightarrow> rt_Creceive_resume c t delay Awaited rd n q = None"
  by (simp add: rt_Creceive_resume_def rt_receive_until_resume_def rt_receive_resume_def split: prod.splits)

text \<open>A receive from a pid that no task has is a receive from anyone.\<close>

lemma unknown_pid_means_anyone: "rt_find_task_by_pid p (kern q) = None \<Longrightarrow> rt_Receive c p q = rt_Receive c 0 q"
  by (simp add: rt_Receive_def sender_task_def pid2rttask_def)

text \<open>After a reply the message of the sender is the length of the reply; a second reply takes it for the address of a control
  block before it finds out that nobody waits.\<close>

lemma second_reply_follows_length:
  assumes "rt_Reply c p data sz q = Some (q1, 0)" "rt_find_task_by_pid p (kern q) = Some t"
  shows "msg (tasks (kern q1) t) = int (min sz (cb_rbytes (cbs q (msg (tasks (kern q) t)))))"
proof -
  let ?n = "if sz \<le> cb_rbytes (cbs q (msg (tasks (kern q) t))) then sz else cb_rbytes (cbs q (msg (tasks (kern q) t)))"
  have r: "snd (rt_return c t (int ?n) (kern q)) = MTask t \<and> kern q1 = fst (rt_return c t (int ?n) (kern q))"
    using assms by (auto simp: rt_Reply_def pid2rttask_def Let_def split: if_splits option.splits prod.splits mtask.splits)
  then have "kern q1 = do_return c (RT_CURRENT c (kern q)) t (int ?n) (kern q)"
    by (auto simp: rt_return_def Let_def split: if_splits)
  moreover have "msg (tasks (do_return c u t m s) t) = m" for u m s by (simp add: do_return_def split_beta Let_def)
  ultimately show ?thesis by (simp add: min_def)
qed

text \<open>A name is cut before its length is tested, so the test never fails.\<close>

lemma name_attach_never_fails: "snd (rt_Name_attach me nm q) = pid (tasks (kern q) me)"
  by (simp add: rt_Name_attach_def Let_def)

section \<open>Witness\<close>

text \<open>Task 3 has sent two bytes to task 2.\<close>

definition demo_msg :: smsg_st where
  "demo_msg =
     \<lparr>kern = (upd_ring (MsgQ (Task 2)) (\<lambda>_. [Task 3]) (upd_task (Task 3)
        (\<lambda>k. k\<lparr>state := RT_SCHED_READY OR RT_SCHED_RPC, msg := 500, msg_queue_task := Some (Task 2), pid := 16,
               blocked_on := BQueue (MsgQ (Task 2)), runnable_on_cpus := 0, proxy_receiver := None\<rparr>)
           (upd_task (Task 2) (\<lambda>k. k\<lparr>ret_queue_task := BNull\<rparr>) demo_run)))\<lparr>all_tasks := [Task 3]\<rparr>,
      cbs = (\<lambda>_. \<lparr>cb_cmd = SYNCMSG, cb_sbuf = [7, 8], cb_sbytes = 2, cb_rbuf = Some [0, 0, 0], cb_rbytes = 3\<rparr>),
      tname = (\<lambda>_. []), has_stack = (\<lambda>_. True)\<rparr>"

theorem message_makes_round_witness:
  "\<exists>q1 how q2 q3. rt_Receive 0 0 demo_msg = Some (q1, how) \<and>
    rt_Receive_resume 0 (Task 2) how 5 q1 = Some (q2, 16, [7, 8]) \<and>
    rt_Reply 0 16 [9, 9, 9, 9] 4 q2 = Some (q3, 0) \<and> cb_rbuf (cbs q3 500) = Some [9, 9, 9] \<and>
    rt_Send_resume 0 (Task 3) (Task 2) q3 = (q3, 3)"
  using message_makes_round [of demo_msg "Task 2" "Task 3" "[]" 0 "[7, 8]" 2 "[0, 0, 0]" 3 3 4 5 "[9, 9, 9, 9]" 0]
  by (simp add: demo_msg_def upd_ring_def demo_run_eq demo_ready_eq demo_init_tasks rt_find_task_by_pid_def demo_run_calm)

end
