(* ===== verification/Registry_Thms.thy ===== *)
theory Registry_Thms
  imports Registry
begin

text \<open>
  What the registry guarantees: as long as objects have distinct addresses it behaves as a
  finite map from names to objects, whatever collisions and removals there were; generated
  names are new; and three uses for which the map breaks.
\<close>

section \<open>Specification\<close>

datatype reg_op =
    Register nat nat int nat
  | DrgName nat
  | DrgNameCnt nat
  | DrgAdr nat
  | DrgAdrCnt nat
  | GetAdr nat
  | GetAdrCnt nat
  | GetName nat
  | GetType nat

text \<open>The operations on a registry of \<open>n\<close> slots, results as integers.\<close>

fun reg_exec :: "nat \<Rightarrow> reg_op \<Rightarrow> registry \<Rightarrow> (registry \<times> int) option" where
  "reg_exec n (Register x a ty tsk) t = rt_register n x a ty tsk t"
| "reg_exec n (DrgName x) t = rt_drg_on_name n x t"
| "reg_exec n (DrgNameCnt x) t = rt_drg_on_name_cnt n x t"
| "reg_exec n (DrgAdr a) t = rt_drg_on_adr n a t"
| "reg_exec n (DrgAdrCnt a) t = rt_drg_on_adr_cnt n a t"
| "reg_exec n (GetAdr x) t = map_option (\<lambda>a. (t, int a)) (rt_get_adr n x t)"
| "reg_exec n (GetAdrCnt x) t = map_option (\<lambda>(u, a). (u, int a)) (rt_get_adr_cnt n x t)"
| "reg_exec n (GetName a) t = map_option (\<lambda>(_, x). (t, int x)) (rt_get_name n a t 0)"
| "reg_exec n (GetType x) t = map_option (\<lambda>ty. (t, ty)) (rt_get_type n x t)"

text \<open>One use less of an object; the last one removes it.\<close>

definition count_less :: "robj \<Rightarrow> robj option" where
  "count_less ob = (if ocount ob = 0 then Some ob else if ocount ob = 1 then None else Some (ob\<lparr>ocount := ocount ob - 1\<rparr>))"

text \<open>The same operations on the map, with what is said of the result.\<close>

fun reg_spec :: "nat \<Rightarrow> reg_op \<Rightarrow> (nat \<rightharpoonup> robj) \<Rightarrow> (nat \<rightharpoonup> robj) \<times> (int \<Rightarrow> bool)" where
  "reg_spec n (Register x a ty tsk) m =
     (if x \<in> dom m \<or> card (dom m) \<ge> n then (m, \<lambda>r. r = 0)
      else (m(x \<mapsto> \<lparr>oadr = a, otype = ty, otsk = tsk, ocount = 1\<rparr>), \<lambda>r. r > 0))"
| "reg_spec n (DrgName x) m = (m(x := None), \<lambda>r. if x \<in> dom m then r > 0 else r = 0)"
| "reg_spec n (DrgNameCnt x) m =
     (case m x of None \<Rightarrow> (m, \<lambda>r. r = 0 \<or> r = - EFAULT)
      | Some ob \<Rightarrow> (m(x := count_less ob), \<lambda>r. r = int (ocount ob - 1)))"
| "reg_spec n (DrgAdr a) m =
     (\<lambda>x. case m x of None \<Rightarrow> None | Some ob \<Rightarrow> if oadr ob = a then None else Some ob,
      \<lambda>r. if \<exists>x ob. m x = Some ob \<and> oadr ob = a then r > 0 else r = 0)"
| "reg_spec n (DrgAdrCnt a) m =
     (\<lambda>x. case m x of None \<Rightarrow> None | Some ob \<Rightarrow> if oadr ob = a then count_less ob else Some ob,
      \<lambda>r. if \<exists>x ob. m x = Some ob \<and> oadr ob = a
          then \<exists>x ob. m x = Some ob \<and> oadr ob = a \<and> r = int (ocount ob - 1) else r = 0 \<or> r = - EFAULT)"
| "reg_spec n (GetAdr x) m = (m, \<lambda>r. r = (case m x of None \<Rightarrow> 0 | Some ob \<Rightarrow> int (oadr ob)))"
| "reg_spec n (GetAdrCnt x) m =
     (case m x of None \<Rightarrow> (m, \<lambda>r. r = 0)
      | Some ob \<Rightarrow> (m(x \<mapsto> ob\<lparr>ocount := u16 (ocount ob + 1)\<rparr>), \<lambda>r. r = int (oadr ob)))"
| "reg_spec n (GetName a) m =
     (m, \<lambda>r. if \<exists>x ob. m x = Some ob \<and> oadr ob = a
          then \<exists>x ob. m x = Some ob \<and> oadr ob = a \<and> r = int x else r = 0)"
| "reg_spec n (GetType x) m = (m, \<lambda>r. r = (case m x of None \<Rightarrow> - EINVAL | Some ob \<Rightarrow> otype ob))"

text \<open>The use the specification covers: keys are neither null nor the mark 1, and a new name
  comes with a new address.\<close>

fun reg_legal :: "reg_op \<Rightarrow> (nat \<rightharpoonup> robj) \<Rightarrow> bool" where
  "reg_legal (Register x a ty tsk) m \<longleftrightarrow> x > 1 \<and> a > 1 \<and> (x \<in> dom m \<or> (\<forall>ob \<in> ran m. oadr ob \<noteq> a))"
| "reg_legal (DrgName x) m \<longleftrightarrow> x > 1"
| "reg_legal (DrgNameCnt x) m \<longleftrightarrow> x > 1"
| "reg_legal (DrgAdr a) m \<longleftrightarrow> a > 1"
| "reg_legal (DrgAdrCnt a) m \<longleftrightarrow> a > 1"
| "reg_legal (GetAdr x) m \<longleftrightarrow> x > 1"
| "reg_legal (GetAdrCnt x) m \<longleftrightarrow> x > 1"
| "reg_legal (GetName a) m \<longleftrightarrow> a > 1"
| "reg_legal (GetType x) m \<longleftrightarrow> x > 1"

section \<open>Each operation refines its specification\<close>

definition reg_refines :: "nat \<Rightarrow> reg_op \<Rightarrow> registry \<Rightarrow> bool" where
  "reg_refines n op t \<longleftrightarrow> (\<exists>t' r. reg_exec n op t = Some (t', r) \<and> reg_wf n t' \<and>
     reg_abs n t' = fst (reg_spec n op (reg_abs n t)) \<and> snd (reg_spec n op (reg_abs n t)) r)"

lemma reg_refinesI:
  "reg_exec n op t = Some (t', r) \<Longrightarrow> reg_wf n t' \<Longrightarrow> reg_abs n t' = fst (reg_spec n op (reg_abs n t)) \<Longrightarrow>
   snd (reg_spec n op (reg_abs n t)) r \<Longrightarrow> reg_refines n op t"
  by (auto simp: reg_refines_def)

lemma name_cases:
  assumes "reg_wf n t" "x > 1"
  obtains (miss) "reg_abs n t x = None" "\<forall>k \<in> slots n. ename (t k) \<noteq> x"
  | (hit) k where "k \<in> slots n" "ename (t k) = x" "reg_abs n t x = Some (slot_obj t k)"
proof (cases "reg_abs n t x")
  case None
  then show ?thesis using assms(2) reg_abs_None [of n t x] by (intro miss) auto
next
  case (Some ob)
  then show ?thesis by (elim reg_abs_SomeD) (metis hit Some)
qed

text \<open>The address in a slot is that of exactly one object.\<close>

lemma adr_cases:
  assumes "reg_wf n t" "a > 1"
  obtains (miss) "\<And>x ob. reg_abs n t x = Some ob \<Longrightarrow> oadr ob \<noteq> a" "\<forall>k \<in> slots n. eadr (t k) \<noteq> a"
  | (hit) j where "j \<in> slots n" "eadr (t j) = a" "nlink (t j) \<in> slots n" "ename (t (nlink (t j))) > 1"
      "alink (t (nlink (t j))) = j"
      "\<And>x ob. reg_abs n t x = Some ob \<and> oadr ob = a \<longleftrightarrow> x = ename (t (nlink (t j))) \<and> ob = slot_obj t (nlink (t j))"
proof (cases "\<exists>j \<in> slots n. eadr (t j) = a")
  case False
  then show ?thesis using reg_wfD(6) [OF assms(1)]
    by (intro miss) (auto elim!: reg_abs_SomeD simp: slot_obj_def)
next
  case True
  then obtain j where j: "j \<in> slots n" "eadr (t j) = a" by blast
  note l = reg_wfD(7) [OF assms(1) j(1)]
  have "reg_abs n t x = Some ob \<and> oadr ob = a \<longleftrightarrow> x = ename (t (nlink (t j))) \<and> ob = slot_obj t (nlink (t j))" for x ob
  proof
    assume ob: "reg_abs n t x = Some ob \<and> oadr ob = a"
    then obtain k where k: "k \<in> slots n" "ename (t k) = x" "x > 1" "slot_obj t k = ob" by (auto elim: reg_abs_SomeD)
    have w: "alink (t k) \<in> slots n" "nlink (t (alink (t k))) = k" using reg_wfD(6) [OF assms(1) k(1)] k by auto
    then have "alink (t k) = j"
      using ob k(4) j assms(2) column_ok_same [OF reg_wfD(5) [OF assms(1)], of "alink (t k)" j] by (auto simp: slot_obj_def)
    then show "x = ename (t (nlink (t j))) \<and> ob = slot_obj t (nlink (t j))" using w k by auto
  next
    assume "x = ename (t (nlink (t j))) \<and> ob = slot_obj t (nlink (t j))"
    then show "reg_abs n t x = Some ob \<and> oadr ob = a"
      using reg_abs_Some [OF reg_wfD(4) [OF assms(1)]] l j assms(2) by (auto simp: slot_obj_def)
  qed
  then show ?thesis using l j assms(2) by (intro hit) auto
qed

lemma card_dom_abs:
  assumes "reg_wf n t"
  shows "card (dom (reg_abs n t)) \<ge> n \<longleftrightarrow> (\<forall>k \<in> slots n. ename (t k) > 1)"
proof -
  let ?K = "{k \<in> slots n. ename (t k) > 1}"
  have "dom (reg_abs n t) = (\<lambda>k. ename (t k)) ` ?K"
    using reg_abs_Some [OF reg_wfD(4) [OF assms]] by (auto elim!: reg_abs_SomeD)
  moreover have "inj_on (\<lambda>k. ename (t k)) ?K" using column_ok_same [OF reg_wfD(4) [OF assms]] by (auto intro: inj_onI)
  ultimately have c: "card (dom (reg_abs n t)) = card ?K" by (simp add: card_image)
  have f: "finite (slots n)" "card (slots n) = n" by (simp_all add: slots_def)
  show ?thesis
  proof
    assume "card (dom (reg_abs n t)) \<ge> n"
    then have "?K = slots n" using f c by (intro card_seteq) auto
    then show "\<forall>k \<in> slots n. ename (t k) > 1" by blast
  next
    assume "\<forall>k \<in> slots n. ename (t k) > 1"
    then have "?K = slots n" by blast
    then show "card (dom (reg_abs n t)) \<ge> n" using f c by simp
  qed
qed

lemma get_adr_miss: "0 < n \<Longrightarrow> \<forall>k \<in> slots n. ename (t k) \<noteq> x \<Longrightarrow> rt_get_adr n x t = Some 0"
  by (simp add: rt_get_adr_def find_name_miss)

lemma get_adr_hit:
  "reg_wf n t \<Longrightarrow> k \<in> slots n \<Longrightarrow> ename (t k) = x \<Longrightarrow> x > 1 \<Longrightarrow> rt_get_adr n x t = Some (oadr (slot_obj t k))"
  by (simp add: rt_get_adr_def find_name_hit)

lemma refines_register:
  assumes "reg_wf n t" "reg_legal (Register x a ty tsk) (reg_abs n t)"
  shows "reg_refines n (Register x a ty tsk) t"
proof -
  note n0 = reg_wfD(1) [OF assms(1)]
  have xa: "x > 1" "a > 1" using assms(2) by auto
  show ?thesis
    using assms(1) xa(1)
  proof (cases rule: name_cases)
    case (hit k)
    then have "oadr (slot_obj t k) \<noteq> 0" using reg_wfD(6) [OF assms(1) hit(1)] xa by (simp add: slot_obj_def)
    then show ?thesis using hit xa assms(1) get_adr_hit [OF assms(1) hit(1, 2) xa(1)]
      by (intro reg_refinesI [where t' = t and r = 0]) (auto simp: rt_register_def)
  next
    case miss
    then have r: "rt_register n x a ty tsk t = registr n x a ty tsk t" using get_adr_miss [OF n0] by (simp add: rt_register_def)
    have dm: "x \<notin> dom (reg_abs n t)" using miss by auto
    have ad: "\<forall>k \<in> slots n. eadr (t k) \<noteq> a"
      using assms(1) xa(2)
    proof (cases rule: adr_cases)
      case (hit j)
      then have "reg_abs n t (ename (t (nlink (t j)))) = Some (slot_obj t (nlink (t j)))" "oadr (slot_obj t (nlink (t j))) = a" by auto
      then show ?thesis using assms(2) dm by (auto simp: ran_def)
    qed
    show ?thesis
    proof (cases "card (dom (reg_abs n t)) \<ge> n")
      case True
      then have "registr n x a ty tsk t = Some (t, 0)" using card_dom_abs [OF assms(1)] registr_full [OF assms(1) miss(2)] by simp
      then show ?thesis using True r assms(1) by (intro reg_refinesI [where t' = t and r = 0]) auto
    next
      case False
      then have "\<exists>k \<in> slots n. ename (t k) \<le> 1" using card_dom_abs [OF assms(1)] by (auto simp: not_less)
      then obtain t' k where "registr n x a ty tsk t = Some (t', int k)" "k \<in> slots n" "reg_wf n t'"
        "reg_abs n t' = (reg_abs n t)(x \<mapsto> \<lparr>oadr = a, otype = ty, otsk = tsk, ocount = 1\<rparr>)"
        using registr_fresh [OF assms(1) xa(1) miss(2) xa(2) ad] by blast
      then show ?thesis using False dm r by (intro reg_refinesI [where t' = t' and r = "int k"]) (auto simp: slots_def)
    qed
  qed
qed

lemma count_slot:
  "upd_slot k (\<lambda>e. e\<lparr>ecount := g (ecount e)\<rparr>) t = upd_slot k (\<lambda>e. e\<lparr>ecount := g (ecount (t k))\<rparr>) t"
  by (simp add: upd_slot_def)

lemma slot_obj_ocount: "ocount (slot_obj t k) = ecount (t k)"
  by (simp add: slot_obj_def)

lemma refines_lookup:
  assumes "reg_wf n t" "x > 1"
  shows "reg_refines n (GetAdr x) t" "reg_refines n (GetAdrCnt x) t" "reg_refines n (GetType x) t"
proof -
  note n0 = reg_wfD(1) [OF assms(1)]
  have "reg_refines n (GetAdr x) t \<and> reg_refines n (GetAdrCnt x) t \<and> reg_refines n (GetType x) t"
    using assms
  proof (cases rule: name_cases)
    case miss
    then have "hash_find_name x n inc t = Some (t, 0, None)" for inc by (simp add: find_name_miss [OF n0])
    then show ?thesis using miss assms(1)
      by (auto simp: rt_get_adr_def rt_get_adr_cnt_def rt_get_type_def intro!: reg_refinesI [where t' = t])
  next
    case (hit k)
    have "oadr (slot_obj t k) \<noteq> 0" using reg_wfD(6) [OF assms(1) hit(1)] hit(2) assms(2) by (simp add: slot_obj_def)
    moreover have "reg_refines n (GetAdrCnt x) t"
    proof (rule reg_refinesI)
      show "reg_exec n (GetAdrCnt x) t = Some (upd_slot k (\<lambda>e. e\<lparr>ecount := u16 (ecount (t k) + 1)\<rparr>) t, int (oadr (slot_obj t k)))"
        by (simp add: rt_get_adr_cnt_def find_name_hit [OF assms(1) hit(1, 2) assms(2)] count_slot [of _ "\<lambda>c. u16 (Suc c)"])
    qed (use hit(3) in \<open>simp_all add: reg_wf_count assms(1) reg_abs_count [OF assms(1) hit(1, 2) assms(2)] slot_obj_ocount\<close>)
    moreover have f: "hash_find_name x n False t = Some (t, oadr (slot_obj t k), Some k)"
      using find_name_hit [OF assms(1) hit(1, 2) assms(2), of False] by simp
    have "reg_refines n (GetAdr x) t"
      by (rule reg_refinesI [where t' = t and r = "int (oadr (slot_obj t k))"])
        (use hit(3) assms(1) in \<open>simp_all add: rt_get_adr_def f\<close>)
    moreover have "reg_refines n (GetType x) t"
      by (rule reg_refinesI [where t' = t and r = "otype (slot_obj t k)"])
        (use hit(3) assms(1) calculation(1) in \<open>simp_all add: rt_get_type_def f, simp add: slot_obj_def\<close>)
    ultimately show ?thesis by blast
  qed
  then show "reg_refines n (GetAdr x) t" "reg_refines n (GetAdrCnt x) t" "reg_refines n (GetType x) t" by auto
qed

lemma refines_get_name:
  assumes "reg_wf n t" "a > 1"
  shows "reg_refines n (GetName a) t"
  using assms
proof (cases rule: adr_cases)
  case miss
  then show ?thesis using assms
    by (intro reg_refinesI [where t' = t and r = 0]) (auto simp: rt_get_name_def find_adr_miss reg_wfD(1) [OF assms(1)])
next
  case (hit j)
  then show ?thesis using assms
    by (intro reg_refinesI [where t' = t and r = "int (ename (t (nlink (t j))))"])
      (simp_all add: rt_get_name_def find_adr_hit [OF assms(1) hit(1, 2)])
qed

text \<open>A use less of the object in slot \<open>k\<close>, or its removal.\<close>

definition slot_less :: "nat \<Rightarrow> nat \<Rightarrow> registry \<Rightarrow> registry" where
  "slot_less n k t =
     (let u = upd_slot k (\<lambda>e. e\<lparr>ecount := ecount (t k) - 1\<rparr>) t in
      if ecount (t k) = 1 then clear_adr n (alink (t k)) (clear_name n k u) else u)"

lemma upd_count_sel:
  "ename (upd_slot k (\<lambda>e. e\<lparr>ecount := c\<rparr>) t i) = ename (t i)" "alink (upd_slot k (\<lambda>e. e\<lparr>ecount := c\<rparr>) t i) = alink (t i)"
  "nlink (upd_slot k (\<lambda>e. e\<lparr>ecount := c\<rparr>) t i) = nlink (t i)" "ecount (upd_slot k (\<lambda>e. e\<lparr>ecount := c\<rparr>) t k) = c"
  by (simp_all add: upd_slot_apply)

lemma slot_less_ok:
  assumes "reg_wf n t" "k \<in> slots n" "ename (t k) = x" "x > 1"
  shows "reg_wf n (slot_less n k t)" "reg_abs n (slot_less n k t) = (reg_abs n t)(x := count_less (slot_obj t k))"
    "ecount (slot_less n k t k) = ecount (t k) - 1"
proof -
  let ?u = "upd_slot k (\<lambda>e. e\<lparr>ecount := ecount (t k) - 1\<rparr>) t"
  have u: "reg_wf n ?u" "reg_abs n ?u = (reg_abs n t)(x \<mapsto> (slot_obj t k)\<lparr>ocount := ecount (t k) - 1\<rparr>)"
    using reg_wf_count reg_abs_count assms by blast+
  have c: "reg_wf n (clear_adr n (alink (t k)) (clear_name n k ?u))"
    "reg_abs n (clear_adr n (alink (t k)) (clear_name n k ?u)) = (reg_abs n ?u)(x := None)"
    using reg_wf_clear [OF u(1) assms(2)] reg_abs_clear [OF u(1) assms(2)] assms(3, 4) by (simp_all add: upd_count_sel)
  have s: "slot_less n k t = (if ecount (t k) = 1 then clear_adr n (alink (t k)) (clear_name n k ?u) else ?u)"
    by (simp only: slot_less_def Let_def)
  show "reg_wf n (slot_less n k t)" using u(1) c(1) s by metis
  have z: "(slot_obj t k)\<lparr>ocount := 0\<rparr> = slot_obj t k" if "ecount (t k) = 0" using that by (simp add: slot_obj_def)
  show "reg_abs n (slot_less n k t) = (reg_abs n t)(x := count_less (slot_obj t k))"
    using u(2) c(2) s z by (cases "ecount (t k) = 1") (auto simp: count_less_def slot_obj_ocount)
  show "ecount (slot_less n k t k) = ecount (t k) - 1" by (simp add: slot_less_def Let_def clear_sel upd_count_sel)
qed

lemma rem_name_miss:
  assumes "0 < n" "\<forall>k \<in> slots n. ename (t k) \<noteq> x"
  shows "hash_rem_name x n dcr t = Some (t, 0) \<or> hash_rem_name x n dcr t = Some (t, dcr)"
proof (cases "find (\<lambda>k. \<not> (ename (t k) \<noteq> 0 \<and> ename (t k) \<noteq> x)) (ring_from n (hash_fun x n))")
  case (Some k)
  then have "ename (t k) \<noteq> x" using column_find_absent [OF assms Some] assms(2) by auto
  then show ?thesis using Some by (simp add: hash_rem_name_def probe_find hash_fun_slots assms(1))
qed (simp add: hash_rem_name_def probe_find hash_fun_slots assms(1))

lemma rem_name_hit:
  assumes "reg_wf n t" "k \<in> slots n" "ename (t k) = x" "x > 1"
  shows "hash_rem_name x n 0 t = Some (clear_adr n (alink (t k)) (clear_name n k t), int k)"
    "dcr \<noteq> 0 \<Longrightarrow> ecount (t k) \<noteq> 0 \<Longrightarrow> hash_rem_name x n dcr t = Some (slot_less n k t, int (ecount (t k) - 1))"
    "dcr \<noteq> 0 \<Longrightarrow> ecount (t k) = 0 \<Longrightarrow> hash_rem_name x n dcr t = Some (t, 0)"
proof -
  have f: "probe (\<lambda>k. \<not> (ename (t k) \<noteq> 0 \<and> ename (t k) \<noteq> x)) n (hash_fun x n) (hash_fun x n) = Some (Some k)"
    using column_find [OF reg_wfD(4) [OF assms(1)] assms(2-4)]
    by (simp add: probe_find hash_fun_slots reg_wfD(1) [OF assms(1)])
  have a: "alink (t k) \<noteq> 0" using reg_wfD(6) [OF assms(1, 2)] assms(3, 4) by (auto simp: slots_def)
  note d = hash_rem_name_def Let_def f option.case count_out_def
  show "hash_rem_name x n 0 t = Some (clear_adr n (alink (t k)) (clear_name n k t), int k)"
    using a assms(3) by (simp only: d) (simp add: clear_sel)
  show "hash_rem_name x n dcr t = Some (slot_less n k t, int (ecount (t k) - 1))" if "dcr \<noteq> 0" "ecount (t k) \<noteq> 0"
    using that a assms(3) slot_less_ok(3) [OF assms]
    by (simp only: d) (simp add: clear_sel upd_count_sel slot_less_def Let_def count_slot [of _ "\<lambda>c. c - Suc 0"])
  show "hash_rem_name x n dcr t = Some (t, 0)" if "dcr \<noteq> 0" "ecount (t k) = 0"
    using that a assms(3) by (simp only: d) (simp add: clear_sel)
qed

lemma refines_drg_name:
  assumes "reg_wf n t" "x > 1"
  shows "reg_refines n (DrgName x) t \<and> reg_refines n (DrgNameCnt x) t"
  using assms
proof (cases rule: name_cases)
  case miss
  note m = rem_name_miss [OF reg_wfD(1) [OF assms(1)] miss(2)]
  have "reg_refines n (DrgName x) t"
    by (rule reg_refinesI [where t' = t and r = 0])
      (use m [of 0] miss(1) assms(1) in \<open>auto simp: rt_drg_on_name_def fun_upd_idem\<close>)
  moreover have "reg_refines n (DrgNameCnt x) t"
    using m [of "- EFAULT"] miss(1) assms(1) by (auto simp: rt_drg_on_name_cnt_def intro!: reg_refinesI [where t' = t])
  ultimately show ?thesis ..
next
  case (hit k)
  note a = assms(1) hit(1, 2) assms(2)
  have "reg_refines n (DrgName x) t"
    by (rule reg_refinesI [where t' = "clear_adr n (alink (t k)) (clear_name n k t)" and r = "int k"])
      (use hit assms reg_wf_clear [OF assms(1) hit(1)] reg_abs_clear [OF a] rem_name_hit(1) [OF a] in
        \<open>auto simp: rt_drg_on_name_def slots_def\<close>)
  moreover have "reg_refines n (DrgNameCnt x) t"
  proof (cases "ecount (t k) = 0")
    case True
    then have "count_less (slot_obj t k) = Some (slot_obj t k)" by (simp add: count_less_def slot_obj_ocount)
    then show ?thesis using hit assms True
      by (intro reg_refinesI [where t' = t and r = 0])
        (auto simp: rt_drg_on_name_cnt_def rem_name_hit(3) [OF a] slot_obj_ocount fun_upd_idem)
  next
    case False
    show ?thesis
      by (rule reg_refinesI [where t' = "slot_less n k t" and r = "int (ecount (t k) - 1)"])
        (use hit(3) slot_less_ok [OF a] rem_name_hit(2) [OF a _ False] in \<open>simp_all add: rt_drg_on_name_cnt_def slot_obj_ocount\<close>)
  qed
  ultimately show ?thesis ..
qed

lemma rem_adr_miss:
  assumes "0 < n" "\<forall>k \<in> slots n. eadr (t k) \<noteq> a"
  shows "hash_rem_adr a n dcr t = Some (t, 0) \<or> hash_rem_adr a n dcr t = Some (t, dcr)"
proof (cases "find (\<lambda>k. \<not> (eadr (t k) \<noteq> 0 \<and> eadr (t k) \<noteq> a)) (ring_from n (hash_fun a n))")
  case (Some k)
  then have "eadr (t k) \<noteq> a" using column_find_absent [OF assms Some] assms(2) by auto
  then show ?thesis using Some by (simp add: hash_rem_adr_def probe_find hash_fun_slots assms(1))
qed (simp add: hash_rem_adr_def probe_find hash_fun_slots assms(1))

lemma rem_adr_hit:
  assumes "reg_wf n t" "j \<in> slots n" "eadr (t j) = a" "a > 1"
  shows "hash_rem_adr a n 0 t = Some (clear_adr n j (clear_name n (nlink (t j)) t), int j)"
    "dcr \<noteq> 0 \<Longrightarrow> ecount (t (nlink (t j))) \<noteq> 0 \<Longrightarrow>
       hash_rem_adr a n dcr t = Some (slot_less n (nlink (t j)) t, int (ecount (t (nlink (t j))) - 1))"
    "dcr \<noteq> 0 \<Longrightarrow> ecount (t (nlink (t j))) = 0 \<Longrightarrow> hash_rem_adr a n dcr t = Some (t, 0)"
proof -
  have f: "probe (\<lambda>k. \<not> (eadr (t k) \<noteq> 0 \<and> eadr (t k) \<noteq> a)) n (hash_fun a n) (hash_fun a n) = Some (Some j)"
    using column_find [OF reg_wfD(5) [OF assms(1)] assms(2-4)]
    by (simp add: probe_find hash_fun_slots reg_wfD(1) [OF assms(1)])
  let ?k = "nlink (t j)"
  have k: "?k \<in> slots n" "ename (t ?k) > 1" "alink (t ?k) = j" using reg_wfD(7) [OF assms(1, 2)] assms(3, 4) by auto
  note d = hash_rem_adr_def Let_def f option.case count_out_def
  show "hash_rem_adr a n 0 t = Some (clear_adr n j (clear_name n (nlink (t j)) t), int j)"
    using assms(3) by (simp only: d) (simp add: clear_sel clear_commute)
  show "hash_rem_adr a n dcr t = Some (slot_less n ?k t, int (ecount (t ?k) - 1))" if "dcr \<noteq> 0" "ecount (t ?k) \<noteq> 0"
    using that k assms(3) slot_less_ok(3) [OF assms(1) k(1) refl k(2)]
    by (simp only: d) (simp add: clear_sel upd_count_sel slot_less_def Let_def clear_commute count_slot [of _ "\<lambda>c. c - Suc 0"])
  show "hash_rem_adr a n dcr t = Some (t, 0)" if "dcr \<noteq> 0" "ecount (t ?k) = 0"
    using that assms(3) by (simp only: d) (simp add: clear_sel)
qed

text \<open>A change of the object with a given address is a change of the map at its name.\<close>

lemma abs_at_adr:
  assumes "\<And>x ob. m x = Some ob \<and> oadr ob = a \<longleftrightarrow> x = y \<and> ob = ob0"
  shows "(\<lambda>x. case m x of None \<Rightarrow> None | Some ob \<Rightarrow> if oadr ob = a then f ob else Some ob) = m(y := f ob0)"
proof
  fix x
  show "(case m x of None \<Rightarrow> None | Some ob \<Rightarrow> if oadr ob = a then f ob else Some ob) = (m(y := f ob0)) x"
  proof (cases "m x")
    case None
    then show ?thesis using assms [of y ob0] by auto
  next
    case (Some ob)
    show ?thesis
    proof (cases "oadr ob = a")
      case True
      then show ?thesis using assms [of x ob] Some by simp
    next
      case False
      then have "x \<noteq> y" using assms [of y ob0] Some by auto
      then show ?thesis using False Some by simp
    qed
  qed
qed

lemma refines_drg_adr:
  assumes "reg_wf n t" "a > 1"
  shows "reg_refines n (DrgAdr a) t \<and> reg_refines n (DrgAdrCnt a) t"
  using assms
proof (cases rule: adr_cases)
  case miss
  note m = rem_adr_miss [OF reg_wfD(1) [OF assms(1)] miss(2)]
  have none: "\<not> (\<exists>x ob. reg_abs n t x = Some ob \<and> oadr ob = a)" using miss(1) by blast
  have same: "(\<lambda>x. case reg_abs n t x of None \<Rightarrow> None | Some ob \<Rightarrow> if oadr ob = a then g ob else Some ob) = reg_abs n t" for g
    using miss(1) by (auto split: option.splits)
  have "reg_refines n (DrgAdr a) t"
    by (rule reg_refinesI [where t' = t and r = 0])
      (use m [of 0] same [of "\<lambda>_. None"] none assms(1) in \<open>auto simp: rt_drg_on_adr_def\<close>)
  moreover have "reg_refines n (DrgAdrCnt a) t"
  proof -
    obtain r where r: "hash_rem_adr a n (- EFAULT) t = Some (t, r)" "r = 0 \<or> r = - EFAULT" using m [of "- EFAULT"] by blast
    have "snd (reg_spec n (DrgAdrCnt a) (reg_abs n t)) r" using none r(2) by (simp only: reg_spec.simps snd_conv if_False)
    then show ?thesis using r same [of count_less] assms(1)
      by (intro reg_refinesI [where t' = t and r = r]) (simp_all add: rt_drg_on_adr_cnt_def)
  qed
  ultimately show ?thesis ..
next
  case (hit j)
  let ?k = "nlink (t j)"
  note a = assms(1) hit(1, 2) assms(2)
  note k = assms(1) hit(3) refl hit(4)
  have ex: "\<exists>x ob. reg_abs n t x = Some ob \<and> oadr ob = a" using hit(6) by blast
  have here: "reg_abs n t (ename (t ?k)) = Some (slot_obj t ?k)" using hit(6) by blast
  have "reg_refines n (DrgAdr a) t"
  proof (rule reg_refinesI [where t' = "clear_adr n j (clear_name n ?k t)" and r = "int j"])
    show "reg_abs n (clear_adr n j (clear_name n ?k t)) = fst (reg_spec n (DrgAdr a) (reg_abs n t))"
      using reg_abs_clear [OF k] hit(5) abs_at_adr [OF hit(6), of "\<lambda>_. None"] by simp
    show "snd (reg_spec n (DrgAdr a) (reg_abs n t)) (int j)" using ex hit(1) by (simp add: slots_def)
  qed (use reg_wf_clear [OF k(1, 2, 4)] hit(5) in \<open>simp_all add: rt_drg_on_adr_def rem_adr_hit(1) [OF a]\<close>)
  moreover have "reg_refines n (DrgAdrCnt a) t"
  proof (rule reg_refinesI [where t' = "if ecount (t ?k) = 0 then t else slot_less n ?k t" and r = "int (ecount (t ?k) - 1)"])
    have "count_less (slot_obj t ?k) = Some (slot_obj t ?k)" if "ecount (t ?k) = 0"
      using that by (simp add: count_less_def slot_obj_ocount)
    then show "reg_abs n (if ecount (t ?k) = 0 then t else slot_less n ?k t) = fst (reg_spec n (DrgAdrCnt a) (reg_abs n t))"
      using abs_at_adr [OF hit(6), of count_less] slot_less_ok(2) [OF k] here by (auto simp: fun_upd_idem)
    show "snd (reg_spec n (DrgAdrCnt a) (reg_abs n t)) (int (ecount (t ?k) - 1))"
    proof -
      have "\<exists>x ob. reg_abs n t x = Some ob \<and> oadr ob = a \<and> int (ecount (t ?k) - 1) = int (ocount ob - 1)"
        using hit(6) slot_obj_ocount [of t ?k] by metis
      then show ?thesis using ex by (simp only: reg_spec.simps snd_conv if_True)
    qed
  qed (use assms(1) slot_less_ok(1) [OF k] in \<open>simp_all add: rt_drg_on_adr_cnt_def rem_adr_hit(2, 3) [OF a]\<close>)
  ultimately show ?thesis ..
qed

lemma reg_step_refines: "reg_wf n t \<Longrightarrow> reg_legal op (reg_abs n t) \<Longrightarrow> reg_refines n op t"
  by (cases op) (use refines_register in blast, auto intro: refines_lookup refines_get_name
      refines_drg_name [THEN conjunct1] refines_drg_name [THEN conjunct2]
      refines_drg_adr [THEN conjunct1] refines_drg_adr [THEN conjunct2])

section \<open>Any sequence of operations\<close>

text \<open>
  Running operations one after the other: on the program's state, with their results; on the
  specification's, where the use must stay legal; and the test of the results.
\<close>

fun srv_run :: "('o \<Rightarrow> 's \<Rightarrow> ('s \<times> 'r) option) \<Rightarrow> 'o list \<Rightarrow> 's \<Rightarrow> ('s \<times> 'r list) option" where
  "srv_run ex [] s = Some (s, [])"
| "srv_run ex (c # cs) s =
     (case ex c s of None \<Rightarrow> None
      | Some (s1, r) \<Rightarrow> map_option (\<lambda>(s2, rs). (s2, r # rs)) (srv_run ex cs s1))"

fun legal_run :: "('o \<Rightarrow> 'm \<Rightarrow> 'm \<times> ('r \<Rightarrow> bool)) \<Rightarrow> ('o \<Rightarrow> 'm \<Rightarrow> bool) \<Rightarrow> 'o list \<Rightarrow> 'm \<Rightarrow> bool" where
  "legal_run sp lg [] m \<longleftrightarrow> True"
| "legal_run sp lg (c # cs) m \<longleftrightarrow> lg c m \<and> legal_run sp lg cs (fst (sp c m))"

fun results_ok :: "('o \<Rightarrow> 'm \<Rightarrow> 'm \<times> ('r \<Rightarrow> bool)) \<Rightarrow> 'o list \<Rightarrow> 'r list \<Rightarrow> 'm \<Rightarrow> bool" where
  "results_ok sp [] rs m \<longleftrightarrow> rs = []"
| "results_ok sp (c # cs) rs m \<longleftrightarrow> (case rs of [] \<Rightarrow> False | r # qs \<Rightarrow> snd (sp c m) r \<and> results_ok sp cs qs (fst (sp c m)))"

locale data_refinement =
  fixes ok :: "'s \<Rightarrow> bool" and absf :: "'s \<Rightarrow> 'm"
    and ex :: "'o \<Rightarrow> 's \<Rightarrow> ('s \<times> 'r) option" and sp :: "'o \<Rightarrow> 'm \<Rightarrow> 'm \<times> ('r \<Rightarrow> bool)"
    and lg :: "'o \<Rightarrow> 'm \<Rightarrow> bool"
  assumes step: "ok s \<Longrightarrow> lg c (absf s) \<Longrightarrow>
    \<exists>s' r. ex c s = Some (s', r) \<and> ok s' \<and> absf s' = fst (sp c (absf s)) \<and> snd (sp c (absf s)) r"
begin

lemma runs:
  "ok s \<Longrightarrow> legal_run sp lg cs (absf s) \<Longrightarrow>
   \<exists>s' rs. srv_run ex cs s = Some (s', rs) \<and> ok s' \<and>
     absf s' = fold (\<lambda>c m. fst (sp c m)) cs (absf s) \<and> results_ok sp cs rs (absf s)"
proof (induction cs arbitrary: s)
  case (Cons c cs)
  then obtain s1 r where s1: "ex c s = Some (s1, r)" "ok s1" "absf s1 = fst (sp c (absf s))" "snd (sp c (absf s)) r"
    using step [of s c] by auto
  then show ?case using Cons.IH [of s1] Cons.prems(2) by fastforce
qed simp

end

interpretation reg: data_refinement "reg_wf n" "reg_abs n" "reg_exec n" "reg_spec n" reg_legal for n
  by unfold_locales (use reg_step_refines in \<open>simp add: reg_refines_def\<close>)

lemma reg_wf_empty: "0 < n \<Longrightarrow> n < 65536 \<Longrightarrow> reg_wf n (\<lambda>_. empty_entry) \<and> reg_abs n (\<lambda>_. empty_entry) = Map.empty"
  by (auto simp: reg_wf_def column_ok_def reg_abs_def find_None_iff)

lemma primes_range: "p \<in> set primes \<Longrightarrow> 0 < p \<and> p < 65536"
  by (auto simp: primes_def)

lemma registry_alloc_wf:
  "rt_registry_alloc num mem = Some (n, t) \<Longrightarrow> reg_wf n t \<and> reg_abs n t = Map.empty"
  using primes_range [OF nth_mem] reg_wf_empty
  by (auto simp: rt_registry_alloc_def Let_def not_le split: if_splits)

text \<open>C20. The registry is a map. From its allocation on, any sequence of registrations,
  deregistrations (by name or by address, counted or not) and lookups, in which names and addresses are neither
  null nor 1 and a new name comes with a new address, ends; each result is that of the same
  operation on a finite map from names to objects, and the table stays well formed. Outside of these
  conditions the table is no map: \<open>register_again_reports_success\<close>.\<close>

theorem registry_is_map:
  assumes "rt_registry_alloc num mem = Some (n, t)" "legal_run (reg_spec n) reg_legal ops Map.empty"
  shows "\<exists>t' rs. srv_run (reg_exec n) ops t = Some (t', rs) \<and> reg_wf n t' \<and>
    reg_abs n t' = fold (\<lambda>c m. fst (reg_spec n c m)) ops Map.empty \<and> results_ok (reg_spec n) ops rs Map.empty"
  using reg.runs [of n t ops] registry_alloc_wf [OF assms(1)] assms(2) by simp

theorem registry_is_map_witness:
  "\<exists>n t t' rs. rt_registry_alloc 150 True = Some (n, t) \<and>
     srv_run (reg_exec n) [Register 7 50 1 0, Register 7 60 1 0, GetAdr 7] t = Some (t', rs) \<and>
     results_ok (reg_spec n) [Register 7 50 1 0, Register 7 60 1 0, GetAdr 7] rs Map.empty"
proof -
  have a: "rt_registry_alloc 150 True = Some (211, \<lambda>_. empty_entry)"
    by (simp add: rt_registry_alloc_def primes_def)
  show ?thesis
    using registry_is_map [OF a, of "[Register 7 50 1 0, Register 7 60 1 0, GetAdr 7]"] a by auto
qed

fun enough_from :: "nat \<Rightarrow> nat list \<Rightarrow> bool" where
  "enough_from k [] = True"
| "enough_from k (p # ps) = (100 * k \<le> p \<and> enough_from (k + 1) ps)"

lemma enough_from_nth: "enough_from k ps \<Longrightarrow> i < length ps \<Longrightarrow> 100 * (k + i) \<le> ps ! i"
  by (induction k ps arbitrary: i rule: enough_from.induct) (auto simp: nth_Cons algebra_simps split: nat.splits)

lemma primes_enough: "length primes = 203" "enough_from 0 (take 116 primes)"
  by (simp_all add: primes_def)

text \<open>The table has room for the configured number of objects, as long as that is at most
  11500; from there on it has not: the table of primes has two entries between 11500 and 11700
  where the index expects one per hundred, so that 11700 objects get 11617 slots.\<close>

theorem registry_capacity:
  "(0 < num \<and> num \<le> 11500 \<longrightarrow> (\<exists>n t. rt_registry_alloc num True = Some (n, t) \<and> num \<le> n)) \<and>
   (\<exists>t. rt_registry_alloc 11700 True = Some (11617, t))"
proof -
  have p: "100 * i \<le> primes ! i" if "i < 116" for i
    using enough_from_nth [OF primes_enough(2), of i] that by (simp add: primes_enough(1))
  have "\<exists>n t. rt_registry_alloc num True = Some (n, t) \<and> num \<le> n" if "num \<le> 11500"
  proof -
    let ?i = "(num + 100 - 1) div 100"
    have "?i < 116" "num \<le> 100 * ?i" using that by auto
    then show ?thesis using p [of ?i] primes_enough(1) by (simp add: rt_registry_alloc_def)
  qed
  moreover have "rt_registry_alloc 11700 True = Some (11617, \<lambda>_. empty_entry)"
    by (simp add: rt_registry_alloc_def primes_enough(1)) (simp add: primes_def)
  ultimately show ?thesis by blast
qed

theorem registry_capacity_witness: "\<exists>n t. rt_registry_alloc 150 True = Some (n, t) \<and> 150 \<le> n"
  using registry_capacity [of 150] by simp

section \<open>An address registered twice\<close>

text \<open>Registering an address that is already registered, under a new name, is refused; but
  the new name stays in the table, without an address. A second attempt finds it there, counts
  it and reports success, although the name still has no address.\<close>

theorem register_again_reports_success:
  assumes "reg_wf n t" "x > 1" "reg_abs n t x = None" "a > 1" "j \<in> slots n" "eadr (t j) = a"
    and "\<forall>k \<in> slots n. eadr (t k) \<noteq> 1" "k0 \<in> slots n" "ename (t k0) \<le> 1"
  shows "\<exists>t1 t2 r. rt_register n x a ty tsk t = Some (t1, 0) \<and> rt_get_adr n x t1 = Some 0 \<and>
    rt_register n x a ty tsk t1 = Some (t2, r) \<and> r > 0 \<and> rt_get_adr n x t2 = Some 0"
proof -
  note n0 = reg_wfD(1) [OF assms(1)]
  have nm: "\<forall>k \<in> slots n. ename (t k) \<noteq> x" using assms(2, 3) reg_abs_None [of n t x] by auto
  obtain k where fk: "find (\<lambda>k. \<not> (ename (t k) > 1 \<and> ename (t k) \<noteq> x)) (ring_from n (hash_fun x n)) = Some k"
    using column_find_full [OF n0 nm] assms(8, 9) by fastforce
  note k = column_find_free [OF n0 nm fk]
  let ?t1 = "upd_slot k (\<lambda>e. e\<lparr>ename := x, etype := ty, etsk := tsk, ecount := 1, alink := 0\<rparr>) t"
  let ?t2 = "upd_slot k (\<lambda>e. e\<lparr>ecount := u16 (ecount e + 1)\<rparr>) ?t1"
  have sel: "ename (?t1 i) = ((\<lambda>i. ename (t i))(k := x)) i" "eadr (?t1 i) = eadr (t i)" "alink (?t1 k) = 0"
    "ename (?t2 i) = ((\<lambda>i. ename (t i))(k := x)) i" "eadr (?t2 i) = eadr (t i)" "alink (?t2 k) = 0" for i
    by (simp_all add: upd_slot_apply)
  note col = column_ins [OF reg_wfD(4) [OF assms(1)] assms(2) nm k]
  have "find (\<lambda>k. \<not> (eadr (t k) > 1 \<and> eadr (t k) \<noteq> a)) (ring_from n (hash_fun a n)) = Some j"
    using column_find [OF reg_wfD(5) [OF assms(1)] assms(5, 6, 4)] assms(7) ring_from_set [OF hash_fun_slots [OF n0, of a]]
    by (subst find_cong [OF refl, of _ _ "\<lambda>k. \<not> (eadr (t k) \<noteq> 0 \<and> eadr (t k) \<noteq> a)"]) force+
  then have ia: "hash_ins_adr a n k ?t1 = Some (?t1, - int j)"
    using assms(6) by (simp add: hash_ins_adr_def probe_find hash_fun_slots n0 sel(2) [unfolded One_nat_def])
  have j0: "j \<noteq> 0" "k \<noteq> 0" using assms(5) k(1) by (auto simp: slots_def)
  have r1: "rt_register n x a ty tsk t = Some (?t1, 0)"
    using fk ia k nm j0
    by (simp add: rt_register_def get_adr_miss [OF n0 nm] registr_def hash_ins_name_def probe_find hash_fun_slots n0)
  have fnd: "find (\<lambda>i. \<not> (((\<lambda>i. ename (t i))(k := x)) i \<noteq> 0 \<and> ((\<lambda>i. ename (t i))(k := x)) i \<noteq> x)) (ring_from n (hash_fun x n)) = Some k"
    by (rule column_find [OF col k(1) _ assms(2)]) simp
  have g1: "rt_get_adr n x ?t1 = Some 0"
    unfolding rt_get_adr_def hash_find_name_def Let_def sel probe_find [OF hash_fun_slots [OF n0]] fnd
    using reg_wfD(3) [OF assms(1)] by (simp add: upd_slot_apply)
  have g2: "rt_get_adr n x ?t2 = Some 0"
    unfolding rt_get_adr_def hash_find_name_def Let_def sel probe_find [OF hash_fun_slots [OF n0]] fnd
    using reg_wfD(3) [OF assms(1)] by (simp add: upd_slot_apply)
  have fi: "find (\<lambda>i. \<not> (((\<lambda>i. ename (t i))(k := x)) i > NONAME \<and> ((\<lambda>i. ename (t i))(k := x)) i \<noteq> x)) (ring_from n (hash_fun x n)) = Some k"
    using k(1, 3) assms(2) nm before_irrefl before_subset [OF hash_fun_slots [OF n0]]
    by (intro find_before_Some [OF hash_fun_slots [OF n0] k(1)]) (auto, blast)
  have "registr n x a ty tsk ?t1 = Some (?t2, int k)"
    unfolding registr_def hash_ins_name_def Let_def sel probe_find [OF hash_fun_slots [OF n0]] fi by simp
  then have "rt_register n x a ty tsk ?t1 = Some (?t2, int k)" using g1 by (simp add: rt_register_def)
  then show ?thesis using r1 g1 g2 j0 by (intro exI [of _ ?t1] exI [of _ ?t2] exI [of _ "int k"]) simp
qed

text \<open>Two slots, of which the first holds a name with its address.\<close>

definition demo_reg :: registry where
  "demo_reg = (\<lambda>_. empty_entry)(1 := \<lparr>ename = 2, eadr = 2, etsk = 0, etype = 1, ecount = 1, alink = 1, nlink = 1\<rparr>)"

lemma demo_reg_wf: "reg_wf 2 demo_reg" "reg_abs 2 demo_reg 3 = None"
proof -
  have s: "slots 2 = {1, 2}" by (auto simp: slots_def)
  have b: "before 2 1 1 = {}" by (simp add: before_def ring_from_def upt_rec)
  show "reg_wf 2 demo_reg"
    using b by (simp add: reg_wf_def s column_ok_def demo_reg_def hash_fun_def)
  show "reg_abs 2 demo_reg 3 = None" by (subst reg_abs_None) (simp add: s demo_reg_def)
qed

theorem register_again_reports_success_witness:
  "\<exists>t1 t2 r. rt_register 2 3 2 1 0 demo_reg = Some (t1, 0) \<and>
    rt_register 2 3 2 1 0 t1 = Some (t2, r) \<and> r > 0 \<and> rt_get_adr 2 3 t2 = Some 0"
proof -
  have "\<forall>k \<in> slots 2. eadr (demo_reg k) \<noteq> 1" "1 \<in> slots 2" "2 \<in> slots 2" "eadr (demo_reg 1) = 2" "ename (demo_reg 2) \<le> 1"
    by (auto simp: demo_reg_def slots_def)
  then show ?thesis
    using register_again_reports_success [OF demo_reg_wf(1) _ demo_reg_wf(2), of 2 1 2 1 0] by auto
qed

section \<open>Generated names\<close>

lemma mod_in_range:
  assumes "0 \<le> (x :: int)" "x \<le> m" "x mod m = y" "y \<noteq> 0"
  shows "x = y \<and> 0 < x \<and> x < m"
proof -
  have "x \<noteq> m" using assms by auto
  then show ?thesis using assms by (cases "x = 0") auto
qed

lemma next_rand_range:
  assumes "0 < r" "r < TWOPWR31M1"
  shows "next_rand r = 16807 * r mod TWOPWR31M1 \<and> 0 < next_rand r \<and> next_rand r < TWOPWR31M1"
proof -
  let ?m = TWOPWR31M1
  let ?hi = "r div 127773" and ?lo = "r mod 127773"
  have lo: "r - ?hi * 127773 = ?lo" by (simp add: minus_div_mult_eq_mod)
  have x: "16807 * ?lo - 2836 * ?hi = 16807 * r - ?hi * ?m" by (simp add: minus_div_mult_eq_mod [symmetric])
  have b: "0 \<le> ?lo" "?lo \<le> 127772" "0 \<le> ?hi" "?hi \<le> 16807" using assms by auto
  have "\<not> ?m dvd 16807 * r"
  proof
    assume "?m dvd 16807 * r"
    moreover have "coprime ?m (16807 :: int)" 
    proof (rule coprimeI)
      fix c :: int assume "c dvd ?m" "c dvd 16807"
      then have "c dvd 16807 * 1407677000 - ?m * 11017" by (intro dvd_diff dvd_mult2)
      then show "is_unit c" by simp
    qed
    ultimately have "?m dvd r" by (simp add: coprime_dvd_mult_right_iff)
    then show False using assms zdvd_imp_le by fastforce
  qed
  then have nz: "16807 * r mod ?m \<noteq> 0" by (simp add: dvd_eq_mod_eq_0)
  have md: "(16807 * r - ?hi * ?m) mod ?m = 16807 * r mod ?m" "(16807 * r - ?hi * ?m + ?m) mod ?m = 16807 * r mod ?m"
    using mod_mult_self1 [of "16807 * r" "- ?hi" ?m] mod_mult_self1 [of "16807 * r" "1 - ?hi" ?m]
    by (simp_all only: left_diff_distrib mult_minus_left mult_1 add_uminus_conv_diff diff_add_eq add_diff_eq)
  show ?thesis
  proof (cases "16807 * ?lo - 2836 * ?hi \<le> 0")
    case True
    then have "next_rand r = 16807 * r - ?hi * ?m + ?m" by (simp add: next_rand_def Let_def lo x)
    moreover have "0 \<le> next_rand r" "next_rand r \<le> ?m" using True b calculation x by linarith+
    ultimately show ?thesis using mod_in_range [of "next_rand r" ?m, OF _ _ _ nz] md(2) by simp
  next
    case False
    then have "next_rand r = 16807 * r - ?hi * ?m" by (simp add: next_rand_def Let_def lo x)
    moreover have "0 \<le> next_rand r" "next_rand r \<le> ?m" using False b calculation x by linarith+
    ultimately show ?thesis using mod_in_range [of "next_rand r" ?m, OF _ _ _ nz] md(1) by simp
  qed
qed

text \<open>\<^verbatim>\<open>next_rand\<close> computes, without leaving 32 bits, the product of the seed with 16807 modulo
  the prime $2^{31} - 1$, and never gives 0.\<close>

theorem next_rand_exact:
  assumes "0 < r" "r < TWOPWR31M1"
  shows "next_rand r = 16807 * r mod TWOPWR31M1 \<and> 0 < next_rand r \<and> next_rand r < TWOPWR31M1"
  using next_rand_range [OF assms] .

theorem next_rand_exact_witness: "next_rand 783637 = 16807 * 783637 mod TWOPWR31M1"
  using next_rand_exact [of 783637] by simp

lemma int_div_less_mult: "0 < (c :: int) \<Longrightarrow> a < c \<Longrightarrow> 0 < b \<Longrightarrow> a * b div c < b"
proof -
  assume a: "0 < c" "a < c" "0 < b"
  then have "a * b < b * c" by (simp add: mult.commute)
  moreover have "a * b div c * c \<le> a * b" using a(1) by (simp add: minus_mod_eq_div_mult [symmetric])
  ultimately have "a * b div c * c < b * c" by simp
  then show "a * b div c < b" using a(1) by simp
qed

lemma irandu_ok:
  assumes "0 < seed" "seed < TWOPWR31M1" "0 \<le> rng" "rng < 2 ^ 31"
  shows "\<exists>s x. irandu rng seed = Some (s, x) \<and> 0 < s \<and> s < TWOPWR31M1 \<and> 0 \<le> x \<and> (x < rng \<or> rng = 0)"
proof -
  let ?s = "next_rand seed"
  have s: "0 < ?s" "?s < TWOPWR31M1" using next_rand_range [OF assms(1, 2)] by auto
  have e: "?s mod 2 ^ 64 = ?s" "rng mod 2 ^ 64 = rng" using s assms(3, 4) by auto
  have l: "0 \<le> ?s * rng div TWOPWR31M1" using s assms(3) by (simp add: pos_imp_zdiv_nonneg_iff)
  have "?s * rng \<le> TWOPWR31M1 * rng" using s assms(3) by (intro mult_right_mono) auto
  then have "?s * rng div TWOPWR31M1 \<le> TWOPWR31M1 * rng div TWOPWR31M1" by (intro zdiv_mono1) auto
  then have u: "?s * rng div TWOPWR31M1 \<le> rng" by simp
  have lt: "?s * rng div TWOPWR31M1 < rng" if "rng \<noteq> 0"
    using that s assms(3) by (intro int_div_less_mult) auto
  show ?thesis using s e l u lt assms(3, 4)
    by (intro exI [of _ ?s] exI [of _ "?s * rng div TWOPWR31M1"]) (auto simp: irandu_def rtai_llimd_def Let_def)
qed

text \<open>C21. The name that \<^verbatim>\<open>rt_get_name\<close> makes up for a null address is out of the range of the
  names that strings are converted to, fits 32 bits below the reserved value, and is not
  registered; after ten collisions the result is 0.\<close>

theorem generated_name_is_new:
  assumes "reg_wf n t" "0 < seed" "seed < TWOPWR31M1"
  shows "\<exists>s x. rt_get_name n 0 t seed = Some (s, x) \<and> 0 < s \<and> s < TWOPWR31M1 \<and>
    (x = 0 \<or> MAX_NAM2NUM \<le> int x \<and> int x < 0xFFFFFFFF - 2 \<and> reg_abs n t x = None)"
proof -
  have "\<exists>s x. fresh_name n i t seed = Some (s, x) \<and> 0 < s \<and> s < TWOPWR31M1 \<and>
    (x = 0 \<or> MAX_NAM2NUM \<le> int x \<and> int x < 0xFFFFFFFF - 2 \<and> reg_abs n t x = None)" for i
    using assms(2, 3)
  proof (induction i arbitrary: seed)
    case (Suc i)
    obtain s y where y: "irandu (0xFFFFFFFF - MAX_NAM2NUM - 2) seed = Some (s, y)" "0 < s" "s < TWOPWR31M1" "0 \<le> y"
      "y < 0xFFFFFFFF - MAX_NAM2NUM - 2"
      using irandu_ok [OF Suc.prems, of "0xFFFFFFFF - MAX_NAM2NUM - 2"] by (auto simp: MAX_NAM2NUM_def)
    let ?x = "nat (MAX_NAM2NUM + y)"
    have x: "?x > 1" "int ?x = MAX_NAM2NUM + y" using y(4) by (auto simp: MAX_NAM2NUM_def)
    show ?case
      using assms(1) x(1)
    proof (cases rule: name_cases)
      case miss
      then show ?thesis using y x(2) get_adr_miss [OF reg_wfD(1) [OF assms(1)] miss(2)] by auto
    next
      case (hit k)
      then have "rt_get_adr n ?x t = Some (oadr (slot_obj t k))" "oadr (slot_obj t k) \<noteq> 0"
        using get_adr_hit [OF assms(1) hit(1, 2) x(1)] reg_wfD(6) [OF assms(1) hit(1)] x(1) by (auto simp: slot_obj_def)
      then show ?thesis using y Suc.IH [OF y(2, 3)] by simp
    qed
  qed simp
  then show ?thesis by (simp add: rt_get_name_def)
qed

theorem generated_name_is_new_witness:
  "\<exists>s x. rt_get_name 2 0 demo_reg 783637 = Some (s, x) \<and> (x = 0 \<or> reg_abs 2 demo_reg x = None)"
  using generated_name_is_new [OF demo_reg_wf(1), of 783637] by auto

end
