(* ===== verification/Fifos.thy ===== *)
theory Fifos
  imports Mbx_Buffer
begin

text \<open>
  FIFOs between real-time tasks and Linux processes (\<^verbatim>\<open>src/ipc/fifos/fifos.c\<close>). A FIFO is a
  circular buffer with a semaphore for its senders and one for its receivers, on which only
  Linux processes wait. Processes are not woken at once: their wake-ups go through the ring
  \<^verbatim>\<open>taskq\<close>, which Linux empties when it runs \<^verbatim>\<open>rtf_sysrq_handler\<close>. The copying loops are those of
  the mailboxes, copied into this file word for word, and so are their models of theory
  \<open>Mbx_Buffer\<close>. A service that may sleep is cut where it does; what it does when it goes on is the
  function of the same name with \<open>_resume\<close> or \<open>_turn\<close>.
\<close>

section \<open>State\<close>

type_synonym proc = nat

record lx_sem =
  sfree :: int
  sqtype :: int
  squeue :: "proc list"

text \<open>\<^verbatim>\<open>FIFO\<close> with its \<^verbatim>\<open>F_MBX\<close>. The node of a waiting process lies on its own stack, so the process
  names it. Wait queue and asynchronous readers are only asked whether there are any.\<close>

record fifo =
  fbuf :: mbx
  fsnd :: lx_sem
  frcv :: lx_sem
  fwait :: "proc option"
  opncnt :: int
  malloc_type :: char
  pol_asyn_pended :: bool
  pollq_active :: bool
  asynq :: bool
  fhandler :: nat
  fsem :: lx_sem
  fname :: string

record fks =
  fifos :: "nat \<Rightarrow> fifo"
  taskq :: "nat \<Rightarrow> proc"
  taskq_in :: nat
  taskq_out :: nat
  polq :: "nat \<Rightarrow> nat"
  polq_in :: nat
  polq_out :: nat
  srq_pended :: bool
  lx_blocked :: "proc \<Rightarrow> bool"
  rt_priority :: "proc \<Rightarrow> int"
  sleeping :: "proc \<Rightarrow> bool"
  notified :: "nat list"

abbreviation (input) MAX_FIFOS :: nat where "MAX_FIFOS \<equiv> 64"
abbreviation (input) MAXREQS :: nat where "MAXREQS \<equiv> 64"
abbreviation (input) RTF_NAMELEN :: nat where "RTF_NAMELEN \<equiv> 15"
abbreviation (input) ENODEV :: int where "ENODEV \<equiv> 19"
abbreviation (input) EBUSY :: int where "EBUSY \<equiv> 16"
abbreviation (input) EBADF :: int where "EBADF \<equiv> 9"
abbreviation (input) EAGAIN :: int where "EAGAIN \<equiv> 11"
abbreviation (input) ERESTARTSYS :: int where "ERESTARTSYS \<equiv> 512"

text \<open>Which of a FIFO's three semaphores.\<close>

datatype fsel = SndSem | RcvSem | UserSem

fun the_sem :: "fsel \<Rightarrow> fifo \<Rightarrow> lx_sem" where
  "the_sem SndSem f = fsnd f"
| "the_sem RcvSem f = frcv f"
| "the_sem UserSem f = fsem f"

fun set_sem :: "fsel \<Rightarrow> (lx_sem \<Rightarrow> lx_sem) \<Rightarrow> fifo \<Rightarrow> fifo" where
  "set_sem SndSem g f = f\<lparr>fsnd := g (fsnd f)\<rparr>"
| "set_sem RcvSem g f = f\<lparr>frcv := g (frcv f)\<rparr>"
| "set_sem UserSem g f = f\<lparr>fsem := g (fsem f)\<rparr>"

definition upd_fifo :: "nat \<Rightarrow> (fifo \<Rightarrow> fifo) \<Rightarrow> fks \<Rightarrow> fks" where
  "upd_fifo n g s = s\<lparr>fifos := (fifos s)(n := g (fifos s n))\<rparr>"

section \<open>Wake-ups\<close>

text \<open>The index wraps by masking: \<^verbatim>\<open>MAXREQS\<close> is a power of two.\<close>

definition pend_task :: "proc \<Rightarrow> fks \<Rightarrow> fks" where
  "pend_task p s = s\<lparr>taskq := (taskq s)(taskq_in s := p), taskq_in := (taskq_in s + 1) mod MAXREQS, srq_pended := True\<rparr>"

definition pend_fifo :: "nat \<Rightarrow> fks \<Rightarrow> fks" where
  "pend_fifo n s = s\<lparr>polq := (polq s)(polq_in s := n), polq_in := (polq_in s + 1) mod MAXREQS, srq_pended := True\<rparr>"

definition wake_up_process :: "proc \<Rightarrow> fks \<Rightarrow> fks" where
  "wake_up_process p s = (if sleeping s p then s\<lparr>sleeping := (sleeping s)(p := False)\<rparr> else s)"

text \<open>The two loops of \<^verbatim>\<open>rtf_sysrq_handler\<close>; \<open>notified\<close> collects the FIFOs whose pollers and
  asynchronous readers are told.\<close>

partial_function (option) wake_tasks :: "fks \<Rightarrow> fks option" where
  "wake_tasks s =
     (if taskq_out s \<noteq> taskq_in s then
        wake_tasks (wake_up_process (taskq s (taskq_out s)) s\<lparr>taskq_out := (taskq_out s + 1) mod MAXREQS\<rparr>)
      else Some s)"

partial_function (option) notify_fifos :: "fks \<Rightarrow> fks option" where
  "notify_fifos s =
     (if polq_out s \<noteq> polq_in s then
        (let n = polq s (polq_out s); s1 = upd_fifo n (\<lambda>f. f\<lparr>pol_asyn_pended := False\<rparr>) s in
         notify_fifos (s1\<lparr>notified := (if pollq_active (fifos s1 n) \<or> asynq (fifos s1 n) then notified s1 @ [n] else notified s1),
                          polq_out := (polq_out s1 + 1) mod MAXREQS\<rparr>))
      else Some s)"

definition rtf_sysrq_handler :: "fks \<Rightarrow> fks option" where
  "rtf_sysrq_handler s = (case wake_tasks s of None \<Rightarrow> None | Some s1 \<Rightarrow> notify_fifos s1)"

section \<open>Semaphores\<close>

definition f_enqueue_blocked :: "proc \<Rightarrow> nat \<Rightarrow> fsel \<Rightarrow> fks \<Rightarrow> fks" where
  "f_enqueue_blocked p n x s =
     (let k = the_sem x (fifos s n);
          q = (if sqtype k = 0 then queue_ins (\<lambda>u. \<not> rt_priority s u \<ge> rt_priority s p) p (squeue k) else squeue k @ [p])
      in upd_fifo n (set_sem x (\<lambda>k. k\<lparr>squeue := q\<rparr>)) (s\<lparr>lx_blocked := (lx_blocked s)(p := True)\<rparr>))"

definition f_dequeue_blocked :: "proc \<Rightarrow> nat \<Rightarrow> fsel \<Rightarrow> fks \<Rightarrow> fks" where
  "f_dequeue_blocked p n x s =
     upd_fifo n (set_sem x (\<lambda>k. k\<lparr>squeue := remove1 p (squeue k)\<rparr>)) (s\<lparr>lx_blocked := (lx_blocked s)(p := False)\<rparr>)"

text \<open>\<open>tell\<close>: the FIFO is passed too, so that its pollers are told.\<close>

definition mbx_sem_signal :: "nat \<Rightarrow> fsel \<Rightarrow> bool \<Rightarrow> fks \<Rightarrow> fks" where
  "mbx_sem_signal n x tell s =
     (case squeue (the_sem x (fifos s n)) of
        p # _ \<Rightarrow> pend_task p (f_dequeue_blocked p n x s)
      | [] \<Rightarrow>
          (let s1 = upd_fifo n (set_sem x (\<lambda>k. k\<lparr>sfree := 1\<rparr>)) s; f = fifos s1 n in
           if tell \<and> \<not> pol_asyn_pended f \<and> (avbs (fbuf f) \<noteq> 0 \<or> frbs (fbuf f) \<noteq> 0) \<and> (pollq_active f \<or> asynq f)
           then pend_fifo n (upd_fifo n (\<lambda>f. f\<lparr>pol_asyn_pended := True\<rparr>) s1) else s1))"

definition f_mbx_signal :: "nat \<Rightarrow> fks \<Rightarrow> fks" where
  "f_mbx_signal n s =
     (case fwait (fifos s n) of None \<Rightarrow> s | Some p \<Rightarrow> pend_task p (upd_fifo n (\<lambda>f. f\<lparr>fwait := None\<rparr>) s))"

definition mbx_sem_wait_if :: "nat \<Rightarrow> fsel \<Rightarrow> fks \<Rightarrow> fks \<times> int" where
  "mbx_sem_wait_if n x s =
     (if sfree (the_sem x (fifos s n)) \<noteq> 0 then (upd_fifo n (set_sem x (\<lambda>k. k\<lparr>sfree := 0\<rparr>)) s, 1) else (s, 0))"

text \<open>\<^verbatim>\<open>mbx_sem_wait\<close> by process \<open>p\<close>, up to its sleep (\<open>None\<close>) and after it; \<open>sig\<close> says that a signal
  is pending.\<close>

definition mbx_sem_wait :: "proc \<Rightarrow> nat \<Rightarrow> fsel \<Rightarrow> fks \<Rightarrow> fks \<times> int option" where
  "mbx_sem_wait p n x s =
     (if sfree (the_sem x (fifos s n)) = 0
      then (let s1 = f_enqueue_blocked p n x s in (s1\<lparr>sleeping := (sleeping s1)(p := True)\<rparr>, None))
      else (upd_fifo n (set_sem x (\<lambda>k. k\<lparr>sfree := 0\<rparr>)) s, Some 0))"

text \<open>Giving up: the node leaves the queue, and an empty queue makes the semaphore free.\<close>

definition give_up :: "proc \<Rightarrow> nat \<Rightarrow> fsel \<Rightarrow> fks \<Rightarrow> fks" where
  "give_up p n x s =
     (let s1 = f_dequeue_blocked p n x s in
      if squeue (the_sem x (fifos s1 n)) = [] then upd_fifo n (set_sem x (\<lambda>k. k\<lparr>sfree := 1\<rparr>)) s1 else s1)"

definition mbx_sem_wait_resume :: "proc \<Rightarrow> bool \<Rightarrow> nat \<Rightarrow> fsel \<Rightarrow> fks \<Rightarrow> fks \<times> int" where
  "mbx_sem_wait_resume p sig n x s =
     (let ret = (if sig then - ERESTARTSYS else 0) in
      if lx_blocked s p then (give_up p n x s, if ret = 0 then -1 else ret) else (s, ret))"

text \<open>\<^verbatim>\<open>mbx_sem_wait_timed\<close> starts like \<^verbatim>\<open>mbx_sem_wait\<close>; after its sleep it returns at once when a
  signal is pending.\<close>

definition mbx_sem_wait_timed_resume :: "proc \<Rightarrow> bool \<Rightarrow> nat \<Rightarrow> fsel \<Rightarrow> fks \<Rightarrow> fks \<times> int" where
  "mbx_sem_wait_timed_resume p sig n x s =
     (if sig then (s, - ERESTARTSYS)
      else if lx_blocked s p then (give_up p n x s, -1) else (s, 0))"

text \<open>\<^verbatim>\<open>mbx_wait\<close> (and \<^verbatim>\<open>mbx_wait_timed\<close>): sleep while the counter \<open>fravbs\<close> is 0.\<close>

definition f_mbx_wait :: "proc \<Rightarrow> nat \<Rightarrow> nat \<Rightarrow> fks \<Rightarrow> fks \<times> int option" where
  "f_mbx_wait p n fravbs s =
     (if fravbs = 0
      then (let s1 = upd_fifo n (\<lambda>f. f\<lparr>fwait := Some p\<rparr>) s in (s1\<lparr>sleeping := (sleeping s1)(p := True)\<rparr>, None))
      else (s, Some 0))"

definition f_mbx_wait_resume :: "proc \<Rightarrow> bool \<Rightarrow> nat \<Rightarrow> fks \<Rightarrow> fks \<times> int" where
  "f_mbx_wait_resume p sig n s =
     (if sig then (s, - ERESTARTSYS)
      else if fwait (fifos s n) = Some p then (upd_fifo n (\<lambda>f. f\<lparr>fwait := None\<rparr>) s, -1)
      else (s, 0))"

definition mbx_sem_init :: "int \<Rightarrow> lx_sem" where
  "mbx_sem_init value = \<lparr>sfree = value, sqtype = 0, squeue = []\<rparr>"

text \<open>Deletion wakes every waiter; their \<^verbatim>\<open>blocked\<close> flags stay.\<close>

definition mbx_sem_delete :: "nat \<Rightarrow> fsel \<Rightarrow> fks \<Rightarrow> fks" where
  "mbx_sem_delete n x s =
     fold pend_task (squeue (the_sem x (fifos s n))) (upd_fifo n (set_sem x (\<lambda>k. k\<lparr>squeue := []\<rparr>)) s)"

section \<open>Sending and receiving\<close>

definition f_mbx_init :: "nat \<Rightarrow> byte list \<Rightarrow> fifo \<Rightarrow> fifo" where
  "f_mbx_init sz buf f =
     f\<lparr>fsnd := mbx_sem_init 1, frcv := mbx_sem_init 1, fwait := None,
       fbuf := (fbuf f)\<lparr>bufadr := buf, mbx_size := sz, frbs := sz, fbyte := 0, lbyte := 0, avbs := 0\<rparr>\<rparr>"

definition f_mbx_delete :: "nat \<Rightarrow> fks \<Rightarrow> fks" where
  "f_mbx_delete n s = mbx_sem_delete n RcvSem (mbx_sem_delete n SndSem (f_mbx_signal n s))"

text \<open>The copying loops, the same as those of the mailboxes (except that previewing reads the right
  bytes for both kinds of caller).\<close>

definition f_mbx_put :: "mbx \<Rightarrow> byte list \<Rightarrow> (mbx \<times> byte list) option" where
  "f_mbx_put m data = mbxput m data"

definition f_mbx_get :: "mbx \<Rightarrow> nat \<Rightarrow> (mbx \<times> byte list) option" where
  "f_mbx_get m msg_size = mbxget m msg_size []"

definition f_mbx_ovrwr_put :: "mbx \<Rightarrow> byte list \<Rightarrow> mbx option" where
  "f_mbx_ovrwr_put m data = mbxovrwrput m data"

definition f_mbx_evdrp :: "mbx \<Rightarrow> nat \<Rightarrow> byte list option" where
  "f_mbx_evdrp m msg_size = mbxevdrp m True (fbyte m) (avbs m) msg_size []"

text \<open>\<^verbatim>\<open>mbx_put\<close> and \<^verbatim>\<open>mbx_get\<close> on the buffer of a FIFO, then \<^verbatim>\<open>mbx_signal\<close>; the rest of the message,
  or the bytes got. The code copies without \<^verbatim>\<open>rtf_lock\<close> and takes \<^verbatim>\<open>buflock\<close> only to move the counters, so a
  sender and a receiver can copy at the same time; here a transfer is one step. The loops are those of the
  mailboxes, whose interleaving theory \<open>Mbx_Conc\<close> treats.\<close>

definition f_put :: "nat \<Rightarrow> byte list \<Rightarrow> fks \<Rightarrow> (fks \<times> byte list) option" where
  "f_put n data s =
     map_option (\<lambda>(m, rest). (f_mbx_signal n (upd_fifo n (\<lambda>f. f\<lparr>fbuf := m\<rparr>) s), rest)) (f_mbx_put (fbuf (fifos s n)) data)"

definition f_get :: "nat \<Rightarrow> nat \<Rightarrow> fks \<Rightarrow> (fks \<times> byte list) option" where
  "f_get n msg_size s =
     map_option (\<lambda>(m, got). (f_mbx_signal n (upd_fifo n (\<lambda>f. f\<lparr>fbuf := m\<rparr>) s), got)) (f_mbx_get (fbuf (fifos s n)) msg_size)"

text \<open>Where a service of a process stands: it has returned, sleeps at the semaphore, sleeps at the
  buffer, or is about to take another turn.\<close>

datatype fstage = FRet int | FSleepSem | FSleepBuf | FTurn

definition after_sem_wait :: "int \<Rightarrow> int option \<Rightarrow> fstage" where
  "after_sem_wait msg_size r = (case r of None \<Rightarrow> FSleepSem | Some e \<Rightarrow> if e \<noteq> 0 then FRet msg_size else FTurn)"

definition f_mbx_send :: "proc \<Rightarrow> nat \<Rightarrow> byte list \<Rightarrow> fks \<Rightarrow> fks \<times> fstage" where
  "f_mbx_send p n data s = (case mbx_sem_wait p n SndSem s of (s1, r) \<Rightarrow> (s1, after_sem_wait (int (length data)) r))"

text \<open>The rest of a turn of the loop, after \<^verbatim>\<open>mbx_wait\<close> gave \<open>r\<close>.\<close>

definition send_after :: "nat \<Rightarrow> byte list \<Rightarrow> int \<Rightarrow> fks \<Rightarrow> (fks \<times> fstage \<times> byte list) option" where
  "send_after n data r s =
     (if r \<noteq> 0 then Some (mbx_sem_signal n SndSem True s, FRet (int (length data)), data)
      else map_option (\<lambda>(s1, rest). (s1, FTurn, rest)) (f_put n data s))"

definition f_mbx_send_turn :: "proc \<Rightarrow> nat \<Rightarrow> byte list \<Rightarrow> fks \<Rightarrow> (fks \<times> fstage \<times> byte list) option" where
  "f_mbx_send_turn p n data s =
     (if data = [] then Some (mbx_sem_signal n SndSem True s, FRet 0, [])
      else (case f_mbx_wait p n (frbs (fbuf (fifos s n))) s of
              (s1, None) \<Rightarrow> Some (s1, FSleepBuf, data)
            | (s1, Some r) \<Rightarrow> send_after n data r s1))"

definition f_mbx_send_resume :: "proc \<Rightarrow> bool \<Rightarrow> nat \<Rightarrow> byte list \<Rightarrow> fks \<Rightarrow> (fks \<times> fstage \<times> byte list) option" where
  "f_mbx_send_resume p sig n data s = (case f_mbx_wait_resume p sig n s of (s1, r) \<Rightarrow> send_after n data r s1)"

definition f_mbx_send_wp :: "nat \<Rightarrow> byte list \<Rightarrow> fks \<Rightarrow> (fks \<times> byte list) option" where
  "f_mbx_send_wp n data s =
     (if sfree (fsnd (fifos s n)) \<noteq> 0 \<and> frbs (fbuf (fifos s n)) \<noteq> 0
      then map_option (\<lambda>(s1, rest). (mbx_sem_signal n SndSem True s1, rest))
             (f_put n data (upd_fifo n (set_sem SndSem (\<lambda>k. k\<lparr>sfree := 0\<rparr>)) s))
      else Some (s, data))"

definition f_mbx_send_if :: "nat \<Rightarrow> byte list \<Rightarrow> fks \<Rightarrow> (fks \<times> byte list) option" where
  "f_mbx_send_if n data s =
     (if sfree (fsnd (fifos s n)) \<noteq> 0 \<and> length data \<le> frbs (fbuf (fifos s n))
      then map_option (\<lambda>(s1, rest). (mbx_sem_signal n SndSem True s1, rest))
             (f_put n data (upd_fifo n (set_sem SndSem (\<lambda>k. k\<lparr>sfree := 0\<rparr>)) s))
      else Some (s, data))"

text \<open>\<^verbatim>\<open>mbx_send_timed\<close>: as \<^verbatim>\<open>mbx_send\<close>, with timed sleeps.\<close>

definition f_mbx_send_timed_resume :: "proc \<Rightarrow> bool \<Rightarrow> nat \<Rightarrow> byte list \<Rightarrow> fks \<Rightarrow> fks \<times> fstage" where
  "f_mbx_send_timed_resume p sig n data s =
     (case mbx_sem_wait_timed_resume p sig n SndSem s of (s1, r) \<Rightarrow> (s1, after_sem_wait (int (length data)) (Some r)))"

definition f_mbx_receive :: "proc \<Rightarrow> nat \<Rightarrow> nat \<Rightarrow> fks \<Rightarrow> fks \<times> fstage" where
  "f_mbx_receive p n msg_size s = (case mbx_sem_wait p n RcvSem s of (s1, r) \<Rightarrow> (s1, after_sem_wait (int msg_size) r))"

text \<open>For the receiving side the bytes missing and the bytes got so far.\<close>

definition receive_after :: "nat \<Rightarrow> nat \<Rightarrow> byte list \<Rightarrow> int \<Rightarrow> fks \<Rightarrow> (fks \<times> fstage \<times> nat \<times> byte list) option" where
  "receive_after n msg_size got r s =
     (if r \<noteq> 0 then Some (mbx_sem_signal n RcvSem True s, FRet (int msg_size), msg_size, got)
      else map_option (\<lambda>(s1, bs). (s1, FTurn, msg_size - length bs, got @ bs)) (f_get n msg_size s))"

definition f_mbx_receive_turn :: "proc \<Rightarrow> nat \<Rightarrow> nat \<Rightarrow> byte list \<Rightarrow> fks \<Rightarrow> (fks \<times> fstage \<times> nat \<times> byte list) option" where
  "f_mbx_receive_turn p n msg_size got s =
     (if msg_size = 0 then Some (mbx_sem_signal n RcvSem True s, FRet 0, 0, got)
      else (case f_mbx_wait p n (avbs (fbuf (fifos s n))) s of
              (s1, None) \<Rightarrow> Some (s1, FSleepBuf, msg_size, got)
            | (s1, Some r) \<Rightarrow> receive_after n msg_size got r s1))"

definition f_mbx_receive_resume :: "proc \<Rightarrow> bool \<Rightarrow> nat \<Rightarrow> nat \<Rightarrow> byte list \<Rightarrow> fks \<Rightarrow> (fks \<times> fstage \<times> nat \<times> byte list) option" where
  "f_mbx_receive_resume p sig n msg_size got s =
     (case f_mbx_wait_resume p sig n s of (s1, r) \<Rightarrow> receive_after n msg_size got r s1)"

text \<open>\<^verbatim>\<open>mbx_receive_wjo\<close> takes one turn only.\<close>

definition f_mbx_receive_wjo_end :: "nat \<Rightarrow> (fks \<times> fstage \<times> nat \<times> byte list) option \<Rightarrow> (fks \<times> fstage \<times> nat \<times> byte list) option" where
  "f_mbx_receive_wjo_end n r =
     map_option (\<lambda>(s, st, missing, got). if st = FTurn then (mbx_sem_signal n RcvSem True s, FRet (int missing), missing, got)
                                      else (s, st, missing, got)) r"

definition f_mbx_receive_wp :: "nat \<Rightarrow> nat \<Rightarrow> fks \<Rightarrow> (fks \<times> byte list) option" where
  "f_mbx_receive_wp n msg_size s =
     (if sfree (frcv (fifos s n)) \<noteq> 0 \<and> avbs (fbuf (fifos s n)) \<noteq> 0
      then map_option (\<lambda>(s1, got). (mbx_sem_signal n RcvSem True s1, got))
             (f_get n msg_size (upd_fifo n (set_sem RcvSem (\<lambda>k. k\<lparr>sfree := 0\<rparr>)) s))
      else Some (s, []))"

definition f_mbx_receive_if :: "nat \<Rightarrow> nat \<Rightarrow> fks \<Rightarrow> (fks \<times> byte list) option" where
  "f_mbx_receive_if n msg_size s =
     (if sfree (frcv (fifos s n)) \<noteq> 0 \<and> msg_size \<le> avbs (fbuf (fifos s n))
      then map_option (\<lambda>(s1, got). (mbx_sem_signal n RcvSem True s1, got))
             (f_get n msg_size (upd_fifo n (set_sem RcvSem (\<lambda>k. k\<lparr>sfree := 0\<rparr>)) s))
      else Some (s, []))"

definition f_mbx_ovrwr_send :: "nat \<Rightarrow> byte list \<Rightarrow> fks \<Rightarrow> (fks \<times> int) option" where
  "f_mbx_ovrwr_send n data s =
     (if sfree (fsnd (fifos s n)) \<noteq> 0
      then map_option (\<lambda>m. (mbx_sem_signal n SndSem True (f_mbx_signal n
               (upd_fifo n (\<lambda>f. f\<lparr>fbuf := m\<rparr>) (upd_fifo n (set_sem SndSem (\<lambda>k. k\<lparr>sfree := 0\<rparr>)) s))), 0))
             (f_mbx_ovrwr_put (fbuf (fifos s n)) data)
      else Some (s, int (length data)))"

section \<open>Services\<close>

text \<open>\<^verbatim>\<open>VALID_FIFO\<close>: the error, if any.\<close>

definition invalid_fifo :: "nat \<Rightarrow> fks \<Rightarrow> int option" where
  "invalid_fifo n s = (if n \<ge> MAX_FIFOS then Some (- ENODEV) else if opncnt (fifos s n) = 0 then Some (- EINVAL) else None)"

text \<open>\<^verbatim>\<open>rtf_reset\<close>: it takes the receivers' semaphore, then looks once a tick for the senders' or for a
  sender that sleeps at the buffer (\<open>None\<close>: not yet), and empties the buffer.\<close>

definition rtf_reset :: "proc \<Rightarrow> nat \<Rightarrow> fks \<Rightarrow> fks \<times> fstage" where
  "rtf_reset p n s =
     (case invalid_fifo n s of Some e \<Rightarrow> (s, FRet e)
      | None \<Rightarrow> (case mbx_sem_wait p n RcvSem s of (s1, r) \<Rightarrow> (s1, after_sem_wait (- EBADF) r)))"

definition claim_sender :: "nat \<Rightarrow> fks \<Rightarrow> (fks \<times> bool) option" where
  "claim_sender n s =
     (case mbx_sem_wait_if n SndSem s of
        (s1, v) \<Rightarrow> if v = 0 \<and> fwait (fifos s1 n) = None then None else Some (s1, v \<noteq> 0))"

definition rtf_reset_turn :: "nat \<Rightarrow> fks \<Rightarrow> (fks \<times> int) option" where
  "rtf_reset_turn n s =
     map_option (\<lambda>(s1, semval).
       (let s2 = upd_fifo n (\<lambda>f. f\<lparr>fbuf := (fbuf f)\<lparr>frbs := mbx_size (fbuf f), fbyte := 0, lbyte := 0, avbs := 0\<rparr>\<rparr>) s1;
            s3 = (if semval then mbx_sem_signal n SndSem True s2 else f_mbx_signal n s2)
        in (mbx_sem_signal n RcvSem True s3, 0))) (claim_sender n s)"

text \<open>\<^verbatim>\<open>rtf_resize\<close>: \<open>mem\<close> is the new buffer that the kernel's allocator gave, of \<open>sz\<close> bytes.\<close>

abbreviation (input) PAGE_SIZE :: nat where "PAGE_SIZE \<equiv> 4096"

definition mem_type :: "nat \<Rightarrow> char" where
  "mem_type sz = (if sz \<le> PAGE_SIZE * 32 then CHR ''k'' else CHR ''v'')"

definition rtf_resize :: "proc \<Rightarrow> nat \<Rightarrow> nat \<Rightarrow> byte list option \<Rightarrow> fks \<Rightarrow> fks \<times> fstage" where
  "rtf_resize p n sz mem s =
     (case invalid_fifo n s of Some e \<Rightarrow> (s, FRet e)
      | None \<Rightarrow>
          if sz = 0 then (s, FRet (- EINVAL))
          else if mem = None then (s, FRet (- ENOMEM))
          else (case mbx_sem_wait p n RcvSem s of (s1, r) \<Rightarrow> (s1, after_sem_wait (- EBADF) r)))"

text \<open>The buffer after its bytes were moved to the new memory; its size is set by the caller.\<close>

definition move_bytes :: "nat \<Rightarrow> byte list \<Rightarrow> mbx \<Rightarrow> mbx option" where
  "move_bytes sz mem m =
     map_option (\<lambda>(m1, got).
       m1\<lparr>frbs := sz - length got, avbs := sz - (sz - length got), lbyte := sz - (sz - length got), fbyte := 0,
         bufadr := copy_in 0 got mem\<rparr>) (f_mbx_get m sz)"

definition rtf_resize_turn :: "nat \<Rightarrow> nat \<Rightarrow> byte list \<Rightarrow> fks \<Rightarrow> (fks \<times> int) option" where
  "rtf_resize_turn n sz mem s =
     (case claim_sender n s of None \<Rightarrow> None
      | Some (s1, semval) \<Rightarrow>
          (let m = fbuf (fifos s1 n) in
           if sz < avbs m
           then Some (mbx_sem_signal n RcvSem True (if semval then mbx_sem_signal n SndSem True s1 else s1), - EBUSY)
           else map_option (\<lambda>m1.
               (let grow = (semval \<or> sz > mbx_size m);
                    s2 = upd_fifo n (\<lambda>f. f\<lparr>fbuf := (if grow then m1\<lparr>mbx_size := sz\<rparr> else m1), malloc_type := mem_type sz\<rparr>) s1;
                    s3 = (if semval then mbx_sem_signal n SndSem True s2 else if grow then f_mbx_signal n s2 else s2)
                in (mbx_sem_signal n RcvSem True s3, int sz))) (move_bytes sz mem m)))"

text \<open>\<^verbatim>\<open>rtf_create\<close>; \<open>None\<close>: the FIFO is open and must be resized first, by \<^verbatim>\<open>rtf_resize\<close>, after which
  \<open>rtf_create_end\<close> follows whatever came of it.\<close>

definition rtf_create_end :: "nat \<Rightarrow> fks \<Rightarrow> fks \<times> int" where
  "rtf_create_end n s = (upd_fifo n (\<lambda>f. f\<lparr>opncnt := s32 (opncnt f + 1)\<rparr>) s, 0)"

definition rtf_create :: "nat \<Rightarrow> nat \<Rightarrow> byte list option \<Rightarrow> fks \<Rightarrow> (fks \<times> int) option" where
  "rtf_create n sz mem s =
     (if n \<ge> MAX_FIFOS then Some (s, - ENODEV)
      else if opncnt (fifos s n) = 0 then
        (case mem of None \<Rightarrow> Some (upd_fifo n (\<lambda>f. f\<lparr>opncnt := 0\<rparr>) s, - ENOMEM)
         | Some buf \<Rightarrow>
             Some (upd_fifo n (\<lambda>f. (f_mbx_init sz buf f)\<lparr>opncnt := 1, malloc_type := mem_type sz, fhandler := 0,
                                   fsem := mbx_sem_init 0, pol_asyn_pended := False, asynq := False\<rparr>) s, 0))
      else if sz > mbx_size (fbuf (fifos s n)) then None
      else Some (rtf_create_end n s))"

definition rtf_destroy :: "nat \<Rightarrow> fks \<Rightarrow> fks \<times> int" where
  "rtf_destroy n s =
     (case invalid_fifo n s of Some e \<Rightarrow> (s, e)
      | None \<Rightarrow>
          (let s1 = upd_fifo n (\<lambda>f. f\<lparr>opncnt := opncnt f - 1\<rparr>) s;
               s2 = (if opncnt (fifos s1 n) = 0
                     then upd_fifo n (\<lambda>f. f\<lparr>pol_asyn_pended := False, asynq := False, fname := ''''\<rparr>)
                            (f_mbx_delete n (upd_fifo n (\<lambda>f. f\<lparr>fhandler := 0\<rparr>) s1))
                     else s1)
           in (s2, opncnt (fifos s2 n))))"

text \<open>A null handler is 0.\<close>

definition rtf_create_handler :: "nat \<Rightarrow> nat \<Rightarrow> fks \<Rightarrow> fks \<times> int" where
  "rtf_create_handler n h s =
     (if n \<ge> MAX_FIFOS \<or> h = 0 then (s, - EINVAL) else (upd_fifo n (\<lambda>f. f\<lparr>fhandler := h\<rparr>) s, 0))"

definition rtf_put :: "nat \<Rightarrow> byte list \<Rightarrow> fks \<Rightarrow> (fks \<times> int) option" where
  "rtf_put n data s =
     (case invalid_fifo n s of Some e \<Rightarrow> Some (s, e)
      | None \<Rightarrow> map_option (\<lambda>(s1, rest). (s1, int (length data) - int (length rest))) (f_mbx_send_wp n data s))"

definition rtf_ovrwr_put :: "nat \<Rightarrow> byte list \<Rightarrow> fks \<Rightarrow> (fks \<times> int) option" where
  "rtf_ovrwr_put n data s =
     (case invalid_fifo n s of Some e \<Rightarrow> Some (s, e) | None \<Rightarrow> f_mbx_ovrwr_send n data s)"

definition rtf_put_if :: "nat \<Rightarrow> byte list \<Rightarrow> fks \<Rightarrow> (fks \<times> int) option" where
  "rtf_put_if n data s =
     (case invalid_fifo n s of Some e \<Rightarrow> Some (s, e)
      | None \<Rightarrow> map_option (\<lambda>(s1, rest). (s1, int (length data) - int (length rest))) (f_mbx_send_if n data s))"

definition rtf_get_avbs :: "nat \<Rightarrow> fks \<Rightarrow> int" where
  "rtf_get_avbs n s = (case invalid_fifo n s of Some e \<Rightarrow> e | None \<Rightarrow> int (avbs (fbuf (fifos s n))))"

definition rtf_get_frbs :: "nat \<Rightarrow> fks \<Rightarrow> int" where
  "rtf_get_frbs n s = (case invalid_fifo n s of Some e \<Rightarrow> e | None \<Rightarrow> int (frbs (fbuf (fifos s n))))"

text \<open>The result of a get is the number of bytes; the bytes come with it.\<close>

definition rtf_get :: "nat \<Rightarrow> nat \<Rightarrow> fks \<Rightarrow> (fks \<times> int \<times> byte list) option" where
  "rtf_get n cnt s =
     (case invalid_fifo n s of Some e \<Rightarrow> Some (s, e, [])
      | None \<Rightarrow> map_option (\<lambda>(s1, got). (s1, int (length got), got)) (f_mbx_receive_wp n cnt s))"

definition rtf_evdrp :: "nat \<Rightarrow> nat \<Rightarrow> fks \<Rightarrow> (int \<times> byte list) option" where
  "rtf_evdrp n cnt s =
     (case invalid_fifo n s of Some e \<Rightarrow> Some (e, [])
      | None \<Rightarrow> map_option (\<lambda>got. (int (length got), got)) (f_mbx_evdrp (fbuf (fifos s n)) cnt))"

definition rtf_get_if :: "nat \<Rightarrow> nat \<Rightarrow> fks \<Rightarrow> (fks \<times> int \<times> byte list) option" where
  "rtf_get_if n cnt s =
     (case invalid_fifo n s of Some e \<Rightarrow> Some (s, e, [])
      | None \<Rightarrow> map_option (\<lambda>(s1, got). (s1, int (length got), got)) (f_mbx_receive_if n cnt s))"

definition rtf_sem_init :: "nat \<Rightarrow> int \<Rightarrow> fks \<Rightarrow> fks \<times> int" where
  "rtf_sem_init n value s =
     (case invalid_fifo n s of Some e \<Rightarrow> (s, e) | None \<Rightarrow> (upd_fifo n (\<lambda>f. f\<lparr>fsem := mbx_sem_init value\<rparr>) s, 0))"

definition rtf_sem_post :: "nat \<Rightarrow> fks \<Rightarrow> fks \<times> int" where
  "rtf_sem_post n s = (case invalid_fifo n s of Some e \<Rightarrow> (s, e) | None \<Rightarrow> (mbx_sem_signal n UserSem False s, 0))"

definition rtf_sem_trywait :: "nat \<Rightarrow> fks \<Rightarrow> fks \<times> int" where
  "rtf_sem_trywait n s = (case invalid_fifo n s of Some e \<Rightarrow> (s, e) | None \<Rightarrow> mbx_sem_wait_if n UserSem s)"

definition rtf_sem_destroy :: "nat \<Rightarrow> fks \<Rightarrow> fks \<times> int" where
  "rtf_sem_destroy n s = (case invalid_fifo n s of Some e \<Rightarrow> (s, e) | None \<Rightarrow> (mbx_sem_delete n UserSem s, 0))"

section \<open>The device file\<close>

text \<open>What \<^verbatim>\<open>read\<close> and \<^verbatim>\<open>write\<close> return once the transfer gave \<open>cnt\<close> bytes; \<open>h\<close> is what the FIFO's
  handler answers, \<open>nonblock\<close> the flag of the file.\<close>

definition rtf_read_end :: "bool \<Rightarrow> int \<Rightarrow> int \<Rightarrow> int" where
  "rtf_read_end nonblock cnt h =
     (if nonblock \<and> cnt = 0 then - EAGAIN else if cnt \<noteq> 0 \<and> h < 0 then h else cnt)"

definition rtf_write_end :: "bool \<Rightarrow> int \<Rightarrow> int \<Rightarrow> int" where
  "rtf_write_end nonblock cnt h = (if nonblock \<and> cnt = 0 then - EAGAIN else if h < 0 then h else cnt)"

definition rtf_read_nonblock :: "nat \<Rightarrow> nat \<Rightarrow> int \<Rightarrow> fks \<Rightarrow> (fks \<times> int \<times> byte list) option" where
  "rtf_read_nonblock n cnt h s =
     map_option (\<lambda>(s1, got). (s1, rtf_read_end True (int (length got)) h, got)) (f_mbx_receive_wp n cnt s)"

definition rtf_write_nonblock :: "nat \<Rightarrow> byte list \<Rightarrow> int \<Rightarrow> fks \<Rightarrow> (fks \<times> int) option" where
  "rtf_write_nonblock n data h s =
     map_option (\<lambda>(s1, rest). (s1, rtf_write_end True (int (length data) - int (length rest)) h)) (f_mbx_send_wp n data s)"

text \<open>\<^verbatim>\<open>rtf_poll\<close>: readable, writable.\<close>

definition rtf_poll :: "nat \<Rightarrow> fks \<Rightarrow> bool \<times> bool" where
  "rtf_poll n s = (avbs (fbuf (fifos s n)) \<noteq> 0, frbs (fbuf (fifos s n)) \<noteq> 0)"

section \<open>Named FIFOs\<close>

text \<open>The search of \<^verbatim>\<open>rtf_named_create\<close> over the numbers \<open>ns\<close>. Names are C strings of at most 15
  characters, so that \<^verbatim>\<open>strncmp\<close> compares them whole.\<close>

fun named_slot :: "string \<Rightarrow> nat list \<Rightarrow> fks \<Rightarrow> nat option" where
  "named_slot name [] s = None"
| "named_slot name (n # ns) s =
     (if name = fname (fifos s n) then None
      else if opncnt (fifos s n) = 0 \<and> fname (fifos s n) = '''' then Some n
      else named_slot name ns s)"

definition rtf_named_create :: "string \<Rightarrow> nat \<Rightarrow> byte list option \<Rightarrow> fks \<Rightarrow> (fks \<times> int) option" where
  "rtf_named_create name sz mem s =
     (if length name > RTF_NAMELEN then Some (s, - EINVAL)
      else (case named_slot name [0..<MAX_FIFOS] s of
              None \<Rightarrow> Some (s, - EBUSY)
            | Some n \<Rightarrow>
                (case rtf_create n sz mem (upd_fifo n (\<lambda>f. f\<lparr>fname := name\<rparr>) s) of
                   None \<Rightarrow> None
                 | Some (s1, err) \<Rightarrow>
                     if err < 0 then Some (upd_fifo n (\<lambda>f. f\<lparr>fname := ''''\<rparr>) s1, err) else Some (s1, int n))))"

abbreviation (input) DEFAULT_SIZE :: nat where "DEFAULT_SIZE \<equiv> 1000"

definition rtf_create_named :: "string \<Rightarrow> byte list option \<Rightarrow> fks \<Rightarrow> (fks \<times> int) option" where
  "rtf_create_named name mem s = rtf_named_create name DEFAULT_SIZE mem s"

definition rtf_getfifobyname :: "string \<Rightarrow> fks \<Rightarrow> int" where
  "rtf_getfifobyname name s =
     (if length name > RTF_NAMELEN then - EINVAL
      else (case find (\<lambda>n. opncnt (fifos s n) \<noteq> 0 \<and> name = fname (fifos s n)) [0..<MAX_FIFOS] of
              Some n \<Rightarrow> int n | None \<Rightarrow> - ENODEV))"

text \<open>\<^verbatim>\<open>__rtai_fifos_init\<close>: the structures it sets up.\<close>

definition zero_fifo :: fifo where
  "zero_fifo = \<lparr>fbuf = zero_mbx, fsnd = mbx_sem_init 0, frcv = mbx_sem_init 0, fwait = None, opncnt = 0,
     malloc_type = CHR 0x00, pol_asyn_pended = False, pollq_active = False, asynq = False, fhandler = 0,
     fsem = mbx_sem_init 0, fname = ''''\<rparr>"

definition rtai_fifos_init :: "(proc \<Rightarrow> int) \<Rightarrow> fks" where
  "rtai_fifos_init prios = \<lparr>fifos = (\<lambda>_. zero_fifo), taskq = (\<lambda>_. 0), taskq_in = 0, taskq_out = 0, polq = (\<lambda>_. 0),
     polq_in = 0, polq_out = 0, srq_pended = False, lx_blocked = (\<lambda>_. False), rt_priority = prios,
     sleeping = (\<lambda>_. False), notified = []\<rparr>"

section \<open>Callers in user space\<close>

text \<open>The same services with the bytes copied from and to user space.\<close>

definition rtf_ovrwr_put_user :: "nat \<Rightarrow> byte list \<Rightarrow> fks \<Rightarrow> (fks \<times> int) option" where
  "rtf_ovrwr_put_user n data s =
     (case invalid_fifo n s of Some e \<Rightarrow> Some (s, e) | None \<Rightarrow> f_mbx_ovrwr_send n data s)"

definition rtf_put_user :: "nat \<Rightarrow> byte list \<Rightarrow> fks \<Rightarrow> (fks \<times> int) option" where
  "rtf_put_user n data s =
     (case invalid_fifo n s of Some e \<Rightarrow> Some (s, e)
      | None \<Rightarrow> map_option (\<lambda>(s1, rest). (s1, int (length data) - int (length rest))) (f_mbx_send_wp n data s))"

definition rtf_get_user :: "nat \<Rightarrow> nat \<Rightarrow> fks \<Rightarrow> (fks \<times> int \<times> byte list) option" where
  "rtf_get_user n cnt s =
     (case invalid_fifo n s of Some e \<Rightarrow> Some (s, e, [])
      | None \<Rightarrow> map_option (\<lambda>(s1, got). (s1, int (length got), got)) (f_mbx_receive_wp n cnt s))"

definition rtf_put_if_user :: "nat \<Rightarrow> byte list \<Rightarrow> fks \<Rightarrow> (fks \<times> int) option" where
  "rtf_put_if_user n data s =
     (case invalid_fifo n s of Some e \<Rightarrow> Some (s, e)
      | None \<Rightarrow> map_option (\<lambda>(s1, rest). (s1, int (length data) - int (length rest))) (f_mbx_send_if n data s))"

definition rtf_get_if_user :: "nat \<Rightarrow> nat \<Rightarrow> fks \<Rightarrow> (fks \<times> int \<times> byte list) option" where
  "rtf_get_if_user n cnt s =
     (case invalid_fifo n s of Some e \<Rightarrow> Some (s, e, [])
      | None \<Rightarrow> map_option (\<lambda>(s1, got). (s1, int (length got), got)) (f_mbx_receive_if n cnt s))"

end
