(* ===== verification/Fifos_Thms.thy ===== *)
theory Fifos_Thms
  imports Fifos
begin

text \<open>
  What FIFOs guarantee: an open FIFO answers any sequence of puts and gets as a queue of bytes of the capacity of its
  buffer; resizing keeps the bytes; signals reach the processes they are for as long as fewer than 64 are
  pending; a named FIFO is found under its name. And four ways in which this can fail.
\<close>

section \<open>Updates\<close>

lemma upd_fifo_sel [simp]:
  "fifos (upd_fifo n g s) = (fifos s)(n := g (fifos s n))" "taskq (upd_fifo n g s) = taskq s"
  "taskq_in (upd_fifo n g s) = taskq_in s" "taskq_out (upd_fifo n g s) = taskq_out s"
  "lx_blocked (upd_fifo n g s) = lx_blocked s" "sleeping (upd_fifo n g s) = sleeping s"
  "rt_priority (upd_fifo n g s) = rt_priority s"
  by (simp_all add: upd_fifo_def)

lemma pend_task_sel [simp]:
  "fifos (pend_task p s) = fifos s" "taskq_out (pend_task p s) = taskq_out s" "sleeping (pend_task p s) = sleeping s"
  "taskq_in (pend_task p s) = (taskq_in s + 1) mod 64" "taskq (pend_task p s) = (taskq s)(taskq_in s := p)"
  "lx_blocked (pend_task p s) = lx_blocked s" "fifos (pend_fifo n s) = fifos s"
  by (simp_all add: pend_task_def pend_fifo_def)

lemma set_sem_sel [simp]:
  "fbuf (set_sem x g f) = fbuf f" "fwait (set_sem x g f) = fwait f" "opncnt (set_sem x g f) = opncnt f"
  "fname (set_sem x g f) = fname f" "the_sem y (set_sem x g f) = (if x = y then g (the_sem x f) else the_sem y f)"
  by (cases x; cases y; simp)+

lemma the_sem_other [simp]:
  "the_sem y (f\<lparr>pol_asyn_pended := b\<rparr>) = the_sem y f" "the_sem y (f\<lparr>fbuf := m\<rparr>) = the_sem y f"
  "the_sem y (f\<lparr>fwait := w\<rparr>) = the_sem y f" "the_sem y (f\<lparr>fname := nm\<rparr>) = the_sem y f"
  by (cases y; simp)+

text \<open>A signal touches no buffer and counts no opening.\<close>

lemma f_mbx_signal_sel [simp]:
  "fbuf (fifos (f_mbx_signal n s) k) = fbuf (fifos s k)" "opncnt (fifos (f_mbx_signal n s) k) = opncnt (fifos s k)"
  "the_sem x (fifos (f_mbx_signal n s) k) = the_sem x (fifos s k)" "fname (fifos (f_mbx_signal n s) k) = fname (fifos s k)"
  by (cases x; simp add: f_mbx_signal_def split: option.splits)+

lemma mbx_sem_signal_sel [simp]:
  "fbuf (fifos (mbx_sem_signal n x b s) k) = fbuf (fifos s k)"
  "opncnt (fifos (mbx_sem_signal n x b s) k) = opncnt (fifos s k)"
  "x \<noteq> y \<Longrightarrow> the_sem y (fifos (mbx_sem_signal n x b s) k) = the_sem y (fifos s k)"
  by (simp_all add: mbx_sem_signal_def f_dequeue_blocked_def Let_def fun_upd_apply split: list.split)

text \<open>A semaphore that nobody waits for becomes free.\<close>

lemma mbx_sem_signal_free:
  "squeue (the_sem x (fifos s n)) = [] \<Longrightarrow>
   the_sem x (fifos (mbx_sem_signal n x b s) n) = (the_sem x (fifos s n))\<lparr>sfree := 1\<rparr>"
  by (cases x; simp add: mbx_sem_signal_def Let_def)

lemmas sem_conv = the_sem.simps(1) [symmetric] the_sem.simps(2) [symmetric]

section \<open>The buffer\<close>

text \<open>Resizing to exactly the bytes there are leaves the write index at the end of the buffer, not
  at its start; the next put wraps it.\<close>

definition fbuf_wf :: "mbx \<Rightarrow> bool" where
  "fbuf_wf m \<longleftrightarrow> lbyte m \<le> mbx_size m \<and> mbx_wf (m\<lparr>lbyte := MOD_SIZE m (lbyte m)\<rparr>)"

lemma mbx_wf_fbuf_wf: "mbx_wf m \<Longrightarrow> fbuf_wf m"
  using lbyte_less [of m] by (simp add: fbuf_wf_def MOD_SIZE_def)

lemma bytes_lbyte [simp]: "mbx_bytes (m\<lparr>lbyte := l\<rparr>) = mbx_bytes m"
  by (simp add: mbx_bytes_def)

lemma fbuf_put:
  assumes "fbuf_wf m"
  shows "\<exists>m'. mbxput m data = Some (m', drop (frbs m) data) \<and> fbuf_wf m' \<and>
    mbx_bytes m' = mbx_bytes m @ take (frbs m) data \<and> frbs m' = frbs m - length data"
proof (cases "lbyte m < mbx_size m")
  case True
  then have "mbx_wf m" using assms by (simp add: fbuf_wf_def MOD_SIZE_def)
  then show ?thesis using mbxput_total mbx_wf_fbuf_wf by blast
next
  case False
  let ?w = "m\<lparr>lbyte := MOD_SIZE m (lbyte m)\<rparr>"
  have l: "lbyte m = mbx_size m" and w: "mbx_wf ?w" using assms False unfolding fbuf_wf_def by auto
  have "length (bufadr m) = mbx_size m" using w by (simp add: mbx_wf_def)
  then have step: "put_chunk [] m = ?w" "put_size k m = 0" for k
    using l by (simp_all add: put_chunk_def copy_in_def put_size_def)
  show ?thesis
  proof (cases "data \<noteq> [] \<and> frbs m \<noteq> 0")
    case True
    then have "mbxput m data = mbxput ?w data" by (subst mbxput.simps) (simp add: step)
    then show ?thesis using mbxput_total [OF w, of data] mbx_wf_fbuf_wf by auto
  next
    case False
    then show ?thesis using assms by (subst mbxput.simps) auto
  qed
qed

lemma mbxget_lbyte:
  assumes "mbx_wf m"
  shows "mbxget (m\<lparr>lbyte := l\<rparr>) n got = map_option (\<lambda>(m', g). (m'\<lparr>lbyte := l\<rparr>, g)) (mbxget m n got)"
  using assms
proof (induction n arbitrary: got m rule: less_induct)
  case (less n)
  let ?k = "get_size n m"
  have d: "drop_chunk k (m\<lparr>lbyte := l\<rparr>) = (drop_chunk k m)\<lparr>lbyte := l\<rparr>" "get_size n (m\<lparr>lbyte := l\<rparr>) = ?k" for k
    by (simp_all add: drop_chunk_def MOD_SIZE_def get_size_def)
  show ?case
  proof (cases "0 < n \<and> avbs m \<noteq> 0")
    case True
    then have k: "0 < ?k" "?k \<le> avbs m" "?k \<le> mbx_size m - fbyte m"
      using get_size_pos [OF less.prems, of n] by (auto simp: get_size_def)
    have "mbxget ((drop_chunk ?k m)\<lparr>lbyte := l\<rparr>) (n - ?k) (got @ copy_out (fbyte m) ?k (bufadr m)) =
      map_option (\<lambda>(m', g). (m'\<lparr>lbyte := l\<rparr>, g)) (mbxget (drop_chunk ?k m) (n - ?k) (got @ copy_out (fbyte m) ?k (bufadr m)))"
      using True k drop_chunk_bytes(3) [OF less.prems k(2, 3)] by (intro less.IH) auto
    then show ?thesis using True d by (subst (1 2) mbxget.simps) simp
  next
    case False
    then show ?thesis by (subst (1 2) mbxget.simps) auto
  qed
qed

lemma fbuf_get:
  assumes "fbuf_wf m"
  shows "\<exists>m'. mbxget m n [] = Some (m', take n (mbx_bytes m)) \<and> fbuf_wf m' \<and>
    mbx_bytes m' = drop n (mbx_bytes m) \<and> frbs m' = frbs m + min n (avbs m)"
proof -
  let ?w = "m\<lparr>lbyte := MOD_SIZE m (lbyte m)\<rparr>"
  have w: "mbx_wf ?w" using assms by (simp add: fbuf_wf_def)
  obtain w' where w': "mbxget ?w n [] = Some (w', take n (mbx_bytes ?w))" "mbx_wf w'" "same_mbx ?w w'"
    "mbx_bytes w' = drop n (mbx_bytes ?w)" "frbs w' = frbs ?w + min n (avbs ?w)"
    using mbxget_total [OF w, of n "[]"] by auto
  have "lbyte w' = lbyte ?w" using mbxget_lbyte [OF w, of "lbyte ?w" n "[]"] w'(1) by (simp, metis mbx.select_convs mbx.update_convs mbx.surjective)
  then have e: "w'\<lparr>lbyte := lbyte m, lbyte := MOD_SIZE m (lbyte m)\<rparr> = w'" by simp
  have sz: "mbx_size w' = mbx_size m" using w'(3) by (simp add: same_mbx_def)
  then have "MOD_SIZE (w'\<lparr>lbyte := lbyte m\<rparr>) (lbyte m) = MOD_SIZE m (lbyte m)" by (simp add: MOD_SIZE_def)
  then have "fbuf_wf (w'\<lparr>lbyte := lbyte m\<rparr>)" using assms w'(2) e sz by (simp add: fbuf_wf_def)
  moreover have "mbxget m n [] = Some (w'\<lparr>lbyte := lbyte m\<rparr>, take n (mbx_bytes m))"
    using mbxget_lbyte [OF w, of "lbyte m" n "[]"] w'(1) by simp
  ultimately show ?thesis using w' by auto
qed

section \<open>Puts and gets\<close>

text \<open>An open FIFO at which nobody is at work or waits.\<close>

definition rtf_idle :: "nat \<Rightarrow> fks \<Rightarrow> bool" where
  "rtf_idle n s \<longleftrightarrow> n < MAX_FIFOS \<and> opncnt (fifos s n) \<noteq> 0 \<and> fbuf_wf (fbuf (fifos s n)) \<and>
     (\<forall>x \<in> {SndSem, RcvSem}. sfree (the_sem x (fifos s n)) \<noteq> 0 \<and> squeue (the_sem x (fifos s n)) = [])"

text \<open>The two services in the form of the contract: the rest of the message that \<^verbatim>\<open>rtf_put\<close> did not take by its
  answer, and the bytes that \<^verbatim>\<open>rtf_get\<close> got. \<open>None\<close> stands for an answer that is not the number of bytes moved, too.\<close>

definition fifo_put :: "nat \<Rightarrow> fks \<Rightarrow> byte list \<Rightarrow> (fks \<times> byte list) option" where
  "fifo_put n s xs =
     (case rtf_put n xs s of None \<Rightarrow> None
      | Some (s1, r) \<Rightarrow> if 0 \<le> r \<and> r \<le> int (length xs) then Some (s1, drop (nat r) xs) else None)"

definition fifo_get :: "nat \<Rightarrow> fks \<Rightarrow> nat \<Rightarrow> (fks \<times> byte list) option" where
  "fifo_get n s k =
     (case rtf_get n k s of None \<Rightarrow> None | Some (s1, r, got) \<Rightarrow> if r = int (length got) then Some (s1, got) else None)"

lemma idle_valid: "rtf_idle n s \<Longrightarrow> invalid_fifo n s = None"
  by (simp add: rtf_idle_def invalid_fifo_def)

lemma idle_after:
  assumes "rtf_idle n s" "fbuf_wf m" "x \<in> {SndSem, RcvSem}"
  shows "rtf_idle n (mbx_sem_signal n x b (f_mbx_signal n (upd_fifo n (\<lambda>f. f\<lparr>fbuf := m\<rparr>)
    (upd_fifo n (set_sem x (\<lambda>k. k\<lparr>sfree := 0\<rparr>)) s))))" (is "rtf_idle n (mbx_sem_signal n x b ?s)")
proof -
  have q: "squeue (the_sem x (fifos ?s n)) = []" using assms by (auto simp: rtf_idle_def)
  have "sfree (the_sem y (fifos (mbx_sem_signal n x b ?s) n)) \<noteq> 0 \<and> squeue (the_sem y (fifos (mbx_sem_signal n x b ?s) n)) = []"
    if "y \<in> {SndSem, RcvSem}" for y
  proof (cases "y = x")
    case True
    then show ?thesis using mbx_sem_signal_free [OF q, of b] q by simp
  next
    case False
    then show ?thesis using assms(1) that by (auto simp: rtf_idle_def)
  qed
  then show ?thesis using assms(1, 2) by (simp add: rtf_idle_def)
qed

lemma send_wp_idle:
  assumes "rtf_idle n s"
  shows "\<exists>s'. f_mbx_send_wp n xs s = Some (s', drop (frbs (fbuf (fifos s n))) xs) \<and> rtf_idle n s' \<and>
    mbx_bytes (fbuf (fifos s' n)) = mbx_bytes (fbuf (fifos s n)) @ take (frbs (fbuf (fifos s n))) xs \<and>
    frbs (fbuf (fifos s' n)) = frbs (fbuf (fifos s n)) - length xs"
proof (cases "frbs (fbuf (fifos s n)) = 0")
  case True
  then show ?thesis using assms by (simp add: f_mbx_send_wp_def)
next
  case False
  let ?m = "fbuf (fifos s n)"
  have "fbuf_wf ?m" using assms by (simp add: rtf_idle_def)
  then obtain m' where m': "mbxput ?m xs = Some (m', drop (frbs ?m) xs)" "fbuf_wf m'"
    "mbx_bytes m' = mbx_bytes ?m @ take (frbs ?m) xs" "frbs m' = frbs ?m - length xs" using fbuf_put by blast
  have "sfree (fsnd (fifos s n)) \<noteq> 0" using assms by (simp add: rtf_idle_def)
  then show ?thesis using m' False idle_after [OF assms m'(2), of SndSem True]
    by (auto simp: f_mbx_send_wp_def f_put_def f_mbx_put_def)
qed

lemma receive_wp_idle:
  assumes "rtf_idle n s"
  shows "\<exists>s'. f_mbx_receive_wp n k s = Some (s', take k (mbx_bytes (fbuf (fifos s n)))) \<and> rtf_idle n s' \<and>
    mbx_bytes (fbuf (fifos s' n)) = drop k (mbx_bytes (fbuf (fifos s n))) \<and>
    frbs (fbuf (fifos s' n)) = frbs (fbuf (fifos s n)) + min k (avbs (fbuf (fifos s n)))"
proof (cases "avbs (fbuf (fifos s n)) = 0")
  case True
  then have "take k (mbx_bytes (fbuf (fifos s n))) = []" "drop k (mbx_bytes (fbuf (fifos s n))) = mbx_bytes (fbuf (fifos s n))"
    using mbx_bytes_Nil [of "fbuf (fifos s n)"] by (simp_all del: mbx_bytes_Nil)
  then show ?thesis using assms True by (simp add: f_mbx_receive_wp_def)
next
  case False
  let ?m = "fbuf (fifos s n)"
  have "fbuf_wf ?m" using assms by (simp add: rtf_idle_def)
  then obtain m' where m': "mbxget ?m k [] = Some (m', take k (mbx_bytes ?m))" "fbuf_wf m'"
    "mbx_bytes m' = drop k (mbx_bytes ?m)" "frbs m' = frbs ?m + min k (avbs ?m)" using fbuf_get by blast
  have "sfree (frcv (fifos s n)) \<noteq> 0" using assms by (simp add: rtf_idle_def)
  then show ?thesis using m' False idle_after [OF assms m'(2), of RcvSem True]
    by (auto simp: f_mbx_receive_wp_def f_get_def f_mbx_get_def)
qed

interpretation rtfq: byte_queue "rtf_idle n" "\<lambda>s. mbx_bytes (fbuf (fifos s n))" "\<lambda>s. frbs (fbuf (fifos s n))"
  "fifo_put n" "fifo_get n" for n
proof
  fix s :: fks and xs :: "byte list" assume a: "rtf_idle n s"
  let ?r = "frbs (fbuf (fifos s n))"
  have "drop (nat (int (length xs) - int (length (drop ?r xs)))) xs = drop ?r xs"
    by (cases "?r \<le> length xs") auto
  then show "\<exists>s'. fifo_put n s xs = Some (s', drop ?r xs) \<and> rtf_idle n s' \<and>
      mbx_bytes (fbuf (fifos s' n)) = mbx_bytes (fbuf (fifos s n)) @ take ?r xs \<and> frbs (fbuf (fifos s' n)) = ?r - length xs"
    using send_wp_idle [OF a, of xs] by (auto simp: fifo_put_def rtf_put_def idle_valid [OF a])
next
  fix s :: fks and k :: nat assume a: "rtf_idle n s"
  show "\<exists>s'. fifo_get n s k = Some (s', take k (mbx_bytes (fbuf (fifos s n)))) \<and> rtf_idle n s' \<and>
      mbx_bytes (fbuf (fifos s' n)) = drop k (mbx_bytes (fbuf (fifos s n))) \<and>
      frbs (fbuf (fifos s' n)) = frbs (fbuf (fifos s n)) + min k (length (mbx_bytes (fbuf (fifos s n))))"
    using receive_wp_idle [OF a, of k] by (auto simp: fifo_get_def rtf_get_def idle_valid [OF a])
qed

text \<open>A queue of at most \<open>cap\<close> bytes, as the specification: what each operation of a run answers. A send answers with
  the bytes for which there is no room, a receive with the bytes it takes.\<close>

fun queue_replies :: "nat \<Rightarrow> bq_op list \<Rightarrow> byte list \<Rightarrow> byte list \<times> byte list list" where
  "queue_replies cap [] q = (q, [])"
| "queue_replies cap (Send xs # ops) q =
     (case queue_replies cap ops (q @ take (cap - length q) xs) of (q1, rs) \<Rightarrow> (q1, drop (cap - length q) xs # rs))"
| "queue_replies cap (Receive k # ops) q = (case queue_replies cap ops (drop k q) of (q1, rs) \<Rightarrow> (q1, take k q # rs))"

text \<open>The same run of the code.\<close>

fun bq_replies :: "('b \<Rightarrow> byte list \<Rightarrow> ('b \<times> byte list) option) \<Rightarrow> ('b \<Rightarrow> nat \<Rightarrow> ('b \<times> byte list) option) \<Rightarrow>
    bq_op list \<Rightarrow> 'b \<Rightarrow> ('b \<times> byte list list) option" where
  "bq_replies put get [] b = Some (b, [])"
| "bq_replies put get (Send xs # ops) b =
     (case put b xs of None \<Rightarrow> None
      | Some (b1, rest) \<Rightarrow> map_option (\<lambda>(b2, rs). (b2, rest # rs)) (bq_replies put get ops b1))"
| "bq_replies put get (Receive k # ops) b =
     (case get b k of None \<Rightarrow> None
      | Some (b1, got) \<Rightarrow> map_option (\<lambda>(b2, rs). (b2, got # rs)) (bq_replies put get ops b1))"

context byte_queue begin

lemma run_replies:
  "ok b \<Longrightarrow> queue_replies (room b + length (contents b)) ops (contents b) = (q, rs) \<Longrightarrow>
    \<exists>b'. bq_replies put get ops b = Some (b', rs) \<and> ok b' \<and> contents b' = q"
proof (induction ops arbitrary: b q rs)
  case (Cons op ops)
  show ?case
  proof (cases op)
    case (Send xs)
    obtain b1 where b1: "put b xs = Some (b1, drop (room b) xs)" "ok b1"
      "contents b1 = contents b @ take (room b) xs" "room b1 = room b - length xs"
      using put_law [OF Cons.prems(1)] by blast
    have c: "room b1 + length (contents b1) = room b + length (contents b)" using b1(3, 4) by simp
    obtain rs1 where r: "queue_replies (room b + length (contents b)) ops (contents b1) = (q, rs1)" "rs = drop (room b) xs # rs1"
      using Cons.prems(2) Send b1(3) by (auto split: prod.splits)
    show ?thesis using Cons.IH [OF b1(2), unfolded c, OF r(1)] b1(1) r(2) Send by auto
  next
    case (Receive k)
    obtain b1 where b1: "get b k = Some (b1, take k (contents b))" "ok b1"
      "contents b1 = drop k (contents b)" "room b1 = room b + min k (length (contents b))"
      using get_law [OF Cons.prems(1)] by blast
    have c: "room b1 + length (contents b1) = room b + length (contents b)" using b1(3, 4) by simp
    obtain rs1 where r: "queue_replies (room b + length (contents b)) ops (contents b1) = (q, rs1)" "rs = take k (contents b) # rs1"
      using Cons.prems(2) Receive b1(3) by (auto split: prod.splits)
    show ?thesis using Cons.IH [OF b1(2), unfolded c, OF r(1)] b1(1) r(2) Receive by auto
  qed
qed simp

end

text \<open>C35. On an open FIFO at which nobody waits or is at work, any sequence of \<^verbatim>\<open>rtf_put\<close> and \<^verbatim>\<open>rtf_get\<close> answers, call by
  call, as a queue of bytes with the capacity of the buffer: a put takes as many bytes as there is room for, a
  get returns the oldest bytes, as many as there are. Each call returns, and its answer is the number of bytes moved.\<close>

theorem rtf_is_fifo:
  assumes "rtf_idle n s"
    "queue_replies (mbx_size (fbuf (fifos s n))) ops (mbx_bytes (fbuf (fifos s n))) = (q, rs)"
  shows "\<exists>s'. bq_replies (fifo_put n) (fifo_get n) ops s = Some (s', rs) \<and> rtf_idle n s' \<and> mbx_bytes (fbuf (fifos s' n)) = q"
proof -
  have "frbs (fbuf (fifos s n)) + length (mbx_bytes (fbuf (fifos s n))) = mbx_size (fbuf (fifos s n))"
    using assms(1) by (simp add: rtf_idle_def fbuf_wf_def mbx_wf_def)
  then show ?thesis using rtfq.run_replies [OF assms(1), of ops q rs] assms(2) by simp
qed

section \<open>Opening\<close>

text \<open>A FIFO as \<^verbatim>\<open>rtf_create\<close> makes it.\<close>

lemma rtf_create_idle:
  assumes "n < MAX_FIFOS" "opncnt (fifos s n) = 0" "length buf = sz" "0 < sz"
  shows "\<exists>s'. rtf_create n sz (Some buf) s = Some (s', 0) \<and> rtf_idle n s' \<and> opncnt (fifos s' n) = 1 \<and>
    mbx_bytes (fbuf (fifos s' n)) = [] \<and> frbs (fbuf (fifos s' n)) = sz \<and> mbx_size (fbuf (fifos s' n)) = sz"
  using assms by (simp add: rtf_create_def rtf_idle_def f_mbx_init_def mbx_sem_init_def fbuf_wf_def mbx_wf_def MOD_SIZE_def)

definition demo_fifo :: fks where
  "demo_fifo = fst (the (rtf_create 5 4 (Some [0, 0, 0, 0]) (rtai_fifos_init (\<lambda>_. 0))))"

lemma demo_fifo_ok: "rtf_idle 5 demo_fifo" "mbx_bytes (fbuf (fifos demo_fifo 5)) = []" "opncnt (fifos demo_fifo 5) = 1"
  "frbs (fbuf (fifos demo_fifo 5)) = 4" "mbx_size (fbuf (fifos demo_fifo 5)) = 4"
  using rtf_create_idle [of 5 "rtai_fifos_init (\<lambda>_. 0)" "[0, 0, 0, 0]" 4]
  by (auto simp: demo_fifo_def rtai_fifos_init_def zero_fifo_def)

theorem rtf_is_fifo_witness:
  "\<exists>s'. bq_replies (fifo_put 5) (fifo_get 5) [Send [1, 2, 3], Receive 2, Send [4, 5, 6, 7], Receive 9] demo_fifo =
     Some (s', [[], [1, 2], [7], [3, 4, 5, 6]]) \<and> rtf_idle 5 s' \<and> mbx_bytes (fbuf (fifos s' 5)) = []"
  by (rule rtf_is_fifo [OF demo_fifo_ok(1)]) (simp add: demo_fifo_ok)

section \<open>Resizing\<close>

lemma move_bytes_ok:
  assumes "fbuf_wf m" "avbs m \<le> sz" "length mem = sz" "0 < sz"
  shows "\<exists>m1. move_bytes sz mem m = Some m1 \<and> fbuf_wf (m1\<lparr>mbx_size := sz\<rparr>) \<and>
    mbx_bytes (m1\<lparr>mbx_size := sz\<rparr>) = mbx_bytes m \<and> frbs m1 = sz - avbs m \<and> avbs m1 = avbs m \<and> mbx_size m1 = mbx_size m"
proof -
  obtain m' where m': "mbxget m sz [] = Some (m', take sz (mbx_bytes m))" using fbuf_get [OF assms(1)] by blast
  have sz': "mbx_size m' = mbx_size m"
  proof -
    let ?w = "m\<lparr>lbyte := MOD_SIZE m (lbyte m)\<rparr>"
    have "mbx_wf ?w" using assms(1) by (simp add: fbuf_wf_def)
    then show ?thesis using mbxget_lbyte [of ?w "lbyte m" sz "[]"] mbxget_total [of ?w sz "[]"] m' by (auto simp: same_mbx_def)
  qed
  let ?b = "mbx_bytes m"
  have t: "take sz ?b = ?b" "length ?b = avbs m" using assms(2) by simp_all
  let ?m = "m'\<lparr>frbs := sz - avbs m, avbs := avbs m, lbyte := avbs m, fbyte := 0, bufadr := copy_in 0 ?b mem\<rparr>"
  have mv: "move_bytes sz mem m = Some ?m"
    using m' t assms(2) by (simp add: move_bytes_def f_mbx_get_def)
  have c: "length (copy_in 0 ?b mem) = sz" "\<And>i. i < avbs m \<Longrightarrow> copy_in 0 ?b mem ! i = ?b ! i"
    using assms t by (simp_all add: nth_copy_in)
  have "mbx_bytes (?m\<lparr>mbx_size := sz\<rparr>) = ?b"
    by (rule nth_equalityI) (use c assms(2) in \<open>simp_all add: mbx_bytes_def nth_copy_in\<close>)
  moreover have "fbuf_wf (?m\<lparr>mbx_size := sz\<rparr>)"
    using assms c by (simp add: fbuf_wf_def mbx_wf_def MOD_SIZE_def mod_if)
  ultimately show ?thesis using mv sz' by auto
qed

text \<open>C36. Once it holds the receivers' semaphore, and finds the senders' semaphore free or a sender asleep at the full
  buffer, \<^verbatim>\<open>rtf_resize\<close> keeps the bytes in the FIFO, whether it grows or shrinks and wherever in the buffer they
  lay; a size too small for them is refused and the buffer stays. The documentation of the function says that
  the data are discarded.\<close>

theorem rtf_resize_keeps_bytes:
  assumes "fbuf_wf (fbuf (fifos s n))" "0 < sz" "length mem = sz"
    and "sfree (fsnd (fifos s n)) \<noteq> 0 \<or> fwait (fifos s n) \<noteq> None \<and> frbs (fbuf (fifos s n)) = 0"
  shows "\<exists>s' r. rtf_resize_turn n sz mem s = Some (s', r) \<and> fbuf_wf (fbuf (fifos s' n)) \<and>
    mbx_bytes (fbuf (fifos s' n)) = mbx_bytes (fbuf (fifos s n)) \<and>
    (if sz < avbs (fbuf (fifos s n)) then r = - EBUSY \<and> fbuf (fifos s' n) = fbuf (fifos s n)
     else r = int sz \<and> mbx_size (fbuf (fifos s' n)) = sz)"
proof -
  let ?m = "fbuf (fifos s n)"
  have "\<exists>s1 v. claim_sender n s = Some (s1, v) \<and> fbuf (fifos s1 n) = ?m \<and> (v \<or> frbs ?m = 0)"
    using assms(4) by (cases "sfree (fsnd (fifos s n)) = 0") (auto simp: claim_sender_def mbx_sem_wait_if_def)
  then obtain s1 v where c: "claim_sender n s = Some (s1, v)" and s1: "fbuf (fifos s1 n) = ?m" and v: "v \<or> frbs ?m = 0"
    by blast
  show ?thesis
  proof (cases "sz < avbs ?m")
    case True
    then show ?thesis using c s1 assms(1) by (simp add: rtf_resize_turn_def)
  next
    case False
    then obtain m1 where m1: "move_bytes sz mem ?m = Some m1" "fbuf_wf (m1\<lparr>mbx_size := sz\<rparr>)"
      "mbx_bytes (m1\<lparr>mbx_size := sz\<rparr>) = mbx_bytes ?m" "mbx_size m1 = mbx_size ?m"
      using move_bytes_ok [OF assms(1) _ assms(3, 2)] by auto
    have e: "(if v \<or> sz > mbx_size ?m then m1\<lparr>mbx_size := sz\<rparr> else m1) = m1\<lparr>mbx_size := sz\<rparr>"
    proof (cases "v \<or> sz > mbx_size ?m")
      case g: False
      then have "mbx_size ?m = avbs ?m" using v assms(1) by (simp add: fbuf_wf_def mbx_wf_def)
      then have "sz = mbx_size m1" using g False m1(4) by simp
      then show ?thesis by simp
    qed simp
    let ?s2 = "upd_fifo n (\<lambda>f. f\<lparr>fbuf := m1\<lparr>mbx_size := sz\<rparr>, malloc_type := mem_type sz\<rparr>) s1"
    have "\<exists>s3. rtf_resize_turn n sz mem s = Some (mbx_sem_signal n RcvSem True s3, int sz) \<and> fbuf (fifos s3 n) = m1\<lparr>mbx_size := sz\<rparr>"
      unfolding rtf_resize_turn_def c option.case prod.case Let_def s1 m1(1) option.map e using False
      by (intro exI [of _ "if v then mbx_sem_signal n SndSem True ?s2 else if sz > mbx_size ?m then f_mbx_signal n ?s2 else ?s2"]) simp
    then show ?thesis using False m1 by auto
  qed
qed

text \<open>A FIFO of four bytes that holds three, of which one has wrapped round: it grows to nine bytes, and two are refused.\<close>

lemma demo_fifo_full:
  "\<exists>s. bq_replies (fifo_put 5) (fifo_get 5) [Send [1, 2, 3], Receive 2, Send [4, 5]] demo_fifo = Some (s, [[], [1, 2], []]) \<and>
     rtf_idle 5 s \<and> mbx_bytes (fbuf (fifos s 5)) = [3, 4, 5]"
  by (rule rtfq.run_replies [OF demo_fifo_ok(1)]) (simp add: demo_fifo_ok)

theorem rtf_resize_keeps_bytes_witness:
  "\<exists>s s1 s2. rtf_idle 5 s \<and> mbx_bytes (fbuf (fifos s 5)) = [3, 4, 5] \<and>
     rtf_resize_turn 5 9 (replicate 9 0) s = Some (s1, 9) \<and> mbx_bytes (fbuf (fifos s1 5)) = [3, 4, 5] \<and>
     rtf_resize_turn 5 2 [0, 0] s = Some (s2, - EBUSY) \<and> mbx_bytes (fbuf (fifos s2 5)) = [3, 4, 5]"
proof -
  obtain s where s: "rtf_idle 5 s" "mbx_bytes (fbuf (fifos s 5)) = [3, 4, 5]" using demo_fifo_full by blast
  have i: "sfree (fsnd (fifos s 5)) \<noteq> 0" "fbuf_wf (fbuf (fifos s 5))" using s(1) by (simp_all add: rtf_idle_def)
  have "length (mbx_bytes (fbuf (fifos s 5))) = 3" using s(2) by simp
  then have "avbs (fbuf (fifos s 5)) = 3" by simp
  then have "\<exists>s1. rtf_resize_turn 5 9 (replicate 9 0) s = Some (s1, 9) \<and> mbx_bytes (fbuf (fifos s1 5)) = [3, 4, 5]"
      "\<exists>s2. rtf_resize_turn 5 2 [0, 0] s = Some (s2, - EBUSY) \<and> mbx_bytes (fbuf (fifos s2 5)) = [3, 4, 5]"
    using rtf_resize_keeps_bytes [of s 5 9 "replicate 9 0"] rtf_resize_keeps_bytes [of s 5 2 "[0, 0]"] s i by auto
  then show ?thesis using s by blast
qed

section \<open>Wake-ups\<close>

text \<open>The processes in the ring: \<open>k\<close> of them from the position \<open>taskq_out\<close>.\<close>

definition ringed :: "nat \<Rightarrow> fks \<Rightarrow> proc list" where
  "ringed k s = map (\<lambda>i. taskq s ((taskq_out s + i) mod 64)) [0..<k]"

lemma ring_neq:
  assumes "j < k" "k - j < (64 :: nat)"
  shows "(a + j) mod 64 \<noteq> (a + k) mod 64"
proof
  assume "(a + j) mod 64 = (a + k) mod 64"
  then have "64 dvd (a + k) - (a + j)" using assms(1) by (intro mod_eq_dvd_iff_nat [THEN iffD1]) simp_all
  then show False using assms nat_dvd_not_less [of "k - j" 64] by simp
qed

lemma pend_tasks:
  assumes "taskq_out s < 64" "taskq_in s = (taskq_out s + k) mod 64" "k + length ps \<le> 64"
  shows "ringed (k + length ps) (fold pend_task ps s) = ringed k s @ ps \<and>
    taskq_in (fold pend_task ps s) = (taskq_out s + (k + length ps)) mod 64 \<and>
    taskq_out (fold pend_task ps s) = taskq_out s \<and> sleeping (fold pend_task ps s) = sleeping s"
  using assms
proof (induction ps arbitrary: s k)
  case (Cons p ps)
  let ?s = "pend_task p s"
  have i: "(taskq_out s + j) mod 64 \<noteq> taskq_in s" if "j < k" for j
    using ring_neq [of j k "taskq_out s"] that Cons.prems(2, 3) by simp
  have r: "ringed (Suc k) ?s = ringed k s @ [p]"
    using i Cons.prems(2) by (simp add: ringed_def)
  have n: "taskq_in ?s = (taskq_out ?s + Suc k) mod 64" using Cons.prems(2) by (simp add: mod_Suc_eq)
  have "Suc k + length ps \<le> 64" using Cons.prems(3) by simp
  from Cons.IH [OF _ n this] show ?case using Cons.prems(1) r by simp
qed (simp add: ringed_def)

lemma wake_tasks_ring:
  assumes "taskq_out s < 64" "taskq_in s = (taskq_out s + k) mod 64" "k < 64"
  shows "\<exists>s'. wake_tasks s = Some s' \<and> (\<forall>p. sleeping s' p \<longleftrightarrow> sleeping s p \<and> p \<notin> set (ringed k s)) \<and>
    taskq_out s' = taskq_in s' \<and> taskq_in s' = taskq_in s \<and> polq_in s' = polq_in s \<and> polq_out s' = polq_out s"
  using assms
proof (induction k arbitrary: s)
  case 0
  then show ?case by (subst wake_tasks.simps) (simp add: ringed_def)
next
  case (Suc k)
  let ?p = "taskq s (taskq_out s)"
  let ?s = "wake_up_process ?p s\<lparr>taskq_out := (taskq_out s + 1) mod 64\<rparr>"
  have ne: "taskq_out s \<noteq> taskq_in s" using ring_neq [of 0 "Suc k" "taskq_out s"] Suc.prems by simp
  have st: "taskq_in ?s = taskq_in s" "taskq ?s = taskq s" "taskq_out ?s = (taskq_out s + 1) mod 64"
    "sleeping ?s q \<longleftrightarrow> sleeping s q \<and> q \<noteq> ?p" "polq_in ?s = polq_in s" "polq_out ?s = polq_out s" for q
    by (auto simp: wake_up_process_def)
  have in': "taskq_in ?s = (taskq_out ?s + k) mod 64" using Suc.prems(2) st(1, 3) by (simp add: mod_simps)
  have idx: "(taskq_out ?s + i) mod 64 = (taskq_out s + Suc i) mod 64" for i using st(3) by (simp add: mod_simps)
  have r: "ringed (Suc k) s = ?p # ringed k ?s"
    using Suc.prems(1) idx st(2) unfolding ringed_def by (simp add: upt_rec [of 0 "Suc k"] map_Suc_upt [symmetric] del: upt_Suc)
  obtain s' where s': "wake_tasks ?s = Some s'" "\<forall>p. sleeping s' p \<longleftrightarrow> sleeping ?s p \<and> p \<notin> set (ringed k ?s)"
    "taskq_out s' = taskq_in s'" "taskq_in s' = taskq_in ?s" "polq_in s' = polq_in ?s" "polq_out s' = polq_out ?s"
    using Suc.IH [OF _ in'] Suc.prems(3) st(3) by auto
  have "wake_tasks s = Some s'" using ne s'(1) by (subst wake_tasks.simps) simp
  then show ?case using s' st r by auto
qed

text \<open>The loop over the FIFOs to be told ends, and wakes nobody.\<close>

definition ring_left :: "nat \<Rightarrow> nat \<Rightarrow> nat" where
  "ring_left i k = (if k \<le> i then i - k else i + 64 - k)"

lemma ring_left_less: "i < 64 \<Longrightarrow> k < 64 \<Longrightarrow> k \<noteq> i \<Longrightarrow> ring_left i ((k + 1) mod 64) < ring_left i k"
  by (cases "k = 63") (auto simp: ring_left_def)

lemma notify_fifos_ends:
  assumes "polq_in s < 64" "polq_out s < 64"
  shows "\<exists>s'. notify_fifos s = Some s' \<and> sleeping s' = sleeping s \<and> taskq_in s' = taskq_in s \<and> taskq_out s' = taskq_out s"
  using assms
proof (induction "ring_left (polq_in s) (polq_out s)" arbitrary: s rule: less_induct)
  case less
  show ?case
  proof (cases "polq_out s = polq_in s")
    case True
    then show ?thesis by (subst notify_fifos.simps) simp
  next
    case False
    let ?n = "polq s (polq_out s)"
    let ?s1 = "upd_fifo ?n (\<lambda>f. f\<lparr>pol_asyn_pended := False\<rparr>) s"
    let ?s2 = "?s1\<lparr>notified := (if pollq_active (fifos ?s1 ?n) \<or> asynq (fifos ?s1 ?n) then notified ?s1 @ [?n] else notified ?s1),
                   polq_out := (polq_out ?s1 + 1) mod 64\<rparr>"
    have o: "polq_in ?s2 = polq_in s" "polq_out ?s2 = (polq_out s + 1) mod 64" "sleeping ?s2 = sleeping s"
        "taskq_in ?s2 = taskq_in s" "taskq_out ?s2 = taskq_out s" by (simp_all add: upd_fifo_def)
    have "ring_left (polq_in ?s2) (polq_out ?s2) < ring_left (polq_in s) (polq_out s)"
      unfolding o using False less.prems by (intro ring_left_less) simp_all
    moreover have "notify_fifos s = notify_fifos ?s2"
      using False by (subst notify_fifos.simps) (simp add: Let_def)
    ultimately show ?thesis using less.hyps [of ?s2] less.prems o by simp
  qed
qed

text \<open>Signals at the semaphores and the buffers of FIFOs, and the process each of them is for: the first that waits for
  the semaphore, or the one that waits at the buffer.\<close>

datatype wake_call = SemSignal nat fsel bool | MbxSignal nat

fun wake_step :: "wake_call \<Rightarrow> fks \<Rightarrow> fks" where
  "wake_step (SemSignal n x tell) s = mbx_sem_signal n x tell s"
| "wake_step (MbxSignal n) s = f_mbx_signal n s"

fun woken_by :: "wake_call \<Rightarrow> fks \<Rightarrow> proc list" where
  "woken_by (SemSignal n x tell) s = take 1 (squeue (the_sem x (fifos s n)))"
| "woken_by (MbxSignal n) s = (case fwait (fifos s n) of None \<Rightarrow> [] | Some p \<Rightarrow> [p])"

fun signals :: "wake_call list \<Rightarrow> fks \<Rightarrow> fks \<times> proc list" where
  "signals [] s = (s, [])"
| "signals (c # cs) s = (case signals cs (wake_step c s) of (s1, ps) \<Rightarrow> (s1, woken_by c s @ ps))"

text \<open>What a change of the FIFOs leaves as it is.\<close>

definition same_ring :: "fks \<Rightarrow> fks \<Rightarrow> bool" where
  "same_ring s s' \<longleftrightarrow> taskq s' = taskq s \<and> taskq_in s' = taskq_in s \<and> taskq_out s' = taskq_out s \<and>
     sleeping s' = sleeping s \<and> polq_out s' = polq_out s \<and> (polq_in s < 64 \<longrightarrow> polq_in s' < 64) \<and> (srq_pended s \<longrightarrow> srq_pended s')"

lemma wake_step_ring:
  "woken_by c s = [] \<Longrightarrow> same_ring s (wake_step c s)"
  "woken_by c s = p # ps \<Longrightarrow> ps = [] \<and> (\<exists>s0. same_ring s s0 \<and> wake_step c s = pend_task p s0)"
proof -
  assume w: "woken_by c s = []"
  show "same_ring s (wake_step c s)"
  proof (cases c)
    case (SemSignal n x b)
    then show ?thesis using w by (simp add: mbx_sem_signal_def same_ring_def pend_fifo_def upd_fifo_def Let_def)
  next
    case (MbxSignal n)
    then show ?thesis using w by (simp add: f_mbx_signal_def same_ring_def split: option.splits)
  qed
next
  assume w: "woken_by c s = p # ps"
  show "ps = [] \<and> (\<exists>s0. same_ring s s0 \<and> wake_step c s = pend_task p s0)"
  proof (cases c)
    case (SemSignal n x b)
    then obtain qs where q: "squeue (the_sem x (fifos s n)) = p # qs" "ps = []" using w by (cases "squeue (the_sem x (fifos s n))") auto
    have "same_ring s (f_dequeue_blocked p n x s)" by (simp add: same_ring_def f_dequeue_blocked_def upd_fifo_def)
    then show ?thesis using q SemSignal by (auto simp: mbx_sem_signal_def)
  next
    case (MbxSignal n)
    then have q: "fwait (fifos s n) = Some p" "ps = []" using w by (auto split: option.splits)
    have "same_ring s (upd_fifo n (\<lambda>f. f\<lparr>fwait := None\<rparr>) s)" by (simp add: same_ring_def upd_fifo_def)
    then show ?thesis using q MbxSignal by (auto simp: f_mbx_signal_def)
  qed
qed

lemma ringed_cong: "same_ring s s' \<Longrightarrow> ringed k s' = ringed k s"
  by (simp add: ringed_def same_ring_def)

text \<open>Once one of them is for somebody the service request is pending; each process enters the ring, in order.\<close>

lemma signals_pended: "signals cs s = (s1, ps) \<Longrightarrow> ps \<noteq> [] \<or> srq_pended s \<Longrightarrow> srq_pended s1"
proof (induction cs arbitrary: s ps)
  case (Cons c cs)
  obtain qs where qs: "signals cs (wake_step c s) = (s1, qs)" "ps = woken_by c s @ qs" using Cons.prems(1) by (auto split: prod.splits)
  have "srq_pended (wake_step c s)" if "woken_by c s \<noteq> [] \<or> srq_pended s"
    using wake_step_ring [of c s] that by (cases "woken_by c s") (auto simp: same_ring_def pend_task_def)
  then show ?case using Cons.IH [OF qs(1)] Cons.prems(2) qs(2) by auto
qed simp

lemma signals_ring:
  assumes "signals cs s = (s1, ps)" "taskq_out s < 64" "taskq_in s = (taskq_out s + k) mod 64" "k + length ps \<le> 64" "polq_in s < 64"
  shows "ringed (k + length ps) s1 = ringed k s @ ps \<and> taskq_in s1 = (taskq_out s + (k + length ps)) mod 64 \<and>
    taskq_out s1 = taskq_out s \<and> sleeping s1 = sleeping s \<and> polq_in s1 < 64 \<and> polq_out s1 = polq_out s"
  using assms
proof (induction cs arbitrary: s k ps)
  case Nil
  then show ?case by simp
next
  case (Cons c cs)
  let ?t = "wake_step c s"
  obtain qs where qs: "signals cs ?t = (s1, qs)" "ps = woken_by c s @ qs" using Cons.prems(1) by (auto split: prod.splits)
  show ?case
  proof (cases "woken_by c s")
    case w: Nil
    note q = wake_step_ring(1) [OF w]
    then show ?thesis using Cons.IH [OF qs(1), of k] Cons.prems(2-5) qs(2) w ringed_cong [OF q] by (simp add: same_ring_def)
  next
    case (Cons p rs)
    then obtain s0 where s0: "same_ring s s0" "?t = pend_task p s0" "rs = []" using wake_step_ring(2) [OF Cons] by blast
    have a: "taskq_out s0 = taskq_out s" "taskq_in s0 = taskq_in s" "polq_in s0 < 64" "sleeping s0 = sleeping s" "polq_out s0 = polq_out s"
      using s0(1) Cons.prems(5) by (simp_all add: same_ring_def)
    have "ringed (k + length [p]) (fold pend_task [p] s0) = ringed k s0 @ [p]"
      using pend_tasks [of s0 k "[p]"] a Cons.prems(2-4) qs(2) Cons by simp
    then have r: "ringed (k + 1) ?t = ringed k s @ [p]" using s0(2) ringed_cong [OF s0(1)] by simp
    have "taskq_in ?t = (taskq_out ?t + (k + 1)) mod 64" "polq_in ?t < 64" "polq_out ?t = polq_out s"
      using s0(2) a Cons.prems(3) by (simp_all add: pend_task_def mod_Suc_eq)
    then show ?thesis using Cons.IH [OF qs(1), of "k + 1"] Cons.prems(2, 4) qs(2) Cons s0 a r by simp
  qed
qed

text \<open>C37. Signals since Linux last ran \<^verbatim>\<open>rtf_sysrq_handler\<close> request it when they are for anybody. Up to 63 of them wake
  exactly the processes they are for: for a semaphore the ones that come first in its queue. With the 64th the
  ring looks empty, and all of these processes sleep on.\<close>

theorem wakeups_reach_processes:
  assumes "signals cs s = (s1, ps)" "taskq_in s = taskq_out s" "taskq_out s < 64" "polq_in s < 64" "polq_out s < 64"
  shows "(ps \<noteq> [] \<longrightarrow> srq_pended s1) \<and>
    (length ps < 64 \<longrightarrow> (\<exists>s'. rtf_sysrq_handler s1 = Some s' \<and> taskq_in s' = taskq_out s' \<and>
      (\<forall>p. sleeping s' p \<longleftrightarrow> sleeping s p \<and> p \<notin> set ps))) \<and>
    (length ps = 64 \<longrightarrow> (\<exists>s'. rtf_sysrq_handler s1 = Some s' \<and> sleeping s' = sleeping s))"
proof -
  have f: "ringed (length ps) s1 = ps \<and> taskq_in s1 = (taskq_out s + length ps) mod 64 \<and> taskq_out s1 = taskq_out s \<and>
      sleeping s1 = sleeping s \<and> polq_in s1 < 64 \<and> polq_out s1 = polq_out s"
    if "length ps \<le> 64" using signals_ring [OF assms(1), of 0] assms that ringed_def [of 0 s] by simp
  have h: "\<exists>s'. rtf_sysrq_handler s1 = Some s' \<and> sleeping s' = sleeping s2 \<and> taskq_in s' = taskq_in s2 \<and> taskq_out s' = taskq_out s2"
    if "wake_tasks s1 = Some s2" "polq_in s2 < 64" "polq_out s2 < 64" for s2
    using notify_fifos_ends [OF that(2, 3)] that(1) by (simp add: rtf_sysrq_handler_def)
  have "\<exists>s'. rtf_sysrq_handler s1 = Some s' \<and> taskq_in s' = taskq_out s' \<and> (\<forall>p. sleeping s' p \<longleftrightarrow> sleeping s p \<and> p \<notin> set ps)"
    if l: "length ps < 64"
  proof -
    have "taskq_out s1 < 64" "taskq_in s1 = (taskq_out s1 + length ps) mod 64" using f l assms(3) by simp_all
    from wake_tasks_ring [OF this l] obtain s2 where s2: "wake_tasks s1 = Some s2"
      "\<forall>p. sleeping s2 p \<longleftrightarrow> sleeping s1 p \<and> p \<notin> set (ringed (length ps) s1)" "taskq_out s2 = taskq_in s2"
      "polq_in s2 = polq_in s1" "polq_out s2 = polq_out s1" by blast
    then show ?thesis using h [of s2] f l assms(5) by auto
  qed
  moreover have "\<exists>s'. rtf_sysrq_handler s1 = Some s' \<and> sleeping s' = sleeping s" if l: "length ps = 64"
  proof -
    have "wake_tasks s1 = Some s1" using f l assms by (subst wake_tasks.simps) simp
    then show ?thesis using h [of s1] f l assms(5) by auto
  qed
  ultimately show ?thesis using signals_pended [OF assms(1)] by blast
qed

text \<open>Process 7 has the semaphore of the senders of FIFO 5, 8 and 9 wait for it.\<close>

definition demo_waiters :: fks where
  "demo_waiters = fst (mbx_sem_wait 9 5 SndSem (fst (mbx_sem_wait 8 5 SndSem (fst (mbx_sem_wait 7 5 SndSem demo_fifo)))))"

lemma demo_fifo_plain:
  "taskq_in demo_fifo = 0" "taskq_out demo_fifo = 0" "polq_in demo_fifo = 0" "polq_out demo_fifo = 0"
  "sleeping demo_fifo = (\<lambda>_. False)" "rt_priority demo_fifo = (\<lambda>_. 0)" "fsnd (fifos demo_fifo 5) = mbx_sem_init 1"
  by (simp_all add: demo_fifo_def rtf_create_def rtai_fifos_init_def zero_fifo_def upd_fifo_def f_mbx_init_def)

lemma demo_waiters_ok:
  "taskq_in demo_waiters = 0" "taskq_out demo_waiters = 0" "polq_in demo_waiters = 0" "polq_out demo_waiters = 0"
  "sleeping demo_waiters = (\<lambda>_. False)(8 := True, 9 := True)" "squeue (fsnd (fifos demo_waiters 5)) = [8, 9]"
  by (simp_all add: demo_waiters_def mbx_sem_wait_def f_enqueue_blocked_def Let_def demo_fifo_plain mbx_sem_init_def upd_fifo_def)

theorem wakeups_reach_processes_witness:
  "sleeping demo_waiters 8 \<and> sleeping demo_waiters 9 \<and>
   (\<exists>s'. rtf_sysrq_handler (mbx_sem_signal 5 SndSem True demo_waiters) = Some s' \<and> \<not> sleeping s' 8 \<and> sleeping s' 9)"
proof -
  have "signals [SemSignal 5 SndSem True] demo_waiters = (mbx_sem_signal 5 SndSem True demo_waiters, [8])"
    by (simp add: demo_waiters_ok)
  from wakeups_reach_processes [OF this] show ?thesis by (auto simp: demo_waiters_ok)
qed

section \<open>Names\<close>

lemma named_slot_Some:
  assumes "named_slot name ns s = Some n"
  shows "n \<in> set ns \<and> opncnt (fifos s n) = 0 \<and> fname (fifos s n) = '''' \<and>
    (\<forall>k \<in> set (takeWhile (\<lambda>k. k \<noteq> n) ns). fname (fifos s k) \<noteq> name)"
  using assms by (induction ns) (auto split: if_splits)

text \<open>A FIFO created under a name is found under that name.\<close>

theorem named_create_then_lookup:
  assumes "rtf_named_create name sz (Some buf) s = Some (s', r)" "r \<ge> 0"
  shows "rtf_getfifobyname name s' = r"
proof -
  have len: "length name \<le> 15" using assms by (auto simp: rtf_named_create_def split: if_splits)
  obtain n where n: "named_slot name [0..<64] s = Some n"
    using assms by (auto simp: rtf_named_create_def split: if_splits option.splits)
  note p = named_slot_Some [OF n]
  have n64: "n < 64" using p by auto
  let ?s0 = "upd_fifo n (\<lambda>f. f\<lparr>fname := name\<rparr>) s"
  have "\<exists>s1. rtf_create n sz (Some buf) ?s0 = Some (s1, 0) \<and> opncnt (fifos s1 n) = 1 \<and>
      (\<forall>k. fname (fifos s1 k) = fname (fifos ?s0 k))"
    using p n64 by (simp add: rtf_create_def f_mbx_init_def)
  then obtain s1 where s1: "rtf_create n sz (Some buf) ?s0 = Some (s1, 0)" "opncnt (fifos s1 n) = 1"
    "\<And>k. fname (fifos s1 k) = fname (fifos ?s0 k)" by blast
  have e: "s' = s1" "r = int n" using assms(1) len n s1(1) by (simp_all add: rtf_named_create_def)
  have "takeWhile (\<lambda>k. k \<noteq> n) [0..<64] = [0..<n]"
    using n64 by (intro takeWhile_eq_take_P_nth [where n = n, THEN trans]) auto
  then have "\<forall>k < n. name \<noteq> fname (fifos s k)" using p by auto
  then have "find (\<lambda>k. opncnt (fifos s1 k) \<noteq> 0 \<and> name = fname (fifos s1 k)) [0..<64] = Some n"
    unfolding find_Some_iff using n64 s1(2, 3) by (intro exI [of _ n]) simp
  then show ?thesis using len e by (simp add: rtf_getfifobyname_def)
qed

lemma named_slot_first:
  assumes "\<forall>k \<in> set ks. fname (fifos s k) \<noteq> name \<and> fname (fifos s k) \<noteq> ''''"
    and "opncnt (fifos s n) = 0" "fname (fifos s n) = ''''" "name \<noteq> ''''"
  shows "named_slot name (ks @ n # ns) s = Some n"
  using assms by (induction ks) auto

text \<open>The search for a free number stops at the first one and does not see a FIFO of the same
  name behind it, so that two FIFOs come to have one name, and the older one is not found any more.\<close>

theorem named_create_duplicates:
  assumes "a < b" "b < 64" "fname (fifos s b) = name" "opncnt (fifos s b) \<noteq> 0" "name \<noteq> ''''" "length name \<le> 15"
    and "opncnt (fifos s a) = 0" "fname (fifos s a) = ''''"
    and "\<forall>k < a. fname (fifos s k) \<noteq> name \<and> fname (fifos s k) \<noteq> ''''"
  shows "\<exists>s'. rtf_named_create name sz (Some buf) s = Some (s', int a) \<and>
    fname (fifos s' a) = name \<and> fname (fifos s' b) = name \<and> opncnt (fifos s' a) \<noteq> 0 \<and> opncnt (fifos s' b) \<noteq> 0"
proof -
  have "[0..<64] = [0..<a] @ a # [Suc a..<64]" using assms(1, 2) upt_conv_Cons [of a 64] upt_add_eq_append [of 0 a "64 - a"] by simp
  then have "named_slot name [0..<64] s = Some a"
    using named_slot_first [of "[0..<a]" s name a "[Suc a..<64]"] assms by simp
  then show ?thesis using assms by (simp add: rtf_named_create_def rtf_create_def f_mbx_init_def)
qed

section \<open>Interrupted waits\<close>

text \<open>A process that waits for the senders' semaphore of a FIFO and is interrupted by a signal
  makes the semaphore free when nobody else waits, although a sender still holds it: a second
  sender gets in.\<close>

theorem interrupted_wait_frees_semaphore:
  assumes "sfree (the_sem x (fifos s n)) = 0" "squeue (the_sem x (fifos s n)) = []"
  shows "\<exists>s1 s2. mbx_sem_wait p n x s = (s1, None) \<and> mbx_sem_wait_resume p True n x s1 = (s2, - ERESTARTSYS) \<and>
    sfree (the_sem x (fifos s2 n)) = 1 \<and> snd (mbx_sem_wait q n x s2) = Some 0"
proof -
  let ?s1 = "fst (mbx_sem_wait p n x s)"
  let ?s2 = "fst (mbx_sem_wait_resume p True n x ?s1)"
  have w: "mbx_sem_wait p n x s = (?s1, None)" "lx_blocked ?s1 p" "squeue (the_sem x (fifos ?s1 n)) = [p]"
    using assms by (simp_all add: mbx_sem_wait_def f_enqueue_blocked_def Let_def)
  then have r: "mbx_sem_wait_resume p True n x ?s1 = (?s2, - ERESTARTSYS)" "sfree (the_sem x (fifos ?s2 n)) = 1"
    by (simp_all add: mbx_sem_wait_resume_def give_up_def f_dequeue_blocked_def Let_def)
  then show ?thesis using w(1) by (intro exI [of _ ?s1] exI [of _ ?s2]) (simp add: mbx_sem_wait_def)
qed

text \<open>A timed wait that a signal interrupts leaves its node, which lies on the stack of the
  interrupted call, in the queue of the semaphore; the next signal hands the semaphore to it and
  the semaphore is never free again.\<close>

theorem interrupted_timed_wait_stays_queued:
  assumes "sfree (the_sem x (fifos s n)) = 0" "squeue (the_sem x (fifos s n)) = []"
  shows "\<exists>s1. mbx_sem_wait p n x s = (s1, None) \<and> mbx_sem_wait_timed_resume p True n x s1 = (s1, - ERESTARTSYS) \<and>
    squeue (the_sem x (fifos s1 n)) = [p] \<and> sfree (the_sem x (fifos (mbx_sem_signal n x b s1) n)) = 0"
proof -
  let ?s1 = "fst (mbx_sem_wait p n x s)"
  have w: "mbx_sem_wait p n x s = (?s1, None)" "squeue (the_sem x (fifos ?s1 n)) = [p]" "sfree (the_sem x (fifos ?s1 n)) = 0"
    using assms by (simp_all add: mbx_sem_wait_def f_enqueue_blocked_def Let_def)
  then have "sfree (the_sem x (fifos (mbx_sem_signal n x b ?s1) n)) = 0"
    by (simp add: mbx_sem_signal_def f_dequeue_blocked_def)
  then show ?thesis using w by (intro exI [of _ ?s1]) (simp add: mbx_sem_wait_timed_resume_def)
qed

section \<open>Witnesses\<close>

text \<open>FIFO 5 has a name, FIFOs 0 to 4 are closed.\<close>

definition demo_named :: fks where
  "demo_named = upd_fifo 5 (\<lambda>f. f\<lparr>fname := ''log''\<rparr>) demo_fifo"

lemma demo_named_ok:
  "fname (fifos demo_named 5) = ''log''" "opncnt (fifos demo_named 5) = 1"
  "fname (fifos demo_named 0) = ''''" "opncnt (fifos demo_named 0) = 0"
  using demo_fifo_ok(3)
  by (simp_all add: demo_named_def demo_fifo_def rtf_create_def rtai_fifos_init_def zero_fifo_def)

theorem named_create_duplicates_witness:
  "\<exists>s'. rtf_named_create ''log'' 4 (Some [0, 0, 0, 0]) demo_named = Some (s', 0) \<and>
    fname (fifos s' 0) = ''log'' \<and> fname (fifos s' 5) = ''log''"
  using named_create_duplicates [of 0 5 demo_named "''log''" 4 "[0, 0, 0, 0]"] demo_named_ok by auto

theorem named_create_then_lookup_witness:
  "\<exists>s'. rtf_named_create ''data'' 4 (Some [0, 0, 0, 0]) demo_named = Some (s', 0) \<and> rtf_getfifobyname ''data'' s' = 0"
proof -
  have "named_slot ''data'' [0..<64] demo_named = Some 0" using demo_named_ok by (simp add: upt_conv_Cons [of 0 64])
  then have "\<exists>s'. rtf_named_create ''data'' 4 (Some [0, 0, 0, 0]) demo_named = Some (s', 0)"
    using demo_named_ok by (simp add: rtf_named_create_def rtf_create_def)
  then show ?thesis using named_create_then_lookup [of "''data''" 4 "[0, 0, 0, 0]" demo_named _ 0] by auto
qed

lemma demo_held: "sfree (the_sem SndSem (fifos (upd_fifo 5 (set_sem SndSem (\<lambda>k. k\<lparr>sfree := 0\<rparr>)) demo_fifo) 5)) = 0"
  "squeue (the_sem SndSem (fifos (upd_fifo 5 (set_sem SndSem (\<lambda>k. k\<lparr>sfree := 0\<rparr>)) demo_fifo) 5)) = []"
  using demo_fifo_ok(1) by (simp_all add: rtf_idle_def)

theorem interrupted_wait_frees_semaphore_witness:
  "\<exists>s1 s2. mbx_sem_wait 7 5 SndSem (upd_fifo 5 (set_sem SndSem (\<lambda>k. k\<lparr>sfree := 0\<rparr>)) demo_fifo) = (s1, None) \<and>
    mbx_sem_wait_resume 7 True 5 SndSem s1 = (s2, - ERESTARTSYS) \<and> snd (mbx_sem_wait 8 5 SndSem s2) = Some 0"
  using interrupted_wait_frees_semaphore [OF demo_held, of 7 8] by blast

theorem interrupted_timed_wait_stays_queued_witness:
  "\<exists>s1. mbx_sem_wait 7 5 SndSem (upd_fifo 5 (set_sem SndSem (\<lambda>k. k\<lparr>sfree := 0\<rparr>)) demo_fifo) = (s1, None) \<and>
    mbx_sem_wait_timed_resume 7 True 5 SndSem s1 = (s1, - ERESTARTSYS) \<and> squeue (the_sem SndSem (fifos s1 5)) = [7]"
  using interrupted_timed_wait_stays_queued [OF demo_held, of 7] by blast

end
