(* ===== verification/Fifo_Dev.thy ===== *)
theory Fifo_Dev
  imports Fifos
begin

text \<open>
  The device files of the FIFOs (\<^verbatim>\<open>src/ipc/fifos/fifos.c\<close>): opening, release, and the requests of processes that
  \<^verbatim>\<open>rtf_ioctl\<close> dispatches. The argument of a request is copied from the process; it is part of the request here. A
  request that starts a transfer which may sleep answers \<open>IAt\<close> with the stage the transfer is in, which goes
  on as in theory \<open>Fifos\<close>; \<open>ioctl_read_end\<close> and \<open>ioctl_write_end\<close> are what it returns in the end.
\<close>

section \<open>Requests and answers\<close>

text \<open>\<open>mem\<close> arguments are the memory that is allocated for a buffer, if there is any.\<close>

datatype ireq =
    IRESET
  | IRESIZE nat "byte list option"
  | ISUSPEND_TIMED
  | IOPEN_SIZED nat "byte list option"
  | IREAD_ALL_AT_ONCE nat
  | IEAVESDROP nat
  | IREAD_TIMED nat int
  | IREAD_IF nat
  | IWRITE_TIMED "byte list" int
  | IWRITE_IF "byte list"
  | IOVRWRITE "byte list" nat
  | IRTF_SEM_INIT int
  | IRTF_SEM_WAIT
  | IRTF_SEM_TRYWAIT
  | IRTF_SEM_TIMED_WAIT
  | IRTF_SEM_POST
  | IRTF_SEM_DESTROY
  | ISET_ASYNC_SIG int
  | IFIONREAD
  | IRTF_GET_N_FIFOS
  | IRTF_GET_FIFO_INFO nat nat
  | IRTF_NAMED_CREATE string nat "byte list option"
  | IRTF_CREATE_NAMED string "byte list option"
  | IRTF_NAME_LOOKUP string
  | ITCGETS
  | IOTHER

record rt_fifo_info_struct =
  fifo_number :: nat
  info_size :: nat
  info_opncnt :: int
  info_avbs :: nat
  info_frbs :: nat
  info_name :: string

datatype ians = IRet int | IData int "byte list" | IVal int int | IInfo int "rt_fifo_info_struct list" | IAt fstage | ISleep

abbreviation (input) ENOTTY :: int where "ENOTTY \<equiv> 25"

record fdev =
  fst_ks :: fks
  async_sig :: int

text \<open>What a transfer of \<open>cnt\<close> bytes of which \<open>missing\<close> were not transferred returns; \<open>h\<close> is the answer of the handler.\<close>

definition ioctl_read_end :: "int \<Rightarrow> int \<Rightarrow> int \<Rightarrow> int" where
  "ioctl_read_end cnt missing h = (let n = cnt - missing in if n \<noteq> 0 then (if h < 0 then h else n) else 0)"

definition ioctl_write_end :: "int \<Rightarrow> int \<Rightarrow> int \<Rightarrow> int" where
  "ioctl_write_end cnt missing h = (if h < 0 then h else cnt - missing)"

definition fifo_info :: "fks \<Rightarrow> nat \<Rightarrow> rt_fifo_info_struct" where
  "fifo_info s i =
     (let f = fifos s i in
      \<lparr>fifo_number = i, info_size = mbx_size (fbuf f), info_opncnt = opncnt f, info_avbs = avbs (fbuf f),
       info_frbs = frbs (fbuf f), info_name = take (RTF_NAMELEN + 1) (fname f)\<rparr>)"

text \<open>The loop of \<^verbatim>\<open>RTF_GET_FIFO_INFO\<close>, with \<open>m\<close> entries still wanted.\<close>

fun info_loop :: "fks \<Rightarrow> nat \<Rightarrow> nat \<Rightarrow> rt_fifo_info_struct list" where
  "info_loop s i 0 = []"
| "info_loop s i (Suc m) = (if i < MAX_FIFOS then fifo_info s i # info_loop s (Suc i) m else [])"

section \<open>Transfers that do not sleep\<close>

definition ioctl_read_wp :: "nat \<Rightarrow> nat \<Rightarrow> int \<Rightarrow> fks \<Rightarrow> (fks \<times> ians) option" where
  "ioctl_read_wp n cnt h s =
     map_option (\<lambda>(s1, got). (s1, if got = [] then IRet (- EAGAIN)
                                  else IData (ioctl_read_end (int cnt) (int cnt - int (length got)) h) got))
       (f_mbx_receive_wp n cnt s)"

definition ioctl_read_if :: "nat \<Rightarrow> nat \<Rightarrow> int \<Rightarrow> fks \<Rightarrow> (fks \<times> ians) option" where
  "ioctl_read_if n cnt h s =
     map_option (\<lambda>(s1, got). (s1, IData (ioctl_read_end (int cnt) (int cnt - int (length got)) h) got)) (f_mbx_receive_if n cnt s)"

definition ioctl_write_wp :: "nat \<Rightarrow> byte list \<Rightarrow> int \<Rightarrow> fks \<Rightarrow> (fks \<times> ians) option" where
  "ioctl_write_wp n data h s =
     map_option (\<lambda>(s1, rest). (s1, if length rest = length data then IRet (- EAGAIN)
                                   else IRet (ioctl_write_end (int (length data)) (int (length rest)) h)))
       (f_mbx_send_wp n data s)"

section \<open>The dispatch\<close>

definition with_ks :: "fdev \<Rightarrow> fks \<Rightarrow> fdev" where
  "with_ks d s = d\<lparr>fst_ks := s\<rparr>"

text \<open>\<^verbatim>\<open>OVRWRITE\<close> passes on the address of its argument, so that the bytes stored are those of the argument's
  structure and of the stack behind it: the list in \<open>IOVRWRITE\<close>. The transfers of \<^verbatim>\<open>READ_TIMED\<close> and
  \<^verbatim>\<open>WRITE_TIMED\<close> start like those without a time limit.\<close>

fun rtf_ioctl :: "proc \<Rightarrow> nat \<Rightarrow> int \<Rightarrow> ireq \<Rightarrow> fdev \<Rightarrow> (fdev \<times> ians) option" where
  "rtf_ioctl p n h IRESET d = (case rtf_reset p n (fst_ks d) of (s, st) \<Rightarrow> Some (with_ks d s, IAt st))"
| "rtf_ioctl p n h (IRESIZE sz mem) d =
     (case rtf_resize p n sz mem (fst_ks d) of (s, st) \<Rightarrow> Some (with_ks d s, IAt st))"
| "rtf_ioctl p n h ISUSPEND_TIMED d =
     Some (with_ks d ((fst_ks d)\<lparr>sleeping := (sleeping (fst_ks d))(p := True)\<rparr>), ISleep)"
| "rtf_ioctl p n h (IOPEN_SIZED sz mem) d =
     map_option (\<lambda>(s, r). (with_ks d s, IRet r)) (rtf_create n sz mem (fst_ks d))"
| "rtf_ioctl p n h (IREAD_ALL_AT_ONCE cnt) d =
     (case f_mbx_receive p n cnt (fst_ks d) of (s, st) \<Rightarrow> Some (with_ks d s, IAt st))"
| "rtf_ioctl p n h (IEAVESDROP cnt) d =
     map_option (\<lambda>bs. (d, IData (int (length bs)) bs)) (f_mbx_evdrp (fbuf (fifos (fst_ks d) n)) cnt)"
| "rtf_ioctl p n h (IREAD_TIMED cnt delay) d =
     (if delay = 0 then map_option (\<lambda>(s, a). (with_ks d s, a)) (ioctl_read_wp n cnt h (fst_ks d))
      else (case f_mbx_receive p n cnt (fst_ks d) of (s, st) \<Rightarrow> Some (with_ks d s, IAt st)))"
| "rtf_ioctl p n h (IREAD_IF cnt) d = map_option (\<lambda>(s, a). (with_ks d s, a)) (ioctl_read_if n cnt h (fst_ks d))"
| "rtf_ioctl p n h (IWRITE_TIMED data delay) d =
     (if delay = 0 then map_option (\<lambda>(s, a). (with_ks d s, a)) (ioctl_write_wp n data h (fst_ks d))
      else (case f_mbx_send p n data (fst_ks d) of (s, st) \<Rightarrow> Some (with_ks d s, IAt st)))"
| "rtf_ioctl p n h (IWRITE_IF data) d =
     (if data \<noteq> [] then map_option (\<lambda>(s, a). (with_ks d s, a)) (ioctl_write_wp n data h (fst_ks d))
      else Some (d, IRet (ioctl_write_end 0 0 h)))"
| "rtf_ioctl p n h (IOVRWRITE stack cnt) d =
     map_option (\<lambda>(s, r). (with_ks d s, IRet r)) (f_mbx_ovrwr_send n (take cnt stack) (fst_ks d))"
| "rtf_ioctl p n h (IRTF_SEM_INIT v) d =
     Some (with_ks d (upd_fifo n (\<lambda>f. f\<lparr>fsem := mbx_sem_init v\<rparr>) (fst_ks d)), IRet 0)"
| "rtf_ioctl p n h IRTF_SEM_WAIT d =
     (case mbx_sem_wait p n UserSem (fst_ks d) of
        (s, None) \<Rightarrow> Some (with_ks d s, IAt FSleepSem) | (s, Some r) \<Rightarrow> Some (with_ks d s, IRet r))"
| "rtf_ioctl p n h IRTF_SEM_TRYWAIT d =
     (case mbx_sem_wait_if n UserSem (fst_ks d) of (s, r) \<Rightarrow> Some (with_ks d s, IRet r))"
| "rtf_ioctl p n h IRTF_SEM_TIMED_WAIT d =
     (case mbx_sem_wait p n UserSem (fst_ks d) of
        (s, None) \<Rightarrow> Some (with_ks d s, IAt FSleepSem) | (s, Some r) \<Rightarrow> Some (with_ks d s, IRet r))"
| "rtf_ioctl p n h IRTF_SEM_POST d = Some (with_ks d (mbx_sem_signal n UserSem False (fst_ks d)), IRet 0)"
| "rtf_ioctl p n h IRTF_SEM_DESTROY d = Some (with_ks d (mbx_sem_delete n UserSem (fst_ks d)), IRet 0)"
| "rtf_ioctl p n h (ISET_ASYNC_SIG v) d = Some (d\<lparr>async_sig := v\<rparr>, IRet 0)"
| "rtf_ioctl p n h IFIONREAD d = Some (d, IVal 0 (int (avbs (fbuf (fifos (fst_ks d) n)))))"
| "rtf_ioctl p n h IRTF_GET_N_FIFOS d = Some (d, IRet (int MAX_FIFOS))"
| "rtf_ioctl p n h (IRTF_GET_FIFO_INFO first cnt) d =
     (let l = info_loop (fst_ks d) first cnt in Some (d, IInfo (int (length l)) l))"
| "rtf_ioctl p n h (IRTF_NAMED_CREATE nm sz mem) d =
     map_option (\<lambda>(s, r). (with_ks d s, IRet r)) (rtf_named_create nm sz mem (fst_ks d))"
| "rtf_ioctl p n h (IRTF_CREATE_NAMED nm mem) d =
     map_option (\<lambda>(s, r). (with_ks d s, IRet r)) (rtf_create_named nm mem (fst_ks d))"
| "rtf_ioctl p n h (IRTF_NAME_LOOKUP nm) d = Some (d, IRet (rtf_getfifobyname nm (fst_ks d)))"
| "rtf_ioctl p n h ITCGETS d = Some (d, IRet (- ENOTTY))"
| "rtf_ioctl p n h IOTHER d = Some (d, IRet (- EINVAL))"

text \<open>The end of \<^verbatim>\<open>SUSPEND_TIMED\<close>; \<open>sig\<close>: a signal is pending.\<close>

definition suspend_timed_end :: "bool \<Rightarrow> int" where
  "suspend_timed_end sig = (if sig then - ERESTARTSYS else 0)"

section \<open>Opening and release\<close>

definition rtf_open :: "nat \<Rightarrow> byte list option \<Rightarrow> fks \<Rightarrow> (fks \<times> int) option" where
  "rtf_open n mem s = rtf_create n DEFAULT_SIZE mem s"

text \<open>\<open>others\<close>: other files of the FIFO still ask for asynchronous notification.\<close>

definition rtf_fasync :: "nat \<Rightarrow> bool \<Rightarrow> bool \<Rightarrow> fks \<Rightarrow> fks" where
  "rtf_fasync n mode others s = upd_fifo n (\<lambda>f. f\<lparr>asynq := mode \<or> others\<rparr>) s"

definition rtf_release :: "nat \<Rightarrow> bool \<Rightarrow> fks \<Rightarrow> fks \<times> int" where
  "rtf_release n others s =
     (let s1 = (if pollq_active (fifos s n) then s\<lparr>notified := notified s @ [n]\<rparr> else s)
      in rtf_destroy n (rtf_fasync n False others s1))"

section \<open>What the requests do\<close>

text \<open>\<^verbatim>\<open>WRITE_IF\<close> is no conditional write: like \<^verbatim>\<open>WRITE_TIMED\<close> without a delay it stores what there is
  room for.\<close>

lemma write_if_is_partial: "data \<noteq> [] \<Longrightarrow> rtf_ioctl p n h (IWRITE_IF data) d = rtf_ioctl p n h (IWRITE_TIMED data 0) d"
  by simp

lemma info_loop_eq: "info_loop s i m = map (fifo_info s) [i..<min MAX_FIFOS (i + m)]"
proof (induction m arbitrary: i)
  case (Suc m)
  show ?case
  proof (cases "i < 64")
    case True
    then have "[i..<min 64 (i + Suc m)] = i # [Suc i..<min 64 (i + Suc m)]" by (intro upt_conv_Cons) simp
    moreover have "Suc i + m = i + Suc m" by simp
    ultimately show ?thesis using True by (simp only: info_loop.simps if_True Suc list.map)
  qed simp
qed simp

lemma get_info_lists_fifos:
  "\<exists>l. rtf_ioctl p n h (IRTF_GET_FIFO_INFO first cnt) d = Some (d, IInfo (int (min MAX_FIFOS (first + cnt) - first)) l) \<and>
     map fifo_number l = [first..<min MAX_FIFOS (first + cnt)]"
  by (simp add: info_loop_eq fifo_info_def Let_def comp_def)

end
