(* ===== verification/Tlsf.thy ===== *)
theory Tlsf
  imports RT_Prelude
begin

text \<open>
  The two-level segregated-fit allocator of \<^verbatim>\<open>src/malloc/malloc.c\<close> (\<^verbatim>\<open>CONFIG_RTAI_USE_TLSF\<close>) and the
  heaps of extents above it. Addresses are numbers of bytes, \<^verbatim>\<open>NULL\<close> is 0. A pool is its control
  structure (\<^verbatim>\<open>tlsf_t\<close>) and the headers in its memory, one function per field of \<^verbatim>\<open>bhdr_t\<close>; the
  pointers of the free list lie in the buffer of a block and mean something in free blocks only. Sizes are the
  64-bit words of the headers with their two state bits. The sizes of the structures are those of
  the 64-bit machine the code is built for. \<open>None\<close>: the code shifts by a negative count or reads
  outside its tables, which it does for requests of 2^30 bytes and more.
\<close>

type_synonym u64_t = "64 word"

section \<open>Parameters\<close>

abbreviation (input) MAX_LOG2_SLI :: nat where "MAX_LOG2_SLI \<equiv> 5"
abbreviation (input) MAX_SLI :: int where "MAX_SLI \<equiv> 32"
abbreviation (input) FLI_OFFSET :: int where "FLI_OFFSET \<equiv> 6"
abbreviation (input) SMALL_BLOCK :: u64_t where "SMALL_BLOCK \<equiv> 128"
abbreviation (input) REAL_FLI :: int where "REAL_FLI \<equiv> 24"
abbreviation (input) MIN_BLOCK_SIZE :: u64_t where "MIN_BLOCK_SIZE \<equiv> 16"
abbreviation (input) BHDR_OVERHEAD :: u64_t where "BHDR_OVERHEAD \<equiv> 16"
abbreviation (input) sizeof_bhdr :: u64_t where "sizeof_bhdr \<equiv> 32"
abbreviation (input) sizeof_tlsf :: u64_t where "sizeof_tlsf \<equiv> 6280"
abbreviation (input) TLSF_SIGNATURE :: u32 where "TLSF_SIGNATURE \<equiv> 0x2A59FA59"
abbreviation (input) BLOCK_SIZE :: u64_t where "BLOCK_SIZE \<equiv> 0xFFFFFFF8"
abbreviation (input) MEM_ALIGN :: u64_t where "MEM_ALIGN \<equiv> 15"
abbreviation (input) PREV_STATE :: u64_t where "PREV_STATE \<equiv> 2"
abbreviation (input) FREE_BLOCK :: u64_t where "FREE_BLOCK \<equiv> 1"
abbreviation (input) USED_BLOCK :: u64_t where "USED_BLOCK \<equiv> 0"
abbreviation (input) PREV_FREE :: u64_t where "PREV_FREE \<equiv> 2"
abbreviation (input) PREV_USED :: u64_t where "PREV_USED \<equiv> 0"

definition ROUNDUP_SIZE :: "u64_t \<Rightarrow> u64_t" where
  "ROUNDUP_SIZE r = (r + MEM_ALIGN) AND NOT MEM_ALIGN"

definition ROUNDDOWN_SIZE :: "u64_t \<Rightarrow> u64_t" where
  "ROUNDDOWN_SIZE r = r AND NOT MEM_ALIGN"

section \<open>The pool\<close>

record tlsf_t =
  tlsf_signature :: u32
  used_size :: u64_t
  max_size :: u64_t
  area_head :: nat
  fl_bitmap :: u32
  sl_bitmap :: "int \<Rightarrow> u32"
  matrix :: "int \<Rightarrow> int \<Rightarrow> nat"
  prev_hdr :: "nat \<Rightarrow> nat"
  bsize :: "nat \<Rightarrow> u64_t"
  fprev :: "nat \<Rightarrow> nat"
  fnext :: "nat \<Rightarrow> nat"
  area_end :: "nat \<Rightarrow> nat"
  area_next :: "nat \<Rightarrow> nat"

text \<open>\<^verbatim>\<open>b->size & BLOCK_SIZE\<close>, the address of the buffer of a block, \<^verbatim>\<open>GET_NEXT_BLOCK\<close>.\<close>

definition blk_size :: "tlsf_t \<Rightarrow> nat \<Rightarrow> u64_t" where
  "blk_size t b = bsize t b AND BLOCK_SIZE"

definition ptr_buffer :: "nat \<Rightarrow> nat" where
  "ptr_buffer b = b + 16"

definition GET_NEXT_BLOCK :: "nat \<Rightarrow> u64_t \<Rightarrow> nat" where
  "GET_NEXT_BLOCK adr r = adr + unat r"

definition set_size :: "nat \<Rightarrow> u64_t \<Rightarrow> tlsf_t \<Rightarrow> tlsf_t" where
  "set_size b w t = t\<lparr>bsize := (bsize t)(b := w)\<rparr>"

definition set_prev_hdr :: "nat \<Rightarrow> nat \<Rightarrow> tlsf_t \<Rightarrow> tlsf_t" where
  "set_prev_hdr b p t = t\<lparr>prev_hdr := (prev_hdr t)(b := p)\<rparr>"

definition set_free_ptr :: "nat \<Rightarrow> nat \<Rightarrow> nat \<Rightarrow> tlsf_t \<Rightarrow> tlsf_t" where
  "set_free_ptr b p n t = t\<lparr>fprev := (fprev t)(b := p), fnext := (fnext t)(b := n)\<rparr>"

definition TLSF_ADD_SIZE :: "nat \<Rightarrow> tlsf_t \<Rightarrow> tlsf_t" where
  "TLSF_ADD_SIZE b t =
     (let u = used_size t + (blk_size t b + BHDR_OVERHEAD)
      in t\<lparr>used_size := u, max_size := (if u > max_size t then u else max_size t)\<rparr>)"

definition TLSF_REMOVE_SIZE :: "nat \<Rightarrow> tlsf_t \<Rightarrow> tlsf_t" where
  "TLSF_REMOVE_SIZE b t = t\<lparr>used_size := used_size t - (blk_size t b + BHDR_OVERHEAD)\<rparr>"

section \<open>Bits and classes\<close>

text \<open>\<^verbatim>\<open>table\<close>: entry \<open>i\<close> is the position of the highest bit of \<open>i\<close>.\<close>

definition table :: "int list" where
  "table = [-1, 0] @ replicate 2 1 @ replicate 4 2 @ replicate 8 3 @ replicate 16 4 @ replicate 32 5 @
     replicate 64 6 @ replicate 128 7"

definition byte_shift :: "u32 \<Rightarrow> nat" where
  "byte_shift x = (if x \<le> 0xffff then (if x \<le> 0xff then 0 else 8) else (if x \<le> 0xffffff then 16 else 24))"

definition ls_bit :: "u32 \<Rightarrow> int" where
  "ls_bit i = (let x = i AND (- i); a = byte_shift x in table ! unat (drop_bit a x) + int a)"

definition ms_bit :: "u32 \<Rightarrow> int" where
  "ms_bit x = (let a = byte_shift x in table ! unat (drop_bit a x) + int a)"

definition tlsf_set_bit :: "int \<Rightarrow> u32 \<Rightarrow> u32" where
  "tlsf_set_bit nr w = w OR push_bit (nat (nr mod 32)) 1"

definition tlsf_clear_bit :: "int \<Rightarrow> u32 \<Rightarrow> u32" where
  "tlsf_clear_bit nr w = w AND NOT (push_bit (nat (nr mod 32)) 1)"

definition MAPPING_SEARCH :: "u64_t \<Rightarrow> u64_t \<times> int \<times> int" where
  "MAPPING_SEARCH r =
     (if r < SMALL_BLOCK then (r, 0, uint (r div 4))
      else (let t = push_bit (nat (ms_bit (ucast r)) - MAX_LOG2_SLI) 1 - 1;
                r1 = r + t;
                fl = ms_bit (ucast r1);
                sl = uint (drop_bit (nat fl - MAX_LOG2_SLI) r1) - MAX_SLI
            in (r1 AND NOT t, fl - FLI_OFFSET, sl)))"

definition MAPPING_INSERT :: "u64_t \<Rightarrow> int \<times> int" where
  "MAPPING_INSERT r =
     (if r < SMALL_BLOCK then (0, uint (r div 4))
      else (let fl = ms_bit (ucast r)
            in (fl - FLI_OFFSET, uint (drop_bit (nat fl - MAX_LOG2_SLI) r) - MAX_SLI)))"

section \<open>Free lists\<close>

text \<open>\<^verbatim>\<open>FIND_SUITABLE_BLOCK\<close> returns the block, or 0, and the class it was found in.\<close>

definition FIND_SUITABLE_BLOCK :: "tlsf_t \<Rightarrow> int \<Rightarrow> int \<Rightarrow> nat \<times> int \<times> int" where
  "FIND_SUITABLE_BLOCK t fl sl =
     (let tmp = sl_bitmap t fl AND push_bit (nat sl) (- 1)
      in if tmp \<noteq> 0 then (let s = ls_bit tmp in (matrix t fl s, fl, s))
         else (let f = ls_bit (fl_bitmap t AND push_bit (nat (fl + 1)) (- 1))
               in if f > 0 then (let s = ls_bit (sl_bitmap t f) in (matrix t f s, f, s))
                  else (0, f, sl)))"

text \<open>The bits of a class whose list has become empty.\<close>

definition clear_class :: "int \<Rightarrow> int \<Rightarrow> tlsf_t \<Rightarrow> tlsf_t" where
  "clear_class fl sl t =
     (let t1 = t\<lparr>sl_bitmap := (sl_bitmap t)(fl := tlsf_clear_bit sl (sl_bitmap t fl))\<rparr>
      in if sl_bitmap t1 fl = 0 then t1\<lparr>fl_bitmap := tlsf_clear_bit fl (fl_bitmap t1)\<rparr> else t1)"

definition set_matrix :: "int \<Rightarrow> int \<Rightarrow> nat \<Rightarrow> tlsf_t \<Rightarrow> tlsf_t" where
  "set_matrix fl sl b t = t\<lparr>matrix := (matrix t)(fl := (matrix t fl)(sl := b))\<rparr>"

definition EXTRACT_BLOCK_HDR :: "nat \<Rightarrow> int \<Rightarrow> int \<Rightarrow> tlsf_t \<Rightarrow> tlsf_t" where
  "EXTRACT_BLOCK_HDR b fl sl t =
     (let t1 = set_matrix fl sl (fnext t b) t;
          h = matrix t1 fl sl;
          t2 = (if h \<noteq> 0 then t1\<lparr>fprev := (fprev t1)(h := 0)\<rparr> else clear_class fl sl t1)
      in set_free_ptr b 0 0 t2)"

definition EXTRACT_BLOCK :: "nat \<Rightarrow> int \<Rightarrow> int \<Rightarrow> tlsf_t \<Rightarrow> tlsf_t" where
  "EXTRACT_BLOCK b fl sl t =
     (let t1 = (if fnext t b \<noteq> 0 then t\<lparr>fprev := (fprev t)(fnext t b := fprev t b)\<rparr> else t);
          t2 = (if fprev t1 b \<noteq> 0 then t1\<lparr>fnext := (fnext t1)(fprev t1 b := fnext t1 b)\<rparr> else t1);
          t3 = (if matrix t2 fl sl = b then
                  (let t' = set_matrix fl sl (fnext t2 b) t2
                   in if matrix t' fl sl = 0 then clear_class fl sl t' else t')
                else t2)
      in set_free_ptr b 0 0 t3)"

definition INSERT_BLOCK :: "nat \<Rightarrow> int \<Rightarrow> int \<Rightarrow> tlsf_t \<Rightarrow> tlsf_t" where
  "INSERT_BLOCK b fl sl t =
     (let h = matrix t fl sl;
          t1 = set_free_ptr b 0 h t;
          t2 = (if h \<noteq> 0 then t1\<lparr>fprev := (fprev t1)(h := b)\<rparr> else t1);
          t3 = set_matrix fl sl b t2
      in t3\<lparr>sl_bitmap := (sl_bitmap t3)(fl := tlsf_set_bit sl (sl_bitmap t3 fl)),
            fl_bitmap := tlsf_set_bit fl (fl_bitmap t3)\<rparr>)"

section \<open>Allocation and release\<close>

text \<open>The part of \<^verbatim>\<open>malloc_ex\<close> after a block \<open>b\<close> was found in class \<open>(fl, sl)\<close> for \<open>sz\<close> bytes.\<close>

definition take_block :: "nat \<Rightarrow> int \<Rightarrow> int \<Rightarrow> u64_t \<Rightarrow> tlsf_t \<Rightarrow> tlsf_t" where
  "take_block b fl sl sz t =
     (let t1 = EXTRACT_BLOCK_HDR b fl sl t;
          next_b = GET_NEXT_BLOCK (ptr_buffer b) (blk_size t1 b);
          tmp_size = blk_size t1 b - sz
      in if tmp_size \<ge> sizeof_bhdr then
           (let tmp_size = tmp_size - BHDR_OVERHEAD;
                b2 = GET_NEXT_BLOCK (ptr_buffer b) sz;
                t2 = set_prev_hdr next_b b2 (set_size b2 (tmp_size OR FREE_BLOCK OR PREV_USED) t1)
            in case MAPPING_INSERT tmp_size of (fl2, sl2) \<Rightarrow>
                 (let t3 = INSERT_BLOCK b2 fl2 sl2 t2 in set_size b (sz OR (bsize t3 b AND PREV_STATE)) t3))
         else
           (let t2 = set_size next_b (bsize t1 next_b AND NOT PREV_FREE) t1
            in set_size b (bsize t2 b AND NOT FREE_BLOCK) t2))"

definition malloc_ex :: "u64_t \<Rightarrow> tlsf_t \<Rightarrow> (tlsf_t \<times> nat) option" where
  "malloc_ex sz t =
     (let sz1 = (if sz < MIN_BLOCK_SIZE then MIN_BLOCK_SIZE else ROUNDUP_SIZE sz)
      in if sz1 \<ge> 0x80000000 then None
         else case MAPPING_SEARCH sz1 of (sz2, fl, sl) \<Rightarrow>
           if fl \<ge> REAL_FLI then None
           else case FIND_SUITABLE_BLOCK t fl sl of (b, fl1, sl1) \<Rightarrow>
             if b = 0 then Some (t, 0)
             else Some (TLSF_ADD_SIZE b (take_block b fl1 sl1 sz2 t), ptr_buffer b))"

text \<open>The two merges of \<^verbatim>\<open>free_ex\<close>: with the block behind, and with the block before, which then is the block
  to insert.\<close>

definition merge_next :: "nat \<Rightarrow> tlsf_t \<Rightarrow> tlsf_t" where
  "merge_next b t =
     (let n = GET_NEXT_BLOCK (ptr_buffer b) (blk_size t b)
      in if bsize t n AND FREE_BLOCK \<noteq> 0 then
           (case MAPPING_INSERT (blk_size t n) of (fl, sl) \<Rightarrow>
              (let t1 = EXTRACT_BLOCK n fl sl t in set_size b (bsize t1 b + (blk_size t1 n + BHDR_OVERHEAD)) t1))
         else t)"

definition merge_prev :: "nat \<Rightarrow> tlsf_t \<Rightarrow> tlsf_t \<times> nat" where
  "merge_prev b t =
     (if bsize t b AND PREV_FREE \<noteq> 0 then
        (let p = prev_hdr t b
         in case MAPPING_INSERT (blk_size t p) of (fl, sl) \<Rightarrow>
              (let t1 = EXTRACT_BLOCK p fl sl t in (set_size p (bsize t1 p + (blk_size t1 b + BHDR_OVERHEAD)) t1, p)))
      else (t, b))"

text \<open>The end of \<^verbatim>\<open>free_ex\<close>: the block goes to its free list and the block behind is told.\<close>

definition put_free :: "nat \<Rightarrow> tlsf_t \<Rightarrow> tlsf_t" where
  "put_free b t =
     (case MAPPING_INSERT (blk_size t b) of (fl, sl) \<Rightarrow>
        (let t1 = INSERT_BLOCK b fl sl t;
             n = GET_NEXT_BLOCK (ptr_buffer b) (blk_size t1 b)
         in set_prev_hdr n b (set_size n (bsize t1 n OR PREV_FREE) t1)))"

definition free_ex :: "nat \<Rightarrow> tlsf_t \<Rightarrow> tlsf_t" where
  "free_ex ptr t =
     (if ptr = 0 then t
      else (let b = ptr - 16;
                t1 = set_free_ptr b 0 0 (TLSF_REMOVE_SIZE b (set_size b (bsize t b OR FREE_BLOCK) t))
            in case merge_prev b (merge_next b t1) of (t2, b1) \<Rightarrow> put_free b1 t2))"

section \<open>Start-up of a pool\<close>

definition process_area :: "nat \<Rightarrow> u64_t \<Rightarrow> tlsf_t \<Rightarrow> tlsf_t" where
  "process_area ib sz t =
     (let t1 = set_size ib (ROUNDUP_SIZE 16 OR USED_BLOCK OR PREV_USED) t;
          b = GET_NEXT_BLOCK (ptr_buffer ib) (blk_size t1 ib);
          t2 = set_free_ptr b 0 0
                 (set_size b (ROUNDDOWN_SIZE (sz - 3 * BHDR_OVERHEAD - blk_size t1 ib) OR USED_BLOCK OR PREV_USED) t1);
          lb = GET_NEXT_BLOCK (ptr_buffer b) (blk_size t2 b);
          t3 = set_size lb (0 OR USED_BLOCK OR PREV_FREE) (set_prev_hdr lb b t2)
      in t3\<lparr>area_next := (area_next t3)(ptr_buffer ib := 0), area_end := (area_end t3)(ptr_buffer ib := lb)\<rparr>)"

text \<open>\<^verbatim>\<open>init_memory_pool\<close> of \<open>sz\<close> bytes at \<open>mem_pool\<close>; \<open>t\<close> is what the memory holds. The result is a
  \<^verbatim>\<open>size_t\<close>, with \<open>- 1\<close> for an error.\<close>

definition zero_pool :: "tlsf_t \<Rightarrow> tlsf_t" where
  "zero_pool t = t\<lparr>tlsf_signature := 0, used_size := 0, max_size := 0, area_head := 0, fl_bitmap := 0,
     sl_bitmap := (\<lambda>_. 0), matrix := (\<lambda>_ _. 0)\<rparr>"

definition init_memory_pool :: "u64_t \<Rightarrow> nat \<Rightarrow> tlsf_t \<Rightarrow> tlsf_t \<times> u64_t" where
  "init_memory_pool sz mem_pool t =
     (if mem_pool = 0 \<or> sz = 0 \<or> sz < sizeof_tlsf + BHDR_OVERHEAD * 8 then (t, - 1)
      else if mem_pool mod 8 \<noteq> 0 then (t, - 1)
      else if tlsf_signature t = TLSF_SIGNATURE
      then (t, blk_size t (GET_NEXT_BLOCK mem_pool (ROUNDUP_SIZE sizeof_tlsf)))
      else (let ib = GET_NEXT_BLOCK mem_pool (ROUNDUP_SIZE sizeof_tlsf);
                t1 = process_area ib (ROUNDDOWN_SIZE (sz - sizeof_tlsf)) ((zero_pool t)\<lparr>tlsf_signature := TLSF_SIGNATURE\<rparr>);
                b = GET_NEXT_BLOCK (ptr_buffer ib) (blk_size t1 ib);
                t2 = (free_ex (ptr_buffer b) t1)\<lparr>area_head := ptr_buffer ib\<rparr>;
                u = sz - blk_size t2 b
            in (t2\<lparr>used_size := u, max_size := u\<rparr>, blk_size t2 b)))"

section \<open>Heaps of extents\<close>

text \<open>An extent is a piece of memory from the kernel: 48 bytes for its header (\<^verbatim>\<open>rtextent_t\<close>), then a pool.
  \<open>mem\<close> is what the pool's memory holds before.\<close>

record rtextent =
  membase :: nat
  memlim :: nat
  pool :: tlsf_t

record rtheap =
  extentsize :: nat
  extents :: "rtextent list"

abbreviation (input) sizeof_rtextent :: nat where "sizeof_rtextent \<equiv> 48"
abbreviation (input) KMALLOC_LIMIT :: nat where "KMALLOC_LIMIT \<equiv> 131072"
abbreviation (input) RTHEAP_NOMEM :: int where "RTHEAP_NOMEM \<equiv> -1"

definition init_extent :: "nat \<Rightarrow> nat \<Rightarrow> tlsf_t \<Rightarrow> rtextent" where
  "init_extent es a t = \<lparr>membase = a + sizeof_rtextent, memlim = a + es, pool = t\<rparr>"

definition new_extent :: "nat \<Rightarrow> nat \<Rightarrow> tlsf_t \<Rightarrow> rtextent" where
  "new_extent es a mem =
     init_extent es a (fst (init_memory_pool (word_of_nat es - 48) (a + sizeof_rtextent) mem))"

text \<open>The loop of \<^verbatim>\<open>rtheap_init\<close>; \<open>alloc i\<close> is the address that the kernel gives for extent \<open>i\<close>, 0 when it has
  no memory. The result of \<^verbatim>\<open>init_memory_pool\<close> is unsigned, so the test for a negative one never
  holds. On failure the extents are freed but stay in the list.\<close>

function add_extents :: "(nat \<Rightarrow> nat) \<Rightarrow> (nat \<Rightarrow> tlsf_t) \<Rightarrow> nat \<Rightarrow> nat \<Rightarrow> nat \<Rightarrow> rtheap \<Rightarrow> rtheap \<times> int" where
  "add_extents alloc mem i init_size heapsize h =
     (if init_size \<ge> heapsize \<or> extentsize h = 0 then (h, 0)
      else if alloc i = 0 then (h, RTHEAP_NOMEM)
      else add_extents alloc mem (Suc i) (init_size + extentsize h) heapsize
             (h\<lparr>extents := extents h @ [new_extent (extentsize h) (alloc i) (mem (alloc i))]\<rparr>))"
  by pat_completeness auto

termination by (relation "measure (\<lambda>(_, _, _, i, n, _). n - i)") auto

definition rtheap_init :: "(nat \<Rightarrow> nat) \<Rightarrow> (nat \<Rightarrow> tlsf_t) \<Rightarrow> nat \<Rightarrow> nat \<Rightarrow> bool \<Rightarrow> rtheap \<times> int" where
  "rtheap_init alloc mem heapaddr heapsize suprt =
     (let ask = (heapaddr = 0 \<and> suprt);
          adr = (if ask then (if heapsize \<le> KMALLOC_LIMIT then 0 else alloc 0) else heapaddr);
          h = \<lparr>extentsize = (if ask \<and> adr = 0 then KMALLOC_LIMIT else heapsize), extents = []\<rparr>;
          i = (if ask \<and> heapsize > KMALLOC_LIMIT then 1 else 0)
      in if adr \<noteq> 0 then (h\<lparr>extents := [new_extent heapsize adr (mem adr)]\<rparr>, 0)
         else add_extents alloc mem i 0 heapsize h)"

text \<open>What \<^verbatim>\<open>rtheap_destroy\<close> gives back to the kernel.\<close>

definition rtheap_destroy :: "rtheap \<Rightarrow> (nat \<times> nat) list" where
  "rtheap_destroy h = map (\<lambda>e. (membase e - sizeof_rtextent, extentsize h)) (extents h)"

fun alloc_loop :: "u64_t \<Rightarrow> rtextent list \<Rightarrow> (rtextent list \<times> nat) option" where
  "alloc_loop sz [] = Some ([], 0)"
| "alloc_loop sz (e # es) =
     (case malloc_ex sz (pool e) of None \<Rightarrow> None
      | Some (t, p) \<Rightarrow>
          if p \<noteq> 0 then Some (e\<lparr>pool := t\<rparr> # es, p)
          else map_option (\<lambda>(es', q). (e\<lparr>pool := t\<rparr> # es', q)) (alloc_loop sz es))"

definition rtheap_alloc :: "u64_t \<Rightarrow> rtheap \<Rightarrow> (rtheap \<times> nat) option" where
  "rtheap_alloc sz h =
     (if sz = 0 then Some (h, 0) else map_option (\<lambda>(es, p). (h\<lparr>extents := es\<rparr>, p)) (alloc_loop sz (extents h)))"

fun free_loop :: "nat \<Rightarrow> rtextent list \<Rightarrow> rtextent list" where
  "free_loop block [] = []"
| "free_loop block (e # es) =
     (if block < memlim e \<and> membase e \<le> block then e\<lparr>pool := free_ex block (pool e)\<rparr> # es
      else e # free_loop block es)"

definition rtheap_free :: "nat \<Rightarrow> rtheap \<Rightarrow> rtheap \<times> int" where
  "rtheap_free block h = (h\<lparr>extents := free_loop block (extents h)\<rparr>, 0)"

text \<open>The used bytes of the first extent; \<open>None\<close>: the list head is taken for an extent.\<close>

definition tlsf_get_used_size :: "rtheap \<Rightarrow> u64_t option" where
  "tlsf_get_used_size h = (case extents h of [] \<Rightarrow> None | e # es \<Rightarrow> Some (used_size (pool e)))"

text \<open>The global heap, its size rounded up to whole pages.\<close>

definition rtai_heap_init :: "(nat \<Rightarrow> nat) \<Rightarrow> (nat \<Rightarrow> tlsf_t) \<Rightarrow> nat \<Rightarrow> rtheap \<times> int" where
  "rtai_heap_init alloc mem sz =
     (case rtheap_init alloc mem 0 ((sz + 4095) div 4096 * 4096) False of (h, r) \<Rightarrow> (h, if r \<noteq> 0 then 1 else 0))"

definition rtai_heap_exit :: "rtheap \<Rightarrow> (nat \<times> nat) list" where
  "rtai_heap_exit h = rtheap_destroy h"

end
