(* ===== verification/Tlsf_Bits.thy ===== *)
theory Tlsf_Bits
  imports Tlsf
begin

text \<open>
  The arithmetic under the segregated-fit allocator: header words with their state bits, the bit
  searches of \<^verbatim>\<open>ms_bit\<close> and \<^verbatim>\<open>ls_bit\<close>, and the size classes.
\<close>

section \<open>Header words\<close>

text \<open>The word in the header of a block of \<open>n\<close> bytes, free or used, behind a free or used block.\<close>

definition hdr :: "nat \<Rightarrow> bool \<Rightarrow> bool \<Rightarrow> u64_t" where
  "hdr n f p = word_of_nat (n + of_bool f + 2 * of_bool p)"

lemma bit_hdr_nat:
  fixes n :: nat
  shows "4 dvd n \<Longrightarrow> bit (n + of_bool f + 2 * of_bool p) i =
     (if i = 0 then f else if i = 1 then p else bit n i)"
proof (elim dvdE)
  fix k :: nat
  assume n: "n = 4 * k"
  show ?thesis
  proof (cases i)
    case 0
    then show ?thesis by (simp add: n bit_0)
  next
    case (Suc j)
    have "(n + of_bool f + 2 * of_bool p) div 2 = 2 * k + of_bool p" by (simp add: n)
    then have "bit (n + of_bool f + 2 * of_bool p) i = bit (2 * k + of_bool p) j" by (simp add: Suc bit_Suc)
    also have "\<dots> = (if j = 0 then p else bit (2 * k) j)" by (cases j) (auto simp: bit_0 bit_Suc)
    also have "bit (2 * k) j = bit n i" by (simp add: Suc n bit_Suc)
    finally show ?thesis by (simp add: Suc)
  qed
qed

lemma bit_hdr:
  assumes "4 dvd n"
  shows "bit (hdr n f p) i \<longleftrightarrow> i < 64 \<and> (if i = 0 then f else if i = 1 then p else bit n i)"
  unfolding hdr_def bit_of_nat_iff bit_hdr_nat [OF assms] by simp

lemma low_bits: "2 ^ k dvd n \<Longrightarrow> i < k \<Longrightarrow> \<not> bit (n :: nat) i"
  by (elim dvdE) (simp add: bit_push_bit_iff mult.commute flip: push_bit_eq_mult)

lemma high_bits: "n < 2 ^ k \<Longrightarrow> k \<le> i \<Longrightarrow> \<not> bit (n :: nat) i"
  by (metis bit_take_bit_iff linorder_not_less take_bit_nat_eq_self)

lemma block_size_bits: "(0xFFFFFFF8 :: u64_t) = push_bit 3 (mask 29)"
  by (simp add: mask_numeral)

lemma dvd8_4: "8 dvd (n :: nat) \<Longrightarrow> 4 dvd n" "16 dvd n \<Longrightarrow> 8 dvd n"
  by presburger+

lemma hdr_size:
  assumes "8 dvd n" "n < 2 ^ 32"
  shows "hdr n f p AND BLOCK_SIZE = word_of_nat n"
proof (rule bit_word_eqI)
  fix i assume i: "i < LENGTH(64)"
  have h: "bit (hdr n f p) i = (if i = 0 then f else if i = 1 then p else bit n i)"
    using bit_hdr [OF dvd8_4(1) [OF assms(1)], of f p i] i by simp
  show "bit (hdr n f p AND BLOCK_SIZE) i = bit (word_of_nat n :: u64_t) i"
  proof (cases "i < 3 \<or> 32 \<le> i")
    case True
    then have "\<not> bit n i" using low_bits [of 3 n i] high_bits [OF assms(2), of i] assms(1) by auto
    with True show ?thesis unfolding block_size_bits by (auto simp: bit_simps)
  next
    case False
    with h i show ?thesis unfolding block_size_bits by (auto simp: bit_simps)
  qed
qed

lemma bit_12: "bit (1 :: u64_t) i \<longleftrightarrow> i = 0" "bit (2 :: u64_t) i \<longleftrightarrow> i = 1"
  by (auto simp: bit_1_iff bit_Suc bit_0 split: nat.splits)  (cases i; auto simp: bit_Suc bit_1_iff bit_0)+

lemma hdr_eqI: "(\<And>i. i < 64 \<Longrightarrow> bit x i = bit y i) \<Longrightarrow> x = (y :: u64_t)"
  by (rule bit_word_eqI) simp

lemma bit_nat_flag: "4 dvd n \<Longrightarrow> \<not> bit (n :: nat) 0" "4 dvd n \<Longrightarrow> \<not> bit n (Suc 0)"
  using low_bits [of 2 n] by simp_all

lemma hdr_flags:
  assumes "4 dvd n"
  shows "hdr n f p AND FREE_BLOCK \<noteq> 0 \<longleftrightarrow> f" "hdr n f p AND PREV_FREE \<noteq> 0 \<longleftrightarrow> p"
    "hdr n f p OR FREE_BLOCK = hdr n True p" "hdr n f p OR PREV_FREE = hdr n f True"
    "hdr n f p AND NOT FREE_BLOCK = hdr n False p" "hdr n f p AND NOT PREV_FREE = hdr n f False"
    "word_of_nat n OR FREE_BLOCK = hdr n True False"
proof -
  note b = bit_hdr [OF assms] bit_12 bit_nat_flag [OF assms] bit_simps
  have "hdr n f p AND FREE_BLOCK = (if f then 1 else 0)" by (rule hdr_eqI) (auto simp: b)
  then show "hdr n f p AND FREE_BLOCK \<noteq> 0 \<longleftrightarrow> f" by simp
  have "hdr n f p AND PREV_FREE = (if p then 2 else 0)" by (rule hdr_eqI) (auto simp: b)
  then show "hdr n f p AND PREV_FREE \<noteq> 0 \<longleftrightarrow> p" by simp
  show "hdr n f p OR FREE_BLOCK = hdr n True p" by (rule hdr_eqI) (auto simp: b)
  show "hdr n f p OR PREV_FREE = hdr n f True" by (rule hdr_eqI) (auto simp: b)
  show "hdr n f p AND NOT FREE_BLOCK = hdr n False p" by (rule hdr_eqI) (auto simp: b)
  show "hdr n f p AND NOT PREV_FREE = hdr n f False" by (rule hdr_eqI) (auto simp: b)
  show "word_of_nat n OR FREE_BLOCK = hdr n True False" by (rule hdr_eqI) (auto simp: b)
qed

lemma hdr_keep_prev:
  assumes "4 dvd n" "4 dvd m"
  shows "word_of_nat n OR (hdr m f p AND PREV_STATE) = hdr n False p"
  by (rule hdr_eqI) (auto simp: bit_hdr assms bit_12 bit_nat_flag bit_simps)

lemma hdr_add: "hdr n f p + word_of_nat m = hdr (n + m) f p"
  by (simp add: hdr_def)

section \<open>Searching bits\<close>

lemma table_spec_all:
  "\<forall>i\<in>set [1..<256]. 0 \<le> table ! i \<and> 2 ^ nat (table ! i) \<le> i \<and> i < 2 * 2 ^ nat (table ! i)"
  by code_simp

lemma table_spec: "0 < i \<Longrightarrow> i < 256 \<Longrightarrow> 0 \<le> table ! i \<and> 2 ^ nat (table ! i) \<le> i \<and> i < 2 * 2 ^ nat (table ! i)"
  using table_spec_all by simp

lemma shift_spec:
  fixes x :: nat
  assumes "0 < x div 2 ^ a" "x div 2 ^ a < 256"
  shows "0 \<le> table ! (x div 2 ^ a) \<and> 2 ^ nat (table ! (x div 2 ^ a) + int a) \<le> x \<and> x < 2 * 2 ^ nat (table ! (x div 2 ^ a) + int a)"
proof -
  define k where "k = nat (table ! (x div 2 ^ a))"
  have k: "table ! (x div 2 ^ a) = int k" "2 ^ k \<le> x div 2 ^ a" "x div 2 ^ a < 2 * 2 ^ k"
    using table_spec [OF assms] by (auto simp: k_def)
  have n: "nat (table ! (x div 2 ^ a) + int a) = k + a" by (simp add: k(1) nat_add_distrib)
  have "2 ^ k * 2 ^ a \<le> x" using k(2) by (metis div_times_less_eq_dividend le_trans mult_le_mono1)
  moreover have "x < 2 * 2 ^ k * 2 ^ a" using k(3) by (simp add: div_less_iff_less_mult)
  ultimately show ?thesis unfolding n using k(1) by (simp add: power_add)
qed

lemma byte_shift_spec:
  assumes "x \<noteq> 0"
  shows "0 < unat x div 2 ^ byte_shift x \<and> unat x div 2 ^ byte_shift x < 256"
proof -
  have b: "unat x < 4294967296" using unsigned_less [of x] by simp
  have z: "unat x \<noteq> 0" using assms by (simp add: unat_eq_0)
  have c: "x \<le> 0xff \<longleftrightarrow> unat x \<le> 255" "x \<le> 0xffff \<longleftrightarrow> unat x \<le> 65535" "x \<le> 0xffffff \<longleftrightarrow> unat x \<le> 16777215"
    by (simp_all add: word_le_nat_alt)
  show ?thesis unfolding byte_shift_def c using b z by (auto simp: div_greater_zero_iff div_less_iff_less_mult)
qed

lemma unat_shift: "unat (drop_bit a x) = unat x div 2 ^ a"
  unfolding unat_drop_bit_eq by (rule drop_bit_eq_div)

text \<open>\<^verbatim>\<open>ms_bit\<close> is the position of the highest bit.\<close>

lemma ms_bit_spec:
  assumes "x \<noteq> 0"
  shows "0 \<le> ms_bit x" "2 ^ nat (ms_bit x) \<le> unat x" "unat x < 2 * 2 ^ nat (ms_bit x)"
  using shift_spec [of "unat x" "byte_shift x"] byte_shift_spec [OF assms]
  by (auto simp: ms_bit_def Let_def unat_shift)

lemma power_between: "2 ^ k \<le> (n :: nat) \<Longrightarrow> n < 2 * 2 ^ k \<Longrightarrow> 2 ^ j \<le> n \<Longrightarrow> n < 2 * 2 ^ j \<Longrightarrow> j = k"
  by (metis le_antisym less_Suc_eq_le less_le_trans not_le power_Suc power_less_imp_less_exp one_less_numeral_iff semiring_norm(76) le_less_trans)

lemma ms_bit_eq:
  assumes "2 ^ k \<le> unat x" "unat x < 2 * 2 ^ k"
  shows "ms_bit x = int k"
proof -
  have z: "x \<noteq> 0" using assms(1) by (metis less_one not_le unat_0 zero_less_numeral zero_less_power)
  show ?thesis using power_between [OF assms ms_bit_spec(2,3) [OF z]] ms_bit_spec(1) [OF z] by simp
qed

lemma low_bit_and: "odd u \<Longrightarrow> u AND - u = (1 :: u32)"
proof (rule bit_eqI)
  fix n assume "odd u"
  have "bit (u - 1) n \<longleftrightarrow> bit u n \<and> n \<noteq> 0"
    using \<open>odd u\<close> even_bit_succ_iff [of "u - 1" n] by (auto simp: bit_0 intro: gr0I)
  then show "bit (u AND - u) n = bit (1 :: u32) n"
    using \<open>odd u\<close> by (auto simp: bit_simps minus_eq_not_minus_1 bit_0)
qed

lemma ls_bit_zero: "ls_bit 0 = -1"
  by (simp add: ls_bit_def byte_shift_def table_def)

text \<open>\<^verbatim>\<open>ls_bit\<close> is the position of the lowest bit.\<close>

lemma ls_bit_eq:
  fixes w :: u32
  assumes "bit w k" "\<And>j. j < k \<Longrightarrow> \<not> bit w j"
  shows "ls_bit w = int k"
proof -
  have k: "k < 32" using assms(1) by (auto dest: bit_imp_le_length)
  define u where "u = drop_bit k w"
  have w: "w = push_bit k u"
  proof (rule bit_eqI)
    fix n
    show "bit w n = bit (push_bit k u) n" using assms(2) [of n] by (cases "n < k") (auto simp: u_def bit_simps dest: bit_imp_le_length)
  qed
  have "odd u" using assms(1) by (simp add: u_def bit_iff_odd_drop_bit)
  then have "w AND - w = push_bit k 1" unfolding w by (metis low_bit_and push_bit_and push_bit_minus)
  moreover have "unat (push_bit k 1 :: u32) = 2 ^ k" using k unfolding unsigned_push_bit_eq by (simp add: push_bit_eq_mult take_bit_nat_eq_self)
  ultimately have "ms_bit (w AND - w) = int k" by (intro ms_bit_eq) auto
  then show ?thesis by (simp add: ls_bit_def ms_bit_def)
qed

lemma ls_bit_spec:
  assumes "w \<noteq> 0"
  shows "\<exists>k. ls_bit w = int k \<and> k < 32 \<and> bit w k \<and> (\<forall>j<k. \<not> bit w j)"
proof -
  obtain i where "bit w i" using assms by (auto simp: bit_eq_iff)
  define k where "k = (LEAST i. bit w i)"
  have "bit w k" unfolding k_def by (rule LeastI [of _ i]) fact
  moreover have "\<not> bit w j" if "j < k" for j using that not_less_Least k_def by metis
  ultimately show ?thesis using ls_bit_eq [of w k] by (auto dest: bit_imp_le_length)
qed

section \<open>Size classes\<close>

text \<open>The class of blocks of \<open>n\<close> bytes; the smallest size of a class and the bound above it.\<close>

definition cls :: "nat \<Rightarrow> int \<times> int" where
  "cls n = MAPPING_INSERT (word_of_nat n)"

definition class_base :: "int \<Rightarrow> int \<Rightarrow> nat" where
  "class_base f s = (if f = 0 then nat (4 * s) else 2 ^ nat (f + 1) * nat (s + 32))"

definition class_top :: "int \<Rightarrow> int \<Rightarrow> nat" where
  "class_top f s = class_base f (s + 1)"

definition class_less :: "int \<times> int \<Rightarrow> int \<times> int \<Rightarrow> bool" where
  "class_less c d \<longleftrightarrow> fst c < fst d \<or> fst c = fst d \<and> snd c < snd d"

abbreviation (input) two31 :: nat where "two31 \<equiv> 2147483648"
abbreviation (input) two30 :: nat where "two30 \<equiv> 1073741824"

lemma unat_small:
  assumes "n < two31"
  shows "unat (word_of_nat n :: u64_t) = n" "unat (ucast (word_of_nat n :: u64_t) :: u32) = n"
  using assms by (simp_all add: unat_of_nat unsigned_ucast_eq take_bit_nat_eq_self)

lemma ms_bit_nat: "2 ^ k \<le> n \<Longrightarrow> n < 2 * 2 ^ k \<Longrightarrow> n < two31 \<Longrightarrow> ms_bit (ucast (word_of_nat n :: u64_t)) = int k"
  by (rule ms_bit_eq) (simp_all add: unat_small)

lemma word_less128: "n < two31 \<Longrightarrow> (word_of_nat n :: u64_t) < 128 \<longleftrightarrow> n < 128"
  by (simp add: word_less_nat_alt unat_small)

lemma cls_small: "n < 128 \<Longrightarrow> cls n = (0, int (n div 4))"
  by (simp add: cls_def MAPPING_INSERT_def word_less128 uint_nat unat_div unat_small)

lemma cls_big:
  assumes "2 ^ k \<le> n" "n < 2 * 2 ^ k" "7 \<le> k" "n < two31"
  shows "cls n = (int k - 6, int (n div 2 ^ (k - 5)) - 32)"
proof -
  have "(2 :: nat) ^ 7 \<le> 2 ^ k" using assms(3) by (rule power_increasing) simp
  then have "\<not> (word_of_nat n :: u64_t) < 128" using assms(1) by (simp add: word_less128 assms(4))
  then show ?thesis
    by (simp add: cls_def MAPPING_INSERT_def ms_bit_nat [OF assms(1,2,4)] Let_def uint_nat unat_shift unat_small assms(4))
qed

lemma high_bit_ex: "0 < n \<Longrightarrow> \<exists>k. 2 ^ k \<le> n \<and> n < 2 * 2 ^ k" for n :: nat
  using ex_power_ivl1 [of 2 n] by auto

lemma pow_split: "5 \<le> k \<Longrightarrow> (2 :: nat) ^ k = 32 * 2 ^ (k - 5)"
  by (elim less_eqE) (simp add: power_add)

lemma pow_bound: "2 ^ k \<le> n \<Longrightarrow> n < 2 ^ j \<Longrightarrow> k < j" for n :: nat
  by (metis le_less_trans power_less_imp_less_exp one_less_numeral_iff semiring_norm(76))

text \<open>What a class tells of the sizes in it.\<close>

lemma quot_bounds:
  fixes n :: nat
  assumes "2 ^ k \<le> n" "n < 2 * 2 ^ k" "5 \<le> k"
  shows "32 \<le> n div 2 ^ (k - 5)" "n div 2 ^ (k - 5) < 64"
  using assms(1,2) by (simp_all add: pow_split [OF assms(3)] less_eq_div_iff_mult_less_eq div_less_iff_less_mult)

lemma cls_cases:
  assumes "n < two30"
  obtains "n < 128" "cls n = (0, int (n div 4))"
  | k where "7 \<le> k" "k < 30" "2 ^ k \<le> n" "n < 2 * 2 ^ k" "cls n = (int k - 6, int (n div 2 ^ (k - 5)) - 32)"
proof (cases "n < 128")
  case True
  then show ?thesis using that(1) cls_small by blast
next
  case False
  then obtain k where k: "2 ^ k \<le> n" "n < 2 * 2 ^ k" using high_bit_ex [of n] by auto
  have "(2 :: nat) ^ 7 < 2 ^ Suc k" using k(2) False by simp
  then have "7 \<le> k" by (simp only: power_strict_increasing_iff one_less_numeral_iff semiring_norm)
  moreover have "k < 30" using pow_bound [OF k(1), of 30] assms by simp
  ultimately show ?thesis using that(2) k cls_big [OF k] assms by simp
qed

lemma class_base_big: "7 \<le> k \<Longrightarrow> class_base (int k - 6) (int m - 32) = 2 ^ (k - 5) * m"
proof -
  assume k: "7 \<le> k"
  then have "nat (int k - 6 + 1) = k - 5" by simp
  with k show ?thesis by (simp add: class_base_def)
qed

lemma cls_range:
  assumes "n < two30"
  shows "0 \<le> fst (cls n)" "fst (cls n) < 24" "0 \<le> snd (cls n)" "snd (cls n) < 32"
  using assms quot_bounds [of _ n] by (cases rule: cls_cases; force)+

lemma cls_bounds:
  assumes "n < two30"
  shows "class_base (fst (cls n)) (snd (cls n)) \<le> n \<and> n < class_top (fst (cls n)) (snd (cls n))"
  using assms
proof (cases rule: cls_cases)
  case 1
  obtain d where d: "d = n div 4" by blast
  have "4 * d \<le> n" "n < 4 * (d + 1)" unfolding d by presburger+
  then show ?thesis unfolding 1(2) d [symmetric] by (auto simp: class_base_def class_top_def)
next
  case (2 k)
  have "n < 2 ^ (k - 5) * (n div 2 ^ (k - 5) + 1)"
    using dividend_less_times_div [of "2 ^ (k - 5)" n] by simp
  moreover have "class_top (int k - 6) (int (n div 2 ^ (k - 5)) - 32) = 2 ^ (k - 5) * (n div 2 ^ (k - 5) + 1)"
    using class_base_big [OF 2(1), of "n div 2 ^ (k - 5) + 1"] by (simp add: class_top_def)
  ultimately show ?thesis using 2 by (simp add: class_base_big)
qed

lemma class_top_le:
  assumes "class_less (f, s) (f', s')" "0 \<le> f" "0 \<le> s" "s < 32" "0 \<le> s'"
  shows "class_top f s \<le> class_base f' s'"
proof (cases "f = f'")
  case True
  then show ?thesis using assms by (auto simp: class_less_def class_top_def class_base_def)
next
  case False
  then have less: "f < f'" using assms(1) by (simp add: class_less_def)
  have "class_top f s \<le> 2 ^ nat (f + 1) * 64"
    using assms(2-4) by (auto simp: class_top_def class_base_def)
  also have "2 ^ nat (f + 1) * 64 = 2 ^ nat (f + 2) * (32 :: nat)"
    using assms(2) by (simp add: nat_add_distrib)
  also have "\<dots> \<le> 2 ^ nat (f' + 1) * nat (s' + 32)"
    using less assms(2,5) by (intro mult_le_mono power_increasing) auto
  finally show ?thesis using less assms(2) by (simp add: class_base_def)
qed

lemma class_base_le:
  assumes "\<not> class_less (f', s') (f, s)" "0 \<le> f" "0 \<le> s" "s < 32" "0 \<le> s'"
  shows "class_base f s \<le> class_base f' s'"
proof (cases "(f, s) = (f', s')")
  case False
  then have "class_less (f, s) (f', s')" using assms(1) by (auto simp: class_less_def)
  moreover have "class_base f s \<le> class_top f s" using assms(2,3) by (auto simp: class_base_def class_top_def)
  ultimately show ?thesis using class_top_le assms by (meson le_trans)
qed simp

text \<open>Rounding for a search: the size is rounded up to the smallest of a class, by at most a 32nd.\<close>

lemma mapping_search_small:
  "n < 128 \<Longrightarrow> MAPPING_SEARCH (word_of_nat n) = (word_of_nat n, 0, int (n div 4))"
  by (simp add: MAPPING_SEARCH_def word_less128 uint_nat unat_div unat_small)

lemma mapping_search_big:
  assumes "2 ^ k \<le> n" "n < 2 * 2 ^ k" "7 \<le> k" "n < 536870912"
  defines "q \<equiv> 2 ^ (k - 5)"
  shows "MAPPING_SEARCH (word_of_nat n) = (word_of_nat (q * ((n + (q - 1)) div q)), fst (cls (n + (q - 1))), snd (cls (n + (q - 1))))"
    and "n + (q - 1) < two30" and "128 \<le> n"
proof -
  have q: "0 < q" "(2 :: nat) ^ k = 32 * q" using pow_split [of k] assms(3) by (simp_all add: q_def)
  show up: "n + (q - 1) < two30" using q assms(1,4) by linarith
  have "(2 :: nat) ^ 7 \<le> 2 ^ k" using assms(3) by (rule power_increasing) simp
  then show n: "128 \<le> n" using assms(1) by simp
  have t: "push_bit (k - 5) 1 - 1 = (word_of_nat (q - 1) :: u64_t)" using q(1) by (simp add: q_def of_nat_diff)
  have r: "(word_of_nat n + word_of_nat (q - 1) :: u64_t) = word_of_nat (n + (q - 1))" by simp
  have l: "\<not> (word_of_nat n :: u64_t) < 128" "\<not> (word_of_nat (n + (q - 1)) :: u64_t) < 128"
    using n up assms(4) word_less128 [of n] word_less128 [of "n + (q - 1)"] by auto
  have m: "ms_bit (ucast (word_of_nat n :: u64_t)) = int k" using assms(4) by (intro ms_bit_nat [OF assms(1,2)]) simp
  have a: "(word_of_nat (n + (q - 1)) :: u64_t) AND NOT (word_of_nat (q - 1)) = word_of_nat (q * ((n + (q - 1)) div q))"
    using and_not_low [of "n + (q - 1)" "k - 5"] by (simp only: t q_def)
  show "MAPPING_SEARCH (word_of_nat n) = (word_of_nat (q * ((n + (q - 1)) div q)), fst (cls (n + (q - 1))), snd (cls (n + (q - 1))))"
    unfolding MAPPING_SEARCH_def cls_def MAPPING_INSERT_def m nat_int t r Let_def if_not_P [OF l(1)] if_not_P [OF l(2)] a
    by simp
qed

lemma class_base_round:
  assumes "2 ^ k \<le> n" "n < 2 * 2 ^ k" "7 \<le> k" "n < 536870912"
  defines "q \<equiv> 2 ^ (k - 5)"
  shows "class_base (fst (cls (n + (q - 1)))) (snd (cls (n + (q - 1)))) = q * ((n + (q - 1)) div q)"
proof (cases "n + (q - 1) < 2 * 2 ^ k")
  case True
  have "n + (q - 1) < two31" using mapping_search_big(2) [OF assms(1-4)] by (simp add: q_def)
  then have "cls (n + (q - 1)) = (int k - 6, int ((n + (q - 1)) div q) - 32)"
    using cls_big [of k "n + (q - 1)"] trans_le_add1 [OF assms(1), of "q - 1"] assms(3) True unfolding q_def by blast
  then show ?thesis using assms(3) by (simp add: class_base_big q_def)
next
  case False
  let ?m = "n + (q - 1)"
  have q: "0 < q" "(2 :: nat) ^ k = 32 * q" using pow_split [of k] assms(3) by (simp_all add: q_def)
  have q2: "(2 :: nat) ^ (Suc k - 5) = 2 * q" using assms(3) unfolding q_def by (elim less_eqE) (simp add: power_add)
  have b: "64 * q \<le> ?m" "?m < 65 * q" using False q assms(2) by linarith+
  have m: "?m < two31" using mapping_search_big(2) [OF assms(1-4)] by (simp add: q_def)
  have d: "?m div (2 * q) = 32" using b q(1) by (intro div_nat_eqI) auto
  have d1: "?m div q = 64" using b q(1) by (intro div_nat_eqI) auto
  have "cls ?m = (int (Suc k) - 6, int (?m div 2 ^ (Suc k - 5)) - 32)"
    using b q assms(3) by (intro cls_big m) (simp_all add: q(2))
  then have "class_base (fst (cls ?m)) (snd (cls ?m)) = 2 ^ (Suc k - 5) * (?m div 2 ^ (Suc k - 5))"
    using class_base_big [of "Suc k" "?m div 2 ^ (Suc k - 5)"] assms(3) by simp
  then show ?thesis unfolding q2 d d1 by simp
qed

text \<open>A search for \<open>n\<close> bytes starts at the class of the rounded size \<open>m\<close>.\<close>

lemma mapping_search_spec:
  assumes "0 < n" "n < 536870912" "16 dvd n"
  obtains m f s where "MAPPING_SEARCH (word_of_nat n) = (word_of_nat m, f, s)" "n \<le> m" "m \<le> n + n div 32" "16 dvd m"
    "m < two30" "class_base f s = m" "0 \<le> f" "f < 24" "0 \<le> s" "s < 32"
proof (cases "n < 128")
  case True
  obtain d where d: "n = 16 * d" using assms(3) by blast
  then show ?thesis using True mapping_search_small [OF True] that [of n 0 "int (n div 4)"] assms(2)
    by (simp add: class_base_def)
next
  case False
  have "n < two30" using assms(2) by simp
  with False obtain k where k: "2 ^ k \<le> n" "n < 2 * 2 ^ k" "7 \<le> k" by (elim cls_cases) auto
  define q :: nat where "q = 2 ^ (k - 5)"
  let ?m = "q * ((n + (q - 1)) div q)"
  have q: "0 < q" "(2 :: nat) ^ k = 32 * q" using pow_split [of k] k(3) by (simp_all add: q_def)
  note s = mapping_search_big [OF k assms(2), folded q_def] and b = class_base_round [OF k assms(2), folded q_def]
  note r = round_up_quot [OF q(1), of n]
  have "q \<le> n div 32" using k(1) q by (simp add: less_eq_div_iff_mult_less_eq)
  then have "?m \<le> n + n div 32" using r(2) by linarith
  moreover have "16 dvd ?m"
  proof (cases "9 \<le> k")
    case True
    then have "(2 :: nat) ^ 4 dvd q" unfolding q_def by (intro le_imp_power_dvd) simp
    then show ?thesis by simp
  next
    case False
    then have "k - 5 \<le> 4" by simp
    then have "q dvd 2 ^ 4" unfolding q_def by (rule le_imp_power_dvd)
    then have "q dvd n" using assms(3) by (metis dvd_trans power_numeral Num.pow.simps Num.sqr.simps)
    then have "(n + (q - 1)) div q = n div q" using q(1) by (elim dvdE) (intro div_nat_eqI, auto)
    then show ?thesis using \<open>q dvd n\<close> assms(3) by simp
  qed
  moreover have "?m < two30" using r(2) s(2) by (rule le_less_trans)
  ultimately show ?thesis using that [OF s(1) r(1)] b cls_range [OF s(2)] by blast
qed

end
