(* ===== verification/Tlsf_Lists.thy ===== *)
theory Tlsf_Lists
  imports Tlsf_Bits
begin

text \<open>
  The free lists of the allocator: doubly linked lists that end in \<^verbatim>\<open>NULL\<close>, one for each size
  class, and the two levels of bitmaps that tell which lists are not empty. Insertion and extraction refine
  insertion and removal in lists, and the search finds the first block of the smallest class that has one.
\<close>

section \<open>Doubly linked lists\<close>

text \<open>The pointers lead from the block \<open>p\<close> with successor \<open>q\<close> through \<open>xs\<close> to the block \<open>l\<close> with successor \<open>r\<close>.\<close>

fun seg :: "(nat \<Rightarrow> nat) \<Rightarrow> (nat \<Rightarrow> nat) \<Rightarrow> nat \<Rightarrow> nat \<Rightarrow> nat list \<Rightarrow> nat \<Rightarrow> nat \<Rightarrow> bool" where
  "seg pv nx p q [] l r \<longleftrightarrow> p = l \<and> q = r"
| "seg pv nx p q (x # xs) l r \<longleftrightarrow> q = x \<and> x \<noteq> 0 \<and> pv x = p \<and> seg pv nx x (nx x) xs l r"

lemma seg_append: "seg pv nx p q (xs @ ys) l r \<longleftrightarrow> (\<exists>a b. seg pv nx p q xs a b \<and> seg pv nx a b ys l r)"
  by (induction xs arbitrary: p q) auto

lemma seg_cong:
  "(\<And>x. x \<in> set xs \<Longrightarrow> pv x = pv' x \<and> nx x = nx' x) \<Longrightarrow> seg pv nx p q xs l r = seg pv' nx' p q xs l r"
  by (induction xs arbitrary: p q) auto

lemma seg_upd [simp]:
  "y \<notin> set xs \<Longrightarrow> seg (pv(y := v)) nx p q xs l r = seg pv nx p q xs l r"
  "y \<notin> set xs \<Longrightarrow> seg pv (nx(y := v)) p q xs l r = seg pv nx p q xs l r"
  by (rule seg_cong; auto)+

lemma seg_nonzero: "seg pv nx p q xs l r \<Longrightarrow> 0 \<notin> set xs"
  by (induction xs arbitrary: p q) auto

lemma seg_last: "seg pv nx p q xs l r \<Longrightarrow> l = (if xs = [] then p else last xs)"
  by (induction xs arbitrary: p q) auto

text \<open>A new successor for the last block.\<close>

lemma seg_redirect:
  "seg pv nx p q xs l r \<Longrightarrow> distinct xs \<Longrightarrow> xs \<noteq> [] \<Longrightarrow> seg pv (nx(l := v)) p q xs l v"
proof (induction xs arbitrary: p q)
  case (Cons x xs)
  show ?case
  proof (cases "xs = []")
    case False
    then have "l \<in> set xs" using Cons.prems(1) seg_last by fastforce
    then have "x \<noteq> l" using Cons.prems(2) by auto
    then show ?thesis using Cons False by auto
  qed (use Cons.prems in auto)
qed simp

section \<open>The lists and bitmaps of a pool\<close>

definition flist :: "tlsf_t \<Rightarrow> int \<Rightarrow> int \<Rightarrow> nat list \<Rightarrow> bool" where
  "flist t f s xs \<longleftrightarrow> (\<exists>l. seg (fprev t) (fnext t) 0 (matrix t f s) xs l 0) \<and> distinct xs"

definition in_class :: "int \<Rightarrow> int \<Rightarrow> bool" where
  "in_class f s \<longleftrightarrow> 0 \<le> f \<and> f < 24 \<and> 0 \<le> s \<and> s < 32"

definition maps_ok :: "tlsf_t \<Rightarrow> (int \<Rightarrow> int \<Rightarrow> nat list) \<Rightarrow> bool" where
  "maps_ok t L \<longleftrightarrow>
     (\<forall>f s. in_class f s \<longrightarrow> bit (sl_bitmap t f) (nat s) = (L f s \<noteq> [])) \<and>
     (\<forall>f. 0 \<le> f \<and> f < 24 \<longrightarrow> bit (fl_bitmap t) (nat f) = (sl_bitmap t f \<noteq> 0)) \<and>
     (\<forall>i\<ge>24. \<not> bit (fl_bitmap t) i)"

definition lists_ok :: "tlsf_t \<Rightarrow> (int \<Rightarrow> int \<Rightarrow> nat list) \<Rightarrow> bool" where
  "lists_ok t L \<longleftrightarrow>
     (\<forall>f s. in_class f s \<longrightarrow> flist t f s (L f s)) \<and>
     (\<forall>f s f' s' x. in_class f s \<longrightarrow> in_class f' s' \<longrightarrow> x \<in> set (L f s) \<longrightarrow> x \<in> set (L f' s') \<longrightarrow> f = f' \<and> s = s')"

definition upd_list :: "int \<Rightarrow> int \<Rightarrow> nat list \<Rightarrow> (int \<Rightarrow> int \<Rightarrow> nat list) \<Rightarrow> int \<Rightarrow> int \<Rightarrow> nat list" where
  "upd_list f s xs L = L(f := (L f)(s := xs))"

lemma upd_list_apply [simp]: "upd_list f s xs L f' s' = (if f' = f \<and> s' = s then xs else L f' s')"
  by (simp add: upd_list_def)

lemma tlsf_bits:
  "tlsf_set_bit nr w = set_bit (nat nr) w" "tlsf_clear_bit nr w = unset_bit (nat nr) w"
  if "0 \<le> nr" "nr < 32"
  using that by (simp_all add: tlsf_set_bit_def tlsf_clear_bit_def set_bit_eq_or unset_bit_eq_and_not mod_pos_pos_trivial)

lemma lists_okD:
  "lists_ok t L \<Longrightarrow> in_class f s \<Longrightarrow> flist t f s (L f s)"
  "lists_ok t L \<Longrightarrow> in_class f s \<Longrightarrow> in_class f' s' \<Longrightarrow> x \<in> set (L f s) \<Longrightarrow> x \<in> set (L f' s') \<Longrightarrow> f = f' \<and> s = s'"
  by (auto simp: lists_ok_def)

lemma lists_ok_upd:
  assumes "lists_ok t L" "in_class f s" "flist t' f s xs"
    "\<And>f' s'. in_class f' s' \<Longrightarrow> (f', s') \<noteq> (f, s) \<Longrightarrow> flist t' f' s' (L f' s')"
    "\<And>x. x \<in> set xs \<Longrightarrow> x \<in> set (L f s) \<or> (\<forall>f' s'. in_class f' s' \<longrightarrow> x \<notin> set (L f' s'))"
  shows "lists_ok t' (upd_list f s xs L)"
proof -
  have "(f', s') = (f, s)" if "x \<in> set xs" "in_class f' s'" "x \<in> set (L f' s')" for x f' s'
    using assms(5) [OF that(1)] that lists_okD(2) [OF assms(1,2)] by blast
  then show ?thesis using assms(3,4) lists_okD(2) [OF assms(1)] unfolding lists_ok_def by (simp (no_asm)) blast
qed

section \<open>Insertion\<close>

lemma insert_lists:
  assumes "lists_ok t L" "in_class f s" "b \<noteq> 0" "\<And>f s. in_class f s \<Longrightarrow> b \<notin> set (L f s)"
  shows "lists_ok (INSERT_BLOCK b f s t) (upd_list f s (b # L f s) L)"
proof -
  let ?h = "matrix t f s" and ?t = "INSERT_BLOCK b f s t"
  have m: "matrix ?t = (matrix t)(f := (matrix t f)(s := b))" "fnext ?t = (fnext t)(b := ?h)"
    "fprev ?t = (if ?h \<noteq> 0 then (fprev t)(b := 0, ?h := b) else (fprev t)(b := 0))"
    by (auto simp: INSERT_BLOCK_def Let_def set_free_ptr_def set_matrix_def)
  obtain l where l: "seg (fprev t) (fnext t) 0 ?h (L f s) l 0" "distinct (L f s)"
    using lists_okD(1) [OF assms(1,2)] by (auto simp: flist_def)
  have h: "?h \<in> set (L f s)" "L f s = ?h # tl (L f s)" if "?h \<noteq> 0" using l(1) that by (cases "L f s"; auto)+
  have b: "?h \<noteq> b" using h(1) assms(3) assms(4) [OF assms(2)] by metis
  have "flist ?t f s (b # L f s)"
  proof (cases "?h = 0")
    case True
    then have "L f s = []" using l(1) seg_nonzero by (cases "L f s") auto
    then show ?thesis using True assms(3) by (auto simp: flist_def m)
  next
    case False
    obtain ys where ys: "L f s = ?h # ys" using h(2) [OF False] by metis
    have "b \<notin> set ys" "?h \<notin> set ys" using ys l(2) assms(4) [OF assms(2)] by auto
    moreover have "seg (fprev t) (fnext t) ?h (fnext t ?h) ys l 0" using l(1) by (simp add: ys)
    ultimately have "seg (fprev ?t) (fnext ?t) 0 b (b # L f s) l 0" using False b assms(3) by (simp add: m ys)
    then show ?thesis using l(2) assms(2,4) by (auto simp: flist_def m)
  qed
  moreover have "flist ?t f' s' (L f' s')" if "in_class f' s'" "(f', s') \<noteq> (f, s)" for f' s'
  proof -
    have "?h \<notin> set (L f' s')" if "?h \<noteq> 0"
      using h(1) [OF that] lists_okD(2) [OF assms(1,2)] \<open>in_class f' s'\<close> \<open>(f', s') \<noteq> (f, s)\<close> by blast
    moreover have "b \<notin> set (L f' s')" using assms(4) that(1) by blast
    moreover have "matrix ?t f' s' = matrix t f' s'" using that(2) by (auto simp: m)
    ultimately show ?thesis using lists_okD(1) [OF assms(1) that(1)] by (auto simp: flist_def m)
  qed
  ultimately show ?thesis using assms(4) by (intro lists_ok_upd [OF assms(1,2)]) auto
qed

lemma insert_maps:
  assumes "maps_ok t L" "in_class f s"
  shows "maps_ok (INSERT_BLOCK b f s t) (upd_list f s (b # xs) L)"
proof -
  let ?t = "INSERT_BLOCK b f s t"
  have m: "sl_bitmap ?t = (sl_bitmap t)(f := set_bit (nat s) (sl_bitmap t f))" "fl_bitmap ?t = set_bit (nat f) (fl_bitmap t)"
    using assms(2) by (auto simp: INSERT_BLOCK_def Let_def set_free_ptr_def set_matrix_def tlsf_bits in_class_def)
  have "bit (set_bit (nat s) (sl_bitmap t f)) (nat s)" using assms(2) by (auto simp: bit_set_bit_iff in_class_def)
  then have "set_bit (nat s) (sl_bitmap t f) \<noteq> 0" by auto
  then show ?thesis using assms unfolding maps_ok_def in_class_def
    by (auto simp: m bit_set_bit_iff nat_eq_iff)
qed

section \<open>Extraction\<close>

lemma extract_hdr_eq:
  assumes "matrix t f s = b" "fprev t b = 0" "fnext t b \<noteq> b"
  shows "EXTRACT_BLOCK_HDR b f s t = EXTRACT_BLOCK b f s t"
  using assms by (cases t) (simp add: EXTRACT_BLOCK_HDR_def EXTRACT_BLOCK_def Let_def set_matrix_def)

lemma extract_lists:
  assumes "lists_ok t L" "in_class f s" "L f s = ys @ b # zs"
  shows "lists_ok (EXTRACT_BLOCK b f s t) (upd_list f s (ys @ zs) L)"
proof -
  let ?n = "fnext t b" and ?p = "fprev t b" and ?h = "matrix t f s" and ?t = "EXTRACT_BLOCK b f s t"
  obtain l where l: "seg (fprev t) (fnext t) 0 ?h ys ?p b" "seg (fprev t) (fnext t) b ?n zs l 0" "b \<noteq> 0"
      "distinct (ys @ b # zs)"
    using lists_okD(1) [OF assms(1,2)] by (auto simp: flist_def assms(3) seg_append)
  have p: "?p = (if ys = [] then 0 else last ys)" using seg_last [OF l(1)] by simp
  have n: "?n = (if zs = [] then 0 else hd zs)" using l(2) by (cases zs) auto
  have h: "?h = b \<longleftrightarrow> ys = []" using l(1,4) by (cases ys) auto
  have ne: "?n \<noteq> b" "?p \<noteq> b" using l(3,4) p n by (auto dest: last_in_set hd_in_set split: if_splits)
  have m: "fprev ?t = (if ?n \<noteq> 0 then (fprev t)(?n := ?p) else fprev t)(b := 0)"
    "fnext ?t = (if ?p \<noteq> 0 then (fnext t)(?p := ?n) else fnext t)(b := 0)"
    "matrix ?t = (if ?h = b then (matrix t)(f := (matrix t f)(s := ?n)) else matrix t)"
    using ne ne [symmetric] by (auto simp: EXTRACT_BLOCK_def Let_def set_free_ptr_def set_matrix_def clear_class_def fun_upd_same)
  have sub: "?n \<noteq> 0 \<Longrightarrow> ?n \<in> set zs" "?p \<noteq> 0 \<Longrightarrow> ?p \<in> set ys"
    using p n by (auto split: if_splits)
  have "seg (fprev ?t) (fnext ?t) 0 (matrix ?t f s) ys ?p ?n"
  proof (cases "ys = []")
    case True
    then show ?thesis using h l(1) by (simp add: m p)
  next
    case False
    then have "?p \<noteq> 0" using p l(1) seg_nonzero by (metis last_in_set)
    moreover have "?n \<noteq> 0 \<Longrightarrow> ?n \<notin> set ys" using sub(1) l(4) by auto
    moreover have "b \<notin> set ys" using l(4) by simp
    ultimately show ?thesis using seg_redirect [OF l(1) _ False, of ?n] l(4) False h by (cases "?n = 0") (simp_all add: m)
  qed
  moreover have "\<exists>l. seg (fprev ?t) (fnext ?t) ?p ?n zs l 0"
  proof (cases zs)
    case Nil
    then show ?thesis using l(2) by auto
  next
    case (Cons z zs')
    have z: "?n = z" "z \<noteq> 0" "seg (fprev t) (fnext t) z (fnext t z) zs' l 0" using l(2) Cons by auto
    have "?p \<noteq> 0 \<Longrightarrow> ?p \<notin> set zs" using sub(2) l(4) by auto
    moreover have "b \<notin> set zs" "z \<notin> set zs'" using l(4) Cons by auto
    ultimately have "seg (fprev ?t) (fnext ?t) ?p ?n zs l 0" using z Cons by (auto simp: m)
    then show ?thesis ..
  qed
  ultimately have "flist ?t f s (ys @ zs)" using l(4) by (auto simp: flist_def seg_append)
  moreover have "flist ?t f' s' (L f' s')" if c: "in_class f' s'" "(f', s') \<noteq> (f, s)" for f' s'
  proof -
    have "x \<notin> set (L f' s')" if "x \<in> set (L f s)" for x
      using lists_okD(2) [OF assms(1,2) c(1) that] c(2) by blast
    then have "b \<notin> set (L f' s')" "?n \<noteq> 0 \<Longrightarrow> ?n \<notin> set (L f' s')" "?p \<noteq> 0 \<Longrightarrow> ?p \<notin> set (L f' s')"
      using sub by (auto simp: assms(3))
    moreover have "matrix ?t f' s' = matrix t f' s'" using c(2) by (auto simp: m)
    ultimately show ?thesis using lists_okD(1) [OF assms(1) c(1)] by (auto simp: flist_def m)
  qed
  moreover have "set (ys @ zs) \<subseteq> set (L f s)" by (auto simp: assms(3))
  ultimately show ?thesis by (intro lists_ok_upd [OF assms(1,2)]) auto
qed

lemma bit_unset_zero:
  fixes w :: u32
  shows "unset_bit n w = 0 \<longleftrightarrow> (\<forall>i. bit w i \<longrightarrow> i = n)"
proof
  assume "unset_bit n w = 0"
  then show "\<forall>i. bit w i \<longrightarrow> i = n" using bit_unset_bit_iff [of n w] by fastforce
next
  assume "\<forall>i. bit w i \<longrightarrow> i = n"
  then show "unset_bit n w = 0" by (intro bit_eqI) (auto simp: bit_unset_bit_iff)
qed

lemma extract_maps:
  assumes "maps_ok t L" "lists_ok t L" "in_class f s" "L f s = ys @ b # zs"
  shows "maps_ok (EXTRACT_BLOCK b f s t) (upd_list f s (ys @ zs) L)"
proof -
  let ?t = "EXTRACT_BLOCK b f s t" and ?u = "unset_bit (nat s) (sl_bitmap t f)"
  obtain l where l: "seg (fprev t) (fnext t) 0 (matrix t f s) ys (fprev t b) b" "seg (fprev t) (fnext t) b (fnext t b) zs l 0"
      "distinct (ys @ b # zs)" "b \<noteq> 0"
    using lists_okD(1) [OF assms(2,3)] by (auto simp: flist_def assms(4) seg_append)
  have h: "matrix t f s = b \<longleftrightarrow> ys = []" using l by (cases ys) auto
  have z: "fnext t b = 0 \<longleftrightarrow> zs = []" using l by (cases zs) auto
  have p: "fprev t b \<noteq> b" using seg_last [OF l(1)] l(3,4) by (auto dest: last_in_set)
  have e: "ys @ zs = [] \<longleftrightarrow> matrix t f s = b \<and> fnext t b = 0" using h z by simp
  have m: "sl_bitmap ?t = (if ys @ zs = [] then (sl_bitmap t)(f := ?u) else sl_bitmap t)"
    "fl_bitmap ?t = (if ys @ zs = [] \<and> ?u = 0 then unset_bit (nat f) (fl_bitmap t) else fl_bitmap t)"
    unfolding e using assms(3) p
    by (auto simp: EXTRACT_BLOCK_def Let_def set_free_ptr_def set_matrix_def clear_class_def tlsf_bits in_class_def)
  have u: "?u \<noteq> 0 \<Longrightarrow> sl_bitmap t f \<noteq> 0" by (auto simp: bit_unset_zero)
  have "L f s' = []" if "?u = 0" "in_class f s'" "s' \<noteq> s" for s'
  proof -
    have "nat s' \<noteq> nat s" using that(2,3) assms(3) by (auto simp: in_class_def)
    then have "\<not> bit (sl_bitmap t f) (nat s')" using that(1) by (auto simp: bit_unset_zero)
    then show ?thesis using assms(1) that(2) by (auto simp: maps_ok_def)
  qed
  then show ?thesis using assms(1,3,4) u unfolding maps_ok_def in_class_def
    by (auto simp: m bit_unset_bit_iff nat_eq_iff)
qed

section \<open>Searching\<close>

declare push_bit_minus_one_eq_not_mask [simp del]

lemma bit_from: "bit (w AND push_bit n (- 1) :: u32) i \<longleftrightarrow> n \<le> i \<and> bit w i"
  by (auto simp: bit_simps dest: bit_imp_le_length)

text \<open>The search returns the head of a class not below the one asked for; when it fails all such classes are
  empty.\<close>

lemma head_of_class:
  assumes "lists_ok t L" "in_class f s" "L f s \<noteq> []"
  obtains b xs where "L f s = b # xs" "matrix t f s = b" "fprev t b = 0" "fnext t b \<noteq> b" "b \<noteq> 0"
proof -
  obtain b xs where L: "L f s = b # xs" using assms(3) by (cases "L f s") auto
  then have s: "\<exists>l. seg (fprev t) (fnext t) b (fnext t b) xs l 0" "b \<noteq> 0" "fprev t b = 0" "matrix t f s = b" "b \<notin> set xs"
    using lists_okD(1) [OF assms(1,2)] by (auto simp: flist_def)
  then have "fnext t b \<noteq> b" by (cases xs) auto
  with s L that show ?thesis by blast
qed

lemma find_block:
  assumes "lists_ok t L" "maps_ok t L" "in_class f s"
  obtains (none) f' where "FIND_SUITABLE_BLOCK t f s = (0, f', s)"
      "\<And>f' s'. in_class f' s' \<Longrightarrow> \<not> class_less (f', s') (f, s) \<Longrightarrow> L f' s' = []"
  | (found) f' s' where "FIND_SUITABLE_BLOCK t f s = (matrix t f' s', f', s')" "in_class f' s'"
      "\<not> class_less (f', s') (f, s)" "L f' s' \<noteq> []"
proof -
  let ?w = "sl_bitmap t f AND push_bit (nat s) (- 1)" and ?v = "fl_bitmap t AND push_bit (nat (f + 1)) (- 1)"
  note sl = assms(2) [unfolded maps_ok_def, THEN conjunct1, rule_format]
    and fl = assms(2) [unfolded maps_ok_def, THEN conjunct2, THEN conjunct1, rule_format]
    and hi = assms(2) [unfolded maps_ok_def, THEN conjunct2, THEN conjunct2, rule_format]
  have c: "0 \<le> f" "f < 24" "0 \<le> s" "s < 32" using assms(3) by (auto simp: in_class_def)
  consider "?w \<noteq> 0" | "?w = 0" "?v \<noteq> 0" | "?w = 0" "?v = 0" by blast
  then show thesis
  proof cases
    case 1
    then obtain k where k: "ls_bit ?w = int k" "k < 32" "nat s \<le> k" "bit (sl_bitmap t f) k"
      using ls_bit_spec [OF 1] by (auto simp: bit_from)
    have "in_class f (int k)" using k(2) c by (simp add: in_class_def)
    then show thesis using 1 k c sl [of f "int k"] found [of f "int k"]
      by (auto simp: FIND_SUITABLE_BLOCK_def Let_def class_less_def)
  next
    case 2
    then obtain k where k: "ls_bit ?v = int k" "nat (f + 1) \<le> k" "bit (fl_bitmap t) k"
      using ls_bit_spec [OF 2(2)] by (auto simp: bit_from)
    have k24: "k < 24" using hi [of k] k(3) by (meson not_le)
    have z: "sl_bitmap t (int k) \<noteq> 0" using fl [of "int k"] k(3) k24 by simp
    then obtain j where j: "ls_bit (sl_bitmap t (int k)) = int j" "j < 32" "bit (sl_bitmap t (int k)) j"
      using ls_bit_spec [OF z] by auto
    have "in_class (int k) (int j)" using k24 j(2) by (simp add: in_class_def)
    moreover have "0 < k" "f < int k" using k(2) c(1) by auto
    ultimately show thesis using 2 k(1) j sl [of "int k" "int j"] found [of "int k" "int j"]
      by (auto simp: FIND_SUITABLE_BLOCK_def Let_def class_less_def)
  next
    case 3
    have "FIND_SUITABLE_BLOCK t f s = (0, -1, s)" using 3 by (simp add: FIND_SUITABLE_BLOCK_def ls_bit_zero)
    moreover have "L f' s' = []" if "in_class f' s'" "\<not> class_less (f', s') (f, s)" for f' s'
    proof (cases "f' = f")
      case True
      then have "nat s \<le> nat s'" using that(2) by (auto simp: class_less_def)
      then have "\<not> bit (sl_bitmap t f) (nat s')" using 3(1) bit_from [of "sl_bitmap t f" "nat s" "nat s'"] by simp
      then show ?thesis using sl [OF that(1)] True by simp
    next
      case False
      then have f': "nat (f + 1) \<le> nat f'" "0 \<le> f'" "f' < 24" using that by (auto simp: class_less_def in_class_def)
      then have "\<not> bit (fl_bitmap t) (nat f')" using 3(2) bit_from [of "fl_bitmap t" "nat (f + 1)" "nat f'"] by simp
      then have "sl_bitmap t f' = 0" using fl [of f'] f' by simp
      then show ?thesis using sl [OF that(1)] by simp
    qed
    ultimately show thesis by (rule none)
  qed
qed

end
