(* ===== verification/Tlsf_Blocks.thy ===== *)
theory Tlsf_Blocks
  imports Tlsf_Lists
begin

text \<open>
  The blocks of a pool lie one behind the other, each with a header in front; the list \<open>bs\<close> of their
  sizes and states is what a pool holds. The invariant \<open>tlsf_wf\<close> ties headers, free lists and bitmaps to
  that list. \<^verbatim>\<open>malloc_ex\<close> and \<^verbatim>\<open>free_ex\<close> keep it and split and merge the blocks of the list; what is
  allocated never overlaps.
\<close>

section \<open>Blocks in memory\<close>

fun past :: "nat \<Rightarrow> (nat \<times> bool) list \<Rightarrow> nat" where
  "past a [] = a"
| "past a ((n, f) # bs) = past (a + 16 + n) bs"

fun lastadr :: "nat \<Rightarrow> nat \<Rightarrow> (nat \<times> bool) list \<Rightarrow> nat" where
  "lastadr p a [] = p"
| "lastadr p a ((n, f) # bs) = lastadr a (a + 16 + n) bs"

fun lastfree :: "bool \<Rightarrow> (nat \<times> bool) list \<Rightarrow> bool" where
  "lastfree pf [] = pf"
| "lastfree pf ((n, f) # bs) = lastfree f bs"

text \<open>The blocks of state \<open>g\<close>, with their addresses.\<close>

fun part :: "bool \<Rightarrow> nat \<Rightarrow> (nat \<times> bool) list \<Rightarrow> (nat \<times> nat) set" where
  "part g a [] = {}"
| "part g a ((n, f) # bs) = (if f = g then {(a, n)} else {}) \<union> part g (a + 16 + n) bs"

text \<open>No two free blocks lie together.\<close>

fun nadj :: "bool \<Rightarrow> (nat \<times> bool) list \<Rightarrow> bool" where
  "nadj pf [] \<longleftrightarrow> True"
| "nadj pf ((n, f) # bs) \<longleftrightarrow> \<not> (pf \<and> f) \<and> nadj f bs"

text \<open>The headers in memory describe the blocks.\<close>

fun phys :: "tlsf_t \<Rightarrow> nat \<Rightarrow> nat \<Rightarrow> bool \<Rightarrow> (nat \<times> bool) list \<Rightarrow> bool" where
  "phys t p a pf [] \<longleftrightarrow> True"
| "phys t p a pf ((n, f) # bs) \<longleftrightarrow>
     bsize t a = hdr n f pf \<and> (pf \<longrightarrow> prev_hdr t a = p) \<and> phys t a (a + 16 + n) f bs"

lemma past_append [simp]: "past a (xs @ ys) = past (past a xs) ys"
  by (induction a xs rule: past.induct) auto

lemma lastadr_append [simp]: "lastadr p a (xs @ ys) = lastadr (lastadr p a xs) (past a xs) ys"
  by (induction p a xs rule: lastadr.induct) auto

lemma lastfree_append [simp]: "lastfree pf (xs @ ys) = lastfree (lastfree pf xs) ys"
  by (induction pf xs rule: lastfree.induct) auto

lemma part_append [simp]: "part g a (xs @ ys) = part g a xs \<union> part g (past a xs) ys"
  by (induction g a xs rule: part.induct) auto

lemma nadj_append [simp]: "nadj pf (xs @ ys) \<longleftrightarrow> nadj pf xs \<and> nadj (lastfree pf xs) ys"
  by (induction pf xs rule: nadj.induct) auto

lemma phys_append [simp]:
  "phys t p a pf (xs @ ys) \<longleftrightarrow> phys t p a pf xs \<and> phys t (lastadr p a xs) (past a xs) (lastfree pf xs) ys"
  by (induction t p a pf xs rule: phys.induct) auto

lemma past_le: "a \<le> past a bs"
  by (induction a bs rule: past.induct) (auto intro: le_trans)

lemma past_shift: "past (a + k) bs = past a bs + k"
  by (induction a bs rule: past.induct) (auto simp: ac_simps)

lemma part_bounds: "(x, n) \<in> part g a bs \<Longrightarrow> a \<le> x \<and> x + 16 + n \<le> past a bs"
  by (induction a bs rule: past.induct) (auto split: if_splits intro: past_le)

lemma part_disjoint:
  "(x, n) \<in> part g a bs \<Longrightarrow> (y, m) \<in> part h a bs \<Longrightarrow> (x, n, g) \<noteq> (y, m, h) \<Longrightarrow> x + 16 + n \<le> y \<or> y + 16 + m \<le> x"
  by (induction a bs rule: past.induct) (auto split: if_splits dest: part_bounds)

lemma part_unique: "(x, n) \<in> part g a bs \<Longrightarrow> (x, m) \<in> part g a bs \<Longrightarrow> n = m"
  using part_disjoint [of x n g a bs x m g] by auto

lemma part_split: "(x, n) \<in> part g a bs \<Longrightarrow> \<exists>xs ys. bs = xs @ (n, g) # ys \<and> past a xs = x"
proof (induction a bs rule: past.induct)
  case (2 a m f bs)
  show ?case
  proof (cases "(x, n) = (a, m) \<and> f = g")
    case True
    then show ?thesis by (intro exI [of _ "[]"] exI [of _ bs]) auto
  next
    case False
    then have "(x, n) \<in> part g (a + 16 + m) bs" using "2.prems" by (auto split: if_splits)
    then obtain xs ys where "bs = xs @ (n, g) # ys" "past (a + 16 + m) xs = x" using "2.IH" by blast
    then show ?thesis by (intro exI [of _ "(m, f) # xs"] exI [of _ ys]) auto
  qed
qed simp

lemma phys_cong:
  "(\<And>x. a \<le> x \<Longrightarrow> x < past a bs \<Longrightarrow> bsize t x = bsize t' x \<and> prev_hdr t x = prev_hdr t' x) \<Longrightarrow>
   phys t p a pf bs = phys t' p a pf bs"
proof (induction t p a pf bs rule: phys.induct)
  case (2 t p a pf n f bs)
  have "a < past a ((n, f) # bs)" using past_le [of "a + 16 + n" bs] by simp
  then show ?case using 2 by auto
qed simp

lemma phys_upd [simp]:
  assumes "x < a \<or> past a bs \<le> x"
  shows "phys (set_size x w t) p a pf bs = phys t p a pf bs"
    "phys (set_prev_hdr x q t) p a pf bs = phys t p a pf bs"
  by (rule phys_cong; use assms in \<open>auto simp: set_size_def set_prev_hdr_def\<close>)+

section \<open>Frames\<close>

lemma frame_hdr [simp]:
  "bsize (INSERT_BLOCK b f s t) = bsize t" "prev_hdr (INSERT_BLOCK b f s t) = prev_hdr t"
  "bsize (EXTRACT_BLOCK b f s t) = bsize t" "prev_hdr (EXTRACT_BLOCK b f s t) = prev_hdr t"
  "bsize (TLSF_ADD_SIZE b t) = bsize t" "prev_hdr (TLSF_ADD_SIZE b t) = prev_hdr t"
  "bsize (TLSF_REMOVE_SIZE b t) = bsize t" "prev_hdr (TLSF_REMOVE_SIZE b t) = prev_hdr t"
  "bsize (set_prev_hdr x q t) = bsize t" "prev_hdr (set_size x w t) = prev_hdr t"
  "bsize (set_free_ptr b p q t) = bsize t" "prev_hdr (set_free_ptr b p q t) = prev_hdr t"
  "bsize (set_size x w t) = (bsize t)(x := w)" "prev_hdr (set_prev_hdr x q t) = (prev_hdr t)(x := q)"
  by (simp_all add: INSERT_BLOCK_def EXTRACT_BLOCK_def TLSF_ADD_SIZE_def TLSF_REMOVE_SIZE_def set_size_def set_prev_hdr_def
      set_free_ptr_def set_matrix_def clear_class_def Let_def)

lemma phys_frame [simp]:
  "phys (INSERT_BLOCK b f s t) = phys t" "phys (EXTRACT_BLOCK b f s t) = phys t"
  "phys (TLSF_ADD_SIZE b t) = phys t" "phys (TLSF_REMOVE_SIZE b t) = phys t" "phys (set_free_ptr b q r t) = phys t"
  by (intro ext phys_cong; simp)+

text \<open>The free lists hold exactly the blocks of \<open>F\<close>, each in the list of its class.\<close>

definition fok :: "tlsf_t \<Rightarrow> (nat \<times> nat) set \<Rightarrow> bool" where
  "fok t F \<longleftrightarrow> (\<exists>L. lists_ok t L \<and> maps_ok t L \<and>
     (\<forall>f s x. in_class f s \<longrightarrow> (x \<in> set (L f s) \<longleftrightarrow> (\<exists>n. (x, n) \<in> F \<and> cls n = (f, s)))))"

lemma fok_frame [simp]:
  "fok (set_size x w t) F = fok t F" "fok (set_prev_hdr x q t) F = fok t F"
  "fok (TLSF_ADD_SIZE b t) F = fok t F" "fok (TLSF_REMOVE_SIZE b t) F = fok t F"
  by (simp_all add: fok_def lists_ok_def maps_ok_def flist_def set_size_def set_prev_hdr_def TLSF_ADD_SIZE_def
      TLSF_REMOVE_SIZE_def Let_def)

lemma in_class_cls: "n < two30 \<Longrightarrow> in_class (fst (cls n)) (snd (cls n))"
  using cls_range [of n] by (simp add: in_class_def)

definition func :: "(nat \<times> nat) set \<Rightarrow> bool" where
  "func F \<longleftrightarrow> (\<forall>x n m. (x, n) \<in> F \<longrightarrow> (x, m) \<in> F \<longrightarrow> n = m) \<and> (\<forall>x n. (x, n) \<in> F \<longrightarrow> n < two30)"

lemma fok_insert:
  assumes "fok t F" "b \<noteq> 0" "\<And>n. (b, n) \<notin> F" "n < two30" "cls n = (f, s)"
  shows "fok (INSERT_BLOCK b f s t) (insert (b, n) F)"
proof -
  obtain L where L: "lists_ok t L" "maps_ok t L"
      "\<And>f s x. in_class f s \<Longrightarrow> x \<in> set (L f s) \<longleftrightarrow> (\<exists>n. (x, n) \<in> F \<and> cls n = (f, s))"
    using assms(1) unfolding fok_def by blast
  have c: "in_class f s" using in_class_cls [OF assms(4)] assms(5) by simp
  have "lists_ok (INSERT_BLOCK b f s t) (upd_list f s (b # L f s) L)"
    using assms(2,3) L(3) by (intro insert_lists L(1) c) auto
  moreover have "maps_ok (INSERT_BLOCK b f s t) (upd_list f s (b # L f s) L)" by (rule insert_maps [OF L(2) c])
  moreover have "x \<in> set (upd_list f s (b # L f s) L f' s') \<longleftrightarrow> (\<exists>m. (x, m) \<in> insert (b, n) F \<and> cls m = (f', s'))"
    if "in_class f' s'" for f' s' x
    using L(3) [OF that] L(3) [OF c] assms(3,5) by auto
  ultimately show ?thesis unfolding fok_def by blast
qed

lemma fok_extract:
  assumes "fok t F" "(b, n) \<in> F" "func F" "cls n = (f, s)"
  shows "fok (EXTRACT_BLOCK b f s t) (F - {(b, n)})"
proof -
  obtain L where L: "lists_ok t L" "maps_ok t L"
      "\<And>f s x. in_class f s \<Longrightarrow> x \<in> set (L f s) \<longleftrightarrow> (\<exists>n. (x, n) \<in> F \<and> cls n = (f, s))"
    using assms(1) unfolding fok_def by blast
  have u: "\<And>m. (b, m) \<in> F \<Longrightarrow> m = n" "n < two30" using assms(2,3) unfolding func_def by blast+
  have c: "in_class f s" using in_class_cls [OF u(2)] assms(4) by simp
  have "b \<in> set (L f s)" using L(3) [OF c] assms(2,4) by auto
  then obtain ys zs where s: "L f s = ys @ b # zs" by (meson split_list)
  then have d: "b \<notin> set (ys @ zs)" using lists_okD(1) [OF L(1) c] by (auto simp: flist_def)
  have "x \<in> set (upd_list f s (ys @ zs) L f' s') \<longleftrightarrow> (\<exists>m. (x, m) \<in> F - {(b, n)} \<and> cls m = (f', s'))"
    if "in_class f' s'" for f' s' x
    using L(3) [OF that, of x] L(3) [OF c, of x] u(1) d assms(4) by (auto simp: s)
  then show ?thesis unfolding fok_def
    using extract_lists [OF L(1) c s] extract_maps [OF L(2,1) c s] by blast
qed

text \<open>Writing to the buffer of a block that is not free.\<close>

lemma fok_free_ptr:
  assumes "\<And>n. (b, n) \<notin> F"
  shows "fok (set_free_ptr b p q t) F = fok t F"
proof -
  have "flist (set_free_ptr b p q t) f s xs = flist t f s xs" if "b \<notin> set xs" for f s xs
    using that by (simp add: flist_def set_free_ptr_def)
  moreover have "maps_ok (set_free_ptr b p q t) = maps_ok t" by (intro ext) (simp add: maps_ok_def set_free_ptr_def)
  moreover have "lists_ok (set_free_ptr b p q t) L = lists_ok t L"
    if "\<forall>f s x. in_class f s \<longrightarrow> (x \<in> set (L f s) \<longleftrightarrow> (\<exists>n. (x, n) \<in> F \<and> cls n = (f, s)))" for L
    using that assms calculation(1) unfolding lists_ok_def by blast
  ultimately show ?thesis unfolding fok_def by metis
qed

lemma find_fok:
  assumes "fok t F" "in_class f s" "\<And>x n. (x, n) \<in> F \<Longrightarrow> n < two30"
  obtains (none) f' where "FIND_SUITABLE_BLOCK t f s = (0, f', s)" "\<And>x n. (x, n) \<in> F \<Longrightarrow> n < class_base f s"
  | (found) b n f' s' where "FIND_SUITABLE_BLOCK t f s = (b, f', s')" "(b, n) \<in> F" "cls n = (f', s')"
      "class_base f s \<le> n" "b \<noteq> 0" "EXTRACT_BLOCK_HDR b f' s' t = EXTRACT_BLOCK b f' s' t"
proof -
  obtain L where L: "lists_ok t L" "maps_ok t L"
      "\<And>f s x. in_class f s \<Longrightarrow> x \<in> set (L f s) \<longleftrightarrow> (\<exists>n. (x, n) \<in> F \<and> cls n = (f, s))"
    using assms(1) unfolding fok_def by blast
  note c = assms(2) [unfolded in_class_def]
  show thesis
  proof (cases rule: find_block [OF L(1,2) assms(2)])
    case none: (1 f')
    have "n < class_base f s" if m: "(x, n) \<in> F" for x n
    proof -
      have n: "n < two30" using assms(3) m by blast
      have "L (fst (cls n)) (snd (cls n)) \<noteq> []" using L(3) [OF in_class_cls [OF n]] m by (metis empty_iff list.set(1) prod.collapse)
      then have "class_less (cls n) (f, s)" using none(2) [OF in_class_cls [OF n]] by auto
      then have "class_top (fst (cls n)) (snd (cls n)) \<le> class_base f s"
        using c cls_range [OF n] by (intro class_top_le) auto
      then show ?thesis using cls_bounds [OF n] by linarith
    qed
    then show thesis using that(1) none(1) by blast
  next
    case found: (2 f' s')
    obtain b xs where b: "L f' s' = b # xs" "matrix t f' s' = b" "fprev t b = 0" "fnext t b \<noteq> b" "b \<noteq> 0"
      using head_of_class [OF L(1) found(2,4)] by blast
    then obtain n where n: "(b, n) \<in> F" "cls n = (f', s')" using L(3) [OF found(2), of b] by auto
    have "class_base f s \<le> class_base f' s'" using c found(2,3) by (intro class_base_le) (auto simp: in_class_def)
    also have "\<dots> \<le> n" using cls_bounds [of n] assms(3) [OF n(1)] n(2) by simp
    finally show thesis using that(2) [of b f' s' n] found(1) b n extract_hdr_eq [OF b(2,3,4)] by simp
  qed
qed

section \<open>The invariant\<close>

definition lay_ok :: "(nat \<times> bool) list \<Rightarrow> bool" where
  "lay_ok bs \<longleftrightarrow> (\<forall>x\<in>set bs. 16 dvd fst x \<and> 0 < fst x) \<and> nadj False bs \<and> past 0 bs < two30"

text \<open>The pool holds the blocks \<open>bs\<close> from address \<open>a\<close> on, and an empty used block behind them.\<close>

definition tlsf_wf :: "nat \<Rightarrow> tlsf_t \<Rightarrow> (nat \<times> bool) list \<Rightarrow> bool" where
  "tlsf_wf a t bs \<longleftrightarrow> 0 < a \<and> lay_ok bs \<and> phys t 0 a False (bs @ [(0, False)]) \<and> fok t (part True a bs)"

lemma past_zero: "past a bs = a + past 0 bs"
  using past_shift [of 0 a bs] by simp

lemma size_le_past: "(n, f) \<in> set bs \<Longrightarrow> n + 16 \<le> past 0 bs"
proof (induction bs)
  case (Cons x bs)
  obtain m g where x: "x = (m, g)" by fastforce
  show ?case using Cons past_le [of "16 + m" bs] past_zero [of "16 + m" bs] by (auto simp: x)
qed simp

lemma lay_sizes:
  assumes "lay_ok bs" "(n, f) \<in> set bs"
  shows "n < two30" "16 dvd n" "8 dvd n" "4 dvd n" "n < 2 ^ 32" "0 < n"
proof -
  show n: "n < two30" using assms size_le_past [OF assms(2)] by (simp add: lay_ok_def)
  show "n < 2 ^ 32" using n by simp
  show d: "16 dvd n" "0 < n" using assms by (auto simp: lay_ok_def)
  show "8 dvd n" "4 dvd n" using d(1) by (auto intro: dvd8_4)
qed

lemma part_in: "(x, n) \<in> part g a bs \<Longrightarrow> (n, g) \<in> set bs"
  by (induction a bs rule: past.induct) (auto split: if_splits)

lemma lay_func: "lay_ok bs \<Longrightarrow> func (part g a bs)"
  using part_unique [of _ _ g a bs] part_in lay_sizes(1) unfolding func_def by blast

section \<open>Releasing\<close>

text \<open>Between the steps of \<^verbatim>\<open>free_ex\<close>: the block behind \<open>xs\<close> is marked free with \<open>n\<close> bytes, and the blocks \<open>cs\<close>
  follow, the first of which may not know yet.\<close>

definition hole :: "tlsf_t \<Rightarrow> nat \<Rightarrow> (nat \<times> bool) list \<Rightarrow> nat \<Rightarrow> (nat \<times> bool) list \<Rightarrow> bool" where
  "hole t a xs n cs \<longleftrightarrow>
     phys t 0 a False xs \<and> bsize t (past a xs) = hdr n True (lastfree False xs) \<and>
     (lastfree False xs \<longrightarrow> prev_hdr t (past a xs) = lastadr 0 a xs) \<and>
     (\<exists>m g zs q. cs = (m, g) # zs \<and> bsize t (past a xs + 16 + n) = hdr m g q \<and>
        phys t (past a xs + 16 + n) (past a xs + 16 + n + 16 + m) g zs)"

lemma hole_start:
  assumes "phys t 0 a False (xs @ (n, False) # cs)" "4 dvd n" "cs \<noteq> []" "b = past a xs"
  shows "hole (set_free_ptr b 0 0 (TLSF_REMOVE_SIZE b (set_size b (bsize t b OR FREE_BLOCK) t))) a xs n cs"
  using assms(1,3) hdr_flags(3) [OF assms(2)] unfolding assms(4)
  by (cases cs) (auto simp: hole_def add.assoc)

lemma blk_hdr: "bsize t b = hdr n f p \<Longrightarrow> 8 dvd n \<Longrightarrow> n < 2 ^ 32 \<Longrightarrow> blk_size t b = word_of_nat n \<and> unat (blk_size t b) = n"
  using hdr_size [of n f p] by (simp add: blk_size_def unat_of_nat take_bit_nat_eq_self)

lemma next_adr: "blk_size t b = word_of_nat n \<and> unat (blk_size t b) = n \<Longrightarrow> GET_NEXT_BLOCK (ptr_buffer b) (blk_size t b) = b + 16 + n"
  by (auto simp: GET_NEXT_BLOCK_def ptr_buffer_def)

lemma merge_next_used:
  assumes "hole t a xs n ((m, False) # zs)" "8 dvd n" "n < 2 ^ 32" "4 dvd m"
  shows "merge_next (past a xs) t = t"
proof -
  have "bsize t (past a xs) = hdr n True (lastfree False xs)" using assms(1) by (simp add: hole_def)
  then have c: "GET_NEXT_BLOCK (ptr_buffer (past a xs)) (blk_size t (past a xs)) = past a xs + 16 + n"
    using blk_hdr assms(2,3) next_adr by blast
  obtain q where "bsize t (past a xs + 16 + n) = hdr m False q" using assms(1) by (auto simp: hole_def)
  then show ?thesis unfolding merge_next_def Let_def c using hdr_flags(1) [OF assms(4), of False q] by simp
qed

lemma merge_next_free:
  assumes "hole t a xs n ((m, True) # zs)" "8 dvd n" "n < 2 ^ 32" "8 dvd m" "m < 2 ^ 32" "zs \<noteq> []"
    "fok t F" "func F" "(past a xs + 16 + n, m) \<in> F"
  shows "hole (merge_next (past a xs) t) a xs (n + 16 + m) zs \<and> fok (merge_next (past a xs) t) (F - {(past a xs + 16 + n, m)})"
proof -
  let ?b = "past a xs"
  let ?c = "?b + 16 + n"
  obtain f s where fs: "cls m = (f, s)" by fastforce
  obtain q where q: "bsize t ?c = hdr m True q" "phys t ?c (?c + 16 + m) True zs" using assms(1) by (auto simp: hole_def)
  have b: "bsize t ?b = hdr n True (lastfree False xs)" using assms(1) by (simp add: hole_def)
  have c: "GET_NEXT_BLOCK (ptr_buffer ?b) (blk_size t ?b) = ?c" using next_adr [OF blk_hdr [OF b assms(2,3)]] .
  have mc: "blk_size t ?c = word_of_nat m" "blk_size (EXTRACT_BLOCK ?c f s t) ?c = word_of_nat m"
    using blk_hdr [OF q(1) assms(4,5)] by (simp_all add: blk_size_def)
  have e: "merge_next ?b t = set_size ?b (hdr (n + 16 + m) True (lastfree False xs)) (EXTRACT_BLOCK ?c f s t)"
    unfolding merge_next_def Let_def c mc using hdr_flags(1) [OF dvd8_4(1) [OF assms(4)], of True q] fs
    by (simp add: q(1) mc cls_def b hdr_add [symmetric] del: of_nat_add) (simp add: hdr_def ac_simps)
  show ?thesis unfolding e using assms(1,6) q fok_extract [OF assms(7,9,8) fs]
    by (cases zs) (auto simp: hole_def add.assoc)
qed

lemma hdr_add16: "hdr n f p + (word_of_nat m + 16) = hdr (n + 16 + m) f p"
  by (simp add: hdr_def ac_simps)

lemma merge_prev_used:
  assumes "hole t a xs n cs" "4 dvd n" "\<not> lastfree False xs"
  shows "merge_prev (past a xs) t = (t, past a xs)"
  using assms hdr_flags(2) [OF assms(2)] by (auto simp: hole_def merge_prev_def)

lemma merge_prev_free:
  assumes "hole t a (xs @ [(k, True)]) n cs" "8 dvd n" "n < 2 ^ 32" "8 dvd k" "k < 2 ^ 32"
    "fok t F" "func F" "(past a xs, k) \<in> F"
  shows "\<exists>t'. merge_prev (past a xs + 16 + k) t = (t', past a xs) \<and> hole t' a xs (k + 16 + n) cs \<and>
    fok t' (F - {(past a xs, k)})"
proof -
  let ?p = "past a xs"
  let ?b = "?p + 16 + k"
  obtain f s where fs: "cls k = (f, s)" by fastforce
  have b: "bsize t ?b = hdr n True True" "prev_hdr t ?b = ?p" "bsize t ?p = hdr k True (lastfree False xs)"
    using assms(1) by (auto simp: hole_def)
  have mk: "blk_size t ?p = word_of_nat k" using blk_hdr [OF b(3) assms(4,5)] by blast
  have mb: "blk_size (EXTRACT_BLOCK ?p f s t) ?b = word_of_nat n" using blk_hdr [OF b(1) assms(2,3)] by (simp add: blk_size_def)
  let ?t = "set_size ?p (hdr (k + 16 + n) True (lastfree False xs)) (EXTRACT_BLOCK ?p f s t)"
  have e: "merge_prev ?b t = (?t, ?p)"
    unfolding merge_prev_def Let_def b mk using hdr_flags(2) [OF dvd8_4(1) [OF assms(2)], of True True] fs
    by (simp add: cls_def mb b hdr_add16)
  have "hole ?t a xs (k + 16 + n) cs" using assms(1) by (auto simp: hole_def ac_simps)
  then show ?thesis unfolding e using fok_extract [OF assms(6,8,7) fs] by simp
qed

lemma put_free_ok:
  assumes "hole t a xs n cs" "8 dvd n" "n < two30" "\<And>m g zs. cs = (m, g) # zs \<Longrightarrow> 4 dvd m" "\<not> lastfree False xs"
    "fok t F" "past a xs \<noteq> 0" "\<And>m. (past a xs, m) \<notin> F"
  shows "phys (put_free (past a xs) t) 0 a False (xs @ (n, True) # cs)"
    "fok (put_free (past a xs) t) (insert (past a xs, n) F)"
proof -
  let ?b = "past a xs"
  let ?c = "?b + 16 + n"
  obtain f s where fs: "cls n = (f, s)" by fastforce
  have b: "bsize t ?b = hdr n True False" using assms(1,5) by (simp add: hole_def)
  have n: "n < 2 ^ 32" using assms(3) by simp
  note bn = blk_hdr [OF b assms(2) n]
  obtain m g zs q where q: "cs = (m, g) # zs" "bsize t ?c = hdr m g q" "phys t ?c (?c + 16 + m) g zs"
    using assms(1) by (auto simp: hole_def)
  have c: "GET_NEXT_BLOCK (ptr_buffer ?b) (blk_size (INSERT_BLOCK ?b f s t) ?b) = ?c"
    by (rule next_adr, rule blk_hdr [of _ _ _ True False]) (use b assms(2) n in simp_all)
  have e: "put_free ?b t = set_prev_hdr ?c ?b (set_size ?c (hdr m g True) (INSERT_BLOCK ?b f s t))"
    unfolding put_free_def Let_def using bn fs c hdr_flags(4) [OF assms(4) [OF q(1)], of g q]
    by (simp add: cls_def q(2))
  show "phys (put_free ?b t) 0 a False (xs @ (n, True) # cs)"
    unfolding e using assms(1,5) b q past_le [of a xs] by (auto simp: hole_def add.assoc)
  show "fok (put_free ?b t) (insert (?b, n) F)"
    unfolding e using fok_insert [OF assms(6,7,8,3) fs] by simp
qed

text \<open>What releasing a block of \<open>n\<close> bytes between \<open>xs\<close> and \<open>ys\<close> makes of the blocks.\<close>

fun join_next :: "nat \<Rightarrow> (nat \<times> bool) list \<Rightarrow> nat \<times> (nat \<times> bool) list" where
  "join_next n ((m, True) # ys) = (n + 16 + m, ys)"
| "join_next n ys = (n, ys)"

definition join_prev :: "(nat \<times> bool) list \<Rightarrow> nat \<Rightarrow> (nat \<times> bool) list \<times> nat" where
  "join_prev xs n = (if lastfree False xs then (butlast xs, fst (last xs) + 16 + n) else (xs, n))"

definition freed :: "(nat \<times> bool) list \<Rightarrow> nat \<Rightarrow> (nat \<times> bool) list \<Rightarrow> (nat \<times> bool) list" where
  "freed xs n ys = (case join_next n ys of (n1, ys1) \<Rightarrow> case join_prev xs n1 of (xs1, n2) \<Rightarrow> xs1 @ (n2, True) # ys1)"

definition mid :: "tlsf_t \<Rightarrow> nat \<Rightarrow> (nat \<times> bool) list \<Rightarrow> nat \<Rightarrow> (nat \<times> bool) list \<Rightarrow> bool" where
  "mid t a xs n ys \<longleftrightarrow>
     hole t a xs n (ys @ [(0, False)]) \<and> fok t (part True a xs \<union> part True (past a xs + 16 + n) ys) \<and>
     (\<forall>x\<in>set (xs @ (n, True) # ys). 16 dvd fst x \<and> 0 < fst x) \<and> past 0 (xs @ (n, True) # ys) < two30 \<and>
     nadj False xs \<and> 0 < a"

lemma mid_sizes:
  assumes "mid t a xs n ys" "x \<in> set (xs @ (n, True) # ys)"
  shows "8 dvd fst x" "4 dvd fst x" "fst x < 2 ^ 32" "fst x < two30"
proof -
  obtain m g where x: "x = (m, g)" by fastforce
  have "\<forall>x\<in>set (xs @ (n, True) # ys). 16 dvd fst x" using assms(1) unfolding mid_def by blast
  then have d: "16 dvd m" using assms(2) x by (metis fst_conv)
  then show "8 dvd fst x" "4 dvd fst x" by (auto intro: dvd8_4 simp: x)
  show "fst x < two30" using size_le_past [of m g "xs @ (n, True) # ys"] assms by (simp add: mid_def x)
  then show "fst x < 2 ^ 32" by simp
qed

lemma mid_func: "mid t a xs n ys \<Longrightarrow> func (part True a xs \<union> part True (past a xs + 16 + n) ys)"
proof -
  assume m: "mid t a xs n ys"
  have "part True a xs \<union> part True (past a xs + 16 + n) ys \<subseteq> part True a (xs @ (n, True) # ys)" by auto
  moreover have "k < two30" if "(x, k) \<in> part True a (xs @ (n, True) # ys)" for x k
    using mid_sizes(4) [OF m part_in [OF that]] by simp
  ultimately show ?thesis using part_unique [of _ _ True a "xs @ (n, True) # ys"] unfolding func_def by blast
qed

lemma mid_start:
  assumes "tlsf_wf a t (xs @ (n, False) # ys)" "b = past a xs"
  shows "mid (set_free_ptr b 0 0 (TLSF_REMOVE_SIZE b (set_size b (bsize t b OR FREE_BLOCK) t))) a xs n ys"
proof -
  let ?bs = "xs @ (n, False) # ys"
  have l: "lay_ok ?bs" "0 < a" "phys t 0 a False (xs @ (n, False) # ys @ [(0, False)])" "fok t (part True a ?bs)"
    using assms(1) by (auto simp: tlsf_wf_def)
  have u: "(b, n) \<in> part False a ?bs" by (simp add: assms(2))
  then have "(b, m) \<notin> part True a ?bs" for m using part_disjoint [OF u, of b m True] by auto
  then have "fok (set_free_ptr b 0 0 (TLSF_REMOVE_SIZE b (set_size b (bsize t b OR FREE_BLOCK) t))) (part True a ?bs)"
    using l(4) by (subst fok_free_ptr) auto
  moreover have "4 dvd n" using lay_sizes(4) [OF l(1), of n False] by simp
  ultimately show ?thesis using l hole_start [OF l(3) _ _ assms(2)] by (auto simp: mid_def lay_ok_def)
qed

lemma mid_next:
  assumes "mid t a xs n ys" "join_next n ys = (n1, ys1)"
  shows "mid (merge_next (past a xs) t) a xs n1 ys1"
proof (cases "\<exists>m zs. ys = (m, True) # zs")
  case True
  then obtain m zs where ys: "ys = (m, True) # zs" by blast
  let ?F = "part True a xs \<union> part True (past a xs + 16 + n) ys" and ?c = "past a xs + 16 + n"
  have h: "hole t a xs n ((m, True) # zs @ [(0, False)])" "fok t ?F" using assms(1) by (auto simp: mid_def ys)
  note z = mid_sizes [OF assms(1), of "(n, True)"] mid_sizes [OF assms(1), of "(m, True)"]
  have r: "hole (merge_next (past a xs) t) a xs (n + 16 + m) (zs @ [(0, False)])" "fok (merge_next (past a xs) t) (?F - {(?c, m)})"
    using merge_next_free [OF h(1) _ _ _ _ _ h(2) mid_func [OF assms(1)]] z by (auto simp: ys)
  have "(?c, m) \<notin> part True a xs" "(?c, m) \<notin> part True (?c + 16 + m) zs"
    using part_bounds [of ?c m] by fastforce+
  then have "?F - {(?c, m)} = part True a xs \<union> part True (past a xs + 16 + (n + 16 + m)) zs"
    by (auto simp: ys ac_simps)
  then show ?thesis using assms r by (auto simp: mid_def ys ac_simps)
next
  case False
  then have j: "n1 = n" "ys1 = ys" using assms(2) by (cases "(n, ys)" rule: join_next.cases; auto)+
  obtain m zs where ys: "ys @ [(0, False)] = (m, False) # zs" using False by (cases ys) auto
  have "4 dvd m" using ys mid_sizes(2) [OF assms(1), of "(m, False)"] by (cases ys) auto
  then have "merge_next (past a xs) t = t"
    using merge_next_used [of t a xs n m zs] assms(1) ys mid_sizes [OF assms(1), of "(n, True)"] by (auto simp: mid_def)
  then show ?thesis using assms(1) j by simp
qed

lemma mid_prev:
  assumes "mid t a xs n ys" "join_prev xs n = (xs1, n1)"
  shows "\<exists>t'. merge_prev (past a xs) t = (t', past a xs1) \<and> mid t' a xs1 n1 ys \<and> \<not> lastfree False xs1"
proof (cases "lastfree False xs")
  case True
  then obtain zs k where xs: "xs = zs @ [(k, True)]" by (cases xs rule: rev_cases) auto
  let ?F = "part True a xs \<union> part True (past a xs + 16 + n) ys"
  have j: "xs1 = zs" "n1 = k + 16 + n" using assms(2) by (auto simp: join_prev_def xs)
  have h: "hole t a (zs @ [(k, True)]) n (ys @ [(0, False)])" "fok t ?F" "nadj False (zs @ [(k, True)])"
    using assms(1) by (auto simp: mid_def xs)
  note z = mid_sizes [OF assms(1), of "(n, True)"] mid_sizes [OF assms(1), of "(k, True)"]
  obtain t' where t': "merge_prev (past a xs) t = (t', past a zs)" "hole t' a zs (k + 16 + n) (ys @ [(0, False)])"
      "fok t' (?F - {(past a zs, k)})"
    using merge_prev_free [OF h(1) _ _ _ _ h(2) mid_func [OF assms(1)]] z by (auto simp: xs)
  have "(past a zs, k) \<notin> part True a zs" "(past a zs, k) \<notin> part True (past a xs + 16 + n) ys"
    using part_bounds [of "past a zs" k] by (fastforce simp: xs)+
  then have "?F - {(past a zs, k)} = part True a zs \<union> part True (past a zs + 16 + (k + 16 + n)) ys"
    by (auto simp: xs ac_simps)
  then show ?thesis using assms(1) t' h(3) by (auto simp: mid_def j xs ac_simps)
next
  case False
  then show ?thesis using assms merge_prev_used [of t a xs n "ys @ [(0, False)]"] mid_sizes(2) [OF assms(1), of "(n, True)"]
    by (auto simp: join_prev_def mid_def)
qed

lemma mid_end:
  assumes "mid t a xs n ys" "\<not> lastfree False xs" "nadj True ys"
  shows "tlsf_wf a (put_free (past a xs) t) (xs @ (n, True) # ys)"
proof -
  let ?F = "part True a xs \<union> part True (past a xs + 16 + n) ys"
  have m: "hole t a xs n (ys @ [(0, False)])" "fok t ?F" "past a xs \<noteq> 0"
    using assms(1) past_le [of a xs] by (auto simp: mid_def)
  have d: "4 dvd k" if "ys @ [(0, False)] = (k, g) # zs" for k g zs
    using that mid_sizes(2) [OF assms(1), of "(k, g)"] by (cases ys) auto
  have f: "(past a xs, k) \<notin> ?F" for k using part_bounds [of "past a xs" k] by fastforce
  show ?thesis
    using put_free_ok [OF m(1) _ _ d assms(2) m(2,3) f] mid_sizes [OF assms(1), of "(n, True)"] assms
    by (auto simp: tlsf_wf_def lay_ok_def mid_def Un_insert_right)
qed

lemma nadj_join_next: "nadj False ys \<Longrightarrow> join_next n ys = (n1, ys1) \<Longrightarrow> nadj True ys1"
  by (cases "(n, ys)" rule: join_next.cases) auto

lemma free_from_mid:
  assumes "mid (set_free_ptr (past a xs) 0 0 (TLSF_REMOVE_SIZE (past a xs)
      (set_size (past a xs) (bsize t (past a xs) OR FREE_BLOCK) t))) a xs n ys" "nadj False ys"
  shows "tlsf_wf a (free_ex (ptr_buffer (past a xs)) t) (freed xs n ys)"
proof -
  let ?b = "past a xs"
  let ?t = "set_free_ptr ?b 0 0 (TLSF_REMOVE_SIZE ?b (set_size ?b (bsize t ?b OR FREE_BLOCK) t))"
  obtain n1 ys1 where j1: "join_next n ys = (n1, ys1)" by fastforce
  obtain xs1 n2 where j2: "join_prev xs n1 = (xs1, n2)" by fastforce
  have m: "mid (merge_next ?b ?t) a xs n1 ys1" by (rule mid_next [OF assms(1) j1])
  obtain t' where t': "merge_prev ?b (merge_next ?b ?t) = (t', past a xs1)" "mid t' a xs1 n2 ys1" "\<not> lastfree False xs1"
    using mid_prev [OF m j2] by blast
  have e: "free_ex (ptr_buffer ?b) t = put_free (past a xs1) t'"
    using t'(1) by (simp add: free_ex_def ptr_buffer_def Let_def)
  show ?thesis unfolding e using mid_end [OF t'(2,3) nadj_join_next [OF assms(2) j1]] by (simp add: freed_def j1 j2)
qed

lemma free_ex_wf:
  assumes "tlsf_wf a t (xs @ (n, False) # ys)"
  shows "tlsf_wf a (free_ex (ptr_buffer (past a xs)) t) (freed xs n ys)"
  using assms by (intro free_from_mid mid_start [OF assms refl]) (auto simp: tlsf_wf_def lay_ok_def)

section \<open>Allocating\<close>

text \<open>What taking \<open>r\<close> bytes of a free block of \<open>n\<close> bytes makes of it.\<close>

definition taken :: "nat \<Rightarrow> nat \<Rightarrow> (nat \<times> bool) list" where
  "taken r n = (if n - r \<ge> 32 then [(r, False), (n - r - 16, True)] else [(n, False)])"

lemma nadj_mono: "nadj pf ys \<Longrightarrow> nadj False ys"
  by (cases ys) auto

text \<open>The free block behind \<open>xs\<close> was taken out of its list; \<open>t\<close> is what \<^verbatim>\<open>EXTRACT_BLOCK_HDR\<close> leaves.\<close>

definition extracted :: "tlsf_t \<Rightarrow> nat \<Rightarrow> (nat \<times> bool) list \<Rightarrow> nat \<Rightarrow> (nat \<times> bool) list \<Rightarrow> bool" where
  "extracted t a xs n ys \<longleftrightarrow>
     0 < a \<and> lay_ok (xs @ (n, True) # ys) \<and> phys t 0 a False (xs @ (n, True) # ys @ [(0, False)]) \<and>
     fok t (part True a xs \<union> part True (past a xs + 16 + n) ys)"

lemma take_whole:
  assumes "extracted t a xs n ys" "b = past a xs" "c = past a xs + 16 + n"
    "t1 = set_size c (bsize t c AND NOT PREV_FREE) t"
  shows "tlsf_wf a (set_size b (bsize t1 b AND NOT FREE_BLOCK) t1) (xs @ (n, False) # ys)"
proof -
  have l: "0 < a" "lay_ok (xs @ (n, True) # ys)" "phys t 0 a False (xs @ (n, True) # ys @ [(0, False)])"
    "fok t (part True a xs \<union> part True (past a xs + 16 + n) ys)" using assms(1) by (auto simp: extracted_def)
  have pf: "\<not> lastfree False xs" using l(2) by (simp add: lay_ok_def)
  have n: "4 dvd n" using lay_sizes(4) [OF l(2), of n True] by simp
  have b: "bsize t b = hdr n True False" using l(3) pf assms(2) by simp
  obtain m zs where ys: "ys @ [(0, False)] = (m, False) # zs" using l(2) by (cases ys) (auto simp: lay_ok_def)
  have m: "4 dvd m" using ys lay_sizes(4) [OF l(2), of m False] by (cases ys) auto
  have c: "bsize t c = hdr m False True" "phys t c (c + 16 + m) False zs" using l(3) ys assms(3) by auto
  let ?t = "set_size b (hdr n False False) (set_size c (hdr m False False) t)"
  have e: "set_size b (bsize t1 b AND NOT FREE_BLOCK) t1 = ?t"
    using hdr_flags(5) [OF n, of True False] hdr_flags(6) [OF m, of False True] b c(1) assms(2,3) by (simp add: assms(4))
  have "phys ?t 0 a False (xs @ (n, False) # ys @ [(0, False)])"
    using l(3) pf c(2) assms(2,3) unfolding ys by (auto simp: add.assoc)
  moreover have "lay_ok (xs @ (n, False) # ys)" using l(2) by (auto simp: lay_ok_def intro: nadj_mono)
  ultimately show ?thesis unfolding e using l(1,4) by (simp add: tlsf_wf_def)
qed

lemma take_split:
  assumes "extracted t a xs n ys" "b = past a xs" "c = past a xs + 16 + n" "r + 32 \<le> n" "0 < r" "16 dvd r"
    "d = past a xs + 16 + r" "cls (n - r - 16) = (f, s)"
    "t1 = INSERT_BLOCK d f s (set_prev_hdr c d (set_size d (hdr (n - r - 16) True False) t))"
  shows "tlsf_wf a (set_size b (word_of_nat r OR (bsize t1 b AND PREV_STATE)) t1) (xs @ (r, False) # (n - r - 16, True) # ys)"
proof -
  let ?F = "part True a xs \<union> part True (past a xs + 16 + n) ys" and ?k = "n - r - 16"
  have l: "0 < a" "lay_ok (xs @ (n, True) # ys)" "phys t 0 a False (xs @ (n, True) # ys @ [(0, False)])" "fok t ?F"
    using assms(1) by (auto simp: extracted_def)
  have pf: "\<not> lastfree False xs" using l(2) by (simp add: lay_ok_def)
  note z = lay_sizes [OF l(2), of n True, simplified]
  have k: "16 dvd ?k" "0 < ?k" "?k < two30" using z(1,2) assms(4,6) by (auto intro!: dvd_diff_nat)
  have b: "bsize t b = hdr n True False" using l(3) pf assms(2) by simp
  obtain m zs where ys: "ys @ [(0, False)] = (m, False) # zs" using l(2) by (cases ys) (auto simp: lay_ok_def)
  have c: "bsize t c = hdr m False True" "phys t c (c + 16 + m) False zs" using l(3) ys assms(3) by auto
  have ad: "b < d" "d + 16 + ?k = c" using assms(2,3,4,7) by auto
  have "word_of_nat r OR (bsize t1 b AND PREV_STATE) = hdr r False False"
    using hdr_keep_prev [of r n True False] dvd8_4 assms(6) z(4) b ad by (simp add: assms(9))
  moreover have "phys (set_size b (hdr r False False) t1) 0 a False (xs @ (r, False) # (?k, True) # ys @ [(0, False)])"
  proof -
    have "phys t1 0 a False xs" using l(3) ad assms(2,3) by (simp add: assms(9))
    moreover have "phys t1 c (c + 16 + m) False zs" using c(2) ad by (simp add: assms(9))
    moreover have "bsize t1 c = hdr m False True" "prev_hdr t1 c = d" "bsize t1 d = hdr ?k True False"
      using c(1) ad by (auto simp: assms(9))
    ultimately show ?thesis using pf ad assms(2,7) unfolding ys by (auto simp: ad)
  qed
  moreover have "fok t1 (insert (d, ?k) ?F)"
  proof -
    have "(d, j) \<notin> ?F" for j using part_bounds [of d j True] ad assms(2,3) by fastforce
    then show ?thesis unfolding assms(9) using l(4) ad k by (intro fok_insert assms(8)) auto
  qed
  moreover have "insert (d, ?k) ?F = part True a (xs @ (r, False) # (?k, True) # ys)"
  proof -
    have e: "past a xs + 16 + r + 16 + ?k = past a xs + 16 + n" using assms(4) by simp
    show ?thesis unfolding part_append part.simps assms(7) e by auto
  qed
  moreover have "past (past 0 xs + 16 + r + 16 + ?k) ys = past 0 (xs @ (n, True) # ys)"
    using assms(4) by (simp add: ac_simps)
  then have "lay_ok (xs @ (r, False) # (?k, True) # ys)"
    using l(2) k assms(5,6) by (auto simp: lay_ok_def)
  ultimately show ?thesis using l(1) by (simp add: tlsf_wf_def)
qed

lemma take_block_wf:
  assumes "tlsf_wf a t (xs @ (n, True) # ys)" "r \<le> n" "0 < r" "16 dvd r" "cls n = (f, s)"
    "EXTRACT_BLOCK_HDR (past a xs) f s t = EXTRACT_BLOCK (past a xs) f s t"
  shows "tlsf_wf a (take_block (past a xs) f s (word_of_nat r) t) (xs @ taken r n @ ys)"
proof -
  let ?b = "past a xs" and ?bs = "xs @ (n, True) # ys" and ?t = "EXTRACT_BLOCK (past a xs) f s t"
  let ?c = "?b + 16 + n" and ?F = "part True a xs \<union> part True (past a xs + 16 + n) ys"
  have l: "lay_ok ?bs" "0 < a" "phys t 0 a False (xs @ (n, True) # ys @ [(0, False)])" "fok t (part True a ?bs)"
    using assms(1) by (auto simp: tlsf_wf_def)
  note z = lay_sizes [OF l(1), of n True, simplified]
  have pf: "\<not> lastfree False xs" using l(1) by (simp add: lay_ok_def)
  have b: "bsize t ?b = hdr n True False" using l(3) pf by simp
  have bn: "blk_size ?t ?b = word_of_nat n" "unat (blk_size ?t ?b) = n" using blk_hdr [of ?t ?b n True False] b z by auto
  have c: "GET_NEXT_BLOCK (ptr_buffer ?b) (word_of_nat n) = ?c" using next_adr [of ?t ?b n] bn by simp
  have "part True a ?bs - {(?b, n)} = ?F" using part_bounds [of ?b n True] by fastforce
  then have "fok ?t ?F" using fok_extract [OF l(4) _ lay_func [OF l(1)] assms(5), of ?b] by simp
  then have x: "extracted ?t a xs n ys" using l by (simp add: extracted_def)
  have sub: "word_of_nat n - word_of_nat r = (word_of_nat (n - r) :: u64_t)" using assms(2) by (simp add: of_nat_diff)
  have big: "(word_of_nat (n - r) :: u64_t) \<ge> sizeof_bhdr \<longleftrightarrow> 32 \<le> n - r" using z(1) by (simp add: word_le_nat_alt unat_small)
  show ?thesis
  proof (cases "32 \<le> n - r")
    case False
    then show ?thesis using take_whole [OF x refl refl refl]
      by (simp add: take_block_def Let_def assms(6) bn(1) c sub big taken_def)
  next
    case True
    obtain f' s' where fs: "cls (n - r - 16) = (f', s')" by fastforce
    have d: "GET_NEXT_BLOCK (ptr_buffer ?b) (word_of_nat r) = ?b + 16 + r"
      using assms(2) z(1) by (simp add: GET_NEXT_BLOCK_def ptr_buffer_def unat_small)
    have k: "word_of_nat (n - r) - 16 = (word_of_nat (n - r - 16) :: u64_t)" using True by (simp add: of_nat_diff)
    have "4 dvd n - r - 16" using z(2) assms(4) by (intro dvd8_4 dvd_diff_nat) auto
    note h = hdr_flags(7) [OF this]
    have tk: "taken r n @ ys = (r, False) # (n - r - 16, True) # ys" using True by (simp add: taken_def)
    have "r + 32 \<le> n" using True assms(2) by simp
    note sp = take_split [OF x refl refl this assms(3,4) refl fs refl]
    show ?thesis
      unfolding take_block_def Let_def assms(6) bn(1) c sub if_P [OF iffD2 [OF big True]] k d or.right_neutral h
        fs [unfolded cls_def] prod.case tk by (rule sp)
  qed
qed

text \<open>The size a request is rounded up to.\<close>

definition req :: "u64_t \<Rightarrow> nat" where
  "req sz = (if unat sz < 16 then 16 else 16 * ((unat sz + 15) div 16))"

lemma req_spec: "unat sz \<le> req sz" "16 dvd req sz" "0 < req sz" "req sz \<le> unat sz + 15 \<or> req sz = 16"
proof -
  have "unat sz \<le> 16 * ((unat sz + 15) div 16)" "16 * ((unat sz + 15) div 16) \<le> unat sz + 15" by presburger+
  then show "unat sz \<le> req sz" "16 dvd req sz" "0 < req sz" "req sz \<le> unat sz + 15 \<or> req sz = 16"
    by (auto simp: req_def intro: gr0I)
qed

lemma roundup_req:
  assumes "unat sz < 536870897"
  shows "(if sz < MIN_BLOCK_SIZE then MIN_BLOCK_SIZE else ROUNDUP_SIZE sz) = word_of_nat (req sz)" "req sz < 536870912"
proof -
  have l: "sz < 16 \<longleftrightarrow> unat sz < 16" by (simp add: word_less_nat_alt)
  have "sz + 15 = word_of_nat (unat sz + 15)" by simp
  then have "ROUNDUP_SIZE sz = word_of_nat (16 * ((unat sz + 15) div 16))"
    using and_not_low [of "unat sz + 15" 4] unfolding ROUNDUP_SIZE_def by simp
  then show "(if sz < MIN_BLOCK_SIZE then MIN_BLOCK_SIZE else ROUNDUP_SIZE sz) = word_of_nat (req sz)"
    by (simp add: req_def l)
  show "req sz < 536870912" using req_spec(4) [of sz] assms by auto
qed

lemma tlsf_wf_add_size [simp]: "tlsf_wf a (TLSF_ADD_SIZE b t) bs = tlsf_wf a t bs"
  by (simp add: tlsf_wf_def)

lemma malloc_ex_cases:
  assumes "tlsf_wf a t bs" "unat sz < 536870897"
  obtains (none) "malloc_ex sz t = Some (t, 0)" "\<And>n. (n, True) \<in> set bs \<Longrightarrow> n < req sz + req sz div 32"
  | (some) t' xs n ys r where "malloc_ex sz t = Some (t', ptr_buffer (past a xs))" "bs = xs @ (n, True) # ys"
      "req sz \<le> r" "r \<le> req sz + req sz div 32" "r \<le> n" "16 dvd r" "tlsf_wf a t' (xs @ taken r n @ ys)"
proof -
  note r = roundup_req [OF assms(2)] req_spec [of sz]
  obtain m f s where m: "MAPPING_SEARCH (word_of_nat (req sz)) = (word_of_nat m, f, s)" "req sz \<le> m"
      "m \<le> req sz + req sz div 32" "16 dvd m" "m < two30" "class_base f s = m" "0 \<le> f" "f < 24" "0 \<le> s" "s < 32"
    by (rule mapping_search_spec [OF r(5) r(2) r(4)])
  have c: "in_class f s" using m(7-10) by (simp add: in_class_def)
  have l: "lay_ok bs" "fok t (part True a bs)" using assms(1) by (auto simp: tlsf_wf_def)
  have bd: "n < two30" if "(x, n) \<in> part True a bs" for x n using lay_sizes(1) [OF l(1) part_in [OF that]] .
  have g: "\<not> (word_of_nat (req sz) :: u64_t) \<ge> 0x80000000" using r(2) by (simp add: word_le_nat_alt unat_small)
  have e: "malloc_ex sz t = (case FIND_SUITABLE_BLOCK t f s of (b, fl1, sl1) \<Rightarrow> if b = 0 then Some (t, 0)
      else Some (TLSF_ADD_SIZE b (take_block b fl1 sl1 (word_of_nat m) t), ptr_buffer b))"
    unfolding malloc_ex_def Let_def r(1) if_not_P [OF g] m(1) prod.case using m(8) by simp
  show thesis
  proof (rule find_fok [OF l(2) c])
    show "n < two30" if "(x, n) \<in> part True a bs" for x n using that by (rule bd)
  next
    fix f' assume 1: "FIND_SUITABLE_BLOCK t f s = (0, f', s)" "\<And>x n. (x, n) \<in> part True a bs \<Longrightarrow> n < class_base f s"
    have "n < req sz + req sz div 32" if mem: "(n, True) \<in> set bs" for n
    proof -
      obtain ys zs where "bs = ys @ (n, True) # zs" using split_list [OF mem] by blast
      then have "(past a ys, n) \<in> part True a bs" by simp
      then have "n < m" using 1(2) m(6) by blast
      then show ?thesis using m(3) by (rule less_le_trans)
    qed
    then show thesis using none e 1(1) by simp
  next
    fix b n f' s'
    assume 2: "FIND_SUITABLE_BLOCK t f s = (b, f', s')" "(b, n) \<in> part True a bs" "cls n = (f', s')"
      "class_base f s \<le> n" "b \<noteq> 0" "EXTRACT_BLOCK_HDR b f' s' t = EXTRACT_BLOCK b f' s' t"
    obtain xs ys where xs: "bs = xs @ (n, True) # ys" "past a xs = b" using part_split [OF 2(2)] by blast
    have "0 < m" using m(2) r(5) by linarith
    then have "tlsf_wf a (take_block b f' s' (word_of_nat m) t) (xs @ taken m n @ ys)"
      using take_block_wf [of a t xs n ys m f' s'] assms(1) 2 m(4,6) xs by simp
    then show thesis using some [of _ xs n ys m] e 2 m xs by simp
  qed
qed

section \<open>Start-up\<close>

lemma fok_empty:
  assumes "fl_bitmap t = 0" "sl_bitmap t = (\<lambda>_. 0)" "matrix t = (\<lambda>_ _. 0)"
  shows "fok t {}"
  unfolding fok_def lists_ok_def maps_ok_def flist_def
  by (rule exI [of _ "\<lambda>_ _. []"]) (simp add: assms)

text \<open>The bytes of the free block of a new pool of \<open>P\<close> bytes.\<close>

definition pool_bytes :: "nat \<Rightarrow> nat" where
  "pool_bytes P = 16 * ((P - 6280) div 16) - 64"

lemma rounddown_nat: "ROUNDDOWN_SIZE (word_of_nat n) = word_of_nat (16 * (n div 16))"
  using and_not_low [of n 4] by (simp add: ROUNDDOWN_SIZE_def)

lemma pool_bytes_ok:
  assumes "6408 \<le> P" "P < two30"
  shows "16 dvd pool_bytes P" "64 \<le> pool_bytes P" "pool_bytes P < two30 - 6280" "pool_bytes P + 64 = 16 * ((P - 6280) div 16)"
    "8 dvd pool_bytes P" "4 dvd pool_bytes P" "pool_bytes P < 2 ^ 32"
proof -
  obtain d where d: "d = (P - 6280) div 16" by blast
  then have d8: "8 \<le> d" "16 * d \<le> P - 6280" using assms by auto
  show "16 dvd pool_bytes P" "64 \<le> pool_bytes P" "pool_bytes P < two30 - 6280"
    "pool_bytes P + 64 = 16 * ((P - 6280) div 16)" "pool_bytes P < 2 ^ 32"
    using d8 assms by (auto simp: pool_bytes_def d [symmetric] intro!: dvd_diff_nat)
  then show "8 dvd pool_bytes P" "4 dvd pool_bytes P" by (auto intro: dvd8_4)
qed

lemma tlsf_wf_frame [simp]:
  "tlsf_wf a (t\<lparr>area_head := x\<rparr>) bs = tlsf_wf a t bs" "tlsf_wf a (t\<lparr>used_size := u\<rparr>) bs = tlsf_wf a t bs"
  "tlsf_wf a (t\<lparr>max_size := v\<rparr>) bs = tlsf_wf a t bs"
proof -
  have "phys (t\<lparr>area_head := x\<rparr>) = phys t" "phys (t\<lparr>used_size := u\<rparr>) = phys t" "phys (t\<lparr>max_size := v\<rparr>) = phys t"
    by (intro ext phys_cong; simp)+
  then show "tlsf_wf a (t\<lparr>area_head := x\<rparr>) bs = tlsf_wf a t bs" "tlsf_wf a (t\<lparr>used_size := u\<rparr>) bs = tlsf_wf a t bs"
    "tlsf_wf a (t\<lparr>max_size := v\<rparr>) bs = tlsf_wf a t bs"
    by (simp_all add: tlsf_wf_def fok_def lists_ok_def maps_ok_def flist_def)
qed

lemma hdr_used: "hdr n False False = word_of_nat n"
  by (simp add: hdr_def)

lemma process_area_eq:
  assumes "16 dvd n" "n < two30"
  shows "process_area a (word_of_nat (n + 64)) t =
    t\<lparr>bsize := (bsize t)(a := 16, a + 32 := word_of_nat n, a + 48 + n := 2), prev_hdr := (prev_hdr t)(a + 48 + n := a + 32),
      fprev := (fprev t)(a + 32 := 0), fnext := (fnext t)(a + 32 := 0),
      area_next := (area_next t)(a + 16 := 0), area_end := (area_end t)(a + 16 := a + 48 + n)\<rparr>"
proof -
  have d: "8 dvd n" "n < 2 ^ 32" using assms by (auto intro: dvd8_4)
  have w: "word_of_nat n AND BLOCK_SIZE = (word_of_nat n :: u64_t)" using hdr_size [OF d, of False False] by (simp add: hdr_used)
  have u: "unat (word_of_nat n :: u64_t) = n" using assms(2) by (simp add: unat_small)
  have "16 * (n div 16) = n" using assms(1) by simp
  then have r: "ROUNDDOWN_SIZE (word_of_nat n) = word_of_nat n" using rounddown_nat [of n] by simp
  have m: "ROUNDUP_SIZE 16 = 16" by (simp add: ROUNDUP_SIZE_def)
  have g: "GET_NEXT_BLOCK (a + 16) 16 = a + 32" "GET_NEXT_BLOCK (a + 32 + 16) (word_of_nat n) = a + 48 + n"
    by (simp_all add: GET_NEXT_BLOCK_def u)
  have b: "(16 :: u64_t) AND BLOCK_SIZE = 16" by simp
  have s: "word_of_nat (n + 64) - 64 = (word_of_nat n :: u64_t)" by simp
  show ?thesis
    unfolding process_area_def Let_def m blk_size_def set_size_def set_prev_hdr_def set_free_ptr_def or.right_neutral
    by (cases t) (simp add: b g g(2) [simplified] r w s ptr_buffer_def fun_upd_twist del: of_nat_add)
qed

lemma init_memory_pool_wf:
  assumes "mem_pool \<noteq> 0" "8 dvd mem_pool" "6408 \<le> P" "P < two30" "tlsf_signature t \<noteq> TLSF_SIGNATURE"
  shows "\<exists>t'. init_memory_pool (word_of_nat P) mem_pool t = (t', word_of_nat (pool_bytes P)) \<and>
    tlsf_wf (mem_pool + 6288) t' [(16, False), (pool_bytes P, True)]"
proof -
  let ?a = "mem_pool + 6288" and ?n = "pool_bytes P"
  note n = pool_bytes_ok [OF assms(3,4)]
  let ?t0 = "(zero_pool t)\<lparr>tlsf_signature := TLSF_SIGNATURE\<rparr>"
  define t1 where "t1 = process_area ?a (word_of_nat (?n + 64)) ?t0"
  have n30: "?n < two30" using n(3) by simp
  note t1 = t1_def [unfolded process_area_eq [OF n(1) n30]]
  let ?t2 = "set_free_ptr (?a + 32) 0 0 (TLSF_REMOVE_SIZE (?a + 32) (set_size (?a + 32) (bsize t1 (?a + 32) OR FREE_BLOCK) t1))"
  have h: "bsize t1 (?a + 32) OR FREE_BLOCK = hdr ?n True False"
    using hdr_flags(7) [OF n(6)] n(2) by (simp add: t1)
  have "fok t1 {}" by (rule fok_empty) (simp_all add: t1 zero_pool_def)
  then have "fok ?t2 {}" by (simp add: fok_free_ptr)
  moreover have "hole ?t2 ?a [(16, False)] ?n [(0, False)]"
    using n(2) unfolding hole_def h by (auto simp: t1 hdr_def)
  ultimately have "mid ?t2 ?a [(16, False)] ?n []"
    using n(1,2,3) by (auto simp: mid_def)
  then have wf: "tlsf_wf ?a (free_ex (ptr_buffer (?a + 32)) t1) [(16, False), (?n, True)]"
    using free_from_mid [of ?a "[(16, False)]" t1 ?n "[]"] by (simp add: freed_def join_prev_def)
  then have "bsize (free_ex (ptr_buffer (?a + 32)) t1) (?a + 32) = hdr ?n True False" by (simp add: tlsf_wf_def)
  then have b: "bsize (free_ex (ptr_buffer (?a + 32)) t1) (?a + 32) AND BLOCK_SIZE = word_of_nat ?n"
    using hdr_size [OF n(5,7)] by simp
  have r: "ROUNDUP_SIZE 6280 = 6288" by (simp add: ROUNDUP_SIZE_def)
  have sz: "ROUNDDOWN_SIZE (word_of_nat P - 6280) = word_of_nat (?n + 64)"
    using rounddown_nat [of "P - 6280"] n(4) assms(3) by (simp add: of_nat_diff del: of_nat_add)
  have le: "\<not> word_of_nat P < (6408 :: u64_t)" using assms(3,4) by (simp add: word_less_nat_alt unat_small)
  then have nz: "word_of_nat P \<noteq> (0 :: u64_t)" by auto
  have g: "GET_NEXT_BLOCK mem_pool 6288 = ?a" "GET_NEXT_BLOCK (ptr_buffer ?a) 16 = ?a + 32"
    by (simp_all add: GET_NEXT_BLOCK_def ptr_buffer_def)
  have k: "blk_size t1 ?a = 16" by (simp add: blk_size_def t1)
  have "init_memory_pool (word_of_nat P) mem_pool t =
      ((free_ex (ptr_buffer (?a + 32)) t1)\<lparr>area_head := ptr_buffer ?a, used_size := word_of_nat P - word_of_nat ?n,
        max_size := word_of_nat P - word_of_nat ?n\<rparr>, word_of_nat ?n)"
    unfolding init_memory_pool_def Let_def r g sz t1_def [symmetric] k
    using assms(1,2,5) le nz b by (simp add: blk_size_def g mod_eq_0_iff_dvd)
  then show ?thesis using wf by simp
qed

end
