(* ===== verification/Regions.thy ===== *)
theory Regions
  imports RT_Prelude
begin

text \<open>
  The contract of an allocator of memory regions, as a locale, and what every client of such an allocator can rely
  on: whatever it requests and releases, the regions it holds never overlap. Both allocators of
  \<^verbatim>\<open>src/malloc/malloc.c\<close> fulfil the contract.
\<close>

text \<open>An allocator of regions: \<open>live s\<close> is the set of addresses and sizes that are in use in state \<open>s\<close>.\<close>

locale region_allocator =
  fixes ok :: "'s \<Rightarrow> bool" and live :: "'s \<Rightarrow> (nat \<times> nat) set"
    and alloc :: "'r \<Rightarrow> 's \<Rightarrow> ('s \<times> nat) option" and release :: "nat \<Rightarrow> 's \<Rightarrow> 's option"
    and need :: "'r \<Rightarrow> nat" and fits :: "'r \<Rightarrow> bool" and within :: "nat \<Rightarrow> nat \<Rightarrow> bool"
  assumes apart: "ok s \<Longrightarrow> (p, n) \<in> live s \<Longrightarrow> (q, m) \<in> live s \<Longrightarrow> p \<noteq> q \<Longrightarrow> p + n \<le> q \<or> q + m \<le> p"
    and inside: "ok s \<Longrightarrow> (p, n) \<in> live s \<Longrightarrow> within p n"
    and shrink: "within p n \<Longrightarrow> m \<le> n \<Longrightarrow> within p m"
    and alloc_live: "ok s \<Longrightarrow> fits r \<Longrightarrow> \<exists>s' p. alloc r s = Some (s', p) \<and> ok s' \<and>
      (p = 0 \<and> live s' = live s \<or> (\<exists>n\<ge>need r. p \<noteq> 0 \<and> p \<notin> fst ` live s \<and> live s' = insert (p, n) (live s)))"
    and release_live: "ok s \<Longrightarrow> (p, n) \<in> live s \<Longrightarrow>
      \<exists>s'. release p s = Some s' \<and> ok s' \<and> live s' = live s - {(p, n)}"

datatype 'r client_op = Get 'r | Put nat

text \<open>A client holds the regions of \<open>g\<close>, each with the size it asked for, and releases them by position.\<close>

fun client_run :: "('r \<Rightarrow> 's \<Rightarrow> ('s \<times> nat) option) \<Rightarrow> (nat \<Rightarrow> 's \<Rightarrow> 's option) \<Rightarrow> ('r \<Rightarrow> nat) \<Rightarrow> 'r client_op list \<Rightarrow>
    's \<Rightarrow> (nat \<times> nat) list \<Rightarrow> ('s \<times> (nat \<times> nat) list) option" where
  "client_run al re nd [] s g = Some (s, g)"
| "client_run al re nd (Get r # ops) s g =
     (case al r s of None \<Rightarrow> None
      | Some (s', p) \<Rightarrow> client_run al re nd ops s' (if p = 0 then g else (p, nd r) # g))"
| "client_run al re nd (Put i # ops) s g =
     (if i < length g
      then (case re (fst (g ! i)) s of None \<Rightarrow> None | Some s' \<Rightarrow> client_run al re nd ops s' (take i g @ drop (Suc i) g))
      else client_run al re nd ops s g)"

text \<open>What a client holds is in use, large enough, and held once.\<close>

definition held :: "(nat \<times> nat) set \<Rightarrow> (nat \<times> nat) list \<Rightarrow> bool" where
  "held R g \<longleftrightarrow> distinct (map fst g) \<and> (\<forall>x\<in>set g. \<exists>n\<ge>snd x. (fst x, n) \<in> R)"

context region_allocator
begin

lemma held_put:
  assumes "ok s" "held (live s) g" "i < length g"
  shows "\<exists>s'. release (fst (g ! i)) s = Some s' \<and> ok s' \<and> held (live s') (take i g @ drop (Suc i) g)"
proof -
  have g: "g = take i g @ g ! i # drop (Suc i) g" using assms(3) by (rule id_take_nth_drop)
  then have "distinct (map fst (take i g @ g ! i # drop (Suc i) g))" using assms(2) by (metis held_def)
  then have d: "distinct (map fst (take i g @ drop (Suc i) g))" "fst (g ! i) \<notin> fst ` set (take i g @ drop (Suc i) g)"
    by auto
  obtain n where n: "(fst (g ! i), n) \<in> live s" using assms(2,3) unfolding held_def by (meson nth_mem)
  have sub: "set (take i g @ drop (Suc i) g) \<subseteq> set g" by (auto dest: in_set_takeD in_set_dropD)
  have "\<exists>m\<ge>snd x. (fst x, m) \<in> live s - {(fst (g ! i), n)}" if x: "x \<in> set (take i g @ drop (Suc i) g)" for x
  proof -
    have "fst x \<noteq> fst (g ! i)" using d(2) imageI [OF x, of fst] by metis
    moreover have "\<exists>m\<ge>snd x. (fst x, m) \<in> live s" using assms(2) subsetD [OF sub x] by (simp add: held_def)
    ultimately show ?thesis by auto
  qed
  then show ?thesis using release_live [OF assms(1) n] d(1) unfolding held_def by metis
qed

lemma client_holds:
  "ok s \<Longrightarrow> held (live s) g \<Longrightarrow> (\<And>r. Get r \<in> set ops \<Longrightarrow> fits r) \<Longrightarrow>
   \<exists>s' g'. client_run alloc release need ops s g = Some (s', g') \<and> ok s' \<and> held (live s') g'"
proof (induction ops arbitrary: s g)
  case (Cons c ops)
  show ?case
  proof (cases c)
    case (Get r)
    obtain s' p where s': "alloc r s = Some (s', p)" "ok s'"
        "p = 0 \<and> live s' = live s \<or> (\<exists>n\<ge>need r. p \<noteq> 0 \<and> p \<notin> fst ` live s \<and> live s' = insert (p, n) (live s))"
      using alloc_live [OF Cons.prems(1), of r] Cons.prems(3) Get by auto
    have "fst ` set g \<subseteq> fst ` live s" using Cons.prems(2) unfolding held_def by force
    then have "held (live s') (if p = 0 then g else (p, need r) # g)"
      using s'(3) Cons.prems(2) unfolding held_def by (auto 4 3)
    then show ?thesis using Cons.IH [OF s'(2)] Cons.prems(3) s'(1) Get by simp
  next
    case (Put i)
    then show ?thesis using Cons.IH Cons.prems held_put [OF Cons.prems(1,2), of i] by (cases "i < length g") auto
  qed
qed simp

lemma client_safe:
  assumes "ok s" "\<And>r. Get r \<in> set ops \<Longrightarrow> fits r"
  shows "\<exists>s' g. client_run alloc release need ops s [] = Some (s', g) \<and>
    (\<forall>(p, k)\<in>set g. within p k) \<and>
    (\<forall>i j. i < j \<and> j < length g \<longrightarrow> fst (g ! i) + snd (g ! i) \<le> fst (g ! j) \<or> fst (g ! j) + snd (g ! j) \<le> fst (g ! i))"
proof -
  obtain s' g where r: "client_run alloc release need ops s [] = Some (s', g)" "ok s'" "held (live s') g"
    using client_holds [OF assms(1), of "[]" ops] assms(2) by (auto simp: held_def)
  have l: "\<exists>n\<ge>snd x. (fst x, n) \<in> live s'" if "x \<in> set g" for x using r(3) that by (simp add: held_def)
  have "within (fst x) (snd x)" if "x \<in> set g" for x
    using l [OF that] inside [OF r(2)] by (blast intro: shrink)
  moreover have "fst (g ! i) + snd (g ! i) \<le> fst (g ! j) \<or> fst (g ! j) + snd (g ! j) \<le> fst (g ! i)"
    if ij: "i < j" "j < length g" for i j
  proof -
    have "fst (g ! i) \<noteq> fst (g ! j)" using ij r(3) unfolding held_def
      by (metis (no_types, lifting) length_map nat_neq_iff nth_eq_iff_index_eq nth_map order.strict_trans)
    moreover obtain n m where "snd (g ! i) \<le> n" "(fst (g ! i), n) \<in> live s'" "snd (g ! j) \<le> m" "(fst (g ! j), m) \<in> live s'"
      using l [of "g ! i"] l [of "g ! j"] ij by auto
    ultimately show ?thesis using apart [OF r(2)] by (meson add_left_mono le_trans)
  qed
  ultimately show ?thesis using r(1) by auto
qed

end

end
