(* ===== verification/Tlsf_Thms.thy ===== *)
theory Tlsf_Thms
  imports Tlsf_Blocks Regions
begin

text \<open>
  What a client of the segregated-fit allocator can rely on. The pools of
  \<^verbatim>\<open>malloc.c\<close> interpret the locale \<open>region_allocator\<close>, so the regions that a client holds never overlap.
\<close>

section \<open>Bits and classes\<close>

text \<open>C33. \<^verbatim>\<open>ms_bit\<close> and \<^verbatim>\<open>ls_bit\<close>, which look bytes up in a table, find the highest and
  the lowest bit of a word; for 0 they return \<open>-1\<close>.\<close>

theorem bit_search_exact:
  "(\<forall>k<32. 2 ^ k \<le> unat w \<and> unat w < 2 ^ Suc k \<longleftrightarrow> ms_bit w = int k) \<and>
   (\<forall>k<32. bit w k \<and> (\<forall>j<k. \<not> bit w j) \<longleftrightarrow> ls_bit w = int k) \<and> ms_bit 0 = -1 \<and> ls_bit 0 = -1"
proof (intro conjI allI impI)
  fix k :: nat
  assume "k < 32"
  have z: "ms_bit 0 = -1" by (simp add: ms_bit_def byte_shift_def table_def)
  show "2 ^ k \<le> unat w \<and> unat w < 2 ^ Suc k \<longleftrightarrow> ms_bit w = int k"
    using ms_bit_eq [of k w] ms_bit_spec [of w] z by (cases "w = 0") auto
  show "bit w k \<and> (\<forall>j<k. \<not> bit w j) \<longleftrightarrow> ls_bit w = int k"
    using ls_bit_eq [of w k] ls_bit_spec [of w] ls_bit_zero by (cases "w = 0") auto
qed (simp_all add: ls_bit_zero ms_bit_def byte_shift_def table_def)

theorem bit_search_exact_witness: "ms_bit 0x00028000 = int 17 \<and> ls_bit 0x00028000 = int 15"
proof -
  have "\<forall>j<15. \<not> bit (0x00028000 :: u32) j" by (simp add: numeral_eq_Suc All_less_Suc bit_Suc)
  moreover have "bit (0x00028000 :: u32) 15" by simp
  ultimately show ?thesis
    using bit_search_exact [of "0x00028000", THEN conjunct1, rule_format, of 17]
      bit_search_exact [of "0x00028000", THEN conjunct2, THEN conjunct1, rule_format, of 15] by simp
qed

section \<open>Requests and releases\<close>

text \<open>C25. A request for less than \<open>2 ^ 29 - 15\<close> bytes in a well-formed pool always returns. It fails only when every free block is smaller
  than the request, rounded up to 16 bytes and by at most a 32nd, and then changes nothing; otherwise it takes
  that much from a free block, and the rest, if it can hold a block, stays free.\<close>

theorem malloc_takes_free_block:
  assumes "tlsf_wf a t bs" "unat sz < 536870897"
  shows "(malloc_ex sz t = Some (t, 0) \<and> (\<forall>n. (n, True) \<in> set bs \<longrightarrow> n < req sz + req sz div 32)) \<or>
    (\<exists>t' xs n ys r. malloc_ex sz t = Some (t', ptr_buffer (past a xs)) \<and> bs = xs @ (n, True) # ys \<and>
       unat sz \<le> r \<and> r \<le> req sz + req sz div 32 \<and> r \<le> n \<and> tlsf_wf a t' (xs @ taken r n @ ys))"
proof (rule malloc_ex_cases [OF assms], goal_cases)
  case 1
  then show ?thesis by blast
next
  case (2 t' xs n ys r)
  moreover have "unat sz \<le> r" using 2(3) req_spec(1) [of sz] by linarith
  ultimately show ?thesis by blast
qed

lemma past_freed: "past a (freed xs n ys) = past a (xs @ (n, False) # ys)"
proof -
  have j: "past b ((k, True) # zs) = past b ((n, False) # ys)" if "join_next n ys = (k, zs)" for b k zs
    using that by (cases "(n, ys)" rule: join_next.cases) (auto simp: ac_simps)
  have p: "past b (us @ (m, True) # zs) = past b (xs @ (k, True) # zs)" if "join_prev xs k = (us, m)" for b us m k zs
    using that by (cases xs rule: rev_cases) (auto simp: join_prev_def ac_simps split: if_splits)
  show ?thesis using p j by (auto simp: freed_def split: prod.splits)
qed

text \<open>Releasing a used block of a well-formed pool merges it with the free blocks on both sides; no
  two free blocks ever lie together.\<close>

theorem free_merges_neighbours:
  assumes "tlsf_wf a t (xs @ (n, False) # ys)"
  shows "tlsf_wf a (free_ex (ptr_buffer (past a xs)) t) (freed xs n ys) \<and> nadj False (freed xs n ys) \<and>
    past a (freed xs n ys) = past a (xs @ (n, False) # ys)"
  using free_ex_wf [OF assms] past_freed by (auto simp: tlsf_wf_def lay_ok_def)

text \<open>Releasing what a request has returned restores the blocks of the pool.\<close>

theorem malloc_free_restores:
  assumes "tlsf_wf a t bs" "unat sz < 536870897" "malloc_ex sz t = Some (t', p)" "p \<noteq> 0"
  shows "tlsf_wf a (free_ex p t') bs"
  using assms(1,2)
proof (rule malloc_ex_cases, goal_cases)
  case 1
  then show ?case using assms(3,4) by simp
next
  case (2 t1 xs n ys r)
  have t1: "t1 = t'" "p = ptr_buffer (past a xs)" using 2(1) assms(3) by auto
  have l: "\<not> lastfree False xs" "nadj True ys" using assms(1) 2(2) by (auto simp: tlsf_wf_def lay_ok_def)
  have jp: "join_prev xs k = (xs, k)" for k using l(1) by (simp add: join_prev_def)
  show ?case
  proof (cases "32 \<le> n - r")
    case True
    then have "tlsf_wf a t' (xs @ (r, False) # (n - r - 16, True) # ys)" using 2(7) t1 by (simp add: taken_def)
    moreover have "freed xs r ((n - r - 16, True) # ys) = bs" using 2(2) True jp by (simp add: freed_def)
    ultimately show ?thesis using free_ex_wf t1(2) by metis
  next
    case False
    then have "tlsf_wf a t' (xs @ (n, False) # ys)" using 2(7) t1 by (simp add: taken_def)
    moreover have "join_next n ys = (n, ys)" using l(2) by (cases "(n, ys)" rule: join_next.cases) auto
    then have "freed xs n ys = bs" using 2(2) jp by (simp add: freed_def)
    ultimately show ?thesis using free_ex_wf t1(2) by metis
  qed
qed

section \<open>Start-up\<close>

lemma pool_end: "6408 \<le> P \<Longrightarrow> 6288 + 16 * ((P - 6280) div 16) = P div 16 * 16 + (if P mod 16 < 8 then 0 else 16)" for P :: nat
proof -
  assume P: "6408 \<le> P"
  obtain q m where q: "P = 16 * q + m" "m < 16" using mult_div_mod_eq [of 16 P] mod_less_divisor [of 16 P] by (metis zero_less_numeral)
  have "(P - 6280) div 16 = (if m < 8 then q - 393 else q - 392)" using P q by (intro div_nat_eqI) auto
  moreover have "393 \<le> q" using P q by linarith
  ultimately show ?thesis using q by auto
qed

text \<open>C32. A new pool of \<open>P\<close> bytes is one free block behind the control structure and the block that describes the
  area. The last header ends \<open>16 - P mod 16\<close> bytes (1 to 8) behind the memory when \<open>P mod 16\<close> is 8 or more, and
  within it otherwise.\<close>

theorem init_pool_layout:
  assumes "mem_pool \<noteq> 0" "8 dvd mem_pool" "6408 \<le> P" "P < 1073741824" "tlsf_signature t \<noteq> 0x2A59FA59"
  shows "\<exists>t' n. init_memory_pool (word_of_nat P) mem_pool t = (t', word_of_nat n) \<and>
    tlsf_wf (mem_pool + 6288) t' [(16, False), (n, True)] \<and>
    past (mem_pool + 6288) [(16, False), (n, True)] + 16 = mem_pool + (P div 16 * 16 + (if P mod 16 < 8 then 0 else 16))"
proof -
  obtain d where d: "d = (P - 6280) div 16" by blast
  have "mem_pool + 6288 + 32 + 16 + pool_bytes P + 16 = mem_pool + 6288 + (pool_bytes P + 64)" by simp
  also have "\<dots> = mem_pool + (6288 + 16 * d)" using pool_bytes_ok(4) [OF assms(3,4)] d by simp
  also have "6288 + 16 * d = P div 16 * 16 + (if P mod 16 < 8 then 0 else 16)" unfolding d by (rule pool_end) fact
  finally show ?thesis using init_memory_pool_wf [OF assms] by auto
qed

definition blank :: tlsf_t where
  "blank = \<lparr>tlsf_signature = 0, used_size = 0, max_size = 0, area_head = 0, fl_bitmap = 0, sl_bitmap = (\<lambda>_. 0),
     matrix = (\<lambda>_ _. 0), prev_hdr = (\<lambda>_. 0), bsize = (\<lambda>_. 0), fprev = (\<lambda>_. 0), fnext = (\<lambda>_. 0),
     area_end = (\<lambda>_. 0), area_next = (\<lambda>_. 0)\<rparr>"

theorem init_pool_layout_witness:
  "\<exists>t' n. init_memory_pool 8184 4096 blank = (t', word_of_nat n) \<and> tlsf_wf 10384 t' [(16, False), (n, True)] \<and>
     past 10384 [(16, False), (n, True)] + 16 = 4096 + 8184 + 8"
  using init_pool_layout [of 4096 8184 blank] by (simp add: blank_def)

definition demo_pool :: tlsf_t where
  "demo_pool = fst (init_memory_pool 8192 4096 blank)"

lemma demo_pool_wf: "tlsf_wf 10384 demo_pool [(16, False), (1840, True)]"
  using init_memory_pool_wf [of 4096 8192 blank] by (auto simp: demo_pool_def blank_def pool_bytes_def)

theorem malloc_takes_free_block_witness:
  "\<exists>t' r. malloc_ex 100 demo_pool = Some (t', 10432) \<and> 100 \<le> r \<and> r \<le> 115 \<and> tlsf_wf 10384 t' ((16, False) # taken r 1840)"
  using malloc_takes_free_block [OF demo_pool_wf, of 100]
  by (auto simp: req_def ptr_buffer_def Cons_eq_append_conv append_eq_Cons_conv)

theorem malloc_free_restores_witness:
  "\<exists>t' p. malloc_ex 100 demo_pool = Some (t', p) \<and> p \<noteq> 0 \<and> tlsf_wf 10384 (free_ex p t') [(16, False), (1840, True)]"
proof -
  obtain t' xs n ys where "malloc_ex 100 demo_pool = Some (t', ptr_buffer (past 10384 xs))"
    by (rule malloc_ex_cases [OF demo_pool_wf, of 100]) (auto simp: req_def)
  then show ?thesis using malloc_free_restores [OF demo_pool_wf, of 100] by (auto simp: ptr_buffer_def)
qed

theorem free_merges_neighbours_witness:
  "\<exists>t' p r. malloc_ex 100 demo_pool = Some (t', p) \<and> tlsf_wf 10384 (free_ex p t') (freed [(16, False)] r (tl (taken r 1840)))"
proof -
  obtain t' r where t': "malloc_ex 100 demo_pool = Some (t', 10432)" "r \<le> 115" "tlsf_wf 10384 t' ((16, False) # taken r 1840)"
    by (rule malloc_ex_cases [OF demo_pool_wf, of 100])
      (auto simp: req_def ptr_buffer_def Cons_eq_append_conv append_eq_Cons_conv)
  have "32 \<le> 1840 - r" using t'(2) by simp
  then have "tlsf_wf 10384 t' ([(16, False)] @ (r, False) # tl (taken r 1840))" using t'(3) by (simp add: taken_def)
  then show ?thesis using free_merges_neighbours [of 10384 t' "[(16, False)]" r] t'(1) by (auto simp: ptr_buffer_def)
qed

section \<open>Regions never overlap\<close>

text \<open>The headers determine the blocks.\<close>

lemma hdr_inj:
  assumes "hdr n f p = hdr m g q" "8 dvd n" "8 dvd m" "n < 2 ^ 32" "m < 2 ^ 32"
  shows "n = m \<and> f = g"
proof -
  have "word_of_nat n = (word_of_nat m :: u64_t)" using assms hdr_size [of n f p] hdr_size [of m g q] by simp
  then have "n = m" using assms(4,5) by (simp add: word_of_nat_eq_iff take_bit_nat_eq_self)
  then show ?thesis using assms hdr_flags(1) [of n f p] hdr_flags(1) [of m g q] dvd8_4 by auto
qed

lemma phys_unique:
  "phys t p a pf (bs @ [(0, False)]) \<Longrightarrow> phys t q a pg (cs @ [(0, False)]) \<Longrightarrow>
   \<forall>x\<in>set bs \<union> set cs. 8 dvd fst x \<and> 0 < fst x \<and> fst x < 2 ^ 32 \<Longrightarrow> bs = cs"
proof (induction bs arbitrary: p q a pf pg cs)
  case Nil
  then show ?case using hdr_inj [of 0 False pf "fst (hd cs)" "snd (hd cs)" pg] by (cases cs) auto
next
  case (Cons x bs)
  obtain n f where x: "x = (n, f)" by fastforce
  obtain m g cs' where c: "cs @ [(0, False)] = (m, g) # cs'" by (cases cs) auto
  have "8 dvd m" "m < 2 ^ 32" using Cons.prems(3) c by (cases cs; auto)+
  then have e: "n = m" "f = g" using hdr_inj [of n f pf m g pg] Cons.prems by (auto simp: x c)
  then obtain cs1 where cs: "cs = x # cs1" using Cons.prems(3) c x by (cases cs) auto
  then have "bs = cs1" using Cons.IH [of a "a + 16 + n" f a f cs1] Cons.prems by (auto simp: x)
  then show ?case by (simp add: cs)
qed

lemma tlsf_wf_unique: "tlsf_wf a t bs \<Longrightarrow> tlsf_wf a t cs \<Longrightarrow> bs = cs"
proof (rule phys_unique)
  assume w: "tlsf_wf a t bs" "tlsf_wf a t cs"
  show "phys t 0 a False (bs @ [(0, False)])" "phys t 0 a False (cs @ [(0, False)])" using w by (auto simp: tlsf_wf_def)
  have "lay_ok bs" "lay_ok cs" using w by (auto simp: tlsf_wf_def)
  then show "\<forall>x\<in>set bs \<union> set cs. 8 dvd fst x \<and> 0 < fst x \<and> fst x < 2 ^ 32"
    using lay_sizes by (metis Un_iff prod.collapse)
qed

text \<open>The regions in use and the pools whose blocks end at \<open>hi\<close>.\<close>

definition tlsf_live :: "nat \<Rightarrow> tlsf_t \<Rightarrow> (nat \<times> nat) set" where
  "tlsf_live a t = {(p, n). \<exists>bs b. tlsf_wf a t bs \<and> (b, n) \<in> part False a bs \<and> p = ptr_buffer b}"

definition tlsf_ok :: "nat \<Rightarrow> nat \<Rightarrow> tlsf_t \<Rightarrow> bool" where
  "tlsf_ok a hi t \<longleftrightarrow> (\<exists>bs. tlsf_wf a t bs \<and> past a bs = hi)"

lemma live_eq: "tlsf_wf a t bs \<Longrightarrow> tlsf_live a t = (\<lambda>(b, n). (ptr_buffer b, n)) ` part False a bs"
proof -
  assume w: "tlsf_wf a t bs"
  have u: "cs = bs" if "tlsf_wf a t cs" for cs using that w by (rule tlsf_wf_unique)
  have "tlsf_live a t = {(p, n). \<exists>b. (b, n) \<in> part False a bs \<and> p = ptr_buffer b}"
    unfolding tlsf_live_def using w u by blast
  then show ?thesis by auto
qed

lemma image_adr_diff:
  "(\<lambda>(b, n). (ptr_buffer b, n :: nat)) ` (A - {(c, m)}) = (\<lambda>(b, n). (ptr_buffer b, n)) ` A - {(ptr_buffer c, m)}"
proof -
  have "inj (\<lambda>(b, n). (ptr_buffer b, n :: nat))" by (auto simp: inj_def ptr_buffer_def)
  then show ?thesis by (simp add: image_set_diff)
qed

lemma part_freed:
  "part False a (freed xs n ys) = part False a (xs @ (n, False) # ys) - {(past a xs, n)}"
proof -
  have j: "part False b ((k, True) # zs) = part False (b + 16 + n) ys" if "join_next n ys = (k, zs)" for b k zs
    using that by (cases "(n, ys)" rule: join_next.cases) (auto simp: ac_simps)
  have p: "part False a (us @ (m, True) # zs) = part False a xs \<union> part False (past a xs) ((k, True) # zs)"
    if "join_prev xs k = (us, m)" for us m k zs
    using that by (cases xs rule: rev_cases) (auto simp: join_prev_def ac_simps split: if_splits)
  have "(past a xs, n) \<notin> part False a xs \<union> part False (past a xs + 16 + n) ys" using part_bounds [of "past a xs" n] by fastforce
  moreover have "part False a (freed xs n ys) = part False a xs \<union> part False (past a xs + 16 + n) ys"
    using p j by (auto simp: freed_def split: prod.splits)
  ultimately show ?thesis by auto
qed

lemma part_taken:
  assumes "r \<le> n"
  shows "\<exists>k\<ge>r. part False a (xs @ taken r n @ ys) = insert (past a xs, k) (part False a (xs @ (n, True) # ys))"
    "past a (xs @ taken r n @ ys) = past a (xs @ (n, True) # ys)"
  using assms by (auto simp: taken_def ac_simps)

lemma tlsf_alloc_live:
  assumes "tlsf_ok a hi t" "unat sz < 536870897"
  shows "\<exists>t' p. malloc_ex sz t = Some (t', p) \<and> tlsf_ok a hi t' \<and>
    (p = 0 \<and> tlsf_live a t' = tlsf_live a t \<or>
     (\<exists>n\<ge>unat sz. p \<noteq> 0 \<and> p \<notin> fst ` tlsf_live a t \<and> tlsf_live a t' = insert (p, n) (tlsf_live a t)))"
proof -
  obtain bs where bs: "tlsf_wf a t bs" "past a bs = hi" using assms(1) by (auto simp: tlsf_ok_def)
  show ?thesis
  proof (rule malloc_ex_cases [OF bs(1) assms(2)], goal_cases)
    case 1
    then show ?thesis using assms(1) by blast
  next
    case (2 t' xs n ys r)
    obtain k where k: "r \<le> k" "part False a (xs @ taken r n @ ys) = insert (past a xs, k) (part False a bs)"
      using part_taken(1) [OF 2(5)] 2(2) by blast
    have "past a (xs @ taken r n @ ys) = hi" using part_taken(2) [OF 2(5)] 2(2) bs(2) by simp
    then have o: "tlsf_ok a hi t'" using 2(7) by (auto simp: tlsf_ok_def)
    have "(past a xs, n) \<in> part True a bs" by (simp add: 2(2))
    then have "(past a xs, m) \<notin> part False a bs" for m using part_disjoint [of "past a xs" n True a bs "past a xs" m False] by auto
    then have f: "ptr_buffer (past a xs) \<notin> fst ` tlsf_live a t" by (auto simp: live_eq [OF bs(1)] ptr_buffer_def)
    have "tlsf_live a t' = insert (ptr_buffer (past a xs), k) (tlsf_live a t)"
      unfolding live_eq [OF bs(1)] live_eq [OF 2(7)] k(2) by auto
    moreover have "unat sz \<le> k" using 2(3) k(1) req_spec(1) [of sz] by linarith
    moreover have "ptr_buffer (past a xs) \<noteq> 0" by (simp add: ptr_buffer_def)
    ultimately show ?thesis using 2(1) o f by blast
  qed
qed

interpretation pool: region_allocator "tlsf_ok a hi" "tlsf_live a" malloc_ex "\<lambda>p t. Some (free_ex p t)" unat
    "\<lambda>sz. unat sz < 536870897" "\<lambda>p n. a \<le> p \<and> p + n \<le> hi"
  for a hi
proof unfold_locales
  fix t p n q m
  assume ok: "tlsf_ok a hi t"
  then obtain bs where bs: "tlsf_wf a t bs" "past a bs = hi" by (auto simp: tlsf_ok_def)
  show "p + n \<le> q \<or> q + m \<le> p" if "(p, n) \<in> tlsf_live a t" "(q, m) \<in> tlsf_live a t" "p \<noteq> q"
    using that part_disjoint [of _ n False a bs _ m False] by (fastforce simp: live_eq [OF bs(1)] ptr_buffer_def)
  show "a \<le> p \<and> p + n \<le> hi" if "(p, n) \<in> tlsf_live a t"
    using that part_bounds [of _ n False a bs] bs(2) by (fastforce simp: live_eq [OF bs(1)] ptr_buffer_def)
  show "\<exists>s'. Some (free_ex p t) = Some s' \<and> tlsf_ok a hi s' \<and> tlsf_live a s' = tlsf_live a t - {(p, n)}" if pn: "(p, n) \<in> tlsf_live a t"
  proof -
    obtain b where b: "(b, n) \<in> part False a bs" "p = ptr_buffer b" using pn by (auto simp: live_eq [OF bs(1)])
    obtain xs ys where xs: "bs = xs @ (n, False) # ys" "past a xs = b" using part_split [OF b(1)] by blast
    have w: "tlsf_wf a (free_ex p t) (freed xs n ys)" using free_ex_wf [of a t xs n ys] bs(1) b(2) xs by simp
    have e: "part False a (freed xs n ys) = part False a bs - {(b, n)}" unfolding xs(1) part_freed xs(2) ..
    have "tlsf_live a (free_ex p t) = tlsf_live a t - {(p, n)}"
      by (simp only: live_eq [OF bs(1)] live_eq [OF w] e image_adr_diff b(2) [symmetric])
    moreover have "past a (freed xs n ys) = hi" using past_freed bs(2) xs by simp
    ultimately show ?thesis using w by (auto simp: tlsf_ok_def)
  qed
qed (linarith, rule tlsf_alloc_live)

text \<open>C24. In any run in which a client of a new pool requests regions of less than \<open>2 ^ 29 - 15\<close> bytes and releases
  regions it holds, every call returns, and the regions it holds lie within the pool, have the size it asked for
  and never overlap. The pool has from 6408 bytes to less than \<open>2 ^ 30\<close>, is aligned to 8 bytes and not yet in use.\<close>

theorem heap_clients_safe:
  assumes "mem_pool \<noteq> 0" "8 dvd mem_pool" "6408 \<le> P" "P < 1073741824" "tlsf_signature t \<noteq> 0x2A59FA59"
    "\<And>sz. Get sz \<in> set ops \<Longrightarrow> unat sz < 536870897"
  shows "\<exists>t' g. client_run malloc_ex (\<lambda>p t. Some (free_ex p t)) unat ops (fst (init_memory_pool (word_of_nat P) mem_pool t)) [] = Some (t', g) \<and>
    (\<forall>(p, k)\<in>set g. mem_pool + 6280 \<le> p \<and> p + k \<le> mem_pool + P) \<and>
    (\<forall>i j. i < j \<and> j < length g \<longrightarrow> fst (g ! i) + snd (g ! i) \<le> fst (g ! j) \<or> fst (g ! j) + snd (g ! j) \<le> fst (g ! i))"
proof -
  let ?a = "mem_pool + 6288" and ?hi = "past (mem_pool + 6288) [(16, False), (pool_bytes P, True)]"
  let ?t = "fst (init_memory_pool (word_of_nat P) mem_pool t)"
  have "tlsf_ok ?a ?hi ?t" using init_memory_pool_wf [OF assms(1-5)] unfolding tlsf_ok_def by (metis fst_conv)
  then obtain t' g where g: "client_run malloc_ex (\<lambda>p t. Some (free_ex p t)) unat ops ?t [] = Some (t', g)" "\<forall>(p, k)\<in>set g. ?a \<le> p \<and> p + k \<le> ?hi"
    "\<forall>i j. i < j \<and> j < length g \<longrightarrow> fst (g ! i) + snd (g ! i) \<le> fst (g ! j) \<or> fst (g ! j) + snd (g ! j) \<le> fst (g ! i)"
    using pool.client_safe [of ?a ?hi ?t ops] assms(6) by blast
  have "16 * ((P - 6280) div 16) \<le> P - 6280" by simp
  then have "?hi \<le> mem_pool + P" using pool_bytes_ok(4) [OF assms(3,4)] assms(3) by simp
  then have "\<forall>(p, k)\<in>set g. mem_pool + 6280 \<le> p \<and> p + k \<le> mem_pool + P" using g(2) by fastforce
  then show ?thesis using g(1,3) by blast
qed

theorem heap_clients_safe_witness:
  "\<exists>t' g. client_run malloc_ex (\<lambda>p t. Some (free_ex p t)) unat [Get 100, Get 700, Put 1, Get 2000, Get 40] demo_pool [] = Some (t', g) \<and>
     (\<forall>(p, k)\<in>set g. 10376 \<le> p \<and> p + k \<le> 12288) \<and>
     (\<forall>i j. i < j \<and> j < length g \<longrightarrow> fst (g ! i) + snd (g ! i) \<le> fst (g ! j) \<or> fst (g ! j) + snd (g ! j) \<le> fst (g ! i))"
proof -
  have "Get sz \<in> set [Get 100, Get 700, Put 1, Get 2000, Get 40] \<Longrightarrow> unat sz < 536870897" for sz :: u64_t by auto
  then show ?thesis using heap_clients_safe [of 4096 8192 blank "[Get 100, Get 700, Put 1, Get 2000, Get 40]"]
    by (simp add: demo_pool_def blank_def del: client_run.simps)
qed

section \<open>Huge requests\<close>

text \<open>C34. A request for almost the whole address space is rounded up to 0 bytes: it is served with an
  address where a block without any bytes ends and the header of the next one lies.\<close>

theorem huge_request_gets_empty_block:
  assumes "tlsf_wf a t bs" "(n, True) \<in> set bs" "\<And>m. (m, True) \<in> set bs \<Longrightarrow> 32 \<le> m" "2 ^ 64 - 16 < unat sz"
  shows "\<exists>t' p. malloc_ex sz t = Some (t', p) \<and> p \<noteq> 0 \<and> blk_size t' (p - 16) = 0"
proof -
  have u: "unat sz < 2 ^ 64" using unsigned_less [of sz] by simp
  have "sz + 15 = word_of_nat (unat sz + 15 - 2 ^ 64)" using assms(4) by (subst of_nat_diff) auto
  moreover have "unat sz + 15 - 2 ^ 64 < 16" using u by simp
  ultimately have r: "ROUNDUP_SIZE sz = 0"
    using and_not_low [of "unat sz + 15 - 2 ^ 64" 4] by (simp add: ROUNDUP_SIZE_def)
  have l: "\<not> sz < 16" using assms(4) by (simp add: word_less_nat_alt)
  have lf: "lay_ok bs" "fok t (part True a bs)" using assms(1) by (auto simp: tlsf_wf_def)
  have c: "in_class 0 0" by (simp add: in_class_def)
  have bd: "m < two30" if "(x, m) \<in> part True a bs" for x m using lay_sizes(1) [OF lf(1) part_in [OF that]] .
  obtain ys zs where "bs = ys @ (n, True) # zs" using split_list [OF assms(2)] by blast
  then have p: "(past a ys, n) \<in> part True a bs" by simp
  obtain b m f s where b: "FIND_SUITABLE_BLOCK t 0 0 = (b, f, s)" "(b, m) \<in> part True a bs" "b \<noteq> 0"
      "EXTRACT_BLOCK_HDR b f s t = EXTRACT_BLOCK b f s t"
    by (rule find_fok [OF lf(2) c]) (use bd p in \<open>auto simp: class_base_def\<close>)
  note m = lay_sizes [OF lf(1) part_in [OF b(2)]] assms(3) [OF part_in [OF b(2)]]
  obtain xs us where xs: "bs = xs @ (m, True) # us" "past a xs = b" using part_split [OF b(2)] by blast
  have "bsize t b = hdr m True (lastfree False xs)" using assms(1) xs by (auto simp: tlsf_wf_def)
  then have k: "blk_size (EXTRACT_BLOCK b f s t) b = word_of_nat m"
    using blk_hdr [of "EXTRACT_BLOCK b f s t" b m True] m(3,5) by simp
  have "(32 :: u64_t) \<le> word_of_nat m" using m(1,7) by (simp add: word_le_nat_alt unat_small)
  then have "\<exists>t1 x. take_block b f s 0 t = set_size b (0 OR (x AND PREV_STATE)) t1"
    by (auto simp: take_block_def Let_def b(4) k split: prod.splits)
  then have "blk_size (TLSF_ADD_SIZE b (take_block b f s 0 t)) b = 0"
    by (auto simp: blk_size_def and.assoc)
  moreover have "malloc_ex sz t = Some (TLSF_ADD_SIZE b (take_block b f s 0 t), ptr_buffer b)"
    using l r b(1,3) by (simp add: malloc_ex_def MAPPING_SEARCH_def)
  ultimately show ?thesis by (auto simp: ptr_buffer_def)
qed

theorem huge_request_gets_empty_block_witness:
  "\<exists>t' p. malloc_ex 0xFFFFFFFFFFFFFFFF demo_pool = Some (t', p) \<and> p \<noteq> 0 \<and> blk_size t' (p - 16) = 0"
  using huge_request_gets_empty_block [OF demo_pool_wf, of 1840 "0xFFFFFFFFFFFFFFFF"] by simp

end
