(* ===== verification/Gpma.thy ===== *)
theory Gpma
  imports "HOL-Library.Word" RT_Prelude
begin

text \<open>
  The page allocator of \<^verbatim>\<open>src/malloc/malloc.c\<close>, which is built without \<^verbatim>\<open>CONFIG_RTAI_USE_TLSF\<close>: after McKusick and
  Karels, blocks of up to two pages come from buckets by powers of two, larger ones are ranges of whole pages. The
  state keeps, beside the descriptors of the heap and of its extents, the first word of every free page and free
  block (\<open>lnk\<close>), which the lists run through; a page map is a function, read beyond its end where the
  code does so. Addresses and sizes are natural numbers; the size of a request is a 64-bit word until it is rounded.
  Names that the segregated-fit allocator has too end in \<open>_bsd\<close>. A result \<open>None\<close> stands for a
  block that is looked up behind the last extent, for pages that do not fit in their extent, and for a list that
  comes to its end too early. \<open>lnk\<close> is a total function: reading or writing a link is not checked against the
  extents.
\<close>

unbundle bit_operations_syntax

section \<open>Heaps, extents and constants\<close>

type_synonym u64_w = "64 word"

abbreviation (input) RTHEAP_MINLOG2 :: nat where "RTHEAP_MINLOG2 \<equiv> 4"
abbreviation (input) RTHEAP_PFREE :: nat where "RTHEAP_PFREE \<equiv> 0"
abbreviation (input) RTHEAP_PCONT :: nat where "RTHEAP_PCONT \<equiv> 1"
abbreviation (input) RTHEAP_PLIST :: nat where "RTHEAP_PLIST \<equiv> 2"
abbreviation (input) RTHEAP_PARAM :: int where "RTHEAP_PARAM \<equiv> -2"
abbreviation (input) RTHEAP_NOMEM_bsd :: int where "RTHEAP_NOMEM_bsd \<equiv> -1"
abbreviation (input) KMALLOC_LIMIT_bsd :: nat where "KMALLOC_LIMIT_bsd \<equiv> 131072"

record rtextent_bsd =
  base :: nat
  lim :: nat
  freelist :: nat
  pagemap :: "nat \<Rightarrow> nat"

record rtheap_bsd =
  extsize :: nat
  pagesize :: nat
  pageshift :: nat
  hdrsize :: nat
  npages :: nat
  ubytes :: nat
  maxcont :: nat
  exts :: "rtextent_bsd list"
  buckets :: "nat \<Rightarrow> nat"
  lnk :: "nat \<Rightarrow> nat"

section \<open>Start-up\<close>

text \<open>The loop of \<^verbatim>\<open>init_extent\<close> and the statements behind it: \<open>m\<close> turns are left, page \<open>n\<close> starts at \<open>a\<close>.\<close>

fun init_pages :: "nat \<Rightarrow> nat \<Rightarrow> nat \<Rightarrow> nat \<Rightarrow> (nat \<Rightarrow> nat) \<Rightarrow> (nat \<Rightarrow> nat) \<Rightarrow> (nat \<Rightarrow> nat) \<times> (nat \<Rightarrow> nat) \<times> nat" where
  "init_pages ps 0 n a l pm = (l(a := 0), pm(n := RTHEAP_PFREE), a + ps)"
| "init_pages ps (Suc m) n a l pm = init_pages ps m (Suc n) (a + ps) (l(a := a + ps)) (pm(n := RTHEAP_PFREE))"

text \<open>\<open>pm\<close> is what the memory of the page map holds before.\<close>

definition init_extent_bsd :: "nat \<Rightarrow> (nat \<Rightarrow> nat) \<Rightarrow> rtheap_bsd \<Rightarrow> rtheap_bsd \<times> rtextent_bsd" where
  "init_extent_bsd extent pm h =
     (let membase = extent + hdrsize h
      in case init_pages (pagesize h) (npages h - 1) 0 membase (lnk h) pm of
           (l, pm', memlim) \<Rightarrow>
             (h\<lparr>lnk := l\<rparr>, \<lparr>base = membase, lim = memlim, freelist = membase, pagemap = pm'\<rparr>))"

fun log2_shift :: "nat \<Rightarrow> nat" where
  "log2_shift n = (if n > 1 then Suc (log2_shift (n div 2)) else 0)"

declare log2_shift.simps [simp del]

text \<open>The loop of \<^verbatim>\<open>rtheap_init\<close> that asks the kernel for extents: \<open>alloc i\<close> is the address of extent \<open>i\<close>, 0 when
  there is no memory. The memory is cleared. On failure the extents are freed but stay in the list.\<close>

function add_extents_bsd :: "(nat \<Rightarrow> nat) \<Rightarrow> nat \<Rightarrow> nat \<Rightarrow> nat \<Rightarrow> rtheap_bsd \<Rightarrow> rtheap_bsd \<times> int" where
  "add_extents_bsd alloc i init_size heapsize h =
     (if init_size \<ge> heapsize \<or> extsize h = 0 then (h, 0)
      else if alloc i = 0 then (h, RTHEAP_NOMEM_bsd)
      else (case init_extent_bsd (alloc i) (\<lambda>_. 0) h of
              (h1, e) \<Rightarrow> add_extents_bsd alloc (Suc i) (init_size + extsize h) heapsize (h1\<lparr>exts := exts h1 @ [e]\<rparr>)))"
  by pat_completeness auto

termination by (relation "measure (\<lambda>(_, _, i, n, _). n - i)") auto

declare add_extents_bsd.simps [simp del]

text \<open>
  \<^verbatim>\<open>rtheap_init\<close>; \<open>sizeof(rtextent_t)\<close> is 48. \<open>None\<close>: the header, whose size is computed for the size that was asked for,
  leaves no whole page of the extent of \<^verbatim>\<open>KMALLOC_LIMIT\<close> bytes that is used instead; the number of pages is zero
  or wraps around, and the pages lie behind the extent.
\<close>

definition rtheap_init_bsd ::
  "(nat \<Rightarrow> nat) \<Rightarrow> (nat \<Rightarrow> nat) \<Rightarrow> nat \<Rightarrow> nat \<Rightarrow> nat \<Rightarrow> bool \<Rightarrow> rtheap_bsd \<Rightarrow> (rtheap_bsd \<times> int) option" where
  "rtheap_init_bsd alloc pm heapaddr heapsize ps suprt h0 =
     (if ps < 16 \<or> ps > 4194304 \<or> ps AND (ps - 1) \<noteq> 0 \<or> heapsize \<le> 48 \<or> heapsize > 0x7FFFFFFF \<or>
         heapsize AND (ps - 1) \<noteq> 0 then Some (h0, RTHEAP_PARAM)
      else
        (let pmapsize = (heapsize - 48) div (ps + 1);
             hdr = (48 + pmapsize + 15) div 16 * 16
         in if hdr + 2 * ps > heapsize then Some (h0, RTHEAP_PARAM)
            else
              (let ask = (heapaddr = 0 \<and> suprt);
                   adr = (if ask then (if heapsize \<le> KMALLOC_LIMIT_bsd then 0 else alloc 0) else heapaddr);
                   es = (if ask \<and> adr = 0 then KMALLOC_LIMIT_bsd else heapsize);
                   i = (if ask \<and> heapsize > KMALLOC_LIMIT_bsd then 1 else 0);
                   np = (es - hdr) div 2 ^ log2_shift ps;
                   h = \<lparr>extsize = es, pagesize = ps, pageshift = log2_shift ps, hdrsize = hdr, npages = np, ubytes = 0,
                        maxcont = np * ps, exts = [], buckets = (\<lambda>_. 0), lnk = lnk h0\<rparr>
               in if es < hdr + ps then None
                  else if adr \<noteq> 0 then
                    (case init_extent_bsd adr (if ask then (\<lambda>_. 0) else pm) h of (h1, e) \<Rightarrow> Some (h1\<lparr>exts := [e]\<rparr>, 0))
                  else Some (add_extents_bsd alloc i 0 heapsize h))))"

text \<open>What \<^verbatim>\<open>rtheap_destroy\<close> gives back to the kernel: addresses and sizes.\<close>

definition rtheap_destroy_bsd :: "rtheap_bsd \<Rightarrow> (nat \<times> nat) list" where
  "rtheap_destroy_bsd h = map (\<lambda>e. (base e - hdrsize h, extsize h)) (exts h)"

section \<open>Ranges of free pages\<close>

text \<open>The inner loop: from \<open>freepage\<close> on along contiguous pages until the range is long enough. It returns
  \<^verbatim>\<open>lastpage\<close>, the page behind it in the list, and \<^verbatim>\<open>freecont\<close>.\<close>

partial_function (option) scan_run :: "(nat \<Rightarrow> nat) \<Rightarrow> nat \<Rightarrow> nat \<Rightarrow> nat \<Rightarrow> nat \<Rightarrow> (nat \<times> nat \<times> nat) option" where
  "scan_run l ps bsize freepage freecont =
     (if l freepage = freepage + ps \<and> freecont + ps < bsize
      then scan_run l ps bsize (l freepage) (freecont + ps)
      else Some (freepage, l freepage, freecont + ps))"

text \<open>The loop over the free pages of one extent: \<^verbatim>\<open>headpage\<close>, \<^verbatim>\<open>lastpage\<close> and \<^verbatim>\<open>freehead\<close> of the range found.
  (\<^verbatim>\<open>freehead\<close> is used only after a turn in the same extent has set it.)\<close>

partial_function (option) find_run :: "(nat \<Rightarrow> nat) \<Rightarrow> nat \<Rightarrow> nat \<Rightarrow> nat \<Rightarrow> nat \<Rightarrow> (nat \<times> nat \<times> nat) option option" where
  "find_run l ps bsize freepage freehead =
     (if freepage = 0 then Some None
      else (case scan_run l ps bsize freepage 0 of
              None \<Rightarrow> None
            | Some (lastpage, nxt, freecont) \<Rightarrow>
                if freecont \<ge> bsize then Some (Some (freepage, lastpage, freehead))
                else find_run l ps bsize nxt lastpage))"

text \<open>The loop that links pieces of \<open>step\<close> bytes from \<open>a\<close> to \<open>e\<close>, and the word stored at \<open>e\<close> behind it.\<close>

function link_until :: "nat \<Rightarrow> nat \<Rightarrow> nat \<Rightarrow> nat \<Rightarrow> (nat \<Rightarrow> nat) \<Rightarrow> nat \<Rightarrow> nat" where
  "link_until step a e z l = (if a < e \<and> 0 < step then link_until step (a + step) e z (l(a := a + step)) else l(e := z))"
  by pat_completeness auto

termination by (relation "measure (\<lambda>(_, a, e, _, _). e - a)") auto

fun mark_cont :: "nat \<Rightarrow> nat \<Rightarrow> (nat \<Rightarrow> nat) \<Rightarrow> nat \<Rightarrow> nat" where
  "mark_cont pagecont pagenum pm =
     (if pagecont > 1 then mark_cont (pagecont - 1) pagenum (pm(pagenum + pagecont - 1 := RTHEAP_PCONT)) else pm)"

declare link_until.simps [simp del] mark_cont.simps [simp del]

text \<open>The code behind the label \<^verbatim>\<open>splitpage\<close>, for an extent whose free list has been updated.\<close>

definition splitpage :: "nat \<Rightarrow> nat \<Rightarrow> nat \<Rightarrow> rtextent_bsd \<Rightarrow> rtheap_bsd \<Rightarrow> rtheap_bsd \<times> rtextent_bsd" where
  "splitpage headpage bsize log2size e h =
     (let l = (if bsize < pagesize h then link_until bsize headpage (headpage + pagesize h - bsize) 0 (lnk h)
               else (lnk h)(headpage := 0));
          pagenum = (headpage - base e) div 2 ^ pageshift h;
          pm = (pagemap e)(pagenum := (if log2size \<noteq> 0 then log2size else RTHEAP_PLIST))
      in (h\<lparr>lnk := l\<rparr>, e\<lparr>pagemap := mark_cont (bsize div 2 ^ pageshift h) pagenum pm\<rparr>))"

text \<open>\<^verbatim>\<open>get_free_range\<close> on the extents \<open>es\<close> still to be searched; it returns the extents as they are then and the
  address of the range, or 0.\<close>

fun get_free_range :: "nat \<Rightarrow> nat \<Rightarrow> rtextent_bsd list \<Rightarrow> rtheap_bsd \<Rightarrow> (rtheap_bsd \<times> rtextent_bsd list \<times> nat) option" where
  "get_free_range bsize log2size [] h = Some (h, [], 0)"
| "get_free_range bsize log2size (e # es) h =
     (case find_run (lnk h) (pagesize h) bsize (freelist e) 0 of
        None \<Rightarrow> None
      | Some None \<Rightarrow> map_option (\<lambda>(h', es', p). (h', e # es', p)) (get_free_range bsize log2size es h)
      | Some (Some (headpage, lastpage, freehead)) \<Rightarrow>
          (let (h1, e1) = (if headpage = freelist e then (h, e\<lparr>freelist := lnk h lastpage\<rparr>)
                           else (h\<lparr>lnk := (lnk h)(freehead := lnk h lastpage)\<rparr>, e));
               (h2, e2) = splitpage headpage bsize log2size e1 h1
           in Some (h2, e2 # es, headpage)))"

section \<open>Requests\<close>

definition round_size :: "nat \<Rightarrow> u64_w \<Rightarrow> u64_w" where
  "round_size ps sz =
     (if sz \<le> word_of_nat ps then (sz + 15) AND NOT 15
      else (sz + word_of_nat ps - 1) AND NOT (word_of_nat ps - 1))"

function bucket_class :: "nat \<Rightarrow> nat \<Rightarrow> nat \<Rightarrow> nat \<times> nat" where
  "bucket_class bsize log2size sz =
     (if bsize < sz \<and> 0 < bsize then bucket_class (2 * bsize) (Suc log2size) sz else (bsize, log2size))"
  by pat_completeness auto

termination by (relation "measure (\<lambda>(b, _, sz). sz - b)") auto

declare bucket_class.simps [simp del]

definition rtheap_alloc_bsd :: "u64_w \<Rightarrow> rtheap_bsd \<Rightarrow> (rtheap_bsd \<times> nat) option" where
  "rtheap_alloc_bsd sz0 h =
     (if sz0 = 0 then Some (h, 0)
      else
        (let sz = unat (round_size (pagesize h) sz0) in
         if sz \<le> pagesize h * 2 then
           (case bucket_class 16 RTHEAP_MINLOG2 sz of
              (bsize, log2size) \<Rightarrow>
                (let k = log2size - RTHEAP_MINLOG2;
                     found = (if buckets h k = 0
                              then map_option (\<lambda>(h', es, p). (h'\<lparr>exts := es\<rparr>, p)) (get_free_range bsize log2size (exts h) h)
                              else Some (h, buckets h k))
                 in case found of
                      None \<Rightarrow> None
                    | Some (h1, block) \<Rightarrow>
                        if block = 0 then Some (h1, 0)
                        else Some (h1\<lparr>buckets := (buckets h1)(k := lnk h1 block), ubytes := ubytes h1 + bsize\<rparr>, block)))
         else if sz > maxcont h then Some (h, 0)
         else
           (case get_free_range sz 0 (exts h) h of
              None \<Rightarrow> None
            | Some (h1, es, block) \<Rightarrow>
                Some (h1\<lparr>exts := es, ubytes := (if block \<noteq> 0 then ubytes h1 + sz else ubytes h1)\<rparr>, block))))"

section \<open>Releases\<close>

function count_pages :: "nat \<Rightarrow> (nat \<Rightarrow> nat) \<Rightarrow> nat \<Rightarrow> nat \<Rightarrow> nat" where
  "count_pages np pm pagenum n =
     (if n < np \<and> pm (pagenum + n) = RTHEAP_PCONT then count_pages np pm pagenum (Suc n) else n)"
  by pat_completeness auto

termination by (relation "measure (\<lambda>(np, _, _, n). np - n)") auto

declare count_pages.simps [simp del]

fun mark_free :: "nat \<Rightarrow> nat \<Rightarrow> (nat \<Rightarrow> nat) \<Rightarrow> nat \<Rightarrow> nat" where
  "mark_free 0 pagenum pm = pm"
| "mark_free (Suc n) pagenum pm = mark_free n (Suc pagenum) (pm(pagenum := RTHEAP_PFREE))"

text \<open>The search for the place of the freed pages: \<^verbatim>\<open>nextpage\<close> and \<^verbatim>\<open>lastpage\<close>.\<close>

partial_function (option) find_place :: "(nat \<Rightarrow> nat) \<Rightarrow> nat \<Rightarrow> nat \<Rightarrow> nat \<Rightarrow> (nat \<times> nat) option" where
  "find_place l block nextpage lastpage =
     (if nextpage \<noteq> 0 \<and> nextpage < block then find_place l block (l nextpage) nextpage
      else Some (nextpage, lastpage))"

text \<open>The branches of the switch, for the block's extent: the new heap and extent, or \<^verbatim>\<open>RTHEAP_PARAM\<close> (\<open>Inl\<close>).\<close>

definition free_in_extent :: "nat \<Rightarrow> rtextent_bsd \<Rightarrow> rtheap_bsd \<Rightarrow> (int + rtheap_bsd \<times> rtextent_bsd) option" where
  "free_in_extent block e h =
     (let pagenum = (block - base e) div 2 ^ pageshift h;
          boffset = block - (base e + pagenum * 2 ^ pageshift h);
          m = pagemap e pagenum
      in if m = RTHEAP_PFREE \<or> m = RTHEAP_PCONT then Some (Inl RTHEAP_PARAM)
         else if m = RTHEAP_PLIST then
           (let n = count_pages (npages h) (pagemap e) pagenum 1;
                bsize = n * pagesize h;
                tailpage = block + bsize - pagesize h;
                l = link_until (pagesize h) block tailpage (lnk h tailpage) (lnk h);
                pm = mark_free n pagenum (pagemap e)
            in case find_place l block (freelist e) 0 of
                 None \<Rightarrow> None
               | Some (nextpage, lastpage) \<Rightarrow>
                   (let l1 = l(tailpage := nextpage)
                    in Some (Inr (h\<lparr>lnk := (if lastpage \<noteq> 0 then l1(lastpage := block) else l1), ubytes := ubytes h - bsize\<rparr>,
                         e\<lparr>pagemap := pm, freelist := (if lastpage \<noteq> 0 then freelist e else block)\<rparr>))))
         else if boffset mod 2 ^ m \<noteq> 0 then Some (Inl RTHEAP_PARAM)
         else Some (Inr (h\<lparr>lnk := (lnk h)(block := buckets h (m - RTHEAP_MINLOG2)),
                    buckets := (buckets h)(m - RTHEAP_MINLOG2 := block), ubytes := ubytes h - 2 ^ m\<rparr>, e)))"

text \<open>
  \<^verbatim>\<open>rtheap_free\<close>. The loop variable is never null, so a block outside of all extents is looked up behind the page map
  of the last one (\<open>None\<close>).
\<close>

fun free_extents :: "nat \<Rightarrow> rtextent_bsd list \<Rightarrow> rtheap_bsd \<Rightarrow> (int + rtheap_bsd \<times> rtextent_bsd list) option" where
  "free_extents block [] h = None"
| "free_extents block (e # es) h =
     (if base e \<le> block \<and> block < lim e
      then map_option (map_sum id (\<lambda>(h', e'). (h', e' # es))) (free_in_extent block e h)
      else map_option (map_sum id (\<lambda>(h', es'). (h', e # es'))) (free_extents block es h))"

definition rtheap_free_bsd :: "nat \<Rightarrow> rtheap_bsd \<Rightarrow> (rtheap_bsd \<times> int) option" where
  "rtheap_free_bsd block h =
     (case free_extents block (exts h) h of
        None \<Rightarrow> None
      | Some (Inl r) \<Rightarrow> Some (h, r)
      | Some (Inr (h1, es)) \<Rightarrow> Some (h1\<lparr>exts := es\<rparr>, 0))"

end
