(* ===== verification/Gpma_Lists.thy ===== *)
theory Gpma_Lists
  imports Gpma
begin

text \<open>
  The lists of the page allocator that run through the first words of free pages and blocks, as chains of a link
  function; the loops that search and build them.
\<close>

section \<open>Chains\<close>

fun chain :: "(nat \<Rightarrow> nat) \<Rightarrow> nat \<Rightarrow> nat list \<Rightarrow> nat \<Rightarrow> bool" where
  "chain l p [] z \<longleftrightarrow> p = z"
| "chain l p (x # xs) z \<longleftrightarrow> p = x \<and> x \<noteq> 0 \<and> chain l (l x) xs z"

lemma chain_append: "chain l p (xs @ ys) z \<longleftrightarrow> (\<exists>q. chain l p xs q \<and> chain l q ys z)"
  by (induction xs arbitrary: p) auto

lemma chain_cong: "(\<And>x. x \<in> set xs \<Longrightarrow> l' x = l x) \<Longrightarrow> chain l' p xs z = chain l p xs z"
  by (induction xs arbitrary: p) auto

lemma chain_start: "chain l p xs z \<Longrightarrow> p = (if xs = [] then z else hd xs)"
  by (cases xs) auto

lemma chain_unique: "chain l p xs 0 \<Longrightarrow> chain l p ys 0 \<Longrightarrow> xs = ys"
proof (induction xs arbitrary: p ys)
  case Nil
  then show ?case by (cases ys) auto
next
  case (Cons x xs)
  then show ?case by (cases ys) auto
qed

lemma chain_redirect:
  assumes "chain l p xs z" "distinct xs" "xs \<noteq> []"
  shows "chain (l(last xs := z')) p xs z'" "l (last xs) = z"
proof -
  obtain ys y where xs: "xs = ys @ [y]" using assms(3) by (cases xs rule: rev_cases) auto
  have "chain l p ys y" "l y = z" "y \<noteq> 0" using assms(1) by (auto simp: xs chain_append)
  moreover have "chain (l(y := z')) p ys y = chain l p ys y" by (rule chain_cong) (use assms(2) xs in auto)
  ultimately show "chain (l(last xs := z')) p xs z'" "l (last xs) = z" by (auto simp: xs chain_append)
qed

section \<open>Runs\<close>

text \<open>\<open>m\<close> addresses at distance \<open>d\<close> from \<open>p\<close> on.\<close>

fun run :: "nat \<Rightarrow> nat \<Rightarrow> nat \<Rightarrow> nat list" where
  "run d 0 p = []"
| "run d (Suc m) p = p # run d m (p + d)"

lemma length_run [simp]: "length (run d m p) = m"
  by (induction m arbitrary: p) auto

lemma set_run: "set (run d m p) = (\<lambda>j. p + j * d) ` {..<m}"
proof (induction m arbitrary: p)
  case (Suc m)
  show ?case unfolding lessThan_Suc_eq_insert_0 by (simp add: Suc image_image algebra_simps)
qed simp

lemma run_add: "run d (m + n) p = run d m p @ run d n (p + m * d)"
  by (induction m arbitrary: p) (simp_all add: algebra_simps)

lemma last_run: "0 < m \<Longrightarrow> last (run d m p) = p + (m - 1) * d"
proof -
  assume "0 < m"
  then have "run d m p = run d (m - 1) p @ run d 1 (p + (m - 1) * d)" using run_add [of d "m - 1" 1 p] by simp
  then show ?thesis by simp
qed

lemma run_gaps: "0 < d \<Longrightarrow> sorted_wrt (\<lambda>x y. x + d \<le> y) (run d m p)"
  by (induction m arbitrary: p) (auto simp: set_run)

lemma gaps_distinct: "0 < d \<Longrightarrow> sorted_wrt (\<lambda>x y. x + d \<le> y) xs \<Longrightarrow> distinct xs" for d :: nat
  by (induction xs) auto

section \<open>Searching\<close>

lemma scan_run_spec:
  assumes "chain l p (p # fs) 0" "0 < ps" "c < b"
  shows "\<exists>m ys nxt. 0 < m \<and> p # fs = run ps m p @ ys \<and> chain l nxt ys 0 \<and>
    scan_run l ps b p c = Some (p + (m - 1) * ps, nxt, c + m * ps) \<and>
    (b \<le> c + m * ps \<and> c + (m - 1) * ps < b \<or> c + m * ps < b \<and> nxt \<noteq> p + m * ps)"
  using assms(1,3)
proof (induction fs arbitrary: p c)
  case Nil
  then show ?case by (intro exI [of _ 1] exI [of _ "[]"] exI [of _ 0]) (auto simp: scan_run.simps [of _ _ _ p])
next
  case (Cons f fs)
  show ?case
  proof (cases "f = p + ps \<and> c + ps < b")
    case True
    have "chain l f (f # fs) 0" using Cons.prems(1) by auto
    then obtain m ys nxt where r: "0 < m" "f # fs = run ps m f @ ys" "chain l nxt ys 0"
      "scan_run l ps b f (c + ps) = Some (f + (m - 1) * ps, nxt, c + ps + m * ps)"
      "b \<le> c + ps + m * ps \<and> c + ps + (m - 1) * ps < b \<or> c + ps + m * ps < b \<and> nxt \<noteq> f + m * ps"
      using Cons.IH [of f "c + ps"] True by metis
    have "m - 1 + 1 = m" using r(1) by simp
    then have e: "(m - 1) * ps + ps = m * ps" by (metis add_mult_distrib mult_1)
    have "p # f # fs = run ps (Suc m) p @ ys" using r(2) True by simp
    moreover have "scan_run l ps b p c = Some (p + (Suc m - 1) * ps, nxt, c + Suc m * ps)"
      using r(4) True Cons.prems(1) e by (simp add: scan_run.simps [of _ _ _ p] algebra_simps)
    ultimately show ?thesis using r(3,5) True e
      by (intro exI [of _ "Suc m"] exI [of _ ys] exI [of _ nxt]) (auto simp: algebra_simps)
  next
    case False
    then show ?thesis using Cons.prems assms(2)
      by (intro exI [of _ 1] exI [of _ "f # fs"] exI [of _ f]) (auto simp: scan_run.simps [of _ _ _ p])
  qed
qed

text \<open>A run that is too short ends before a gap, so no longer run goes through it.\<close>

lemma no_run_across:
  assumes "sorted_wrt (\<lambda>x y. x + ps \<le> y) (run ps m p @ ys)" "0 < ps" "0 < m" "m < n"
    and ys: "ys \<noteq> [] \<Longrightarrow> hd ys \<noteq> p + m * ps" and q: "set (run ps n q) \<subseteq> set (run ps m p @ ys)"
  shows "set (run ps n q) \<subseteq> set ys"
proof -
  have e: "p + (m - 1) * ps + ps = p + m * ps" using assms(3) by (cases m) auto
  have gap: "p + m * ps < y" if "y \<in> set ys" for y
  proof -
    have l: "p + (m - 1) * ps \<in> set (run ps m p)" using assms(3) by (auto simp: set_run)
    have "ys \<noteq> []" using that by auto
    then have "p + (m - 1) * ps + ps \<le> hd ys" using assms(1) l hd_in_set [of ys] unfolding sorted_wrt_append by blast
    then have "p + m * ps \<le> hd ys" using e by simp
    then have "p + m * ps < hd ys" using ys [OF \<open>ys \<noteq> []\<close>] by simp
    moreover have "hd ys \<le> y" using assms(1) that by (cases ys) (auto simp: sorted_wrt_append)
    ultimately show ?thesis by simp
  qed
  have below: "x < p + m * ps" if "x \<in> set (run ps m p)" for x using that assms(2) by (auto simp: set_run)
  have mem: "q + j * ps \<in> set (run ps m p) \<or> q + j * ps \<in> set ys" if "j < n" for j
    using q that by (auto simp: set_run)
  have "q \<notin> set (run ps m p)"
  proof
    assume "q \<in> set (run ps m p)"
    then obtain i where i: "q = p + i * ps" "i < m" by (auto simp: set_run)
    then have "q + (m - i) * ps = p + m * ps" by (simp add: diff_mult_distrib)
    moreover have "m - i < n" using assms(4) by simp
    ultimately show False using mem [of "m - i"] below gap by fastforce
  qed
  then have "q \<in> set ys" using mem [of 0] assms(4) by simp
  then have "p + m * ps < q + j * ps" for j using gap by (simp add: trans_less_add1)
  then have "q + j * ps \<notin> set (run ps m p)" for j using below by (meson not_less_iff_gr_or_eq)
  then show ?thesis using mem by (auto simp: set_run [of _ n])
qed

text \<open>The search finds the first run that is long enough, and fails only when there is none.\<close>

lemma find_run_spec:
  assumes "chain l p fs 0" "sorted_wrt (\<lambda>x y. x + ps \<le> y) fs" "0 < ps" "0 < b"
  shows "find_run l ps b p h = Some None \<and> (\<forall>q n. b \<le> n * ps \<longrightarrow> \<not> set (run ps n q) \<subseteq> set fs) \<or>
    (\<exists>xs q n ys. find_run l ps b p h = Some (Some (q, q + (n - 1) * ps, if xs = [] then h else last xs)) \<and>
       fs = xs @ run ps n q @ ys \<and> 0 < n \<and> b \<le> n * ps \<and> (n - 1) * ps < b)"
  using assms(1,2)
proof (induction "length fs" arbitrary: fs p h rule: less_induct)
  case less
  show ?case
  proof (cases fs)
    case Nil
    have "\<not> set (run ps n q) \<subseteq> {}" if "b \<le> n * ps" for n q using that assms(4) by (cases n) auto
    then show ?thesis using less.prems Nil by (auto simp: find_run.simps [of _ _ _ 0])
  next
    case (Cons f fs')
    have p: "p = f" "p \<noteq> 0" using less.prems(1) Cons by auto
    obtain m ys nxt where r: "0 < m" "fs = run ps m p @ ys" "chain l nxt ys 0"
      "scan_run l ps b p 0 = Some (p + (m - 1) * ps, nxt, m * ps)"
      "b \<le> m * ps \<and> (m - 1) * ps < b \<or> m * ps < b \<and> nxt \<noteq> p + m * ps"
      using scan_run_spec [of l p fs' ps 0 b] less.prems(1) Cons p assms(3,4) by auto
    show ?thesis
    proof (cases "b \<le> m * ps")
      case True
      then have "find_run l ps b p h = Some (Some (p, p + (m - 1) * ps, if [] = [] then h else last []))"
        using r(4) p(2) by (simp add: find_run.simps [of _ _ _ p])
      moreover have "fs = [] @ run ps m p @ ys" "(m - 1) * ps < b" using r(2,5) True by simp_all
      ultimately show ?thesis using r(1) True by blast
    next
      case False
      have f: "find_run l ps b p h = find_run l ps b nxt (p + (m - 1) * ps)"
        using r(4) False p(2) by (simp add: find_run.simps [of _ _ _ p])
      have lt: "length ys < length fs" using r(1,2) by simp
      have g: "sorted_wrt (\<lambda>x y. x + ps \<le> y) ys" using less.prems(2) r(2) by (simp add: sorted_wrt_append)
      have hd: "ys \<noteq> [] \<Longrightarrow> hd ys \<noteq> p + m * ps" using r(3,5) False chain_start by fastforce
      from less.hyps [OF lt r(3) g, of "p + (m - 1) * ps"] show ?thesis
      proof (elim disjE exE conjE)
        assume n: "find_run l ps b nxt (p + (m - 1) * ps) = Some None" "\<forall>q n. b \<le> n * ps \<longrightarrow> \<not> set (run ps n q) \<subseteq> set ys"
        have "\<not> set (run ps n q) \<subseteq> set fs" if "b \<le> n * ps" for n q
        proof -
          have "m < n" using False that by (metis le_trans mult_le_mono1 not_le)
          then show ?thesis using no_run_across [of ps m p ys n q] less.prems(2) r(1,2) assms(3) hd n(2) that by auto
        qed
        then show ?thesis using f n(1) by auto
      next
        fix xs q n zs
        assume a: "find_run l ps b nxt (p + (m - 1) * ps) = Some (Some (q, q + (n - 1) * ps, if xs = [] then p + (m - 1) * ps else last xs))"
          "ys = xs @ run ps n q @ zs" "0 < n" "b \<le> n * ps" "(n - 1) * ps < b"
        have "last (run ps m p @ xs) = (if xs = [] then p + (m - 1) * ps else last xs)" using last_run [OF r(1)] by simp
        moreover have "run ps m p @ xs \<noteq> []" using r(1) by (cases m) auto
        ultimately show ?thesis using a f r(2)
          by (intro disjI2 exI [of _ "run ps m p @ xs"] exI [of _ q] exI [of _ n] exI [of _ zs]) auto
      qed
    qed
  qed
qed

section \<open>Building\<close>

text \<open>The pieces from \<open>a\<close> on are linked; the last one gets the word \<open>z\<close>. Nothing else changes.\<close>

lemma link_until_spec:
  assumes "0 < a" "0 < d" "0 < m"
  shows "chain (link_until d a (a + (m - 1) * d) z l) a (run d m a) z \<and>
    (\<forall>x. x \<notin> set (run d m a) \<longrightarrow> link_until d a (a + (m - 1) * d) z l x = l x)"
  using assms(1,3)
proof (induction m arbitrary: a l)
  case (Suc m)
  show ?case
  proof (cases m)
    case 0
    then show ?thesis using Suc.prems by (auto simp: link_until.simps [of d a])
  next
    case (Suc k)
    let ?l = "l(a := a + d)"
    let ?r = "link_until d (a + d) (a + m * d) z ?l"
    have e: "a + d + (m - 1) * d = a + m * d" using Suc by simp
    have "0 < a + d" "0 < m" using assms(2) Suc by simp_all
    note ih = Suc.IH [OF this, of ?l, unfolded e]
    have "a \<notin> set (run d m (a + d))" using assms(2) by (auto simp: set_run)
    then have "?r a = a + d" using ih by (metis fun_upd_same)
    moreover have "link_until d a (a + m * d) z l = ?r" using assms(2) Suc by (simp add: link_until.simps [of d a])
    ultimately show ?thesis using ih Suc.prems by (simp del: fun_upd_apply) (metis fun_upd_other)
  qed
qed simp

text \<open>The place of a block in an ascending list.\<close>

lemma find_place_spec:
  assumes "chain l p (xs @ ys) 0" "\<And>x. x \<in> set xs \<Longrightarrow> x < b" "\<And>y. y \<in> set ys \<Longrightarrow> b \<le> y"
  shows "find_place l b p q = Some (if ys = [] then 0 else hd ys, if xs = [] then q else last xs)"
  using assms
proof (induction xs arbitrary: p q)
  case Nil
  show ?case
  proof (cases ys)
    case (Cons y zs)
    then have "p = y" "b \<le> p" using Nil.prems(1) Nil.prems(3) [of y] by auto
    then show ?thesis using Cons by (simp add: find_place.simps [of _ _ y])
  qed (use Nil in \<open>simp add: find_place.simps [of _ _ 0]\<close>)
next
  case (Cons x xs)
  then show ?case by (auto simp: find_place.simps [of _ _ p] find_place.simps [of _ _ x])
qed

end
