(* ===== verification/Gpma_Layout.thy ===== *)
theory Gpma_Layout
  imports Gpma_Lists
begin

text \<open>
  The pages of an extent as a row of segments: free pages, pages (or pairs of pages) cut into blocks of one size, and
  ranges of pages. The page map and the list of free pages follow from the row; \<open>gpma_wf\<close> is the invariant of a heap.
\<close>

section \<open>Segments\<close>

datatype seg = Free | Slab nat | Range nat

text \<open>The width in pages, \<open>sh\<close> being the binary logarithm of the page size.\<close>

fun width :: "nat \<Rightarrow> seg \<Rightarrow> nat" where
  "width sh Free = 1"
| "width sh (Slab k) = (if k = Suc sh then 2 else 1)"
| "width sh (Range n) = n"

fun seg_ok :: "nat \<Rightarrow> seg \<Rightarrow> bool" where
  "seg_ok sh Free = True"
| "seg_ok sh (Slab k) = (4 \<le> k \<and> k \<le> Suc sh)"
| "seg_ok sh (Range n) = (0 < n)"

fun seg_mark :: "seg \<Rightarrow> nat" where
  "seg_mark Free = RTHEAP_PFREE"
| "seg_mark (Slab k) = k"
| "seg_mark (Range n) = RTHEAP_PLIST"

definition seg_bytes :: "nat \<Rightarrow> seg \<Rightarrow> nat list" where
  "seg_bytes sh g = seg_mark g # replicate (width sh g - 1) RTHEAP_PCONT"

definition pages :: "nat \<Rightarrow> seg list \<Rightarrow> nat" where
  "pages sh L = sum_list (map (width sh) L)"

definition map_bytes :: "nat \<Rightarrow> seg list \<Rightarrow> nat list" where
  "map_bytes sh L = concat (map (seg_bytes sh) L)"

lemma pages_simps [simp]:
  "pages sh [] = 0" "pages sh (g # L) = width sh g + pages sh L" "pages sh (L @ M) = pages sh L + pages sh M"
  by (simp_all add: pages_def)

lemma map_bytes_simps [simp]:
  "map_bytes sh [] = []" "map_bytes sh (g # L) = seg_bytes sh g @ map_bytes sh L"
  "map_bytes sh (L @ M) = map_bytes sh L @ map_bytes sh M"
  by (simp_all add: map_bytes_def)

lemma width_pos: "seg_ok sh g \<Longrightarrow> 0 < width sh g"
  by (cases g) auto

lemma length_seg_bytes [simp]: "seg_ok sh g \<Longrightarrow> length (seg_bytes sh g) = width sh g"
  using width_pos [of sh g] by (simp add: seg_bytes_def)

lemma length_map_bytes [simp]: "list_all (seg_ok sh) L \<Longrightarrow> length (map_bytes sh L) = pages sh L"
  by (induction L) auto

lemma frees [simp]:
  "pages sh (replicate n Free) = n" "map_bytes sh (replicate n Free) = replicate n 0" "list_all (seg_ok sh) (replicate n Free)"
  by (induction n) (auto simp: seg_bytes_def)

text \<open>The page map determines the row.\<close>

lemma marks_not_cont: "seg_ok sh g \<Longrightarrow> seg_mark g \<noteq> 1"
  by (cases g) auto

lemma seg_eqI: "seg_ok sh g \<Longrightarrow> seg_ok sh f \<Longrightarrow> seg_mark g = seg_mark f \<Longrightarrow> width sh g = width sh f \<Longrightarrow> g = f"
  by (cases g; cases f; clarsimp)

lemma map_bytes_inj:
  "list_all (seg_ok sh) L \<Longrightarrow> list_all (seg_ok sh) M \<Longrightarrow> map_bytes sh L = map_bytes sh M \<Longrightarrow> L = M"
proof (induction L arbitrary: M)
  case Nil
  then show ?case by (cases M) (auto simp: seg_bytes_def)
next
  case (Cons g L)
  then obtain f M' where M: "M = f # M'" by (cases M) (auto simp: seg_bytes_def)
  have ok: "seg_ok sh g" "seg_ok sh f" using Cons.prems M by auto
  have okl: "list_all (seg_ok sh) L" "list_all (seg_ok sh) M'" using Cons.prems M by auto
  have h: "map_bytes sh K = [] \<or> hd (map_bytes sh K) \<noteq> 1" if "list_all (seg_ok sh) K" for K
    using that marks_not_cont [of sh "hd K"] by (cases K) (auto simp: seg_bytes_def)
  have t: "takeWhile (\<lambda>b. b = 1) (replicate n 1 @ map_bytes sh K) = replicate n 1" if "list_all (seg_ok sh) K" for n K
  proof -
    have "takeWhile (\<lambda>b. b = 1) (map_bytes sh K) = []" using h [OF that] by (cases "map_bytes sh K") auto
    then show ?thesis by (simp add: takeWhile_append)
  qed
  have e: "seg_mark g = seg_mark f" "replicate (width sh g - 1) 1 @ map_bytes sh L = replicate (width sh f - 1) 1 @ map_bytes sh M'"
    using Cons.prems(3) M by (simp_all add: seg_bytes_def)
  have "replicate (width sh g - 1) (1 :: nat) = replicate (width sh f - 1) 1"
    using arg_cong [OF e(2), of "takeWhile (\<lambda>b. b = 1)"] unfolding t [OF okl(1)] t [OF okl(2)] .
  then have "width sh g - 1 = width sh f - 1" by (metis length_replicate)
  then have w: "width sh g = width sh f" using width_pos [OF ok(1)] width_pos [OF ok(2)] by linarith
  then have "g = f" using e(1) ok seg_eqI by blast
  moreover have "map_bytes sh L = map_bytes sh M'" using e(2) w by simp
  ultimately show ?case using Cons.IH [of M'] Cons.prems(1,2) M by simp
qed

section \<open>Addresses\<close>

fun placed :: "nat \<Rightarrow> nat \<Rightarrow> seg list \<Rightarrow> (nat \<times> seg) list" where
  "placed sh a [] = []"
| "placed sh a (g # L) = (a, g) # placed sh (a + width sh g * 2 ^ sh) L"

lemma placed_append [simp]: "placed sh a (L @ M) = placed sh a L @ placed sh (a + pages sh L * 2 ^ sh) M"
  by (induction L arbitrary: a) (simp_all add: algebra_simps)

lemma placed_bounds:
  "(p, g) \<in> set (placed sh a L) \<Longrightarrow> a \<le> p \<and> p + width sh g * 2 ^ sh \<le> a + pages sh L * 2 ^ sh"
  by (induction L arbitrary: a) (fastforce simp: algebra_simps)+

lemma placed_split:
  assumes "(p, g) \<in> set (placed sh a L)"
  obtains X Y where "L = X @ g # Y" "p = a + pages sh X * 2 ^ sh"
  using assms
proof (induction L arbitrary: a thesis)
  case (Cons f L)
  show ?case
  proof (cases "(p, g) = (a, f)")
    case True
    then show ?thesis using Cons.prems(1) [of "[]" L] by simp
  next
    case False
    then have "(p, g) \<in> set (placed sh (a + width sh f * 2 ^ sh) L)" using Cons.prems(2) by auto
    then obtain X Y where "L = X @ g # Y" "p = a + width sh f * 2 ^ sh + pages sh X * 2 ^ sh" using Cons.IH by blast
    then show ?thesis using Cons.prems(1) [of "f # X" Y] by (simp add: algebra_simps)
  qed
qed simp

definition fadr :: "nat \<Rightarrow> nat \<Rightarrow> seg list \<Rightarrow> nat list" where
  "fadr sh a L = map fst (filter (\<lambda>x. snd x = Free) (placed sh a L))"

lemma fadr_simps [simp]:
  "fadr sh a [] = []" "fadr sh a (g # L) = (if g = Free then [a] else []) @ fadr sh (a + width sh g * 2 ^ sh) L"
  "fadr sh a (L @ M) = fadr sh a L @ fadr sh (a + pages sh L * 2 ^ sh) M"
  by (simp_all add: fadr_def)

lemma fadr_frees [simp]: "fadr sh a (replicate n Free) = run (2 ^ sh) n a"
  by (induction n arbitrary: a) (simp_all add: algebra_simps)

lemma fadr_placed: "x \<in> set (fadr sh a L) \<longleftrightarrow> (x, Free) \<in> set (placed sh a L)"
  by (force simp: fadr_def)

lemma fadr_bounds: "x \<in> set (fadr sh a L) \<Longrightarrow> a \<le> x \<and> x + 2 ^ sh \<le> a + pages sh L * 2 ^ sh"
  using placed_bounds [of x Free sh a L] by (simp add: fadr_placed)

lemma fadr_gaps: "list_all (seg_ok sh) L \<Longrightarrow> sorted_wrt (\<lambda>x y. x + 2 ^ sh \<le> y) (fadr sh a L)"
proof (induction L arbitrary: a)
  case (Cons g L)
  then show ?case using fadr_bounds [of _ sh "a + width sh g * 2 ^ sh" L] by (auto dest: fadr_bounds)
qed simp

text \<open>A run of free addresses is a run of free pages in the row.\<close>

lemma fadr_head:
  assumes "fadr sh a L = run (2 ^ sh) n a @ ys" "list_all (seg_ok sh) L"
  shows "\<exists>Y. L = replicate n Free @ Y \<and> fadr sh (a + n * 2 ^ sh) Y = ys"
  using assms
proof (induction n arbitrary: a L)
  case (Suc n)
  obtain g M where L: "L = g # M" using Suc.prems(1) by (cases L) auto
  have "g = Free"
  proof (rule ccontr)
    assume g: "g \<noteq> Free"
    have "a \<in> set (fadr sh a L)" using Suc.prems(1) by simp
    then have "a \<in> set (fadr sh (a + width sh g * 2 ^ sh) M)" using g L by simp
    then show False using fadr_bounds [of a sh "a + width sh g * 2 ^ sh" M] width_pos [of sh g] Suc.prems(2) L by simp
  qed
  then have "fadr sh (a + 2 ^ sh) M = run (2 ^ sh) n (a + 2 ^ sh) @ ys" using Suc.prems(1) L by simp
  then obtain Y where "M = replicate n Free @ Y" "fadr sh (a + 2 ^ sh + n * 2 ^ sh) Y = ys"
    using Suc.IH [of "a + 2 ^ sh" M] Suc.prems(2) L by auto
  then show ?case using L \<open>g = Free\<close> by (auto simp: algebra_simps)
qed simp

lemma fadr_run:
  assumes "fadr sh a L = xs @ run (2 ^ sh) n q @ ys" "0 < n" "list_all (seg_ok sh) L"
  shows "\<exists>X Y. L = X @ replicate n Free @ Y \<and> q = a + pages sh X * 2 ^ sh \<and> fadr sh a X = xs \<and> fadr sh (q + n * 2 ^ sh) Y = ys"
  using assms(1,3)
proof (induction L arbitrary: a xs)
  case Nil
  then show ?case using assms(2) by (cases n) auto
next
  case (Cons g L)
  let ?b = "a + width sh g * 2 ^ sh"
  show ?case
  proof (cases "g = Free")
    case False
    then obtain X Y where "L = X @ replicate n Free @ Y" "q = ?b + pages sh X * 2 ^ sh" "fadr sh ?b X = xs" "fadr sh (q + n * 2 ^ sh) Y = ys"
      using Cons.IH [of ?b xs] Cons.prems by auto
    then show ?thesis using False by (intro exI [of _ "g # X"] exI [of _ Y]) (auto simp: algebra_simps)
  next
    case True
    show ?thesis
    proof (cases xs)
      case Nil
      then have "q = a" using Cons.prems(1) True assms(2) by (cases n) auto
      then show ?thesis using fadr_head [of sh a "g # L" n ys] Cons.prems Nil
        by (metis add.right_neutral append_Nil fadr_simps(1) mult_0 pages_simps(1))
    next
      case (Cons x zs)
      then have "fadr sh (a + 2 ^ sh) L = zs @ run (2 ^ sh) n q @ ys" "x = a" using Cons.prems(1) True by auto
      then obtain X Y where "L = X @ replicate n Free @ Y" "q = a + 2 ^ sh + pages sh X * 2 ^ sh" "fadr sh (a + 2 ^ sh) X = zs" "fadr sh (q + n * 2 ^ sh) Y = ys"
        using Cons.IH [of "a + 2 ^ sh" zs] Cons.prems(2) by auto
      then show ?thesis using True Cons \<open>x = a\<close> by (intro exI [of _ "g # X"] exI [of _ Y]) (auto simp: algebra_simps)
    qed
  qed
qed

end
