(* ===== verification/Gpma_Extents.thy ===== *)
theory Gpma_Extents
  imports Gpma_Layout
begin

text \<open>One extent of the page allocator: its invariant \<open>ext_wf\<close>, how a range of pages is taken out of it and how one
  is put back.\<close>

section \<open>The invariant\<close>

definition ext_wf :: "nat \<Rightarrow> nat \<Rightarrow> (nat \<Rightarrow> nat) \<Rightarrow> rtextent_bsd \<Rightarrow> seg list \<Rightarrow> bool" where
  "ext_wf sh np l e L \<longleftrightarrow> 0 < base e \<and> lim e = base e + np * 2 ^ sh \<and> pages sh L = np \<and> list_all (seg_ok sh) L \<and>
     map (pagemap e) [0..<np] = map_bytes sh L \<and> pagemap e np \<noteq> RTHEAP_PCONT \<and>
     chain l (freelist e) (fadr sh (base e) L) 0"

text \<open>The blocks of a segment, and their size.\<close>

fun blocks :: "nat \<Rightarrow> nat \<Rightarrow> seg \<Rightarrow> nat list" where
  "blocks sh p Free = []"
| "blocks sh p (Slab k) = run (2 ^ k) (max 1 (2 ^ sh div 2 ^ k)) p"
| "blocks sh p (Range n) = [p]"

fun block_size :: "nat \<Rightarrow> seg \<Rightarrow> nat" where
  "block_size sh Free = 0"
| "block_size sh (Slab k) = 2 ^ k"
| "block_size sh (Range n) = n * 2 ^ sh"

lemma slab_room:
  assumes "k \<le> Suc sh"
  shows "max 1 (2 ^ sh div 2 ^ k) * 2 ^ k = width sh (Slab k) * 2 ^ sh"
proof (cases "k \<le> sh")
  case True
  then have "(2 :: nat) ^ sh div 2 ^ k = 2 ^ (sh - k)" by (simp add: power_diff)
  moreover have "(2 :: nat) ^ (sh - k) * 2 ^ k = 2 ^ sh" using True by (simp add: power_add [symmetric])
  ultimately show ?thesis using True by (simp add: max_def)
next
  case False
  then have "k = Suc sh" using assms by simp
  then show ?thesis by simp
qed

lemma block_bounds:
  assumes "seg_ok sh g" "q \<in> set (blocks sh p g)"
  shows "p \<le> q \<and> q + block_size sh g \<le> p + width sh g * 2 ^ sh"
proof (cases g)
  case (Slab k)
  obtain j where j: "q = p + j * 2 ^ k" "j < max 1 (2 ^ sh div 2 ^ k)" using assms(2) Slab by (auto simp: set_run)
  then have "Suc j * 2 ^ k \<le> max 1 (2 ^ sh div 2 ^ k) * 2 ^ k" by (intro mult_le_mono1) simp
  then show ?thesis using j(1) slab_room [of k sh] assms(1) Slab by simp
qed (use assms in auto)

lemma block_gaps: "sorted_wrt (\<lambda>x y. x + block_size sh g \<le> y) (blocks sh p g)"
  by (cases g) (auto simp del: run.simps intro: run_gaps)

lemma block_first: "g \<noteq> Free \<Longrightarrow> \<exists>qs. blocks sh p g = p # qs"
proof (cases g)
  case (Slab k)
  obtain m where "max 1 ((2 :: nat) ^ sh div 2 ^ k) = Suc m" by (metis One_nat_def gr0_implies_Suc less_max_iff_disj zero_less_one)
  then show ?thesis using Slab by simp
qed auto

section \<open>Page maps\<close>

lemma mark_cont_eq: "mark_cont c n pm = (\<lambda>i. if n < i \<and> i < n + c then RTHEAP_PCONT else pm i)"
proof (induction c arbitrary: pm)
  case (Suc c)
  show ?case
  proof (cases "c = 0")
    case True
    then show ?thesis by (auto simp: mark_cont.simps [of "Suc 0"] fun_eq_iff)
  next
    case False
    then have "mark_cont (Suc c) n pm = mark_cont c n (pm(n + c := RTHEAP_PCONT))" by (subst mark_cont.simps) simp
    then show ?thesis using False unfolding Suc.IH by (auto simp: fun_eq_iff)
  qed
qed (auto simp: mark_cont.simps [of 0] fun_eq_iff)

lemma mark_free_eq: "mark_free c n pm = (\<lambda>i. if n \<le> i \<and> i < n + c then RTHEAP_PFREE else pm i)"
  by (induction c arbitrary: n pm) (auto simp: fun_eq_iff)

lemma map_upt_split:
  "map f [0..<length A + length B + length C] = A @ B @ C \<longleftrightarrow>
     map f [0..<length A] = A \<and> map f [length A..<length A + length B] = B \<and>
     map f [length A + length B..<length A + length B + length C] = C"
proof -
  have "[0..<length A + length B + length C] =
      [0..<length A] @ [length A..<length A + length B] @ [length A + length B..<length A + length B + length C]"
    by (metis append.assoc le0 le_add1 upt_add_eq_append)
  then show ?thesis by (simp add: append_eq_append_conv)
qed

text \<open>Replacing a part of the row replaces the part of the page map.\<close>

lemma map_bytes_replace:
  assumes m: "map pm [0..<np] = map_bytes sh (X @ G @ Y)" and ok: "list_all (seg_ok sh) (X @ G @ Y)" "list_all (seg_ok sh) G'"
    and w: "pages sh G' = pages sh G" "np = pages sh (X @ G @ Y)"
    and pm': "\<And>i. i < pages sh X \<or> pages sh X + pages sh G \<le> i \<Longrightarrow> pm' i = pm i"
      "map pm' [pages sh X..<pages sh X + pages sh G] = map_bytes sh G'"
  shows "map pm' [0..<np] = map_bytes sh (X @ G' @ Y)"
proof -
  have l: "length (map_bytes sh X) = pages sh X" "length (map_bytes sh G) = pages sh G"
    "length (map_bytes sh G') = pages sh G" "length (map_bytes sh Y) = pages sh Y" using ok w by auto
  have p: "map pm [0..<pages sh X] = map_bytes sh X"
      "map pm [pages sh X + pages sh G..<pages sh X + pages sh G + pages sh Y] = map_bytes sh Y"
    using m map_upt_split [of pm "map_bytes sh X" "map_bytes sh G" "map_bytes sh Y"] w(2) by (simp_all add: l add.assoc)
  have "map pm' [0..<pages sh X] = map_bytes sh X" unfolding p(1) [symmetric] by (rule map_cong [OF refl]) (use pm'(1) in auto)
  moreover have "map pm' [pages sh X + pages sh G..<pages sh X + pages sh G + pages sh Y] = map_bytes sh Y"
    unfolding p(2) [symmetric] by (rule map_cong [OF refl]) (use pm'(1) in auto)
  ultimately show ?thesis
    using map_upt_split [of pm' "map_bytes sh X" "map_bytes sh G'" "map_bytes sh Y"] pm'(2) w(2) by (simp add: l add.assoc)
qed

section \<open>Taking pages\<close>

definition req_ok :: "nat \<Rightarrow> nat \<Rightarrow> nat \<Rightarrow> bool" where
  "req_ok sh b k \<longleftrightarrow> (4 \<le> k \<and> k \<le> Suc sh \<and> b = 2 ^ k) \<or> (k = 0 \<and> (\<exists>n>0. b = n * 2 ^ sh))"

definition new_seg :: "nat \<Rightarrow> nat \<Rightarrow> nat \<Rightarrow> seg" where
  "new_seg sh b k = (if k \<noteq> 0 then Slab k else Range (b div 2 ^ sh))"

lemma new_seg_facts:
  assumes "req_ok sh b k"
  shows "seg_ok sh (new_seg sh b k)" "block_size sh (new_seg sh b k) = b" "new_seg sh b k \<noteq> Free" "0 < b"
    "b \<le> width sh (new_seg sh b k) * 2 ^ sh" "(width sh (new_seg sh b k) - 1) * 2 ^ sh < b"
    "b div 2 ^ sh - 1 = width sh (new_seg sh b k) - 1" "b div 2 ^ sh \<le> width sh (new_seg sh b k)"
proof -
  have "seg_ok sh (new_seg sh b k) \<and> block_size sh (new_seg sh b k) = b \<and> new_seg sh b k \<noteq> Free \<and> 0 < b \<and>
      b \<le> width sh (new_seg sh b k) * 2 ^ sh \<and> (width sh (new_seg sh b k) - 1) * 2 ^ sh < b \<and>
      b div 2 ^ sh - 1 = width sh (new_seg sh b k) - 1 \<and> b div 2 ^ sh \<le> width sh (new_seg sh b k)"
  proof (cases "k = 0")
    case True
    then obtain n where "0 < n" "b = n * 2 ^ sh" using assms by (auto simp: req_ok_def)
    then show ?thesis using True by (simp add: new_seg_def)
  next
    case False
    then have k: "4 \<le> k" "k \<le> Suc sh" "b = 2 ^ k" using assms by (auto simp: req_ok_def)
    consider "k < sh" | "k = sh" | "k = Suc sh" using k(2) by linarith
    then show ?thesis
    proof cases
      case 1
      then have "(2 :: nat) ^ k < 2 ^ sh" by simp
      then show ?thesis using k 1 by (simp add: new_seg_def)
    qed (use k in \<open>simp_all add: new_seg_def\<close>)
  qed
  then show "seg_ok sh (new_seg sh b k)" "block_size sh (new_seg sh b k) = b" "new_seg sh b k \<noteq> Free" "0 < b"
    "b \<le> width sh (new_seg sh b k) * 2 ^ sh" "(width sh (new_seg sh b k) - 1) * 2 ^ sh < b"
    "b div 2 ^ sh - 1 = width sh (new_seg sh b k) - 1" "b div 2 ^ sh \<le> width sh (new_seg sh b k)" by blast+
qed

lemma new_seg_width:
  assumes "req_ok sh b k" "0 < n" "b \<le> n * 2 ^ sh" "(n - 1) * 2 ^ sh < b"
  shows "n = width sh (new_seg sh b k)"
proof -
  note w = new_seg_facts(5,6) [OF assms(1)]
  have "(n - 1) * 2 ^ sh < width sh (new_seg sh b k) * 2 ^ sh" "(width sh (new_seg sh b k) - 1) * 2 ^ sh < n * 2 ^ sh"
    using assms(3,4) w by linarith+
  then have "n - 1 < width sh (new_seg sh b k)" "width sh (new_seg sh b k) - 1 < n" by simp_all
  then show ?thesis using assms(2) by linarith
qed

text \<open>Cutting a range out of the list of free pages.\<close>

lemma cut_chain:
  assumes "chain l p (xs @ rs @ ys) 0" "distinct (xs @ rs @ ys)" "rs \<noteq> []"
  shows "chain (if xs = [] then l else l(last xs := l (last rs))) (if xs = [] then l (last rs) else p) (xs @ ys) 0"
proof -
  obtain q z where c: "chain l p xs q" "chain l q rs z" "chain l z ys 0" using assms(1) by (auto simp: chain_append)
  have z: "l (last rs) = z" using chain_redirect(2) [OF c(2)] assms(2,3) by simp
  show ?thesis
  proof (cases "xs = []")
    case False
    have "chain (l(last xs := z)) p xs z" using chain_redirect(1) [OF c(1)] assms(2) False by simp
    moreover have "chain (l(last xs := z)) z ys 0"
      using c(3) assms(2) False by (subst chain_cong [of ys "l(last xs := z)" l]) (auto dest: last_in_set)
    ultimately show ?thesis using False z by (auto simp: chain_append)
  qed (use c(3) z in simp)
qed

text \<open>The new segment: its blocks are linked, its pages are marked.\<close>

definition split_links :: "nat \<Rightarrow> nat \<Rightarrow> nat \<Rightarrow> (nat \<Rightarrow> nat) \<Rightarrow> nat \<Rightarrow> nat" where
  "split_links sh b q l = (if b < 2 ^ sh then link_until b q (q + 2 ^ sh - b) 0 l else l(q := 0))"

lemma split_links_spec:
  assumes "req_ok sh b k" "0 < q"
  shows "chain (split_links sh b q l) q (blocks sh q (new_seg sh b k)) 0"
    and "x \<notin> set (blocks sh q (new_seg sh b k)) \<Longrightarrow> split_links sh b q l x = l x"
proof -
  have "chain (split_links sh b q l) q (blocks sh q (new_seg sh b k)) 0 \<and>
    (\<forall>x. x \<notin> set (blocks sh q (new_seg sh b k)) \<longrightarrow> split_links sh b q l x = l x)"
  proof (cases "b < 2 ^ sh")
    case True
    have "k \<noteq> 0" using assms(1) True by (auto simp: req_ok_def)
    then have k: "b = 2 ^ k" "k \<le> Suc sh" using assms(1) by (auto simp: req_ok_def)
    then have lt: "k < sh" using True by simp
    define m where "m = max 1 ((2 :: nat) ^ sh div 2 ^ k)"
    have m: "m * 2 ^ k = 2 ^ sh" "0 < m" using slab_room [OF k(2)] lt by (simp_all add: m_def)
    then have "q + (m - 1) * 2 ^ k = q + 2 ^ sh - b" using True k(1) by (simp add: diff_mult_distrib)
    then show ?thesis using link_until_spec [of q b m 0 l] assms(2) m(2) k(1) True \<open>k \<noteq> 0\<close>
      by (simp add: split_links_def new_seg_def m_def del: run.simps)
  next
    case False
    have "blocks sh q (new_seg sh b k) = [q]"
    proof (cases "k = 0")
      case nz: False
      then have k: "b = 2 ^ k" "k \<le> Suc sh" using assms(1) by (auto simp: req_ok_def)
      have "\<not> k < sh" using False k(1) power_strict_increasing [of k sh "2 :: nat"] by auto
      then consider "k = sh" | "k = Suc sh" using k(2) by linarith
      then have "max 1 ((2 :: nat) ^ sh div 2 ^ k) = 1" by cases simp_all
      then show ?thesis using nz by (simp add: new_seg_def)
    qed (simp add: new_seg_def)
    then show ?thesis using False assms(2) by (simp add: split_links_def)
  qed
  then show "chain (split_links sh b q l) q (blocks sh q (new_seg sh b k)) 0"
    "x \<notin> set (blocks sh q (new_seg sh b k)) \<Longrightarrow> split_links sh b q l x = l x" by blast+
qed

lemma split_map:
  assumes wf: "ext_wf sh np l e (X @ replicate n Free @ Y)" and r: "req_ok sh b k" and n: "n = width sh (new_seg sh b k)"
    and pm: "pm = mark_cont (b div 2 ^ sh) (pages sh X) ((pagemap e)(pages sh X := (if k \<noteq> 0 then k else RTHEAP_PLIST)))"
  shows "map pm [0..<np] = map_bytes sh (X @ new_seg sh b k # Y)" "pm np = pagemap e np"
proof -
  let ?i = "pages sh X" and ?g = "new_seg sh b k"
  note f = new_seg_facts [OF r]
  have w: "0 < n" using n width_pos [OF f(1)] by simp
  have pm': "pm j = (if j = ?i then seg_mark ?g else if ?i < j \<and> j < ?i + n then 1 else pagemap e j)" for j
    using f(7,8) w n by (auto simp: pm mark_cont_eq new_seg_def)
  have np: "np = ?i + n + pages sh Y" using wf by (simp add: ext_wf_def)
  show "pm np = pagemap e np" using np w by (simp add: pm')
  have "map pm [?i..<?i + n] = pm ?i # map pm [Suc ?i..<?i + n]" using w by (simp add: upt_rec)
  also have "map pm [Suc ?i..<?i + n] = map (\<lambda>_. 1) [Suc ?i..<?i + n]" by (rule map_cong) (auto simp: pm')
  also have "pm ?i # map (\<lambda>_. 1) [Suc ?i..<?i + n] = map_bytes sh [?g]"
    using n by (simp add: pm' seg_bytes_def map_replicate_const)
  finally have "map pm [?i..<?i + n] = map_bytes sh [?g]" .
  then have m: "map pm [?i..<?i + pages sh (replicate n Free)] = map_bytes sh [?g]" by simp
  have out: "pm i = pagemap e i" if "i < ?i \<or> ?i + pages sh (replicate n Free) \<le> i" for i using that w by (auto simp: pm')
  have "map pm [0..<np] = map_bytes sh (X @ [?g] @ Y)"
    by (rule map_bytes_replace [where G = "replicate n Free" and pm = "pagemap e", OF _ _ _ _ _ out m])
      (use wf f(1) n in \<open>simp_all add: ext_wf_def\<close>)
  then show "map pm [0..<np] = map_bytes sh (X @ new_seg sh b k # Y)" by simp
qed

text \<open>A range is taken out of the list of free pages of its extent and made a segment of its own.\<close>

lemma take_range:
  assumes wf: "ext_wf sh np (lnk h) e L" and h: "pagesize h = 2 ^ sh" "pageshift h = sh" and r: "req_ok sh b k"
    and fr: "fadr sh (base e) L = xs @ run (2 ^ sh) n q @ ys" and n: "0 < n" "n = width sh (new_seg sh b k)"
    and e1: "(h1, e1) = (if q = freelist e then (h, e\<lparr>freelist := lnk h (q + (n - 1) * 2 ^ sh)\<rparr>)
       else (h\<lparr>lnk := (lnk h)((if xs = [] then z else last xs) := lnk h (q + (n - 1) * 2 ^ sh))\<rparr>, e))"
    and e2: "splitpage q b k e1 h1 = (h2, e2)"
  obtains X Y where "L = X @ replicate n Free @ Y" "q = base e + pages sh X * 2 ^ sh"
    "ext_wf sh np (lnk h2) e2 (X @ new_seg sh b k # Y)" "chain (lnk h2) q (blocks sh q (new_seg sh b k)) 0"
    "h2 = h\<lparr>lnk := lnk h2\<rparr>" "base e2 = base e" "lim e2 = lim e"
    "\<And>x. x \<notin> set (fadr sh (base e) L) \<Longrightarrow> x \<notin> {q..<q + n * 2 ^ sh} \<Longrightarrow> lnk h2 x = lnk h x"
proof -
  let ?l = "lnk h" and ?g = "new_seg sh b k"
  have ok: "list_all (seg_ok sh) L" and c: "chain ?l (freelist e) (xs @ run (2 ^ sh) n q @ ys) 0"
    using wf fr by (simp_all add: ext_wf_def)
  have d: "distinct (xs @ run (2 ^ sh) n q @ ys)"
    using gaps_distinct [OF _ fadr_gaps [OF ok, of "base e"]] fr by simp
  obtain X Y where L: "L = X @ replicate n Free @ Y" "q = base e + pages sh X * 2 ^ sh" "fadr sh (base e) X = xs"
      "fadr sh (q + n * 2 ^ sh) Y = ys"
    using fadr_run [OF fr n(1) ok] by blast
  have rne: "run (2 ^ sh) n q \<noteq> []" using n(1) by (cases n) auto
  have "freelist e = hd (xs @ run (2 ^ sh) n q @ ys)" using chain_start [OF c] rne by simp
  then have first: "q = freelist e \<longleftrightarrow> xs = []" using d rne n(1) by (cases xs; cases n) auto
  have l1: "lnk h1 = (if xs = [] then ?l else ?l(last xs := ?l (last (run (2 ^ sh) n q))))"
      "freelist e1 = (if xs = [] then ?l (last (run (2 ^ sh) n q)) else freelist e)"
      "base e1 = base e" "lim e1 = lim e" "pagemap e1 = pagemap e" "h1\<lparr>lnk := v\<rparr> = h\<lparr>lnk := v\<rparr>"
      "pagesize h1 = 2 ^ sh" "pageshift h1 = sh" for v
    using e1 first h by (auto simp: last_run [OF n(1)] split: if_splits)
  have c1: "chain (lnk h1) (freelist e1) (xs @ ys) 0" using cut_chain [OF c d rne] l1(1,2) by simp
  have q0: "0 < q" using wf L(2) by (simp add: ext_wf_def)
  have dv: "(q - base e1) div 2 ^ sh = pages sh X" using L(2) l1(3) by simp
  have e2': "lnk h2 = split_links sh b q (lnk h1)" "h2 = h\<lparr>lnk := lnk h2\<rparr>" "base e2 = base e" "lim e2 = lim e"
      "freelist e2 = freelist e1"
      "pagemap e2 = mark_cont (b div 2 ^ sh) (pages sh X) ((pagemap e)(pages sh X := (if k \<noteq> 0 then k else RTHEAP_PLIST)))"
    using e2 l1(3-8) dv by (auto simp: splitpage_def split_links_def Let_def)
  have bl: "x \<in> {q..<q + n * 2 ^ sh}" if "x \<in> set (blocks sh q ?g)" for x
    using block_bounds [OF new_seg_facts(1) [OF r] that] new_seg_facts(2,4) [OF r] n(2) by auto
  have notin: "x \<notin> set (blocks sh q ?g)" if "x \<in> set (xs @ ys)" for x
  proof
    assume "x \<in> set (blocks sh q ?g)"
    then have "x \<in> {q..<q + n * 2 ^ sh}" by (rule bl)
    moreover have "x < q" if "x \<in> set xs" using fadr_bounds [of x sh "base e" X] that L less_le_trans [of x "x + 2 ^ sh" q] by simp
    moreover have "q + n * 2 ^ sh \<le> x" if "x \<in> set ys" using fadr_bounds [of x sh "q + n * 2 ^ sh" Y] that L by simp
    ultimately show False using that by auto
  qed
  have "chain (lnk h2) (freelist e2) (xs @ ys) 0"
    using c1 split_links_spec(2) [OF r q0, of _ "lnk h1"] notin
    unfolding e2'(1,5) by (subst chain_cong [of "xs @ ys" _ "lnk h1"]) auto
  moreover have "fadr sh (base e2) (X @ ?g # Y) = xs @ ys"
    using L new_seg_facts(3) [OF r] n(2) by (simp add: e2'(3))
  moreover note split_map [OF wf [unfolded L(1)] r n(2) e2'(6)]
  ultimately have "ext_wf sh np (lnk h2) e2 (X @ ?g # Y)"
    using wf L(1) new_seg_facts(1) [OF r] n(2) e2'(3,4) by (simp add: ext_wf_def)
  moreover have "chain (lnk h2) q (blocks sh q ?g) 0" unfolding e2'(1) by (rule split_links_spec(1) [OF r q0])
  moreover have "lnk h2 x = ?l x" if "x \<notin> set (fadr sh (base e) L)" "x \<notin> {q..<q + n * 2 ^ sh}" for x
  proof -
    have "lnk h2 x = lnk h1 x" unfolding e2'(1) using split_links_spec(2) [OF r q0] bl that(2) by blast
    moreover have "xs \<noteq> [] \<Longrightarrow> x \<noteq> last xs" using that(1) fr by auto
    ultimately show ?thesis using l1(1) by auto
  qed
  ultimately show ?thesis using that [OF L(1,2)] e2'(2-4) by blast
qed

section \<open>Giving pages back\<close>

lemma pagemap_at:
  assumes "ext_wf sh np l e (X @ g # Y)"
  shows "j < width sh g \<Longrightarrow> pagemap e (pages sh X + j) = seg_bytes sh g ! j"
    and "pagemap e (pages sh X + width sh g) \<noteq> RTHEAP_PCONT"
proof -
  have wf: "list_all (seg_ok sh) X" "seg_ok sh g" "list_all (seg_ok sh) Y" "np = pages sh X + width sh g + pages sh Y"
    "map (pagemap e) [0..<np] = map_bytes sh X @ seg_bytes sh g @ map_bytes sh Y" "pagemap e np \<noteq> RTHEAP_PCONT"
    using assms by (auto simp: ext_wf_def)
  have nth: "pagemap e i = (map_bytes sh X @ seg_bytes sh g @ map_bytes sh Y) ! i" if "i < np" for i
    using that wf(5) by (metis add.left_neutral diff_zero length_upt nth_map nth_upt)
  show "pagemap e (pages sh X + j) = seg_bytes sh g ! j" if "j < width sh g" for j
    using nth [of "pages sh X + j"] that wf(1,2,4) by (simp add: nth_append)
  show "pagemap e (pages sh X + width sh g) \<noteq> RTHEAP_PCONT"
  proof (cases Y)
    case Nil
    then show ?thesis using wf(4,6) by simp
  next
    case (Cons f Z)
    then have "0 < width sh f" using wf(3) width_pos [of sh f] by simp
    then have "pagemap e (pages sh X + width sh g) = seg_mark f"
      using nth [of "pages sh X + width sh g"] wf(1-4) Cons by (simp add: nth_append seg_bytes_def [of sh f])
    then show ?thesis using marks_not_cont [of sh f] wf(3) Cons by simp
  qed
qed

lemma count_pages_eq:
  "m \<le> n \<Longrightarrow> n \<le> np \<Longrightarrow> (\<And>j. m \<le> j \<Longrightarrow> j < n \<Longrightarrow> pm (i + j) = RTHEAP_PCONT) \<Longrightarrow> pm (i + n) \<noteq> RTHEAP_PCONT \<Longrightarrow>
   count_pages np pm i m = n"
proof (induction "n - m" arbitrary: m)
  case 0
  then show ?case by (simp add: count_pages.simps [of np pm i m])
next
  case (Suc d)
  then have "count_pages np pm i (Suc m) = n" by simp
  moreover have "m < n" using Suc.hyps(2) by simp
  then have "m < np" "pm (i + m) = RTHEAP_PCONT" using Suc.prems(2) Suc.prems(3) [of m] by auto
  ultimately show ?case by (simp add: count_pages.simps [of np pm i m])
qed

text \<open>The freed pages become the part of the list of free pages between those before and those behind them.\<close>

lemma join_chain:
  assumes "chain l p (xs @ ys) 0" "chain l' q rs z" "rs \<noteq> []" "distinct (xs @ rs @ ys)" "\<And>x. x \<notin> set rs \<Longrightarrow> l' x = l x"
    and z: "z = (if ys = [] then 0 else hd ys)"
  shows "chain (if xs = [] then l' else l'(last xs := q)) (if xs = [] then q else p) (xs @ rs @ ys) 0"
proof -
  obtain y where c: "chain l p xs y" "chain l y ys 0" using assms(1) by (auto simp: chain_append)
  have "y = z" using chain_start [OF c(2)] z by simp
  have le: "l' x = l x" if "x \<in> set xs \<union> set ys" for x using assms(4) assms(5) [of x] that by auto
  have ys: "chain l' y ys 0" using c(2) le by (auto intro!: chain_cong [of ys _ l, THEN iffD2])
  show ?thesis
  proof (cases "xs = []")
    case True
    then show ?thesis using assms(2) ys \<open>y = z\<close> by (auto simp: chain_append)
  next
    case False
    have "chain l' p xs y" using c(1) le by (auto intro!: chain_cong [of xs _ l, THEN iffD2])
    then have "chain (l'(last xs := q)) p xs q" using chain_redirect(1) assms(4) False by auto
    moreover have "chain (l'(last xs := q)) q rs z"
      using assms(2,4) False by (subst chain_cong [of rs _ l']) (auto dest: last_in_set)
    moreover have "chain (l'(last xs := q)) y ys 0"
      using ys assms(4) False by (subst chain_cong [of ys _ l']) (auto dest: last_in_set)
    ultimately show ?thesis using \<open>y = z\<close> False by (auto simp: chain_append)
  qed
qed

lemma free_map:
  assumes wf: "ext_wf sh np l e (X @ Range n # Y)"
  shows "map (mark_free n (pages sh X) (pagemap e)) [0..<np] = map_bytes sh (X @ replicate n Free @ Y)"
proof -
  have p: "mark_free n (pages sh X) (pagemap e) i = (if pages sh X \<le> i \<and> i < pages sh X + n then 0 else pagemap e i)" for i
    by (simp add: mark_free_eq)
  have "map (mark_free n (pages sh X) (pagemap e)) [pages sh X..<pages sh X + pages sh [Range n]] =
      map (\<lambda>_. 0) [pages sh X..<pages sh X + pages sh [Range n]]" by (rule map_cong) (auto simp: p)
  then have m: "map (mark_free n (pages sh X) (pagemap e)) [pages sh X..<pages sh X + pages sh [Range n]] =
      map_bytes sh (replicate n Free)" by (simp add: map_replicate_const)
  have out: "mark_free n (pages sh X) (pagemap e) i = pagemap e i"
    if "i < pages sh X \<or> pages sh X + pages sh [Range n] \<le> i" for i using that by (auto simp: p)
  show ?thesis
    by (rule map_bytes_replace [where G = "[Range n]" and pm = "pagemap e", OF _ _ _ _ _ out m])
      (use wf in \<open>simp_all add: ext_wf_def\<close>)
qed

text \<open>The release of a range of pages.\<close>

lemma free_range:
  assumes wf: "ext_wf sh np (lnk h) e (X @ Range n # Y)" and h: "pagesize h = 2 ^ sh" "pageshift h = sh" "npages h = np"
    and q: "q = base e + pages sh X * 2 ^ sh"
  obtains h' e' where "free_in_extent q e h = Some (Inr (h', e'))" "ext_wf sh np (lnk h') e' (X @ replicate n Free @ Y)"
    "h' = h\<lparr>lnk := lnk h', ubytes := ubytes h - n * 2 ^ sh\<rparr>" "base e' = base e" "lim e' = lim e"
    "\<And>x. x \<notin> set (fadr sh (base e) X) \<Longrightarrow> x \<notin> {q..<q + n * 2 ^ sh} \<Longrightarrow> lnk h' x = lnk h x"
proof -
  let ?i = "pages sh X" and ?ps = "(2 :: nat) ^ sh" and ?l = "lnk h"
  let ?xs = "fadr sh (base e) X" and ?rs = "run (2 ^ sh) n q" and ?ys = "fadr sh (q + n * 2 ^ sh) Y"
  have wf': "0 < n" "list_all (seg_ok sh) X" "list_all (seg_ok sh) Y" "np = ?i + n + pages sh Y" "0 < base e"
    "chain ?l (freelist e) (?xs @ ?ys) 0" using wf q by (auto simp: ext_wf_def)
  have m: "pagemap e ?i = RTHEAP_PLIST" "pagemap e (?i + n) \<noteq> RTHEAP_PCONT"
    "\<And>j. 1 \<le> j \<Longrightarrow> j < n \<Longrightarrow> pagemap e (?i + j) = RTHEAP_PCONT"
    using pagemap_at(1) [OF wf, of 0] pagemap_at(1) [OF wf] pagemap_at(2) [OF wf] wf'(1) by (auto simp: seg_bytes_def)
  have c: "count_pages np (pagemap e) ?i 1 = n" by (rule count_pages_eq) (use m wf'(1,4) in auto)
  define t where "t = q + (n - 1) * ?ps"
  have t: "q + n * ?ps - ?ps = t" using wf'(1) by (simp add: t_def diff_mult_distrib)
  define l1 where "l1 = link_until ?ps q t (?l t) ?l"
  have q0: "0 < q" "0 < ?ps" using q wf'(5) by simp_all
  note lu = link_until_spec [OF q0 wf'(1), of "?l t" ?l, folded t_def]
  have l1: "chain l1 q ?rs (?l t)" "\<And>x. x \<notin> set ?rs \<Longrightarrow> l1 x = ?l x" unfolding l1_def using lu by blast+
  have lt: "x < q" if "x \<in> set ?xs" for x
    using fadr_bounds [of x sh "base e" X] that q less_le_trans [of x "x + ?ps" q] by simp
  have gt: "q + n * ?ps \<le> y" if "y \<in> set ?ys" for y using fadr_bounds [of y sh "q + n * ?ps" Y] that by simp
  have rs: "q \<le> x \<and> x < q + n * ?ps" if "x \<in> set ?rs" for x using that by (auto simp: set_run)
  have d: "distinct (?xs @ ?rs @ ?ys)"
    using gaps_distinct [OF _ fadr_gaps [of sh "X @ replicate n Free @ Y" "base e"]] wf'(2,3) q by simp
  have c1: "chain l1 (freelist e) (?xs @ ?ys) 0"
    using wf'(6) l1(2) d by (subst chain_cong [of _ _ ?l]) auto
  define z where "z = (if ?ys = [] then 0 else hd ?ys)"
  have fp: "find_place l1 q (freelist e) 0 = Some (z, if ?xs = [] then 0 else last ?xs)"
    unfolding z_def by (rule find_place_spec [OF c1]) (use lt gt add_leD1 in blast)+
  have lz: "?xs \<noteq> [] \<Longrightarrow> last ?xs \<noteq> 0"
    using fadr_bounds [of "last ?xs" sh "base e" X] wf'(5) by fastforce
  have rne: "?rs \<noteq> []" using wf'(1) by (cases n) auto
  have tl: "last ?rs = t" using last_run [OF wf'(1)] by (simp add: t_def)
  have c2: "chain (l1(t := z)) q ?rs z" using chain_redirect(1) [OF l1(1) _ rne, of z] d tl by simp
  define l2 where "l2 = (if ?xs = [] then l1(t := z) else (l1(t := z))(last ?xs := q))"
  have tin: "t \<in> set ?rs" using tl rne last_in_set [of ?rs] by simp
  have c3: "chain l2 (if ?xs = [] then q else freelist e) (?xs @ ?rs @ ?ys) 0"
    unfolding l2_def
    by (rule join_chain [OF wf'(6) c2 rne d _ z_def]) (use l1(2) tin in auto)
  define h' where "h' = h\<lparr>lnk := l2, ubytes := ubytes h - n * ?ps\<rparr>"
  define e' where "e' = e\<lparr>pagemap := mark_free n ?i (pagemap e), freelist := (if ?xs = [] then q else freelist e)\<rparr>"
  have "(q - base e) div ?ps = ?i" using q by simp
  then have "free_in_extent q e h = Some (Inr (h', e'))"
    using m(1) c t fp lz h unfolding free_in_extent_def h'_def e'_def l1_def [symmetric]
    by (simp add: Let_def l1_def [symmetric] l2_def)
  moreover have "ext_wf sh np (lnk h') e' (X @ replicate n Free @ Y)"
    using free_map [OF wf] wf c3 wf'(4) q by (auto simp: ext_wf_def e'_def h'_def mark_free_eq)
  moreover have "lnk h' x = ?l x" if "x \<notin> set (fadr sh (base e) X)" "x \<notin> {q..<q + n * ?ps}" for x
  proof -
    have "x \<notin> set ?rs" using rs that(2) by fastforce
    moreover have "?xs \<noteq> [] \<Longrightarrow> x \<noteq> last ?xs" using that(1) last_in_set [of ?xs] by auto
    ultimately show ?thesis using l1(2) tin by (auto simp: h'_def l2_def)
  qed
  ultimately show ?thesis using that [of h' e'] by (simp add: h'_def e'_def)
qed

end
