(* ===== verification/Gpma_Heap.thy ===== *)
theory Gpma_Heap
  imports Gpma_Extents
begin

text \<open>The heap of the page allocator: the invariant \<open>gpma_wf\<close> and what requests, releases and start-up do to it.\<close>

section \<open>The invariant\<close>

definition segs :: "nat \<Rightarrow> rtextent_bsd list \<Rightarrow> seg list list \<Rightarrow> (nat \<times> seg) list" where
  "segs sh es Ls = concat (map2 (\<lambda>e L. placed sh (base e) L) es Ls)"

definition bucket_ok :: "nat \<Rightarrow> (nat \<times> seg) set \<Rightarrow> (nat \<Rightarrow> nat list) \<Rightarrow> bool" where
  "bucket_ok sh S B \<longleftrightarrow> (\<forall>k. distinct (B k) \<and> (\<forall>x\<in>set (B k). \<exists>p. (p, Slab (k + 4)) \<in> S \<and> x \<in> set (blocks sh p (Slab (k + 4)))))"

text \<open>\<open>Ls\<close> are the rows of the extents, \<open>B\<close> the lists of the buckets.\<close>

definition gpma_wf :: "rtheap_bsd \<Rightarrow> seg list list \<Rightarrow> (nat \<Rightarrow> nat list) \<Rightarrow> bool" where
  "gpma_wf h Ls B \<longleftrightarrow> pagesize h = 2 ^ pageshift h \<and> 4 \<le> pageshift h \<and> pageshift h \<le> 22 \<and>
     maxcont h = npages h * 2 ^ pageshift h \<and>
     list_all2 (ext_wf (pageshift h) (npages h) (lnk h)) (exts h) Ls \<and>
     sorted_wrt (\<lambda>e f. lim e \<le> base f \<or> lim f \<le> base e) (exts h) \<and>
     (\<forall>k. chain (lnk h) (buckets h k) (B k) 0) \<and> bucket_ok (pageshift h) (set (segs (pageshift h) (exts h) Ls)) B"

text \<open>The blocks in use, with their sizes.\<close>

definition used :: "nat \<Rightarrow> (nat \<times> seg) set \<Rightarrow> (nat \<Rightarrow> nat list) \<Rightarrow> (nat \<times> nat) set" where
  "used sh S B = {(x, block_size sh g) | p g x. (p, g) \<in> S \<and> x \<in> set (blocks sh p g) \<and> (\<forall>k. g = Slab k \<longrightarrow> x \<notin> set (B (k - 4)))}"

lemma segs_Cons [simp]: "segs sh (e # es) (L # Ls) = placed sh (base e) L @ segs sh es Ls" "segs sh [] Ls = []"
  by (simp_all add: segs_def)

lemma segs_append: "length es1 = length L1 \<Longrightarrow> segs sh (es1 @ es2) (L1 @ L2) = segs sh es1 L1 @ segs sh es2 L2"
  by (simp add: segs_def)

lemma segs_base: "map base es' = map base es \<Longrightarrow> segs sh es' Ls = segs sh es Ls"
proof -
  have "segs sh es Ls = concat (map2 (placed sh) (map base es) Ls)" for es by (simp add: segs_def zip_map1 case_prod_unfold comp_def)
  then show "map base es' = map base es \<Longrightarrow> segs sh es' Ls = segs sh es Ls" by simp
qed

lemma placed_apart:
  assumes "(p, g) \<in> set (placed sh a L)" "(q, f) \<in> set (placed sh a L)"
  shows "(p, g) = (q, f) \<or> p + width sh g * 2 ^ sh \<le> q \<or> q + width sh f * 2 ^ sh \<le> p"
proof -
  obtain X Y where L: "L = X @ g # Y" "p = a + pages sh X * 2 ^ sh" using placed_split [OF assms(1)] by blast
  have "(q, f) \<in> set (placed sh a X) \<or> (q, f) = (p, g) \<or> (q, f) \<in> set (placed sh (p + width sh g * 2 ^ sh) Y)"
    using assms(2) L by auto
  then show ?thesis using placed_bounds [of q f sh a X] placed_bounds [of q f sh "p + width sh g * 2 ^ sh" Y] L(2) by auto
qed

lemma segs_mem:
  assumes "list_all2 (ext_wf sh np l) es Ls" "(p, g) \<in> set (segs sh es Ls)"
  obtains e L where "e \<in> set es" "ext_wf sh np l e L" "(p, g) \<in> set (placed sh (base e) L)" "base e \<le> p"
    "p + width sh g * 2 ^ sh \<le> lim e" "seg_ok sh g" "(e, L) \<in> set (zip es Ls)"
proof -
  obtain e L where e: "(e, L) \<in> set (zip es Ls)" "(p, g) \<in> set (placed sh (base e) L)" using assms(2) by (auto simp: segs_def)
  have wf: "ext_wf sh np l e L" using assms(1) e(1) by (auto simp: list_all2_iff)
  have "seg_ok sh g"
  proof -
    obtain X Y where "L = X @ g # Y" using placed_split [OF e(2)] by blast
    then show ?thesis using wf by (simp add: ext_wf_def)
  qed
  moreover have "base e \<le> p \<and> p + width sh g * 2 ^ sh \<le> lim e"
    using placed_bounds [OF e(2)] wf by (simp add: ext_wf_def)
  ultimately show ?thesis using that [OF _ wf e(2)] e(1) by (meson set_zip_leftD)
qed

lemma exts_apart:
  assumes "sorted_wrt (\<lambda>e f. lim e \<le> base f \<or> lim f \<le> base e) es" "length Ls = length es"
    "(e, L) \<in> set (zip es Ls)" "(f, M) \<in> set (zip es Ls)"
  shows "(e, L) = (f, M) \<or> lim e \<le> base f \<or> lim f \<le> base e"
proof -
  obtain i j where i: "i < length es" "e = es ! i" "L = Ls ! i" and j: "j < length es" "f = es ! j" "M = Ls ! j"
    using assms(3,4) by (auto simp: in_set_zip)
  show ?thesis using assms(1) i j sorted_wrt_nth_less [OF assms(1), of i j] sorted_wrt_nth_less [OF assms(1), of j i]
    by (cases i j rule: linorder_cases) auto
qed

lemma segs_apart:
  assumes "list_all2 (ext_wf sh np l) es Ls" "sorted_wrt (\<lambda>e f. lim e \<le> base f \<or> lim f \<le> base e) es"
    "(p, g) \<in> set (segs sh es Ls)" "(q, f) \<in> set (segs sh es Ls)"
  shows "(p, g) = (q, f) \<or> p + width sh g * 2 ^ sh \<le> q \<or> q + width sh f * 2 ^ sh \<le> p"
proof -
  obtain e L where e: "(p, g) \<in> set (placed sh (base e) L)" "base e \<le> p" "p + width sh g * 2 ^ sh \<le> lim e" "(e, L) \<in> set (zip es Ls)"
    by (rule segs_mem [OF assms(1,3)]) blast
  obtain e' L' where e': "(q, f) \<in> set (placed sh (base e') L')" "base e' \<le> q" "q + width sh f * 2 ^ sh \<le> lim e'" "(e', L') \<in> set (zip es Ls)"
    by (rule segs_mem [OF assms(1,4)]) blast
  have "length Ls = length es" using assms(1) list_all2_lengthD by fastforce
  then consider "(e, L) = (e', L')" | "lim e \<le> base e'" | "lim e' \<le> base e" using exts_apart [OF assms(2) _ e(4) e'(4)] by blast
  then show ?thesis
  proof cases
    case 1
    then show ?thesis using placed_apart e(1) e'(1) by blast
  qed (use e(2,3) e'(2,3) in auto)
qed

lemma segs_overlap:
  assumes "list_all2 (ext_wf sh np l) es Ls" "sorted_wrt (\<lambda>e f. lim e \<le> base f \<or> lim f \<le> base e) es"
    "(p, g) \<in> set (segs sh es Ls)" "(q, f) \<in> set (segs sh es Ls)"
    "p \<le> x" "x < p + width sh g * 2 ^ sh" "q \<le> x" "x < q + width sh f * 2 ^ sh"
  shows "(p, g) = (q, f)"
  using segs_apart [OF assms(1-4)] assms(5-8) by linarith

lemma ext_frame:
  assumes "ext_wf sh np l e L" "\<And>x. base e \<le> x \<Longrightarrow> x < lim e \<Longrightarrow> l' x = l x"
  shows "ext_wf sh np l' e L"
proof -
  have "base e \<le> x \<and> x < lim e" if "x \<in> set (fadr sh (base e) L)" for x
    using fadr_bounds [OF that] assms(1) less_le_trans [of x "x + 2 ^ sh" "lim e"] by (simp add: ext_wf_def)
  then have "chain l' (freelist e) (fadr sh (base e) L) 0 = chain l (freelist e) (fadr sh (base e) L) 0"
    by (intro chain_cong) (use assms(2) in blast)
  then show ?thesis using assms(1) by (simp add: ext_wf_def)
qed

section \<open>Searching the extents\<close>

lemma get_free_range_cases:
  assumes "list_all2 (ext_wf sh np (lnk h)) es Ls" "pagesize h = 2 ^ sh" "pageshift h = sh" "req_ok sh b k"
    and n: "n = width sh (new_seg sh b k)"
  shows "get_free_range b k es h = Some (h, es, 0) \<and> (\<forall>L\<in>set Ls. \<forall>X Y. L \<noteq> X @ replicate n Free @ Y) \<or>
    (\<exists>es1 e es2 L1 X Y L2 h2 e2 q. es = es1 @ e # es2 \<and> Ls = L1 @ (X @ replicate n Free @ Y) # L2 \<and> length es1 = length L1 \<and>
       get_free_range b k es h = Some (h2, es1 @ e2 # es2, q) \<and> q = base e + pages sh X * 2 ^ sh \<and>
       ext_wf sh np (lnk h2) e2 (X @ new_seg sh b k # Y) \<and> chain (lnk h2) q (blocks sh q (new_seg sh b k)) 0 \<and>
       h2 = h\<lparr>lnk := lnk h2\<rparr> \<and> base e2 = base e \<and> lim e2 = lim e \<and>
       (\<forall>x. x \<notin> set (fadr sh (base e) (X @ replicate n Free @ Y)) \<longrightarrow> x \<notin> {q..<q + n * 2 ^ sh} \<longrightarrow> lnk h2 x = lnk h x))"
  using assms(1)
proof (induction es arbitrary: Ls)
  case (Cons e es)
  obtain L Ls' where Ls: "Ls = L # Ls'" "ext_wf sh np (lnk h) e L" "list_all2 (ext_wf sh np (lnk h)) es Ls'"
    using Cons.prems by (auto simp: list_all2_Cons1)
  let ?fs = "fadr sh (base e) L"
  have c: "chain (lnk h) (freelist e) ?fs 0" "list_all (seg_ok sh) L" using Ls(2) by (auto simp: ext_wf_def)
  have np: "0 < n" using n width_pos [OF new_seg_facts(1) [OF assms(4)]] by simp
  from find_run_spec [OF c(1) fadr_gaps [OF c(2)], of b 0] new_seg_facts(4) [OF assms(4)]
  consider (no) "find_run (lnk h) (2 ^ sh) b (freelist e) 0 = Some None" "\<forall>q m. b \<le> m * 2 ^ sh \<longrightarrow> \<not> set (run (2 ^ sh) m q) \<subseteq> set ?fs"
    | (yes) xs q m ys where
      "find_run (lnk h) (2 ^ sh) b (freelist e) 0 = Some (Some (q, q + (m - 1) * 2 ^ sh, if xs = [] then 0 else last xs))"
      "?fs = xs @ run (2 ^ sh) m q @ ys" "0 < m" "b \<le> m * 2 ^ sh" "(m - 1) * 2 ^ sh < b" by auto
  then show ?case
  proof cases
    case yes
    have m: "m = n" using new_seg_width [OF assms(4) yes(3-5)] n by simp
    obtain h1 e1 where e1: "(h1, e1) = (if q = freelist e then (h, e\<lparr>freelist := lnk h (q + (n - 1) * 2 ^ sh)\<rparr>)
       else (h\<lparr>lnk := (lnk h)((if xs = [] then 0 else last xs) := lnk h (q + (n - 1) * 2 ^ sh))\<rparr>, e))" by (metis surj_pair)
    obtain h2 e2 where e2: "splitpage q b k e1 h1 = (h2, e2)" by (metis surj_pair)
    have g: "get_free_range b k (e # es) h = Some (h2, e2 # es, q)"
      using yes(1) e1 e2 assms(2) m by (cases "q = freelist e") (simp_all add: Let_def)
    obtain X Y where t: "L = X @ replicate n Free @ Y" "q = base e + pages sh X * 2 ^ sh"
        "ext_wf sh np (lnk h2) e2 (X @ new_seg sh b k # Y)" "chain (lnk h2) q (blocks sh q (new_seg sh b k)) 0"
        "h2 = h\<lparr>lnk := lnk h2\<rparr>" "base e2 = base e" "lim e2 = lim e"
        "\<And>x. x \<notin> set (fadr sh (base e) L) \<Longrightarrow> x \<notin> {q..<q + n * 2 ^ sh} \<Longrightarrow> lnk h2 x = lnk h x"
      by (rule take_range [OF Ls(2) assms(2-4) yes(2) [unfolded m] np n e1 e2]) blast
    show ?thesis
      by (intro disjI2 exI [of _ "[]"] exI [of _ e] exI [of _ es] exI [of _ X] exI [of _ Y] exI [of _ Ls'] exI [of _ h2]
          exI [of _ e2] exI [of _ q]) (use t g Ls(1) in auto)
  next
    case no
    have none: "L \<noteq> X @ replicate n Free @ Y" for X Y
    proof
      assume L: "L = X @ replicate n Free @ Y"
      have "set (run (2 ^ sh) n (base e + pages sh X * 2 ^ sh)) \<subseteq> set ?fs" by (auto simp: L)
      moreover have "b \<le> n * 2 ^ sh" using new_seg_facts(5) [OF assms(4)] n by simp
      ultimately show False using no(2) by blast
    qed
    have g: "get_free_range b k (e # es) h = map_option (\<lambda>(h', es', p). (h', e # es', p)) (get_free_range b k es h)"
      using no(1) assms(2) by simp
    from Cons.IH [OF Ls(3)] show ?thesis
    proof (elim disjE exE conjE)
      fix es1 f es2 L1 X Y L2 h2 e2 q
      assume *: "es = es1 @ f # es2" "Ls' = L1 @ (X @ replicate n Free @ Y) # L2" "length es1 = length L1"
        "get_free_range b k es h = Some (h2, es1 @ e2 # es2, q)" "q = base f + pages sh X * 2 ^ sh"
        "ext_wf sh np (lnk h2) e2 (X @ new_seg sh b k # Y)" "chain (lnk h2) q (blocks sh q (new_seg sh b k)) 0"
        "h2 = h\<lparr>lnk := lnk h2\<rparr>" "base e2 = base f" "lim e2 = lim f"
        "\<forall>x. x \<notin> set (fadr sh (base f) (X @ replicate n Free @ Y)) \<longrightarrow> x \<notin> {q..<q + n * 2 ^ sh} \<longrightarrow> lnk h2 x = lnk h x"
      show ?thesis
        by (rule disjI2, rule exI [of _ "e # es1"], rule exI [of _ f], rule exI [of _ es2], rule exI [of _ "L # L1"],
            rule exI [of _ X], rule exI [of _ Y], rule exI [of _ L2], rule exI [of _ h2], rule exI [of _ e2], rule exI [of _ q])
          (use * g Ls(1) in auto)
    qed (use g none Ls(1) in auto)
  qed
qed simp

end
