(* ===== verification/Gpma_Ops.thy ===== *)
theory Gpma_Ops
  imports Gpma_Heap
begin

text \<open>What requests and releases do to the invariant of a heap of the page allocator and to the set of the blocks in
  use.\<close>

section \<open>Replacing the row of one extent\<close>

lemma run_page:
  assumes "x \<in> {q..<q + n * d}"
  obtains y where "y \<in> set (run d n q)" "y \<le> x" "x < y + d"
proof -
  have d: "0 < d" using assms by (cases d) auto
  define j where "j = (x - q) div d"
  have "j * d \<le> x - q" "x - q < j * d + d" using d dividend_less_div_times [OF d, of "x - q"] by (auto simp: j_def)
  moreover have "j < n" using assms d by (auto simp: j_def less_mult_imp_div_less)
  ultimately show ?thesis using assms that [of "q + j * d"] by (auto simp: set_run)
qed

lemma replace_row:
  assumes la: "list_all2 (ext_wf sh np l) (es1 @ e # es2) (L1 @ L # L2)" "length es1 = length L1"
    and so: "sorted_wrt (\<lambda>e f. lim e \<le> base f \<or> lim f \<le> base e) (es1 @ e # es2)"
    and e2: "ext_wf sh np l' e2 L'" "base e2 = base e" "lim e2 = lim e"
    and l': "\<And>x. x < base e \<or> lim e \<le> x \<Longrightarrow> l' x = l x"
  shows "list_all2 (ext_wf sh np l') (es1 @ e2 # es2) (L1 @ L' # L2)"
    and "sorted_wrt (\<lambda>e f. lim e \<le> base f \<or> lim f \<le> base e) (es1 @ e2 # es2)"
    and "set (segs sh (es1 @ e2 # es2) (L1 @ L' # L2)) = set (segs sh es1 L1) \<union> set (placed sh (base e) L') \<union> set (segs sh es2 L2)"
    and "set (segs sh (es1 @ e # es2) (L1 @ L # L2)) = set (segs sh es1 L1) \<union> set (placed sh (base e) L) \<union> set (segs sh es2 L2)"
proof -
  have fr: "list_all2 (ext_wf sh np l') es Ls" if "list_all2 (ext_wf sh np l) es Ls" "set es \<subseteq> set es1 \<union> set es2" for es Ls
  proof -
    have "ext_wf sh np l' f M" if f: "ext_wf sh np l f M" "f \<in> set es1 \<union> set es2" for f M
    proof (rule ext_frame [OF f(1)])
      fix x
      assume x: "base f \<le> x" "x < lim f"
      have "lim e \<le> base f \<or> lim f \<le> base e" using so f(2) by (auto simp: sorted_wrt_append)
      then show "l' x = l x" using l' [of x] x by linarith
    qed
    moreover have "f \<in> set es1 \<union> set es2" if "(f, M) \<in> set (zip es Ls)" for f M
      using set_zip_leftD [OF that] \<open>set es \<subseteq> set es1 \<union> set es2\<close> by blast
    ultimately show ?thesis using that(1) by (fastforce simp: list_all2_iff)
  qed
  have "list_all2 (ext_wf sh np l) es1 L1" "list_all2 (ext_wf sh np l) es2 L2" using la by (auto simp: list_all2_append)
  then show "list_all2 (ext_wf sh np l') (es1 @ e2 # es2) (L1 @ L' # L2)" using fr e2(1) la(2) by (simp add: list_all2_append)
  show "sorted_wrt (\<lambda>e f. lim e \<le> base f \<or> lim f \<le> base e) (es1 @ e2 # es2)"
    using so e2(2,3) by (auto simp: sorted_wrt_append)
  show "set (segs sh (es1 @ e2 # es2) (L1 @ L' # L2)) = set (segs sh es1 L1) \<union> set (placed sh (base e) L') \<union> set (segs sh es2 L2)"
    "set (segs sh (es1 @ e # es2) (L1 @ L # L2)) = set (segs sh es1 L1) \<union> set (placed sh (base e) L) \<union> set (segs sh es2 L2)"
    using la(2) e2(2) by (auto simp: segs_append)
qed

lemma free_outside: "(p, g) \<in> set (placed sh a (replicate n Free)) \<Longrightarrow> g = Free"
  by (induction n arbitrary: a) auto

text \<open>The words of the blocks of a segment are not among the words of free pages.\<close>

lemma block_not_free:
  assumes "list_all2 (ext_wf sh np l) es Ls" "sorted_wrt (\<lambda>e f. lim e \<le> base f \<or> lim f \<le> base e) es"
    "(p, g) \<in> set (segs sh es Ls)" "g \<noteq> Free" "x \<in> set (blocks sh p g)" "(y, Free) \<in> set (segs sh es Ls)" "y \<le> x"
  shows "y + 2 ^ sh \<le> x"
proof (rule ccontr)
  assume n: "\<not> y + 2 ^ sh \<le> x"
  have ok: "seg_ok sh g" by (rule segs_mem [OF assms(1,3)]) blast
  have "0 < block_size sh g" using ok assms(4) by (cases g) auto
  then have "p \<le> x" "x < p + width sh g * 2 ^ sh" using block_bounds [OF ok assms(5)] by auto
  then have "(p, g) = (y, Free)" using segs_overlap [OF assms(1-3,6), of x] n assms(7) by simp
  then show False using assms(4) by simp
qed

definition same_params :: "rtheap_bsd \<Rightarrow> rtheap_bsd \<Rightarrow> bool" where
  "same_params h h' \<longleftrightarrow> pagesize h' = pagesize h \<and> pageshift h' = pageshift h \<and> npages h' = npages h \<and> maxcont h' = maxcont h \<and>
     map base (exts h') = map base (exts h) \<and> map lim (exts h') = map lim (exts h)"

text \<open>A range taken from the free pages: the rows, the links, the blocks of the new segment.\<close>

lemma take_pages:
  assumes wf: "gpma_wf h Ls B" and sh: "sh = pageshift h" and r: "req_ok sh b k" and n: "n = width sh (new_seg sh b k)"
  shows "get_free_range b k (exts h) h = Some (h, exts h, 0) \<and> (\<forall>L\<in>set Ls. \<forall>X Y. L \<noteq> X @ replicate n Free @ Y) \<or>
    (\<exists>h2 es q Ls'. get_free_range b k (exts h) h = Some (h2, es, q) \<and> 0 < q \<and> h2 = h\<lparr>lnk := lnk h2\<rparr> \<and>
       map base es = map base (exts h) \<and> map lim es = map lim (exts h) \<and>
       list_all2 (ext_wf sh (npages h) (lnk h2)) es Ls' \<and> sorted_wrt (\<lambda>e f. lim e \<le> base f \<or> lim f \<le> base e) es \<and>
       (\<forall>j. chain (lnk h2) (buckets h j) (B j) 0) \<and> chain (lnk h2) q (blocks sh q (new_seg sh b k)) 0 \<and>
       (\<forall>p g. g \<noteq> Free \<longrightarrow> (p, g) \<in> set (segs sh es Ls') \<longleftrightarrow> (p, g) \<in> set (segs sh (exts h) Ls) \<or> (p, g) = (q, new_seg sh b k)) \<and>
       (q, new_seg sh b k) \<notin> set (segs sh (exts h) Ls))"
proof -
  have w: "pagesize h = 2 ^ sh" "list_all2 (ext_wf sh (npages h) (lnk h)) (exts h) Ls"
    "sorted_wrt (\<lambda>e f. lim e \<le> base f \<or> lim f \<le> base e) (exts h)" "\<And>j. chain (lnk h) (buckets h j) (B j) 0"
    "bucket_ok sh (set (segs sh (exts h) Ls)) B" using wf by (auto simp: gpma_wf_def sh)
  let ?g = "new_seg sh b k"
  note f = new_seg_facts [OF r]
  show ?thesis
    using get_free_range_cases [OF w(2,1) sh [symmetric] r n]
  proof (elim disjE exE conjE, goal_cases)
    case (2 es1 e es2 L1 X Y L2 h2 e2 q)
    have l: "lnk h2 x = lnk h x" if "x \<notin> set (fadr sh (base e) (X @ replicate n Free @ Y))" "x \<notin> {q..<q + n * 2 ^ sh}" for x
      using 2(11) that by blast
    have ew: "ext_wf sh (npages h) (lnk h) e (X @ replicate n Free @ Y)" using w(2) 2(1-3) by (simp add: list_all2_append)
    then have lm: "lim e = base e + pages sh (X @ replicate n Free @ Y) * 2 ^ sh" "0 < base e" by (simp_all add: ext_wf_def)
    have out: "lnk h2 x = lnk h x" if x: "x < base e \<or> lim e \<le> x" for x
    proof (rule l)
      show "x \<notin> set (fadr sh (base e) (X @ replicate n Free @ Y))"
        using fadr_bounds [of x sh "base e" "X @ replicate n Free @ Y"] lm(1) x
          less_le_trans [of x "x + 2 ^ sh" "lim e"] by fastforce
      show "x \<notin> {q..<q + n * 2 ^ sh}" using x lm(1) 2(5) by (auto simp: algebra_simps)
    qed
    note rr = replace_row [OF w(2) [unfolded 2(1,2)] 2(3) w(3) [unfolded 2(1)] 2(6,9,10) out]
    have sg: "set (segs sh (exts h) Ls) = set (segs sh es1 L1) \<union> set (placed sh (base e) (X @ replicate n Free @ Y)) \<union> set (segs sh es2 L2)"
      unfolding 2(1,2) by (rule rr(4))
    have sg': "set (segs sh (es1 @ e2 # es2) (L1 @ (X @ ?g # Y) # L2)) =
        set (segs sh es1 L1) \<union> set (placed sh (base e) (X @ ?g # Y)) \<union> set (segs sh es2 L2)" by (rule rr(3))
    have fr: "(y, Free) \<in> set (segs sh (exts h) Ls)" if "y \<in> set (fadr sh (base e) (X @ replicate n Free @ Y))" for y
      using that unfolding sg fadr_placed by blast
    have "chain (lnk h2) (buckets h j) (B j) 0" for j
    proof -
      have "lnk h2 x = lnk h x" if "x \<in> set (B j)" for x
      proof (rule l)
        obtain p where p: "(p, Slab (j + 4)) \<in> set (segs sh (exts h) Ls)" "x \<in> set (blocks sh p (Slab (j + 4)))"
          using w(5) \<open>x \<in> set (B j)\<close> unfolding bucket_ok_def by blast
        note blf = block_not_free [OF w(2,3) p(1) _ p(2)]
        show "x \<notin> set (fadr sh (base e) (X @ replicate n Free @ Y))" using blf [OF _ fr] by fastforce
        show "x \<notin> {q..<q + n * 2 ^ sh}"
        proof
          assume "x \<in> {q..<q + n * 2 ^ sh}"
          then obtain y where y: "y \<in> set (run (2 ^ sh) n q)" "y \<le> x" "x < y + 2 ^ sh" by (rule run_page)
          then have "y \<in> set (fadr sh (base e) (X @ replicate n Free @ Y))" using 2(5) by simp
          then show False using blf [OF _ fr, of y] y by simp
        qed
      qed
      then show ?thesis using w(4) [of j] by (simp add: chain_cong [of "B j" "lnk h2" "lnk h"])
    qed
    moreover have "(p, g) \<in> set (segs sh (es1 @ e2 # es2) (L1 @ (X @ ?g # Y) # L2)) \<longleftrightarrow>
        (p, g) \<in> set (segs sh (exts h) Ls) \<or> (p, g) = (q, ?g)" if "g \<noteq> Free" for p g
      unfolding sg' sg using that 2(5) n by (auto dest: free_outside)
    moreover have "(q, ?g) \<notin> set (segs sh (exts h) Ls)"
    proof
      assume a: "(q, ?g) \<in> set (segs sh (exts h) Ls)"
      have "0 < n" using n width_pos [OF f(1)] by simp
      then have "q \<in> set (run (2 ^ sh) n q)" by (cases n) auto
      then have "(q, Free) \<in> set (segs sh (exts h) Ls)" using fr [of q] 2(5) by simp
      moreover obtain qs where "blocks sh q ?g = q # qs" using block_first [OF f(3)] by blast
      ultimately show False using block_not_free [OF w(2,3) a f(3), of q q] by simp
    qed
    ultimately show ?case
      by (intro disjI2 exI [of _ h2] exI [of _ "es1 @ e2 # es2"] exI [of _ q] exI [of _ "L1 @ (X @ ?g # Y) # L2"] conjI)
        (use 2 rr(1,2) lm(2) in auto)
  qed blast
qed

section \<open>Blocks in use\<close>

definition uniq_blocks :: "nat \<Rightarrow> (nat \<times> seg) set \<Rightarrow> bool" where
  "uniq_blocks sh S \<longleftrightarrow> (\<forall>p g q f x. (p, g) \<in> S \<longrightarrow> (q, f) \<in> S \<longrightarrow> x \<in> set (blocks sh p g) \<longrightarrow> x \<in> set (blocks sh q f) \<longrightarrow> (p, g) = (q, f))
     \<and> (\<forall>p k. (p, Slab k) \<in> S \<longrightarrow> 4 \<le> k)"

lemma segs_uniq:
  assumes "list_all2 (ext_wf sh np l) es Ls" "sorted_wrt (\<lambda>e f. lim e \<le> base f \<or> lim f \<le> base e) es"
  shows "uniq_blocks sh (set (segs sh es Ls))"
proof -
  have in_seg: "p \<le> x \<and> x < p + width sh g * 2 ^ sh" if pg: "(p, g) \<in> set (segs sh es Ls)" "x \<in> set (blocks sh p g)" for p g x
  proof -
    have ok: "seg_ok sh g" by (rule segs_mem [OF assms(1) pg(1)]) blast
    have "0 < block_size sh g" using ok pg(2) by (cases g) auto
    then show ?thesis using block_bounds [OF ok pg(2)] by linarith
  qed
  have "4 \<le> k" if "(p, Slab k) \<in> set (segs sh es Ls)" for p k using segs_mem [OF assms(1) that] by fastforce
  then show ?thesis using segs_overlap [OF assms] in_seg unfolding uniq_blocks_def by blast
qed

lemma usedI:
  assumes "(p, g) \<in> S" "x \<in> set (blocks sh p g)" "\<And>k. g = Slab k \<Longrightarrow> x \<notin> set (B (k - 4))" "y = (x, block_size sh g)"
  shows "y \<in> used sh S B"
  using assms unfolding used_def by blast

lemma usedE:
  assumes "y \<in> used sh S B"
  obtains p g x where "y = (x, block_size sh g)" "(p, g) \<in> S" "x \<in> set (blocks sh p g)" "\<forall>k. g = Slab k \<longrightarrow> x \<notin> set (B (k - 4))"
  using assms unfolding used_def by blast

lemma used_pop:
  assumes "uniq_blocks sh S" "bucket_ok sh S B" "B j = x # xs"
  shows "used sh S (B(j := xs)) = insert (x, 2 ^ (j + 4)) (used sh S B)" "x \<notin> fst ` used sh S B" "bucket_ok sh S (B(j := xs))"
proof -
  obtain p where p: "(p, Slab (j + 4)) \<in> S" "x \<in> set (blocks sh p (Slab (j + 4)))" "x \<notin> set xs"
    using assms(2,3) unfolding bucket_ok_def by (metis distinct.simps(2) list.set_intros(1))
  have u: "(q, g) = (p, Slab (j + 4))" if "(q, g) \<in> S" "x \<in> set (blocks sh q g)" for q g
    using assms(1) p that unfolding uniq_blocks_def by blast
  have k4: "4 \<le> k" if "(q, Slab k) \<in> S" for q k using assms(1) that unfolding uniq_blocks_def by blast
  show "bucket_ok sh S (B(j := xs))" using assms(2,3) unfolding bucket_ok_def by (metis distinct.simps(2) fun_upd_apply list.set_intros(2))
  show "x \<notin> fst ` used sh S B"
  proof
    assume "x \<in> fst ` used sh S B"
    then obtain q g where q: "(q, g) \<in> S" "x \<in> set (blocks sh q g)" "\<forall>k. g = Slab k \<longrightarrow> x \<notin> set (B (k - 4))"
      by (auto simp: used_def)
    then have "g = Slab (j + 4)" using u by blast
    then show False using q(3) assms(3) by simp
  qed
  have eq: "(\<forall>k. g = Slab k \<longrightarrow> y \<notin> set ((B(j := xs)) (k - 4))) \<longleftrightarrow> y = x \<or> (\<forall>k. g = Slab k \<longrightarrow> y \<notin> set (B (k - 4)))"
    if "(q, g) \<in> S" "y \<in> set (blocks sh q g)" for q g y
  proof (cases "\<exists>k. g = Slab k")
    case True
    then obtain k where k: "g = Slab k" by blast
    show ?thesis
    proof (cases "k = j + 4")
      case True
      then show ?thesis using k assms(3) p(3) by auto
    next
      case False
      then have "k - 4 \<noteq> j" using k4 [of q k] that(1) k by auto
      moreover have "y \<noteq> x" using u [OF that(1)] that(2) k False by blast
      ultimately show ?thesis using k by auto
    qed
  qed auto
  show "used sh S (B(j := xs)) = insert (x, 2 ^ (j + 4)) (used sh S B)" (is "?l = ?r")
  proof
    show "?l \<subseteq> ?r"
    proof
      fix y
      assume "y \<in> ?l"
      then obtain q g z where q: "y = (z, block_size sh g)" "(q, g) \<in> S" "z \<in> set (blocks sh q g)"
        "\<forall>k. g = Slab k \<longrightarrow> z \<notin> set ((B(j := xs)) (k - 4))" unfolding used_def by blast
      then consider "z = x" | "\<forall>k. g = Slab k \<longrightarrow> z \<notin> set (B (k - 4))" using eq by blast
      then show "y \<in> ?r"
      proof cases
        case 1
        then have "g = Slab (j + 4)" using u q(2,3) by blast
        then show ?thesis using q(1) 1 by simp
      qed (use q in \<open>auto simp: used_def\<close>)
    qed
    show "?r \<subseteq> ?l"
    proof
      fix y
      assume "y \<in> ?r"
      then consider "y = (x, 2 ^ (j + 4))" | "y \<in> used sh S B" by blast
      then show "y \<in> ?l"
      proof cases
        case 1
        have "\<forall>k. Slab (j + 4) = Slab k \<longrightarrow> x \<notin> set ((B(j := xs)) (k - 4))" using eq [OF p(1,2)] by simp
        then show ?thesis by (intro usedI [OF p(1,2)]) (use 1 in auto)
      next
        case 2
        then obtain q g z where q: "y = (z, block_size sh g)" "(q, g) \<in> S" "z \<in> set (blocks sh q g)"
          "\<forall>k. g = Slab k \<longrightarrow> z \<notin> set (B (k - 4))" by (rule usedE)
        then have "\<forall>k. g = Slab k \<longrightarrow> z \<notin> set ((B(j := xs)) (k - 4))" using eq [OF q(2,3)] by simp
        then show ?thesis by (intro usedI [OF q(2,3)]) (use q(1) in auto)
      qed
    qed
  qed
qed

text \<open>A new segment, none of whose blocks is in use yet if it is cut into blocks.\<close>

lemma used_new_range:
  assumes "\<And>p g. g \<noteq> Free \<Longrightarrow> (p, g) \<in> S' \<longleftrightarrow> (p, g) \<in> S \<or> (p, g) = (q, Range n)"
  shows "used sh S' B = insert (q, n * 2 ^ sh) (used sh S B)"
proof -
  have "blocks sh p Free = []" for p by simp
  then have m: "(p, g) \<in> S' \<and> x \<in> set (blocks sh p g) \<longleftrightarrow> ((p, g) \<in> S \<or> (p, g) = (q, Range n)) \<and> x \<in> set (blocks sh p g)" for p g x
    using assms by (cases "g = Free") auto
  show ?thesis (is "?l = ?r")
  proof
    show "?l \<subseteq> ?r"
    proof
      fix y
      assume "y \<in> ?l"
      then obtain p g x where p: "y = (x, block_size sh g)" "(p, g) \<in> S'" "x \<in> set (blocks sh p g)"
        "\<forall>k. g = Slab k \<longrightarrow> x \<notin> set (B (k - 4))" by (rule usedE)
      then have "(p, g) \<in> S \<or> (p, g) = (q, Range n)" using m by blast
      then show "y \<in> ?r" using p usedI [of p g S x sh B y] by auto
    qed
    have "(q, n * 2 ^ sh) \<in> ?l" by (rule usedI [of q "Range n"]) (use assms in auto)
    moreover have "y \<in> ?l" if y: "y \<in> used sh S B" for y
    proof -
      obtain p g x where p: "y = (x, block_size sh g)" "(p, g) \<in> S" "x \<in> set (blocks sh p g)"
        "\<forall>k. g = Slab k \<longrightarrow> x \<notin> set (B (k - 4))" using y by (rule usedE)
      then show ?thesis using m by (intro usedI [of p g S' x sh B y]) auto
    qed
    ultimately show "?r \<subseteq> ?l" by blast
  qed
qed

lemma used_new_slab:
  assumes S': "\<And>p g. g \<noteq> Free \<Longrightarrow> (p, g) \<in> S' \<longleftrightarrow> (p, g) \<in> S \<or> (p, g) = (q, Slab k)" and u: "uniq_blocks sh S'"
    and new: "(q, Slab k) \<notin> S" and b: "bucket_ok sh S B" "B (k - 4) = []" and k: "4 \<le> k"
  shows "used sh S' (B(k - 4 := blocks sh q (Slab k))) = used sh S B" "bucket_ok sh S' (B(k - 4 := blocks sh q (Slab k)))"
proof -
  let ?B = "B(k - 4 := blocks sh q (Slab k))"
  have d: "distinct (blocks sh q (Slab k))" using gaps_distinct [OF _ block_gaps [of sh "Slab k" q]] by simp
  have k4: "k - 4 + 4 = k" using k by simp
  show "bucket_ok sh S' ?B"
    unfolding bucket_ok_def
  proof (intro allI conjI ballI)
    fix j
    show "distinct (?B j)" using d b(1) by (simp add: bucket_ok_def)
    fix x
    assume x: "x \<in> set (?B j)"
    show "\<exists>p. (p, Slab (j + 4)) \<in> S' \<and> x \<in> set (blocks sh p (Slab (j + 4)))"
    proof (cases "j = k - 4")
      case True
      then show ?thesis using x k4 S' [of "Slab k" q] by auto
    next
      case False
      then have "x \<in> set (B j)" using x by simp
      then show ?thesis using b(1) S' unfolding bucket_ok_def by blast
    qed
  qed
  have in_S': "(p, g) \<in> S'" if "(p, g) \<in> S" "g \<noteq> Free" for p g using S' that by blast
  have q': "(q, Slab k) \<in> S'" using S' by blast
  have bl: "x \<notin> set (blocks sh q (Slab k))" if "(p, g) \<in> S" "x \<in> set (blocks sh p g)" for p g x
  proof
    assume x: "x \<in> set (blocks sh q (Slab k))"
    have "g \<noteq> Free" using that(2) by auto
    then have "(p, g) = (q, Slab k)" using u in_S' [OF that(1)] q' that(2) x unfolding uniq_blocks_def by blast
    then show False using new that(1) by simp
  qed
  have eq: "(\<forall>j. g = Slab j \<longrightarrow> x \<notin> set (?B (j - 4))) \<longleftrightarrow> (\<forall>j. g = Slab j \<longrightarrow> x \<notin> set (B (j - 4)))"
    if "(p, g) \<in> S" "x \<in> set (blocks sh p g)" for p g x
    using bl [OF that] b(2) by auto
  show "used sh S' ?B = used sh S B" (is "?l = ?r")
  proof
    show "?l \<subseteq> ?r"
    proof
      fix y
      assume "y \<in> ?l"
      then obtain p g x where p: "y = (x, block_size sh g)" "(p, g) \<in> S'" "x \<in> set (blocks sh p g)"
        "\<forall>j. g = Slab j \<longrightarrow> x \<notin> set (?B (j - 4))" unfolding used_def by blast
      have "g \<noteq> Free" using p(3) by auto
      moreover have "(p, g) \<noteq> (q, Slab k)" using p(3,4) by auto
      ultimately have "(p, g) \<in> S" using S' p(2) by blast
      then show "y \<in> ?r" unfolding used_def using p eq by blast
    qed
    show "?r \<subseteq> ?l"
    proof
      fix y
      assume "y \<in> ?r"
      then obtain p g x where p: "y = (x, block_size sh g)" "(p, g) \<in> S" "x \<in> set (blocks sh p g)"
        "\<forall>j. g = Slab j \<longrightarrow> x \<notin> set (B (j - 4))" unfolding used_def by blast
      have "g \<noteq> Free" using p(3) by auto
      then show "y \<in> ?l" unfolding used_def using p in_S' eq by blast
    qed
  qed
qed

end
