(* ===== verification/Gpma_Req.thy ===== *)
theory Gpma_Req
  imports Gpma_Ops
begin

text \<open>Requests to the page allocator and releases: each keeps the invariant of the heap and changes the set of the
  blocks in use as it should.\<close>

section \<open>Sizes\<close>

lemma word_round_up: "(sz :: 64 word) + word_of_nat (2 ^ j) - 1 = word_of_nat (unat sz + (2 ^ j - 1))"
proof -
  have p: "(1 :: nat) \<le> 2 ^ j" by simp
  have "(word_of_nat (unat sz + (2 ^ j - 1)) :: 64 word) = word_of_nat (unat sz) + (word_of_nat (2 ^ j) - word_of_nat 1)"
    unfolding of_nat_add of_nat_diff [OF p] by (rule refl)
  then show ?thesis by simp
qed

lemma round_up_unat:
  assumes "unat (sz :: 64 word) + 2 ^ j \<le> 2 ^ 64"
  shows "unat ((sz + word_of_nat (2 ^ j) - 1) AND NOT (word_of_nat (2 ^ j) - 1)) = 2 ^ j * ((unat sz + (2 ^ j - 1)) div 2 ^ j)"
proof -
  let ?n = "unat sz + (2 ^ j - 1)"
  note s = word_round_up [of sz j]
  have m: "(word_of_nat (2 ^ j) :: 64 word) - 1 = push_bit j 1 - 1" by simp
  have "2 ^ j * (?n div 2 ^ j) \<le> ?n" by simp
  moreover have "?n < 2 ^ 64" using assms by (simp add: less_eq_Suc_le [symmetric] )
  ultimately have "2 ^ j * (?n div 2 ^ j) < 2 ^ 64" by linarith
  then show ?thesis unfolding s m and_not_low by (rule unat_nat64)
qed

lemma le_page: "sh \<le> 22 \<Longrightarrow> (sz :: 64 word) \<le> word_of_nat (2 ^ sh) \<longleftrightarrow> unat sz \<le> 2 ^ sh"
proof -
  assume "sh \<le> 22"
  then have "(2 :: nat) ^ sh \<le> 2 ^ 22" by (rule power_increasing) simp
  then have "unat (word_of_nat (2 ^ sh) :: 64 word) = 2 ^ sh"  by (intro unat_nat64) (simp del: power_strict_increasing_iff)
  then show ?thesis by (simp only: word_le_nat_alt)
qed

text \<open>The rounded size, and the number of pages that the request needs.\<close>

lemma round_size_spec:
  assumes sh: "4 \<le> sh" "sh \<le> 22" and sz: "sz \<noteq> 0" "unat sz + 2 ^ sh \<le> 2 ^ 64"
  defines "s \<equiv> unat (round_size (2 ^ sh) sz)" and "m \<equiv> (unat sz + (2 ^ sh - 1)) div 2 ^ sh"
  shows "unat sz \<le> s" "0 < s" "s \<le> 2 ^ sh \<Longrightarrow> m = 1" "2 ^ sh < s \<Longrightarrow> s = m * 2 ^ sh"
proof -
  have pos: "0 < unat sz" using sz(1) by (simp add: unat_gt_0)
  have d: "(16 :: nat) dvd 2 ^ sh" using le_imp_power_dvd [OF sh(1), of "2 :: nat"] by simp
  have s16: "16 \<le> (2 :: nat) ^ sh" using d by (intro dvd_imp_le) simp_all
  have "unat sz \<le> s \<and> 0 < s \<and> (s \<le> 2 ^ sh \<longrightarrow> m = 1) \<and> (2 ^ sh < s \<longrightarrow> s = m * 2 ^ sh)"
  proof (cases "unat sz \<le> 2 ^ sh")
    case True
    have u: "s = 16 * ((unat sz + 15) div 16)"
      using round_up_unat [of sz 4] sz(2) s16 True le_page [OF sh(2)] unfolding s_def round_size_def by (simp add: add.commute)
    obtain c where c: "(2 :: nat) ^ sh = 16 * c" using d by blast
    have "(unat sz + 15) div 16 \<le> c" using True c by simp
    then have "s \<le> 2 ^ sh" using u c by simp
    moreover have "m = 1" using True pos unfolding m_def by (intro div_nat_eqI) auto
    moreover have "unat sz \<le> s" using round_up_quot(1) [of 16 "unat sz"] u by simp
    ultimately show ?thesis using pos by simp
  next
    case False
    have u: "s = 2 ^ sh * m" using round_up_unat [OF sz(2)] False le_page [OF sh(2)] unfolding s_def round_size_def m_def by simp
    have "unat sz \<le> s" using round_up_quot(1) [of "2 ^ sh" "unat sz"] u unfolding m_def by simp
    moreover have "0 < m" using calculation u False by (cases m) auto
    ultimately show ?thesis using u by simp
  qed
  then show "unat sz \<le> s" "0 < s" "s \<le> 2 ^ sh \<Longrightarrow> m = 1" "2 ^ sh < s \<Longrightarrow> s = m * 2 ^ sh" by auto
qed

lemma bucket_class_spec:
  "s \<le> 2 ^ t \<Longrightarrow> k \<le> t \<Longrightarrow> \<exists>j. bucket_class (2 ^ k) k s = (2 ^ j, j) \<and> k \<le> j \<and> j \<le> t \<and> s \<le> 2 ^ j"
proof (induction "t - k" arbitrary: k)
  case 0
  then show ?case by (simp add: bucket_class.simps [of "2 ^ k"])
next
  case (Suc d)
  show ?case
  proof (cases "2 ^ k < s")
    case True
    then have "bucket_class (2 ^ k) k s = bucket_class (2 ^ Suc k) (Suc k) s" by (subst bucket_class.simps) simp
    moreover have "d = t - Suc k" "Suc k \<le> t" using Suc.hyps(2) by simp_all
    ultimately show ?thesis using Suc.hyps(1) [of "Suc k"] Suc.prems(1) by (metis Suc_leD)
  next
    case False
    then show ?thesis using Suc.prems(2) by (simp add: bucket_class.simps [of "2 ^ k"])
  qed
qed

text \<open>The class of a small request, as a request for pages.\<close>

lemma small_class:
  assumes sh: "4 \<le> sh" "sh \<le> 22" and sz: "sz \<noteq> 0" "unat sz + 2 ^ sh \<le> 2 ^ 64"
    and s: "s = unat (round_size (2 ^ sh) sz)" "s \<le> 2 ^ sh * 2"
  obtains k where "bucket_class 16 4 s = (2 ^ k, k)" "4 \<le> k" "req_ok sh (2 ^ k) k" "new_seg sh (2 ^ k) k = Slab k" "unat sz \<le> 2 ^ k"
    "width sh (Slab k) = (unat sz + (2 ^ sh - 1)) div 2 ^ sh"
proof -
  note r = round_size_spec [OF sh sz, folded s(1)]
  define t where "t = (if s \<le> 2 ^ sh then sh else Suc sh)"
  have "s \<le> 2 ^ t" "4 \<le> t" using s(2) sh(1) by (simp_all add: t_def)
  then obtain k where k: "bucket_class 16 4 s = (2 ^ k, k)" "4 \<le> k" "k \<le> t" "s \<le> 2 ^ k"
    using bucket_class_spec [of s t 4] by auto
  have "width sh (Slab k) = (unat sz + (2 ^ sh - 1)) div 2 ^ sh"
  proof (cases "s \<le> 2 ^ sh")
    case True
    then show ?thesis using k(3) r(3) by (simp add: t_def)
  next
    case False
    then have "(2 :: nat) ^ sh < 2 ^ k" using k(4) by linarith
    then have "k = Suc sh" using k(3) False by (simp add: t_def)
    moreover have "1 < (unat sz + (2 ^ sh - 1)) div 2 ^ sh" "(unat sz + (2 ^ sh - 1)) div 2 ^ sh \<le> 2"
      using r(4) False s(2) by auto
    ultimately show ?thesis by simp
  qed
  moreover have "k \<le> Suc sh" using k(3) by (auto simp: t_def split: if_splits)
  ultimately show ?thesis using that [OF k(1,2)] k(2,4) r(1) by (simp add: req_ok_def new_seg_def)
qed

section \<open>Requests\<close>

text \<open>The first block of a bucket is taken.\<close>

lemma pop_block:
  assumes wf: "gpma_wf h Ls B" and b: "buckets h j \<noteq> 0" and S: "S = set (segs (pageshift h) (exts h) Ls)"
    and h': "h' = h\<lparr>buckets := (buckets h)(j := lnk h (buckets h j)), ubytes := u\<rparr>"
  shows "\<exists>B'. gpma_wf h' Ls B' \<and> used (pageshift h) S B' = insert (buckets h j, 2 ^ (j + 4)) (used (pageshift h) S B) \<and>
    buckets h j \<notin> fst ` used (pageshift h) S B"
proof -
  have w: "list_all2 (ext_wf (pageshift h) (npages h) (lnk h)) (exts h) Ls" "sorted_wrt (\<lambda>e f. lim e \<le> base f \<or> lim f \<le> base e) (exts h)"
    "chain (lnk h) (buckets h j) (B j) 0" "bucket_ok (pageshift h) S B" using wf by (auto simp: gpma_wf_def S)
  obtain xs where xs: "B j = buckets h j # xs" "chain (lnk h) (lnk h (buckets h j)) xs 0" using w(3) b by (cases "B j") auto
  note u = used_pop [OF segs_uniq [OF w(1,2), folded S] w(4) xs(1)]
  have "gpma_wf h' Ls (B(j := xs))" using wf u(3) xs(2) unfolding S h' by (simp add: gpma_wf_def)
  then show ?thesis using u(1,2) by blast
qed

text \<open>What a successful request does.\<close>

definition got :: "rtheap_bsd \<Rightarrow> seg list list \<Rightarrow> (nat \<Rightarrow> nat list) \<Rightarrow> nat \<Rightarrow> rtheap_bsd \<Rightarrow> nat \<Rightarrow> bool" where
  "got h Ls B n h' p \<longleftrightarrow> (\<exists>Ls' B' m. 0 < p \<and> gpma_wf h' Ls' B' \<and> same_params h h' \<and> n \<le> m \<and>
     p \<notin> fst ` used (pageshift h) (set (segs (pageshift h) (exts h) Ls)) B \<and>
     used (pageshift h') (set (segs (pageshift h') (exts h') Ls')) B' =
       insert (p, m) (used (pageshift h) (set (segs (pageshift h) (exts h) Ls)) B))"

lemma alloc_bucket:
  assumes wf: "gpma_wf h Ls B" and b: "buckets h (k - 4) \<noteq> 0" and k: "4 \<le> k" "n \<le> 2 ^ k"
  shows "got h Ls B n (h\<lparr>buckets := (buckets h)(k - 4 := lnk h (buckets h (k - 4))), ubytes := u\<rparr>) (buckets h (k - 4))"
proof -
  obtain B' where "gpma_wf (h\<lparr>buckets := (buckets h)(k - 4 := lnk h (buckets h (k - 4))), ubytes := u\<rparr>) Ls B'"
      "used (pageshift h) (set (segs (pageshift h) (exts h) Ls)) B' =
         insert (buckets h (k - 4), 2 ^ (k - 4 + 4)) (used (pageshift h) (set (segs (pageshift h) (exts h) Ls)) B)"
      "buckets h (k - 4) \<notin> fst ` used (pageshift h) (set (segs (pageshift h) (exts h) Ls)) B"
    using pop_block [OF wf b refl refl] by blast
  then show ?thesis using b k unfolding got_def
    by (intro exI [of _ Ls] exI [of _ B'] exI [of _ "2 ^ k"]) (simp add: same_params_def)
qed

lemma fresh_block:
  assumes S': "\<And>p g. g \<noteq> Free \<Longrightarrow> (p, g) \<in> S' \<longleftrightarrow> (p, g) \<in> S \<or> (p, g) = (q, f)" and u: "uniq_blocks sh S'"
    and new: "(q, f) \<notin> S" "f \<noteq> Free"
  shows "q \<notin> fst ` used sh S B"
proof
  assume "q \<in> fst ` used sh S B"
  then obtain p g where p: "(p, g) \<in> S" "q \<in> set (blocks sh p g)" by (auto simp: used_def)
  then have "g \<noteq> Free" by auto
  then have "(p, g) \<in> S'" "(q, f) \<in> S'" using S' p(1) new(2) by blast+
  moreover have "q \<in> set (blocks sh q f)" using block_first [OF new(2), of sh q] by auto
  ultimately have "(p, g) = (q, f)" using u p(2) unfolding uniq_blocks_def by blast
  then show False using p(1) new(1) by simp
qed

lemma alloc_slab:
  assumes wf: "gpma_wf h Ls B" and r: "req_ok (pageshift h) (2 ^ k) k" and sl: "new_seg (pageshift h) (2 ^ k) k = Slab k"
    and b: "buckets h (k - 4) = 0" and k: "4 \<le> k" "n \<le> 2 ^ k"
  shows "get_free_range (2 ^ k) k (exts h) h = Some (h, exts h, 0) \<and>
      (\<forall>L\<in>set Ls. \<forall>X Y. L \<noteq> X @ replicate (width (pageshift h) (Slab k)) Free @ Y) \<or>
    (\<exists>h2 es q. get_free_range (2 ^ k) k (exts h) h = Some (h2, es, q) \<and> q \<noteq> 0 \<and>
       (\<forall>u. got h Ls B n (h2\<lparr>exts := es, buckets := (buckets h2)(k - 4 := lnk h2 q), ubytes := u\<rparr>) q))"
  using take_pages [OF wf refl r refl, unfolded sl]
proof (elim disjE exE conjE, goal_cases)
  case (2 h2 es q Ls')
  let ?sh = "pageshift h" and ?S = "set (segs (pageshift h) (exts h) Ls)" and ?S' = "set (segs (pageshift h) es Ls')"
  let ?B = "B(k - 4 := blocks (pageshift h) q (Slab k))" and ?h = "h2\<lparr>exts := es, buckets := (buckets h2)(k - 4 := q)\<rparr>"
  have S': "(p, g) \<in> ?S' \<longleftrightarrow> (p, g) \<in> ?S \<or> (p, g) = (q, Slab k)" if "g \<noteq> Free" for p g using 2(10) that by blast
  have w: "pagesize h = 2 ^ ?sh" "4 \<le> ?sh" "?sh \<le> 22" "maxcont h = npages h * 2 ^ ?sh"
      "chain (lnk h) (buckets h (k - 4)) (B (k - 4)) 0" "bucket_ok ?sh ?S B"
    using wf by (auto simp: gpma_wf_def)
  have h2: "pagesize h2 = pagesize h" "pageshift h2 = ?sh" "npages h2 = npages h" "maxcont h2 = maxcont h" "buckets h2 = buckets h"
    by (subst 2(3), simp)+
  have e: "B (k - 4) = []" using w(5) b by (cases "B (k - 4)") auto
  note u = used_new_slab [OF S' segs_uniq [OF 2(6,7)] 2(11) w(6) e k(1)]
  have "gpma_wf ?h Ls' ?B" using w(1-4) u(2) 2(6-9) by (simp add: gpma_wf_def h2)
  note g = alloc_bucket [OF this _ k, unfolded got_def, simplified h2 u(1)]
  have "got h Ls B n (h2\<lparr>exts := es, buckets := (buckets h2)(k - 4 := lnk h2 q), ubytes := v\<rparr>) q" for v
    using g [of v] 2(2,4,5) u(1) unfolding got_def by (auto simp: same_params_def h2)
  then show ?case using 2(1,2) by blast
qed blast

lemma alloc_range:
  assumes wf: "gpma_wf h Ls B" and n: "0 < n"
  shows "get_free_range (n * 2 ^ pageshift h) 0 (exts h) h = Some (h, exts h, 0) \<and> (\<forall>L\<in>set Ls. \<forall>X Y. L \<noteq> X @ replicate n Free @ Y) \<or>
    (\<exists>h2 es q. get_free_range (n * 2 ^ pageshift h) 0 (exts h) h = Some (h2, es, q) \<and> q \<noteq> 0 \<and>
       (\<forall>u. got h Ls B (n * 2 ^ pageshift h) (h2\<lparr>exts := es, ubytes := u\<rparr>) q))"
proof -
  let ?sh = "pageshift h"
  have r: "req_ok ?sh (n * 2 ^ ?sh) 0" "new_seg ?sh (n * 2 ^ ?sh) 0 = Range n" using n by (auto simp: req_ok_def new_seg_def)
  show ?thesis
    using take_pages [OF wf refl r(1) refl, unfolded r(2)]
  proof (elim disjE exE conjE, goal_cases)
    case (2 h2 es q Ls')
    let ?S = "set (segs ?sh (exts h) Ls)" and ?S' = "set (segs ?sh es Ls')"
    have S': "(p, g) \<in> ?S' \<longleftrightarrow> (p, g) \<in> ?S \<or> (p, g) = (q, Range n)" if "g \<noteq> Free" for p g using 2(10) that by blast
    have w: "pagesize h = 2 ^ ?sh" "4 \<le> ?sh" "?sh \<le> 22" "maxcont h = npages h * 2 ^ ?sh" "bucket_ok ?sh ?S B"
      using wf by (auto simp: gpma_wf_def)
    have h2: "pagesize h2 = pagesize h" "pageshift h2 = ?sh" "npages h2 = npages h" "maxcont h2 = maxcont h" "buckets h2 = buckets h"
      by (subst 2(3), simp)+
    have b: "bucket_ok ?sh ?S' B" using w(5) S' unfolding bucket_ok_def by blast
    have "gpma_wf (h2\<lparr>exts := es, ubytes := v\<rparr>) Ls' B" for v using w(1-4) b 2(6-8) by (simp add: gpma_wf_def h2)
    moreover have "q \<notin> fst ` used ?sh ?S B" by (rule fresh_block [OF S' segs_uniq [OF 2(6,7)] 2(11)]) auto
    moreover have "used ?sh ?S' B = insert (q, n * 2 ^ ?sh) (used ?sh ?S B)" by (rule used_new_range [OF S'])
    ultimately have "got h Ls B (n * 2 ^ ?sh) (h2\<lparr>exts := es, ubytes := v\<rparr>) q" for v
      unfolding got_def using 2(2,4,5)
      by (intro exI [of _ Ls'] exI [of _ B] exI [of _ "n * 2 ^ ?sh"]) (simp add: same_params_def h2)
    then show ?case using 2(1,2) by blast
  qed auto
qed

text \<open>A request returns a block that was not in use and is large enough; or none when no extent has enough contiguous
  free pages (and, for a small request, its bucket is empty).\<close>

lemma alloc_spec:
  assumes wf: "gpma_wf h Ls B" and sz: "sz \<noteq> 0" "unat sz + 2 ^ pageshift h \<le> 2 ^ 64"
  shows "rtheap_alloc_bsd sz h = Some (h, 0) \<and>
      (\<forall>L\<in>set Ls. \<forall>X Y. L \<noteq> X @ replicate ((unat sz + (2 ^ pageshift h - 1)) div 2 ^ pageshift h) Free @ Y) \<or>
    (\<exists>h' p. rtheap_alloc_bsd sz h = Some (h', p) \<and> got h Ls B (unat sz) h' p)"
proof -
  let ?sh = "pageshift h"
  define s where "s = unat (round_size (2 ^ ?sh) sz)"
  define m where "m = (unat sz + (2 ^ ?sh - 1)) div 2 ^ ?sh"
  have w: "pagesize h = 2 ^ ?sh" "4 \<le> ?sh" "?sh \<le> 22" "maxcont h = npages h * 2 ^ ?sh"
      "list_all2 (ext_wf ?sh (npages h) (lnk h)) (exts h) Ls" using wf by (auto simp: gpma_wf_def)
  note r = round_size_spec [OF w(2,3) sz, folded s_def m_def]
  show ?thesis
  proof (cases "s \<le> 2 ^ ?sh * 2")
    case True
    obtain k where k: "bucket_class 16 4 s = (2 ^ k, k)" "4 \<le> k" "req_ok ?sh (2 ^ k) k" "new_seg ?sh (2 ^ k) k = Slab k"
        "unat sz \<le> 2 ^ k" "width ?sh (Slab k) = m"
      by (rule small_class [OF w(2,3) sz s_def True]) (simp add: m_def)
    show ?thesis
    proof (cases "buckets h (k - 4) = 0")
      case b: True
      from alloc_slab [OF wf k(3,4) b k(2,5)] show ?thesis
      proof (elim disjE exE conjE)
        fix h2 es q
        assume q: "get_free_range (2 ^ k) k (exts h) h = Some (h2, es, q)" "q \<noteq> 0"
          "\<forall>u. got h Ls B (unat sz) (h2\<lparr>exts := es, buckets := (buckets h2)(k - 4 := lnk h2 q), ubytes := u\<rparr>) q"
        have "rtheap_alloc_bsd sz h = Some (h2\<lparr>exts := es, buckets := (buckets h2)(k - 4 := lnk h2 q), ubytes := ubytes h2 + 2 ^ k\<rparr>, q)"
          using True k(1) b q(1,2) sz(1) w(1) unfolding rtheap_alloc_bsd_def Let_def s_def by simp
        then show ?thesis using q(3) by blast
      next
        assume q: "get_free_range (2 ^ k) k (exts h) h = Some (h, exts h, 0)"
          "\<forall>L\<in>set Ls. \<forall>X Y. L \<noteq> X @ replicate (width ?sh (Slab k)) Free @ Y"
        have "rtheap_alloc_bsd sz h = Some (h, 0)"
          using True k(1) b q(1) sz(1) w(1) unfolding rtheap_alloc_bsd_def Let_def s_def by simp
        then show ?thesis using q(2) unfolding k(6) m_def by blast
      qed
    next
      case b: False
      have "rtheap_alloc_bsd sz h =
          Some (h\<lparr>buckets := (buckets h)(k - 4 := lnk h (buckets h (k - 4))), ubytes := ubytes h + 2 ^ k\<rparr>, buckets h (k - 4))"
        using True k(1) b sz(1) w(1) unfolding rtheap_alloc_bsd_def Let_def s_def by simp
      then show ?thesis using alloc_bucket [OF wf b k(2,5)] by blast
    qed
  next
    case False
    then have m: "s = m * 2 ^ ?sh" "0 < m" using r(2,4) by auto
    show ?thesis
    proof (cases "s > maxcont h")
      case True
      have "rtheap_alloc_bsd sz h = Some (h, 0)"
        using False True sz(1) w(1) unfolding rtheap_alloc_bsd_def Let_def s_def by simp
      moreover have "L \<noteq> X @ replicate m Free @ Y" if L: "L \<in> set Ls" for L X Y
      proof
        assume "L = X @ replicate m Free @ Y"
        moreover have "pages ?sh L = npages h" using w(5) L by (auto simp: list_all2_conv_all_nth in_set_conv_nth ext_wf_def)
        ultimately have "m \<le> npages h" by simp
        then show False using True m(1) w(4) by simp
      qed
      ultimately show ?thesis unfolding m_def by blast
    next
      case c: False
      from alloc_range [OF wf m(2)] show ?thesis
      proof (elim disjE exE conjE)
        fix h2 es q
        assume q: "get_free_range (m * 2 ^ ?sh) 0 (exts h) h = Some (h2, es, q)" "q \<noteq> 0"
          "\<forall>u. got h Ls B (m * 2 ^ ?sh) (h2\<lparr>exts := es, ubytes := u\<rparr>) q"
        have "rtheap_alloc_bsd sz h = Some (h2\<lparr>exts := es, ubytes := ubytes h2 + s\<rparr>, q)"
          using False c q(1,2) sz(1) w(1) unfolding rtheap_alloc_bsd_def Let_def m(1) [symmetric] s_def by simp
        moreover have "got h Ls B (unat sz) (h2\<lparr>exts := es, ubytes := ubytes h2 + s\<rparr>) q"
          using q(3) r(1) m(1) unfolding got_def by (meson le_trans)
        ultimately show ?thesis by blast
      next
        assume q: "get_free_range (m * 2 ^ ?sh) 0 (exts h) h = Some (h, exts h, 0)" "\<forall>L\<in>set Ls. \<forall>X Y. L \<noteq> X @ replicate m Free @ Y"
        have "rtheap_alloc_bsd sz h = Some (h, 0)"
          using False c q(1) sz(1) w(1) unfolding rtheap_alloc_bsd_def Let_def m(1) [symmetric] s_def by simp
        then show ?thesis using q(2) unfolding m_def by blast
      qed
    qed
  qed
qed


section \<open>Releases\<close>

lemma free_extents_at:
  assumes "sorted_wrt (\<lambda>e f. lim e \<le> base f \<or> lim f \<le> base e) (es1 @ e # es2)" "base e \<le> p" "p < lim e"
  shows "free_extents p (es1 @ e # es2) h =
    map_option (map_sum id (\<lambda>(h', e'). (h', es1 @ e' # es2))) (free_in_extent p e h)"
  using assms(1)
proof (induction es1)
  case (Cons f es1)
  then have "lim f \<le> base e \<or> lim e \<le> base f" by auto
  then have "\<not> (base f \<le> p \<and> p < lim f)" using assms(2,3) by linarith
  then show ?case using Cons
    by (auto simp: option.map_comp comp_def sum.map_comp map_sum.compositionality case_prod_beta intro!: arg_cong [of _ _ "\<lambda>f. map_option (map_sum id f) _"])
qed (use assms(2,3) in auto)

lemma segs_split:
  assumes "list_all2 (ext_wf sh np l) es Ls" "(q, g) \<in> set (segs sh es Ls)"
  obtains es1 e es2 L1 X Y L2 where "es = es1 @ e # es2" "Ls = L1 @ (X @ g # Y) # L2" "length es1 = length L1"
    "q = base e + pages sh X * 2 ^ sh" "ext_wf sh np l e (X @ g # Y)" "q + width sh g * 2 ^ sh \<le> lim e"
proof -
  obtain e L where e: "ext_wf sh np l e L" "(q, g) \<in> set (placed sh (base e) L)" "(e, L) \<in> set (zip es Ls)"
      "q + width sh g * 2 ^ sh \<le> lim e"
    by (rule segs_mem [OF assms]) blast
  obtain i where i: "i < length es" "i < length Ls" "es ! i = e" "Ls ! i = L" using e(3) by (auto simp: in_set_zip)
  obtain X Y where L: "L = X @ g # Y" "q = base e + pages sh X * 2 ^ sh" using placed_split [OF e(2)] by blast
  show ?thesis
  proof (rule that [of "take i es" e "drop (Suc i) es" "take i Ls" X Y "drop (Suc i) Ls"])
    show "es = take i es @ e # drop (Suc i) es" using id_take_nth_drop [OF i(1)] i(3) by simp
    show "Ls = take i Ls @ (X @ g # Y) # drop (Suc i) Ls" using id_take_nth_drop [OF i(2)] i(4) L(1) by simp
  qed (use i L e(1,4) in auto)
qed

text \<open>The block of a slab: its page and its offset there.\<close>

lemma slab_block:
  assumes "k \<le> Suc sh" "p \<in> set (blocks sh q (Slab k))" "q = b + i * 2 ^ sh"
  shows "(p - b) div 2 ^ sh = i" "(p - (b + i * 2 ^ sh)) mod 2 ^ k = 0" "q \<le> p"
proof -
  obtain j where j: "p = q + j * 2 ^ k" "j < max 1 (2 ^ sh div 2 ^ k)" using assms(2) by (auto simp: set_run)
  then show "(p - (b + i * 2 ^ sh)) mod 2 ^ k = 0" "q \<le> p" using assms(3) by simp_all
  have "j * 2 ^ k < 2 ^ sh"
  proof (cases "k \<le> sh")
    case True
    then have "max 1 ((2 :: nat) ^ sh div 2 ^ k) * 2 ^ k = 2 ^ sh" using slab_room [OF assms(1)] by simp
    moreover have "j * 2 ^ k < max 1 (2 ^ sh div 2 ^ k) * 2 ^ k" using j(2) by (intro mult_less_mono1) simp_all
    ultimately show ?thesis by linarith
  next
    case False
    then have "(2 :: nat) ^ sh div 2 ^ k = 0" by simp
    then show ?thesis using j(2) by simp
  qed
  then show "(p - b) div 2 ^ sh = i" using j(1) assms(3) by (simp add: div_nat_eqI)
qed

lemma free_slab:
  assumes wf: "gpma_wf h Ls B" and S: "S = set (segs (pageshift h) (exts h) Ls)"
    and p: "(q, Slab k) \<in> S" "p \<in> set (blocks (pageshift h) q (Slab k))" "p \<notin> set (B (k - 4))"
  shows "\<exists>h' B'. rtheap_free_bsd p h = Some (h', 0) \<and> gpma_wf h' Ls B' \<and> same_params h h' \<and> exts h' = exts h \<and>
    used (pageshift h) S B' = used (pageshift h) S B - {(p, 2 ^ k)}"
proof -
  let ?sh = "pageshift h"
  have w: "list_all2 (ext_wf ?sh (npages h) (lnk h)) (exts h) Ls" "sorted_wrt (\<lambda>e f. lim e \<le> base f \<or> lim f \<le> base e) (exts h)"
    "bucket_ok ?sh S B" "\<And>j. chain (lnk h) (buckets h j) (B j) 0" using wf by (auto simp: gpma_wf_def S)
  obtain es1 e es2 L1 X Y L2 where e: "exts h = es1 @ e # es2" "Ls = L1 @ (X @ Slab k # Y) # L2" "length es1 = length L1"
      "q = base e + pages ?sh X * 2 ^ ?sh" "ext_wf ?sh (npages h) (lnk h) e (X @ Slab k # Y)" "q + width ?sh (Slab k) * 2 ^ ?sh \<le> lim e"
    by (rule segs_split [OF w(1) p(1) [unfolded S]])
  have k: "4 \<le> k" "k \<le> Suc ?sh" using e(5) by (auto simp: ext_wf_def)
  note sb = slab_block [OF k(2) p(2) e(4)]
  have "seg_ok ?sh (Slab k)" using k by simp
  then have "p + 2 ^ k \<le> q + width ?sh (Slab k) * 2 ^ ?sh" using block_bounds [of ?sh "Slab k" p q] p(2) by simp
  then have p_in: "base e \<le> p" "p < lim e" using sb(3) e(4,6) less_le_trans [of p "p + 2 ^ k" "lim e"] by simp_all
  define h' where "h' = h\<lparr>lnk := (lnk h)(p := buckets h (k - 4)), buckets := (buckets h)(k - 4 := p), ubytes := ubytes h - 2 ^ k\<rparr>"
  define B' where "B' = B(k - 4 := p # B (k - 4))"
  have "pagemap e (pages ?sh X) = k" using pagemap_at(1) [OF e(5), of 0] by (simp add: seg_bytes_def split: if_splits)
  then have "free_in_extent p e h = Some (Inr (h', e))"
    using k(1) sb unfolding free_in_extent_def h'_def Let_def by simp
  then have r: "rtheap_free_bsd p h = Some (h', 0)"
    using free_extents_at [OF w(2) [unfolded e(1)] p_in] e(1) unfolding rtheap_free_bsd_def by (simp add: h'_def)
  have uq: "uniq_blocks ?sh S" using segs_uniq [OF w(1,2)] S by simp
  have pB: "p \<notin> set (B j)" for j
  proof
    assume "p \<in> set (B j)"
    then obtain q' where "(q', Slab (j + 4)) \<in> S" "p \<in> set (blocks ?sh q' (Slab (j + 4)))" using w(3) unfolding bucket_ok_def by blast
    then have "Slab (j + 4) = Slab k" using uq p(1,2) unfolding uniq_blocks_def by blast
    then show False using p(3) \<open>p \<in> set (B j)\<close> by auto
  qed
  have bo: "bucket_ok ?sh S B'"
    unfolding bucket_ok_def
  proof (intro allI conjI ballI)
    fix j
    have bj: "distinct (B j) \<and> (\<forall>x\<in>set (B j). \<exists>p. (p, Slab (j + 4)) \<in> S \<and> x \<in> set (blocks ?sh p (Slab (j + 4))))"
      using w(3) unfolding bucket_ok_def by blast
    show "distinct (B' j)" using conjunct1 [OF bj] p(3) by (auto simp: B'_def)
    fix x
    assume "x \<in> set (B' j)"
    then consider "x \<in> set (B j)" | "x = p" "j + 4 = k" using k(1) by (auto simp: B'_def split: if_splits)
    then show "\<exists>p. (p, Slab (j + 4)) \<in> S \<and> x \<in> set (blocks ?sh p (Slab (j + 4)))"
      by cases (use bj p(1,2) in blast)+
  qed
  have "B'(k - 4 := B (k - 4)) = B" by (auto simp: B'_def)
  then have us: "used ?sh S B' = used ?sh S B - {(p, 2 ^ k)}"
    using used_pop [OF uq bo, of "k - 4" p "B (k - 4)"] k(1) by (auto simp: B'_def image_iff)
  have "p \<noteq> 0" using p_in e(5) by (auto simp: ext_wf_def)
  have "chain (lnk h') (buckets h' j) (B' j) 0" for j
  proof -
    have "chain (lnk h') (buckets h j) (B j) 0"
      using w(4) [of j] pB [of j] by (subst chain_cong [of "B j" _ "lnk h"]) (auto simp: h'_def)
    then show ?thesis using \<open>p \<noteq> 0\<close> by (cases "j = k - 4") (simp_all add: h'_def B'_def)
  qed
  moreover have "list_all2 (ext_wf ?sh (npages h) (lnk h')) (exts h) Ls"
    unfolding list_all2_iff
  proof (intro conjI ballI, unfold case_prod_unfold)
    show "length (exts h) = length Ls" using w(1) by (rule list_all2_lengthD)
    fix fM
    assume "fM \<in> set (zip (exts h) Ls)"
    then obtain f M where f: "fM = (f, M)" "(f, M) \<in> set (zip (exts h) Ls)" "ext_wf ?sh (npages h) (lnk h) f M"
      using w(1) by (cases fM) (auto simp: list_all2_iff)
    have "p \<notin> set (fadr ?sh (base f) M)"
    proof
      assume "p \<in> set (fadr ?sh (base f) M)"
      then have "(p, Free) \<in> S" using f(2) unfolding S segs_def fadr_placed by fastforce
      then show False using block_not_free [OF w(1,2) p(1) [unfolded S] _ p(2)] unfolding S by fastforce
    qed
    then have "chain (lnk h') (freelist f) (fadr ?sh (base f) M) 0 = chain (lnk h) (freelist f) (fadr ?sh (base f) M) 0"
      by (intro chain_cong) (auto simp: h'_def)
    then show "ext_wf ?sh (npages h) (lnk h') (fst fM) (snd fM)" using f(1,3) by (simp add: ext_wf_def)
  qed
  ultimately have "gpma_wf h' Ls B'" using wf bo unfolding gpma_wf_def S by (simp add: h'_def)
  then show ?thesis using r us by (intro exI [of _ h'] exI [of _ B']) (simp add: same_params_def h'_def)
qed


lemma free_pages:
  assumes wf: "gpma_wf h Ls B" and S: "S = set (segs (pageshift h) (exts h) Ls)" and q: "(q, Range n) \<in> S"
  shows "\<exists>h' Ls'. rtheap_free_bsd q h = Some (h', 0) \<and> gpma_wf h' Ls' B \<and> same_params h h' \<and>
    used (pageshift h) (set (segs (pageshift h) (exts h') Ls')) B = used (pageshift h) S B - {(q, n * 2 ^ pageshift h)}"
proof -
  let ?sh = "pageshift h"
  have w: "list_all2 (ext_wf ?sh (npages h) (lnk h)) (exts h) Ls" "sorted_wrt (\<lambda>e f. lim e \<le> base f \<or> lim f \<le> base e) (exts h)"
    "bucket_ok ?sh S B" "\<And>j. chain (lnk h) (buckets h j) (B j) 0" "pagesize h = 2 ^ ?sh" using wf by (auto simp: gpma_wf_def S)
  obtain es1 e es2 L1 X Y L2 where e: "exts h = es1 @ e # es2" "Ls = L1 @ (X @ Range n # Y) # L2" "length es1 = length L1"
      "q = base e + pages ?sh X * 2 ^ ?sh" "ext_wf ?sh (npages h) (lnk h) e (X @ Range n # Y)" "q + width ?sh (Range n) * 2 ^ ?sh \<le> lim e"
    by (rule segs_split [OF w(1) q [unfolded S]])
  obtain h1 e' where h1: "free_in_extent q e h = Some (Inr (h1, e'))" "ext_wf ?sh (npages h) (lnk h1) e' (X @ replicate n Free @ Y)"
      "h1 = h\<lparr>lnk := lnk h1, ubytes := ubytes h - n * 2 ^ ?sh\<rparr>" "base e' = base e" "lim e' = lim e"
      "\<And>x. x \<notin> set (fadr ?sh (base e) X) \<Longrightarrow> x \<notin> {q..<q + n * 2 ^ ?sh} \<Longrightarrow> lnk h1 x = lnk h x"
    by (rule free_range [OF e(5) w(5) refl refl e(4)]) blast
  have "q < lim e" using e(5,6) less_le_trans [of q "q + n * 2 ^ ?sh" "lim e"] by (simp add: ext_wf_def)
  then have "free_extents q (exts h) h = Some (Inr (h1, es1 @ e' # es2))"
    using free_extents_at [OF w(2) [unfolded e(1)], of q h] e(1,4) h1(1) by simp
  then have r: "rtheap_free_bsd q h = Some (h1\<lparr>exts := es1 @ e' # es2\<rparr>, 0)" unfolding rtheap_free_bsd_def by simp
  have xl: "x + 2 ^ ?sh \<le> q" if "x \<in> set (fadr ?sh (base e) X)" for x using fadr_bounds [OF that] e(4) by simp
  have out: "lnk h1 x = lnk h x" if x: "x < base e \<or> lim e \<le> x" for x
  proof (rule h1(6))
    show "x \<notin> set (fadr ?sh (base e) X)"
      using fadr_bounds [of x ?sh "base e" X] xl [of x] x \<open>q < lim e\<close> by fastforce
    show "x \<notin> {q..<q + n * 2 ^ ?sh}" using x e(4,6) by auto
  qed
  note rr = replace_row [OF w(1) [unfolded e(1,2)] e(3) w(2) [unfolded e(1)] h1(2,4,5) out]
  let ?S' = "set (segs ?sh (es1 @ e' # es2) (L1 @ (X @ replicate n Free @ Y) # L2))"
  have sS: "S = set (segs ?sh es1 L1) \<union> set (placed ?sh (base e) (X @ Range n # Y)) \<union> set (segs ?sh es2 L2)"
    unfolding S e(1,2) by (rule rr(4))
  have sS': "?S' = set (segs ?sh es1 L1) \<union> set (placed ?sh (base e) (X @ replicate n Free @ Y)) \<union> set (segs ?sh es2 L2)"
    by (rule rr(3))
  have S': "(p, g) \<in> S \<longleftrightarrow> (p, g) \<in> ?S' \<or> (p, g) = (q, Range n)" if "g \<noteq> Free" for p g
    unfolding sS sS' using that e(4) by (auto dest: free_outside)
  have n: "0 < n" using e(5) by (simp add: ext_wf_def)
  have new: "(q, Range n) \<notin> ?S'"
  proof
    assume a: "(q, Range n) \<in> ?S'"
    have "(q, Free) \<in> ?S'" using n e(4) unfolding sS' by (cases n) auto
    then show False using block_not_free [OF rr(1,2) a, of q q] by simp
  qed
  have us: "used ?sh ?S' B = used ?sh S B - {(q, n * 2 ^ ?sh)}"
    using used_new_range [of S ?S' q n ?sh B, OF S']
      fresh_block [of S ?S' q "Range n" ?sh B, OF S' segs_uniq [OF w(1,2), folded S] new] by force
  have bo: "bucket_ok ?sh ?S' B" using w(3) S' unfolding bucket_ok_def by blast
  have "chain (lnk h1) (buckets h j) (B j) 0" for j
  proof -
    have "lnk h1 x = lnk h x" if xB: "x \<in> set (B j)" for x
    proof (rule h1(6))
      obtain p where p: "(p, Slab (j + 4)) \<in> S" "x \<in> set (blocks ?sh p (Slab (j + 4)))"
        using w(3) xB unfolding bucket_ok_def by blast
      show "x \<notin> set (fadr ?sh (base e) X)"
      proof
        assume "x \<in> set (fadr ?sh (base e) X)"
        then have "(x, Free) \<in> S" unfolding sS by (simp add: fadr_placed)
        then show False using block_not_free [OF w(1,2) p(1) [unfolded S] _ p(2), of x] S by simp
      qed
      show "x \<notin> {q..<q + n * 2 ^ ?sh}"
      proof
        assume x: "x \<in> {q..<q + n * 2 ^ ?sh}"
        have ok: "seg_ok ?sh (Slab (j + 4))" by (rule segs_mem [OF w(1) p(1) [unfolded S]])
        have "p \<le> x" "x < p + width ?sh (Slab (j + 4)) * 2 ^ ?sh"
          using block_bounds [OF ok p(2)] less_le_trans [of x "x + 2 ^ (j + 4)"] by simp_all
        then show False using segs_overlap [OF w(1,2) p(1) [unfolded S] q [unfolded S], of x] x by simp
      qed
    qed
    then show ?thesis using w(4) [of j] by (simp add: chain_cong [of "B j" "lnk h1" "lnk h"])
  qed
  moreover have f: "pagesize h1 = pagesize h" "pageshift h1 = ?sh" "npages h1 = npages h" "maxcont h1 = maxcont h" "buckets h1 = buckets h"
    by (subst h1(3), simp)+
  ultimately have "gpma_wf (h1\<lparr>exts := es1 @ e' # es2\<rparr>) (L1 @ (X @ replicate n Free @ Y) # L2) B"
    using wf bo rr(1,2) by (simp add: gpma_wf_def)
  moreover have "same_params h (h1\<lparr>exts := es1 @ e' # es2\<rparr>)" using f e(1) h1(4,5) by (simp add: same_params_def)
  moreover have "exts (h1\<lparr>exts := es1 @ e' # es2\<rparr>) = es1 @ e' # es2" by simp
  ultimately show ?thesis using r us by metis
qed

text \<open>A block in use can be released.\<close>

lemma free_spec:
  assumes wf: "gpma_wf h Ls B" and p: "(p, n) \<in> used (pageshift h) (set (segs (pageshift h) (exts h) Ls)) B"
  shows "\<exists>h' Ls' B'. rtheap_free_bsd p h = Some (h', 0) \<and> gpma_wf h' Ls' B' \<and> same_params h h' \<and>
    used (pageshift h') (set (segs (pageshift h') (exts h') Ls')) B' =
      used (pageshift h) (set (segs (pageshift h) (exts h) Ls)) B - {(p, n)}"
proof -
  obtain q g x where g: "(p, n) = (x, block_size (pageshift h) g)" "(q, g) \<in> set (segs (pageshift h) (exts h) Ls)"
      "x \<in> set (blocks (pageshift h) q g)" "\<forall>k. g = Slab k \<longrightarrow> x \<notin> set (B (k - 4))" using p by (rule usedE)
  show ?thesis
  proof (cases g)
    case (Slab k)
    then obtain h' B' where h': "rtheap_free_bsd p h = Some (h', 0)" "gpma_wf h' Ls B'" "same_params h h'" "exts h' = exts h"
        "used (pageshift h) (set (segs (pageshift h) (exts h) Ls)) B' = used (pageshift h) (set (segs (pageshift h) (exts h) Ls)) B - {(p, n)}"
      using free_slab [OF wf refl, of q k p] g by auto
    moreover have "pageshift h' = pageshift h" using h'(3) by (simp add: same_params_def)
    ultimately show ?thesis by (intro exI [of _ h'] exI [of _ Ls] exI [of _ B']) simp
  next
    case (Range m)
    then have "p = q" "n = m * 2 ^ pageshift h" using g by auto
    then obtain h' Ls' where h': "rtheap_free_bsd p h = Some (h', 0)" "gpma_wf h' Ls' B" "same_params h h'"
        "used (pageshift h) (set (segs (pageshift h) (exts h') Ls')) B = used (pageshift h) (set (segs (pageshift h) (exts h) Ls)) B - {(p, n)}"
      using free_pages [OF wf refl, of q m] g(2) Range by blast
    moreover have "pageshift h' = pageshift h" using h'(3) by (simp add: same_params_def)
    ultimately show ?thesis by (intro exI [of _ h'] exI [of _ Ls'] exI [of _ B]) simp
  qed (use g(3) in auto)
qed

end
