(* ===== verification/Gpma_Contract.thy ===== *)
theory Gpma_Contract
  imports Gpma_Req Regions
begin

text \<open>The contract of an allocator of regions, for the page allocator: the blocks in use as a function of the state, the
  interpretation \<open>pg\<close> of \<open>region_allocator\<close>, and the start-up that establishes it.\<close>

section \<open>The blocks in use are determined by the state\<close>

lemma gpma_wf_unique:
  assumes "gpma_wf h Ls B" "gpma_wf h Ls' B'"
  shows "Ls = Ls'" "B = B'"
proof -
  have "B k = B' k" for k using assms chain_unique [of "lnk h" "buckets h k" "B k" "B' k"] by (simp add: gpma_wf_def)
  then show "B = B'" by (rule ext)
  have l: "list_all2 (ext_wf (pageshift h) (npages h) (lnk h)) (exts h) Ls" "list_all2 (ext_wf (pageshift h) (npages h) (lnk h)) (exts h) Ls'"
    using assms by (auto simp: gpma_wf_def)
  have "L = L'" if "ext_wf (pageshift h) (npages h) (lnk h) e L" "ext_wf (pageshift h) (npages h) (lnk h) e L'" for e L L'
    using that map_bytes_inj [of "pageshift h" L L'] by (simp add: ext_wf_def)
  then have "Ls ! i = Ls' ! i" if "i < length Ls" for i using l that unfolding list_all2_conv_all_nth by metis
  moreover have "length Ls = length Ls'" using l [THEN list_all2_lengthD] by simp
  ultimately show "Ls = Ls'" by (metis nth_equalityI)
qed

definition gpma_live :: "rtheap_bsd \<Rightarrow> (nat \<times> nat) set" where
  "gpma_live h = {x. \<exists>Ls B. gpma_wf h Ls B \<and> x \<in> used (pageshift h) (set (segs (pageshift h) (exts h) Ls)) B}"

lemma gpma_live_eq: "gpma_wf h Ls B \<Longrightarrow> gpma_live h = used (pageshift h) (set (segs (pageshift h) (exts h) Ls)) B"
  using gpma_wf_unique unfolding gpma_live_def by blast

definition gpma_ok :: "(nat \<times> nat) list \<Rightarrow> rtheap_bsd \<Rightarrow> bool" where
  "gpma_ok E h \<longleftrightarrow> map (\<lambda>e. (base e, lim e)) (exts h) = E \<and> (\<exists>Ls B. gpma_wf h Ls B)"

lemma gpma_ok_params: "gpma_ok E h \<Longrightarrow> same_params h h' \<Longrightarrow> gpma_wf h' Ls B \<Longrightarrow> gpma_ok E h'"
proof -
  assume a: "gpma_ok E h" "same_params h h'" "gpma_wf h' Ls B"
  have z: "map (\<lambda>e. (base e, lim e)) es = zip (map base es) (map lim es)" for es :: "rtextent_bsd list" by (induction es) auto
  have "map (\<lambda>e. (base e, lim e)) (exts h') = map (\<lambda>e. (base e, lim e)) (exts h)"
    unfolding z using a(2) by (simp add: same_params_def)
  then show ?thesis using a(1,3) unfolding gpma_ok_def by auto
qed

text \<open>Blocks in use do not overlap and lie in an extent.\<close>

lemma used_inside:
  assumes "list_all2 (ext_wf sh np l) es Ls" "(p, n) \<in> used sh (set (segs sh es Ls)) B"
  shows "\<exists>e\<in>set es. base e \<le> p \<and> p + n \<le> lim e"
proof -
  obtain q g x where g: "(p, n) = (x, block_size sh g)" "(q, g) \<in> set (segs sh es Ls)" "x \<in> set (blocks sh q g)"
    "\<forall>k. g = Slab k \<longrightarrow> x \<notin> set (B (k - 4))" using assms(2) by (rule usedE)
  obtain e where e: "e \<in> set es" "base e \<le> q" "q + width sh g * 2 ^ sh \<le> lim e" "seg_ok sh g" by (rule segs_mem [OF assms(1) g(2)])
  show ?thesis using block_bounds [OF e(4) g(3)] e g(1) by (intro bexI [of _ e]) auto
qed

lemma used_apart:
  assumes wf: "list_all2 (ext_wf sh np l) es Ls" "sorted_wrt (\<lambda>e f. lim e \<le> base f \<or> lim f \<le> base e) es"
    and u: "(p, n) \<in> used sh (set (segs sh es Ls)) B" "(q, m) \<in> used sh (set (segs sh es Ls)) B" "p \<noteq> q"
  shows "p + n \<le> q \<or> q + m \<le> p"
proof -
  obtain a g x where g: "(p, n) = (x, block_size sh g)" "(a, g) \<in> set (segs sh es Ls)" "x \<in> set (blocks sh a g)"
    "\<forall>k. g = Slab k \<longrightarrow> x \<notin> set (B (k - 4))" using u(1) by (rule usedE)
  obtain b f y where f: "(q, m) = (y, block_size sh f)" "(b, f) \<in> set (segs sh es Ls)" "y \<in> set (blocks sh b f)"
    "\<forall>k. f = Slab k \<longrightarrow> y \<notin> set (B (k - 4))" using u(2) by (rule usedE)
  have gk: "seg_ok sh g" by (rule segs_mem [OF wf(1) g(2)])
  have fk: "seg_ok sh f" by (rule segs_mem [OF wf(1) f(2)])
  note bd = block_bounds [OF gk g(3)] block_bounds [OF fk f(3)]
  consider "(a, g) = (b, f)" | "a + width sh g * 2 ^ sh \<le> b" | "b + width sh f * 2 ^ sh \<le> a" using segs_apart [OF wf g(2) f(2)] by blast
  then show ?thesis
  proof cases
    case 1
    then have "x \<in> set (blocks sh a g)" "y \<in> set (blocks sh a g)" "x \<noteq> y" using g f u(3) by auto
    then have "x + block_size sh g \<le> y \<or> y + block_size sh g \<le> x"
      using block_gaps [of sh g a] by (metis in_set_conv_nth linorder_neqE_nat sorted_wrt_iff_nth_less)
    then show ?thesis using g(1) f(1) 1 by auto
  qed (use bd g(1) f(1) in auto)
qed

lemma alloc_contract:
  assumes "gpma_ok E h" "unat (sz :: 64 word) + 2 ^ 22 \<le> 2 ^ 64"
  shows "\<exists>h' p. rtheap_alloc_bsd sz h = Some (h', p) \<and> gpma_ok E h' \<and>
    (p = 0 \<and> gpma_live h' = gpma_live h \<or>
     (\<exists>n\<ge>unat sz. p \<noteq> 0 \<and> p \<notin> fst ` gpma_live h \<and> gpma_live h' = insert (p, n) (gpma_live h)))"
proof (cases "sz = 0")
  case True
  then show ?thesis using assms(1) by (simp add: rtheap_alloc_bsd_def)
next
  case False
  obtain Ls B where wf: "gpma_wf h Ls B" using assms(1) by (auto simp: gpma_ok_def)
  have "(2 :: nat) ^ pageshift h \<le> 2 ^ 22" using wf by (intro power_increasing) (auto simp: gpma_wf_def)
  then have "unat sz + 2 ^ pageshift h \<le> 2 ^ 64" using assms(2) by linarith
  from alloc_spec [OF wf False this] show ?thesis
  proof (elim disjE exE conjE)
    fix h' p
    assume r: "rtheap_alloc_bsd sz h = Some (h', p)" "got h Ls B (unat sz) h' p"
    obtain Ls' B' m where g: "0 < p" "gpma_wf h' Ls' B'" "same_params h h'" "unat sz \<le> m" "p \<notin> fst ` gpma_live h"
        "used (pageshift h') (set (segs (pageshift h') (exts h') Ls')) B' = insert (p, m) (gpma_live h)"
      using r(2) unfolding got_def gpma_live_eq [OF wf] by blast
    show ?thesis
      by (intro exI [of _ h'] exI [of _ p] conjI disjI2 exI [of _ m])
        (use r(1) g gpma_ok_params [OF assms(1) g(3,2)] gpma_live_eq [OF g(2)] in auto)
  qed (use assms(1) in auto)
qed

lemma free_contract:
  assumes "gpma_ok E h" "(p, n) \<in> gpma_live h"
  shows "\<exists>h'. map_option fst (rtheap_free_bsd p h) = Some h' \<and> gpma_ok E h' \<and> gpma_live h' = gpma_live h - {(p, n)}"
proof -
  obtain Ls B where wf: "gpma_wf h Ls B" using assms(1) by (auto simp: gpma_ok_def)
  obtain h' Ls' B' where h': "rtheap_free_bsd p h = Some (h', 0)" "gpma_wf h' Ls' B'" "same_params h h'"
      "used (pageshift h') (set (segs (pageshift h') (exts h') Ls')) B' = gpma_live h - {(p, n)}"
    using free_spec [OF wf] assms(2) unfolding gpma_live_eq [OF wf] by blast
  then show ?thesis using gpma_ok_params [OF assms(1) h'(3,2)] gpma_live_eq [OF h'(2)] by simp
qed

interpretation pg: region_allocator "gpma_ok E" gpma_live rtheap_alloc_bsd "\<lambda>p h. map_option fst (rtheap_free_bsd p h)"
    unat "\<lambda>sz. unat sz + 2 ^ 22 \<le> 2 ^ 64" "\<lambda>p n. \<exists>(b, l)\<in>set E. b \<le> p \<and> p + n \<le> l" for E
proof
  fix h p n
  assume h: "gpma_ok E h" "(p, n) \<in> gpma_live h"
  then obtain Ls B where wf: "gpma_wf h Ls B" by (auto simp: gpma_ok_def)
  have l: "list_all2 (ext_wf (pageshift h) (npages h) (lnk h)) (exts h) Ls" "sorted_wrt (\<lambda>e f. lim e \<le> base f \<or> lim f \<le> base e) (exts h)"
    using wf by (auto simp: gpma_wf_def)
  note lv = gpma_live_eq [OF wf]
  show "\<exists>(b, l)\<in>set E. b \<le> p \<and> p + n \<le> l" using used_inside [OF l(1)] h unfolding lv gpma_ok_def by fastforce
  show "p + n \<le> q \<or> q + m \<le> p" if "(q, m) \<in> gpma_live h" "p \<noteq> q" for q m
    using used_apart [OF l] h(2) that unfolding lv by blast
  show "\<exists>h'. map_option fst (rtheap_free_bsd p h) = Some h' \<and> gpma_ok E h' \<and> gpma_live h' = gpma_live h - {(p, n)}"
    by (rule free_contract [OF h])
next
  fix p n m :: nat
  assume "\<exists>(b, l)\<in>set E. b \<le> p \<and> p + n \<le> l" "m \<le> n"
  then obtain b l where "(b, l) \<in> set E" "b \<le> p" "p + n \<le> l" by blast
  moreover have "p + m \<le> l" using calculation(3) \<open>m \<le> n\<close> by linarith
  ultimately show "\<exists>(b, l)\<in>set E. b \<le> p \<and> p + m \<le> l" by blast
qed (rule alloc_contract)

section \<open>Start-up\<close>

lemma init_pages_spec:
  assumes "0 < ps" "0 < a" "init_pages ps m n a l pm = (l', pm', z)"
  shows "chain l' a (run ps (Suc m) a) 0 \<and> z = a + Suc m * ps \<and> (\<forall>x. x < a \<or> a + Suc m * ps \<le> x \<longrightarrow> l' x = l x) \<and>
    (\<forall>i. pm' i = (if n \<le> i \<and> i \<le> n + m then RTHEAP_PFREE else pm i))"
  using assms(2,3)
proof (induction m arbitrary: n a l pm)
  case (Suc m)
  have "init_pages ps m (Suc n) (a + ps) (l(a := a + ps)) (pm(n := 0)) = (l', pm', z)" using Suc.prems(2) by simp
  from Suc.IH [OF _ this] Suc.prems(1)
  have *: "chain l' (a + ps) (run ps (Suc m) (a + ps)) 0" "z = a + ps + Suc m * ps" "\<And>x. x < a + ps \<or> a + ps + Suc m * ps \<le> x \<Longrightarrow> l' x = (l(a := a + ps)) x"
      "\<And>i. pm' i = (if Suc n \<le> i \<and> i \<le> Suc n + m then 0 else (pm(n := 0)) i)"
    by auto
  have "l' a = a + ps" using *(3) [of a] assms(1) by simp
  moreover have "l' x = l x" if "x < a \<or> a + Suc (Suc m) * ps \<le> x" for x using *(3) [of x] that assms(1) by auto
  ultimately show ?case using * Suc.prems(1) by auto
qed (use assms(1) in auto)

lemma init_extent_wf:
  assumes "init_extent_bsd a pm h = (h', e)" "pagesize h = 2 ^ sh" "0 < npages h" "0 < a" "pm (npages h) \<noteq> RTHEAP_PCONT"
  shows "ext_wf sh (npages h) (lnk h') e (replicate (npages h) Free)" "h' = h\<lparr>lnk := lnk h'\<rparr>"
    "base e = a + hdrsize h" "lim e = a + hdrsize h + npages h * 2 ^ sh"
    "\<And>x. x < base e \<or> lim e \<le> x \<Longrightarrow> lnk h' x = lnk h x"
proof -
  obtain l pm' z where i: "init_pages (2 ^ sh) (npages h - 1) 0 (a + hdrsize h) (lnk h) pm = (l, pm', z)" by (metis prod_cases3)
  have e: "h' = h\<lparr>lnk := l\<rparr>" "e = \<lparr>base = a + hdrsize h, lim = z, freelist = a + hdrsize h, pagemap = pm'\<rparr>"
    using assms(1,2) i by (simp_all add: init_extent_bsd_def Let_def)
  have s: "chain l (a + hdrsize h) (run (2 ^ sh) (npages h) (a + hdrsize h)) 0" "z = a + hdrsize h + npages h * 2 ^ sh"
      "\<And>i. pm' i = (if i < npages h then 0 else pm i)"
      "\<And>x. x < a + hdrsize h \<or> a + hdrsize h + npages h * 2 ^ sh \<le> x \<Longrightarrow> l x = lnk h x"
    using init_pages_spec [OF _ _ i] assms(3,4) by (auto simp: Suc_diff_1)
  have "map pm' [0..<npages h] = replicate (npages h) 0" by (rule nth_equalityI) (auto simp: s(3))
  then show "ext_wf sh (npages h) (lnk h') e (replicate (npages h) Free)"
    using s assms(4,5) by (simp add: ext_wf_def e del: run.simps)
  show "h' = h\<lparr>lnk := lnk h'\<rparr>" "base e = a + hdrsize h" "lim e = a + hdrsize h + npages h * 2 ^ sh" using e s(2) by simp_all
  show "lnk h' x = lnk h x" if "x < base e \<or> lim e \<le> x" for x using s(2,4) that by (simp add: e)
qed

lemma and_pred: "(2 * m) AND (2 * m - 1) = 2 * (m AND (m - 1))" for m :: nat
proof (cases m)
  case (Suc k)
  then have "2 * m - 1 = 2 * (m - 1) + 1" by simp
  then show ?thesis by (simp add: and_nat_rec [of "2 * m"])
qed simp

lemma log2_shift_pow: "n AND (n - 1) = 0 \<Longrightarrow> 0 < n \<Longrightarrow> n = 2 ^ log2_shift n"
proof (induction n rule: log2_shift.induct)
  case (1 n)
  show ?case
  proof (cases "n > 1")
    case True
    have "even n"
    proof (rule ccontr)
      assume "odd n"
      then obtain b where "n = 2 * b + 1" by (rule oddE)
      then have "n AND (n - 1) = n - 1" by (simp add: and_nat_rec [of "Suc (2 * b)"])
      then show False using "1.prems"(1) True by simp
    qed
    then obtain m where m: "n = 2 * m" by (rule evenE)
    then have "m = 2 ^ log2_shift m" using "1.IH" True "1.prems" and_pred [of m] by simp
    then show ?thesis using m True by (subst log2_shift.simps) simp
  qed (use "1.prems" in \<open>simp add: log2_shift.simps\<close>)
qed

text \<open>The loop that adds extents. The kernel gives memory that is not in use.\<close>

definition fresh_mem :: "(nat \<Rightarrow> nat) \<Rightarrow> nat \<Rightarrow> bool" where
  "fresh_mem alloc es \<longleftrightarrow> (\<forall>j k. j < k \<longrightarrow> alloc j \<noteq> 0 \<longrightarrow> alloc k \<noteq> 0 \<longrightarrow> alloc j + es \<le> alloc k \<or> alloc k + es \<le> alloc j)"

definition fresh_exts :: "(nat \<Rightarrow> nat) \<Rightarrow> nat \<Rightarrow> nat \<Rightarrow> rtheap_bsd \<Rightarrow> bool" where
  "fresh_exts alloc i sh h \<longleftrightarrow>
     list_all2 (ext_wf sh (npages h) (lnk h)) (exts h) (replicate (length (exts h)) (replicate (npages h) Free)) \<and>
     sorted_wrt (\<lambda>e f. lim e \<le> base f \<or> lim f \<le> base e) (exts h) \<and>
     (\<forall>e\<in>set (exts h). \<exists>j<i. alloc j \<noteq> 0 \<and> base e = alloc j + hdrsize h \<and> lim e = alloc j + hdrsize h + npages h * 2 ^ sh)"

lemma fresh_exts_add:
  assumes f: "fresh_exts alloc i sh h" and m: "fresh_mem alloc (extsize h)" "hdrsize h + npages h * 2 ^ sh \<le> extsize h"
    and i: "alloc i \<noteq> 0" "init_extent_bsd (alloc i) (\<lambda>_. 0) h = (h1, e)" "pagesize h = 2 ^ sh" "0 < npages h"
  shows "fresh_exts alloc (Suc i) sh (h1\<lparr>exts := exts h1 @ [e]\<rparr>)" "h1 = h\<lparr>lnk := lnk h1\<rparr>"
proof -
  note w = init_extent_wf [OF i(2,3,4)]
  have e: "ext_wf sh (npages h) (lnk h1) e (replicate (npages h) Free)" "base e = alloc i + hdrsize h"
      "lim e = alloc i + hdrsize h + npages h * 2 ^ sh" "\<And>x. x < base e \<or> lim e \<le> x \<Longrightarrow> lnk h1 x = lnk h x"
    using w i(1) by auto
  show h1: "h1 = h\<lparr>lnk := lnk h1\<rparr>" using w(2) i(1) by auto
  have p: "npages h1 = npages h" "hdrsize h1 = hdrsize h" "exts h1 = exts h" by (subst h1, simp)+
  have old: "\<exists>j<i. alloc j \<noteq> 0 \<and> base g = alloc j + hdrsize h \<and> lim g = alloc j + hdrsize h + npages h * 2 ^ sh" if "g \<in> set (exts h)" for g
    using f that unfolding fresh_exts_def by blast
  have ap: "lim g \<le> base e \<or> lim e \<le> base g" if g: "g \<in> set (exts h)" for g
  proof -
    obtain j where j: "j < i" "alloc j \<noteq> 0" "base g = alloc j + hdrsize h" "lim g = alloc j + hdrsize h + npages h * 2 ^ sh"
      using old [OF g] by blast
    then have "alloc j + extsize h \<le> alloc i \<or> alloc i + extsize h \<le> alloc j" using m(1) i(1) unfolding fresh_mem_def by blast
    then show ?thesis using m(2) j(3,4) e(2,3) by linarith
  qed
  have fr: "ext_wf sh (npages h) (lnk h1) g L" if "g \<in> set (exts h)" "ext_wf sh (npages h) (lnk h) g L" for g L
    by (rule ext_frame [OF that(2)]) (use ap [OF that(1)] e(4) in \<open>meson le_less_trans less_le_trans not_less\<close>)
  have "list_all2 (ext_wf sh (npages h) (lnk h1)) (exts h) (replicate (length (exts h)) (replicate (npages h) Free))"
    using f fr unfolding fresh_exts_def by (auto simp: list_all2_conv_all_nth)
  moreover have "replicate (Suc n) x = replicate n x @ [x]" for n and x :: "seg list" by (simp add: replicate_append_same)
  ultimately show "fresh_exts alloc (Suc i) sh (h1\<lparr>exts := exts h1 @ [e]\<rparr>)"
    using f ap e(1-3) i(1) old unfolding fresh_exts_def
    by (auto simp: p sorted_wrt_append list_all2_appendI less_Suc_eq simp del: replicate.simps)
qed

lemma add_extents_extsize: "extsize (fst (add_extents_bsd alloc i n hs h)) = extsize h"
proof (induction alloc i n hs h rule: add_extents_bsd.induct)
  case (1 alloc i n hs h)
  show ?case
  proof (cases "(n \<ge> hs \<or> extsize h = 0) \<or> alloc i = 0")
    case True
    then show ?thesis by (subst add_extents_bsd.simps) auto
  next
    case False
    obtain h1 e where e: "init_extent_bsd (alloc i) (\<lambda>_. 0) h = (h1, e)" by (metis surj_pair)
    then have "extsize h1 = extsize h" by (auto simp: init_extent_bsd_def Let_def split: prod.splits)
    then show ?thesis using "1.IH" [OF _ _ e [symmetric]] False e by (subst add_extents_bsd.simps) auto
  qed
qed

lemma add_extents_wf:
  assumes "add_extents_bsd alloc i n hs h = (h', 0)" "fresh_exts alloc i sh h" "fresh_mem alloc (extsize h)"
    "hdrsize h + npages h * 2 ^ sh \<le> extsize h" "pagesize h = 2 ^ sh" "0 < npages h"
  shows "(\<exists>j. fresh_exts alloc j sh h') \<and> h' = h\<lparr>lnk := lnk h', exts := exts h'\<rparr>"
  using assms
proof (induction alloc i n hs h rule: add_extents_bsd.induct)
  case (1 alloc i n hs h)
  show ?case
  proof (cases "n \<ge> hs \<or> extsize h = 0")
    case True
    then show ?thesis using "1.prems"(1,2) by (subst (asm) add_extents_bsd.simps) auto
  next
    case False
    have a: "alloc i \<noteq> 0" using "1.prems"(1) False by (subst (asm) add_extents_bsd.simps) (auto split: if_splits)
    obtain h1 e where e: "init_extent_bsd (alloc i) (\<lambda>_. 0) h = (h1, e)" by (metis surj_pair)
    let ?h = "h1\<lparr>exts := exts h1 @ [e]\<rparr>"
    note f = fresh_exts_add [OF "1.prems"(2-4) a e "1.prems"(5,6)]
    have p: "npages h1 = npages h" "hdrsize h1 = hdrsize h" "extsize h1 = extsize h" "pagesize h1 = pagesize h" by (subst f(2), simp)+
    have r: "add_extents_bsd alloc (Suc i) (n + extsize h) hs ?h = (h', 0)"
      using "1.prems"(1) False a e by (subst (asm) add_extents_bsd.simps) simp
    have "(\<exists>j. fresh_exts alloc j sh h') \<and> h' = ?h\<lparr>lnk := lnk h', exts := exts h'\<rparr>"
      using "1.IH" [OF False a e [symmetric] r f(1)] "1.prems"(3-6) by (simp add: p)
    moreover have "?h\<lparr>lnk := lnk h', exts := exts h'\<rparr> = h\<lparr>lnk := lnk h', exts := exts h'\<rparr>" by (subst f(2)) simp
    ultimately show ?thesis by simp
  qed
qed

definition init_base :: "nat \<Rightarrow> rtheap_bsd \<Rightarrow> bool" where
  "init_base sh h \<longleftrightarrow> 4 \<le> sh \<and> sh \<le> 22 \<and> pagesize h = 2 ^ sh \<and> pageshift h = sh \<and> maxcont h = npages h * 2 ^ sh \<and> 0 < npages h \<and>
     hdrsize h + npages h * 2 ^ sh \<le> extsize h \<and> buckets h = (\<lambda>_. 0)"

lemma init_cases:
  assumes "rtheap_init_bsd alloc pm a hs ps su h0 = Some (h, 0)"
  obtains (one) sh hb adr pm' h1 e where "init_base sh hb" "exts hb = []" "init_extent_bsd adr pm' hb = (h1, e)" "h = h1\<lparr>exts := [e]\<rparr>" "0 < adr"
      "ps = 2 ^ sh" "extsize hb = hs" "hdrsize hb = (48 + (hs - 48) div (ps + 1) + 15) div 16 * 16" "48 < hs"
      "npages hb = (hs - hdrsize hb) div 2 ^ sh" "a \<noteq> 0 \<and> adr = a \<and> pm' = pm \<or> a = 0 \<and> adr = alloc 0 \<and> pm' = (\<lambda>_. 0)"
      "hdrsize hb + 2 * ps \<le> hs"
    | (many) sh hb i where "init_base sh hb" "exts hb = []" "add_extents_bsd alloc i 0 hs hb = (h, 0)" "a = 0"
proof -
  define hdr where "hdr = (48 + (hs - 48) div (ps + 1) + 15) div 16 * 16"
  have c: "16 \<le> ps" "ps \<le> 4194304" "ps AND (ps - 1) = 0" "48 < hs" "\<not> hdr + 2 * ps > hs"
    using assms unfolding rtheap_init_bsd_def Let_def hdr_def by (auto split: if_splits)
  define sh where "sh = log2_shift ps"
  have p: "ps = 2 ^ sh" unfolding sh_def using c(1,3) by (intro log2_shift_pow) auto
  have "4 \<le> sh"
  proof (rule ccontr)
    assume "\<not> 4 \<le> sh"
    then have "(2 :: nat) ^ sh \<le> 2 ^ 3" by (intro power_increasing) auto
    then show False using c(1) p by simp
  qed
  moreover have "sh \<le> 22"
  proof (rule ccontr)
    assume "\<not> sh \<le> 22"
    then have "(2 :: nat) ^ 23 \<le> 2 ^ sh" by (intro power_increasing) auto
    then show False using c(2) p by simp
  qed
  ultimately have sh: "4 \<le> sh" "sh \<le> 22" .
  define ask where "ask = (a = 0 \<and> su)"
  define adr where "adr = (if ask then (if hs \<le> 131072 then 0 else alloc 0) else a)"
  define es where "es = (if ask \<and> adr = 0 then 131072 else hs)"
  define i where "i = (if ask \<and> hs > 131072 then 1 else 0 :: nat)"
  define hb where "hb = \<lparr>extsize = es, pagesize = ps, pageshift = sh, hdrsize = hdr, npages = (es - hdr) div 2 ^ sh, ubytes = 0,
     maxcont = (es - hdr) div 2 ^ sh * ps, exts = [], buckets = (\<lambda>_. 0), lnk = lnk h0\<rparr>"
  have r: "(if es < hdr + ps then None
      else if adr \<noteq> 0 then (case init_extent_bsd adr (if ask then (\<lambda>_. 0) else pm) hb of (h1, e) \<Rightarrow> Some (h1\<lparr>exts := [e]\<rparr>, 0))
      else Some (add_extents_bsd alloc i 0 hs hb)) = Some (h, 0)"
    using assms c unfolding rtheap_init_bsd_def Let_def hdr_def [symmetric] hb_def es_def adr_def i_def ask_def sh_def
    by (simp split: if_splits)
  have room: "\<not> es < hdr + ps" using r by (auto split: if_splits)
  then have "0 < (es - hdr) div 2 ^ sh" using p by (simp add: div_greater_zero_iff)
  moreover have "hdr + (es - hdr) div 2 ^ sh * 2 ^ sh \<le> es"
    using room div_times_less_eq_dividend [of "es - hdr" "2 ^ sh"] by linarith
  ultimately have b: "init_base sh hb" "exts hb = []" using sh p room by (simp_all add: init_base_def hb_def)
  show ?thesis
  proof (cases "adr = 0")
    case True
    then have "a = 0" by (auto simp: adr_def ask_def split: if_splits)
    then show ?thesis using many [OF b, of i] r room True by simp
  next
    case False
    obtain h1 e where e: "init_extent_bsd adr (if ask then (\<lambda>_. 0) else pm) hb = (h1, e)" by (metis surj_pair)
    then have "h = h1\<lparr>exts := [e]\<rparr>" using r room False by simp
    then show ?thesis
      by (rule one [OF b e]) (use False p c(4,5) in \<open>auto simp: hb_def es_def hdr_def adr_def ask_def split: if_splits\<close>)
  qed
qed

lemma fresh_wf:
  assumes "fresh_exts alloc i sh h" "init_base sh h"
  shows "gpma_ok (map (\<lambda>e. (base e, lim e)) (exts h)) h" "gpma_live h = {}"
proof -
  let ?Ls = "replicate (length (exts h)) (replicate (npages h) Free)" and ?B = "\<lambda>_. []"
  have free: "g = Free" if "(p, g) \<in> set (segs sh (exts h) ?Ls)" for p g
    using that by (auto simp: segs_def set_zip dest: free_outside)
  have wf: "gpma_wf h ?Ls ?B" using assms unfolding fresh_exts_def init_base_def by (auto simp: gpma_wf_def bucket_ok_def)
  then show "gpma_ok (map (\<lambda>e. (base e, lim e)) (exts h)) h" by (auto simp: gpma_ok_def)
  have "pageshift h = sh" using assms(2) by (simp add: init_base_def)
  then show "gpma_live h = {}" using gpma_live_eq [OF wf] free by (fastforce simp: used_def)
qed

lemma init_ok:
  assumes r: "rtheap_init_bsd alloc pm a hs ps su h0 = Some (h, 0)" and pm: "a \<noteq> 0 \<Longrightarrow> pm (npages h) \<noteq> RTHEAP_PCONT"
    and fm: "fresh_mem alloc (extsize h)"
  shows "gpma_ok (map (\<lambda>e. (base e, lim e)) (exts h)) h" "gpma_live h = {}"
    and "e \<in> set (exts h) \<Longrightarrow> \<exists>x. (if a \<noteq> 0 then x = a else x \<in> range alloc) \<and> x \<noteq> 0 \<and> base e = x + hdrsize h \<and> lim e \<le> x + extsize h"
proof -
  have "\<exists>al i sh. fresh_exts al i sh h \<and> init_base sh h \<and> range al \<subseteq> (if a \<noteq> 0 then {a} else range alloc)"
    using r
  proof (cases rule: init_cases)
    case (one sh hb adr pm' h1 f)
    have "npages h = npages hb" using one(3,4) by (auto simp: init_extent_bsd_def Let_def split: prod.splits)
    then have pm': "pm' (npages hb) \<noteq> RTHEAP_PCONT" using one(11) pm by auto
    note w = init_extent_wf [OF one(3) _ _ one(5) pm', of sh]
    have b: "pagesize hb = 2 ^ sh" "0 < npages hb" using one(1) by (auto simp: init_base_def)
    have h1: "h1 = hb\<lparr>lnk := lnk h1\<rparr>" by (rule w(2) [OF b])
    have p: "npages h1 = npages hb" "hdrsize h1 = hdrsize hb" by (subst h1, simp)+
    have "fresh_exts (\<lambda>_. adr) 1 sh h" using w [OF b] one(5) by (simp add: fresh_exts_def one(4) p)
    moreover have "init_base sh h" unfolding one(4) by (subst h1) (use one(1) in \<open>simp add: init_base_def\<close>)
    moreover have "adr \<in> (if a \<noteq> 0 then {a} else range alloc)" using one(11) by auto
    ultimately show ?thesis by blast
  next
    case (many sh hb i)
    have e: "extsize h = extsize hb"
    proof -
      have "extsize (fst (add_extents_bsd alloc i 0 hs hb)) = extsize hb" by (rule add_extents_extsize)
      then show ?thesis using many(3) by simp
    qed
    have "fresh_exts alloc i sh hb" using many(2) by (simp add: fresh_exts_def)
    then have w: "\<exists>j. fresh_exts alloc j sh h" "h = hb\<lparr>lnk := lnk h, exts := exts h\<rparr>"
      using add_extents_wf [OF many(3)] many(1) fm e by (auto simp: init_base_def)
    have "init_base sh h" by (subst w(2)) (use many(1) in \<open>simp add: init_base_def\<close>)
    then show ?thesis using w(1) many(4) by auto
  qed
  then obtain al i sh where f: "fresh_exts al i sh h" "init_base sh h" "range al \<subseteq> (if a \<noteq> 0 then {a} else range alloc)" by blast
  show "gpma_ok (map (\<lambda>e. (base e, lim e)) (exts h)) h" "gpma_live h = {}" by (rule fresh_wf [OF f(1,2)])+
  show "\<exists>x. (if a \<noteq> 0 then x = a else x \<in> range alloc) \<and> x \<noteq> 0 \<and> base e = x + hdrsize h \<and> lim e \<le> x + extsize h" if e: "e \<in> set (exts h)"
  proof -
    obtain j where "al j \<noteq> 0" "base e = al j + hdrsize h" "lim e = al j + hdrsize h + npages h * 2 ^ sh"
      using f(1) e unfolding fresh_exts_def by blast
    moreover have "if a \<noteq> 0 then al j = a else al j \<in> range alloc" using f(3) by (auto split: if_splits)
    ultimately show ?thesis using f(2) unfolding init_base_def by (intro exI [of _ "al j"]) auto
  qed
qed

section \<open>Free pages in the page map\<close>

lemma seg_bytes_no_free: "seg_ok sh g \<Longrightarrow> g \<noteq> Free \<Longrightarrow> RTHEAP_PFREE \<notin> set (seg_bytes sh g)"
  by (cases g) (auto simp: seg_bytes_def)

lemma free_bytes_head:
  "list_all (seg_ok sh) L \<Longrightarrow> map_bytes sh L = replicate m 0 @ C \<Longrightarrow> \<exists>Y. L = replicate m Free @ Y"
proof (induction m arbitrary: L)
  case (Suc m)
  then obtain g M where L: "L = g # M" by (cases L) auto
  have "g = Free"
  proof (rule ccontr)
    assume g: "g \<noteq> Free"
    have "seg_mark g = 0" using Suc.prems(2) L by (simp add: seg_bytes_def)
    then show False using seg_bytes_no_free [of sh g] Suc.prems(1) L g by (simp add: seg_bytes_def)
  qed
  moreover then obtain Y where "M = replicate m Free @ Y" using Suc.IH [of M] Suc.prems L by (auto simp: seg_bytes_def)
  ultimately show ?case using L by simp
qed simp

lemma free_bytes_row:
  "list_all (seg_ok sh) L \<Longrightarrow> map_bytes sh L = A @ replicate m 0 @ C \<Longrightarrow> 0 < m \<Longrightarrow> \<exists>X Y. L = X @ replicate m Free @ Y"
proof (induction L arbitrary: A)
  case (Cons g L)
  show ?case
  proof (cases A)
    case Nil
    then obtain Y where "g # L = replicate m Free @ Y" using free_bytes_head [OF Cons.prems(1), of m C] Cons.prems(2) by auto
    then show ?thesis by (metis append_Nil)
  next
    case (Cons a A')
    note ACons = Cons
    have e: "seg_bytes sh g @ map_bytes sh L = A @ replicate m 0 @ C" using Cons.prems(2) by simp
    have ok: "seg_ok sh g" "list_all (seg_ok sh) L" using Cons.prems(1) by auto
    have "\<exists>A''. map_bytes sh L = A'' @ replicate m 0 @ C"
    proof (cases "length (seg_bytes sh g) \<le> length A")
      case True
      then show ?thesis using e by (metis append_eq_append_conv_if append_take_drop_id append.assoc same_append_eq)
    next
      case False
      have nf: "g \<noteq> Free" using False ACons by (auto simp: seg_bytes_def)
      have "(A @ replicate m 0 @ C) ! length A = 0" using Cons.prems(3) by (simp add: nth_append)
      then have "seg_bytes sh g ! length A = 0" using e False by (metis nth_append not_le)
      then show ?thesis using seg_bytes_no_free [OF ok(1) nf] False by (metis not_le nth_mem)
    qed
    then obtain X Y where "L = X @ replicate m Free @ Y" using Cons.IH [OF ok(2)] Cons.prems(3) by blast
    then show ?thesis by (metis append_Cons)
  qed
qed auto

lemma free_pages_row:
  assumes "ext_wf sh np l e L" "i + m \<le> np" "0 < m" "\<And>j. j < m \<Longrightarrow> pagemap e (i + j) = RTHEAP_PFREE"
  shows "\<exists>X Y. L = X @ replicate m Free @ Y"
proof -
  have "map (pagemap e) [0..<np] = map (pagemap e) [0..<i] @ map (pagemap e) [i..<i + m] @ map (pagemap e) [i + m..<np]"
    using assms(2) upt_add_eq_append [of 0 i "np - i"] upt_add_eq_append [of i "i + m" "np - (i + m)"] by simp
  moreover have "map (pagemap e) [i..<i + m] = replicate m 0" by (rule nth_equalityI) (use assms(4) in auto)
  ultimately show ?thesis using free_bytes_row [of sh L _ m] assms(1,3) unfolding ext_wf_def by metis
qed

end
