(* ===== verification/Gpma_Thms.thy ===== *)
theory Gpma_Thms
  imports Gpma_Contract
begin

text \<open>The properties of the page allocator.\<close>

text \<open>A small heap, for examples: two pages of 16 bytes at address 80.\<close>

definition heap0 :: rtheap_bsd where
  "heap0 = \<lparr>extsize = 0, pagesize = 0, pageshift = 0, hdrsize = 0, npages = 0, ubytes = 0, maxcont = 0, exts = [],
     buckets = (\<lambda>_. 0), lnk = (\<lambda>_. 0)\<rparr>"

definition heap2 :: rtheap_bsd where
  "heap2 = (case rtheap_init_bsd (\<lambda>_. 0) (\<lambda>_. 0) 16 96 16 False heap0 of None \<Rightarrow> heap0 | Some (h, _) \<Rightarrow> h)"

text \<open>C26. In any run in which the clients of a new heap request blocks and release blocks they hold, every call
  returns, every block lies in the pages of an extent behind its header and has the size asked for, and no two
  blocks overlap. The heap may have been started in memory of the caller or in memory of the kernel (one extent
  or many), provided that the page map and a byte behind it fit in the header, which is not so for a small heap in
  memory of the kernel (\<open>gpma_map_overruns\<close>); that the byte behind the page map of the caller's memory does
  not happen to be the mark of a continued range; and that the kernel gives memory that overlaps nothing it gave
  before. Requests stay 4 megabytes below the word size. That the links the lists run through lie in
  free memory of the extents is part of the invariant, not of this statement.\<close>

theorem gpma_clients_safe:
  assumes "rtheap_init_bsd alloc pm a hs ps su h0 = Some (h, 0)" "a \<noteq> 0 \<longrightarrow> pm (npages h) \<noteq> RTHEAP_PCONT"
    "fresh_mem alloc (extsize h)" "40 + npages h < hdrsize h" "\<forall>r. Get r \<in> set ops \<longrightarrow> unat r + 2 ^ 22 \<le> 2 ^ 64"
  shows "\<exists>h' g. client_run rtheap_alloc_bsd (\<lambda>p h. map_option fst (rtheap_free_bsd p h)) unat ops h [] = Some (h', g) \<and>
    (\<forall>(p, k)\<in>set g. \<exists>x. (if a \<noteq> 0 then x = a else x \<in> range alloc) \<and> x + hdrsize h \<le> p \<and> p + k \<le> x + extsize h) \<and>
    (\<forall>i j. i < j \<and> j < length g \<longrightarrow> fst (g ! i) + snd (g ! i) \<le> fst (g ! j) \<or> fst (g ! j) + snd (g ! j) \<le> fst (g ! i))"
proof -
  note i = init_ok [OF assms(1) _ assms(3)]
  have ok: "gpma_ok (map (\<lambda>e. (base e, lim e)) (exts h)) h" using i(1) assms(2) by blast
  obtain h' g where r: "client_run rtheap_alloc_bsd (\<lambda>p h. map_option fst (rtheap_free_bsd p h)) unat ops h [] = Some (h', g)"
      "\<forall>(p, k)\<in>set g. \<exists>(b, l)\<in>set (map (\<lambda>e. (base e, lim e)) (exts h)). b \<le> p \<and> p + k \<le> l"
      "\<forall>i j. i < j \<and> j < length g \<longrightarrow> fst (g ! i) + snd (g ! i) \<le> fst (g ! j) \<or> fst (g ! j) + snd (g ! j) \<le> fst (g ! i)"
    using pg.client_safe [OF ok, of ops] assms(5) by blast
  have "\<exists>x. (if a \<noteq> 0 then x = a else x \<in> range alloc) \<and> x + hdrsize h \<le> p \<and> p + k \<le> x + extsize h" if pk: "(p, k) \<in> set g" for p k
  proof -
    obtain e where e: "e \<in> set (exts h)" "base e \<le> p" "p + k \<le> lim e" using r(2) pk by fastforce
    obtain x where "if a \<noteq> 0 then x = a else x \<in> range alloc" "base e = x + hdrsize h" "lim e \<le> x + extsize h"
      using i(3) [OF _ e(1)] assms(2) by blast
    then show ?thesis using e(2,3) by (intro exI [of _ x]) simp
  qed
  then show ?thesis using r(1,3) by blast
qed

text \<open>C28. the header that \<^verbatim>\<open>rtheap_init\<close> computes has room for the page map and for a byte behind it, when the extent
  has the size that was asked for.\<close>

theorem gpma_map_fits:
  assumes "rtheap_init_bsd alloc pm a hs ps su h0 = Some (h, 0)" "a \<noteq> 0"
  shows "40 + npages h < hdrsize h \<and> hdrsize h + npages h * ps \<le> hs \<and> 2 \<le> npages h"
  using assms(1)
proof (cases rule: init_cases)
  case (one sh hb adr pm' h1 e)
  let ?q = "(hs - 48) div (ps + 1)"
  have h1: "h1 = hb\<lparr>lnk := lnk h1\<rparr>" using one(3) by (auto simp: init_extent_bsd_def Let_def split: prod.splits)
  have p: "npages h = npages hb" "hdrsize h = hdrsize hb" unfolding one(4) by (subst h1, simp)+
  have b: "npages hb * ps \<le> hs - hdrsize hb" "hdrsize hb + npages hb * ps \<le> hs"
    using one(1,6,7) one(10) by (simp_all add: init_base_def)
  have "48 + ?q \<le> hdrsize hb" unfolding one(8) by linarith
  moreover have "hs - 48 < ?q * ps + ?q + ps + 1" using dividend_less_times_div [of "ps + 1" "hs - 48"] by (simp add: algebra_simps)
  ultimately have "npages hb * ps < (?q + 1) * ps + 1" using b(1) one(9) by (simp add: algebra_simps)
  then have "npages hb * ps \<le> (?q + 1) * ps" by simp
  moreover have "0 < ps" using one(6) by simp
  ultimately have "npages hb \<le> ?q + 1" by (simp only: mult_le_cancel2)
  moreover have "2 * ps div ps \<le> npages hb" unfolding one(10) one(6) [symmetric] using one(12) by (intro div_le_mono) simp
  ultimately show ?thesis using \<open>48 + ?q \<le> hdrsize hb\<close> b(2) one(6) by (simp add: p)
qed (use assms(2) in simp)

text \<open>in memory of the kernel of up to 128K the extents have 128K whatever was asked for, and the header is too
  small for their page map: the bytes of the last pages lie in the first page, which clients use.\<close>

theorem gpma_map_overruns:
  "case rtheap_init_bsd (\<lambda>i. 131072 * (i + 1)) (\<lambda>_. 0) 0 65536 4096 True h0 of
     None \<Rightarrow> False | Some (h, r) \<Rightarrow> r = 0 \<and> npages h = 31 \<and> hdrsize h < 40 + npages h"
proof -
  have "log2_shift 4096 = 12" by (simp add: log2_shift.simps)
  then show ?thesis
    by (simp add: rtheap_init_bsd_def Let_def add_extents_bsd.simps init_extent_bsd_def split: prod.splits)
qed

text \<open>C27. a request is refused only when no extent has enough contiguous free pages, and changes nothing then.\<close>

theorem gpma_refusal:
  assumes "gpma_ok E h" "sz \<noteq> 0" "unat sz + 2 ^ 22 \<le> 2 ^ 64" "rtheap_alloc_bsd sz h = Some (h', 0)"
    "e \<in> set (exts h)" "m = (unat sz + (pagesize h - 1)) div pagesize h" "i + m \<le> npages h"
  shows "h' = h \<and> (\<exists>j<m. pagemap e (i + j) \<noteq> RTHEAP_PFREE)"
proof -
  obtain Ls B where wf: "gpma_wf h Ls B" using assms(1) by (auto simp: gpma_ok_def)
  then have w: "pagesize h = 2 ^ pageshift h" "list_all2 (ext_wf (pageshift h) (npages h) (lnk h)) (exts h) Ls" "pageshift h \<le> 22"
    by (auto simp: gpma_wf_def)
  have "(2 :: nat) ^ pageshift h \<le> 2 ^ 22" using w(3) by (intro power_increasing) auto
  then have "unat sz + 2 ^ pageshift h \<le> 2 ^ 64" using assms(3) by linarith
  then have no: "h' = h" "\<forall>L\<in>set Ls. \<forall>X Y. L \<noteq> X @ replicate m Free @ Y"
    using alloc_spec [OF wf assms(2)] assms(4,6) w(1) by (auto simp: got_def)
  obtain L where L: "L \<in> set Ls" "ext_wf (pageshift h) (npages h) (lnk h) e L"
    using w(2) assms(5) unfolding list_all2_conv_all_nth by (metis in_set_conv_nth)
  have "0 < unat sz" using assms(2) by (simp add: unat_gt_0)
  then have "0 < m" using assms(6) w(1) by (simp add: div_greater_zero_iff)
  then show ?thesis using free_pages_row [OF L(2) assms(7)] no L(1) by blast
qed

text \<open>C29. a request within a page of the word size wraps around when it is rounded, and gets a block of 16 bytes.\<close>

theorem gpma_huge_request:
  assumes "pagesize h = 2 ^ sh" "4 \<le> sh" "sh \<le> 22" "2 ^ 64 < unat sz + 2 ^ sh"
  shows "rtheap_alloc_bsd sz h = rtheap_alloc_bsd 1 h"
proof -
  let ?n = "unat sz + (2 ^ sh - 1) - 2 ^ 64"
  have s: "(2 :: nat) ^ sh \<le> 2 ^ 22" "(2 :: nat) ^ 4 \<le> 2 ^ sh" by (rule power_increasing; use assms(2,3) in simp)+
  have lt: "unat sz < 2 ^ 64" using unsigned_less [of sz] by simp
  have "(word_of_nat (?n + 2 ^ 64) :: 64 word) = word_of_nat ?n" by simp
  moreover have "?n + 2 ^ 64 = unat sz + (2 ^ sh - 1)" using assms(4) by linarith
  moreover note word_round_up [of sz sh]
  ultimately have "sz + word_of_nat (2 ^ sh) - 1 = word_of_nat ?n" by metis
  moreover have "?n div 2 ^ sh = 0" using lt s by simp
  ultimately have z: "(sz + word_of_nat (2 ^ sh) - 1) AND NOT (word_of_nat (2 ^ sh) - 1) = 0" using and_not_low [of ?n sh] by simp
  have "\<not> unat sz \<le> 2 ^ sh" using assms(4) s(1) by simp
  then have r: "round_size (2 ^ sh) sz = 0" using z le_page [OF assms(3), of sz] by (simp only: round_size_def if_False)
  have "unat (1 :: 64 word) \<le> 2 ^ sh" by simp
  then have r1: "round_size (2 ^ sh) 1 = 16" using le_page [OF assms(3), of 1] by (simp only: round_size_def if_True) simp
  have c: "bucket_class 16 4 0 = (16, 4)" "bucket_class 16 4 16 = (16, 4)" by (simp_all add: bucket_class.simps)
  have nz: "sz \<noteq> 0" using assms(4) s(1) by auto
  have "16 \<le> pagesize h * 2" using s(2) assms(1) by simp
  then show ?thesis using nz c r r1 unfolding rtheap_alloc_bsd_def Let_def assms(1) by simp
qed

lemma heap2_init:
  "rtheap_init_bsd (\<lambda>_. 0) (\<lambda>_. 0) 16 96 16 False heap0 = Some (heap2, 0)"
  "heap2 = \<lparr>extsize = 96, pagesize = 16, pageshift = 4, hdrsize = 64, npages = 2, ubytes = 0, maxcont = 32,
     exts = [\<lparr>base = 80, lim = 112, freelist = 80, pagemap = (\<lambda>_. 0)\<rparr>], buckets = (\<lambda>_. 0), lnk = (\<lambda>_. 0)(80 := 96)\<rparr>"
proof -
  have l: "log2_shift 16 = 4" by (simp add: log2_shift.simps)
  have f: "(\<lambda>_. 0 :: nat)(n := 0) = (\<lambda>_. 0)" "((\<lambda>_. 0 :: nat)(80 := 96, 96 := 0)) = ((\<lambda>_. 0)(80 := 96) :: nat \<Rightarrow> nat)" for n :: nat by (auto simp: fun_eq_iff)
  show i: "rtheap_init_bsd (\<lambda>_. 0) (\<lambda>_. 0) 16 96 16 False heap0 = Some (heap2, 0)"
    unfolding heap2_def by (simp add: rtheap_init_bsd_def Let_def init_extent_bsd_def l)
  show "heap2 = \<lparr>extsize = 96, pagesize = 16, pageshift = 4, hdrsize = 64, npages = 2, ubytes = 0, maxcont = 32,
     exts = [\<lparr>base = 80, lim = 112, freelist = 80, pagemap = (\<lambda>_. 0)\<rparr>], buckets = (\<lambda>_. 0), lnk = (\<lambda>_. 0)(80 := 96)\<rparr>"
    unfolding heap2_def by (simp add: rtheap_init_bsd_def Let_def init_extent_bsd_def l f heap0_def numeral_eq_Suc [of "num.One"])
qed

lemmas heap2_eval = rtheap_alloc_bsd_def Let_def round_size_def bucket_class.simps find_run.simps scan_run.simps splitpage_def
  mark_cont.simps link_until.simps

lemma heap2_full:
  "\<exists>h e. rtheap_alloc_bsd 32 heap2 = Some (h, 80) \<and> rtheap_alloc_bsd 1 h = Some (h, 0) \<and> exts h = [e] \<and> pagesize h = 16 \<and> npages h = 2"
  by (simp add: heap2_init(2) heap2_eval)

theorem gpma_clients_safe_witness:
  "\<exists>h' g. client_run rtheap_alloc_bsd (\<lambda>p h. map_option fst (rtheap_free_bsd p h)) unat [Get 10, Get 16, Put 1, Get 5] heap2 [] = Some (h', g) \<and>
    (\<forall>(p, k)\<in>set g. \<exists>x. x = 16 \<and> x + hdrsize heap2 \<le> p \<and> p + k \<le> x + extsize heap2) \<and>
    (\<forall>i j. i < j \<and> j < length g \<longrightarrow> fst (g ! i) + snd (g ! i) \<le> fst (g ! j) \<or> fst (g ! j) + snd (g ! j) \<le> fst (g ! i))"
proof -
  have "fresh_mem (\<lambda>_. 0) (extsize heap2)" by (simp add: fresh_mem_def)
  from gpma_clients_safe [OF heap2_init(1) _ this, of "[Get 10, Get 16, Put 1, Get 5]"] show ?thesis by (simp add: heap2_init(2))
qed

theorem gpma_map_fits_witness: "40 + npages heap2 < hdrsize heap2 \<and> hdrsize heap2 + npages heap2 * 16 \<le> 96 \<and> 2 \<le> npages heap2"
  using gpma_map_fits [OF heap2_init(1)] by simp

theorem gpma_refusal_witness:
  "\<exists>h e. rtheap_alloc_bsd 32 heap2 = Some (h, 80) \<and> exts h = [e] \<and> rtheap_alloc_bsd 1 h = Some (h, 0) \<and> (\<exists>j<1. pagemap e (1 + j) \<noteq> RTHEAP_PFREE)"
proof -
  have "gpma_ok (map (\<lambda>e. (base e, lim e)) (exts heap2)) heap2" by (rule init_ok(1) [OF heap2_init(1)]) (simp_all add: fresh_mem_def)
  from alloc_contract [OF this, of 32] obtain h e where h: "rtheap_alloc_bsd 32 heap2 = Some (h, 80)" "rtheap_alloc_bsd 1 h = Some (h, 0)"
      "gpma_ok (map (\<lambda>e. (base e, lim e)) (exts heap2)) h" "exts h = [e]" "pagesize h = 16" "npages h = 2"
    using heap2_full by auto
  have "\<exists>j<1. pagemap e (1 + j) \<noteq> RTHEAP_PFREE" using gpma_refusal [OF h(3) _ _ h(2), of e 1 1] h(4-6) by simp
  then show ?thesis using h(1,2,4) by blast
qed

theorem gpma_huge_request_witness: "rtheap_alloc_bsd (- 1) heap2 = rtheap_alloc_bsd 1 heap2 \<and> snd (the (rtheap_alloc_bsd (- 1) heap2)) = 80"
proof -
  have "unat (- 1 :: 64 word) = 18446744073709551615" by (simp add: unsigned_minus_1_eq_mask mask_eq_exp_minus_1)
  then have "rtheap_alloc_bsd (- 1) heap2 = rtheap_alloc_bsd 1 heap2" by (intro gpma_huge_request [of _ 4]) (simp_all add: heap2_init(2))
  moreover have "snd (the (rtheap_alloc_bsd 1 heap2)) = 80"
    by (simp add: heap2_init(2) heap2_eval)
  ultimately show ?thesis by simp
qed

end
