(* ===== verification/Shm.thy ===== *)
theory Shm
  imports Registry_Thms Gpma
begin

text \<open>
  Shared memory and the heaps of tasks (\<^verbatim>\<open>src/ipc/shm/shm.c\<close>, \<^verbatim>\<open>kvmem.c\<close>). An area of shared memory is known by its name
  in the registry, whose use count says how many have it; the type of the entry is its size, negative for memory of
  \<^verbatim>\<open>kmalloc\<close>. A heap is an area with a heap of the page allocator in it; its descriptor lies in the last page. What
  the kernel answers to a request for memory is an argument (\<open>mem\<close>, 0 for nothing); the state keeps which memory it has
  given out and which pages are marked as reserved. A result \<open>None\<close> stands for a loop that does not end, for memory that
  is given back though the kernel has not given it, or for an access through a null pointer.
\<close>

unbundle bit_operations_syntax

section \<open>State\<close>

datatype akind = Vmalloc | Kmalloc | Pages

record rt_heap_t =
  heap_at :: nat
  kadr :: nat
  uadr :: nat

text \<open>\<open>mark a\<close>: the word at address \<open>a\<close> is not zero. \<open>heaps\<close> are the heap descriptors by address; \<open>glob_at\<close>, \<open>glob_adr\<close> and
  \<open>glob_size\<close> stand for \<^verbatim>\<open>rtai_global_heap\<close>, its memory and its size; \<open>map_name\<close> for the word in the control block
  of a process that holds the name of the area it is about to map.\<close>

record shm_st =
  reg :: registry
  areas :: "nat \<Rightarrow> (akind \<times> nat) option"
  reserved :: "nat \<Rightarrow> bool"
  mark :: "nat \<Rightarrow> bool"
  heaps :: "nat \<Rightarrow> rtheap_bsd"
  task_heap :: "tid \<Rightarrow> nat \<Rightarrow> rt_heap_t"
  glob_at :: nat
  glob_adr :: nat
  glob_size :: int
  map_name :: "nat \<Rightarrow> nat"

text \<open>Who calls: the real-time task of the CPU, whether it is hard, the task of the Linux process, and the process.\<close>

record caller =
  whoami :: tid
  hard :: bool
  tskext0 :: "tid option"
  current :: nat

abbreviation (input) PAGE_SIZE :: nat where "PAGE_SIZE \<equiv> 4096"
abbreviation (input) KMALLOC_LIMIT_shm :: nat where "KMALLOC_LIMIT_shm \<equiv> 131072"
abbreviation (input) GLOBAL_HEAP_ID :: nat where "GLOBAL_HEAP_ID \<equiv> 0x9ac6d9e7"
abbreviation (input) GLOBAL :: nat where "GLOBAL \<equiv> 0"
abbreviation (input) SPECIFIC :: nat where "SPECIFIC \<equiv> 1"
abbreviation (input) EAGAIN_shm :: int where "EAGAIN_shm \<equiv> 11"
abbreviation (input) EFAULT_shm :: int where "EFAULT_shm \<equiv> 14"
abbreviation (input) EBUSY :: int where "EBUSY \<equiv> 16"
abbreviation (input) IS_HPCK :: int where "IS_HPCK \<equiv> 6"

definition PAGE_ALIGN :: "nat \<Rightarrow> nat" where
  "PAGE_ALIGN a = (a + PAGE_SIZE - 1) div PAGE_SIZE * PAGE_SIZE"

text \<open>\<^verbatim>\<open>((size - 1) & PAGE_MASK) + PAGE_SIZE\<close>, before it is stored in an \<^verbatim>\<open>int\<close>\<close>

definition page_round :: "int \<Rightarrow> int" where
  "page_round sz = (sz - 1) div 4096 * 4096 + 4096"

section \<open>Memory of the kernel\<close>

text \<open>The loops that mark or unmark the pages of an area; \<^verbatim>\<open>size\<close> is an unsigned long.\<close>

partial_function (option) set_pages :: "bool \<Rightarrow> nat \<Rightarrow> u64_w \<Rightarrow> (nat \<Rightarrow> bool) \<Rightarrow> (nat \<Rightarrow> bool) option" where
  "set_pages v adr sz r =
     (if sz = 0 then Some r else set_pages v (adr + PAGE_SIZE) (sz - 4096) (r(adr div PAGE_SIZE := v)))"

definition give_back :: "nat \<Rightarrow> akind \<Rightarrow> shm_st \<Rightarrow> shm_st option" where
  "give_back m k q =
     (case areas q m of
        Some (k', _) \<Rightarrow> if k' = k then Some (q\<lparr>areas := (areas q)(m := None)\<rparr>) else None
      | None \<Rightarrow> None)"

definition rvmalloc :: "nat \<Rightarrow> u64_w \<Rightarrow> shm_st \<Rightarrow> (shm_st \<times> nat) option" where
  "rvmalloc mem sz q =
     (if mem = 0 then Some (q, 0)
      else map_option (\<lambda>r. (q\<lparr>areas := (areas q)(mem \<mapsto> (Vmalloc, unat sz)), reserved := r\<rparr>, mem))
             (set_pages True mem sz (reserved q)))"

definition rvfree :: "nat \<Rightarrow> u64_w \<Rightarrow> shm_st \<Rightarrow> shm_st option" where
  "rvfree mem sz q =
     (if mem = 0 then Some q
      else Option.bind (set_pages False mem sz (reserved q)) (\<lambda>r. give_back mem Vmalloc (q\<lparr>reserved := r\<rparr>)))"

text \<open>\<^verbatim>\<open>rkmalloc\<close> takes the bytes before the first page boundary off the size.\<close>

definition rkmalloc :: "nat \<Rightarrow> int \<Rightarrow> shm_st \<Rightarrow> (shm_st \<times> nat \<times> int) option" where
  "rkmalloc mem msize q =
     (if mem = 0 then Some (q, 0, msize)
      else
        (let adr = PAGE_ALIGN mem; sz = s32 (msize - int (adr - mem)) in
         map_option (\<lambda>r. (q\<lparr>areas := (areas q)(mem \<mapsto> (if msize \<le> int KMALLOC_LIMIT_shm then Kmalloc else Pages, nat msize)),
                            reserved := r\<rparr>, mem, sz))
           (set_pages True adr (word_of_int sz) (reserved q))))"

definition rkfree :: "nat \<Rightarrow> u64_w \<Rightarrow> shm_st \<Rightarrow> shm_st option" where
  "rkfree mem sz q =
     (if mem = 0 then Some q
      else Option.bind (set_pages False (PAGE_ALIGN mem) sz (reserved q))
             (\<lambda>r. give_back mem (if sz \<le> 131072 then Kmalloc else Pages) (q\<lparr>reserved := r\<rparr>)))"

text \<open>Mapping an area into a process: the pages that are inserted, with the result. \<open>fails i\<close>: the kernel fails on the
  \<open>i\<close>-th page of the mapping.\<close>

fun map_pages :: "(nat \<Rightarrow> bool) \<Rightarrow> nat \<Rightarrow> nat \<Rightarrow> nat \<Rightarrow> nat \<Rightarrow> (nat \<times> nat) list \<times> int" where
  "map_pages fails i 0 start pos = ([], 0)"
| "map_pages fails i (Suc m) start pos =
     (if fails i then ([], - EAGAIN_shm)
      else (case map_pages fails (Suc i) m (start + PAGE_SIZE) (pos + PAGE_SIZE) of (l, r) \<Rightarrow> ((start, pos) # l, r)))"

text \<open>The tests of both mapping functions: the address to map from, if they are passed. (\<open>pgoff\<close> is in pages.)\<close>

definition map_from :: "nat \<Rightarrow> u64_w \<Rightarrow> nat \<Rightarrow> nat \<Rightarrow> nat \<Rightarrow> nat option" where
  "map_from mem memsize start sz pgoff =
     (if pgoff > (2 ^ 64 - 1) div PAGE_SIZE then None
      else
        (let offset = pgoff * PAGE_SIZE; pos = mem + offset in
         if unat (word_of_nat (sz + offset) :: u64_w) > unat memsize then None
         else if pos mod PAGE_SIZE \<noteq> 0 \<or> start mod PAGE_SIZE \<noteq> 0 \<or> sz mod PAGE_SIZE \<noteq> 0 then None
         else Some pos))"

definition rvmmap :: "(nat \<Rightarrow> bool) \<Rightarrow> nat \<Rightarrow> u64_w \<Rightarrow> nat \<Rightarrow> nat \<Rightarrow> nat \<Rightarrow> (nat \<times> nat) list \<times> int" where
  "rvmmap fails mem memsize start sz pgoff =
     (case map_from mem memsize start sz pgoff of
        None \<Rightarrow> ([], - EFAULT_shm)
      | Some pos \<Rightarrow> map_pages fails 0 (sz div PAGE_SIZE) start pos)"

text \<open>\<^verbatim>\<open>rkmmap\<close> maps the area in one piece.\<close>

definition rkmmap :: "bool \<Rightarrow> nat \<Rightarrow> u64_w \<Rightarrow> nat \<Rightarrow> nat \<Rightarrow> nat \<Rightarrow> (nat \<times> nat) list \<times> int" where
  "rkmmap fail mem memsize start sz pgoff =
     (case map_from mem memsize start sz pgoff of
        None \<Rightarrow> ([], - EFAULT_shm)
      | Some pos \<Rightarrow> if fail then ([], - EAGAIN_shm)
                    else (map (\<lambda>i. (start + i * PAGE_SIZE, pos + i * PAGE_SIZE)) [0..<sz div PAGE_SIZE], 0))"

section \<open>Shared memory\<close>

text \<open>\<open>n\<close> is the number of slots of the registry.\<close>

definition area_free :: "nat \<Rightarrow> int \<Rightarrow> shm_st \<Rightarrow> shm_st option" where
  "area_free adr sz q = (if sz < 0 then rkfree adr (word_of_int (- sz)) q else rvfree adr (word_of_int sz) q)"

definition clear_area :: "nat \<Rightarrow> nat \<Rightarrow> shm_st \<Rightarrow> shm_st" where
  "clear_area a sz q =
     q\<lparr>mark := (\<lambda>x. mark q x \<and> \<not> (a \<le> x \<and> x < a + sz)),
       heaps := (\<lambda>x. if a \<le> x \<and> x < a + sz
          then \<lparr>extsize = 0, pagesize = 0, pageshift = 0, hdrsize = 0, npages = 0, ubytes = 0, maxcont = 0, exts = [],
                buckets = (\<lambda>_. 0), lnk = (\<lambda>_. 0)\<rparr> else heaps q x)\<rparr>"

definition shm_alloc :: "nat \<Rightarrow> nat \<Rightarrow> int \<Rightarrow> int \<Rightarrow> caller \<Rightarrow> nat \<Rightarrow> shm_st \<Rightarrow> (shm_st \<times> nat) option" where
  "shm_alloc n name sz suprt c mem q =
     (case rt_get_adr_cnt n name (reg q) of
        None \<Rightarrow> None
      | Some (t1, a) \<Rightarrow>
          (let q1 = q\<lparr>reg := t1\<rparr> in
           if a = 0 \<and> sz > 0 \<and> suprt \<ge> 0 \<and> suprt < 4 \<and> \<not> hard c then
             (let size1 = s32 (page_round sz) in
              case (if suprt \<noteq> 0 then rkmalloc mem size1 q1
                    else map_option (\<lambda>(q2, m). (q2, m, size1)) (rvmalloc mem (word_of_int size1) q1)) of
                None \<Rightarrow> None
              | Some (q2, adr, size2) \<Rightarrow>
                  if adr = 0 then Some (q2, 0)
                  else
                    (case rt_register n name adr (if suprt \<noteq> 0 then - size2 else size2) 0 (reg q2) of
                       None \<Rightarrow> None
                     | Some (t3, r) \<Rightarrow>
                         (let q3 = q2\<lparr>reg := t3\<rparr> in
                          if r = 0 then
                            map_option (\<lambda>q4. (q4, 0))
                              (if suprt \<noteq> 0 then rkfree adr (word_of_int size2) q3 else rvfree adr (word_of_int size2) q3)
                          else Some (clear_area (PAGE_ALIGN adr) (nat size2) q3, PAGE_ALIGN adr))))
           else Some (q1, PAGE_ALIGN a)))"

definition shm_free :: "nat \<Rightarrow> nat \<Rightarrow> int \<Rightarrow> caller \<Rightarrow> shm_st \<Rightarrow> (shm_st \<times> int) option" where
  "shm_free n name sz c q =
     (if sz = 0 then Some (q, 0)
      else
        (case rt_get_adr n name (reg q) of
           None \<Rightarrow> None
         | Some a \<Rightarrow>
             if a = 0 then Some (q, 0)
             else if hard c then Some (q, \<bar>sz\<bar>)
             else
               (case rt_drg_on_name_cnt n name (reg q) of
                  None \<Rightarrow> None
                | Some (t1, r) \<Rightarrow>
                    (let q1 = q\<lparr>reg := t1\<rparr> in
                     if r = 0 \<and> name \<noteq> GLOBAL_HEAP_ID then map_option (\<lambda>q2. (q2, \<bar>sz\<bar>)) (area_free a sz q1)
                     else Some (q1, \<bar>sz\<bar>)))))"

definition rt_shm_alloc :: "nat \<Rightarrow> nat \<Rightarrow> int \<Rightarrow> int \<Rightarrow> caller \<Rightarrow> nat \<Rightarrow> shm_st \<Rightarrow> (shm_st \<times> nat) option" where
  "rt_shm_alloc n name sz suprt c mem q = shm_alloc n name sz suprt c mem q"

definition rt_shm_alloc_usp :: "nat \<Rightarrow> nat \<Rightarrow> int \<Rightarrow> int \<Rightarrow> caller \<Rightarrow> nat \<Rightarrow> shm_st \<Rightarrow> (shm_st \<times> int) option" where
  "rt_shm_alloc_usp n name sz suprt c mem q =
     (case shm_alloc n name sz suprt c mem q of
        None \<Rightarrow> None
      | Some (q1, a) \<Rightarrow>
          if a \<noteq> 0 then
            map_option (\<lambda>ty. (q1\<lparr>map_name := (map_name q1)(current c := name)\<rparr>, \<bar>ty\<bar>)) (rt_get_type n name (reg q1))
          else Some (q1, 0))"

definition rt_shm_free :: "nat \<Rightarrow> nat \<Rightarrow> caller \<Rightarrow> shm_st \<Rightarrow> (shm_st \<times> int) option" where
  "rt_shm_free n name c q = Option.bind (rt_get_type n name (reg q)) (\<lambda>ty. shm_free n name ty c q)"

text \<open>\<open>vmas\<close> are the mappings of the process: the word that holds the name, start and end. The result is the size and the
  address that replaces the name, if there is one.\<close>

definition rt_shm_size :: "nat \<Rightarrow> nat \<Rightarrow> (nat \<times> nat \<times> nat) list \<Rightarrow> shm_st \<Rightarrow> (int \<times> nat option) option" where
  "rt_shm_size n name vmas q =
     map_option (\<lambda>ty. case List.find (\<lambda>(x, a, e). x = name \<and> int e - int a = \<bar>ty\<bar>) vmas of
         Some (_, a, _) \<Rightarrow> (\<bar>ty\<bar>, Some a) | None \<Rightarrow> (0, None))
       (rt_get_type n name (reg q))"

definition rtai_shm_vm_open :: "nat \<Rightarrow> nat \<Rightarrow> shm_st \<Rightarrow> shm_st option" where
  "rtai_shm_vm_open n name q = map_option (\<lambda>(t, _). q\<lparr>reg := t\<rparr>) (rt_get_adr_cnt n name (reg q))"

definition rtai_shm_vm_close :: "nat \<Rightarrow> nat \<Rightarrow> caller \<Rightarrow> shm_st \<Rightarrow> shm_st option" where
  "rtai_shm_vm_close n name c q = map_option fst (rt_shm_free n name c q)"

text \<open>Mapping the area whose name is left in the process; \<open>restore\<close> is what replaces it.\<close>

definition rtai_shm_f_mmap :: "nat \<Rightarrow> nat \<Rightarrow> (nat \<Rightarrow> bool) \<Rightarrow> nat \<Rightarrow> nat \<Rightarrow> nat \<Rightarrow> caller \<Rightarrow> shm_st \<Rightarrow>
    (shm_st \<times> (nat \<times> nat) list \<times> int) option" where
  "rtai_shm_f_mmap n restore fails start sz pgoff c q =
     (let name = map_name q (current c);
          q1 = q\<lparr>map_name := (map_name q)(current c := (if tskext0 c \<noteq> None then restore else 0))\<rparr>
      in case (rt_get_type n name (reg q), rt_get_adr n name (reg q)) of
           (Some ty, Some a) \<Rightarrow>
             Some (q1, if ty < 0 then rkmmap (fails 0) (PAGE_ALIGN a) (word_of_int (- ty)) start sz pgoff
                       else rvmmap fails a (word_of_int ty) start sz pgoff)
         | _ \<Rightarrow> None)"

section \<open>Heaps\<close>

text \<open>Pointers are 64 bits: \<open>shift_adr a from to\<close> is \<^verbatim>\<open>to + (a - from)\<close>.\<close>

definition shift_adr :: "nat \<Rightarrow> nat \<Rightarrow> nat \<Rightarrow> nat" where
  "shift_adr a from to = nat ((int to + (int a - int from)) mod 2 ^ 64)"

definition rt_halloc_in :: "int \<Rightarrow> rt_heap_t \<Rightarrow> shm_st \<Rightarrow> (shm_st \<times> nat) option" where
  "rt_halloc_in sz h q =
     (if heap_at h = 0 then None
      else map_option (\<lambda>(hp, p). (q\<lparr>heaps := (heaps q)(heap_at h := hp)\<rparr>, if p \<noteq> 0 then shift_adr p (kadr h) (uadr h) else 0))
             (rtheap_alloc_bsd (word_of_int sz) (heaps q (heap_at h))))"

definition rt_hfree_in :: "nat \<Rightarrow> rt_heap_t \<Rightarrow> shm_st \<Rightarrow> shm_st option" where
  "rt_hfree_in a h q =
     (if heap_at h = 0 then None
      else map_option (\<lambda>(hp, _). q\<lparr>heaps := (heaps q)(heap_at h := hp)\<rparr>)
             (rtheap_free_bsd (shift_adr a (uadr h) (kadr h)) (heaps q (heap_at h))))"

text \<open>The task on whose behalf a heap service works; \<open>None\<close>: it returns at once.\<close>

definition RTAI_TASK :: "caller \<Rightarrow> tid option" where
  "RTAI_TASK c = (if hard c then Some (whoami c) else tskext0 c)"

definition rt_halloc_typed :: "int \<Rightarrow> nat \<Rightarrow> caller \<Rightarrow> shm_st \<Rightarrow> (shm_st \<times> nat) option" where
  "rt_halloc_typed sz htype c q =
     (case RTAI_TASK c of None \<Rightarrow> Some (q, 0) | Some t \<Rightarrow> rt_halloc_in sz (task_heap q t htype) q)"

definition rt_hfree_typed :: "nat \<Rightarrow> nat \<Rightarrow> caller \<Rightarrow> shm_st \<Rightarrow> shm_st option" where
  "rt_hfree_typed a htype c q =
     (case RTAI_TASK c of None \<Rightarrow> Some q | Some t \<Rightarrow> rt_hfree_in a (task_heap q t htype) q)"

definition rt_named_halloc_typed :: "nat \<Rightarrow> nat \<Rightarrow> int \<Rightarrow> nat \<Rightarrow> caller \<Rightarrow> shm_st \<Rightarrow> (shm_st \<times> nat) option" where
  "rt_named_halloc_typed n name sz htype c q =
     (case RTAI_TASK c of
        None \<Rightarrow> Some (q, 0)
      | Some t \<Rightarrow>
          (let h = task_heap q t htype in
           case rt_get_adr_cnt n name (reg q) of
             None \<Rightarrow> None
           | Some (t1, a) \<Rightarrow>
               if a \<noteq> 0 then Some (q\<lparr>reg := t1\<rparr>, shift_adr a (kadr h) (uadr h))
               else
                 (case rt_halloc_in sz h (q\<lparr>reg := t1\<rparr>) of
                    None \<Rightarrow> None
                  | Some (q2, p) \<Rightarrow>
                      if p = 0 then Some (q2, 0)
                      else
                        (case rt_register n name (shift_adr p (uadr h) (kadr h)) IS_HPCK 0 (reg q2) of
                           None \<Rightarrow> None
                         | Some (t3, r) \<Rightarrow>
                             if r \<noteq> 0 then Some (q2\<lparr>reg := t3\<rparr>, p)
                             else map_option (\<lambda>q4. (q4, 0)) (rt_hfree_in p h (q2\<lparr>reg := t3\<rparr>))))))"

text \<open>\<open>seed\<close> is the state of the generator of names, which \<^verbatim>\<open>rt_get_name\<close> uses for the address 0.\<close>

definition rt_named_hfree_typed :: "nat \<Rightarrow> int \<Rightarrow> nat \<Rightarrow> nat \<Rightarrow> caller \<Rightarrow> shm_st \<Rightarrow> shm_st option" where
  "rt_named_hfree_typed n seed a htype c q =
     (case RTAI_TASK c of
        None \<Rightarrow> Some q
      | Some t \<Rightarrow>
          (let h = task_heap q t htype in
           case rt_get_name n (shift_adr a (uadr h) (kadr h)) (reg q) seed of
             None \<Rightarrow> None
           | Some (_, name) \<Rightarrow>
               (case rt_drg_on_name_cnt n name (reg q) of
                  None \<Rightarrow> None
                | Some (t1, r) \<Rightarrow> if r = 0 then rt_hfree_in a h (q\<lparr>reg := t1\<rparr>) else Some (q\<lparr>reg := t1\<rparr>))))"

text \<open>The services of the group heap.\<close>

definition rt_halloc :: "int \<Rightarrow> caller \<Rightarrow> shm_st \<Rightarrow> (shm_st \<times> nat) option" where
  "rt_halloc sz c q = rt_halloc_typed sz SPECIFIC c q"

definition rt_hfree :: "nat \<Rightarrow> caller \<Rightarrow> shm_st \<Rightarrow> shm_st option" where
  "rt_hfree a c q = rt_hfree_typed a SPECIFIC c q"

definition rt_named_halloc :: "nat \<Rightarrow> nat \<Rightarrow> int \<Rightarrow> caller \<Rightarrow> shm_st \<Rightarrow> (shm_st \<times> nat) option" where
  "rt_named_halloc n name sz c q = rt_named_halloc_typed n name sz SPECIFIC c q"

definition rt_named_hfree :: "nat \<Rightarrow> int \<Rightarrow> nat \<Rightarrow> caller \<Rightarrow> shm_st \<Rightarrow> shm_st option" where
  "rt_named_hfree n seed a c q = rt_named_hfree_typed n seed a SPECIFIC c q"

text \<open>The services of the global heap: for the kernel, through the heap of the first Linux task, and for processes.\<close>

definition rt_named_malloc :: "nat \<Rightarrow> nat \<Rightarrow> int \<Rightarrow> caller \<Rightarrow> shm_st \<Rightarrow> (shm_st \<times> nat) option" where
  "rt_named_malloc n name sz c q =
     (case rt_get_adr_cnt n name (reg q) of
        None \<Rightarrow> None
      | Some (t1, a) \<Rightarrow>
          if a \<noteq> 0 then Some (q\<lparr>reg := t1\<rparr>, a)
          else
            (case rt_halloc_in sz (task_heap q (Linux 0) GLOBAL) (q\<lparr>reg := t1\<rparr>) of
               None \<Rightarrow> None
             | Some (q2, p) \<Rightarrow>
                 if p = 0 then Some (q2, 0)
                 else
                   (case rt_register n name p IS_HPCK 0 (reg q2) of
                      None \<Rightarrow> None
                    | Some (t3, r) \<Rightarrow>
                        if r \<noteq> 0 then Some (q2\<lparr>reg := t3\<rparr>, p)
                        else map_option (\<lambda>q4. (q4, 0)) (rt_hfree p c (q2\<lparr>reg := t3\<rparr>)))))"

definition rt_named_free :: "nat \<Rightarrow> int \<Rightarrow> nat \<Rightarrow> shm_st \<Rightarrow> shm_st option" where
  "rt_named_free n seed a q =
     (case rt_get_name n a (reg q) seed of
        None \<Rightarrow> None
      | Some (_, name) \<Rightarrow>
          (case rt_drg_on_name_cnt n name (reg q) of
             None \<Rightarrow> None
           | Some (t1, r) \<Rightarrow>
               if r = 0 then rt_hfree_in a (task_heap q (Linux 0) GLOBAL) (q\<lparr>reg := t1\<rparr>) else Some (q\<lparr>reg := t1\<rparr>)))"

definition rt_malloc_usp :: "int \<Rightarrow> caller \<Rightarrow> shm_st \<Rightarrow> (shm_st \<times> nat) option" where
  "rt_malloc_usp sz c q = (if glob_adr q \<noteq> 0 then rt_halloc_typed sz GLOBAL c q else Some (q, 0))"

definition rt_free_usp :: "nat \<Rightarrow> caller \<Rightarrow> shm_st \<Rightarrow> shm_st option" where
  "rt_free_usp a c q = (if glob_adr q \<noteq> 0 then rt_hfree_typed a GLOBAL c q else Some q)"

definition rt_named_malloc_usp :: "nat \<Rightarrow> nat \<Rightarrow> int \<Rightarrow> caller \<Rightarrow> shm_st \<Rightarrow> (shm_st \<times> nat) option" where
  "rt_named_malloc_usp n name sz c q =
     (if glob_adr q \<noteq> 0 then rt_named_halloc_typed n name sz GLOBAL c q else Some (q, 0))"

definition rt_named_free_usp :: "nat \<Rightarrow> int \<Rightarrow> nat \<Rightarrow> caller \<Rightarrow> shm_st \<Rightarrow> shm_st option" where
  "rt_named_free_usp n seed a c q = (if glob_adr q \<noteq> 0 then rt_named_hfree_typed n seed a GLOBAL c q else Some q)"

text \<open>\<open>hsz\<close> is \<^verbatim>\<open>sizeof(rtheap_t)\<close>, which depends on the kernel's spin locks; \<open>pm\<close> is what the memory of the page map holds.
  The size of the heap is computed in an unsigned long.\<close>

definition heap_size :: "nat \<Rightarrow> int \<Rightarrow> nat \<Rightarrow> nat \<Rightarrow> u64_w" where
  "heap_size hsz ty heap hptr = (word_of_int \<bar>ty\<bar> - word_of_nat hsz - word_of_nat (hptr - heap)) AND NOT 4095"

definition rt_set_heap :: "nat \<Rightarrow> nat \<Rightarrow> (nat \<Rightarrow> nat) \<Rightarrow> nat \<Rightarrow> nat \<Rightarrow> caller \<Rightarrow> shm_st \<Rightarrow> shm_st option" where
  "rt_set_heap n hsz pm name a c q =
     (case (rt_get_adr n name (reg q), rt_get_type n name (reg q)) of
        (Some hp, Some ty) \<Rightarrow>
          (let hptr = PAGE_ALIGN hp; sz = unat (heap_size hsz ty hp hptr); heap = hptr + sz in
           if hptr = 0 then None
           else
             Option.bind
               (if mark q hptr then Some q
                else map_option (\<lambda>(h1, r). q\<lparr>heaps := (heaps q)(heap := h1),
                                            mark := (mark q)(hptr := (r = 0 \<or> name mod 2 ^ 32 \<noteq> 0))\<rparr>)
                       (rtheap_init_bsd (\<lambda>_. 0) pm hptr sz PAGE_SIZE False (heaps q heap)))
               (\<lambda>q1. case RTAI_TASK c of
                  None \<Rightarrow> Some q1
                | Some t \<Rightarrow>
                    Some (q1\<lparr>task_heap := (task_heap q1)(t :=
                      (if name = GLOBAL_HEAP_ID
                       then (task_heap q1 t)(GLOBAL := \<lparr>heap_at = glob_at q1, kadr = glob_adr q1, uadr = a\<rparr>)
                       else (task_heap q1 t)(SPECIFIC := \<lparr>heap_at = heap, kadr = hptr, uadr = a\<rparr>)))\<rparr>)))
      | _ \<Rightarrow> None)"

definition rt_heap_open :: "nat \<Rightarrow> nat \<Rightarrow> (nat \<Rightarrow> nat) \<Rightarrow> nat \<Rightarrow> int \<Rightarrow> int \<Rightarrow> caller \<Rightarrow> nat \<Rightarrow> shm_st \<Rightarrow> (shm_st \<times> nat) option" where
  "rt_heap_open n hsz pm name sz suprt c mem q =
     (case rt_shm_alloc n name (s32 (page_round sz + int hsz)) suprt c mem q of
        None \<Rightarrow> None
      | Some (q1, a) \<Rightarrow> if a \<noteq> 0 then map_option (\<lambda>q2. (q2, a)) (rt_set_heap n hsz pm name a c q1) else Some (q1, 0))"

section \<open>The device, start and end\<close>

datatype shm_req = SHM_ALLOC nat int int | SHM_FREE nat | SHM_SIZE nat | HEAP_SET nat nat | SHM_OTHER

fun rtai_shm_f_ioctl :: "nat \<Rightarrow> nat \<Rightarrow> (nat \<Rightarrow> nat) \<Rightarrow> (nat \<times> nat \<times> nat) list \<Rightarrow> nat \<Rightarrow> shm_req \<Rightarrow> caller \<Rightarrow> shm_st \<Rightarrow>
    (shm_st \<times> int) option" where
  "rtai_shm_f_ioctl n hsz pm vmas mem (SHM_ALLOC name sz suprt) c q = rt_shm_alloc_usp n name (s32 sz) (s32 suprt) c mem q"
| "rtai_shm_f_ioctl n hsz pm vmas mem (SHM_FREE name) c q = rt_shm_free n name c q"
| "rtai_shm_f_ioctl n hsz pm vmas mem (SHM_SIZE name) c q = map_option (\<lambda>(r, _). (q, r)) (rt_shm_size n name vmas q)"
| "rtai_shm_f_ioctl n hsz pm vmas mem (HEAP_SET name a) c q = map_option (\<lambda>q1. (q1, 0)) (rt_set_heap n hsz pm name a c q)"
| "rtai_shm_f_ioctl n hsz pm vmas mem SHM_OTHER c q = Some (q, 0)"

text \<open>\<open>dev\<close> is the answer of the registration of the device, \<open>ents\<close> that of \<^verbatim>\<open>set_rt_fun_entries\<close>.\<close>

definition rtai_shm_init :: "nat \<Rightarrow> int \<Rightarrow> int \<Rightarrow> shm_st \<Rightarrow> (shm_st \<times> int) option" where
  "rtai_shm_init n dev ents q =
     (if dev < 0 then Some (q, - EBUSY)
      else map_option (\<lambda>(t, _). (q\<lparr>reg := t,
               task_heap := (task_heap q)(Linux 0 := (task_heap q (Linux 0))(GLOBAL :=
                 \<lparr>heap_at = glob_at q, kadr = glob_adr q, uadr = glob_adr q\<rparr>))\<rparr>, ents))
             (rt_register n GLOBAL_HEAP_ID (glob_adr q) (glob_size q) 0 (reg q)))"

partial_function (option) free_all :: "nat \<Rightarrow> nat \<Rightarrow> int \<Rightarrow> caller \<Rightarrow> shm_st \<Rightarrow> shm_st option" where
  "free_all n name sz c q =
     (case shm_free n name sz c q of
        None \<Rightarrow> None
      | Some (q1, r) \<Rightarrow> if r \<noteq> 0 then free_all n name sz c q1 else Some q1)"

fun free_slots :: "nat \<Rightarrow> caller \<Rightarrow> nat list \<Rightarrow> shm_st \<Rightarrow> shm_st option" where
  "free_slots n c [] q = Some q"
| "free_slots n c (k # ks) q =
     (case rt_get_registry_slot k (reg q) of
        None \<Rightarrow> free_slots n c ks q
      | Some e \<Rightarrow>
          if \<bar>etype e\<bar> \<ge> 4096 then Option.bind (free_all n (ename e) (etype e) c q) (free_slots n c ks)
          else free_slots n c ks q)"

definition rtai_shm_exit :: "nat \<Rightarrow> caller \<Rightarrow> shm_st \<Rightarrow> shm_st option" where
  "rtai_shm_exit n c q =
     Option.bind (rt_drg_on_name_cnt n GLOBAL_HEAP_ID (reg q)) (\<lambda>(t, _). free_slots n c [1..<Suc n] (q\<lparr>reg := t\<rparr>))"

end
