(* ===== verification/Shm_Thms.thy ===== *)
theory Shm_Thms
  imports Shm
begin

text \<open>
  Shared memory: whatever a sequence of allocations and releases, the memory that the kernel has given out is that of the
  areas in the registry, which are counted, and the pages that are marked as reserved are theirs. So nothing
  leaks, also when the registry is full, and nothing is released while somebody has it.
\<close>

section \<open>The marks of the pages\<close>

definition pages_at :: "nat \<Rightarrow> nat \<Rightarrow> nat set" where
  "pages_at a sz = {a div PAGE_SIZE..<a div PAGE_SIZE + sz div PAGE_SIZE}"

lemma set_pages_eq:
  "k * 4096 < 2 ^ 64 \<Longrightarrow> 4096 dvd adr \<Longrightarrow>
   set_pages v adr (word_of_nat (k * 4096)) r = Some (\<lambda>p. if p \<in> pages_at adr (k * 4096) then v else r p)"
proof (induction k arbitrary: adr r)
  case 0
  then show ?case by (simp add: set_pages.simps pages_at_def)
next
  case (Suc k)
  have nz: "(word_of_nat (Suc k * 4096) :: u64_w) \<noteq> 0"
    using Suc.prems(1) by (simp add: word_of_nat_eq_0_iff del: of_nat_mult of_nat_Suc mult_Suc) (auto dest: dvd_imp_le)
  have m: "(word_of_nat (Suc k * 4096) :: u64_w) - 4096 = word_of_nat (k * 4096)" by (simp add: algebra_simps)
  have ih: "set_pages v (adr + 4096) (word_of_nat (k * 4096)) (r(adr div 4096 := v)) =
      Some (\<lambda>p. if p \<in> pages_at (adr + 4096) (k * 4096) then v else (r(adr div 4096 := v)) p)"
    using Suc.prems by (intro Suc.IH) simp_all
  have "set_pages v adr (word_of_nat (Suc k * 4096)) r =
      set_pages v (adr + 4096) (word_of_nat (k * 4096)) (r(adr div 4096 := v))"
    by (subst set_pages.simps) (simp only: nz m if_False)
  moreover have "(\<lambda>p. if p \<in> pages_at (adr + 4096) (k * 4096) then v else (r(adr div 4096 := v)) p) =
      (\<lambda>p. if p \<in> pages_at adr (Suc k * 4096) then v else r p)"
    by (auto simp: fun_eq_iff pages_at_def)
  ultimately show ?case using ih by (simp only:)
qed

text \<open>The loops count down to zero in steps of a page: with any other size they never end.\<close>

lemma set_pages_multiple:
  assumes "set_pages v adr sz r = Some y"
  shows "4096 dvd unat sz"
proof (rule set_pages.raw_induct [where P = "\<lambda>v adr sz r y. 4096 dvd unat sz", OF _ assms])
  fix f :: "bool \<Rightarrow> nat \<Rightarrow> u64_w \<Rightarrow> (nat \<Rightarrow> bool) \<Rightarrow> (nat \<Rightarrow> bool) option" and v adr r y and sz :: u64_w
  assume ih: "\<And>v adr sz r y. f v adr sz r = Some y \<Longrightarrow> 4096 dvd unat sz"
    and e: "(if sz = 0 then Some r else f v (adr + PAGE_SIZE) (sz - 4096) (r(adr div PAGE_SIZE := v))) = Some y"
  show "4096 dvd unat sz"
  proof (cases "sz = 0")
    case False
    then have "4096 dvd unat (sz - 4096)" using ih e by (auto split: if_splits)
    then obtain k where "unat (sz - 4096) = 4096 * k" ..
    then have "unat sz = 4096 * (k + 1) \<or> unat sz + 4096 * 4503599627370496 = 4096 * (k + 1)"
      by (auto simp: unat_sub_if' split: if_splits)
    then have "unat sz = 4096 * (k + 1) \<or> unat sz = 4096 * (k + 1) - 4096 * 4503599627370496" by linarith
    then show ?thesis by (auto intro: dvd_diff_nat)
  qed simp
qed

section \<open>Getting and giving back an area\<close>

definition area_kind :: "int \<Rightarrow> akind" where
  "area_kind ty = (if ty \<ge> 0 then Vmalloc else if ty \<ge> -131072 then Kmalloc else Pages)"

definition taken :: "nat \<Rightarrow> int \<Rightarrow> shm_st \<Rightarrow> shm_st" where
  "taken a ty q = q\<lparr>areas := (areas q)(a \<mapsto> (area_kind ty, nat \<bar>ty\<bar>)),
     reserved := (\<lambda>p. p \<in> pages_at a (nat \<bar>ty\<bar>) \<or> reserved q p)\<rparr>"

definition given_back :: "nat \<Rightarrow> int \<Rightarrow> shm_st \<Rightarrow> shm_st" where
  "given_back a ty q = q\<lparr>areas := (areas q)(a := None),
     reserved := (\<lambda>p. p \<notin> pages_at a (nat \<bar>ty\<bar>) \<and> reserved q p)\<rparr>"

lemma page_align_id: "4096 dvd a \<Longrightarrow> PAGE_ALIGN a = a"
  by (auto simp: PAGE_ALIGN_def)

lemma set_pages_area:
  assumes "4096 dvd ty" "\<bar>ty\<bar> < 2 ^ 31" "4096 dvd a"
  shows "set_pages v a (word_of_int \<bar>ty\<bar>) r = Some (\<lambda>p. if p \<in> pages_at a (nat \<bar>ty\<bar>) then v else r p)"
    and "unat (word_of_int \<bar>ty\<bar> :: u64_w) = nat \<bar>ty\<bar>"
proof -
  obtain k where k: "nat \<bar>ty\<bar> = k * 4096" using assms(1) by (auto simp: dvd_def abs_mult nat_mult_distrib)
  have w: "(word_of_int \<bar>ty\<bar> :: u64_w) = word_of_nat (nat \<bar>ty\<bar>)" by simp
  have b: "nat \<bar>ty\<bar> < 2 ^ 64" using assms(2) by simp
  then have "k * 4096 < 2 ^ 64" unfolding k .
  from set_pages_eq [OF this assms(3), of v r]
  show "set_pages v a (word_of_int \<bar>ty\<bar>) r = Some (\<lambda>p. if p \<in> pages_at a (nat \<bar>ty\<bar>) then v else r p)"
    unfolding w k .
  show "unat (word_of_int \<bar>ty\<bar> :: u64_w) = nat \<bar>ty\<bar>" unfolding w by (rule unat_nat64 [OF b])
qed

lemma get_area:
  assumes "0 < a" "4096 dvd a" "0 < sz" "sz < 2 ^ 31" "4096 dvd sz"
  shows "(if su \<noteq> 0 then rkmalloc a sz q else map_option (\<lambda>(q2, m). (q2, m, sz)) (rvmalloc a (word_of_int sz) q)) =
    Some (taken a (if su \<noteq> 0 then - sz else sz) q, a, sz)"
proof -
  have p: "\<bar>sz\<bar> = sz" "s32 sz = sz" using assms(3,4) by (simp_all add: s32_id)
  have s: "set_pages True a (word_of_int sz) r = Some (\<lambda>p. p \<in> pages_at a (nat sz) \<or> r p)" "unat (word_of_int sz :: u64_w) = nat sz" for r
    using set_pages_area(1) [OF assms(5) _ assms(2), of True r] set_pages_area(2) [OF assms(5) _ assms(2)] assms(4) p(1)
    by (simp_all add: fun_eq_iff)
  show ?thesis
    using assms(1-3) p by (simp add: rkmalloc_def rvmalloc_def page_align_id s Let_def taken_def area_kind_def)
qed

lemma free_area:
  assumes "areas q a = Some (area_kind ty, s)" "0 < a" "4096 dvd a" "ty \<noteq> 0" "\<bar>ty\<bar> < 2 ^ 31" "4096 dvd ty"
  shows "area_free a ty q = Some (given_back a ty q)"
proof -
  note s = set_pages_area [OF assms(6,5,3)]
  have le: "(word_of_int \<bar>ty\<bar> :: u64_w) \<le> 131072 \<longleftrightarrow> \<bar>ty\<bar> \<le> 131072" unfolding word_le_nat_alt s by auto
  have g: "(\<lambda>p. if p \<in> A then False else r p) = (\<lambda>p. p \<notin> A \<and> r p)" for A and r :: "nat \<Rightarrow> bool" by auto
  show ?thesis
  proof (cases "ty < 0")
    case True
    have "area_free a ty q = Option.bind (set_pages False a (word_of_int \<bar>ty\<bar>) (reserved q))
             (\<lambda>r. give_back a (if (word_of_int \<bar>ty\<bar> :: u64_w) \<le> 131072 then Kmalloc else Pages) (q\<lparr>reserved := r\<rparr>))"
      using True assms(2,3) by (simp add: area_free_def rkfree_def page_align_id)
    also have "\<dots> = give_back a (area_kind ty) (q\<lparr>reserved := (\<lambda>p. p \<notin> pages_at a (nat \<bar>ty\<bar>) \<and> reserved q p)\<rparr>)"
      unfolding s le g using True by (simp add: area_kind_def)
    finally show ?thesis using assms(1) by (simp add: give_back_def given_back_def)
  next
    case False
    then have t: "\<bar>ty\<bar> = ty" by simp
    show ?thesis
      using assms(1,2) False s(1) [of False "reserved q"] unfolding g
      by (simp add: area_free_def rvfree_def give_back_def given_back_def area_kind_def)
  qed
qed

section \<open>The invariant\<close>

definition is_area :: "robj \<Rightarrow> bool" where
  "is_area ob \<longleftrightarrow> \<bar>otype ob\<bar> \<ge> 4096"

definition area_pages :: "robj \<Rightarrow> nat set" where
  "area_pages ob = pages_at (oadr ob) (nat \<bar>otype ob\<bar>)"

text \<open>The areas of the map \<open>m\<close>, the memory that is out, and the reserved pages agree.\<close>

definition mem_ok :: "(nat \<rightharpoonup> robj) \<Rightarrow> (nat \<Rightarrow> (akind \<times> nat) option) \<Rightarrow> (nat \<Rightarrow> bool) \<Rightarrow> bool" where
  "mem_ok m ar rs \<longleftrightarrow>
     (\<forall>x ob. m x = Some ob \<longrightarrow> is_area ob \<longrightarrow>
        4096 dvd otype ob \<and> \<bar>otype ob\<bar> < 2 ^ 31 \<and> 4096 dvd oadr ob \<and> 0 < oadr ob \<and> 0 < ocount ob \<and> ocount ob < 65536) \<and>
     (\<forall>a k s. ar a = Some (k, s) \<longleftrightarrow>
        (\<exists>x ob. m x = Some ob \<and> is_area ob \<and> oadr ob = a \<and> k = area_kind (otype ob) \<and> s = nat \<bar>otype ob\<bar>)) \<and>
     (\<forall>p. rs p \<longleftrightarrow> (\<exists>x ob. m x = Some ob \<and> is_area ob \<and> p \<in> area_pages ob)) \<and>
     (\<forall>x y ob ob'. m x = Some ob \<longrightarrow> m y = Some ob' \<longrightarrow> is_area ob \<longrightarrow> is_area ob' \<longrightarrow> x \<noteq> y \<longrightarrow>
        area_pages ob \<inter> area_pages ob' = {})"

lemma mem_okD:
  assumes "mem_ok m ar rs" "m x = Some ob" "is_area ob"
  shows "4096 dvd otype ob" "\<bar>otype ob\<bar> < 2 ^ 31" "4096 dvd oadr ob" "0 < oadr ob" "0 < ocount ob" "ocount ob < 65536"
    "ar (oadr ob) = Some (area_kind (otype ob), nat \<bar>otype ob\<bar>)"
    "m y = Some ob' \<Longrightarrow> is_area ob' \<Longrightarrow> x \<noteq> y \<Longrightarrow> area_pages ob \<inter> area_pages ob' = {}"
  using assms unfolding mem_ok_def by blast+

text \<open>An area has its first page, so that no two begin at the same address.\<close>

lemma first_page: "is_area ob \<Longrightarrow> oadr ob div 4096 \<in> area_pages ob"
proof -
  assume "is_area ob"
  then have "4096 \<le> nat \<bar>otype ob\<bar>" by (simp add: is_area_def nat_le_iff le_nat_iff)
  then have "0 < nat \<bar>otype ob\<bar> div 4096" by (simp add: div_greater_zero_iff)
  then show ?thesis by (simp add: area_pages_def pages_at_def)
qed

lemma same_start:
  assumes "mem_ok m ar rs" "m x = Some ob" "is_area ob" "m y = Some ob'" "is_area ob'" "oadr ob = oadr ob'"
  shows "x = y"
  using mem_okD(8) [OF assms(1-5)] first_page [OF assms(3)] first_page [OF assms(5)] assms(6) by (metis IntI empty_iff)

text \<open>Memory that the kernel gives out: whole pages that nobody has.\<close>

definition fresh :: "(nat \<rightharpoonup> robj) \<Rightarrow> nat \<Rightarrow> nat \<Rightarrow> bool" where
  "fresh m a sz \<longleftrightarrow> 1 < a \<and> 4096 dvd a \<and> (\<forall>ob \<in> ran m. oadr ob \<noteq> a \<and> (is_area ob \<longrightarrow> area_pages ob \<inter> pages_at a sz = {}))"

text \<open>What the kernel is documented to give: whole pages from \<^verbatim>\<open>vmalloc\<close> (\<open>su = 0\<close>), whole pages from
  \<^verbatim>\<open>__get_free_pages\<close>, which \<^verbatim>\<open>rkmalloc\<close> calls above 128K, and a block aligned to its size from \<^verbatim>\<open>kmalloc\<close> when
  the size is a power of two. For other sizes nothing is said about the alignment of a block of \<^verbatim>\<open>kmalloc\<close>, and
  such requests are left out.\<close>

definition kernel_gives :: "int \<Rightarrow> int \<Rightarrow> (nat \<rightharpoonup> robj) \<Rightarrow> nat \<Rightarrow> bool" where
  "kernel_gives su sz m a \<longleftrightarrow>
     (su = 0 \<or> sz > 131072 \<or> sz \<in> {4096, 8192, 16384, 32768, 65536, 131072}) \<and> fresh m a (nat sz)"

lemma mem_ok_add:
  assumes "mem_ok m ar rs" "m x = None" "fresh m a (nat \<bar>ty\<bar>)" "4096 dvd ty" "ty \<noteq> 0" "\<bar>ty\<bar> < 2 ^ 31"
  shows "mem_ok (m(x \<mapsto> \<lparr>oadr = a, otype = ty, otsk = k, ocount = 1\<rparr>)) (ar(a \<mapsto> (area_kind ty, nat \<bar>ty\<bar>)))
    (\<lambda>p. p \<in> pages_at a (nat \<bar>ty\<bar>) \<or> rs p)"
proof -
  let ?ob = "\<lparr>oadr = a, otype = ty, otsk = k, ocount = 1\<rparr>"
  have area: "is_area ?ob" using assms(4,5) by (auto simp: is_area_def dvd_def abs_mult)
  have pg: "area_pages ?ob = pages_at a (nat \<bar>ty\<bar>)" by (simp add: area_pages_def)
  have new: "oadr ob \<noteq> a" "is_area ob \<Longrightarrow> area_pages ob \<inter> pages_at a (nat \<bar>ty\<bar>) = {}" if "m y = Some ob" for y ob
    using assms(3) that by (auto simp: fresh_def ran_def)
  have a: "4096 dvd a" "0 < a" using assms(3) by (simp_all add: fresh_def)
  have m: "(m(x \<mapsto> ?ob)) y = Some ob \<longleftrightarrow> y = x \<and> ob = ?ob \<or> y \<noteq> x \<and> m y = Some ob" for y ob by auto
  have mx: "m y = Some ob \<Longrightarrow> y \<noteq> x" for y ob using assms(2) by auto
  show ?thesis
    unfolding mem_ok_def m
  proof (intro conjI allI impI)
    fix b kk s
    show "(ar(a \<mapsto> (area_kind ty, nat \<bar>ty\<bar>))) b = Some (kk, s) \<longleftrightarrow>
      (\<exists>y ob. (y = x \<and> ob = ?ob \<or> y \<noteq> x \<and> m y = Some ob) \<and> is_area ob \<and> oadr ob = b \<and> kk = area_kind (otype ob) \<and> s = nat \<bar>otype ob\<bar>)"
    proof (cases "b = a")
      case True
      have "(\<exists>y ob. (y = x \<and> ob = ?ob \<or> y \<noteq> x \<and> m y = Some ob) \<and> is_area ob \<and> oadr ob = a \<and> R ob) \<longleftrightarrow> R ?ob" for R
        using area new(1) by (metis robj.select_convs(1))
      from this [of "\<lambda>ob. kk = area_kind (otype ob) \<and> s = nat \<bar>otype ob\<bar>"] show ?thesis unfolding True by (simp only:) auto
    next
      case False
      then have "(ar(a \<mapsto> (area_kind ty, nat \<bar>ty\<bar>))) b = Some (kk, s) \<longleftrightarrow>
          (\<exists>y ob. m y = Some ob \<and> is_area ob \<and> oadr ob = b \<and> kk = area_kind (otype ob) \<and> s = nat \<bar>otype ob\<bar>)"
        using assms(1) by (simp add: mem_ok_def)
      then show ?thesis using False mx by auto
    qed
  next
    fix p
    have "rs p \<longleftrightarrow> (\<exists>y ob. m y = Some ob \<and> is_area ob \<and> p \<in> area_pages ob)" using assms(1) unfolding mem_ok_def by blast
    then show "(p \<in> pages_at a (nat \<bar>ty\<bar>) \<or> rs p) \<longleftrightarrow>
      (\<exists>y ob. (y = x \<and> ob = ?ob \<or> y \<noteq> x \<and> m y = Some ob) \<and> is_area ob \<and> p \<in> area_pages ob)"
      using area pg mx by metis
  next
    fix y z ob ob'
    assume "y = x \<and> ob = ?ob \<or> y \<noteq> x \<and> m y = Some ob" "z = x \<and> ob' = ?ob \<or> z \<noteq> x \<and> m z = Some ob'"
      "is_area ob" "is_area ob'" "y \<noteq> z"
    then show "area_pages ob \<inter> area_pages ob' = {}" using new(2) pg mem_okD(8) [OF assms(1)] by (metis Int_commute)
  qed (use assms(4,6) a mem_okD [OF assms(1)] in \<open>auto\<close>)
qed

lemma mem_ok_del:
  assumes "mem_ok m ar rs" "m x = Some ob" "is_area ob"
  shows "mem_ok (m(x := None)) (ar(oadr ob := None)) (\<lambda>p. p \<notin> pages_at (oadr ob) (nat \<bar>otype ob\<bar>) \<and> rs p)"
proof -
  have pg: "pages_at (oadr ob) (nat \<bar>otype ob\<bar>) = area_pages ob" by (simp add: area_pages_def)
  have m: "(m(x := None)) y = Some ob' \<longleftrightarrow> y \<noteq> x \<and> m y = Some ob'" for y ob' by auto
  have other: "oadr ob' \<noteq> oadr ob" "area_pages ob' \<inter> area_pages ob = {}" if "m y = Some ob'" "is_area ob'" "y \<noteq> x" for y ob'
    using same_start [OF assms that(1,2)] mem_okD(8) [OF assms that(1,2)] that(3) by auto
  show ?thesis
    unfolding mem_ok_def m pg
  proof (intro conjI allI impI)
    fix b k s
    have "ar b = Some (k, s) \<longleftrightarrow>
        (\<exists>y ob. m y = Some ob \<and> is_area ob \<and> oadr ob = b \<and> k = area_kind (otype ob) \<and> s = nat \<bar>otype ob\<bar>)"
      using assms(1) by (simp add: mem_ok_def)
    then show "(ar(oadr ob := None)) b = Some (k, s) \<longleftrightarrow>
      (\<exists>y ob. (y \<noteq> x \<and> m y = Some ob) \<and> is_area ob \<and> oadr ob = b \<and> k = area_kind (otype ob) \<and> s = nat \<bar>otype ob\<bar>)"
      using other(1) assms(2) by (cases "b = oadr ob") (auto, metis option.inject)
  next
    fix p
    have "rs p \<longleftrightarrow> (\<exists>y ob. m y = Some ob \<and> is_area ob \<and> p \<in> area_pages ob)" using assms(1) unfolding mem_ok_def by blast
    then show "(p \<notin> area_pages ob \<and> rs p) \<longleftrightarrow> (\<exists>y ob. (y \<noteq> x \<and> m y = Some ob) \<and> is_area ob \<and> p \<in> area_pages ob)"
      using other(2) assms(2) by (metis disjoint_iff option.inject)
  qed (use mem_okD [OF assms(1)] in blast)+
qed

lemma mem_ok_count:
  assumes "mem_ok m ar rs" "m x = Some ob" "0 < c" "c < 65536"
  shows "mem_ok (m(x \<mapsto> ob\<lparr>ocount := c\<rparr>)) ar rs"
proof -
  have pg: "area_pages (ob\<lparr>ocount := c\<rparr>) = area_pages ob" "is_area (ob\<lparr>ocount := c\<rparr>) = is_area ob"
    by (simp_all add: area_pages_def is_area_def)
  have ex: "(\<exists>y ob'. (m(x \<mapsto> ob\<lparr>ocount := c\<rparr>)) y = Some ob' \<and> P (is_area ob') (oadr ob') (otype ob') (area_pages ob')) \<longleftrightarrow>
      (\<exists>y ob'. m y = Some ob' \<and> P (is_area ob') (oadr ob') (otype ob') (area_pages ob'))" for P
  proof
    assume "\<exists>y ob'. (m(x \<mapsto> ob\<lparr>ocount := c\<rparr>)) y = Some ob' \<and> P (is_area ob') (oadr ob') (otype ob') (area_pages ob')"
    then show "\<exists>y ob'. m y = Some ob' \<and> P (is_area ob') (oadr ob') (otype ob') (area_pages ob')"
      using assms(2) pg by (auto split: if_splits)
  next
    assume "\<exists>y ob'. m y = Some ob' \<and> P (is_area ob') (oadr ob') (otype ob') (area_pages ob')"
    then obtain y ob' where y: "m y = Some ob'" "P (is_area ob') (oadr ob') (otype ob') (area_pages ob')" by blast
    then show "\<exists>y ob'. (m(x \<mapsto> ob\<lparr>ocount := c\<rparr>)) y = Some ob' \<and> P (is_area ob') (oadr ob') (otype ob') (area_pages ob')"
      using assms(2) pg by (intro exI [of _ y] exI [of _ "if y = x then ob\<lparr>ocount := c\<rparr> else ob'"]) auto
  qed
  show ?thesis
    unfolding mem_ok_def
  proof (intro conjI allI impI)
    fix a k s
    show "ar a = Some (k, s) \<longleftrightarrow> (\<exists>y ob'. (m(x \<mapsto> ob\<lparr>ocount := c\<rparr>)) y = Some ob' \<and> is_area ob' \<and> oadr ob' = a \<and>
        k = area_kind (otype ob') \<and> s = nat \<bar>otype ob'\<bar>)"
      using ex [of "\<lambda>i b ty _. i \<and> b = a \<and> k = area_kind ty \<and> s = nat \<bar>ty\<bar>"] assms(1) by (simp add: mem_ok_def)
  next
    fix p
    show "rs p \<longleftrightarrow> (\<exists>y ob'. (m(x \<mapsto> ob\<lparr>ocount := c\<rparr>)) y = Some ob' \<and> is_area ob' \<and> p \<in> area_pages ob')"
      using ex [of "\<lambda>i _ _ P. i \<and> p \<in> P"] assms(1) unfolding mem_ok_def by (simp del: fun_upd_apply)
  next
    fix y z ob1 ob2
    assume "(m(x \<mapsto> ob\<lparr>ocount := c\<rparr>)) y = Some ob1" "(m(x \<mapsto> ob\<lparr>ocount := c\<rparr>)) z = Some ob2"
      "is_area ob1" "is_area ob2" "y \<noteq> z"
    then show "area_pages ob1 \<inter> area_pages ob2 = {}"
      using mem_okD(8) [OF assms(1), of y _ z] assms(2) pg by (auto split: if_splits)
  qed (use mem_okD [OF assms(1)] assms(2-4) pg in \<open>auto split: if_splits\<close>)
qed

definition shm_ok :: "nat \<Rightarrow> shm_st \<Rightarrow> bool" where
  "shm_ok n q \<longleftrightarrow> reg_wf n (reg q) \<and> mem_ok (reg_abs n (reg q)) (areas q) (reserved q)"

section \<open>The services on the registry as a map\<close>

datatype shm_op = ShmAlloc nat int int bool nat | ShmFree nat bool

definition caller_of :: "bool \<Rightarrow> caller" where
  "caller_of h = \<lparr>whoami = Linux 0, hard = h, tskext0 = None, current = 0\<rparr>"

fun shm_exec :: "nat \<Rightarrow> shm_op \<Rightarrow> shm_st \<Rightarrow> (shm_st \<times> int) option" where
  "shm_exec n (ShmAlloc x sz su h mem) q = map_option (\<lambda>(q1, a). (q1, int a)) (rt_shm_alloc n x sz su (caller_of h) mem q)"
| "shm_exec n (ShmFree x h) q = rt_shm_free n x (caller_of h) q"

text \<open>An allocation of a name that is known counts; another one makes an area, if the caller may, there is memory and the
  registry has room. A release counts back, and the last one removes the area; a hard real-time task is told that
  it released, but has not.\<close>

fun shm_spec :: "nat \<Rightarrow> shm_op \<Rightarrow> (nat \<rightharpoonup> robj) \<Rightarrow> (nat \<rightharpoonup> robj) \<times> (int \<Rightarrow> bool)" where
  "shm_spec n (ShmAlloc x sz su h mem) m =
     (case m x of
        Some ob \<Rightarrow> (m(x \<mapsto> ob\<lparr>ocount := ocount ob + 1\<rparr>), \<lambda>r. r = int (oadr ob))
      | None \<Rightarrow>
          if sz > 0 \<and> 0 \<le> su \<and> su < 4 \<and> \<not> h \<and> mem \<noteq> 0 \<and> card (dom m) < n
          then (m(x \<mapsto> \<lparr>oadr = mem, otype = (if su \<noteq> 0 then - page_round sz else page_round sz), otsk = 0, ocount = 1\<rparr>),
                \<lambda>r. r = int mem)
          else (m, \<lambda>r. r = 0))"
| "shm_spec n (ShmFree x h) m =
     (case m x of
        None \<Rightarrow> (m, \<lambda>r. r = 0)
      | Some ob \<Rightarrow>
          (if h then m else if ocount ob = 1 then m(x := None) else m(x \<mapsto> ob\<lparr>ocount := ocount ob - 1\<rparr>), \<lambda>r. r = \<bar>otype ob\<bar>))"

text \<open>The use that is covered: names of areas only and not the global heap, fewer than 65535 users at a time, sizes that
  rounding keeps in an \<^verbatim>\<open>int\<close>, and memory as the kernel is documented to give it.\<close>

fun shm_legal :: "shm_op \<Rightarrow> (nat \<rightharpoonup> robj) \<Rightarrow> bool" where
  "shm_legal (ShmAlloc x sz su h mem) m \<longleftrightarrow> 1 < x \<and> sz \<le> 2 ^ 31 - 4096 \<and>
     (case m x of None \<Rightarrow> mem = 0 \<or> kernel_gives su (page_round sz) m mem | Some ob \<Rightarrow> is_area ob \<and> ocount ob < 65535)"
| "shm_legal (ShmFree x h) m \<longleftrightarrow> 1 < x \<and> x \<noteq> GLOBAL_HEAP_ID \<and> (case m x of None \<Rightarrow> True | Some ob \<Rightarrow> is_area ob)"

lemma page_round_range:
  assumes "0 < sz" "sz \<le> 2 ^ 31 - 4096"
  shows "0 < page_round sz" "page_round sz < 2 ^ 31" "4096 dvd page_round sz" "sz \<le> page_round sz" "page_round sz < sz + 4096"
proof -
  have e: "page_round sz = sz + 4095 - (sz - 1) mod 4096" by (simp add: page_round_def minus_mod_eq_div_mult [symmetric])
  have "0 \<le> (sz - 1) mod 4096" "(sz - 1) mod 4096 < 4096" by simp_all
  then show "0 < page_round sz" "page_round sz < 2 ^ 31" "sz \<le> page_round sz" "page_round sz < sz + 4096"
    using assms unfolding e by linarith+
  show "4096 dvd page_round sz" by (simp add: page_round_def)
qed

section \<open>What the registry answers\<close>

lemma get_adr_cnt_spec:
  assumes "reg_wf n t" "x > 1"
  obtains t1 where "rt_get_adr_cnt n x t = Some (t1, case reg_abs n t x of None \<Rightarrow> 0 | Some ob \<Rightarrow> oadr ob)" "reg_wf n t1"
    "reg_abs n t1 = (case reg_abs n t x of None \<Rightarrow> reg_abs n t
       | Some ob \<Rightarrow> (reg_abs n t)(x \<mapsto> ob\<lparr>ocount := u16 (ocount ob + 1)\<rparr>))"
proof -
  from refines_lookup(2) [OF assms] obtain u r where
    "map_option (\<lambda>(u, a). (u, int a)) (rt_get_adr_cnt n x t) = Some (u, r)" "reg_wf n u"
    "reg_abs n u = fst (reg_spec n (GetAdrCnt x) (reg_abs n t))" "snd (reg_spec n (GetAdrCnt x) (reg_abs n t)) r"
    by (auto simp: reg_refines_def)
  then show ?thesis by (intro that [of u]) (auto split: option.splits)
qed

lemma get_adr_spec: "reg_wf n t \<Longrightarrow> x > 1 \<Longrightarrow> rt_get_adr n x t = Some (case reg_abs n t x of None \<Rightarrow> 0 | Some ob \<Rightarrow> oadr ob)"
  using refines_lookup(1) [of n t x] by (auto simp: reg_refines_def split: option.splits)

lemma get_type_spec: "reg_wf n t \<Longrightarrow> x > 1 \<Longrightarrow> rt_get_type n x t = Some (case reg_abs n t x of None \<Rightarrow> - EINVAL | Some ob \<Rightarrow> otype ob)"
  using refines_lookup(3) [of n t x] by (auto simp: reg_refines_def split: option.splits)

lemma register_spec:
  assumes "reg_wf n t" "x > 1" "a > 1" "reg_abs n t x = None" "\<And>ob. ob \<in> ran (reg_abs n t) \<Longrightarrow> oadr ob \<noteq> a"
  obtains t1 r where "rt_register n x a ty tsk t = Some (t1, r)" "reg_wf n t1"
    "card (dom (reg_abs n t)) \<ge> n \<Longrightarrow> r = 0 \<and> reg_abs n t1 = reg_abs n t"
    "card (dom (reg_abs n t)) < n \<Longrightarrow>
       r \<noteq> 0 \<and> reg_abs n t1 = (reg_abs n t)(x \<mapsto> \<lparr>oadr = a, otype = ty, otsk = tsk, ocount = 1\<rparr>)"
proof -
  have "reg_legal (Register x a ty tsk) (reg_abs n t)" using assms by simp
  from refines_register [OF assms(1) this] obtain t1 r where
    "rt_register n x a ty tsk t = Some (t1, r)" "reg_wf n t1"
    "reg_abs n t1 = fst (reg_spec n (Register x a ty tsk) (reg_abs n t))" "snd (reg_spec n (Register x a ty tsk) (reg_abs n t)) r"
    by (auto simp: reg_refines_def)
  then show ?thesis using assms(4) by (intro that [of t1 r]) (auto simp: dom_def)
qed

lemma drg_cnt_spec:
  assumes "reg_wf n t" "x > 1" "reg_abs n t x = Some ob"
  obtains t1 where "rt_drg_on_name_cnt n x t = Some (t1, int (ocount ob - 1))" "reg_wf n t1"
    "reg_abs n t1 = (reg_abs n t)(x := count_less ob)"
  using refines_drg_name [OF assms(1,2)] assms(3) by (auto simp: reg_refines_def)

section \<open>Each service keeps the invariant and meets its specification\<close>

lemma undo_area:
  assumes "mem_ok m (areas q) (reserved q)" "fresh m a (nat \<bar>ty\<bar>)"
  shows "given_back a ty ((taken a ty q)\<lparr>reg := t\<rparr>) = q\<lparr>reg := t\<rparr>"
proof -
  have "areas q a = None"
  proof (rule ccontr)
    assume "areas q a \<noteq> None"
    then obtain x ob where "m x = Some ob" "oadr ob = a" using assms(1) unfolding mem_ok_def by (metis not_None_eq surj_pair)
    then show False using assms(2) by (auto simp: fresh_def ran_def)
  qed
  moreover have "\<not> reserved q p" if "p \<in> pages_at a (nat \<bar>ty\<bar>)" for p
  proof
    assume "reserved q p"
    then obtain x ob where "m x = Some ob" "is_area ob" "p \<in> area_pages ob" using assms(1) unfolding mem_ok_def by blast
    then show False using assms(2) that by (auto simp: fresh_def ran_def)
  qed
  then have "(\<lambda>p. p \<notin> pages_at a (nat \<bar>ty\<bar>) \<and> (p \<in> pages_at a (nat \<bar>ty\<bar>) \<or> reserved q p)) = reserved q" by auto
  moreover have "(areas q)(a := None) = areas q" if "areas q a = None" using that by auto
  ultimately show ?thesis by (cases q) (simp add: given_back_def taken_def)
qed

text \<open>The memory-independent part of an allocation.\<close>

lemma clear_area_ok: "shm_ok n (clear_area a sz q) = shm_ok n q" "reg (clear_area a sz q) = reg q"
  by (simp_all add: shm_ok_def clear_area_def)

lemma alloc_known:
  assumes "shm_ok n q" "1 < x" "reg_abs n (reg q) x = Some ob" "is_area ob" "ocount ob < 65535"
  shows "\<exists>q1. shm_alloc n x sz su c mem q = Some (q1, oadr ob) \<and> shm_ok n q1 \<and>
    reg_abs n (reg q1) = (reg_abs n (reg q))(x \<mapsto> ob\<lparr>ocount := ocount ob + 1\<rparr>)"
proof -
  have w: "reg_wf n (reg q)" and m: "mem_ok (reg_abs n (reg q)) (areas q) (reserved q)" using assms(1) by (simp_all add: shm_ok_def)
  note o = mem_okD [OF m assms(3,4)]
  obtain t1 where t1: "rt_get_adr_cnt n x (reg q) = Some (t1, oadr ob)" "reg_wf n t1"
      "reg_abs n t1 = (reg_abs n (reg q))(x \<mapsto> ob\<lparr>ocount := ocount ob + 1\<rparr>)"
    using get_adr_cnt_spec [OF w assms(2)] assms(3,5) by (auto simp: u16_def)
  have "shm_alloc n x sz su c mem q = Some (q\<lparr>reg := t1\<rparr>, oadr ob)"
    using o(3,4) by (simp add: shm_alloc_def t1(1) page_align_id)
  moreover have "shm_ok n (q\<lparr>reg := t1\<rparr>)" using t1 mem_ok_count [OF m assms(3)] assms(5) by (simp add: shm_ok_def)
  ultimately show ?thesis using t1(3) by auto
qed

lemma alloc_new:
  assumes "shm_ok n q" "1 < x" "reg_abs n (reg q) x = None" "0 < sz" "sz \<le> 2 ^ 31 - 4096" "0 \<le> su" "su < 4" "\<not> hard c"
    and f: "fresh (reg_abs n (reg q)) mem (nat (page_round sz))"
  shows "\<exists>q1 a. shm_alloc n x sz su c mem q = Some (q1, a) \<and> shm_ok n q1 \<and>
    (if card (dom (reg_abs n (reg q))) < n
     then a = mem \<and> \<not> mark q1 mem \<and> reg_abs n (reg q1) = (reg_abs n (reg q))(x \<mapsto>
       \<lparr>oadr = mem, otype = (if su \<noteq> 0 then - page_round sz else page_round sz), otsk = 0, ocount = 1\<rparr>)
     else a = 0 \<and> reg_abs n (reg q1) = reg_abs n (reg q))"
proof -
  let ?m = "reg_abs n (reg q)" and ?S = "page_round sz"
  define ty where "ty = (if su \<noteq> 0 then - ?S else ?S)"
  have w: "reg_wf n (reg q)" and m: "mem_ok ?m (areas q) (reserved q)" using assms(1) by (simp_all add: shm_ok_def)
  note S = page_round_range [OF assms(4,5)]
  have ty: "\<bar>ty\<bar> = ?S" "ty \<noteq> 0" "4096 dvd ty" "\<bar>ty\<bar> < 2 ^ 31" using S by (auto simp: ty_def)
  have mem: "1 < mem" "4096 dvd mem" "\<And>ob. ob \<in> ran ?m \<Longrightarrow> oadr ob \<noteq> mem" using f by (auto simp: fresh_def)
  obtain t1 where t1: "rt_get_adr_cnt n x (reg q) = Some (t1, 0)" "reg_wf n t1" "reg_abs n t1 = ?m"
    using get_adr_cnt_spec [OF w assms(2)] assms(3) by auto
  let ?q1 = "q\<lparr>reg := t1\<rparr>"
  have S32: "s32 ?S = ?S" using S(1,2) by (simp add: s32_id)
  note get = get_area [OF _ mem(2) S(1,2,3), of su ?q1, folded ty_def]
  obtain t3 r where t3: "rt_register n x mem ty 0 t1 = Some (t3, r)" "reg_wf n t3"
      "card (dom ?m) \<ge> n \<Longrightarrow> r = 0 \<and> reg_abs n t3 = ?m"
      "card (dom ?m) < n \<Longrightarrow> r \<noteq> 0 \<and> reg_abs n t3 = ?m(x \<mapsto> \<lparr>oadr = mem, otype = ty, otsk = 0, ocount = 1\<rparr>)"
    using register_spec [OF t1(2) assms(2) mem(1), of ty 0] assms(3) mem(3) unfolding t1(3) by metis
  let ?q3 = "(taken mem ty ?q1)\<lparr>reg := t3\<rparr>"
  have reg2: "reg (taken mem ty ?q1) = t1" by (simp add: taken_def)
  have fr: "(if su \<noteq> 0 then rkfree mem (word_of_int ?S) q' else rvfree mem (word_of_int ?S) q') = area_free mem ty q'" for q'
    using S(1) by (simp add: area_free_def ty_def)
  have run: "shm_alloc n x sz su c mem q =
      (if r = 0 then map_option (\<lambda>q4. (q4, 0)) (area_free mem ty ?q3)
       else Some (clear_area mem (nat ?S) ?q3, mem))"
    using assms(4,6-8) mem(1,2) get
    by (simp add: shm_alloc_def t1(1) S32 Let_def reg2 ty_def [symmetric] t3(1) page_align_id fr cong: if_cong)
  show ?thesis
  proof (cases "card (dom ?m) < n")
    case True
    have "shm_ok n ?q3"
      using mem_ok_add [OF m assms(3) _ ty(3,2,4), of mem 0] f ty(1) t3(2,4) True by (simp add: shm_ok_def taken_def)
    moreover have "\<not> mark (clear_area mem (nat ?S) ?q3) mem" using S(1) by (simp add: clear_area_def)
    ultimately show ?thesis using run t3(4) True by (simp add: clear_area_ok ty_def)
  next
    case False
    then have r: "r = 0" "reg_abs n t3 = ?m" using t3(3) by simp_all
    have "area_free mem ty ?q3 = Some (given_back mem ty ?q3)"
      using mem(1,2) ty by (intro free_area [where s = "nat \<bar>ty\<bar>"]) (simp_all add: taken_def)
    moreover have "given_back mem ty ?q3 = ?q1\<lparr>reg := t3\<rparr>"
      by (rule undo_area [of ?m]) (use m f ty(1) in simp_all)
    ultimately show ?thesis using run r t3(2) m False by (simp add: shm_ok_def)
  qed
qed

lemma free_known:
  assumes "shm_ok n q" "1 < x" "x \<noteq> GLOBAL_HEAP_ID" "reg_abs n (reg q) x = Some ob" "is_area ob"
  shows "\<exists>q1. rt_shm_free n x c q = Some (q1, \<bar>otype ob\<bar>) \<and> shm_ok n q1 \<and>
    reg_abs n (reg q1) = (if hard c then reg_abs n (reg q) else if ocount ob = 1 then (reg_abs n (reg q))(x := None)
      else (reg_abs n (reg q))(x \<mapsto> ob\<lparr>ocount := ocount ob - 1\<rparr>))"
proof (cases "hard c")
  case True
  have w: "reg_wf n (reg q)" and m: "mem_ok (reg_abs n (reg q)) (areas q) (reserved q)" using assms(1) by (simp_all add: shm_ok_def)
  show ?thesis using True mem_okD(4) [OF m assms(4,5)] assms(1,4)
    by (simp add: rt_shm_free_def shm_free_def get_type_spec [OF w assms(2)] get_adr_spec [OF w assms(2)])
next
  case False
  let ?m = "reg_abs n (reg q)"
  have w: "reg_wf n (reg q)" and m: "mem_ok ?m (areas q) (reserved q)" using assms(1) by (simp_all add: shm_ok_def)
  note o = mem_okD [OF m assms(4,5)]
  obtain t1 where t1: "rt_drg_on_name_cnt n x (reg q) = Some (t1, int (ocount ob - 1))" "reg_wf n t1"
      "reg_abs n t1 = ?m(x := count_less ob)"
    using drg_cnt_spec [OF w assms(2,4)] .
  let ?q1 = "q\<lparr>reg := t1\<rparr>"
  have ty: "otype ob \<noteq> 0" using assms(5) by (auto simp: is_area_def)
  have run: "rt_shm_free n x c q =
      (if ocount ob = 1 then map_option (\<lambda>q2. (q2, \<bar>otype ob\<bar>)) (area_free (oadr ob) (otype ob) ?q1)
       else Some (?q1, \<bar>otype ob\<bar>))"
    using False o(4,5) ty assms(3,4)
    by (auto simp: rt_shm_free_def shm_free_def get_type_spec [OF w assms(2)] get_adr_spec [OF w assms(2)] t1(1))
  show ?thesis
  proof (cases "ocount ob = 1")
    case True
    have "area_free (oadr ob) (otype ob) ?q1 = Some (given_back (oadr ob) (otype ob) ?q1)"
      using o ty by (intro free_area [where s = "nat \<bar>otype ob\<bar>"]) simp_all
    moreover have "shm_ok n (given_back (oadr ob) (otype ob) ?q1)"
      using mem_ok_del [OF m assms(4,5)] t1(2,3) True by (simp add: shm_ok_def given_back_def count_less_def)
    ultimately show ?thesis using run t1(3) True False by (simp add: given_back_def count_less_def)
  next
    case c: False
    have "shm_ok n ?q1" using mem_ok_count [OF m assms(4), of "ocount ob - 1"] t1(2,3) o(5,6) c
      by (simp add: shm_ok_def count_less_def)
    then show ?thesis using run t1(3) c False o(5) by (simp add: count_less_def)
  qed
qed

lemma unknown_name:
  assumes "shm_ok n q" "1 < x" "reg_abs n (reg q) x = None"
  shows "\<exists>q1. rt_shm_free n x c q = Some (q1, 0) \<and> shm_ok n q1 \<and> reg_abs n (reg q1) = reg_abs n (reg q)"
    and "\<not> (0 < sz \<and> 0 \<le> su \<and> su < 4 \<and> \<not> hard c \<and> mem \<noteq> 0) \<Longrightarrow> sz \<le> 2 ^ 31 - 4096 \<Longrightarrow>
      \<exists>q1. shm_alloc n x sz su c mem q = Some (q1, 0) \<and> shm_ok n q1 \<and> reg_abs n (reg q1) = reg_abs n (reg q)"
proof -
  have w: "reg_wf n (reg q)" and m: "mem_ok (reg_abs n (reg q)) (areas q) (reserved q)" using assms(1) by (simp_all add: shm_ok_def)
  show "\<exists>q1. rt_shm_free n x c q = Some (q1, 0) \<and> shm_ok n q1 \<and> reg_abs n (reg q1) = reg_abs n (reg q)"
    using assms(1,3) by (simp add: rt_shm_free_def shm_free_def get_type_spec [OF w assms(2)] get_adr_spec [OF w assms(2)])
  obtain t1 where t1: "rt_get_adr_cnt n x (reg q) = Some (t1, 0)" "reg_wf n t1" "reg_abs n t1 = reg_abs n (reg q)"
    using get_adr_cnt_spec [OF w assms(2)] assms(3) by auto
  assume "\<not> (0 < sz \<and> 0 \<le> su \<and> su < 4 \<and> \<not> hard c \<and> mem \<noteq> 0)" "sz \<le> 2 ^ 31 - 4096"
  then have "shm_alloc n x sz su c mem q = Some (q\<lparr>reg := t1\<rparr>, 0)"
    by (auto simp: shm_alloc_def t1(1) PAGE_ALIGN_def Let_def rkmalloc_def rvmalloc_def)
  then show "\<exists>q1. shm_alloc n x sz su c mem q = Some (q1, 0) \<and> shm_ok n q1 \<and> reg_abs n (reg q1) = reg_abs n (reg q)"
    using t1 m by (simp add: shm_ok_def)
qed

lemma shm_step:
  assumes "shm_ok n q" "shm_legal op (reg_abs n (reg q))"
  shows "\<exists>q1 r. shm_exec n op q = Some (q1, r) \<and> shm_ok n q1 \<and>
    reg_abs n (reg q1) = fst (shm_spec n op (reg_abs n (reg q))) \<and> snd (shm_spec n op (reg_abs n (reg q))) r"
proof (cases op)
  case (ShmAlloc x sz su h mem)
  have l: "1 < x" "sz \<le> 2 ^ 31 - 4096" using assms(2) ShmAlloc by simp_all
  show ?thesis
  proof (cases "reg_abs n (reg q) x")
    case None
    show ?thesis
    proof (cases "0 < sz \<and> 0 \<le> su \<and> su < 4 \<and> \<not> h \<and> mem \<noteq> 0")
      case True
      have c: "\<not> hard (caller_of h)" using True by (simp add: caller_of_def)
      have "fresh (reg_abs n (reg q)) mem (nat (page_round sz))" using assms(2) ShmAlloc None True by (simp add: kernel_gives_def)
      then show ?thesis using alloc_new [OF assms(1) l(1) None _ l(2) _ _ c, of su mem] True ShmAlloc None
        by (auto simp: rt_shm_alloc_def split: if_splits)
    next
      case False
      then show ?thesis using unknown_name(2) [OF assms(1) l(1) None, of sz su "caller_of h" mem] l(2) ShmAlloc None
        by (auto simp: rt_shm_alloc_def caller_of_def)
    qed
  next
    case (Some ob)
    then show ?thesis using alloc_known [OF assms(1) l(1) Some, of sz su "caller_of h" mem] assms(2) ShmAlloc
      by (auto simp: rt_shm_alloc_def)
  qed
next
  case (ShmFree x h)
  have l: "1 < x" "x \<noteq> GLOBAL_HEAP_ID" using assms(2) ShmFree by simp_all
  show ?thesis
  proof (cases "reg_abs n (reg q) x")
    case None
    then show ?thesis using unknown_name(1) [OF assms(1) l(1) None] ShmFree by auto
  next
    case (Some ob)
    then show ?thesis using free_known [OF assms(1) l Some, of "caller_of h"] assms(2) ShmFree by (auto simp: caller_of_def)
  qed
qed

interpretation shm: data_refinement "shm_ok n" "\<lambda>q. reg_abs n (reg q)" "shm_exec n" "shm_spec n" shm_legal for n
  by unfold_locales (use shm_step in blast)

lemma shm_start: "reg_wf n t \<Longrightarrow> reg_abs n t = Map.empty \<Longrightarrow> reg q = t \<Longrightarrow> areas q = Map.empty \<Longrightarrow> reserved q = (\<lambda>_. False) \<Longrightarrow> shm_ok n q"
  by (simp add: shm_ok_def mem_ok_def)

lemma spec_areas:
  assumes "shm_legal op m" "\<forall>ob\<in>ran m. is_area ob"
  shows "\<forall>ob\<in>ran (fst (shm_spec n op m)). is_area ob"
proof (cases op)
  case (ShmAlloc x sz su h mem)
  show ?thesis
  proof (cases "m x")
    case None
    have "is_area \<lparr>oadr = mem, otype = (if su \<noteq> 0 then - page_round sz else page_round sz), otsk = 0, ocount = 1\<rparr>" if "0 < sz"
      using page_round_range(1,3) [of sz] assms(1) ShmAlloc that by (auto simp: is_area_def dest: zdvd_imp_le)
    then show ?thesis using assms(2) ShmAlloc None by auto
  qed (use assms ShmAlloc in \<open>auto simp: ran_def is_area_def\<close>)
next
  case (ShmFree x h)
  then show ?thesis using assms by (auto simp: ran_def is_area_def split: option.splits)
qed

lemma run_areas:
  "legal_run (shm_spec n) shm_legal ops m \<Longrightarrow> \<forall>ob\<in>ran m. is_area ob \<Longrightarrow>
   \<forall>ob\<in>ran (fold (\<lambda>c m. fst (shm_spec n c m)) ops m). is_area ob"
proof (induction ops arbitrary: m)
  case (Cons c ops)
  then have "legal_run (shm_spec n) shm_legal ops (fst (shm_spec n c m))" "shm_legal c m" by simp_all
  then show ?case using Cons.IH [OF _ spec_areas [OF _ Cons.prems(2)]] by simp
qed simp

text \<open>C30. From the allocation of the registry on, over any legal sequence of allocations and releases of shared memory
  (\<open>shm_legal\<close>: names of areas only, not other registered objects and not the global heap, fewer than 65535 users of a name,
  sizes up to 2^31 - 4096, and memory aligned as the kernel documents it): every service returns and answers as on a map of
  counted names; the memory that the kernel has given out is that of the areas of the map, and exactly their pages are
  marked as reserved. So an area lives as long as its name is used, and nothing is lost, even when the registry has no
  room for a new name.\<close>

theorem shared_memory_accounted:
  assumes "rt_registry_alloc num ok = Some (n, reg q)" "areas q = Map.empty" "reserved q = (\<lambda>_. False)"
    "legal_run (shm_spec n) shm_legal ops Map.empty"
  shows "\<exists>q' rs m. srv_run (shm_exec n) ops q = Some (q', rs) \<and> results_ok (shm_spec n) ops rs Map.empty \<and>
    m = fold (\<lambda>c m. fst (shm_spec n c m)) ops Map.empty \<and>
    (\<forall>a. areas q' a \<noteq> None \<longleftrightarrow> (\<exists>ob\<in>ran m. oadr ob = a)) \<and> (\<forall>p. reserved q' p \<longleftrightarrow> (\<exists>ob\<in>ran m. p \<in> area_pages ob))"
proof -
  let ?m = "fold (\<lambda>c m. fst (shm_spec n c m)) ops Map.empty"
  have s: "reg_wf n (reg q)" "reg_abs n (reg q) = Map.empty" using registry_alloc_wf [OF assms(1)] by simp_all
  obtain q' rs where r: "srv_run (shm_exec n) ops q = Some (q', rs)" "shm_ok n q'" "reg_abs n (reg q') = ?m"
      "results_ok (shm_spec n) ops rs Map.empty"
    using shm.runs [OF shm_start [OF s refl assms(2,3)], of ops] s(2) assms(4) by auto
  have a: "is_area ob" if "ob \<in> ran ?m" for ob using run_areas [OF assms(4)] that by simp
  have m: "mem_ok ?m (areas q') (reserved q')" using r(2,3) by (simp add: shm_ok_def)
  have "areas q' b \<noteq> None \<longleftrightarrow> (\<exists>ob\<in>ran ?m. oadr ob = b)" for b
  proof -
    have "areas q' b \<noteq> None \<longleftrightarrow> (\<exists>k s. areas q' b = Some (k, s))" by auto
    also have "\<dots> \<longleftrightarrow> (\<exists>x ob. ?m x = Some ob \<and> is_area ob \<and> oadr ob = b)" using m unfolding mem_ok_def by auto
    also have "\<dots> \<longleftrightarrow> (\<exists>ob\<in>ran ?m. oadr ob = b)" using a unfolding ran_def by blast
    finally show ?thesis .
  qed
  moreover have "reserved q' p \<longleftrightarrow> (\<exists>ob\<in>ran ?m. p \<in> area_pages ob)" for p
  proof -
    have "reserved q' p \<longleftrightarrow> (\<exists>x ob. ?m x = Some ob \<and> is_area ob \<and> p \<in> area_pages ob)" using m unfolding mem_ok_def by blast
    then show ?thesis using a unfolding ran_def by blast
  qed
  ultimately show ?thesis using r(1,4) by blast
qed

definition demo_shm :: "registry \<Rightarrow> shm_st" where
  "demo_shm t = \<lparr>reg = t, areas = Map.empty, reserved = (\<lambda>_. False), mark = (\<lambda>_. False),
     heaps = (\<lambda>_. \<lparr>extsize = 0, pagesize = 0, pageshift = 0, hdrsize = 0, npages = 0, ubytes = 0, maxcont = 0, exts = [],
                buckets = (\<lambda>_. 0), lnk = (\<lambda>_. 0)\<rparr>),
     task_heap = (\<lambda>_ _. \<lparr>heap_at = 0, kadr = 0, uadr = 0\<rparr>), glob_at = 0, glob_adr = 0, glob_size = 0, map_name = (\<lambda>_. 0)\<rparr>"

text \<open>Two users of the area 7; after the second has released it the memory is given back, and that of area 9 is out.\<close>

theorem shared_memory_accounted_witness:
  "\<exists>n t q' rs. rt_registry_alloc 150 True = Some (n, t) \<and>
    srv_run (shm_exec n) [ShmAlloc 7 100 0 False 8192, ShmAlloc 7 0 0 False 0, ShmAlloc 9 5000 1 False 40960,
      ShmFree 7 False, ShmFree 7 False] (demo_shm t) = Some (q', rs) \<and>
    areas q' 8192 = None \<and> areas q' 40960 \<noteq> None \<and> (\<forall>p. reserved q' p \<longleftrightarrow> p = 10 \<or> p = 11)"
proof -
  let ?ops = "[ShmAlloc 7 100 0 False 8192, ShmAlloc 7 0 0 False 0, ShmAlloc 9 5000 1 False 40960, ShmFree 7 False, ShmFree 7 False]"
  obtain n t where t: "rt_registry_alloc 150 True = Some (n, t)" "150 \<le> n" using registry_capacity [of 150] by auto
  have r: "page_round 100 = 4096" "page_round 5000 = 8192" by (simp_all add: page_round_def)
  let ?b = "\<lparr>oadr = 40960, otype = - 8192, otsk = 0, ocount = 1\<rparr>"
  have l: "legal_run (shm_spec n) shm_legal ?ops Map.empty"
    using t(2) by (simp add: r kernel_gives_def fresh_def is_area_def ran_def area_pages_def pages_at_def)
  have f: "fold (\<lambda>c m. fst (shm_spec n c m)) ?ops Map.empty = [9 \<mapsto> ?b]" using t(2) by (auto simp: r fun_eq_iff)
  show ?thesis
  proof -
    have d: "reg (demo_shm t) = t" "areas (demo_shm t) = Map.empty" "reserved (demo_shm t) = (\<lambda>_. False)"
      by (simp_all add: demo_shm_def)
    obtain q' rs where q': "srv_run (shm_exec n) ?ops (demo_shm t) = Some (q', rs)"
        "\<forall>a. areas q' a \<noteq> None \<longleftrightarrow> (\<exists>ob\<in>ran [(9 :: nat) \<mapsto> ?b]. oadr ob = a)"
        "\<forall>p. reserved q' p \<longleftrightarrow> (\<exists>ob\<in>ran [(9 :: nat) \<mapsto> ?b]. p \<in> area_pages ob)"
      using shared_memory_accounted [of 150 True n "demo_shm t" ?ops, unfolded f, OF _ d(2,3) l] t(1) unfolding d(1) by blast
    have "areas q' 8192 = None" by (rule ccontr, drule iffD1 [OF spec [OF q'(2)]]) simp
    moreover have "areas q' 40960 \<noteq> None" by (rule iffD2 [OF spec [OF q'(2)]]) simp
    moreover have "reserved q' p \<longleftrightarrow> p = 10 \<or> p = 11" for p
      unfolding spec [OF q'(3), of p] by (simp add: area_pages_def pages_at_def) linarith
    ultimately show ?thesis using t(1) q'(1) by blast
  qed
qed

text \<open>The release of a name that is not an area's, for instance of a semaphore, whose entry has type 1, takes the type for a
  size in bytes and never comes back.\<close>

lemma free_of_semaphore_hangs:
  assumes "reg_wf n (reg q)" "1 < x" "reg_abs n (reg q) x = Some ob" "otype ob = 1" "ocount ob = 1" "0 < oadr ob"
    "x \<noteq> GLOBAL_HEAP_ID" "\<not> hard c"
  shows "rt_shm_free n x c q = None"
proof -
  obtain t1 where t1: "rt_drg_on_name_cnt n x (reg q) = Some (t1, 0)" using drg_cnt_spec [OF assms(1-3)] assms(5) by auto
  have "set_pages False (oadr ob) 1 r = None" for r
  proof (cases "set_pages False (oadr ob) 1 r")
    case (Some y)
    from set_pages_multiple [OF this] show ?thesis by (simp only: unat_1) simp
  qed
  then have free: "area_free (oadr ob) 1 q' = None" for q' using assms(6) by (simp add: area_free_def rvfree_def)
  have a: "rt_get_type n x (reg q) = Some 1" "rt_get_adr n x (reg q) = Some (oadr ob)"
    using get_type_spec [OF assms(1,2)] get_adr_spec [OF assms(1,2)] assms(3,4) by simp_all
  have "rt_shm_free n x c q = shm_free n x 1 c q" by (simp add: rt_shm_free_def a)
  also have "\<dots> = None" using assms(6-8) by (simp add: shm_free_def a t1 free)
  finally show ?thesis .
qed

text \<open>A use count that holds 65535 users wraps to zero with the next one; the first release gives the memory back though the
  name stays in the registry.\<close>

lemma count_wraps:
  assumes "reg_wf n t" "1 < x" "reg_abs n t x = Some ob" "ocount ob = 65535"
  obtains t1 t2 where "rt_get_adr_cnt n x t = Some (t1, oadr ob)" "rt_drg_on_name_cnt n x t1 = Some (t2, 0)" "reg_abs n t2 x \<noteq> None"
proof -
  have u: "u16 (ocount ob + 1) = 0" by (simp add: u16_def assms(4))
  obtain t1 where t1: "rt_get_adr_cnt n x t = Some (t1, oadr ob)" "reg_wf n t1" "reg_abs n t1 = (reg_abs n t)(x \<mapsto> ob\<lparr>ocount := 0\<rparr>)"
    by (rule get_adr_cnt_spec [OF assms(1,2), unfolded assms(3) option.case u])
  have x: "reg_abs n t1 x = Some (ob\<lparr>ocount := 0\<rparr>)" unfolding t1(3) by simp
  obtain t2 where t2: "rt_drg_on_name_cnt n x t1 = Some (t2, int (ocount (ob\<lparr>ocount := 0\<rparr>) - 1))" "reg_wf n t2"
      "reg_abs n t2 = (reg_abs n t1)(x := count_less (ob\<lparr>ocount := 0\<rparr>))"
    by (rule drg_cnt_spec [OF t1(2) assms(2) x])
  have "rt_drg_on_name_cnt n x t1 = Some (t2, 0)" "reg_abs n t2 x \<noteq> None" using t2(1,3) by (simp_all add: count_less_def)
  then show ?thesis using t1(1) that by blast
qed

section \<open>Heaps in shared memory\<close>

lemma and_page_low: "m AND 4095 = m mod 4096" for m :: nat
proof -
  have "m AND mask 12 = m mod 4096" unfolding take_bit_eq_mask [symmetric] take_bit_eq_mod by simp
  moreover have "mask 12 = (4095 :: nat)" by (simp add: mask_eq_exp_minus_1)
  ultimately show ?thesis by (simp only:)
qed

text \<open>The descriptor takes less than a page behind the heap, so that the heap has the pages that were asked for.\<close>

lemma heap_size_eq:
  assumes "4096 dvd P" "0 < hsz" "hsz \<le> 4096" "P + 4096 < 2 ^ 31" "\<bar>ty\<bar> = int (P + 4096)"
  shows "unat (heap_size hsz ty a a) = P"
proof -
  obtain k where k: "P = 4096 * k" using assms(1) by auto
  have "(word_of_int \<bar>ty\<bar> :: u64_w) - word_of_nat hsz - word_of_nat (a - a) = word_of_nat (P + 4096 - hsz)"
    unfolding assms(5) using assms(3) by (simp add: of_nat_diff)
  moreover have "(4095 :: u64_w) = push_bit 12 1 - 1" by (simp add: push_bit_eq_mult)
  ultimately have "heap_size hsz ty a a = word_of_nat (2 ^ 12 * ((P + 4096 - hsz) div 2 ^ 12))"
    unfolding heap_size_def by (simp only: and_not_low)
  moreover have "(P + 4096 - hsz) div 4096 = k"
    using assms(2,3) unfolding k by (intro div_nat_eqI) simp_all
  ultimately have "heap_size hsz ty a a = word_of_nat P" using k by simp
  then show ?thesis using unat_nat64 [of P] assms(4) by simp
qed

text \<open>In memory of the caller the start of a heap needs two pages beside the header.\<close>

lemma init_pages_needed:
  assumes "4096 dvd P" "0 < P" "P < 2 ^ 31" "0 < a"
  shows "\<exists>h r. rtheap_init_bsd al pm a P 4096 False h0 = Some (h, r) \<and> (r = 0 \<longleftrightarrow> 8192 < P)"
proof -
  obtain k where k: "P = 4096 * k" "0 < k" using assms(1,2) by (auto elim!: dvdE)
  define hdr where "hdr = (48 + (P - 48) div 4097 + 15) div 16 * 16"
  have hdr_eq: "(63 + (P - 48) div 4097) div 16 * 16 = hdr" by (simp add: hdr_def)
  have c: "P AND 4095 = 0" "48 < P" "P \<le> 2147483647" "(4096 :: nat) AND 4095 = 0" using k assms(3) by (simp_all add: and_page_low)
  have b: "48 \<le> hdr" "hdr \<le> 63 + P div 4096"
  proof -
    have "(P - 48) div 4097 \<le> P div 4096" using div_le_mono2 [of 4096 4097 "P - 48"] div_le_mono [of "P - 48" P 4096] by simp
    then show "hdr \<le> 63 + P div 4096" unfolding hdr_def by linarith
    show "48 \<le> hdr" unfolding hdr_def by linarith
  qed
  have "hdr + 8192 > P \<longleftrightarrow> \<not> 8192 < P"
  proof
    assume "\<not> 8192 < P" then show "hdr + 8192 > P" using b(1) by linarith
  next
    assume g: "hdr + 8192 > P"
    show "\<not> 8192 < P"
    proof
      assume "8192 < P"
      then have "3 \<le> k" using k(1) by linarith
      then show False using g b(2) k(1) by simp
    qed
  qed
  moreover have "hdr + 4096 \<le> P" if "\<not> hdr + 8192 > P" using that by simp
  ultimately show ?thesis
    using assms(4) c unfolding rtheap_init_bsd_def Let_def
    by (cases "hdr + 8192 > P") (simp_all add: hdr_eq split: prod.splits)
qed

lemma ask_pages:
  assumes "0 < sz" "sz \<le> 2 ^ 31 - 16384" "0 < hsz" "hsz \<le> 4096" "P = nat (page_round sz)"
  shows "page_round sz = int P" "0 < P" "4096 dvd P" "P \<le> 2 ^ 31 - 12288"
    "s32 (page_round sz + int hsz) = page_round sz + int hsz" "page_round sz + int hsz \<le> 2 ^ 31 - 4096"
    "page_round (page_round sz + int hsz) = int (P + 4096)"
proof -
  note r = page_round_range [of sz]
  obtain k where k: "page_round sz = 4096 * k" using r(3) assms(1,2) by auto
  show p: "page_round sz = int P" "0 < P" using r(1) assms(1,2,5) by simp_all
  have "P = 4096 * nat k" using k assms(5) by (simp add: nat_mult_distrib)
  then show d: "4096 dvd P" by simp
  have "page_round sz < 2 ^ 31 - 12288" using r(5) assms(1,2) by simp
  then show b: "P \<le> 2 ^ 31 - 12288" using p(1) by simp
  show "s32 (page_round sz + int hsz) = page_round sz + int hsz" "page_round sz + int hsz \<le> 2 ^ 31 - 4096"
    using p b assms(3,4) by (simp_all add: s32_id)
  have "(page_round sz + int hsz - 1) div 4096 = int P div 4096"
    using p(1) d assms(3,4) by (auto simp: dvd_def intro: int_div_pos_eq [where r = "int hsz - 1"])
  then show "page_round (page_round sz + int hsz) = int (P + 4096)" using d by (auto simp: page_round_def dvd_def)
qed

lemma set_heap_new:
  assumes "rt_get_adr n x (reg q) = Some mem" "rt_get_type n x (reg q) = Some ty" "\<not> mark q mem" "x \<noteq> GLOBAL_HEAP_ID"
    and "0 < mem" "4096 dvd mem" "RTAI_TASK c = Some t"
    and P: "4096 dvd P" "0 < P" "P + 4096 < 2 ^ 31" "\<bar>ty\<bar> = int (P + 4096)" "0 < hsz" "hsz \<le> 4096"
  shows "\<exists>q2 r. rt_set_heap n hsz pm x mem c q = Some q2 \<and> areas q2 = areas q \<and>
    task_heap q2 t SPECIFIC = \<lparr>heap_at = mem + P, kadr = mem, uadr = mem\<rparr> \<and>
    rtheap_init_bsd (\<lambda>_. 0) pm mem P 4096 False (heaps q (mem + P)) = Some (heaps q2 (mem + P), r) \<and> (r = 0 \<longleftrightarrow> 8192 < P)"
proof -
  have hs: "unat (heap_size hsz ty mem mem) = P" using heap_size_eq [OF P(1,5,6,3,4)] .
  obtain h r where "rtheap_init_bsd (\<lambda>_. 0) pm mem P 4096 False (heaps q (mem + P)) = Some (h, r)" "r = 0 \<longleftrightarrow> 8192 < P"
    using init_pages_needed [OF P(1,2) _ assms(5)] P(3) by fastforce
  then show ?thesis
    using assms(3-5) by (simp add: rt_set_heap_def assms(1,2) hs Let_def assms(7) page_align_id [OF assms(6)])
qed

text \<open>C31. With the page allocator, a soft real-time task that opens a heap under a new name, while the registry has room and
  the kernel gives memory aligned as it documents, gets the heap it asked for: the pages that were asked for lie in the
  area, with the descriptor (of at most a page) behind them and still inside the area, and the task's services use
  them. The heap can be started exactly when it has more than two pages; otherwise the address is returned all the same,
  and every request is refused.\<close>

theorem heap_open_layout:
  assumes "shm_ok n q" "1 < x" "x \<noteq> GLOBAL_HEAP_ID" "reg_abs n (reg q) x = None" "card (dom (reg_abs n (reg q))) < n"
    and "0 < sz" "sz \<le> 2 ^ 31 - 16384" "0 \<le> su" "su < 4" "\<not> hard c" "tskext0 c = Some t" "0 < hsz" "hsz \<le> 4096"
    and "kernel_gives su (int (nat (page_round sz) + 4096)) (reg_abs n (reg q)) mem" "P = nat (page_round sz)"
  shows "\<exists>q1 r h0. rt_heap_open n hsz pm x sz su c mem q = Some (q1, mem) \<and>
    (\<exists>k. areas q1 mem = Some (k, P + 4096)) \<and>
    task_heap q1 t SPECIFIC = \<lparr>heap_at = mem + P, kadr = mem, uadr = mem\<rparr> \<and>
    rtheap_init_bsd (\<lambda>_. 0) pm mem P 4096 False h0 = Some (heaps q1 (mem + P), r) \<and> (r = 0 \<longleftrightarrow> 8192 < P)"
proof -
  let ?m = "reg_abs n (reg q)" and ?ask = "page_round sz + int hsz"
  note P = ask_pages [OF assms(6,7,12,13,15)]
  have f: "fresh ?m mem (nat (page_round ?ask))"
    using assms(14) unfolding kernel_gives_def assms(15) [symmetric] P(7) nat_int by blast
  have ask: "0 < ?ask" using P(1) assms(12) by simp
  define ty where "ty = (if su \<noteq> 0 then - page_round ?ask else page_round ?ask)"
  have ty: "\<bar>ty\<bar> = int (P + 4096)" by (simp add: ty_def P(7))
  from alloc_new [OF assms(1,2,4) ask P(6) assms(8-10) f] obtain q1 where
    q1: "shm_alloc n x ?ask su c mem q = Some (q1, mem)" "shm_ok n q1"
      "reg_abs n (reg q1) = ?m(x \<mapsto> \<lparr>oadr = mem, otype = ty, otsk = 0, ocount = 1\<rparr>)" "\<not> mark q1 mem"
    using assms(5) unfolding ty_def by auto
  have w: "reg_wf n (reg q1)" and m: "mem_ok (reg_abs n (reg q1)) (areas q1) (reserved q1)" using q1(2) by (simp_all add: shm_ok_def)
  let ?ob = "\<lparr>oadr = mem, otype = ty, otsk = 0, ocount = 1\<rparr>"
  have ob: "reg_abs n (reg q1) x = Some ?ob" using q1(3) by simp
  have area: "is_area ?ob" using ty by (simp add: is_area_def)
  have ar: "areas q1 mem = Some (area_kind ty, P + 4096)" using mem_okD(7) [OF m ob area] ty by (simp add: nat_add_distrib)
  have mem: "0 < mem" "4096 dvd mem" using f by (simp_all add: fresh_def)
  have g: "rt_get_adr n x (reg q1) = Some mem" "rt_get_type n x (reg q1) = Some ty"
    using get_adr_spec [OF w assms(2)] get_type_spec [OF w assms(2)] ob by simp_all
  have ct: "RTAI_TASK c = Some t" using assms(10,11) by (simp add: RTAI_TASK_def)
  have "P + 4096 < 2 ^ 31" using P(4) by simp
  from set_heap_new [OF g q1(4) assms(3) mem ct P(3,2) this ty assms(12,13), of pm] obtain q2 r where
    q2: "rt_set_heap n hsz pm x mem c q1 = Some q2" "areas q2 = areas q1"
      "task_heap q2 t SPECIFIC = \<lparr>heap_at = mem + P, kadr = mem, uadr = mem\<rparr>"
      "rtheap_init_bsd (\<lambda>_. 0) pm mem P 4096 False (heaps q1 (mem + P)) = Some (heaps q2 (mem + P), r)" "r = 0 \<longleftrightarrow> 8192 < P"
    by blast
  have "rt_heap_open n hsz pm x sz su c mem q = Some (q2, mem)"
    using mem(1) by (simp add: rt_heap_open_def rt_shm_alloc_def P(5) q1(1) q2(1))
  then show ?thesis using ar q2 by (intro exI conjI) (assumption | simp)+
qed

theorem heap_open_layout_witness:
  "\<exists>n t q1 r. rt_registry_alloc 150 True = Some (n, t) \<and>
    rt_heap_open n 240 (\<lambda>_. 0) 7 9000 1 \<lparr>whoami = Linux 0, hard = False, tskext0 = Some (Task 3), current = 1\<rparr> 40960 (demo_shm t)
      = Some (q1, 40960) \<and>
    task_heap q1 (Task 3) SPECIFIC = \<lparr>heap_at = 53248, kadr = 40960, uadr = 40960\<rparr> \<and>
    rtheap_init_bsd (\<lambda>_. 0) (\<lambda>_. 0) 40960 12288 4096 False r = Some (heaps q1 53248, 0)"
proof -
  obtain n t where t: "rt_registry_alloc 150 True = Some (n, t)" "150 \<le> n" using registry_capacity [of 150] by auto
  let ?c = "\<lparr>whoami = Linux 0, hard = False, tskext0 = Some (Task 3), current = 1\<rparr>"
  have w: "reg_wf n t" "reg_abs n t = Map.empty" using registry_alloc_wf [OF t(1)] by simp_all
  have d: "reg (demo_shm t) = t" by (simp add: demo_shm_def)
  have ok: "shm_ok n (demo_shm t)" using w by (intro shm_start) (simp_all add: demo_shm_def)
  have r: "page_round 9000 = 12288" by (simp add: page_round_def)
  have f: "kernel_gives 1 16384 Map.empty 40960" by (simp add: kernel_gives_def fresh_def)
  show ?thesis
  proof -
    have p: "nat (page_round 9000) = 12288" by (simp add: r)
    obtain q1 r h0 where "rt_heap_open n 240 (\<lambda>_. 0) 7 9000 1 ?c 40960 (demo_shm t) = Some (q1, 40960)"
        "task_heap q1 (Task 3) SPECIFIC = \<lparr>heap_at = 40960 + 12288, kadr = 40960, uadr = 40960\<rparr>"
        "rtheap_init_bsd (\<lambda>_. 0) (\<lambda>_. 0) 40960 12288 4096 False h0 = Some (heaps q1 (40960 + 12288), r)" "r = 0 \<longleftrightarrow> (8192 :: nat) < 12288"
      using heap_open_layout [OF ok, of 7 9000 1 ?c "Task 3" 240 40960 "nat (page_round 9000)" "\<lambda>_. 0", unfolded d w(2) p] t(2) f
      by fastforce
    then show ?thesis using t(1) by auto
  qed
qed

end
