(* ===== verification/Spec2Isabelle.thy ===== *)
theory Spec2Isabelle
  imports Nam2num Task_Rings Sched_Run Mbx_Thms Mbx_Conc Sync_Msg_Thms Registry_Thms Fifos_Thms Fifo_Dev Tlsf_Thms Gpma_Thms Shm_Thms
begin

text \<open>
  \<^bold>\<open>RTAI, a hard real-time extension of Linux.\<close> RTAI runs real-time tasks beside the Linux
  kernel: a preemptive priority scheduler for several CPUs, with timed and periodic tasks and
  priority inheritance; semaphores, mailboxes and messages for the tasks to work together;
  a registry in which objects are found by name; FIFOs to Linux processes; shared memory; and a heap for all of them. Every service works on shared kernel data with
  interrupts off and ends, when it must wait, by asking the scheduler to switch to another task.

  \<^bold>\<open>State and services.\<close> The state \<open>kst\<close> (theory \<open>Schedcore\<close>) is a record of everything the
  services share: the task blocks (\<^verbatim>\<open>RT_TASK\<close>, record \<open>rt_task\<close>), semaphores (\<^verbatim>\<open>SEM\<close>), mailboxes
  (\<^verbatim>\<open>MBX\<close>), message control blocks, the ready and the timed list of each CPU, the queues of blocked
  tasks, the task running on each CPU, clocks, the lock of the scheduler and the requests to other
  CPUs. Pointers to objects are identifiers (\<open>tid\<close>, numbers of semaphores and mailboxes, \<open>qref\<close> for
  heads of queues). A service is a function of the CPU it runs on, its arguments and the state. Its
  code between two switching points is atomic, as it is under the global lock; a service that
  may be switched away from is cut there, and the function of the same name with \<open>_resume\<close> or \<open>_turn\<close>
  is what its task does when it runs again. Interleavings are then sequences of such steps. Where the code
  gives up the lock between two steps the parts are definitions of their own (\<open>rwl_release\<close> and the wake-ups of
  \<^verbatim>\<open>rt_rwl_unlock\<close>; \<^verbatim>\<open>CALL_TIMER_HANDLER\<close> behind the switch of \<^verbatim>\<open>rt_schedule\<close>), and the invariants
  treat them as separate steps; \<^verbatim>\<open>rt_sem_broadcast\<close> is one step, though the code opens the lock at each turn of
  its loop. The copying loops of mailboxes and FIFOs run without the lock: \<open>Mbx_Conc\<close> interleaves them. A return
  value of type \<open>option\<close> is \<open>None\<close> where the code would follow a null pointer, trap or not come
  back; errors the code reports are its error codes. Times and counters are integers, with
  the 32-bit wrap-around (\<open>s32\<close>) written out where the code computes in an \<^verbatim>\<open>int\<close>; state masks
  are 32-bit words.

  \<^bold>\<open>The theories.\<close>
  \<^item> \<open>RT_Prelude\<close>: constants of \<^verbatim>\<open>include/rtai_sched.h\<close>, C integers, ordered insertion with its
    laws as locales \<open>ordered_queue\<close> and \<open>fifo_queue\<close>.
  \<^item> \<open>Nam2num\<close>: \<^verbatim>\<open>include/rtai_nam2num.h\<close>, names as numbers and back.
  \<^item> \<open>Task_Rings\<close>: the doubly linked rings of \<^verbatim>\<open>include/rtai_schedcore.h\<close> on a heap of pointers; they
    refine the lists that the other theories use, and their scanning loops end.
  \<^item> \<open>Schedcore\<close>: the state; ready list, timed list and blocked queues, timer wake-up, priority passing
    (\<^verbatim>\<open>include/rtai_schedcore.h\<close>, \<^verbatim>\<open>rtai_prinher.h\<close>); the invariant \<open>sched_wf\<close> of the lists.
  \<^item> \<open>Task_Init\<close>, \<open>Sched\<close>: \<^verbatim>\<open>src/sched/sched.c\<close> and \<^verbatim>\<open>src/sched/api.c\<close>, that is start-up, creation
    of tasks, \<^verbatim>\<open>rt_schedule\<close>, the timer and IPI handlers, scheduler lock, time conversions, and the
    task services (suspend, resume, sleep, periods, priorities).
  \<^item> \<open>Sched_Wf\<close>: every one of these keeps \<open>sched_wf\<close>; the task that runs after \<^verbatim>\<open>rt_schedule\<close> is the most
    urgent ready one; the timer wakes the tasks that are due by the latest resume time it looks at (the head of the list, and what is
    within its latency) and no others; a locked scheduler switches nothing, in any run until the unlock.
  \<^item> \<open>Prio_Inherit\<close>: \<^verbatim>\<open>pass_prio\<close> restores inheritance along the whole chain of blocked owners; its loop, as a
    partial function, ends.
  \<^item> \<open>Sem\<close>: \<^verbatim>\<open>src/ipc/sem/sem.c\<close> (semaphores, resources, barriers, condition variables, read-write
    locks, recursive spin locks) and the deletion of tasks. \<open>Sem_Thms\<close>: the count tells the number of
    waiters under any sequence of services. \<open>Sem_Spec\<close>: an abstract semaphore that wait and signal
    refine, mutual exclusion of resources and of read-write locks, conservation of tokens (locale
    \<open>token_counter\<close>), barriers.
  \<^item> \<open>Sched_Run\<close>: the kernel as a machine (\<open>kernel_step\<close>, whose rules state what a call must not do): the events, task
    services and semaphore services it lists, in any order from start-up on, keep \<open>sched_wf\<close> and the links between
    tasks, queues and owners (\<open>rt_links\<close>). Deletions and the mailbox services are not among them.
  \<^item> \<open>Mbx_Buffer\<close>: the circular buffer of \<^verbatim>\<open>src/ipc/mbx/mbx.c\<close>, which refines a byte queue (locale
    \<open>byte_queue\<close>). \<open>Mbx\<close>: the services. \<open>Mbx_Thms\<close>: bytes leave in the order they entered; conditional services are all or nothing; waiting receivers
    are served. \<open>Mbx_Conc\<close>: the copying of senders and receivers interleaved byte by byte, under the two semaphores
    of a mailbox; bytes still leave in the order they entered.
  \<^item> \<open>Msg\<close>: \<^verbatim>\<open>src/ipc/msg/msg.c\<close>, sends, remote procedure calls, returns, receives, extended messages and
    proxies. \<open>Msg_Thms\<close>: delivery to a waiting receiver, service of queued senders, returned values.
    \<open>Sync_Msg\<close>: the synchronous messages of the same file between tasks that are known by their pid, on the state
    \<open>smsg_st\<close>, which adds the control blocks of messages and the names of tasks. \<open>Sync_Msg_Thms\<close>: a message makes its
    round from the sender to the receiver and back.
  \<^item> \<open>Registry\<close>: the hashed name registry of \<^verbatim>\<open>src/sched/api.c\<close> and the generator of names.
    \<open>Registry_Thms\<close>: the registry refines a finite map (locale \<open>data_refinement\<close>).
  \<^item> \<open>Fifos\<close>: \<^verbatim>\<open>src/ipc/fifos/fifos.c\<close>, byte FIFOs between real-time tasks and Linux processes, with a state
    of their own (\<open>fks\<close>): semaphores, buffers, the ring of processes to wake, named FIFOs.
    \<open>Fifos_Thms\<close>: a FIFO answers puts and gets as a bounded byte queue (the contract of the mailbox buffer);
    resizing keeps its bytes; signals reach the processes they are for; what a signal to a waiting process does. \<open>Fifo_Dev\<close>: the device files, with
    the requests that \<^verbatim>\<open>rtf_ioctl\<close> dispatches.
  \<^item> \<open>Tlsf\<close>: the two-level segregated-fit allocator of \<^verbatim>\<open>src/malloc/malloc.c\<close> on 64-bit words, with a state of
    its own (\<open>tlsf_t\<close>: headers by address, bitmaps and free lists), and its heaps of extents. \<open>Tlsf_Bits\<close>:
    the bit searches and the size classes; \<open>Tlsf_Lists\<close>: the free lists agree with the bitmaps;
    \<open>Tlsf_Blocks\<close>: the invariant \<open>tlsf_wf\<close> of a pool as a row of blocks, which splitting, merging and start-up
    keep. \<open>Tlsf_Thms\<close>: the pools interpret the locale \<open>region_allocator\<close>.
  \<^item> \<open>Gpma\<close>: the page allocator of the same file, which is built in the default configuration, with heaps of
    extents, page maps and buckets. \<open>Gpma_Lists\<close>: the lists that run through free memory;
    \<open>Gpma_Layout\<close>, \<open>Gpma_Extents\<close>: the pages of an extent as a row of segments, from which the page map and the list of
    free pages follow; \<open>Gpma_Heap\<close>, \<open>Gpma_Ops\<close>, \<open>Gpma_Req\<close>: the invariant \<open>gpma_wf\<close> of a heap and the set of the blocks
    in use, which requests and releases change as they should; \<open>Gpma_Contract\<close>: the heaps interpret the
    locale \<open>region_allocator\<close>, and start-up establishes it; \<open>Gpma_Thms\<close>: the properties.
  \<^item> \<open>Shm\<close>: \<^verbatim>\<open>src/ipc/shm/shm.c\<close> and \<^verbatim>\<open>kvmem.c\<close>, areas of shared memory under counted names of the registry, and heaps of
    the page allocator inside of them, on a state of their own (\<open>shm_st\<close>). \<open>Shm_Thms\<close>: the memory that the kernel has
    given out and the reserved pages are always those of the names in the registry (the services interpret
    \<open>data_refinement\<close> again), provided that the kernel gives whole pages (\<open>kernel_gives\<close>), that only areas are released
    and that a name has fewer than 65535 users; the layout of a heap that is opened.
  \<^item> \<open>Regions\<close>: the locale \<open>region_allocator\<close>, the contract that both allocators fulfil; from it alone follows that
    no client ever holds two regions that overlap.

  \<^bold>\<open>Loops.\<close> Loops over lists are structural recursions. \<^verbatim>\<open>pass_prio\<close> runs on fuel: each turn lowers the
  priority value of one more task, so one more than the number of tasks is enough. \<open>pass_prio_terminates\<close> proves it:
  the loop as a partial function returns, with the result of the function on fuel. The loops of the mailbox buffer and the probing of the registry
  are partial functions, as are the searches of the page allocator, and the properties about them say that they return.

  \<^bold>\<open>Configuration.\<close> SMP, one-shot timer, the simple priority inheritance (no
  \<^verbatim>\<open>CONFIG_RTAI_FULL_PRINHER\<close>), the new error codes (\<^verbatim>\<open>CONFIG_RTAI_USE_NEWERR\<close>), no long timed lists
  (red-black trees), no polling.

  \<^bold>\<open>Not modelled.\<close> Context switches, FPU and hardware (\<^verbatim>\<open>rtai_hal.c\<close>, calibration), which have
  no meaning above the machine; the handling of Linux tasks and system calls in \<^verbatim>\<open>sched.c\<close> and
  \<^verbatim>\<open>sys.c\<close>, which rests on kernel functions outside the repository; user-space wrappers
  (\<^verbatim>\<open>rtai_lxrt.h\<close> and the inline parts of the headers), which pass arguments to the services;
  \<^verbatim>\<open>/proc\<close> output and the registration of the modules; the mathematical library under \<^verbatim>\<open>src/math\<close>, which is copied from
  elsewhere.
\<close>

end
